(* ===== verification/KV_Prelude.thy ===== *)
theory KV_Prelude
  imports Main "HOL-Library.Word"
begin

text \<open>
  Shared vocabulary of the development: the fixed-width integers of the C++ code, the outcome
  type of a fallible C++ function with its sequencing operator, strings against byte vectors,
  writing a run of bytes into a vector, and the word and list facts the components use.

  Conventions used in every theory.
  \<^item> \<open>std::uint8_t\<close> to \<open>std::uint64_t\<close> are words; so are \<open>std::int8_t\<close> to \<open>std::int64_t\<close>
    when they are only stored and copied (a \<open>std::bit_cast\<close> between the signed and the unsigned
    type of one width is then the identity). Signed values that the code compares or increments
    (Kafka partitions and offsets) are \<open>int\<close>.
  \<^item> \<open>std::size_t\<close> is \<open>nat\<close>: it counts elements of vectors that exist in memory. Where the
    code computes a size that might not fit in 64 bits the reduction \<open>mod 2 ^ 64\<close> is written out,
    or the value is a 64-bit word.
  \<^item> A null \<open>std::shared_ptr\<close> or raw pointer is \<open>None\<close>.
\<close>

unbundle bit_operations_syntax

section \<open>Machine integers\<close>

type_synonym u8 = "8 word"
type_synonym u16 = "16 word"
type_synonym u32 = "32 word"
type_synonym u64 = "64 word"
type_synonym byte = "8 word"

section \<open>Outcomes of fallible functions\<close>

text \<open>
  \<open>StatusCode\<close> is the enum of \<open>status.h\<close>. A C++ function that returns \<open>Status\<close> or
  \<open>StatusOr<T>\<close> can end in four ways: with a value, with a non-OK status (\<open>Error\<close>), by throwing
  (\<open>Throw\<close>, with the message of the exception), or not at all when a loop never exits
  (\<open>Diverge\<close>).
\<close>

datatype StatusCode =
    kOk | kCancelled | kInvalidArgument | kNotFound | kFailedPrecondition
  | kInternal | kUnavailable | kUnknown

datatype failure = Error StatusCode string | Throw string | Diverge

type_synonym 'a res = "failure + 'a"

abbreviation InvalidArgument :: "string \<Rightarrow> failure" where
  "InvalidArgument m \<equiv> Error kInvalidArgument m"

abbreviation FailedPrecondition :: "string \<Rightarrow> failure" where
  "FailedPrecondition m \<equiv> Error kFailedPrecondition m"

abbreviation NotFound :: "string \<Rightarrow> failure" where
  "NotFound m \<equiv> Error kNotFound m"

abbreviation Internal :: "string \<Rightarrow> failure" where
  "Internal m \<equiv> Error kInternal m"

abbreviation Unavailable :: "string \<Rightarrow> failure" where
  "Unavailable m \<equiv> Error kUnavailable m"

abbreviation Cancelled :: "string \<Rightarrow> failure" where
  "Cancelled m \<equiv> Error kCancelled m"

text \<open>Sequencing: \<open>if (!x.ok()) return x.status();\<close> and then the rest of the body.\<close>

definition rbind :: "'a res \<Rightarrow> ('a \<Rightarrow> 'b res) \<Rightarrow> 'b res" where
  "rbind m f = (case m of Inl e \<Rightarrow> Inl e | Inr x \<Rightarrow> f x)"

text \<open>An early return guarded by a condition.\<close>

definition reject :: "bool \<Rightarrow> failure \<Rightarrow> unit res" where
  "reject b e = (if b then Inl e else Inr ())"

text \<open>A loop that runs a fallible body on every element and collects the results.\<close>

fun mapM_res :: "('a \<Rightarrow> 'b res) \<Rightarrow> 'a list \<Rightarrow> 'b list res" where
  "mapM_res f [] = Inr []"
| "mapM_res f (x # xs) = rbind (f x) (\<lambda>y. rbind (mapM_res f xs) (\<lambda>ys. Inr (y # ys)))"

text \<open>A loop that threads a state through a fallible body.\<close>

fun foldM_res :: "('a \<Rightarrow> 's \<Rightarrow> 's res) \<Rightarrow> 'a list \<Rightarrow> 's \<Rightarrow> 's res" where
  "foldM_res f [] s = Inr s"
| "foldM_res f (x # xs) s = rbind (f x s) (foldM_res f xs)"

section \<open>Strings and byte vectors\<close>

text \<open>\<open>reinterpret_cast\<close> between \<open>const char*\<close> and \<open>const std::byte*\<close>.\<close>

definition bytes_of_string :: "string \<Rightarrow> byte list" where
  "bytes_of_string s = map (\<lambda>c. of_nat (of_char c)) s"

definition string_of_bytes :: "byte list \<Rightarrow> string" where
  "string_of_bytes bs = map (\<lambda>b. char_of (unat b)) bs"

section \<open>Writing a run of bytes\<close>

definition overwrite :: "nat \<Rightarrow> 'a list \<Rightarrow> 'a list \<Rightarrow> 'a list" where
  "overwrite off ys xs = take off xs @ ys @ drop (off + length ys) xs"

definition subspan :: "nat \<Rightarrow> nat \<Rightarrow> 'a list \<Rightarrow> 'a list" where
  "subspan off n xs = take n (drop off xs)"

section \<open>Fact collections\<close>

named_theorems res_simps "unfolding of outcome combinators"
named_theorems layout_defs "definitions of the schema and layout compiler"
named_theorems frame_simps "what an operation leaves unchanged"

section \<open>Outcome lemmas\<close>

lemma rbind_Inl [simp]: "rbind (Inl e) f = Inl e"
  by (simp add: rbind_def)

lemma rbind_Inr [simp]: "rbind (Inr x) f = f x"
  by (simp add: rbind_def)

lemma rbind_eq_Inr [simp]: "rbind m f = Inr y \<longleftrightarrow> (\<exists>x. m = Inr x \<and> f x = Inr y)"
  by (cases m) auto

lemma rbind_eq_Inl: "rbind m f = Inl e \<longleftrightarrow> m = Inl e \<or> (\<exists>x. m = Inr x \<and> f x = Inl e)"
  by (cases m) auto

lemma rbind_return [simp]: "rbind m Inr = m"
  by (cases m) auto

lemma rbind_assoc: "rbind (rbind m f) g = rbind m (\<lambda>x. rbind (f x) g)"
  by (cases m) auto

lemma reject_eq_Inr [simp]: "reject b e = Inr u \<longleftrightarrow> \<not> b"
  by (simp add: reject_def)

lemma reject_eq_Inl [simp]: "reject b e = Inl e' \<longleftrightarrow> b \<and> e' = e"
  by (auto simp: reject_def)

lemma reject_False [simp]: "reject False e = Inr ()"
  by (simp add: reject_def)

lemma reject_True [simp]: "reject True e = Inl e"
  by (simp add: reject_def)

lemma rbind_reject: "rbind (reject b e) f = (if b then Inl e else f ())"
  by (simp add: reject_def)

lemma mapM_res_Inr_iff:
  "mapM_res f xs = Inr ys \<longleftrightarrow> length ys = length xs \<and> (\<forall>i < length xs. f (xs ! i) = Inr (ys ! i))"
proof (induction xs arbitrary: ys)
  case Nil
  then show ?case by auto
next
  case (Cons x xs)
  show ?case
    by (cases ys) (auto simp: Cons.IH nth_Cons less_Suc_eq_0_disj split: nat.splits)
qed

lemma mapM_res_map: "(\<And>x. x \<in> set xs \<Longrightarrow> f x = Inr (g x)) \<Longrightarrow> mapM_res f xs = Inr (map g xs)"
  by (induction xs) auto

lemma mapM_res_Inl: "mapM_res f xs = Inl e \<Longrightarrow> \<exists>x \<in> set xs. f x = Inl e"
  by (induction xs) (auto simp: rbind_eq_Inl)

lemma mapM_res_append [res_simps]:
  "mapM_res f (xs @ ys) = rbind (mapM_res f xs) (\<lambda>as. rbind (mapM_res f ys) (\<lambda>bs. Inr (as @ bs)))"
  by (induction xs) (auto simp: rbind_def split: sum.splits)

lemma mapM_res_cong:
  "(\<And>x. x \<in> set xs \<Longrightarrow> f x = g x) \<Longrightarrow> mapM_res f xs = mapM_res g xs"
  by (induction xs) auto

lemma foldM_res_append [res_simps]:
  "foldM_res f (xs @ ys) s = rbind (foldM_res f xs s) (foldM_res f ys)"
  by (induction xs arbitrary: s) (auto simp: rbind_def split: sum.splits)

lemma foldM_unit_Inr: "foldM_res (\<lambda>x _. f x) xs () = Inr () \<longleftrightarrow> (\<forall>x \<in> set xs. f x = Inr ())"
  by (induction xs) auto

lemma foldM_res_invariant:
  assumes "foldM_res f xs s = Inr s'" and "P s"
    and "\<And>x s s'. x \<in> set xs \<Longrightarrow> P s \<Longrightarrow> f x s = Inr s' \<Longrightarrow> P s'"
  shows "P s'"
  using assms by (induction xs arbitrary: s) auto

section \<open>String and byte lemmas\<close>

lemma length_bytes_of_string [simp]: "length (bytes_of_string s) = length s"
  by (simp add: bytes_of_string_def)

lemma length_string_of_bytes [simp]: "length (string_of_bytes bs) = length bs"
  by (simp add: string_of_bytes_def)

lemma string_of_bytes_of_string [simp]: "string_of_bytes (bytes_of_string s) = s"
proof -
  have "char_of (unat (of_nat (of_char c :: nat) :: byte)) = c" for c
    by (simp add: unat_of_nat)
  then show ?thesis
    by (simp add: string_of_bytes_def bytes_of_string_def comp_def)
qed

lemma bytes_of_string_of_bytes [simp]: "bytes_of_string (string_of_bytes bs) = bs"
proof -
  have "of_nat (of_char (char_of (unat b) :: char) :: nat) = b" for b :: byte
  proof -
    have "unat b < 256" using unsigned_less [of b, where ?'a = nat] by simp
    then show ?thesis by simp
  qed
  then show ?thesis
    by (simp add: string_of_bytes_def bytes_of_string_def comp_def)
qed

section \<open>Lists\<close>

lemma length_overwrite [simp]:
  "off + length ys \<le> length xs \<Longrightarrow> length (overwrite off ys xs) = length xs"
  by (simp add: overwrite_def)

lemma nth_overwrite:
  assumes "off + length ys \<le> length xs" and "i < length xs"
  shows "overwrite off ys xs ! i =
    (if off \<le> i \<and> i < off + length ys then ys ! (i - off) else xs ! i)"
  using assms by (auto simp: overwrite_def nth_append min_def)

lemma overwrite_snoc:
  assumes "off + Suc (length ys) \<le> length xs"
  shows "(overwrite off ys xs)[off + length ys := y] = overwrite off (ys @ [y]) xs"
  using assms by (intro nth_equalityI) (auto simp: nth_overwrite nth_list_update nth_append)

lemma subspan_overwrite_same [simp]:
  "off + length ys \<le> length xs \<Longrightarrow> subspan off (length ys) (overwrite off ys xs) = ys"
  by (simp add: subspan_def overwrite_def)

lemma length_subspan [simp]: "off + n \<le> length xs \<Longrightarrow> length (subspan off n xs) = n"
  by (simp add: subspan_def)

lemma nth_subspan: "off + n \<le> length xs \<Longrightarrow> i < n \<Longrightarrow> subspan off n xs ! i = xs ! (off + i)"
  by (simp add: subspan_def)

lemma subspan_overwrite_disjoint:
  assumes "off + length ys \<le> length xs" and "o' + n \<le> length xs"
    and "o' + n \<le> off \<or> off + length ys \<le> o'"
  shows "subspan o' n (overwrite off ys xs) = subspan o' n xs"
  using assms by (intro nth_equalityI) (auto simp: nth_subspan nth_overwrite)

lemma subspan_list_update: "i < off \<Longrightarrow> subspan off n (xs[i := v]) = subspan off n xs"
  by (simp add: subspan_def)

lemma mapM_res_mono:
  assumes "mapM_res f xs = Inr ys" and "\<And>x y. x \<in> set xs \<Longrightarrow> f x = Inr y \<Longrightarrow> g x = Inr y"
  shows "mapM_res g xs = Inr ys"
  using assms by (induction xs arbitrary: ys) auto

lemma subspan_append1 [simp]: "off + n \<le> length xs \<Longrightarrow> subspan off n (xs @ ys) = subspan off n xs"
  by (simp add: subspan_def)

lemma subspan_append2 [simp]: "subspan (length xs) (length ys) (xs @ ys @ zs) = ys"
  by (simp add: subspan_def)

lemma subspan_append3 [simp]: "subspan (length xs) (length ys) (xs @ ys) = ys"
  by (simp add: subspan_def)

lemma option_eqI: "(\<And>x. a = Some x \<longleftrightarrow> b = Some x) \<Longrightarrow> a = b"
  by (cases a; cases b) auto

section \<open>Words\<close>

lemma unat_and_mask_pow2:
  fixes h :: "'a :: len word"
  shows "unat (h AND (2 ^ n - 1)) = unat h mod 2 ^ n"
proof -
  have "(2 ^ n - 1 :: 'a word) = mask n" by (simp add: mask_eq_exp_minus_1)
  then have "h AND (2 ^ n - 1) = take_bit n h" by (simp add: take_bit_eq_mask)
  then have "unat (h AND (2 ^ n - 1)) = take_bit n (unat h)"
    by (simp only: unsigned_take_bit_eq)
  then show ?thesis by (simp only: take_bit_eq_mod)
qed

lemma unat_pow2:
  assumes "n < LENGTH('a)"
  shows "unat (2 ^ n :: 'a :: len word) = 2 ^ n"
proof -
  have "unat (of_nat (2 ^ n) :: 'a word) = 2 ^ n mod 2 ^ LENGTH('a)"
    by (rule unat_of_nat)
  with assms show ?thesis by simp
qed

lemma unat_max64 [simp]: "unat (-1 :: u64) = 2 ^ 64 - 1"
  by (simp add: unsigned_minus_1_eq_mask mask_eq_exp_minus_1)

lemma unat_add_eq:
  fixes a b :: "'a :: len word"
  shows "unat a + unat b < 2 ^ LENGTH('a) \<Longrightarrow> unat (a + b) = unat a + unat b"
  by (simp add: unat_word_ariths)

lemma unat_mult_eq:
  fixes a b :: "'a :: len word"
  shows "unat a * unat b < 2 ^ LENGTH('a) \<Longrightarrow> unat (a * b) = unat a * unat b"
  by (simp add: unat_word_ariths)

end
