(* ===== verification/Byte_IO.thy ===== *)
theory Byte_IO
  imports KV_Prelude
begin

text \<open>
  \<open>src/base/byte_io.h\<close>: alignment, bounds-checked little-endian access to byte spans, and the
  16-byte value reference. Every binary format of the program (row slots, the frozen primary-key
  index, artifacts, Kafka payloads) goes through these functions. The contract that the other
  components use is the locale \<open>fixed_codec\<close>; it is interpreted for each integer width and for
  the value reference.
\<close>

section \<open>Definitions\<close>

definition AlignUp :: "nat \<Rightarrow> nat \<Rightarrow> nat" where
  "AlignUp value alignment =
     (if alignment = 0 then value
      else let remainder = value mod alignment in
        if remainder = 0 then value
        else (value + (alignment - remainder)) mod 2 ^ 64)"

definition sizeof :: "'a :: len itself \<Rightarrow> nat" where
  "sizeof t = LENGTH('a) div 8"

definition out_of_bounds :: failure where
  "out_of_bounds = InvalidArgument ''little-endian fixed-width access is out of bounds''"

definition CheckSpanBounds :: "nat \<Rightarrow> nat \<Rightarrow> nat \<Rightarrow> unit res" where
  "CheckSpanBounds sz offset byte_count =
     (if offset > sz \<or> sz - offset < byte_count then Inl out_of_bounds else Inr ())"

text \<open>The template parameter \<open>T\<close> is the word length; signed integers are given by their bits.\<close>

definition WriteLittleEndian :: "'a :: len word \<Rightarrow> byte list \<Rightarrow> nat \<Rightarrow> byte list res" where
  "WriteLittleEndian value bytes offset =
     rbind (CheckSpanBounds (length bytes) offset (sizeof TYPE('a))) (\<lambda>_.
       Inr (fold (\<lambda>i bs. bs[offset + i := ucast (drop_bit (i * 8) value AND 0xff)])
              [0..<sizeof TYPE('a)] bytes))"

definition ReadLittleEndian :: "byte list \<Rightarrow> nat \<Rightarrow> 'a :: len word res" where
  "ReadLittleEndian bytes offset =
     rbind (CheckSpanBounds (length bytes) offset (sizeof TYPE('a))) (\<lambda>_.
       Inr (fold (\<lambda>i v. v OR push_bit (i * 8) (ucast (bytes ! (offset + i))))
              [0..<sizeof TYPE('a)] 0))"

record ValueRef16 =
  vr_offset :: u64
  vr_byte_length :: u32
  vr_element_count_or_flags :: u32

definition WriteValueRef16 :: "ValueRef16 \<Rightarrow> byte list \<Rightarrow> nat \<Rightarrow> byte list res" where
  "WriteValueRef16 ref bytes offset =
     rbind (CheckSpanBounds (length bytes) offset 16) (\<lambda>_.
     rbind (WriteLittleEndian (vr_offset ref) bytes offset) (\<lambda>bytes.
     rbind (WriteLittleEndian (vr_byte_length ref) bytes (offset + 8)) (\<lambda>bytes.
     WriteLittleEndian (vr_element_count_or_flags ref) bytes (offset + 12))))"

definition DecodeValueRef16 :: "byte list \<Rightarrow> nat \<Rightarrow> ValueRef16 res" where
  "DecodeValueRef16 bytes offset =
     rbind (CheckSpanBounds (length bytes) offset 16) (\<lambda>_.
     rbind (ReadLittleEndian bytes offset) (\<lambda>ref_offset.
     rbind (ReadLittleEndian bytes (offset + 8)) (\<lambda>byte_length.
     rbind (ReadLittleEndian bytes (offset + 12)) (\<lambda>count.
     Inr \<lparr>vr_offset = ref_offset, vr_byte_length = byte_length,
          vr_element_count_or_flags = count\<rparr>))))"

text \<open>Closed forms: the bytes of a word, least significant first, and the word of some bytes.\<close>

definition le_bytes :: "'a :: len word \<Rightarrow> byte list" where
  "le_bytes v = map (\<lambda>i. ucast (drop_bit (i * 8) v)) [0..<sizeof TYPE('a)]"

definition le_word :: "byte list \<Rightarrow> 'a :: len word" where
  "le_word bs = fold (\<lambda>i v. v OR push_bit (i * 8) (ucast (bs ! i))) [0..<length bs] 0"

definition ref_bytes :: "ValueRef16 \<Rightarrow> byte list" where
  "ref_bytes r = le_bytes (vr_offset r) @ le_bytes (vr_byte_length r)
     @ le_bytes (vr_element_count_or_flags r)"

definition ref_of_bytes :: "byte list \<Rightarrow> ValueRef16" where
  "ref_of_bytes bs = \<lparr>vr_offset = le_word (subspan 0 8 bs), vr_byte_length = le_word (subspan 8 4 bs),
     vr_element_count_or_flags = le_word (subspan 12 4 bs)\<rparr>"

section \<open>Alignment\<close>

lemma AlignUp_spec:
  assumes "0 < a" and "v + a \<le> 2 ^ 64"
  shows "a dvd AlignUp v a" and "v \<le> AlignUp v a" and "AlignUp v a < v + a"
proof -
  define r where "r = v mod a"
  have r: "r < a" "v = v div a * a + r" using assms by (auto simp: r_def)
  have eq: "AlignUp v a = (if r = 0 then v else v div a * a + a)"
    using assms r by (auto simp: AlignUp_def Let_def r_def[symmetric])
  show "a dvd AlignUp v a" using r assms by (auto simp: eq r_def)
  show "v \<le> AlignUp v a" "AlignUp v a < v + a" using r by (auto simp: eq)
qed

lemma AlignUp_fixed: "a dvd v \<Longrightarrow> AlignUp v a = v"
  by (auto simp: AlignUp_def)

section \<open>Little-endian words\<close>

lemma CheckSpanBounds_eq:
  "CheckSpanBounds sz offset n = (if offset + n \<le> sz then Inr () else Inl out_of_bounds)"
  by (auto simp: CheckSpanBounds_def)

lemma sizeof_simps [simp]:
  "sizeof TYPE(8) = 1" "sizeof TYPE(16) = 2" "sizeof TYPE(32) = 4" "sizeof TYPE(64) = 8"
  by (simp_all add: sizeof_def)

lemma fold_list_update:
  "off + n \<le> length xs \<Longrightarrow>
   fold (\<lambda>i bs. bs[off + i := f i]) [0..<n] xs = overwrite off (map f [0..<n]) xs"
proof (induction n)
  case 0
  then show ?case by (simp add: overwrite_def)
next
  case (Suc n)
  then have "fold (\<lambda>i bs. bs[off + i := f i]) [0..<n] xs = overwrite off (map f [0..<n]) xs"
    by simp
  with Suc.prems overwrite_snoc [of off "map f [0..<n]" xs "f n"] show ?case
    by simp
qed

lemma byte_of_drop_bit: "(ucast (v AND 0xff :: 'a :: len word) :: byte) = ucast v"
proof (rule bit_word_eqI)
  fix n assume n: "n < LENGTH(8)"
  have "(0xff :: 'a word) = mask 8" by (simp add: mask_eq_exp_minus_1)
  then have "bit (ucast (v AND 0xff) :: byte) n = bit (ucast (v AND mask 8) :: byte) n"
    by (simp only:)
  also have "\<dots> = bit (ucast v :: byte) n"
    using n by (auto simp: bit_simps bit_imp_le_length)
  finally show "bit (ucast (v AND 0xff) :: byte) n = bit (ucast v :: byte) n" .
qed

lemma bit_fold_or:
  "bit (fold (\<lambda>i v. v OR push_bit (i * 8) (ucast (g i :: byte))) [0..<n] (0 :: 'a :: len word)) k
   \<longleftrightarrow> k < LENGTH('a) \<and> k < n * 8 \<and> bit (g (k div 8)) (k mod 8)"
proof (induction n)
  case 0
  then show ?case by simp
next
  case (Suc n)
  have b: "bit (g n) (k - n * 8) \<longleftrightarrow> k - n * 8 < 8 \<and> bit (g n) (k - n * 8)"
    using bit_imp_le_length [of "g n" "k - n * 8"] by auto
  have "bit (push_bit (n * 8) (ucast (g n)) :: 'a word) k
        \<longleftrightarrow> k < LENGTH('a) \<and> n * 8 \<le> k \<and> k - n * 8 < 8 \<and> bit (g n) (k - n * 8)"
    using b by (auto simp: bit_push_bit_iff bit_ucast_iff bit_imp_le_length)
  also have "\<dots> \<longleftrightarrow> k < LENGTH('a) \<and> k div 8 = n \<and> bit (g (k div 8)) (k mod 8)"
  proof -
    have "n * 8 \<le> k \<and> k - n * 8 < 8 \<longleftrightarrow> k div 8 = n" by auto
    moreover have "k div 8 = n \<Longrightarrow> k mod 8 = k - n * 8"
      by (metis minus_mult_div_eq_mod mult.commute)
    ultimately show ?thesis by metis
  qed
  finally show ?case
    using Suc.IH by (auto simp: bit_or_iff)
qed

lemma length_le_bytes [simp]: "length (le_bytes (v :: 'a :: len word)) = sizeof TYPE('a)"
  by (simp add: le_bytes_def)

lemma nth_le_bytes: "i < sizeof TYPE('a) \<Longrightarrow> le_bytes (v :: 'a :: len word) ! i = ucast (drop_bit (i * 8) v)"
  by (simp add: le_bytes_def)

lemma bit_le_word:
  "bit (le_word bs :: 'a :: len word) k
   \<longleftrightarrow> k < LENGTH('a) \<and> k < length bs * 8 \<and> bit (bs ! (k div 8)) (k mod 8)"
  unfolding le_word_def by (rule bit_fold_or)

lemma le_word_le_bytes:
  assumes "8 dvd LENGTH('a)"
  shows "le_word (le_bytes (v :: 'a :: len word)) = v"
proof (rule bit_word_eqI)
  fix k assume k: "k < LENGTH('a)"
  from assms have L: "LENGTH('a) = sizeof TYPE('a) * 8" by (simp add: sizeof_def)
  with k have "k div 8 < sizeof TYPE('a)" by (simp add: less_mult_imp_div_less)
  moreover have "k mod 8 + k div 8 * 8 = k" "k mod 8 < LENGTH(8)" by simp_all
  ultimately show "bit (le_word (le_bytes v) :: 'a word) k = bit v k"
    using k L by (simp add: bit_le_word nth_le_bytes bit_ucast_iff bit_drop_bit_eq add.commute
        del: len_bit0)
qed

lemma le_bytes_le_word:
  assumes "8 dvd LENGTH('a)" and "length bs = sizeof TYPE('a)"
  shows "le_bytes (le_word bs :: 'a :: len word) = bs"
proof (rule nth_equalityI)
  show "length (le_bytes (le_word bs :: 'a word)) = length bs" by (simp add: assms)
next
  fix i assume "i < length (le_bytes (le_word bs :: 'a word))"
  then have i: "i < sizeof TYPE('a)" by simp
  have L: "LENGTH('a) = sizeof TYPE('a) * 8" using assms by (simp add: sizeof_def)
  show "le_bytes (le_word bs :: 'a word) ! i = bs ! i"
  proof (rule bit_word_eqI)
    fix n assume n: "n < LENGTH(8)"
    have 1: "(n + i * 8) div 8 = i" "(n + i * 8) mod 8 = n" using n by auto
    have 2: "n + i * 8 < sizeof TYPE('a) * 8"
    proof -
      have "n + i * 8 < Suc i * 8" using n by simp
      also have "\<dots> \<le> sizeof TYPE('a) * 8" using i by (intro mult_le_mono1) simp
      finally show ?thesis .
    qed
    show "bit (le_bytes (le_word bs :: 'a word) ! i) n = bit (bs ! i) n"
      using n 1 2 L assms(2)
      by (simp add: nth_le_bytes [OF i] bit_ucast_iff bit_drop_bit_eq bit_le_word add.commute)
  qed
qed

lemma WriteLittleEndian_eq:
  "WriteLittleEndian (v :: 'a :: len word) bs off =
     (if off + sizeof TYPE('a) \<le> length bs then Inr (overwrite off (le_bytes v) bs)
      else Inl out_of_bounds)"
  by (simp add: WriteLittleEndian_def CheckSpanBounds_eq fold_list_update byte_of_drop_bit le_bytes_def)

lemma ReadLittleEndian_eq:
  "(ReadLittleEndian bs off :: 'a :: len word res) =
     (if off + sizeof TYPE('a) \<le> length bs then Inr (le_word (subspan off (sizeof TYPE('a)) bs))
      else Inl out_of_bounds)"
proof (cases "off + sizeof TYPE('a) \<le> length bs")
  case True
  have "fold (\<lambda>i v. v OR push_bit (i * 8) (ucast (bs ! (off + i)))) [0..<sizeof TYPE('a)] (0 :: 'a word)
      = le_word (subspan off (sizeof TYPE('a)) bs)"
    unfolding le_word_def using True by (intro fold_cong) (auto simp: nth_subspan)
  with True show ?thesis by (simp add: ReadLittleEndian_def CheckSpanBounds_eq)
qed (simp add: ReadLittleEndian_def CheckSpanBounds_eq)

section \<open>The codec contract\<close>

text \<open>
  What a client of the byte functions relies on: a value occupies \<open>width\<close> bytes, writing
  replaces exactly these bytes, and an access that does not fit fails and changes nothing.
\<close>

locale fixed_codec =
  fixes width :: nat
    and enc :: "'v \<Rightarrow> byte list"
    and dec :: "byte list \<Rightarrow> 'v"
    and wr :: "'v \<Rightarrow> byte list \<Rightarrow> nat \<Rightarrow> byte list res"
    and rd :: "byte list \<Rightarrow> nat \<Rightarrow> 'v res"
  assumes length_enc: "length (enc v) = width"
    and dec_enc: "dec (enc v) = v"
    and write_eq: "wr v bs off =
      (if off + width \<le> length bs then Inr (overwrite off (enc v) bs) else Inl out_of_bounds)"
    and read_eq: "rd bs off =
      (if off + width \<le> length bs then Inr (dec (subspan off width bs)) else Inl out_of_bounds)"
begin

lemma write_length: "wr v bs off = Inr bs' \<Longrightarrow> length bs' = length bs"
  by (auto simp: write_eq length_enc split: if_splits)

lemma write_succeeds: "(\<exists>bs'. wr v bs off = Inr bs') \<longleftrightarrow> off + width \<le> length bs"
  by (auto simp: write_eq)

lemma read_write_same: "wr v bs off = Inr bs' \<Longrightarrow> rd bs' off = Inr v"
  using subspan_overwrite_same [of off "enc v" bs]
  by (auto simp: write_eq read_eq length_enc dec_enc split: if_splits)

lemma subspan_write_disjoint:
  "wr v bs off = Inr bs' \<Longrightarrow> o' + n \<le> length bs \<Longrightarrow> o' + n \<le> off \<or> off + width \<le> o' \<Longrightarrow>
   subspan o' n bs' = subspan o' n bs"
  by (auto simp: write_eq subspan_overwrite_disjoint length_enc split: if_splits)

lemma nth_write_disjoint:
  "wr v bs off = Inr bs' \<Longrightarrow> i < length bs \<Longrightarrow> i < off \<or> off + width \<le> i \<Longrightarrow> bs' ! i = bs ! i"
  by (auto simp: write_eq nth_overwrite length_enc split: if_splits)

lemma read_write_disjoint:
  "wr v bs off = Inr bs' \<Longrightarrow> o' + width \<le> off \<or> off + width \<le> o' \<Longrightarrow> rd bs' o' = rd bs o'"
  using subspan_write_disjoint [of v bs off bs' o' width] write_length [of v bs off bs']
  by (auto simp: read_eq)

lemma read_append_enc: "rd (bs @ enc v @ cs) (length bs) = Inr v"
  using subspan_append2 [of bs "enc v" cs] by (simp add: read_eq length_enc dec_enc)

lemma read_concat: "i < length vs \<Longrightarrow> rd (xs @ concat (map enc vs) @ ys) (length xs + i * width) = Inr (vs ! i)"
proof (induction vs arbitrary: xs i)
  case (Cons v vs)
  show ?case
  proof (cases i)
    case 0
    then show ?thesis using read_append_enc [of xs v] by simp
  next
    case (Suc j)
    with Cons.IH [of j "xs @ enc v"] Cons.prems show ?thesis by (simp add: length_enc add.assoc)
  qed
qed simp

lemma read_append1: "off + width \<le> length bs \<Longrightarrow> rd (bs @ cs) off = rd bs off"
  by (simp add: read_eq)

end

interpretation le8: fixed_codec 1 "le_bytes :: u8 \<Rightarrow> byte list" le_word WriteLittleEndian ReadLittleEndian
  by unfold_locales (simp_all add: le_word_le_bytes WriteLittleEndian_eq ReadLittleEndian_eq)

interpretation le16: fixed_codec 2 "le_bytes :: u16 \<Rightarrow> byte list" le_word WriteLittleEndian ReadLittleEndian
  by unfold_locales (simp_all add: le_word_le_bytes WriteLittleEndian_eq ReadLittleEndian_eq)

interpretation le32: fixed_codec 4 "le_bytes :: u32 \<Rightarrow> byte list" le_word WriteLittleEndian ReadLittleEndian
  by unfold_locales (simp_all add: le_word_le_bytes WriteLittleEndian_eq ReadLittleEndian_eq)

interpretation le64: fixed_codec 8 "le_bytes :: u64 \<Rightarrow> byte list" le_word WriteLittleEndian ReadLittleEndian
  by unfold_locales (simp_all add: le_word_le_bytes WriteLittleEndian_eq ReadLittleEndian_eq)

section \<open>Value references\<close>

lemma length_ref_bytes [simp]: "length (ref_bytes r) = 16"
  by (simp add: ref_bytes_def)

lemma ref_of_bytes_ref_bytes [simp]: "ref_of_bytes (ref_bytes r) = r"
  by (cases r) (simp add: ref_of_bytes_def ref_bytes_def subspan_def le_word_le_bytes)

lemma overwrite_append_adjacent:
  "off + length ys + length zs \<le> length xs \<Longrightarrow>
   overwrite (off + length ys) zs (overwrite off ys xs) = overwrite off (ys @ zs) xs"
  by (intro nth_equalityI) (auto simp: nth_overwrite nth_append)

lemma WriteValueRef16_eq:
  "WriteValueRef16 r bs off =
     (if off + 16 \<le> length bs then Inr (overwrite off (ref_bytes r) bs) else Inl out_of_bounds)"
proof (cases "off + 16 \<le> length bs")
  case True
  have "overwrite (off + 8) (le_bytes (vr_byte_length r)) (overwrite off (le_bytes (vr_offset r)) bs)
      = overwrite off (le_bytes (vr_offset r) @ le_bytes (vr_byte_length r)) bs"
    using True overwrite_append_adjacent [of off "le_bytes (vr_offset r)" "le_bytes (vr_byte_length r)" bs]
    by simp
  moreover have "overwrite (off + 12) (le_bytes (vr_element_count_or_flags r))
      (overwrite off (le_bytes (vr_offset r) @ le_bytes (vr_byte_length r)) bs)
      = overwrite off (ref_bytes r) bs"
    using True overwrite_append_adjacent
      [of off "le_bytes (vr_offset r) @ le_bytes (vr_byte_length r)" "le_bytes (vr_element_count_or_flags r)" bs]
    by (simp add: ref_bytes_def)
  ultimately show ?thesis
    using True by (simp add: WriteValueRef16_def CheckSpanBounds_eq WriteLittleEndian_eq)
qed (simp add: WriteValueRef16_def CheckSpanBounds_eq)

lemma DecodeValueRef16_eq:
  "DecodeValueRef16 bs off =
     (if off + 16 \<le> length bs then Inr (ref_of_bytes (subspan off 16 bs)) else Inl out_of_bounds)"
  by (auto simp: DecodeValueRef16_def CheckSpanBounds_eq ReadLittleEndian_eq ref_of_bytes_def
      subspan_def drop_take add.commute)

interpretation ref16: fixed_codec 16 ref_bytes ref_of_bytes WriteValueRef16 DecodeValueRef16
  by unfold_locales (simp_all add: WriteValueRef16_eq DecodeValueRef16_eq)

end
