(* ===== verification/Schema.thy ===== *)
theory Schema
  imports Byte_IO "HOL-Library.Multiset"
begin

text \<open>
  \<open>include/kv_index/schema.h\<close> and \<open>src/model/schema.cc\<close>: field specifications, the schema
  history (\<open>RuntimeSchema\<close>, which never reuses a field id), and \<open>CompiledRowLayout::Compile\<close>,
  which gives every active field a presence bit and a slot in the row. The lemmas show that the
  schema invariant is kept and that a compiled layout has aligned, disjoint slots inside the row.
\<close>

section \<open>Field specifications\<close>

type_synonym FieldId = u32

text \<open>
  Both enums have \<open>std::uint8_t\<close> as their underlying type, so a \<open>static_cast\<close> from a byte can give a
  value that no enumerator names; such a value is kept with its number.
\<close>

datatype FieldType =
    kInt8 | kInt32 | kInt64 | kUInt64 | kBool | kString | is_kUnlistedType: kUnlistedType u8

datatype FieldEncoding =
    kFixed | kArena | kDictionary | kListDictionary | kElementDictionary | kUnlistedEncoding u8

text \<open>
  The alternatives of \<open>Row::ScalarValue\<close> and \<open>Row::ListValue\<close>; \<open>FieldDefaultValue\<close> is a
  variant over the empty state, the six scalar and the six list alternatives, in this order.
\<close>

datatype ScalarValue = SInt8 u8 | SInt32 u32 | SInt64 u64 | SUInt64 u64 | SBool bool | SString string

datatype ListValue =
    LInt8 "u8 list" | LInt32 "u32 list" | LInt64 "u64 list" | LUInt64 "u64 list" | LBool "bool list"
  | LString "string list"

datatype FieldDefaultValue = NoDefault | DefaultScalar ScalarValue | DefaultList ListValue

record FieldSpec =
  fs_field_id :: FieldId
  fs_name :: string
  fs_type :: FieldType
  fs_is_list :: bool
  fs_nullable :: bool
  fs_encoding :: FieldEncoding
  fs_default_value :: FieldDefaultValue
  fs_deleted :: bool

record FieldLayout =
  fl_field_id :: FieldId
  fl_name :: string
  fl_type :: FieldType
  fl_is_list :: bool
  fl_nullable :: bool
  fl_encoding :: FieldEncoding
  fl_default_value :: FieldDefaultValue
  fl_presence_bit_index :: nat
  fl_slot_offset :: nat
  fl_value_width :: nat
  fl_uses_ref :: bool

record RuntimeSchema =
  rs_version :: u64
  rs_active_fields :: "FieldSpec list"
  rs_deleted_fields :: "FieldSpec list"

record CompiledRowLayout =
  cl_schema_version :: u64
  cl_layout_fingerprint :: u64
  cl_presence_bitmap_bytes :: nat
  cl_fixed_area_offset :: nat
  cl_ref_area_offset :: nat
  cl_row_slot_size :: nat
  cl_fields :: "FieldLayout list"

definition fs_HasDefault :: "FieldSpec \<Rightarrow> bool" where
  "fs_HasDefault field \<longleftrightarrow> fs_default_value field \<noteq> NoDefault"

definition fl_HasDefault :: "FieldLayout \<Rightarrow> bool" where
  "fl_HasDefault field \<longleftrightarrow> fl_default_value field \<noteq> NoDefault"

text \<open>The element type of a value, as \<open>FieldTypeFor\<close> gives it for the C++ type.\<close>

fun scalar_type :: "ScalarValue \<Rightarrow> FieldType" where
  "scalar_type (SInt8 v) = kInt8"
| "scalar_type (SInt32 v) = kInt32"
| "scalar_type (SInt64 v) = kInt64"
| "scalar_type (SUInt64 v) = kUInt64"
| "scalar_type (SBool v) = kBool"
| "scalar_type (SString v) = kString"

fun list_type :: "ListValue \<Rightarrow> FieldType" where
  "list_type (LInt8 v) = kInt8"
| "list_type (LInt32 v) = kInt32"
| "list_type (LInt64 v) = kInt64"
| "list_type (LUInt64 v) = kUInt64"
| "list_type (LBool v) = kBool"
| "list_type (LString v) = kString"

definition kValueRef16Size :: nat where "kValueRef16Size = 16"

definition IsRefField :: "FieldSpec \<Rightarrow> bool" where
  "IsRefField field \<longleftrightarrow> fs_is_list field \<or> fs_type field = kString"

fun FieldTypeSize :: "FieldType \<Rightarrow> nat" where
  "FieldTypeSize kInt8 = 1"
| "FieldTypeSize kBool = 1"
| "FieldTypeSize kInt32 = 4"
| "FieldTypeSize kInt64 = 8"
| "FieldTypeSize kUInt64 = 8"
| "FieldTypeSize kString = kValueRef16Size"
| "FieldTypeSize (kUnlistedType c) = 0"

fun FieldTypeAlignment :: "FieldType \<Rightarrow> nat" where
  "FieldTypeAlignment kInt8 = 1"
| "FieldTypeAlignment kBool = 1"
| "FieldTypeAlignment kInt32 = 4"
| "FieldTypeAlignment kInt64 = 8"
| "FieldTypeAlignment kUInt64 = 8"
| "FieldTypeAlignment kString = 8"
| "FieldTypeAlignment (kUnlistedType c) = 1"

section \<open>Encodings\<close>

definition DefaultMatchesField :: "FieldSpec \<Rightarrow> bool" where
  "DefaultMatchesField field =
     (case fs_default_value field of
        NoDefault \<Rightarrow> True
      | DefaultScalar v \<Rightarrow> \<not> fs_is_list field \<and> scalar_type v = fs_type field
      | DefaultList vs \<Rightarrow> fs_is_list field \<and> list_type vs = fs_type field)"

text \<open>A value that no case of a switch names falls through to the checks behind it.\<close>

definition ValidateEncodingPolicy :: "FieldSpec \<Rightarrow> unit res" where
  "ValidateEncodingPolicy field =
     (if fs_name field = [] then Inl (InvalidArgument ''field name must not be empty'')
      else if fs_deleted field then Inl (InvalidArgument ''new fields must not be marked deleted'')
      else if \<not> DefaultMatchesField field
      then Inl (InvalidArgument ''field default does not match field type'')
      else if fs_is_list field then
        (case fs_encoding field of
           kArena \<Rightarrow> Inr ()
         | kListDictionary \<Rightarrow> Inr ()
         | kElementDictionary \<Rightarrow>
             (if fs_type field = kString then Inr ()
              else Inl (InvalidArgument ''element dictionary lists are only supported for strings''))
         | kUnlistedEncoding c \<Rightarrow> Inl (InvalidArgument ''fixed scalar field has invalid encoding'')
         | _ \<Rightarrow> Inl (InvalidArgument ''list field has invalid encoding''))
      else if fs_type field = kString then
        (case fs_encoding field of
           kArena \<Rightarrow> Inr ()
         | kDictionary \<Rightarrow> Inr ()
         | kUnlistedEncoding c \<Rightarrow> Inl (InvalidArgument ''fixed scalar field has invalid encoding'')
         | _ \<Rightarrow> Inl (InvalidArgument ''string field has invalid encoding''))
      else if fs_encoding field \<noteq> kFixed
      then Inl (InvalidArgument ''fixed scalar field has invalid encoding'')
      else Inr ())"

fun FieldEncodingConfigName :: "FieldEncoding \<Rightarrow> string" where
  "FieldEncodingConfigName kFixed = ''fixed''"
| "FieldEncodingConfigName kArena = ''arena''"
| "FieldEncodingConfigName kDictionary = ''dictionary''"
| "FieldEncodingConfigName kListDictionary = ''dictionary''"
| "FieldEncodingConfigName kElementDictionary = ''element_dictionary''"
| "FieldEncodingConfigName (kUnlistedEncoding c) = ''unknown''"

definition ParseFieldEncoding :: "string \<Rightarrow> bool \<Rightarrow> FieldType \<Rightarrow> FieldEncoding res" where
  "ParseFieldEncoding name is_list type =
     (if name = ''fixed'' then
        (if \<not> is_list \<and> type \<noteq> kString then Inr kFixed
         else Inl (InvalidArgument ''fixed encoding is only valid for scalar numeric and bool fields''))
      else if name = ''arena'' then
        (if is_list \<or> type = kString then Inr kArena
         else Inl (InvalidArgument ''arena encoding is only valid for strings and lists''))
      else if name = ''dictionary'' then
        (if is_list then Inr kListDictionary
         else if type = kString then Inr kDictionary
         else Inl (InvalidArgument ''dictionary encoding is only valid for scalar strings and lists''))
      else if name = ''element_dictionary'' then
        (if is_list \<and> type = kString then Inr kElementDictionary
         else Inl (InvalidArgument ''element_dictionary encoding is only valid for list<string> fields''))
      else Inl (InvalidArgument ''unknown field encoding''))"

section \<open>Schema history\<close>

definition FindField :: "RuntimeSchema \<Rightarrow> FieldId \<Rightarrow> FieldSpec option" where
  "FindField schema fid = find (\<lambda>f. fs_field_id f = fid) (rs_active_fields schema)"

definition FindDeletedField :: "RuntimeSchema \<Rightarrow> FieldId \<Rightarrow> FieldSpec option" where
  "FindDeletedField schema fid = find (\<lambda>f. fs_field_id f = fid) (rs_deleted_fields schema)"

definition NewRuntimeSchema :: "u64 \<Rightarrow> RuntimeSchema" where
  "NewRuntimeSchema version = \<lparr>rs_version = version, rs_active_fields = [], rs_deleted_fields = []\<rparr>"

definition AddField :: "RuntimeSchema \<Rightarrow> FieldSpec \<Rightarrow> RuntimeSchema res" where
  "AddField schema field =
     (if FindField schema (fs_field_id field) \<noteq> None \<or> FindDeletedField schema (fs_field_id field) \<noteq> None
      then Inl (FailedPrecondition ''field id already exists in schema history'')
      else rbind (ValidateEncodingPolicy field) (\<lambda>_.
        Inr (schema\<lparr>rs_active_fields := rs_active_fields schema @ [field]\<rparr>)))"

text \<open>\<open>erase(it)\<close> removes the field that \<open>std::find_if\<close> found and no other.\<close>

fun erase_first :: "('a \<Rightarrow> bool) \<Rightarrow> 'a list \<Rightarrow> 'a list" where
  "erase_first p [] = []"
| "erase_first p (x # xs) = (if p x then xs else x # erase_first p xs)"

definition DeleteField :: "RuntimeSchema \<Rightarrow> FieldId \<Rightarrow> RuntimeSchema res" where
  "DeleteField schema fid =
     (case FindField schema fid of
        None \<Rightarrow> Inl (NotFound ''field id is not active'')
      | Some field \<Rightarrow>
          Inr (schema\<lparr>rs_deleted_fields := rs_deleted_fields schema @ [field\<lparr>fs_deleted := True\<rparr>],
                      rs_active_fields := erase_first (\<lambda>f. fs_field_id f = fid) (rs_active_fields schema)\<rparr>))"

section \<open>Fingerprint\<close>

definition kFnvOffsetBasis :: u64 where "kFnvOffsetBasis = 14695981039346656037"
definition kFnvPrime :: u64 where "kFnvPrime = 1099511628211"

definition FingerprintByte :: "u8 \<Rightarrow> u64 \<Rightarrow> u64" where
  "FingerprintByte byte hash = (hash XOR ucast byte) * kFnvPrime"

definition FingerprintUInt64 :: "u64 \<Rightarrow> u64 \<Rightarrow> u64" where
  "FingerprintUInt64 value hash =
     fold (\<lambda>i. FingerprintByte (ucast (drop_bit (i * 8) value AND 0xff))) [0..<8] hash"

definition FingerprintString :: "string \<Rightarrow> u64 \<Rightarrow> u64" where
  "FingerprintString value hash =
     fold FingerprintByte (bytes_of_string value) (FingerprintUInt64 (of_nat (length value)) hash)"

definition FingerprintBool :: "bool \<Rightarrow> u64 \<Rightarrow> u64" where
  "FingerprintBool b = FingerprintByte (if b then 1 else 0)"

definition FingerprintVector :: "('a \<Rightarrow> u64 \<Rightarrow> u64) \<Rightarrow> 'a list \<Rightarrow> u64 \<Rightarrow> u64" where
  "FingerprintVector elem values hash =
     fold elem values (FingerprintUInt64 (of_nat (length values)) hash)"

text \<open>\<open>static_cast<std::uint64_t>\<close> of a signed value extends its sign.\<close>

fun FingerprintScalar :: "ScalarValue \<Rightarrow> u64 \<Rightarrow> u64" where
  "FingerprintScalar (SInt8 v) = FingerprintUInt64 (scast v)"
| "FingerprintScalar (SInt32 v) = FingerprintUInt64 (scast v)"
| "FingerprintScalar (SInt64 v) = FingerprintUInt64 v"
| "FingerprintScalar (SUInt64 v) = FingerprintUInt64 v"
| "FingerprintScalar (SBool v) = FingerprintBool v"
| "FingerprintScalar (SString v) = FingerprintString v"

fun FingerprintList :: "ListValue \<Rightarrow> u64 \<Rightarrow> u64" where
  "FingerprintList (LInt8 vs) = FingerprintVector (\<lambda>v. FingerprintUInt64 (scast v)) vs"
| "FingerprintList (LInt32 vs) = FingerprintVector (\<lambda>v. FingerprintUInt64 (scast v)) vs"
| "FingerprintList (LInt64 vs) = FingerprintVector FingerprintUInt64 vs"
| "FingerprintList (LUInt64 vs) = FingerprintVector FingerprintUInt64 vs"
| "FingerprintList (LBool vs) = FingerprintVector FingerprintBool vs"
| "FingerprintList (LString vs) = FingerprintVector FingerprintString vs"

text \<open>The position of the alternative in the variant (\<open>value.index()\<close>), and the C++ enum values.\<close>

fun type_code :: "FieldType \<Rightarrow> u8" where
  "type_code kInt8 = 1"
| "type_code kInt32 = 2"
| "type_code kInt64 = 3"
| "type_code kUInt64 = 4"
| "type_code kBool = 5"
| "type_code kString = 6"
| "type_code (kUnlistedType c) = c"

fun encoding_code :: "FieldEncoding \<Rightarrow> u8" where
  "encoding_code kFixed = 1"
| "encoding_code kArena = 2"
| "encoding_code kDictionary = 3"
| "encoding_code kListDictionary = 4"
| "encoding_code kElementDictionary = 5"
| "encoding_code (kUnlistedEncoding c) = c"

fun default_index :: "FieldDefaultValue \<Rightarrow> u64" where
  "default_index NoDefault = 0"
| "default_index (DefaultScalar v) = ucast (type_code (scalar_type v))"
| "default_index (DefaultList vs) = 6 + ucast (type_code (list_type vs))"

fun FingerprintDefault :: "FieldDefaultValue \<Rightarrow> u64 \<Rightarrow> u64" where
  "FingerprintDefault NoDefault hash = FingerprintUInt64 (default_index NoDefault) hash"
| "FingerprintDefault (DefaultScalar v) hash =
     FingerprintScalar v (FingerprintUInt64 (default_index (DefaultScalar v)) hash)"
| "FingerprintDefault (DefaultList vs) hash =
     FingerprintList vs (FingerprintUInt64 (default_index (DefaultList vs)) hash)"

definition FingerprintField :: "FieldLayout \<Rightarrow> u64 \<Rightarrow> u64" where
  "FingerprintField field hash =
     (let hash = FingerprintUInt64 (ucast (fl_field_id field)) hash;
          hash = FingerprintString (fl_name field) hash;
          hash = FingerprintUInt64 (ucast (type_code (fl_type field))) hash;
          hash = FingerprintBool (fl_is_list field) hash;
          hash = FingerprintBool (fl_nullable field) hash;
          hash = FingerprintUInt64 (ucast (encoding_code (fl_encoding field))) hash;
          hash = FingerprintDefault (fl_default_value field) hash;
          hash = FingerprintUInt64 (of_nat (fl_presence_bit_index field)) hash;
          hash = FingerprintUInt64 (of_nat (fl_slot_offset field)) hash;
          hash = FingerprintUInt64 (of_nat (fl_value_width field)) hash
      in FingerprintBool (fl_uses_ref field) hash)"

definition BuildFingerprint :: "CompiledRowLayout \<Rightarrow> u64" where
  "BuildFingerprint layout =
     (let hash = FingerprintString ''kv_index_row_layout_v1'' kFnvOffsetBasis;
          hash = FingerprintUInt64 (cl_schema_version layout) hash;
          hash = FingerprintUInt64 (of_nat (cl_presence_bitmap_bytes layout)) hash;
          hash = FingerprintUInt64 (of_nat (cl_fixed_area_offset layout)) hash;
          hash = FingerprintUInt64 (of_nat (cl_ref_area_offset layout)) hash;
          hash = FingerprintUInt64 (of_nat (cl_row_slot_size layout)) hash;
          hash = FingerprintUInt64 (of_nat (length (cl_fields layout))) hash
      in fold FingerprintField (cl_fields layout) hash)"

section \<open>Layout compilation\<close>

text \<open>
  Field ids are distinct in every schema that \<open>AddField\<close> and \<open>DeleteField\<close> can build, so
  \<open>std::sort\<close> by id has one possible result, which is that of \<open>sort_key\<close>.
\<close>

definition MakeFieldLayout :: "nat \<Rightarrow> FieldSpec \<Rightarrow> FieldLayout" where
  "MakeFieldLayout i field =
     \<lparr>fl_field_id = fs_field_id field, fl_name = fs_name field, fl_type = fs_type field,
      fl_is_list = fs_is_list field, fl_nullable = fs_nullable field, fl_encoding = fs_encoding field,
      fl_default_value = fs_default_value field, fl_presence_bit_index = i, fl_slot_offset = 0,
      fl_value_width = (if IsRefField field then kValueRef16Size else FieldTypeSize (fs_type field)),
      fl_uses_ref = IsRefField field\<rparr>"

fun AssignFixedSlots :: "FieldLayout list \<Rightarrow> nat \<Rightarrow> FieldLayout list \<times> nat" where
  "AssignFixedSlots [] cursor = ([], cursor)"
| "AssignFixedSlots (field # fls) cursor =
     (if fl_uses_ref field
      then (let (fls', cursor') = AssignFixedSlots fls cursor in (field # fls', cursor'))
      else
        (let cursor = AlignUp cursor (FieldTypeAlignment (fl_type field));
             (fls', cursor') = AssignFixedSlots fls (cursor + fl_value_width field)
         in (field\<lparr>fl_slot_offset := cursor\<rparr> # fls', cursor')))"

fun AssignRefSlots :: "FieldLayout list \<Rightarrow> nat \<Rightarrow> FieldLayout list \<times> nat" where
  "AssignRefSlots [] cursor = ([], cursor)"
| "AssignRefSlots (field # fls) cursor =
     (if \<not> fl_uses_ref field
      then (let (fls', cursor') = AssignRefSlots fls cursor in (field # fls', cursor'))
      else
        (let (fls', cursor') = AssignRefSlots fls (cursor + kValueRef16Size)
         in (field\<lparr>fl_slot_offset := cursor\<rparr> # fls', cursor')))"

definition Compile :: "RuntimeSchema \<Rightarrow> CompiledRowLayout res" where
  "Compile schema =
     (let active_fields = sort_key fs_field_id (rs_active_fields schema);
          presence_bitmap_bytes = AlignUp ((length active_fields + 7) div 8) 8;
          fls = map (\<lambda>(i, f). MakeFieldLayout i f) (enumerate 0 active_fields);
          (fls, fixed_cursor) = AssignFixedSlots fls presence_bitmap_bytes;
          ref_area_offset = AlignUp fixed_cursor 8;
          (fls, ref_cursor) = AssignRefSlots fls ref_area_offset;
          layout = \<lparr>cl_schema_version = rs_version schema, cl_layout_fingerprint = 0,
                    cl_presence_bitmap_bytes = presence_bitmap_bytes,
                    cl_fixed_area_offset = presence_bitmap_bytes, cl_ref_area_offset = ref_area_offset,
                    cl_row_slot_size = AlignUp ref_cursor 8, cl_fields = fls\<rparr>
      in Inr (layout\<lparr>cl_layout_fingerprint := BuildFingerprint layout\<rparr>))"

definition FindLayoutField :: "CompiledRowLayout \<Rightarrow> FieldId \<Rightarrow> FieldLayout option" where
  "FindLayoutField layout fid = find (\<lambda>f. fl_field_id f = fid) (cl_fields layout)"

section \<open>Invariants\<close>

text \<open>The schemas that the two operations can build from an empty one.\<close>

definition schema_ok :: "RuntimeSchema \<Rightarrow> bool" where
  "schema_ok schema \<longleftrightarrow>
     distinct (map fs_field_id (rs_active_fields schema @ rs_deleted_fields schema))
     \<and> (\<forall>f \<in> set (rs_active_fields schema). ValidateEncodingPolicy f = Inr ())
     \<and> (\<forall>f \<in> set (rs_deleted_fields schema). fs_deleted f)"

datatype schema_op = OpAdd FieldSpec | OpDelete FieldId

fun schema_step :: "schema_op \<Rightarrow> RuntimeSchema \<Rightarrow> RuntimeSchema res" where
  "schema_step (OpAdd f) s = AddField s f"
| "schema_step (OpDelete fid) s = DeleteField s fid"

text \<open>
  What the row codec needs from a layout: every field has its own bytes behind the presence bitmap
  and its own bit in it, and the row is large enough.
\<close>

definition slots_disjoint :: "FieldLayout \<Rightarrow> FieldLayout \<Rightarrow> bool" where
  "slots_disjoint f g \<longleftrightarrow>
     fl_slot_offset f + fl_value_width f \<le> fl_slot_offset g
     \<or> fl_slot_offset g + fl_value_width g \<le> fl_slot_offset f"

definition field_shape :: "FieldLayout \<Rightarrow> bool" where
  "field_shape f \<longleftrightarrow>
     fl_uses_ref f = (fl_is_list f \<or> fl_type f = kString)
     \<and> fl_value_width f = (if fl_uses_ref f then 16 else FieldTypeSize (fl_type f))"

definition slot_aligned :: "FieldLayout \<Rightarrow> bool" where
  "slot_aligned f \<longleftrightarrow> (if fl_uses_ref f then 8 else FieldTypeAlignment (fl_type f)) dvd fl_slot_offset f"

definition layout_ok :: "CompiledRowLayout \<Rightarrow> bool" where
  "layout_ok layout \<longleftrightarrow>
     distinct (map fl_field_id (cl_fields layout))
     \<and> distinct (map fl_presence_bit_index (cl_fields layout))
     \<and> pairwise slots_disjoint (set (cl_fields layout))
     \<and> (\<forall>f \<in> set (cl_fields layout).
          field_shape f \<and> slot_aligned f
          \<and> fl_presence_bit_index f < 8 * cl_presence_bitmap_bytes layout
          \<and> cl_presence_bitmap_bytes layout \<le> fl_slot_offset f
          \<and> fl_slot_offset f + fl_value_width f \<le> cl_row_slot_size layout)
     \<and> cl_presence_bitmap_bytes layout \<le> cl_row_slot_size layout"

definition history_ids :: "RuntimeSchema \<Rightarrow> FieldId set" where
  "history_ids s = fs_field_id ` (set (rs_active_fields s) \<union> set (rs_deleted_fields s))"

text \<open>A sequence of operations; a rejected operation leaves the schema as it was.\<close>

definition schema_run :: "schema_op list \<Rightarrow> RuntimeSchema \<Rightarrow> RuntimeSchema" where
  "schema_run ops s = fold (\<lambda>c s. case schema_step c s of Inl _ \<Rightarrow> s | Inr s' \<Rightarrow> s') ops s"

definition unslot :: "FieldLayout \<Rightarrow> FieldLayout" where
  "unslot f = f\<lparr>fl_slot_offset := 0\<rparr>"

definition fixed_before :: "FieldLayout \<Rightarrow> FieldLayout \<Rightarrow> bool" where
  "fixed_before f g \<longleftrightarrow> fl_uses_ref f \<or> fl_uses_ref g \<or> fl_slot_offset f + fl_value_width f \<le> fl_slot_offset g"

definition ref_before :: "FieldLayout \<Rightarrow> FieldLayout \<Rightarrow> bool" where
  "ref_before f g \<longleftrightarrow> \<not> fl_uses_ref f \<or> \<not> fl_uses_ref g \<or> fl_slot_offset f + 16 \<le> fl_slot_offset g"

section \<open>Types of values\<close>

lemma value_types_listed [simp]: "scalar_type v \<noteq> kUnlistedType c" "list_type vs \<noteq> kUnlistedType c"
  by (cases v; simp) (cases vs; simp)

section \<open>Lemmas on the schema history\<close>

lemma find_None_iff_map: "find (\<lambda>f. k f = x) xs = None \<longleftrightarrow> x \<notin> set (map k xs)"
  by (auto simp: find_None_iff)

lemma set_erase_first: "set (erase_first p xs) \<subseteq> set xs"
  by (induction xs) auto

lemma erase_first_split:
  assumes "find p xs = Some x"
  shows "\<exists>ys zs. xs = ys @ x # zs \<and> erase_first p xs = ys @ zs \<and> p x"
  using assms
proof (induction xs)
  case (Cons y ys)
  show ?case
  proof (cases "p y")
    case True
    with Cons.prems show ?thesis by (intro exI [of _ "[]"] exI [of _ ys]) simp
  next
    case False
    with Cons obtain us zs where "ys = us @ x # zs" "erase_first p ys = us @ zs" "p x" by auto
    with False show ?thesis by (intro exI [of _ "y # us"] exI [of _ zs]) simp
  qed
qed simp

lemma AddField_Inr:
  "AddField s f = Inr s' \<longleftrightarrow>
   fs_field_id f \<notin> history_ids s \<and> ValidateEncodingPolicy f = Inr ()
   \<and> s' = s\<lparr>rs_active_fields := rs_active_fields s @ [f]\<rparr>"
  by (auto simp: AddField_def FindField_def FindDeletedField_def find_None_iff_map history_ids_def)

lemma AddField_reused:
  "fs_field_id f \<in> history_ids s \<Longrightarrow>
   AddField s f = Inl (FailedPrecondition ''field id already exists in schema history'')"
  by (auto simp: AddField_def FindField_def FindDeletedField_def history_ids_def find_None_iff_map)

lemma DeleteField_InrE:
  assumes "DeleteField s fid = Inr s'"
  obtains f ys zs where "rs_active_fields s = ys @ f # zs" and "fs_field_id f = fid"
    and "rs_active_fields s' = ys @ zs" and "rs_version s' = rs_version s"
    and "rs_deleted_fields s' = rs_deleted_fields s @ [f\<lparr>fs_deleted := True\<rparr>]"
proof -
  from assms obtain f where f: "find (\<lambda>f. fs_field_id f = fid) (rs_active_fields s) = Some f"
    by (auto simp: DeleteField_def FindField_def split: option.splits)
  from erase_first_split [OF f] assms f that show thesis
    by (auto simp: DeleteField_def FindField_def)
qed

lemma schema_step_ok:
  assumes "schema_ok s" and "schema_step c s = Inr s'"
  shows "schema_ok s'" and "history_ids s \<subseteq> history_ids s'"
proof -
  have "schema_ok s' \<and> history_ids s \<subseteq> history_ids s'"
  proof (cases c)
    case (OpAdd f)
    with assms show ?thesis by (auto simp: AddField_Inr schema_ok_def history_ids_def)
  next
    case (OpDelete fid)
    with assms(2) obtain f ys zs where "rs_active_fields s = ys @ f # zs" "fs_field_id f = fid"
      "rs_active_fields s' = ys @ zs" "rs_deleted_fields s' = rs_deleted_fields s @ [f\<lparr>fs_deleted := True\<rparr>]"
      by (auto elim!: DeleteField_InrE)
    with assms(1) show ?thesis by (auto simp: schema_ok_def history_ids_def)
  qed
  then show "schema_ok s'" "history_ids s \<subseteq> history_ids s'" by auto
qed

lemma schema_run_ok:
  assumes "schema_ok s"
  shows "schema_ok (schema_run ops s)" and "history_ids s \<subseteq> history_ids (schema_run ops s)"
proof -
  have "schema_ok (schema_run ops s) \<and> history_ids s \<subseteq> history_ids (schema_run ops s)"
    using assms
  proof (induction ops arbitrary: s)
    case (Cons c ops)
    show ?case
    proof (cases "schema_step c s")
      case (Inr s')
      with Cons.IH [of s'] schema_step_ok [OF Cons.prems Inr] show ?thesis by (auto simp: schema_run_def)
    qed (use Cons in \<open>simp add: schema_run_def\<close>)
  qed (simp add: schema_run_def)
  then show "schema_ok (schema_run ops s)" "history_ids s \<subseteq> history_ids (schema_run ops s)" by auto
qed

text \<open>
  C28. Every schema that \<open>AddField\<close> and \<open>DeleteField\<close> can build, in any order and with any
  rejected calls in between, has distinct field ids over active and deleted fields and only fields
  that pass the encoding policy; and an id that was accepted once is rejected ever after, also when
  its field has been deleted.
\<close>

theorem schema_history:
  assumes s_def: "s = schema_run ops (NewRuntimeSchema version)"
  shows "schema_ok s
    \<and> (AddField s f = Inr s1 \<longrightarrow> fs_field_id g = fs_field_id f \<longrightarrow>
       AddField (schema_run ops' s1) g = Inl (FailedPrecondition ''field id already exists in schema history''))"
proof -
  have "schema_ok (NewRuntimeSchema version)" by (simp add: schema_ok_def NewRuntimeSchema_def)
  then have ok: "schema_ok s" unfolding s_def by (rule schema_run_ok)
  moreover have "AddField (schema_run ops' s1) g = Inl (FailedPrecondition ''field id already exists in schema history'')"
    if "AddField s f = Inr s1" "fs_field_id g = fs_field_id f"
  proof (rule AddField_reused)
    from that(1) have step: "schema_step (OpAdd f) s = Inr s1" by simp
    have "fs_field_id f \<in> history_ids s1" using that(1) by (auto simp: AddField_Inr history_ids_def)
    then show "fs_field_id g \<in> history_ids (schema_run ops' s1)"
      using schema_run_ok(2) [OF schema_step_ok(1) [OF ok step]] that(2) by auto
  qed
  ultimately show ?thesis by blast
qed

section \<open>Encoding names\<close>

theorem schema_history_witness:
  "let f = \<lparr>fs_field_id = 3, fs_name = ''price'', fs_type = kInt64, fs_is_list = False, fs_nullable = True,
            fs_encoding = kFixed, fs_default_value = NoDefault, fs_deleted = False\<rparr>;
       s1 = schema_run [OpAdd f] (NewRuntimeSchema 1)
   in AddField (schema_run [OpDelete 3] s1) f
        = Inl (FailedPrecondition ''field id already exists in schema history'')"
proof -
  let ?f = "\<lparr>fs_field_id = 3, fs_name = ''price'', fs_type = kInt64, fs_is_list = False, fs_nullable = True,
     fs_encoding = kFixed, fs_default_value = NoDefault, fs_deleted = False\<rparr>"
  have s: "NewRuntimeSchema 1 = schema_run [] (NewRuntimeSchema 1)" by (simp add: schema_run_def)
  have add: "AddField (NewRuntimeSchema 1) ?f = Inr (schema_run [OpAdd ?f] (NewRuntimeSchema 1))"
    by (simp add: schema_run_def AddField_def FindField_def FindDeletedField_def NewRuntimeSchema_def
        ValidateEncodingPolicy_def DefaultMatchesField_def)
  from schema_history [OF s, of ?f _ ?f "[OpDelete 3]"] add show ?thesis by (simp add: Let_def)
qed

text \<open>
  The configuration name of an encoding that the policy accepts for a field parses back to this
  encoding for a field of that shape and type.
\<close>

theorem encoding_config_roundtrip:
  "ValidateEncodingPolicy f = Inr () \<Longrightarrow>
   ParseFieldEncoding (FieldEncodingConfigName (fs_encoding f)) (fs_is_list f) (fs_type f) = Inr (fs_encoding f)"
  by (auto simp: ValidateEncodingPolicy_def ParseFieldEncoding_def split: if_splits FieldEncoding.splits)

theorem encoding_config_roundtrip_witness:
  "ParseFieldEncoding (FieldEncodingConfigName kListDictionary) True kInt32 = Inr kListDictionary"
  using encoding_config_roundtrip [of "\<lparr>fs_field_id = 3, fs_name = ''tags'', fs_type = kInt32, fs_is_list = True,
      fs_nullable = True, fs_encoding = kListDictionary, fs_default_value = NoDefault, fs_deleted = False\<rparr>"]
  by (simp add: ValidateEncodingPolicy_def DefaultMatchesField_def)

lemma DefaultMatchesField_encoding [simp]:
  "DefaultMatchesField (f\<lparr>fs_encoding := e\<rparr>) = DefaultMatchesField f"
  by (simp add: DefaultMatchesField_def split: FieldDefaultValue.splits)

lemma ParseFieldEncoding_policy:
  assumes "ParseFieldEncoding name (fs_is_list f) (fs_type f) = Inr e" and "fs_name f \<noteq> []"
    and "\<not> fs_deleted f" and "DefaultMatchesField f"
  shows "ValidateEncodingPolicy (f\<lparr>fs_encoding := e\<rparr>) = Inr ()"
  using assms by (auto simp: ValidateEncodingPolicy_def ParseFieldEncoding_def split: if_splits)

section \<open>Slot assignment\<close>

lemma unslot_fields:
  assumes "unslot f = unslot g"
  shows "fl_field_id f = fl_field_id g" "fl_name f = fl_name g" "fl_type f = fl_type g" "fl_is_list f = fl_is_list g"
    "fl_nullable f = fl_nullable g" "fl_encoding f = fl_encoding g" "fl_default_value f = fl_default_value g"
    "fl_presence_bit_index f = fl_presence_bit_index g" "fl_value_width f = fl_value_width g"
    "fl_uses_ref f = fl_uses_ref g"
  using assms by (cases f; cases g; simp add: unslot_def)+

lemma map_unslot_eq:
  assumes "map unslot fs = map unslot gs"
  shows "map fl_field_id fs = map fl_field_id gs" and "map fl_presence_bit_index fs = map fl_presence_bit_index gs"
  using arg_cong [OF assms, of "map fl_field_id"] arg_cong [OF assms, of "map fl_presence_bit_index"]
  by (simp_all add: comp_def unslot_def)

lemma FieldTypeAlignment_pos: "0 < FieldTypeAlignment t" "FieldTypeAlignment t \<le> 8"
  by (cases t; simp)+

lemma field_shape_width: "field_shape f \<Longrightarrow> \<not> fl_uses_ref f \<Longrightarrow> fl_value_width f \<le> 8"
  by (cases "fl_type f") (auto simp: field_shape_def)

lemma AssignFixedSlots_spec:
  assumes "AssignFixedSlots fs c = (fs', c')" and "\<forall>f \<in> set fs. field_shape f"
    and "c + 16 * length fs + 16 \<le> 2 ^ 64"
  shows "map unslot fs' = map unslot fs" and "c \<le> c'" and "c' \<le> c + 16 * length fs"
    and "\<forall>f \<in> set fs'. \<not> fl_uses_ref f \<longrightarrow>
      slot_aligned f \<and> c \<le> fl_slot_offset f \<and> fl_slot_offset f + fl_value_width f \<le> c'"
    and "sorted_wrt fixed_before fs'"
proof -
  have "map unslot fs' = map unslot fs \<and> c \<le> c' \<and> c' \<le> c + 16 * length fs
    \<and> (\<forall>f \<in> set fs'. \<not> fl_uses_ref f \<longrightarrow>
      slot_aligned f \<and> c \<le> fl_slot_offset f \<and> fl_slot_offset f + fl_value_width f \<le> c')
    \<and> sorted_wrt fixed_before fs'"
    using assms
  proof (induction fs arbitrary: c fs')
    case (Cons f fs)
    show ?case
    proof (cases "fl_uses_ref f")
      case True
      with Cons.prems obtain gs where "AssignFixedSlots fs c = (gs, c')" "fs' = f # gs"
        by (auto split: prod.splits)
      with Cons.IH [of c gs] Cons.prems True show ?thesis by (auto simp: fixed_before_def)
    next
      case False
      define a where "a = AlignUp c (FieldTypeAlignment (fl_type f))"
      have "c + FieldTypeAlignment (fl_type f) \<le> 2 ^ 64"
        using Cons.prems(3) FieldTypeAlignment_pos(2) [of "fl_type f"] by simp
      from AlignUp_spec [OF FieldTypeAlignment_pos(1) this]
      have a: "FieldTypeAlignment (fl_type f) dvd a" "c \<le> a" "a \<le> c + 7"
        using FieldTypeAlignment_pos(2) [of "fl_type f"] by (auto simp: a_def)
      have w: "fl_value_width f \<le> 8" using Cons.prems(2) False by (simp add: field_shape_width)
      from False Cons.prems obtain gs where gs: "AssignFixedSlots fs (a + fl_value_width f) = (gs, c')"
        "fs' = f\<lparr>fl_slot_offset := a\<rparr> # gs"
        by (auto simp: a_def Let_def split: prod.splits)
      have "\<forall>f \<in> set fs. field_shape f" "a + fl_value_width f + 16 * length fs + 16 \<le> 2 ^ 64"
        using Cons.prems(2,3) a w by auto
      note IH = Cons.IH [OF gs(1) this]
      show ?thesis
        using IH a w False unfolding gs(2) by (auto simp: unslot_def fixed_before_def slot_aligned_def)
    qed
  qed simp
  then show "map unslot fs' = map unslot fs" "c \<le> c'" "c' \<le> c + 16 * length fs"
    "\<forall>f \<in> set fs'. \<not> fl_uses_ref f \<longrightarrow>
      slot_aligned f \<and> c \<le> fl_slot_offset f \<and> fl_slot_offset f + fl_value_width f \<le> c'"
    "sorted_wrt fixed_before fs'" by blast+
qed

lemma sorted_wrt_filter_iff:
  "(\<And>x y. \<not> (p x \<and> p y) \<Longrightarrow> R x y) \<Longrightarrow> sorted_wrt R (filter p xs) \<longleftrightarrow> sorted_wrt R xs"
  by (induction xs) auto

lemma fixed_before_filter: "sorted_wrt fixed_before (filter (Not \<circ> fl_uses_ref) fs) \<longleftrightarrow> sorted_wrt fixed_before fs"
  by (rule sorted_wrt_filter_iff) (auto simp: fixed_before_def)

lemma sorted_wrt_either:
  "sorted_wrt R xs \<Longrightarrow> f \<in> set xs \<Longrightarrow> g \<in> set xs \<Longrightarrow> f \<noteq> g \<Longrightarrow> R f g \<or> R g f"
  by (induction xs) auto

lemma AssignRefSlots_spec:
  assumes "AssignRefSlots fs c = (fs', c')" and "8 dvd c"
  shows "map unslot fs' = map unslot fs" and "c \<le> c'" and "c' \<le> c + 16 * length fs" and "8 dvd c'"
    and "\<forall>f \<in> set fs'. fl_uses_ref f \<longrightarrow>
      slot_aligned f \<and> c \<le> fl_slot_offset f \<and> fl_slot_offset f + 16 \<le> c'"
    and "sorted_wrt ref_before fs'" and "filter (Not \<circ> fl_uses_ref) fs' = filter (Not \<circ> fl_uses_ref) fs"
    and "sorted_wrt fixed_before fs \<Longrightarrow> sorted_wrt fixed_before fs'"
proof -
  have "map unslot fs' = map unslot fs \<and> c \<le> c' \<and> c' \<le> c + 16 * length fs \<and> 8 dvd c'
    \<and> (\<forall>f \<in> set fs'. fl_uses_ref f \<longrightarrow>
      slot_aligned f \<and> c \<le> fl_slot_offset f \<and> fl_slot_offset f + 16 \<le> c')
    \<and> sorted_wrt ref_before fs' \<and> filter (Not \<circ> fl_uses_ref) fs' = filter (Not \<circ> fl_uses_ref) fs"
    using assms
  proof (induction fs arbitrary: c fs')
    case (Cons f fs)
    show ?case
    proof (cases "fl_uses_ref f")
      case False
      with Cons.prems obtain gs where "AssignRefSlots fs c = (gs, c')" "fs' = f # gs"
        by (auto split: prod.splits)
      with Cons.IH [of c gs] Cons.prems False show ?thesis by (auto simp: ref_before_def)
    next
      case True
      with Cons.prems obtain gs where gs: "AssignRefSlots fs (c + 16) = (gs, c')"
        "fs' = f\<lparr>fl_slot_offset := c\<rparr> # gs"
        by (auto simp: kValueRef16Size_def split: prod.splits)
      have "8 dvd c + 16" using Cons.prems(2) by (simp add: dvd_add_left_iff)
      note IH = Cons.IH [OF gs(1) this]
      show ?thesis
        using IH True Cons.prems(2) unfolding gs(2) by (auto simp: unslot_def ref_before_def slot_aligned_def)
    qed
  qed simp
  then show "map unslot fs' = map unslot fs" "c \<le> c'" "c' \<le> c + 16 * length fs" "8 dvd c'"
    "\<forall>f \<in> set fs'. fl_uses_ref f \<longrightarrow> slot_aligned f \<and> c \<le> fl_slot_offset f \<and> fl_slot_offset f + 16 \<le> c'"
    "sorted_wrt ref_before fs'" "filter (Not \<circ> fl_uses_ref) fs' = filter (Not \<circ> fl_uses_ref) fs" by blast+
  then show "sorted_wrt fixed_before fs \<Longrightarrow> sorted_wrt fixed_before fs'"
    by (metis fixed_before_filter)
qed

lemma map_enumerate_snd: "map (\<lambda>p. g (snd p)) (enumerate n xs) = map g xs"
proof -
  have "map g (map snd (enumerate n xs)) = map g xs" by (simp only: map_snd_enumerate)
  then show ?thesis by (simp only: map_map comp_def)
qed

lemma Compile_succeeds: "\<exists>L. Compile s = Inr L"
  by (simp add: Compile_def Let_def case_prod_beta)

lemma Compile_layout:
  assumes ok: "schema_ok s" and L: "Compile s = Inr L"
  shows "layout_ok L" and "map unslot (cl_fields L) =
      map (\<lambda>(i, f). MakeFieldLayout i f) (enumerate 0 (sort_key fs_field_id (rs_active_fields s)))"
    and "8 dvd cl_row_slot_size L"
proof -
  let ?act = "sort_key fs_field_id (rs_active_fields s)"
  let ?fs0 = "map (\<lambda>(i, f). MakeFieldLayout i f) (enumerate 0 ?act)"
  let ?n = "length ?act" and ?p = "AlignUp ((length ?act + 7) div 8) 8"
  obtain fs1 c1 where 1: "AssignFixedSlots ?fs0 ?p = (fs1, c1)" by fastforce
  let ?r = "AlignUp c1 8"
  obtain fs2 c2 where 2: "AssignRefSlots fs1 ?r = (fs2, c2)" by fastforce
  have fields: "cl_fields L = fs2" "cl_presence_bitmap_bytes L = ?p" "cl_row_slot_size L = AlignUp c2 8"
    using L 1 2 by (auto simp: Compile_def Let_def)
  have d: "distinct (map fs_field_id ?act)"
    using ok by (simp add: schema_ok_def distinct_map)
  have n: "?n \<le> 2 ^ 32"
  proof -
    have "?n = card (set (map fs_field_id ?act))" using distinct_card [OF d] by simp
    also have "\<dots> \<le> card (UNIV :: u32 set)" by (intro card_mono) auto
    finally show ?thesis by (simp add: card_word)
  qed
  have p: "8 dvd ?p" "?n \<le> 8 * ?p" "?p \<le> 2 ^ 32 + 8"
  proof -
    have "(?n + 7) div 8 + 8 \<le> 2 ^ 64" "(0 :: nat) < 8" using n by simp_all
    note b = AlignUp_spec [OF this(2,1)]
    from b(1) show "8 dvd ?p" .
    have "?n \<le> 8 * ((?n + 7) div 8)" by simp
    also have "\<dots> \<le> 8 * ?p" by (intro mult_le_mono2 b(2))
    finally show "?n \<le> 8 * ?p" .
    show "?p \<le> 2 ^ 32 + 8" using b(3) n by linarith
  qed
  have shape0: "\<forall>f \<in> set ?fs0. field_shape f"
    by (auto simp: MakeFieldLayout_def field_shape_def IsRefField_def kValueRef16Size_def)
  note A = AssignFixedSlots_spec [OF 1 shape0]
  have b1: "?p + 16 * length ?fs0 + 16 \<le> 2 ^ 64" using p n by simp
  note A = A [OF b1]
  have r: "8 dvd ?r" "c1 \<le> ?r" "?r < c1 + 8"
    using AlignUp_spec [of 8 c1] A(3) p n by auto
  note B = AssignRefSlots_spec [OF 2 r(1)]
  have slot_size: "AlignUp c2 8 = c2" by (rule AlignUp_fixed [OF B(4)])
  have un: "map unslot fs2 = map unslot ?fs0" using A(1) B(1) by simp
  show "map unslot (cl_fields L) = ?fs0"
    using un by (simp add: fields unslot_def MakeFieldLayout_def comp_def case_prod_beta)
  show "8 dvd cl_row_slot_size L" using B(4) by (simp add: fields slot_size)
  have ids: "map fl_field_id fs2 = map fs_field_id ?act"
    using map_unslot_eq(1) [OF un] by (simp add: MakeFieldLayout_def comp_def case_prod_beta map_enumerate_snd)
  have bits: "map fl_presence_bit_index fs2 = [0..<?n]"
    using map_unslot_eq(2) [OF un] map_fst_enumerate [of 0 ?act]
    by (simp add: MakeFieldLayout_def comp_def case_prod_beta)
  have fixed: "f \<in> set fs1" if "f \<in> set fs2" "\<not> fl_uses_ref f" for f
    using arg_cong [OF B(7), of set] that by auto
  have fixed_slot: "slot_aligned f" "?p \<le> fl_slot_offset f" "fl_slot_offset f + fl_value_width f \<le> c1"
    if "f \<in> set fs2" "\<not> fl_uses_ref f" for f using A(4) fixed [OF that] that by auto
  have shape: "field_shape f" if "f \<in> set fs2" for f
  proof -
    have "list_all field_shape (map unslot fs2)"
      unfolding un using shape0 by (auto simp: list_all_iff field_shape_def unslot_def)
    with that show ?thesis by (auto simp: list_all_iff field_shape_def unslot_def)
  qed
  have ref_slot: "slot_aligned f" "?r \<le> fl_slot_offset f" "fl_slot_offset f + fl_value_width f \<le> c2"
    if "f \<in> set fs2" "fl_uses_ref f" for f using B(5) shape [OF that(1)] that by (auto simp: field_shape_def)
  have "pairwise slots_disjoint (set fs2)"
  proof (rule pairwiseI)
    fix f g assume fg: "f \<in> set fs2" "g \<in> set fs2" "f \<noteq> g"
    note s = sorted_wrt_either [OF B(8) [OF A(5)] fg] sorted_wrt_either [OF B(6) fg]
    show "slots_disjoint f g"
      using s fixed_slot(3) [OF fg(1)] fixed_slot(3) [OF fg(2)] ref_slot(2) [OF fg(1)] ref_slot(2) [OF fg(2)]
        shape [OF fg(1)] shape [OF fg(2)] r(2)
      by (cases "fl_uses_ref f"; cases "fl_uses_ref g")
         (auto simp: slots_disjoint_def fixed_before_def ref_before_def field_shape_def)
  qed
  moreover have "fl_presence_bit_index f < 8 * ?p" if "f \<in> set fs2" for f
  proof -
    have "fl_presence_bit_index f \<in> set [0..<?n]" unfolding bits [symmetric] using that by simp
    with p(2) show ?thesis by simp
  qed
  moreover have "?p \<le> fl_slot_offset f \<and> fl_slot_offset f + fl_value_width f \<le> c2 \<and> slot_aligned f" if "f \<in> set fs2" for f
    using that fixed_slot [OF that] ref_slot [OF that] A(2) B(2) r(2) by (cases "fl_uses_ref f") auto
  ultimately show "layout_ok L"
    using d ids bits shape A(2) B(2) r(2) by (simp add: layout_ok_def fields slot_size)
qed

text \<open>
  C23. For every schema that the schema operations can build, \<open>Compile\<close> succeeds and its layout is
  sound: fields in the order of their ids and exactly the active ones, a presence bit of its own for
  each, aligned slots that do not overlap, behind the bitmap and inside the row, and a row size that
  is a multiple of eight.
\<close>

theorem compile_layout_sound:
  "let s = schema_run ops (NewRuntimeSchema version) in
   \<exists>L. Compile s = Inr L \<and> layout_ok L \<and> 8 dvd cl_row_slot_size L
    \<and> sorted (map fl_field_id (cl_fields L))
    \<and> set (map fl_field_id (cl_fields L)) = set (map fs_field_id (rs_active_fields s))"
proof -
  let ?s = "schema_run ops (NewRuntimeSchema version)"
  have ok: "schema_ok ?s" by (rule schema_run_ok) (simp add: schema_ok_def NewRuntimeSchema_def)
  obtain L where L: "Compile ?s = Inr L" using Compile_succeeds by blast
  have ids: "map fl_field_id (cl_fields L) = map fs_field_id (sort_key fs_field_id (rs_active_fields ?s))"
    using arg_cong [OF Compile_layout(2) [OF ok L], of "map fl_field_id"]
    by (simp add: comp_def unslot_def MakeFieldLayout_def case_prod_beta map_enumerate_snd)
  have "sorted (map fl_field_id (cl_fields L))" by (simp only: ids sorted_sort_key)
  moreover have "set (map fl_field_id (cl_fields L)) = set (map fs_field_id (rs_active_fields ?s))"
    by (simp only: ids set_map set_sort)
  ultimately show ?thesis using Compile_layout(1,3) [OF ok L] L by (auto simp: Let_def)
qed

lemma sort_key_mset_eq:
  assumes "mset xs = mset ys" and "distinct (map k xs)"
  shows "sort_key k xs = sort_key k ys"
proof -
  have d: "distinct (map k ys)" using assms by (metis mset_eq_imp_distinct_iff mset_map)
  show ?thesis
  proof (rule map_sorted_distinct_set_unique [of k])
    show "inj_on k (set (sort_key k xs) \<union> set (sort_key k ys))"
      using assms mset_eq_setD [OF assms(1)] by (simp add: distinct_map)
    show "sorted (map k (sort_key k xs))" "sorted (map k (sort_key k ys))" by simp_all
    show "distinct (map k (sort_key k xs))" "distinct (map k (sort_key k ys))"
      using assms(2) d by (simp_all only: distinct_map distinct_sort set_sort)
    show "set (sort_key k xs) = set (sort_key k ys)" using mset_eq_setD [OF assms(1)] by simp
  qed
qed

text \<open>
  C30. The layout, and with it the fingerprint that guards every row, does not depend on the order in
  which the fields were added.
\<close>

theorem compile_order_independent:
  assumes "schema_ok s" and "rs_version s' = rs_version s"
    and "mset (rs_active_fields s') = mset (rs_active_fields s)"
  shows "Compile s' = Compile s"
proof -
  have "sort_key fs_field_id (rs_active_fields s) = sort_key fs_field_id (rs_active_fields s')"
    using assms by (intro sort_key_mset_eq) (auto simp: schema_ok_def)
  then show ?thesis using assms(2) by (simp add: Compile_def)
qed

theorem compile_order_independent_witness:
  "let f = (\<lambda>i. \<lparr>fs_field_id = i, fs_name = ''x'', fs_type = kInt64, fs_is_list = False, fs_nullable = True,
            fs_encoding = kFixed, fs_default_value = NoDefault, fs_deleted = False\<rparr>)
   in Compile \<lparr>rs_version = 1, rs_active_fields = [f 2, f 1], rs_deleted_fields = []\<rparr>
    = Compile \<lparr>rs_version = 1, rs_active_fields = [f 1, f 2], rs_deleted_fields = []\<rparr>"
  unfolding Let_def
  by (rule compile_order_independent)
     (simp_all add: schema_ok_def ValidateEncodingPolicy_def DefaultMatchesField_def)

end
