(* ===== verification/Row_Storage.thy ===== *)
theory Row_Storage
  imports Schema
begin

text \<open>
  \<open>src/model/row_storage.{h,cc}\<close> and \<open>include/kv_index/row.h\<close>: the encoded row (a slot with a
  presence bitmap, fixed values and value references, an arena for variable-size data, and
  dictionaries), the writers that fill it and the typed readers of \<open>Row\<close>.

  A writer takes an \<open>EncodedRow*\<close>; the model takes the pointed-to row (\<open>None\<close> for a null
  pointer) and returns the status together with the row after the call, because some writers grow
  the arena before a later step can fail. The C++ type parameter of the templates is the constructor
  of \<open>ScalarValue\<close> or \<open>ListValue\<close>.
\<close>

section \<open>Data\<close>

record EncodedRow =
  er_schema_version :: u64
  er_layout_fingerprint :: u64
  er_row_slot :: "byte list"
  er_arena :: "byte list"
  er_string_dictionary :: "string list"
  er_scalar_list_dictionary :: "byte list list"
  er_string_list_dictionary :: "string list list"
  er_string_element_dictionary :: "string list"

record AccessorMetadata =
  am_schema_version :: u64
  am_layout_fingerprint :: u64
  am_field_id :: FieldId
  am_is_list :: bool
  am_physical_type :: FieldType
  am_encoding :: FieldEncoding
  am_offset :: nat
  am_presence_bit_index :: nat

record FieldAccessor =
  fa_schema_version :: u64
  fa_layout_fingerprint :: u64
  fa_field_id :: FieldId
  fa_is_list :: bool
  fa_physical_type :: FieldType
  fa_nullable :: bool
  fa_has_default :: bool
  fa_encoding :: FieldEncoding
  fa_offset :: nat
  fa_presence_bit_index :: nat

record Row =
  row_layout :: "CompiledRowLayout option"
  row_encoded :: "EncodedRow option"

type_synonym 's upd = "unit res \<times> 's option"

section \<open>Writers\<close>

definition CreateEncodedRow :: "CompiledRowLayout \<Rightarrow> EncodedRow" where
  "CreateEncodedRow layout =
     \<lparr>er_schema_version = cl_schema_version layout,
      er_layout_fingerprint = cl_layout_fingerprint layout,
      er_row_slot = replicate (cl_row_slot_size layout) 0, er_arena = [],
      er_string_dictionary = [], er_scalar_list_dictionary = [],
      er_string_list_dictionary = [], er_string_element_dictionary = []\<rparr>"

definition null_row :: failure where
  "null_row = InvalidArgument ''encoded row must not be null''"

definition SetFieldPresent :: "FieldLayout \<Rightarrow> EncodedRow option \<Rightarrow> EncodedRow upd" where
  "SetFieldPresent field encoded =
     (case encoded of
        None \<Rightarrow> (Inl null_row, None)
      | Some row \<Rightarrow>
          (let byte_index = fl_presence_bit_index field div 8;
               bit_index = fl_presence_bit_index field mod 8 in
           if byte_index \<ge> length (er_row_slot row)
           then (Inl (InvalidArgument ''presence bit is out of row-slot bounds''), Some row)
           else (Inr (), Some (row\<lparr>er_row_slot := (er_row_slot row)
                   [byte_index := er_row_slot row ! byte_index OR push_bit bit_index 1]\<rparr>))))"

definition WriteValueRefField :: "FieldLayout \<Rightarrow> ValueRef16 \<Rightarrow> EncodedRow option \<Rightarrow> EncodedRow upd" where
  "WriteValueRefField field ref encoded =
     (case encoded of
        None \<Rightarrow> (Inl null_row, None)
      | Some row \<Rightarrow>
          if \<not> fl_uses_ref field
          then (Inl (InvalidArgument ''field does not use a value ref''), Some row)
          else (case WriteValueRef16 ref (er_row_slot row) (fl_slot_offset field) of
                  Inl e \<Rightarrow> (Inl e, Some row)
                | Inr slot \<Rightarrow> SetFieldPresent field (Some (row\<lparr>er_row_slot := slot\<rparr>))))"

definition WriteArenaStringField :: "FieldLayout \<Rightarrow> string \<Rightarrow> EncodedRow option \<Rightarrow> EncodedRow upd" where
  "WriteArenaStringField field value encoded =
     (case encoded of
        None \<Rightarrow> (Inl null_row, None)
      | Some row \<Rightarrow>
          if fl_is_list field \<or> fl_type field \<noteq> kString \<or> fl_encoding field \<noteq> kArena
          then (Inl (InvalidArgument ''arena string writer does not match field''), Some row)
          else if length value > 2 ^ 32 - 1
          then (Inl (InvalidArgument ''string value is too large''), Some row)
          else WriteValueRefField field
                 \<lparr>vr_offset = of_nat (length (er_arena row)), vr_byte_length = of_nat (length value),
                  vr_element_count_or_flags = 0\<rparr>
                 (Some (row\<lparr>er_arena := er_arena row @ bytes_of_string value\<rparr>)))"

definition WriteDictionaryStringField :: "FieldLayout \<Rightarrow> u32 \<Rightarrow> EncodedRow option \<Rightarrow> EncodedRow upd" where
  "WriteDictionaryStringField field dictionary_id encoded =
     (if fl_is_list field \<or> fl_type field \<noteq> kString \<or> fl_encoding field \<noteq> kDictionary
      then (Inl (InvalidArgument ''dictionary string writer does not match field''), encoded)
      else WriteValueRefField field
             \<lparr>vr_offset = ucast dictionary_id, vr_byte_length = 0, vr_element_count_or_flags = 0\<rparr> encoded)"

definition WriteListDictionaryField :: "FieldLayout \<Rightarrow> u32 \<Rightarrow> u32 \<Rightarrow> EncodedRow option \<Rightarrow> EncodedRow upd" where
  "WriteListDictionaryField field dictionary_id element_count encoded =
     (if \<not> fl_is_list field \<or> fl_encoding field \<noteq> kListDictionary
      then (Inl (InvalidArgument ''list dictionary writer does not match field''), encoded)
      else WriteValueRefField field
             \<lparr>vr_offset = ucast dictionary_id, vr_byte_length = 0,
              vr_element_count_or_flags = element_count\<rparr> encoded)"

text \<open>The loop that writes dictionary ids one after the other.\<close>

fun WriteIds :: "u32 list \<Rightarrow> nat \<Rightarrow> byte list \<Rightarrow> unit res \<times> byte list" where
  "WriteIds [] offset arena = (Inr (), arena)"
| "WriteIds (i # ids) offset arena =
     (case WriteLittleEndian i arena offset of
        Inl e \<Rightarrow> (Inl e, arena)
      | Inr arena \<Rightarrow> WriteIds ids (offset + 4) arena)"

definition WriteElementDictionaryStringListField ::
    "FieldLayout \<Rightarrow> u32 list \<Rightarrow> EncodedRow option \<Rightarrow> EncodedRow upd" where
  "WriteElementDictionaryStringListField field dictionary_ids encoded =
     (case encoded of
        None \<Rightarrow> (Inl null_row, None)
      | Some row \<Rightarrow>
          if \<not> fl_is_list field \<or> fl_type field \<noteq> kString \<or> fl_encoding field \<noteq> kElementDictionary
          then (Inl (InvalidArgument ''element dictionary string-list writer does not match field''), Some row)
          else if length dictionary_ids > 2 ^ 32 - 1
          then (Inl (InvalidArgument ''string-list dictionary id count is too large''), Some row)
          else
            (let offset = length (er_arena row);
                 byte_length = length dictionary_ids * 4;
                 arena = er_arena row @ replicate byte_length 0 in
             case WriteIds dictionary_ids offset arena of
               (Inl e, arena) \<Rightarrow> (Inl e, Some (row\<lparr>er_arena := arena\<rparr>))
             | (Inr _, arena) \<Rightarrow>
                 WriteValueRefField field
                   \<lparr>vr_offset = of_nat offset, vr_byte_length = of_nat byte_length,
                    vr_element_count_or_flags = of_nat (length dictionary_ids)\<rparr>
                   (Some (row\<lparr>er_arena := arena\<rparr>))))"

definition EncodeWords :: "'a :: len word list \<Rightarrow> byte list res" where
  "EncodeWords values =
     foldM_res (\<lambda>(i, v) bytes. WriteLittleEndian v bytes (i * sizeof TYPE('a)))
       (enumerate 0 values) (replicate (length values * sizeof TYPE('a)) 0)"

fun EncodeScalarListSpan :: "ListValue \<Rightarrow> byte list res" where
  "EncodeScalarListSpan (LInt8 vs) = EncodeWords vs"
| "EncodeScalarListSpan (LInt32 vs) = EncodeWords vs"
| "EncodeScalarListSpan (LInt64 vs) = EncodeWords vs"
| "EncodeScalarListSpan (LUInt64 vs) = EncodeWords vs"
| "EncodeScalarListSpan (LBool vs) = EncodeWords (map (\<lambda>b. if b then 1 else 0 :: u8) vs)"
| "EncodeScalarListSpan (LString vs) = Inl (InvalidArgument ''string lists require ref-based encoding'')"

fun list_length :: "ListValue \<Rightarrow> nat" where
  "list_length (LInt8 vs) = length vs"
| "list_length (LInt32 vs) = length vs"
| "list_length (LInt64 vs) = length vs"
| "list_length (LUInt64 vs) = length vs"
| "list_length (LBool vs) = length vs"
| "list_length (LString vs) = length vs"

text \<open>
  The bytes of a fixed scalar. \<open>WriteScalarField\<close> cannot be instantiated at \<open>std::string\<close>
  (there is no \<open>WriteLittleEndian\<close> for it); a string is answered as a mismatch.
\<close>

fun WriteScalarBytes :: "ScalarValue \<Rightarrow> byte list \<Rightarrow> nat \<Rightarrow> byte list res" where
  "WriteScalarBytes (SInt8 v) bytes offset = WriteLittleEndian v bytes offset"
| "WriteScalarBytes (SInt32 v) bytes offset = WriteLittleEndian v bytes offset"
| "WriteScalarBytes (SInt64 v) bytes offset = WriteLittleEndian v bytes offset"
| "WriteScalarBytes (SUInt64 v) bytes offset = WriteLittleEndian v bytes offset"
| "WriteScalarBytes (SBool v) bytes offset = WriteLittleEndian (if v then 1 else 0 :: u8) bytes offset"
| "WriteScalarBytes (SString v) bytes offset =
     Inl (InvalidArgument ''scalar field writer does not match field'')"

definition WriteScalarField :: "FieldLayout \<Rightarrow> ScalarValue \<Rightarrow> EncodedRow option \<Rightarrow> EncodedRow upd" where
  "WriteScalarField field value encoded =
     (case encoded of
        None \<Rightarrow> (Inl null_row, None)
      | Some row \<Rightarrow>
          if fl_is_list field \<or> fl_uses_ref field \<or> fl_type field \<noteq> scalar_type value
          then (Inl (InvalidArgument ''scalar field writer does not match field''), Some row)
          else if fl_slot_offset field > length (er_row_slot row)
                  \<or> length (er_row_slot row) - fl_slot_offset field < fl_value_width field
          then (Inl (InvalidArgument ''scalar field offset is out of row-slot bounds''), Some row)
          else (case WriteScalarBytes value (er_row_slot row) (fl_slot_offset field) of
                  Inl e \<Rightarrow> (Inl e, Some row)
                | Inr slot \<Rightarrow> SetFieldPresent field (Some (row\<lparr>er_row_slot := slot\<rparr>))))"

text \<open>
  The byte length and the element count are narrowed to 32 bits without a check. (The comparison of
  the arena size with the largest 64-bit value can never succeed, so it has no branch here.)
\<close>

definition WriteArenaListField :: "FieldLayout \<Rightarrow> ListValue \<Rightarrow> EncodedRow option \<Rightarrow> EncodedRow upd" where
  "WriteArenaListField field values encoded =
     (case encoded of
        None \<Rightarrow> (Inl null_row, None)
      | Some row \<Rightarrow>
          if \<not> fl_is_list field \<or> fl_encoding field \<noteq> kArena \<or> fl_type field \<noteq> list_type values
          then (Inl (InvalidArgument ''arena list writer does not match field''), Some row)
          else if list_type values = kString
          then (Inl (InvalidArgument ''arena list<string> builder is not implemented''), Some row)
          else (case EncodeScalarListSpan values of
                  Inl e \<Rightarrow> (Inl e, Some row)
                | Inr payload \<Rightarrow>
                    WriteValueRefField field
                      \<lparr>vr_offset = of_nat (length (er_arena row)), vr_byte_length = of_nat (length payload),
                       vr_element_count_or_flags = of_nat (list_length values)\<rparr>
                      (Some (row\<lparr>er_arena := er_arena row @ payload\<rparr>))))"

section \<open>Readers\<close>

definition HasBytes :: "nat \<Rightarrow> nat \<Rightarrow> nat \<Rightarrow> bool" where
  "HasBytes sz offset byte_count \<longleftrightarrow> offset \<le> sz \<and> sz - offset \<ge> byte_count"

definition FieldPresent :: "FieldLayout \<Rightarrow> EncodedRow \<Rightarrow> bool" where
  "FieldPresent field row \<longleftrightarrow>
     (let byte_index = fl_presence_bit_index field div 8;
          bit_index = fl_presence_bit_index field mod 8 in
      if byte_index \<ge> length (er_row_slot row) then False
      else er_row_slot row ! byte_index AND push_bit bit_index 1 \<noteq> 0)"

definition accessor_mismatch :: failure where
  "accessor_mismatch = FailedPrecondition ''field accessor does not match this row layout''"

definition ValidateAccessor ::
    "AccessorMetadata option \<Rightarrow> FieldLayout \<Rightarrow> EncodedRow \<Rightarrow> CompiledRowLayout \<Rightarrow> FieldType \<Rightarrow> bool \<Rightarrow> unit res" where
  "ValidateAccessor accessor field row layout expected_type expected_list =
     (case accessor of
        None \<Rightarrow> Inr ()
      | Some a \<Rightarrow>
          reject (am_schema_version a \<noteq> er_schema_version row
                  \<or> am_schema_version a \<noteq> cl_schema_version layout
                  \<or> am_layout_fingerprint a \<noteq> er_layout_fingerprint row
                  \<or> am_layout_fingerprint a \<noteq> cl_layout_fingerprint layout
                  \<or> am_field_id a \<noteq> fl_field_id field
                  \<or> am_is_list a \<noteq> expected_list
                  \<or> am_physical_type a \<noteq> expected_type
                  \<or> am_encoding a \<noteq> fl_encoding field
                  \<or> am_offset a \<noteq> fl_slot_offset field
                  \<or> am_presence_bit_index a \<noteq> fl_presence_bit_index field) accessor_mismatch)"

definition ResolveField ::
    "Row \<Rightarrow> FieldId \<Rightarrow> FieldType \<Rightarrow> bool \<Rightarrow> AccessorMetadata option \<Rightarrow> (FieldLayout \<times> EncodedRow) res" where
  "ResolveField r fid expected_type expected_list accessor =
     (case (row_layout r, row_encoded r) of
        (Some layout, Some row) \<Rightarrow>
          rbind (reject (er_schema_version row \<noteq> cl_schema_version layout
                         \<or> er_layout_fingerprint row \<noteq> cl_layout_fingerprint layout)
                   (FailedPrecondition ''row backing does not match compiled layout'')) (\<lambda>_.
          rbind (reject (case accessor of None \<Rightarrow> False
                         | Some a \<Rightarrow> am_schema_version a \<noteq> er_schema_version row
                                  \<or> am_schema_version a \<noteq> cl_schema_version layout
                                  \<or> am_layout_fingerprint a \<noteq> er_layout_fingerprint row
                                  \<or> am_layout_fingerprint a \<noteq> cl_layout_fingerprint layout)
                   accessor_mismatch) (\<lambda>_.
          case FindLayoutField layout fid of
            None \<Rightarrow> Inl (if accessor \<noteq> None then accessor_mismatch
                         else NotFound ''field is not active in row layout'')
          | Some field \<Rightarrow>
              rbind (reject (fl_is_list field \<noteq> expected_list)
                       (InvalidArgument ''field scalar/list shape does not match read'')) (\<lambda>_.
              rbind (reject (fl_type field \<noteq> expected_type)
                       (InvalidArgument ''field physical type does not match read'')) (\<lambda>_.
              rbind (ValidateAccessor accessor field row layout expected_type expected_list) (\<lambda>_.
              Inr (field, row))))))
      | _ \<Rightarrow> Inl (FailedPrecondition ''row has no materialized backing''))"

definition ReadRef :: "FieldLayout \<Rightarrow> EncodedRow \<Rightarrow> ValueRef16 res" where
  "ReadRef field row =
     (if \<not> HasBytes (length (er_row_slot row)) (fl_slot_offset field) 16
      then Inl (InvalidArgument ''value ref is out of row-slot bounds'')
      else DecodeValueRef16 (er_row_slot row) (fl_slot_offset field))"

definition ValidateRefBounds :: "ValueRef16 \<Rightarrow> nat \<Rightarrow> unit res" where
  "ValidateRefBounds ref payload_size =
     (if unat (vr_offset ref) > payload_size
      then Inl (InvalidArgument ''value ref offset is out of bounds'')
      else if payload_size - unat (vr_offset ref) < unat (vr_byte_length ref)
      then Inl (InvalidArgument ''value ref length is out of bounds'')
      else Inr ())"

text \<open>\<open>std::get\<close> of an alternative that the variant does not hold throws.\<close>

definition DefaultScalarValue :: "FieldLayout \<Rightarrow> ScalarValue res" where
  "DefaultScalarValue field =
     (case fl_default_value field of
        NoDefault \<Rightarrow>
          Inl (if \<not> fl_nullable field then FailedPrecondition ''required field is missing''
               else NotFound ''field is absent and has no default'')
      | DefaultScalar v \<Rightarrow>
          if is_kUnlistedType (fl_type field) then Inl (InvalidArgument ''unsupported scalar default type'')
          else if scalar_type v = fl_type field then Inr v
          else Inl (Throw ''std::bad_variant_access'')
      | DefaultList vs \<Rightarrow>
          Inl (if is_kUnlistedType (fl_type field) then InvalidArgument ''unsupported scalar default type''
               else Throw ''std::bad_variant_access''))"

definition DefaultListValue :: "FieldLayout \<Rightarrow> ListValue res" where
  "DefaultListValue field =
     (case fl_default_value field of
        NoDefault \<Rightarrow>
          Inl (if \<not> fl_nullable field then FailedPrecondition ''required list field is missing''
               else NotFound ''list field is absent and has no default'')
      | DefaultList vs \<Rightarrow>
          if is_kUnlistedType (fl_type field) then Inl (InvalidArgument ''unsupported list default type'')
          else if list_type vs = fl_type field then Inr vs
          else Inl (Throw ''std::bad_variant_access'')
      | DefaultScalar v \<Rightarrow>
          Inl (if is_kUnlistedType (fl_type field) then InvalidArgument ''unsupported list default type''
               else Throw ''std::bad_variant_access''))"

definition length_mismatch :: failure where
  "length_mismatch = InvalidArgument ''list byte length does not match element count''"

definition DecodeWords :: "byte list \<Rightarrow> u32 \<Rightarrow> 'a :: len word list res" where
  "DecodeWords bytes element_count =
     (if length bytes \<noteq> unat element_count * sizeof TYPE('a) then Inl length_mismatch
      else mapM_res (\<lambda>i. ReadLittleEndian bytes (i * sizeof TYPE('a))) [0..<unat element_count])"

definition DecodeBools :: "byte list \<Rightarrow> u32 \<Rightarrow> bool list res" where
  "DecodeBools bytes element_count =
     (if length bytes \<noteq> unat element_count * 1 then Inl length_mismatch
      else mapM_res (\<lambda>i. rbind (ReadLittleEndian bytes (i * 1)) (\<lambda>v :: u8.
             if v > 1 then Inl (InvalidArgument ''encoded bool list value is invalid'')
             else Inr (v \<noteq> 0))) [0..<unat element_count])"

fun DecodeScalarListByType :: "FieldType \<Rightarrow> byte list \<Rightarrow> u32 \<Rightarrow> ListValue res" where
  "DecodeScalarListByType kInt8 bytes n = rbind (DecodeWords bytes n) (\<lambda>vs. Inr (LInt8 vs))"
| "DecodeScalarListByType kInt32 bytes n = rbind (DecodeWords bytes n) (\<lambda>vs. Inr (LInt32 vs))"
| "DecodeScalarListByType kInt64 bytes n = rbind (DecodeWords bytes n) (\<lambda>vs. Inr (LInt64 vs))"
| "DecodeScalarListByType kUInt64 bytes n = rbind (DecodeWords bytes n) (\<lambda>vs. Inr (LUInt64 vs))"
| "DecodeScalarListByType kBool bytes n = rbind (DecodeBools bytes n) (\<lambda>vs. Inr (LBool vs))"
| "DecodeScalarListByType kString bytes n =
     Inl (InvalidArgument ''string list is not a scalar byte list'')"
| "DecodeScalarListByType (kUnlistedType c) bytes n = Inl (InvalidArgument ''unsupported scalar list type'')"

text \<open>\<open>i * 16U\<close> is computed in 32 bits.\<close>

definition DecodeArenaStringList :: "ValueRef16 \<Rightarrow> EncodedRow \<Rightarrow> ListValue res" where
  "DecodeArenaStringList ref row =
     (if unat (vr_byte_length ref) \<noteq> unat (vr_element_count_or_flags ref) * 16
      then Inl (InvalidArgument ''string list ref payload has invalid length'')
      else
        rbind (ValidateRefBounds ref (length (er_arena row))) (\<lambda>_.
        rbind (mapM_res (\<lambda>i.
            rbind (DecodeValueRef16 (er_arena row) (unat (vr_offset ref) + i * 16 mod 2 ^ 32)) (\<lambda>element_ref.
            rbind (ValidateRefBounds element_ref (length (er_arena row))) (\<lambda>_.
            Inr (string_of_bytes (subspan (unat (vr_offset element_ref)) (unat (vr_byte_length element_ref))
                   (er_arena row))))))
          [0..<unat (vr_element_count_or_flags ref)]) (\<lambda>values.
        Inr (LString values))))"

definition MaterializeRow :: "CompiledRowLayout option \<Rightarrow> EncodedRow \<Rightarrow> Row res" where
  "MaterializeRow layout encoded =
     (case layout of
        None \<Rightarrow> Inl (InvalidArgument ''compiled row layout must not be null'')
      | Some l \<Rightarrow>
          if er_schema_version encoded \<noteq> cl_schema_version l
             \<or> er_layout_fingerprint encoded \<noteq> cl_layout_fingerprint l
          then Inl (FailedPrecondition ''encoded row metadata does not match layout'')
          else if length (er_row_slot encoded) < cl_row_slot_size l
          then Inl (InvalidArgument ''encoded row slot is shorter than layout'')
          else if \<exists>field \<in> set (cl_fields l).
                    \<not> fl_nullable field \<and> \<not> fl_HasDefault field \<and> \<not> FieldPresent field encoded
          then Inl (FailedPrecondition ''required field is absent in encoded row'')
          else Inr \<lparr>row_layout = Some l, row_encoded = Some encoded\<rparr>)"

definition Row_Has :: "Row \<Rightarrow> FieldId \<Rightarrow> bool" where
  "Row_Has r fid \<longleftrightarrow>
     (case (row_layout r, row_encoded r) of
        (Some layout, Some row) \<Rightarrow>
          (case FindLayoutField layout fid of None \<Rightarrow> False | Some field \<Rightarrow> FieldPresent field row)
      | _ \<Rightarrow> False)"

fun ReadScalarBytes :: "FieldType \<Rightarrow> byte list \<Rightarrow> nat \<Rightarrow> ScalarValue res" where
  "ReadScalarBytes kInt8 bytes offset = rbind (ReadLittleEndian bytes offset) (\<lambda>v. Inr (SInt8 v))"
| "ReadScalarBytes kInt32 bytes offset = rbind (ReadLittleEndian bytes offset) (\<lambda>v. Inr (SInt32 v))"
| "ReadScalarBytes kInt64 bytes offset = rbind (ReadLittleEndian bytes offset) (\<lambda>v. Inr (SInt64 v))"
| "ReadScalarBytes kUInt64 bytes offset = rbind (ReadLittleEndian bytes offset) (\<lambda>v. Inr (SUInt64 v))"
| "ReadScalarBytes kBool bytes offset =
     rbind (ReadLittleEndian bytes offset) (\<lambda>v :: u8.
       if v > 1 then Inl (InvalidArgument ''encoded bool value is invalid'') else Inr (SBool (v \<noteq> 0)))"
| "ReadScalarBytes kString bytes offset = Inl (InvalidArgument ''unsupported scalar field type'')"
| "ReadScalarBytes (kUnlistedType c) bytes offset = Inl (InvalidArgument ''unsupported scalar field type'')"

text \<open>The part of \<open>ReadScalarValue\<close> and of \<open>ReadListValue\<close> after the field is resolved.\<close>

definition ReadScalarField :: "FieldLayout \<Rightarrow> EncodedRow \<Rightarrow> ScalarValue res" where
  "ReadScalarField field row =
     (if \<not> FieldPresent field row then DefaultScalarValue field
      else if fl_type field = kString then
        rbind (ReadRef field row) (\<lambda>ref.
          if fl_encoding field = kArena then
            rbind (ValidateRefBounds ref (length (er_arena row))) (\<lambda>_.
            Inr (SString (string_of_bytes
              (subspan (unat (vr_offset ref)) (unat (vr_byte_length ref)) (er_arena row)))))
          else if fl_encoding field = kDictionary then
            (if unat (vr_offset ref) \<ge> length (er_string_dictionary row)
             then Inl (InvalidArgument ''string dictionary id is out of bounds'')
             else Inr (SString (er_string_dictionary row ! unat (vr_offset ref))))
          else Inl (InvalidArgument ''string field has unsupported encoding''))
      else if \<not> HasBytes (length (er_row_slot row)) (fl_slot_offset field) (fl_value_width field)
      then Inl (InvalidArgument ''scalar field is out of row-slot bounds'')
      else ReadScalarBytes (fl_type field) (er_row_slot row) (fl_slot_offset field))"

definition ReadElementDictionaryList :: "ValueRef16 \<Rightarrow> EncodedRow \<Rightarrow> ListValue res" where
  "ReadElementDictionaryList ref row =
     rbind (ValidateRefBounds ref (length (er_arena row))) (\<lambda>_.
     rbind (reject (vr_byte_length ref \<noteq> vr_element_count_or_flags ref * 4)
              (InvalidArgument ''element dictionary ref length does not match element count'')) (\<lambda>_.
     rbind (mapM_res (\<lambda>i.
         rbind (ReadLittleEndian (er_arena row) (unat (vr_offset ref) + i * 4)) (\<lambda>dictionary_id :: u32.
           if unat dictionary_id \<ge> length (er_string_element_dictionary row)
           then Inl (InvalidArgument ''element dictionary string id is out of bounds'')
           else Inr (er_string_element_dictionary row ! unat dictionary_id)))
       [0..<unat (vr_element_count_or_flags ref)]) (\<lambda>values.
     Inr (LString values))))"

definition ReadListField :: "FieldLayout \<Rightarrow> EncodedRow \<Rightarrow> ListValue res" where
  "ReadListField field row =
     (if \<not> FieldPresent field row then DefaultListValue field
      else
        rbind (ReadRef field row) (\<lambda>ref.
          if fl_encoding field = kArena then
            rbind (ValidateRefBounds ref (length (er_arena row))) (\<lambda>_.
            if fl_type field = kString then DecodeArenaStringList ref row
            else DecodeScalarListByType (fl_type field)
                   (subspan (unat (vr_offset ref)) (unat (vr_byte_length ref)) (er_arena row))
                   (vr_element_count_or_flags ref))
          else if fl_encoding field = kListDictionary then
            (if fl_type field = kString then
               (if unat (vr_offset ref) \<ge> length (er_string_list_dictionary row)
                then Inl (InvalidArgument ''string-list dictionary id is out of bounds'')
                else if length (er_string_list_dictionary row ! unat (vr_offset ref))
                        \<noteq> unat (vr_element_count_or_flags ref)
                then Inl (InvalidArgument ''string-list dictionary count does not match ref'')
                else Inr (LString (er_string_list_dictionary row ! unat (vr_offset ref))))
             else if unat (vr_offset ref) \<ge> length (er_scalar_list_dictionary row)
             then Inl (InvalidArgument ''scalar-list dictionary id is out of bounds'')
             else DecodeScalarListByType (fl_type field)
                    (er_scalar_list_dictionary row ! unat (vr_offset ref)) (vr_element_count_or_flags ref))
          else if fl_encoding field = kElementDictionary then
            (if fl_type field \<noteq> kString
             then Inl (InvalidArgument ''element dictionary lists are only supported for strings'')
             else ReadElementDictionaryList ref row)
          else Inl (InvalidArgument ''list field has unsupported encoding'')))"

definition ReadScalarValue :: "Row \<Rightarrow> FieldId \<Rightarrow> FieldType \<Rightarrow> AccessorMetadata option \<Rightarrow> ScalarValue res" where
  "ReadScalarValue r fid expected_type accessor =
     rbind (ResolveField r fid expected_type False accessor) (\<lambda>(field, row). ReadScalarField field row)"

definition ReadListValue :: "Row \<Rightarrow> FieldId \<Rightarrow> FieldType \<Rightarrow> AccessorMetadata option \<Rightarrow> ListValue res" where
  "ReadListValue r fid expected_type accessor =
     rbind (ResolveField r fid expected_type True accessor) (\<lambda>(field, row). ReadListField field row)"

section \<open>Typed access\<close>

fun ThrowStatus :: "failure \<Rightarrow> failure" where
  "ThrowStatus (Error code message) = Throw (if message = [] then ''row access failed'' else message)"
| "ThrowStatus e = e"

definition Row_Get :: "Row \<Rightarrow> FieldId \<Rightarrow> FieldType \<Rightarrow> AccessorMetadata option \<Rightarrow> ScalarValue option res" where
  "Row_Get r fid t accessor =
     (case ReadScalarValue r fid t accessor of
        Inl (Error kNotFound message) \<Rightarrow> Inr None
      | Inl e \<Rightarrow> Inl (ThrowStatus e)
      | Inr v \<Rightarrow> if scalar_type v = t then Inr (Some v)
                 else Inl (Throw ''row decoder returned an unexpected scalar type''))"

text \<open>
  An absent list reads as the empty \<open>ListView\<close>. The typed accessors are templates over the six C++
  element types, so the last equation is never used.
\<close>

fun empty_list :: "FieldType \<Rightarrow> ListValue" where
  "empty_list kInt8 = LInt8 []"
| "empty_list kInt32 = LInt32 []"
| "empty_list kInt64 = LInt64 []"
| "empty_list kUInt64 = LUInt64 []"
| "empty_list kBool = LBool []"
| "empty_list kString = LString []"
| "empty_list (kUnlistedType c) = LInt8 []"

definition Row_GetList :: "Row \<Rightarrow> FieldId \<Rightarrow> FieldType \<Rightarrow> AccessorMetadata option \<Rightarrow> ListValue res" where
  "Row_GetList r fid t accessor =
     (case ReadListValue r fid t accessor of
        Inl (Error kNotFound message) \<Rightarrow> Inr (empty_list t)
      | Inl e \<Rightarrow> Inl (ThrowStatus e)
      | Inr v \<Rightarrow> if list_type v = t then Inr v
                 else Inl (Throw ''row decoder returned an unexpected list type''))"

definition accessor_of :: "CompiledRowLayout \<Rightarrow> FieldLayout \<Rightarrow> bool \<Rightarrow> FieldAccessor" where
  "accessor_of layout field is_list =
     \<lparr>fa_schema_version = cl_schema_version layout, fa_layout_fingerprint = cl_layout_fingerprint layout,
      fa_field_id = fl_field_id field, fa_is_list = is_list, fa_physical_type = fl_type field,
      fa_nullable = fl_nullable field, fa_has_default = fl_HasDefault field,
      fa_encoding = fl_encoding field, fa_offset = fl_slot_offset field,
      fa_presence_bit_index = fl_presence_bit_index field\<rparr>"

definition MakeFieldAccessor :: "FieldType \<Rightarrow> CompiledRowLayout \<Rightarrow> FieldId \<Rightarrow> FieldAccessor res" where
  "MakeFieldAccessor t layout fid =
     (case FindLayoutField layout fid of
        None \<Rightarrow> Inl (NotFound ''field is not active in layout'')
      | Some field \<Rightarrow>
          if fl_is_list field then Inl (InvalidArgument ''field is a list, not a scalar'')
          else if fl_type field \<noteq> t
          then Inl (InvalidArgument ''field scalar type does not match accessor'')
          else Inr (accessor_of layout field False))"

definition MakeListFieldAccessor :: "FieldType \<Rightarrow> CompiledRowLayout \<Rightarrow> FieldId \<Rightarrow> FieldAccessor res" where
  "MakeListFieldAccessor t layout fid =
     (case FindLayoutField layout fid of
        None \<Rightarrow> Inl (NotFound ''field is not active in layout'')
      | Some field \<Rightarrow>
          if \<not> fl_is_list field then Inl (InvalidArgument ''field is a scalar, not a list'')
          else if fl_type field \<noteq> t
          then Inl (InvalidArgument ''field list element type does not match accessor'')
          else Inr (accessor_of layout field True))"

definition accessor_metadata :: "FieldAccessor \<Rightarrow> AccessorMetadata" where
  "accessor_metadata a =
     \<lparr>am_schema_version = fa_schema_version a, am_layout_fingerprint = fa_layout_fingerprint a,
      am_field_id = fa_field_id a, am_is_list = fa_is_list a, am_physical_type = fa_physical_type a,
      am_encoding = fa_encoding a, am_offset = fa_offset a,
      am_presence_bit_index = fa_presence_bit_index a\<rparr>"

definition Row_GetBy :: "Row \<Rightarrow> FieldType \<Rightarrow> FieldAccessor \<Rightarrow> ScalarValue option res" where
  "Row_GetBy r t accessor = Row_Get r (fa_field_id accessor) t (Some (accessor_metadata accessor))"

definition Row_GetListBy :: "Row \<Rightarrow> FieldType \<Rightarrow> FieldAccessor \<Rightarrow> ListValue res" where
  "Row_GetListBy r t accessor = Row_GetList r (fa_field_id accessor) t (Some (accessor_metadata accessor))"

section \<open>Reference definitions\<close>

text \<open>A call of one of the writers.\<close>

datatype field_write =
    WScalar ScalarValue | WArenaString string | WDictionaryString u32 | WListDictionary u32 u32
  | WElementDictionary "u32 list" | WArenaList ListValue

fun apply_write :: "field_write \<Rightarrow> FieldLayout \<Rightarrow> EncodedRow option \<Rightarrow> EncodedRow upd" where
  "apply_write (WScalar v) f = WriteScalarField f v"
| "apply_write (WArenaString s) f = WriteArenaStringField f s"
| "apply_write (WDictionaryString i) f = WriteDictionaryStringField f i"
| "apply_write (WListDictionary i n) f = WriteListDictionaryField f i n"
| "apply_write (WElementDictionary ids) f = WriteElementDictionaryStringListField f ids"
| "apply_write (WArenaList vs) f = WriteArenaListField f vs"

text \<open>The effect of a successful write: the bytes of the slot, the presence bit, arena bytes.\<close>

definition put_field :: "FieldLayout \<Rightarrow> byte list \<Rightarrow> byte list \<Rightarrow> EncodedRow \<Rightarrow> EncodedRow" where
  "put_field f bs ext e =
     (let slot = overwrite (fl_slot_offset f) bs (er_row_slot e); i = fl_presence_bit_index f div 8 in
      e\<lparr>er_row_slot := slot[i := slot ! i OR push_bit (fl_presence_bit_index f mod 8) 1],
        er_arena := er_arena e @ ext\<rparr>)"

definition slot_bytes :: "FieldLayout \<Rightarrow> EncodedRow \<Rightarrow> byte list" where
  "slot_bytes f e = subspan (fl_slot_offset f) (fl_value_width f) (er_row_slot e)"

text \<open>What a write of another field leaves of a field.\<close>

definition reads_kept :: "FieldLayout \<Rightarrow> EncodedRow \<Rightarrow> EncodedRow \<Rightarrow> bool" where
  "reads_kept g e e' \<longleftrightarrow>
     FieldPresent g e' = FieldPresent g e
     \<and> (\<not> fl_is_list g \<longrightarrow> (\<forall>v. ReadScalarField g e = Inr v \<longrightarrow> ReadScalarField g e' = Inr v))
     \<and> (fl_is_list g \<longrightarrow> (\<forall>v. ReadListField g e = Inr v \<longrightarrow> ReadListField g e' = Inr v))"

text \<open>Data behind the references of a row is only ever added at the end.\<close>

definition grown :: "EncodedRow \<Rightarrow> EncodedRow \<Rightarrow> bool" where
  "grown e e' \<longleftrightarrow>
     (\<exists>xs. er_arena e' = er_arena e @ xs)
     \<and> (\<exists>xs. er_string_dictionary e' = er_string_dictionary e @ xs)
     \<and> (\<exists>xs. er_scalar_list_dictionary e' = er_scalar_list_dictionary e @ xs)
     \<and> (\<exists>xs. er_string_list_dictionary e' = er_string_list_dictionary e @ xs)
     \<and> (\<exists>xs. er_string_element_dictionary e' = er_string_element_dictionary e @ xs)"

text \<open>A row whose slot is as long as the layout says and whose arena has a 64-bit size.\<close>

definition row_fits :: "CompiledRowLayout \<Rightarrow> EncodedRow \<Rightarrow> bool" where
  "row_fits L e \<longleftrightarrow> cl_row_slot_size L \<le> length (er_row_slot e) \<and> length (er_arena e) < 2 ^ 64"

fun scalar_bytes :: "ScalarValue \<Rightarrow> byte list" where
  "scalar_bytes (SInt8 v) = le_bytes v"
| "scalar_bytes (SInt32 v) = le_bytes v"
| "scalar_bytes (SInt64 v) = le_bytes v"
| "scalar_bytes (SUInt64 v) = le_bytes v"
| "scalar_bytes (SBool v) = le_bytes (if v then 1 else 0 :: u8)"
| "scalar_bytes (SString v) = []"

definition invalid :: "failure \<Rightarrow> bool" where
  "invalid x \<longleftrightarrow> (\<exists>m. x = InvalidArgument m)"

text \<open>A schema with one field of each storage class, for examples.\<close>

definition demo_field :: "FieldId \<Rightarrow> FieldType \<Rightarrow> bool \<Rightarrow> FieldEncoding \<Rightarrow> FieldSpec" where
  "demo_field i t is_list enc = \<lparr>fs_field_id = i, fs_name = ''f'', fs_type = t, fs_is_list = is_list,
     fs_nullable = (i \<noteq> 1), fs_encoding = enc, fs_default_value = NoDefault, fs_deleted = False\<rparr>"

definition demo_schema :: RuntimeSchema where
  "demo_schema = \<lparr>rs_version = 1, rs_active_fields =
     [demo_field 1 kInt64 False kFixed, demo_field 2 kString False kArena, demo_field 3 kInt32 True kArena,
      demo_field 4 kString True kElementDictionary], rs_deleted_fields = []\<rparr>"

section \<open>Fields of a compiled layout\<close>

lemma Compile_field:
  assumes ok: "schema_ok s" and L: "Compile s = Inr L" and spec: "spec \<in> set (rs_active_fields s)"
  shows "\<exists>f \<in> set (cl_fields L). fl_field_id f = fs_field_id spec \<and> fl_type f = fs_type spec
    \<and> fl_is_list f = fs_is_list spec \<and> fl_encoding f = fs_encoding spec \<and> fl_nullable f = fs_nullable spec
    \<and> fl_uses_ref f = IsRefField spec \<and> fl_default_value f = fs_default_value spec"
proof -
  let ?act = "sort_key fs_field_id (rs_active_fields s)"
  from spec obtain i where i: "i < length ?act" "?act ! i = spec" by (metis in_set_conv_nth set_sort)
  note C = Compile_layout(2) [OF ok L]
  have len: "length (cl_fields L) = length ?act" using arg_cong [OF C, of length] by simp
  have "unslot (cl_fields L ! i) = MakeFieldLayout i spec"
    using arg_cong [OF C, of "\<lambda>xs. xs ! i"] i len by (simp add: nth_enumerate_eq)
  then have "unslot (cl_fields L ! i) = unslot (MakeFieldLayout i spec)" by (simp add: unslot_def MakeFieldLayout_def)
  from unslot_fields [OF this] i(1) len show ?thesis
    by (intro bexI [of _ "cl_fields L ! i"]) (auto simp: MakeFieldLayout_def)
qed

lemma Compile_field_spec:
  assumes ok: "schema_ok s" and L: "Compile s = Inr L" and f: "f \<in> set (cl_fields L)"
  shows "\<exists>spec \<in> set (rs_active_fields s). fl_field_id f = fs_field_id spec \<and> fl_nullable f = fs_nullable spec
    \<and> fl_type f = fs_type spec \<and> fl_is_list f = fs_is_list spec \<and> fl_encoding f = fs_encoding spec
    \<and> fl_default_value f = fs_default_value spec"
proof -
  let ?act = "sort_key fs_field_id (rs_active_fields s)"
  from f have "unslot f \<in> set (map unslot (cl_fields L))" by simp
  then obtain i where i: "i < length ?act" "unslot f = MakeFieldLayout i (?act ! i)"
    unfolding Compile_layout(2) [OF ok L] by (auto simp: in_set_enumerate_eq)
  define spec where "spec = ?act ! i"
  have "spec \<in> set ?act" using i(1) unfolding spec_def by (rule nth_mem)
  moreover have "unslot f = unslot (MakeFieldLayout i spec)"
    using i(2) by (simp add: unslot_def MakeFieldLayout_def spec_def)
  ultimately show ?thesis
    using unslot_fields [of f "MakeFieldLayout i spec"]
    by (intro bexI [of _ spec]) (auto simp: MakeFieldLayout_def)
qed

section \<open>Presence bits and slots\<close>

lemma FieldPresent_bit:
  "FieldPresent f e \<longleftrightarrow> fl_presence_bit_index f div 8 < length (er_row_slot e)
     \<and> bit (er_row_slot e ! (fl_presence_bit_index f div 8)) (fl_presence_bit_index f mod 8)"
  by (auto simp: FieldPresent_def Let_def bit_iff_and_push_bit_not_eq_0)

lemma layout_okD:
  assumes "layout_ok L" and "f \<in> set (cl_fields L)"
  shows "field_shape f" and "fl_presence_bit_index f div 8 < cl_presence_bitmap_bytes L"
    and "cl_presence_bitmap_bytes L \<le> fl_slot_offset f"
    and "fl_slot_offset f + fl_value_width f \<le> cl_row_slot_size L"
    and "g \<in> set (cl_fields L) \<Longrightarrow> g \<noteq> f \<Longrightarrow> slots_disjoint f g"
    and "g \<in> set (cl_fields L) \<Longrightarrow> g \<noteq> f \<Longrightarrow> fl_presence_bit_index g \<noteq> fl_presence_bit_index f"
    and "FindLayoutField L (fl_field_id f) = Some f"
proof -
  show "field_shape f" "fl_presence_bit_index f div 8 < cl_presence_bitmap_bytes L"
    "cl_presence_bitmap_bytes L \<le> fl_slot_offset f"
    "fl_slot_offset f + fl_value_width f \<le> cl_row_slot_size L"
    using assms by (auto simp: layout_ok_def)
  show "g \<in> set (cl_fields L) \<Longrightarrow> g \<noteq> f \<Longrightarrow> slots_disjoint f g"
    using assms by (auto simp: layout_ok_def pairwise_def)
  show "g \<in> set (cl_fields L) \<Longrightarrow> g \<noteq> f \<Longrightarrow> fl_presence_bit_index g \<noteq> fl_presence_bit_index f"
    using assms by (auto simp: layout_ok_def distinct_map inj_on_def)
  have inj: "inj_on fl_field_id (set (cl_fields L))" using assms(1) by (simp add: layout_ok_def distinct_map)
  show "FindLayoutField L (fl_field_id f) = Some f"
  proof (cases "FindLayoutField L (fl_field_id f)")
    case None
    with assms(2) show ?thesis by (auto simp: FindLayoutField_def find_None_iff)
  next
    case (Some g)
    then have "g \<in> set (cl_fields L)" "fl_field_id g = fl_field_id f"
      by (auto simp: FindLayoutField_def find_Some_iff)
    with inj assms(2) Some show ?thesis by (auto simp: inj_on_def)
  qed
qed

lemma put_field_simps [simp]:
  "er_schema_version (put_field f bs ext e) = er_schema_version e"
  "er_layout_fingerprint (put_field f bs ext e) = er_layout_fingerprint e"
  "er_arena (put_field f bs ext e) = er_arena e @ ext"
  "er_string_dictionary (put_field f bs ext e) = er_string_dictionary e"
  "er_scalar_list_dictionary (put_field f bs ext e) = er_scalar_list_dictionary e"
  "er_string_list_dictionary (put_field f bs ext e) = er_string_list_dictionary e"
  "er_string_element_dictionary (put_field f bs ext e) = er_string_element_dictionary e"
  by (simp_all add: put_field_def Let_def)

lemma put_field_slot:
  assumes L: "layout_ok L" and f: "f \<in> set (cl_fields L)" and e: "cl_row_slot_size L \<le> length (er_row_slot e)"
    and bs: "length bs = fl_value_width f"
  shows "length (er_row_slot (put_field f bs ext e)) = length (er_row_slot e)"
    and "slot_bytes f (put_field f bs ext e) = bs"
    and "g \<in> set (cl_fields L) \<Longrightarrow> g \<noteq> f \<Longrightarrow> slot_bytes g (put_field f bs ext e) = slot_bytes g e"
    and "FieldPresent f (put_field f bs ext e)"
    and "g \<in> set (cl_fields L) \<Longrightarrow> g \<noteq> f \<Longrightarrow> FieldPresent g (put_field f bs ext e) = FieldPresent g e"
proof -
  note F = layout_okD [OF L f]
  let ?i = "fl_presence_bit_index f div 8" and ?off = "fl_slot_offset f"
  let ?s = "overwrite ?off bs (er_row_slot e)"
  let ?s' = "?s[?i := ?s ! ?i OR push_bit (fl_presence_bit_index f mod 8) 1]"
  have slot: "er_row_slot (put_field f bs ext e) = ?s'" by (simp add: put_field_def Let_def)
  have fit: "?off + length bs \<le> length (er_row_slot e)" using F(4) e bs by simp
  then have len: "length ?s = length (er_row_slot e)" by simp
  show "length (er_row_slot (put_field f bs ext e)) = length (er_row_slot e)" by (simp add: slot len)
  have i: "?i < ?off" using F(2,3) by simp
  show "slot_bytes f (put_field f bs ext e) = bs"
    using subspan_overwrite_same [OF fit] by (simp add: slot_bytes_def slot subspan_list_update [OF i] bs)
  have nth: "?s ! j = er_row_slot e ! j" if "j < cl_presence_bitmap_bytes L" for j
    using that F(3) fit by (simp add: nth_overwrite)
  show "FieldPresent f (put_field f bs ext e)"
    using i fit by (simp add: FieldPresent_bit slot len bit_or_iff bit_exp_iff)
  fix g assume g: "g \<in> set (cl_fields L)" "g \<noteq> f"
  note G = layout_okD [OF L g(1)]
  have "?i < fl_slot_offset g" using F(2) G(3) by simp
  then show "slot_bytes g (put_field f bs ext e) = slot_bytes g e"
    using F(5) [OF g] fit bs G(4) e
    by (auto simp: slot_bytes_def slot subspan_list_update slots_disjoint_def intro!: subspan_overwrite_disjoint)
  let ?j = "fl_presence_bit_index g div 8"
  have jl: "?j < length (er_row_slot e)" using G(2,3,4) e by simp
  have "?i = ?j \<Longrightarrow> fl_presence_bit_index g mod 8 \<noteq> fl_presence_bit_index f mod 8"
    using F(6) [OF g] by (metis div_mult_mod_eq)
  then show "FieldPresent g (put_field f bs ext e) = FieldPresent g e"
    using jl nth [OF G(2)] i fit len
    by (cases "?i = ?j") (auto simp: FieldPresent_bit slot bit_or_iff bit_exp_iff)
qed

section \<open>Reads as functions of the slot bytes\<close>

lemma ReadScalarBytes_subspan:
  "off + FieldTypeSize t \<le> length bytes \<Longrightarrow> t \<noteq> kString \<Longrightarrow>
   ReadScalarBytes t bytes off = ReadScalarBytes t (subspan off (FieldTypeSize t) bytes) 0"
  by (cases t) (simp_all add: ReadLittleEndian_eq subspan_def)

lemma ReadRef_slot:
  assumes "field_shape f" and "fl_uses_ref f" and "fl_slot_offset f + fl_value_width f \<le> length (er_row_slot e)"
  shows "ReadRef f e = Inr (ref_of_bytes (slot_bytes f e))"
  using assms by (simp add: ReadRef_def HasBytes_def DecodeValueRef16_eq slot_bytes_def field_shape_def)

lemma ReadScalarField_fixed:
  assumes "field_shape f" and "\<not> fl_uses_ref f" and "fl_slot_offset f + fl_value_width f \<le> length (er_row_slot e)"
    and "FieldPresent f e"
  shows "ReadScalarField f e = ReadScalarBytes (fl_type f) (slot_bytes f e) 0"
  using assms ReadScalarBytes_subspan [of "fl_slot_offset f" "fl_type f" "er_row_slot e"]
  by (auto simp: ReadScalarField_def field_shape_def HasBytes_def slot_bytes_def)

lemma ReadRef_cong:
  assumes "field_shape g" and "fl_uses_ref g" and "slot_bytes g e' = slot_bytes g e"
    and "length (er_row_slot e') = length (er_row_slot e)"
    and "fl_slot_offset g + fl_value_width g \<le> length (er_row_slot e)"
  shows "ReadRef g e' = ReadRef g e"
  using assms by (simp add: ReadRef_slot)

text \<open>Growing the arena keeps every access that was in bounds.\<close>

lemma ValidateRefBounds_mono: "ValidateRefBounds r n = Inr () \<Longrightarrow> n \<le> m \<Longrightarrow> ValidateRefBounds r m = Inr ()"
  by (auto simp: ValidateRefBounds_def split: if_splits)

lemma ValidateRefBounds_Inr:
  "ValidateRefBounds r n = Inr () \<longleftrightarrow> unat (vr_offset r) + unat (vr_byte_length r) \<le> n"
  by (auto simp: ValidateRefBounds_def)

lemma ReadLittleEndian_append:
  "ReadLittleEndian bs off = Inr (v :: 'a :: len word) \<Longrightarrow> ReadLittleEndian (bs @ ext) off = Inr v"
  by (auto simp: ReadLittleEndian_eq split: if_splits)

lemma DecodeValueRef16_append: "DecodeValueRef16 bs off = Inr r \<Longrightarrow> DecodeValueRef16 (bs @ ext) off = Inr r"
  by (auto simp: DecodeValueRef16_eq split: if_splits)

lemma DecodeArenaStringList_append:
  assumes "DecodeArenaStringList r e = Inr v" and "er_arena e' = er_arena e @ ext"
  shows "DecodeArenaStringList r e' = Inr v"
proof -
  from assms(1) obtain vs where b: "unat (vr_byte_length r) = unat (vr_element_count_or_flags r) * 16"
    and vb: "ValidateRefBounds r (length (er_arena e)) = Inr ()" and v: "v = LString vs"
    and m: "mapM_res (\<lambda>i.
            rbind (DecodeValueRef16 (er_arena e) (unat (vr_offset r) + i * 16 mod 2 ^ 32)) (\<lambda>er.
            rbind (ValidateRefBounds er (length (er_arena e))) (\<lambda>_.
            Inr (string_of_bytes (subspan (unat (vr_offset er)) (unat (vr_byte_length er)) (er_arena e))))))
          [0..<unat (vr_element_count_or_flags r)] = Inr vs"
    by (auto simp: DecodeArenaStringList_def split: if_splits)
  have "mapM_res (\<lambda>i.
            rbind (DecodeValueRef16 (er_arena e') (unat (vr_offset r) + i * 16 mod 2 ^ 32)) (\<lambda>er.
            rbind (ValidateRefBounds er (length (er_arena e'))) (\<lambda>_.
            Inr (string_of_bytes (subspan (unat (vr_offset er)) (unat (vr_byte_length er)) (er_arena e'))))))
          [0..<unat (vr_element_count_or_flags r)] = Inr vs"
    by (rule mapM_res_mono [OF m])
      (clarsimp simp: assms(2) ValidateRefBounds_Inr, drule DecodeValueRef16_append [where ext = ext], simp)
  with b v ValidateRefBounds_mono [OF vb] assms(2) show ?thesis by (simp add: DecodeArenaStringList_def)
qed

lemma ReadElementDictionaryList_append:
  assumes "ReadElementDictionaryList r e = Inr v" and "er_arena e' = er_arena e @ ext"
    and d: "er_string_element_dictionary e' = er_string_element_dictionary e @ ds"
  shows "ReadElementDictionaryList r e' = Inr v"
proof -
  let ?g = "\<lambda>e i. rbind (ReadLittleEndian (er_arena e) (unat (vr_offset r) + i * 4)) (\<lambda>dictionary_id :: u32.
           if unat dictionary_id \<ge> length (er_string_element_dictionary e)
           then Inl (InvalidArgument ''element dictionary string id is out of bounds'')
           else Inr (er_string_element_dictionary e ! unat dictionary_id))"
  from assms(1) obtain vs where b: "vr_byte_length r = vr_element_count_or_flags r * 4"
    and vb: "ValidateRefBounds r (length (er_arena e)) = Inr ()" and v: "v = LString vs"
    and m: "mapM_res (?g e) [0..<unat (vr_element_count_or_flags r)] = Inr vs"
    by (auto simp: ReadElementDictionaryList_def)
  have "mapM_res (?g e') [0..<unat (vr_element_count_or_flags r)] = Inr vs"
    by (rule mapM_res_mono [OF m])
      (clarsimp simp: assms(2) d, drule ReadLittleEndian_append [where ext = ext],
        auto simp: nth_append split: if_splits)
  with b v ValidateRefBounds_mono [OF vb] assms(2) show ?thesis by (simp add: ReadElementDictionaryList_def)
qed


section \<open>Frame\<close>

lemma reads_keptI:
  assumes sh: "field_shape g" and sb: "slot_bytes g e' = slot_bytes g e"
    and len: "length (er_row_slot e') = length (er_row_slot e)"
    and fit: "fl_slot_offset g + fl_value_width g \<le> length (er_row_slot e)"
    and pres: "FieldPresent g e' = FieldPresent g e"
    and gr: "grown e e'"
  shows "reads_kept g e e'"
proof -
  from gr obtain ext ds1 ds2 ds3 ds4 where ar: "er_arena e' = er_arena e @ ext"
    and d: "er_string_dictionary e' = er_string_dictionary e @ ds1"
      "er_scalar_list_dictionary e' = er_scalar_list_dictionary e @ ds2"
      "er_string_list_dictionary e' = er_string_list_dictionary e @ ds3"
      "er_string_element_dictionary e' = er_string_element_dictionary e @ ds4"
    by (auto simp: grown_def)
  have sub: "subspan p n (er_arena e') = subspan p n (er_arena e)" if "p + n \<le> length (er_arena e)" for p n
    using that by (simp add: ar)
  have vb: "ValidateRefBounds r (length (er_arena e')) = Inr ()"
    if "ValidateRefBounds r (length (er_arena e)) = Inr ()" for r
    using that by (rule ValidateRefBounds_mono) (simp add: ar)
  have ref: "ReadRef g e' = ReadRef g e" if "fl_uses_ref g"
    by (rule ReadRef_cong [OF sh that sb len fit])
  have scalar: "ReadScalarField g e' = Inr v" if v: "ReadScalarField g e = Inr v" and "\<not> fl_is_list g" for v
  proof (cases "FieldPresent g e \<and> fl_uses_ref g")
    case True
    then have "fl_type g = kString" using sh that(2) by (simp add: field_shape_def)
    with True v pres ref vb sub d show ?thesis
      by (auto simp: ReadScalarField_def ValidateRefBounds_Inr nth_append split: if_splits)
  next
    case False
    then show ?thesis
      using v pres fit ReadScalarField_fixed [OF sh _ fit] ReadScalarField_fixed [OF sh, of e'] len sb
      by (cases "FieldPresent g e") (auto simp: ReadScalarField_def)
  qed
  have list: "ReadListField g e' = Inr v" if v: "ReadListField g e = Inr v" and "fl_is_list g" for v
  proof (cases "FieldPresent g e")
    case True
    have "ReadRef g e' = ReadRef g e" using sh that(2) by (intro ref) (simp add: field_shape_def)
    with True v pres vb sub d show ?thesis
      by (auto simp: ReadListField_def ValidateRefBounds_Inr nth_append split: if_splits
          intro: DecodeArenaStringList_append [OF _ ar] ReadElementDictionaryList_append [OF _ ar d(4)])
  qed (use v pres in \<open>simp add: ReadListField_def\<close>)
  show ?thesis using pres scalar list by (simp add: reads_kept_def)
qed

section \<open>Effects of the writers\<close>

lemma SetFieldPresent_eq:
  "fl_presence_bit_index f div 8 < length (er_row_slot e) \<Longrightarrow>
   SetFieldPresent f (Some e) = (Inr (), Some (e\<lparr>er_row_slot := (er_row_slot e)[fl_presence_bit_index f div 8 :=
      er_row_slot e ! (fl_presence_bit_index f div 8) OR push_bit (fl_presence_bit_index f mod 8) 1]\<rparr>))"
  by (simp add: SetFieldPresent_def Let_def)

lemma WriteValueRefField_eq:
  assumes "layout_ok L" and "f \<in> set (cl_fields L)" and "cl_row_slot_size L \<le> length (er_row_slot e)" and "fl_uses_ref f"
  shows "WriteValueRefField f r (Some (e\<lparr>er_arena := er_arena e @ ext\<rparr>)) = (Inr (), Some (put_field f (ref_bytes r) ext e))"
proof -
  note F = layout_okD [OF assms(1,2)]
  have "fl_value_width f = 16" using F(1) assms(4) by (simp add: field_shape_def)
  then have "fl_slot_offset f + 16 \<le> length (er_row_slot e)" "fl_presence_bit_index f div 8 < length (er_row_slot e)"
    using F(2,3,4) assms(3) by auto
  then show ?thesis
    using assms(4) by (simp add: WriteValueRefField_def WriteValueRef16_eq SetFieldPresent_eq put_field_def Let_def)
qed

lemma WriteValueRefField_eq':
  assumes "layout_ok L" and "f \<in> set (cl_fields L)" and "cl_row_slot_size L \<le> length (er_row_slot e)" and "fl_uses_ref f"
  shows "WriteValueRefField f r (Some e) = (Inr (), Some (put_field f (ref_bytes r) [] e))"
  using WriteValueRefField_eq [OF assms, of r "[]"] by simp

lemma scalar_bytes_props:
  assumes "scalar_type v \<noteq> kString"
  shows "length (scalar_bytes v) = FieldTypeSize (scalar_type v)"
    and "off + FieldTypeSize (scalar_type v) \<le> length bs \<Longrightarrow> WriteScalarBytes v bs off = Inr (overwrite off (scalar_bytes v) bs)"
    and "ReadScalarBytes (scalar_type v) (scalar_bytes v) 0 = Inr v"
  using assms by (cases v; auto simp: WriteLittleEndian_eq ReadLittleEndian_eq subspan_def le_word_le_bytes)+

lemma WriteScalarField_eq:
  assumes "layout_ok L" and "f \<in> set (cl_fields L)" and "cl_row_slot_size L \<le> length (er_row_slot e)"
    and "\<not> fl_uses_ref f" and "scalar_type v = fl_type f"
  shows "WriteScalarField f v (Some e) = (Inr (), Some (put_field f (scalar_bytes v) [] e))"
    and "length (scalar_bytes v) = fl_value_width f"
proof -
  note F = layout_okD [OF assms(1,2)]
  have t: "scalar_type v \<noteq> kString" "\<not> fl_is_list f" "fl_value_width f = FieldTypeSize (scalar_type v)"
    using F(1) assms(4,5) by (auto simp: field_shape_def)
  then show w: "length (scalar_bytes v) = fl_value_width f" by (simp add: scalar_bytes_props)
  have fit: "fl_slot_offset f + FieldTypeSize (scalar_type v) \<le> length (er_row_slot e)"
    "fl_presence_bit_index f div 8 < length (er_row_slot e)" using F(2,3,4) assms(3) t by auto
  then show "WriteScalarField f v (Some e) = (Inr (), Some (put_field f (scalar_bytes v) [] e))"
    using assms(4,5) t w scalar_bytes_props(2) [OF t(1) fit(1)]
    by (simp add: WriteScalarField_def SetFieldPresent_eq put_field_def Let_def)
qed

lemma WriteIds_eq:
  "WriteIds ids (length xs) (xs @ replicate (length ids * 4) 0) = (Inr (), xs @ concat (map le_bytes ids))"
proof (induction ids arbitrary: xs)
  case (Cons i ids)
  have "WriteLittleEndian i (xs @ replicate (length (i # ids) * 4) 0) (length xs)
      = Inr ((xs @ le_bytes i) @ replicate (length ids * 4) 0)"
    by (simp add: WriteLittleEndian_eq overwrite_def)
  with Cons.IH [of "xs @ le_bytes i"] show ?case by (simp only: WriteIds.simps sum.case) simp
qed simp


text \<open>A list of words is the concatenation of their bytes, in both directions.\<close>

lemma EncodeWords_eq: "EncodeWords (vs :: 'a :: len word list) = Inr (concat (map le_bytes vs))"
proof -
  have "foldM_res (\<lambda>(i, v) bytes. WriteLittleEndian v bytes (i * sizeof TYPE('a))) (enumerate n vs)
      (xs @ replicate (length vs * sizeof TYPE('a)) 0) = Inr (xs @ concat (map le_bytes vs))"
    if "length xs = n * sizeof TYPE('a)" for n xs
    using that
  proof (induction vs arbitrary: n xs)
    case (Cons v vs)
    have "WriteLittleEndian v (xs @ replicate (length (v # vs) * sizeof TYPE('a)) 0) (n * sizeof TYPE('a))
        = Inr ((xs @ le_bytes v) @ replicate (length vs * sizeof TYPE('a)) 0)"
      using Cons.prems by (simp add: WriteLittleEndian_eq overwrite_def)
    moreover have "length (xs @ le_bytes v) = Suc n * sizeof TYPE('a)" using Cons.prems by simp
    note Cons.IH [OF this]
    ultimately show ?case
      by (simp only: foldM_res.simps enumerate_simps case_prod_conv rbind_Inr) simp
  qed simp
  from this [of "[]" 0] show ?thesis by (simp add: EncodeWords_def)
qed

lemma length_concat_le_bytes [simp]:
  "length (concat (map le_bytes (vs :: 'a :: len word list))) = length vs * sizeof TYPE('a)"
  by (induction vs) simp_all

lemma nth_concat_le_bytes:
  assumes "8 dvd LENGTH('a)" and "i < length (vs :: 'a :: len word list)"
  shows "ReadLittleEndian (xs @ concat (map le_bytes vs) @ ys) (length xs + i * sizeof TYPE('a)) = Inr (vs ! i)"
  using assms(2)
proof (induction vs arbitrary: xs i)
  case (Cons v vs)
  show ?case
  proof (cases i)
    case 0
    then show ?thesis
      by (simp add: ReadLittleEndian_eq subspan_def le_word_le_bytes [OF assms(1)])
  next
    case (Suc j)
    with Cons.IH [of j "xs @ le_bytes v"] Cons.prems show ?thesis by (simp add: add.assoc)
  qed
qed simp

lemma DecodeWords_concat:
  assumes "8 dvd LENGTH('a)" and "length vs < 2 ^ 32"
  shows "DecodeWords (concat (map le_bytes (vs :: 'a :: len word list))) (of_nat (length vs)) = Inr vs"
proof -
  have "mapM_res (\<lambda>i. ReadLittleEndian (concat (map le_bytes vs)) (i * sizeof TYPE('a))) [0..<length vs] = Inr vs"
    using nth_concat_le_bytes [OF assms(1), of _ vs "[]" "[]"] by (simp add: mapM_res_Inr_iff)
  with assms(2) show ?thesis by (simp add: DecodeWords_def unat_of_nat)
qed

lemma DecodeBools_concat:
  assumes "length vs < 2 ^ 32"
  shows "DecodeBools (concat (map le_bytes (map (\<lambda>b. if b then 1 else 0 :: u8) vs))) (of_nat (length vs)) = Inr vs"
proof -
  have "mapM_res (\<lambda>i. rbind (ReadLittleEndian (concat (map le_bytes (map (\<lambda>b. if b then 1 else 0 :: u8) vs))) (i * 1))
         (\<lambda>v :: u8. if v > 1 then Inl (InvalidArgument ''encoded bool list value is invalid'') else Inr (v \<noteq> 0)))
       [0..<length vs] = Inr vs"
    using nth_concat_le_bytes [of _ "map (\<lambda>b. if b then 1 else 0 :: u8) vs" "[]" "[]"]
    by (auto simp: mapM_res_Inr_iff simp del: map_map)
  with assms show ?thesis by (simp add: DecodeBools_def unat_of_nat del: map_map)
qed

lemma EncodeScalarListSpan_roundtrip:
  assumes "list_type vs \<noteq> kString" and "list_length vs < 2 ^ 32"
  obtains bs where "EncodeScalarListSpan vs = Inr bs"
    and "DecodeScalarListByType (list_type vs) bs (of_nat (list_length vs)) = Inr vs"
    and "length bs = list_length vs * FieldTypeSize (list_type vs)"
  using assms DecodeBools_concat
  by (cases vs) (simp_all add: EncodeWords_eq DecodeWords_concat del: map_map)


section \<open>Properties of the row codec\<close>

lemma uses_ref_shape: "layout_ok L \<Longrightarrow> f \<in> set (cl_fields L) \<Longrightarrow> fl_is_list f \<or> fl_type f = kString \<Longrightarrow> fl_uses_ref f"
  using layout_okD(1) by (auto simp: field_shape_def)

text \<open>Every successful write is a \<open>put_field\<close> of as many bytes as the field is wide.\<close>

lemma apply_write_put_field:
  assumes L: "layout_ok L" and f: "f \<in> set (cl_fields L)" and e: "cl_row_slot_size L \<le> length (er_row_slot e)"
    and w: "apply_write w f (Some e) = (Inr (), r)"
  shows "\<exists>bs ext. r = Some (put_field f bs ext e) \<and> length bs = fl_value_width f"
proof -
  have width: "fl_uses_ref f \<Longrightarrow> fl_value_width f = 16" using layout_okD(1) [OF L f] by (simp add: field_shape_def)
  note V = WriteValueRefField_eq [OF L f e] WriteValueRefField_eq' [OF L f e]
  show ?thesis
  proof (cases w)
    case (WScalar v)
    with w have "\<not> fl_uses_ref f" "scalar_type v = fl_type f"
      by (auto simp: WriteScalarField_def split: if_splits)
    from WriteScalarField_eq [OF L f e this] w WScalar show ?thesis by auto
  next
    case (WElementDictionary ids)
    with w have "fl_is_list f" "fl_type f = kString"
      by (auto simp: WriteElementDictionaryStringListField_def split: if_splits)
    with uses_ref_shape [OF L f] w WElementDictionary V width show ?thesis
      by (auto simp: WriteElementDictionaryStringListField_def WriteIds_eq Let_def split: if_splits)
  next
    case (WArenaList vs)
    with w have "fl_is_list f" by (auto simp: WriteArenaListField_def split: if_splits)
    with uses_ref_shape [OF L f] w WArenaList V width show ?thesis
      by (auto simp: WriteArenaListField_def split: if_splits sum.splits)
  qed (use w uses_ref_shape [OF L f] V width in
      \<open>auto simp: WriteArenaStringField_def WriteDictionaryStringField_def WriteListDictionaryField_def split: if_splits\<close>)
qed

text \<open>
  C22. Fields of one row are independent: a successful write of a field, by any of the writers,
  leaves the presence bit of every other field and every value that could be read from it.
\<close>

theorem writes_independent:
  assumes "layout_ok L" and "f \<in> set (cl_fields L)" and "g \<in> set (cl_fields L)" and "g \<noteq> f"
    and "cl_row_slot_size L \<le> length (er_row_slot e)" and "apply_write w f (Some e) = (Inr (), Some e')"
  shows "reads_kept g e e'"
proof -
  from apply_write_put_field [OF assms(1,2,5,6)] obtain bs ext
    where e': "e' = put_field f bs ext e" and bs: "length bs = fl_value_width f" by auto
  note P = put_field_slot [OF assms(1,2,5) bs]
  show ?thesis
    unfolding e'
    by (rule reads_keptI) (use P assms layout_okD [OF assms(1,3)] in \<open>simp_all add: grown_def\<close>)
qed

lemma read_by_id:
  assumes "layout_ok L" and "f \<in> set (cl_fields L)"
    and "er_schema_version e = cl_schema_version L" and "er_layout_fingerprint e = cl_layout_fingerprint L"
  shows "\<not> fl_is_list f \<Longrightarrow> ReadScalarValue \<lparr>row_layout = Some L, row_encoded = Some e\<rparr> (fl_field_id f) (fl_type f) None
       = ReadScalarField f e"
    and "fl_is_list f \<Longrightarrow> ReadListValue \<lparr>row_layout = Some L, row_encoded = Some e\<rparr> (fl_field_id f) (fl_type f) None
       = ReadListField f e"
    and "Row_Has \<lparr>row_layout = Some L, row_encoded = Some e\<rparr> (fl_field_id f) = FieldPresent f e"
  using assms(3,4) layout_okD(7) [OF assms(1,2)]
  by (simp_all add: ReadScalarValue_def ReadListValue_def ResolveField_def ValidateAccessor_def Row_Has_def)

text \<open>
  A fixed scalar written to a row of a sound layout is read back by id with the same value.
\<close>

theorem write_scalar_read:
  assumes L: "layout_ok L" and f: "f \<in> set (cl_fields L)" and e: "row_fits L e"
    and "er_schema_version e = cl_schema_version L" and "er_layout_fingerprint e = cl_layout_fingerprint L"
    and t: "\<not> fl_uses_ref f" "scalar_type v = fl_type f"
  shows "\<exists>e'. WriteScalarField f v (Some e) = (Inr (), Some e') \<and> row_fits L e'
    \<and> ReadScalarValue \<lparr>row_layout = Some L, row_encoded = Some e'\<rparr> (fl_field_id f) (fl_type f) None = Inr v"
proof -
  have len: "cl_row_slot_size L \<le> length (er_row_slot e)" using e by (simp add: row_fits_def)
  note W = WriteScalarField_eq [OF L f len t]
  let ?e = "put_field f (scalar_bytes v) [] e"
  note P = put_field_slot [OF L f len W(2), where ext = "[]"]
  note F = layout_okD [OF L f]
  have s: "\<not> fl_is_list f" "scalar_type v \<noteq> kString" using F(1) t by (auto simp: field_shape_def)
  have "ReadScalarField f ?e = Inr v"
    using ReadScalarField_fixed [OF F(1) t(1), of ?e] P F(4) len scalar_bytes_props(3) [OF s(2)] t(2) by simp
  moreover have "row_fits L ?e" using e P(1) by (simp add: row_fits_def)
  ultimately show ?thesis using W(1) read_by_id(1) [OF L f, of ?e] s(1) assms(4,5) by auto
qed

text \<open>
  A string of fewer than \<open>2 ^ 32\<close> bytes written to the arena is read back unchanged.
\<close>

theorem write_arena_string_read:
  assumes L: "layout_ok L" and f: "f \<in> set (cl_fields L)" and e: "row_fits L e"
    and "er_schema_version e = cl_schema_version L" and "er_layout_fingerprint e = cl_layout_fingerprint L"
    and t: "\<not> fl_is_list f" "fl_type f = kString" "fl_encoding f = kArena" and "length s < 2 ^ 32"
  shows "\<exists>e'. WriteArenaStringField f s (Some e) = (Inr (), Some e')
    \<and> ReadScalarValue \<lparr>row_layout = Some L, row_encoded = Some e'\<rparr> (fl_field_id f) kString None = Inr (SString s)"
proof -
  have len: "cl_row_slot_size L \<le> length (er_row_slot e)" and ar: "length (er_arena e) < 2 ^ 64"
    using e by (simp_all add: row_fits_def)
  note F = layout_okD [OF L f]
  have u: "fl_uses_ref f" "fl_value_width f = 16" using F(1) t by (auto simp: field_shape_def)
  let ?r = "\<lparr>vr_offset = of_nat (length (er_arena e)), vr_byte_length = of_nat (length s),
      vr_element_count_or_flags = 0\<rparr>"
  let ?e = "put_field f (ref_bytes ?r) (bytes_of_string s) e"
  have W: "WriteArenaStringField f s (Some e) = (Inr (), Some ?e)"
    using t assms(9) WriteValueRefField_eq [OF L f len u(1)] by (simp add: WriteArenaStringField_def)
  have "length (ref_bytes ?r) = fl_value_width f" using u by simp
  note P = put_field_slot [OF L f len this, where ext = "bytes_of_string s"]
  have "ReadRef f ?e = Inr ?r" using ReadRef_slot [OF F(1) u(1), of ?e] P F(4) len by simp
  then have "ReadScalarField f ?e = Inr (SString s)"
    using t P(4) ar assms(9) subspan_append3 [of "er_arena e" "bytes_of_string s"]
    by (simp add: ReadScalarField_def ValidateRefBounds_Inr unat_of_nat)
  then show ?thesis using W read_by_id(1) [OF L f, of ?e] t assms(4,5) by auto
qed


text \<open>
  A list of numbers or booleans whose bytes number fewer than \<open>2 ^ 32\<close> is read back
  unchanged from the arena.
\<close>

theorem write_arena_list_read:
  assumes L: "layout_ok L" and f: "f \<in> set (cl_fields L)" and e: "row_fits L e"
    and "er_schema_version e = cl_schema_version L" and "er_layout_fingerprint e = cl_layout_fingerprint L"
    and t: "fl_is_list f" "fl_type f = list_type vs" "fl_type f \<noteq> kString" "fl_encoding f = kArena"
    and n: "list_length vs * FieldTypeSize (list_type vs) < 2 ^ 32"
  shows "\<exists>e'. WriteArenaListField f vs (Some e) = (Inr (), Some e')
    \<and> ReadListValue \<lparr>row_layout = Some L, row_encoded = Some e'\<rparr> (fl_field_id f) (fl_type f) None = Inr vs"
proof -
  have len: "cl_row_slot_size L \<le> length (er_row_slot e)" and ar: "length (er_arena e) < 2 ^ 64"
    using e by (simp_all add: row_fits_def)
  note F = layout_okD [OF L f]
  have u: "fl_uses_ref f" "fl_value_width f = 16" using F(1) t by (auto simp: field_shape_def)
  have "list_length vs \<le> list_length vs * FieldTypeSize (list_type vs)"
    by (cases "list_type vs") (simp_all add: kValueRef16Size_def)
  then have n': "list_length vs < 2 ^ 32" using n by (rule le_less_trans)
  from t have "list_type vs \<noteq> kString" by simp
  from EncodeScalarListSpan_roundtrip [OF this n'] obtain bs where bs: "EncodeScalarListSpan vs = Inr bs"
    "DecodeScalarListByType (list_type vs) bs (of_nat (list_length vs)) = Inr vs"
    "length bs = list_length vs * FieldTypeSize (list_type vs)" .
  let ?r = "\<lparr>vr_offset = of_nat (length (er_arena e)), vr_byte_length = of_nat (length bs),
      vr_element_count_or_flags = of_nat (list_length vs)\<rparr>"
  let ?e = "put_field f (ref_bytes ?r) bs e"
  have lbs: "length bs < 2 ^ 32" using n bs(3) by simp
  have W: "WriteArenaListField f vs (Some e) = (Inr (), Some ?e)"
    using t bs(1) WriteValueRefField_eq [OF L f len u(1)] by (simp add: WriteArenaListField_def)
  have "length (ref_bytes ?r) = fl_value_width f" using u by simp
  note P = put_field_slot [OF L f len this, where ext = bs]
  have "ReadRef f ?e = Inr ?r" using ReadRef_slot [OF F(1) u(1), of ?e] P F(4) len by simp
  then have "ReadListField f ?e = Inr vs"
    using t P(4) ar lbs bs(2) subspan_append3 [of "er_arena e" bs]
    by (simp add: ReadListField_def ValidateRefBounds_Inr unat_of_nat)
  then show ?thesis using W read_by_id(2) [OF L f, of ?e] t assms(4,5) by auto
qed

text \<open>
  C31. The arena list writer narrows the byte length to 32 bits without a check (the string writer
  has one): a list of \<open>2 ^ 30\<close> 32-bit integers is accepted and can then not be read back.
\<close>

theorem arena_list_length_unchecked:
  assumes L: "layout_ok L" and f: "f \<in> set (cl_fields L)" and e: "row_fits L e"
    and "er_schema_version e = cl_schema_version L" and "er_layout_fingerprint e = cl_layout_fingerprint L"
    and t: "fl_is_list f" "fl_type f = kInt32" "fl_encoding f = kArena" and n: "length xs = 2 ^ 30"
  shows "\<exists>e'. WriteArenaListField f (LInt32 xs) (Some e) = (Inr (), Some e')
    \<and> ReadListValue \<lparr>row_layout = Some L, row_encoded = Some e'\<rparr> (fl_field_id f) kInt32 None
      = Inl (InvalidArgument ''list byte length does not match element count'')"
proof -
  have len: "cl_row_slot_size L \<le> length (er_row_slot e)" and ar: "length (er_arena e) < 2 ^ 64"
    using e by (simp_all add: row_fits_def)
  note F = layout_okD [OF L f]
  have u: "fl_uses_ref f" "fl_value_width f = 16" using F(1) t by (auto simp: field_shape_def)
  let ?bs = "concat (map le_bytes xs)"
  let ?r = "\<lparr>vr_offset = of_nat (length (er_arena e)), vr_byte_length = of_nat (length ?bs),
      vr_element_count_or_flags = of_nat (length xs)\<rparr>"
  let ?e = "put_field f (ref_bytes ?r) ?bs e"
  have W: "WriteArenaListField f (LInt32 xs) (Some e) = (Inr (), Some ?e)"
    using t WriteValueRefField_eq [OF L f len u(1)] by (simp add: WriteArenaListField_def EncodeWords_eq)
  have "length (ref_bytes ?r) = fl_value_width f" using u by simp
  note P = put_field_slot [OF L f len this, where ext = ?bs]
  have ref: "ReadRef f ?e = Inr ?r" using ReadRef_slot [OF F(1) u(1), of ?e] P F(4) len by simp
  have "(of_nat (2 ^ 30 * 4) :: u32) = 0" by (rule word_of_nat_eq_0_iff [THEN iffD2]) simp
  then have zero: "vr_byte_length ?r = 0" using n by simp
  have cnt: "unat (vr_element_count_or_flags ?r) = 2 ^ 30" using n by (simp add: unat_of_nat)
  have off: "unat (vr_offset ?r) = length (er_arena e)" using ar by (simp add: unat_of_nat)
  have b: "ValidateRefBounds ?r (length (er_arena ?e)) = Inr ()"
    unfolding ValidateRefBounds_Inr zero off by simp
  have "ReadListField f ?e = DecodeScalarListByType kInt32
      (subspan (unat (vr_offset ?r)) (unat (vr_byte_length ?r)) (er_arena ?e)) (vr_element_count_or_flags ?r)"
    using t P(4) by (simp only: ReadListField_def ref rbind_Inr b) simp
  also have "\<dots> = Inl length_mismatch"
    unfolding zero by (simp only: DecodeScalarListByType.simps DecodeWords_def cnt) (simp add: subspan_def)
  finally show ?thesis
    using W read_by_id(2) [OF L f, of ?e] t assms(4,5) by (auto simp: length_mismatch_def)
qed

text \<open>
  A list of element-dictionary ids is read back as the strings that the dictionary holds
  for them, in order, for every count that the writer accepts.
\<close>

theorem write_element_dictionary_read:
  assumes L: "layout_ok L" and f: "f \<in> set (cl_fields L)" and e: "row_fits L e"
    and "er_schema_version e = cl_schema_version L" and "er_layout_fingerprint e = cl_layout_fingerprint L"
    and t: "fl_is_list f" "fl_type f = kString" "fl_encoding f = kElementDictionary"
    and n: "length ids < 2 ^ 32"
    and ids: "\<forall>i \<in> set ids. unat i < length (er_string_element_dictionary e)"
  shows "\<exists>e'. WriteElementDictionaryStringListField f ids (Some e) = (Inr (), Some e')
    \<and> ReadListValue \<lparr>row_layout = Some L, row_encoded = Some e'\<rparr> (fl_field_id f) kString None
      = Inr (LString (map (\<lambda>i. er_string_element_dictionary e ! unat i) ids))"
proof -
  have len: "cl_row_slot_size L \<le> length (er_row_slot e)" and ar: "length (er_arena e) < 2 ^ 64"
    using e by (simp_all add: row_fits_def)
  note F = layout_okD [OF L f]
  have u: "fl_uses_ref f" "fl_value_width f = 16" using F(1) t by (auto simp: field_shape_def)
  let ?bs = "concat (map le_bytes ids)"
  let ?r = "\<lparr>vr_offset = of_nat (length (er_arena e)), vr_byte_length = of_nat (length ids * 4),
      vr_element_count_or_flags = of_nat (length ids)\<rparr>"
  let ?e = "put_field f (ref_bytes ?r) ?bs e"
  have W: "WriteElementDictionaryStringListField f ids (Some e) = (Inr (), Some ?e)"
    using t n WriteValueRefField_eq [OF L f len u(1)]
    by (simp add: WriteElementDictionaryStringListField_def WriteIds_eq)
  have "length (ref_bytes ?r) = fl_value_width f" using u by simp
  note P = put_field_slot [OF L f len this, where ext = ?bs]
  have ref: "ReadRef f ?e = Inr ?r" using ReadRef_slot [OF F(1) u(1), of ?e] P F(4) len by simp
  have "unat (vr_byte_length ?r) \<le> length ids * 4" by (simp only: ValueRef16.select_convs unat_of_nat mod_less_eq_dividend)
  moreover have "unat (vr_offset ?r) = length (er_arena e)" using ar by (simp add: unat_of_nat)
  ultimately have bounds: "ValidateRefBounds ?r (length (er_arena ?e)) = Inr ()"
    unfolding ValidateRefBounds_Inr by simp
  have idn: "\<not> length (er_string_element_dictionary e) \<le> unat (ids ! i)" if "i < length ids" for i
    using ids that by (simp add: not_le)
  have "ReadLittleEndian (er_arena ?e) (length (er_arena e) + i * 4) = Inr (ids ! i)" if "i < length ids" for i
    using nth_concat_le_bytes [of i ids "er_arena e" "[]"] that by simp
  then have "ReadElementDictionaryList ?r ?e
      = Inr (LString (map (\<lambda>i. er_string_element_dictionary e ! unat i) ids))"
    using bounds idn n ar
    by (auto simp: ReadElementDictionaryList_def unat_of_nat mapM_res_Inr_iff)
  then have "ReadListField f ?e = Inr (LString (map (\<lambda>i. er_string_element_dictionary e ! unat i) ids))"
    using t P(4) ref by (simp add: ReadListField_def)
  then show ?thesis using W read_by_id(2) [OF L f, of ?e] t assms(4,5) by auto
qed

text \<open>Reading a field that is present can only fail with \<open>kInvalidArgument\<close>.\<close>

lemma invalid_InvalidArgument [simp]: "invalid (InvalidArgument m)"
  by (simp add: invalid_def)

lemma ReadLittleEndian_invalid: "ReadLittleEndian bs off = (Inl x :: 'a :: len word res) \<Longrightarrow> invalid x"
  by (auto simp: ReadLittleEndian_eq out_of_bounds_def split: if_splits)

lemma DecodeValueRef16_invalid: "DecodeValueRef16 bs off = Inl x \<Longrightarrow> invalid x"
  by (auto simp: DecodeValueRef16_eq out_of_bounds_def split: if_splits)

lemma ValidateRefBounds_invalid: "ValidateRefBounds r n = Inl x \<Longrightarrow> invalid x"
  by (auto simp: ValidateRefBounds_def split: if_splits)

lemma ReadRef_invalid: "ReadRef f e = Inl x \<Longrightarrow> invalid x"
  by (auto simp: ReadRef_def dest: DecodeValueRef16_invalid split: if_splits)

lemma DecodeWords_invalid: "DecodeWords bs n = (Inl x :: 'a :: len word list res) \<Longrightarrow> invalid x"
  by (auto simp: DecodeWords_def length_mismatch_def dest!: mapM_res_Inl dest: ReadLittleEndian_invalid split: if_splits)

lemma DecodeBools_invalid: "DecodeBools bs n = Inl x \<Longrightarrow> invalid x"
  by (auto simp: DecodeBools_def length_mismatch_def rbind_eq_Inl dest!: mapM_res_Inl dest: ReadLittleEndian_invalid
      split: if_splits)

lemma DecodeScalarListByType_invalid: "DecodeScalarListByType t bs n = Inl x \<Longrightarrow> invalid x"
  by (cases t) (auto simp: rbind_eq_Inl dest: DecodeWords_invalid DecodeBools_invalid)

lemma DecodeArenaStringList_invalid: "DecodeArenaStringList r e = Inl x \<Longrightarrow> invalid x"
  by (auto simp: DecodeArenaStringList_def rbind_eq_Inl dest!: mapM_res_Inl
      dest: ValidateRefBounds_invalid DecodeValueRef16_invalid split: if_splits)

lemma ReadElementDictionaryList_invalid: "ReadElementDictionaryList r e = Inl x \<Longrightarrow> invalid x"
  by (auto simp: ReadElementDictionaryList_def rbind_eq_Inl dest!: mapM_res_Inl
      dest: ValidateRefBounds_invalid ReadLittleEndian_invalid split: if_splits)

lemmas codec_invalid = ReadLittleEndian_invalid DecodeValueRef16_invalid ValidateRefBounds_invalid ReadRef_invalid
  DecodeScalarListByType_invalid DecodeArenaStringList_invalid ReadElementDictionaryList_invalid

lemma ReadScalarBytes_invalid: "ReadScalarBytes t bs off = Inl x \<Longrightarrow> invalid x"
  by (cases t) (auto simp: rbind_eq_Inl dest: codec_invalid split: if_splits)

lemma ReadScalarField_invalid: "ReadScalarField f e = Inl x \<Longrightarrow> FieldPresent f e \<Longrightarrow> invalid x"
  by (auto simp: ReadScalarField_def rbind_eq_Inl dest: codec_invalid ReadScalarBytes_invalid split: if_splits)

lemma ReadListField_invalid: "ReadListField f e = Inl x \<Longrightarrow> FieldPresent f e \<Longrightarrow> invalid x"
  by (auto simp: ReadListField_def rbind_eq_Inl dest: codec_invalid split: if_splits)

text \<open>
  C29. In a row that \<open>MaterializeRow\<close> accepts every required field is present or has a default, so
  that reading it never reports a missing required field.
\<close>

theorem materialized_row_complete:
  assumes "MaterializeRow (Some L) e = Inr r" and "layout_ok L" and "f \<in> set (cl_fields L)" and "\<not> fl_nullable f"
  shows "(fl_HasDefault f \<or> Row_Has r (fl_field_id f))
    \<and> (\<not> fl_is_list f \<longrightarrow>
       ReadScalarValue r (fl_field_id f) (fl_type f) None \<noteq> Inl (FailedPrecondition ''required field is missing''))
    \<and> (fl_is_list f \<longrightarrow>
       ReadListValue r (fl_field_id f) (fl_type f) None \<noteq> Inl (FailedPrecondition ''required list field is missing''))"
proof -
  from assms(1) have r: "r = \<lparr>row_layout = Some L, row_encoded = Some e\<rparr>"
    and v: "er_schema_version e = cl_schema_version L" "er_layout_fingerprint e = cl_layout_fingerprint L"
    and p: "fl_HasDefault f \<or> FieldPresent f e"
    using assms(3,4) by (auto simp: MaterializeRow_def split: if_splits)
  note R = read_by_id [OF assms(2,3) v]
  have "ReadScalarField f e \<noteq> Inl (FailedPrecondition ''required field is missing'')"
    using p ReadScalarField_invalid [of f e]
    by (cases "FieldPresent f e")
       (auto simp: invalid_def fl_HasDefault_def ReadScalarField_def DefaultScalarValue_def
          split: FieldDefaultValue.splits if_splits)
  moreover have "ReadListField f e \<noteq> Inl (FailedPrecondition ''required list field is missing'')"
    using p ReadListField_invalid [of f e]
    by (cases "FieldPresent f e")
       (auto simp: invalid_def fl_HasDefault_def ReadListField_def DefaultListValue_def
          split: FieldDefaultValue.splits if_splits)
  ultimately show ?thesis using p R by (simp add: r)
qed

lemma ResolveField_accessor:
  assumes "FindLayoutField L fid = Some f" and "fl_type f = t" and "fl_is_list f = b"
  shows "ResolveField \<lparr>row_layout = Some L, row_encoded = Some e\<rparr> fid t b (Some (accessor_metadata (accessor_of L f b)))
    = ResolveField \<lparr>row_layout = Some L, row_encoded = Some e\<rparr> fid t b None"
  using assms
  by (simp add: ResolveField_def ValidateAccessor_def accessor_of_def accessor_metadata_def rbind_reject)

text \<open>
  A precomputed accessor reads what a lookup by field id reads on rows of its own layout, and
  throws on every row whose layout has another schema version or fingerprint.
\<close>

lemma accessor_safe:
  assumes "MakeFieldAccessor t L fid = Inr a"
  shows "Row_GetBy \<lparr>row_layout = Some L, row_encoded = Some e\<rparr> t a
      = Row_Get \<lparr>row_layout = Some L, row_encoded = Some e\<rparr> fid t None
    \<and> ((cl_schema_version L', cl_layout_fingerprint L') \<noteq> (cl_schema_version L, cl_layout_fingerprint L) \<longrightarrow>
       (\<exists>m. Row_GetBy \<lparr>row_layout = Some L', row_encoded = Some e\<rparr> t a = Inl (Throw m)))"
proof -
  from assms obtain f where f: "FindLayoutField L fid = Some f" "fl_type f = t" "fl_is_list f = False"
    and a: "a = accessor_of L f False"
    by (auto simp: MakeFieldAccessor_def split: option.splits if_splits)
  then have fid: "fa_field_id a = fid" by (auto simp: FindLayoutField_def find_Some_iff accessor_of_def)
  have "ReadScalarValue \<lparr>row_layout = Some L, row_encoded = Some e\<rparr> fid t (Some (accessor_metadata a))
      = ReadScalarValue \<lparr>row_layout = Some L, row_encoded = Some e\<rparr> fid t None"
    by (simp only: ReadScalarValue_def a ResolveField_accessor [OF f])
  then have "Row_GetBy \<lparr>row_layout = Some L, row_encoded = Some e\<rparr> t a
      = Row_Get \<lparr>row_layout = Some L, row_encoded = Some e\<rparr> fid t None"
    by (simp only: Row_GetBy_def Row_Get_def fid)
  moreover have "\<exists>m. Row_GetBy \<lparr>row_layout = Some L', row_encoded = Some e\<rparr> t a = Inl (Throw m)"
    if "(cl_schema_version L', cl_layout_fingerprint L') \<noteq> (cl_schema_version L, cl_layout_fingerprint L)"
  proof -
    have "ResolveField \<lparr>row_layout = Some L', row_encoded = Some e\<rparr> fid t False (Some (accessor_metadata a))
      = Inl (if er_schema_version e \<noteq> cl_schema_version L' \<or> er_layout_fingerprint e \<noteq> cl_layout_fingerprint L'
             then FailedPrecondition ''row backing does not match compiled layout'' else accessor_mismatch)"
      using that by (auto simp: ResolveField_def rbind_reject a accessor_of_def accessor_metadata_def)
    then show ?thesis
      by (simp add: Row_GetBy_def Row_Get_def ReadScalarValue_def fid accessor_mismatch_def split: if_splits)
  qed
  ultimately show ?thesis by blast
qed


section \<open>An example layout\<close>

lemma demo_schema_ok: "schema_ok demo_schema"
  by (simp add: schema_ok_def demo_schema_def demo_field_def ValidateEncodingPolicy_def DefaultMatchesField_def)

lemma demo_layout:
  obtains L where "Compile demo_schema = Inr L" and "layout_ok L"
  using Compile_succeeds [of demo_schema] Compile_layout(1) [OF demo_schema_ok] by blast

lemma demo_layout_field:
  assumes "Compile demo_schema = Inr L" and "spec \<in> set (rs_active_fields demo_schema)"
  obtains f where "f \<in> set (cl_fields L)" "fl_field_id f = fs_field_id spec" "fl_type f = fs_type spec"
    "fl_is_list f = fs_is_list spec" "fl_encoding f = fs_encoding spec" "fl_nullable f = fs_nullable spec"
    "fl_uses_ref f = IsRefField spec"
  using Compile_field [OF demo_schema_ok assms] by blast

lemma demo_row:
  "row_fits L (CreateEncodedRow L)" "er_schema_version (CreateEncodedRow L) = cl_schema_version L"
  "er_layout_fingerprint (CreateEncodedRow L) = cl_layout_fingerprint L"
  by (simp_all add: row_fits_def CreateEncodedRow_def)

theorem write_scalar_read_witness:
  "\<exists>L f e'. Compile demo_schema = Inr L \<and> fl_field_id f = 1
    \<and> WriteScalarField f (SInt64 42) (Some (CreateEncodedRow L)) = (Inr (), Some e')
    \<and> ReadScalarValue \<lparr>row_layout = Some L, row_encoded = Some e'\<rparr> 1 kInt64 None = Inr (SInt64 42)"
proof -
  obtain L where L: "Compile demo_schema = Inr L" "layout_ok L" by (rule demo_layout)
  from demo_layout_field [OF L(1), of "demo_field 1 kInt64 False kFixed"] obtain f
    where f: "f \<in> set (cl_fields L)" "fl_field_id f = 1" "fl_type f = kInt64" "\<not> fl_uses_ref f"
    by (auto simp: demo_schema_def demo_field_def IsRefField_def)
  from write_scalar_read [OF L(2) f(1) demo_row f(4), of "SInt64 42"] f L(1) show ?thesis by auto
qed

theorem write_arena_string_read_witness:
  "\<exists>L f e'. Compile demo_schema = Inr L \<and> fl_field_id f = 2
    \<and> WriteArenaStringField f ''shoes'' (Some (CreateEncodedRow L)) = (Inr (), Some e')
    \<and> ReadScalarValue \<lparr>row_layout = Some L, row_encoded = Some e'\<rparr> 2 kString None = Inr (SString ''shoes'')"
proof -
  obtain L where L: "Compile demo_schema = Inr L" "layout_ok L" by (rule demo_layout)
  from demo_layout_field [OF L(1), of "demo_field 2 kString False kArena"] obtain f
    where f: "f \<in> set (cl_fields L)" "fl_field_id f = 2" "fl_type f = kString" "\<not> fl_is_list f" "fl_encoding f = kArena"
    by (auto simp: demo_schema_def demo_field_def)
  from write_arena_string_read [OF L(2) f(1) demo_row f(4,3,5), of "''shoes''"] f L(1) show ?thesis by auto
qed

theorem write_arena_list_read_witness:
  "\<exists>L f e'. Compile demo_schema = Inr L \<and> fl_field_id f = 3
    \<and> WriteArenaListField f (LInt32 [7, 8]) (Some (CreateEncodedRow L)) = (Inr (), Some e')
    \<and> ReadListValue \<lparr>row_layout = Some L, row_encoded = Some e'\<rparr> 3 kInt32 None = Inr (LInt32 [7, 8])"
proof -
  obtain L where L: "Compile demo_schema = Inr L" "layout_ok L" by (rule demo_layout)
  from demo_layout_field [OF L(1), of "demo_field 3 kInt32 True kArena"] obtain f
    where f: "f \<in> set (cl_fields L)" "fl_field_id f = 3" "fl_type f = kInt32" "fl_is_list f" "fl_encoding f = kArena"
    by (auto simp: demo_schema_def demo_field_def)
  from write_arena_list_read [OF L(2) f(1) demo_row f(4), of "LInt32 [7, 8]"] f L(1) show ?thesis by auto
qed

theorem arena_list_length_unchecked_witness:
  "\<exists>L f e'. Compile demo_schema = Inr L \<and> fl_field_id f = 3
    \<and> WriteArenaListField f (LInt32 (replicate (2 ^ 30) 7)) (Some (CreateEncodedRow L)) = (Inr (), Some e')
    \<and> ReadListValue \<lparr>row_layout = Some L, row_encoded = Some e'\<rparr> 3 kInt32 None
      = Inl (InvalidArgument ''list byte length does not match element count'')"
proof -
  obtain L where L: "Compile demo_schema = Inr L" "layout_ok L" by (rule demo_layout)
  from demo_layout_field [OF L(1), of "demo_field 3 kInt32 True kArena"] obtain f
    where f: "f \<in> set (cl_fields L)" "fl_field_id f = 3" "fl_type f = kInt32" "fl_is_list f" "fl_encoding f = kArena"
    by (auto simp: demo_schema_def demo_field_def)
  have "length (replicate (2 ^ 30) (7 :: u32)) = 2 ^ 30" by (rule length_replicate)
  from arena_list_length_unchecked [OF L(2) f(1) demo_row f(4,3,5) this] L(1) show ?thesis
    unfolding f(2) using f(2) by blast
qed

theorem write_element_dictionary_read_witness:
  "\<exists>L f e'. Compile demo_schema = Inr L \<and> fl_field_id f = 4
    \<and> WriteElementDictionaryStringListField f [1, 0]
        (Some (CreateEncodedRow L\<lparr>er_string_element_dictionary := [''a'', ''b'']\<rparr>)) = (Inr (), Some e')
    \<and> ReadListValue \<lparr>row_layout = Some L, row_encoded = Some e'\<rparr> 4 kString None = Inr (LString [''b'', ''a''])"
proof -
  obtain L where L: "Compile demo_schema = Inr L" "layout_ok L" by (rule demo_layout)
  from demo_layout_field [OF L(1), of "demo_field 4 kString True kElementDictionary"] obtain f
    where f: "f \<in> set (cl_fields L)" "fl_field_id f = 4" "fl_type f = kString" "fl_is_list f"
      "fl_encoding f = kElementDictionary"
    by (auto simp: demo_schema_def demo_field_def)
  have "row_fits L (CreateEncodedRow L\<lparr>er_string_element_dictionary := [''a'', ''b'']\<rparr>)"
    using demo_row(1) [of L] by (simp add: row_fits_def)
  from write_element_dictionary_read [OF L(2) f(1) this _ _ f(4,3,5), of "[1, 0]"] f L(1) demo_row(2,3) [of L]
  show ?thesis by auto
qed

theorem writes_independent_witness:
  "\<exists>L f g e e'. Compile demo_schema = Inr L \<and> apply_write (WScalar (SInt64 42)) f (Some e) = (Inr (), Some e')
    \<and> fl_field_id f = 1 \<and> fl_field_id g = 2 \<and> reads_kept g e e'"
proof -
  obtain L where L: "Compile demo_schema = Inr L" "layout_ok L" by (rule demo_layout)
  from demo_layout_field [OF L(1), of "demo_field 1 kInt64 False kFixed"] obtain f
    where f: "f \<in> set (cl_fields L)" "fl_field_id f = 1" "fl_type f = kInt64" "\<not> fl_uses_ref f"
    by (auto simp: demo_schema_def demo_field_def IsRefField_def)
  from demo_layout_field [OF L(1), of "demo_field 2 kString False kArena"] obtain g
    where g: "g \<in> set (cl_fields L)" "fl_field_id g = 2" by (auto simp: demo_schema_def demo_field_def)
  have len: "cl_row_slot_size L \<le> length (er_row_slot (CreateEncodedRow L))" by (simp add: CreateEncodedRow_def)
  have w: "apply_write (WScalar (SInt64 42)) f (Some (CreateEncodedRow L))
      = (Inr (), Some (put_field f (scalar_bytes (SInt64 42)) [] (CreateEncodedRow L)))"
    using WriteScalarField_eq(1) [OF L(2) f(1) len f(4), of "SInt64 42"] f(3) by simp
  have "g \<noteq> f" using f(2) g(2) by auto
  from writes_independent [OF L(2) f(1) g(1) this len w] w f(2) g(2) L(1) show ?thesis by blast
qed

theorem materialized_row_complete_witness:
  "\<exists>L e r f. Compile demo_schema = Inr L \<and> MaterializeRow (Some L) e = Inr r
    \<and> f \<in> set (cl_fields L) \<and> fl_field_id f = 1 \<and> \<not> fl_nullable f \<and> (fl_HasDefault f \<or> Row_Has r 1)"
proof -
  obtain L where L: "Compile demo_schema = Inr L" "layout_ok L" by (rule demo_layout)
  from demo_layout_field [OF L(1), of "demo_field 1 kInt64 False kFixed"] obtain f
    where f: "f \<in> set (cl_fields L)" "fl_field_id f = 1" "fl_type f = kInt64" "\<not> fl_uses_ref f" "\<not> fl_nullable f"
    by (auto simp: demo_schema_def demo_field_def IsRefField_def)
  let ?e = "put_field f (scalar_bytes (SInt64 42)) [] (CreateEncodedRow L)"
  have len: "cl_row_slot_size L \<le> length (er_row_slot (CreateEncodedRow L))" by (simp add: CreateEncodedRow_def)
  have "length (scalar_bytes (SInt64 42)) = fl_value_width f"
    using WriteScalarField_eq(2) [OF L(2) f(1) len f(4), of "SInt64 42"] f(3) by simp
  note P = put_field_slot [OF L(2) f(1) len this, where ext = "[]"]
  have "FieldPresent g ?e" if "g \<in> set (cl_fields L)" "\<not> fl_nullable g" for g
  proof -
    from Compile_field_spec [OF demo_schema_ok L(1) that(1)] that(2) have "fl_field_id g = fl_field_id f"
      by (auto simp: demo_schema_def demo_field_def f(2) split: if_splits)
    then have "g = f" using L(2) that(1) f(1) by (auto simp: layout_ok_def distinct_map inj_on_def)
    then show ?thesis using P(4) by simp
  qed
  then have m: "MaterializeRow (Some L) ?e = Inr \<lparr>row_layout = Some L, row_encoded = Some ?e\<rparr>"
    using P(1) demo_row(2,3) [of L] by (auto simp: MaterializeRow_def CreateEncodedRow_def)
  from materialized_row_complete [OF m L(2) f(1,5)] m L(1) f show ?thesis by auto
qed


end
