(* ===== verification/Stable_Hash.thy ===== *)
theory Stable_Hash
  imports KV_Prelude
begin

text \<open>
  \<open>src/base/hash.cc\<close>: the 64-bit hash that places a primary key in a shard, in a slot of the
  frozen index and in a slot of the realtime table, and the power-of-two test that guards every
  use of the hash with a mask. The main fact is that the hash is a bijection of the key space for
  every seed and version, so two keys never collide on all 64 bits.
\<close>

section \<open>Definitions\<close>

definition SplitMix64 :: "u64 \<Rightarrow> u64" where
  "SplitMix64 v0 =
     (let v1 = v0 + 0x9e3779b97f4a7c15;
          v2 = (v1 XOR drop_bit 30 v1) * 0xbf58476d1ce4e5b9;
          v3 = (v2 XOR drop_bit 27 v2) * 0x94d049bb133111eb
      in v3 XOR drop_bit 31 v3)"

definition StableHash64 :: "u64 \<Rightarrow> u64 \<Rightarrow> u32 \<Rightarrow> u64" where
  "StableHash64 primary_key seed version =
     (let version_mix = ucast version * 0xd6e8feb86659fd93
      in SplitMix64 (primary_key XOR seed XOR version_mix))"

text \<open>\<open>IsPowerOfTwo\<close> on \<open>std::uint32_t\<close> and on \<open>std::size_t\<close>, and \<open>std::has_single_bit\<close>.\<close>

definition IsPowerOfTwo :: "u32 \<Rightarrow> bool" where
  "IsPowerOfTwo v \<longleftrightarrow> v \<noteq> 0 \<and> v AND (v - 1) = 0"

definition IsPowerOfTwo_size :: "nat \<Rightarrow> bool" where
  "IsPowerOfTwo_size v \<longleftrightarrow> v \<noteq> 0 \<and> v AND (v - 1) = 0"

definition has_single_bit :: "u64 \<Rightarrow> bool" where
  "has_single_bit v \<longleftrightarrow> v \<noteq> 0 \<and> v AND (v - 1) = 0"

section \<open>The hash is a bijection\<close>

lemma xorshift_inj:
  fixes x y :: "'a :: len word"
  assumes "0 < n" and "x XOR drop_bit n x = y XOR drop_bit n y"
  shows "x = y"
proof (rule bit_word_eqI)
  fix k
  have step: "(bit x k \<noteq> bit x (n + k)) = (bit y k \<noteq> bit y (n + k))" for k
  proof -
    have "bit (x XOR drop_bit n x) k = bit (y XOR drop_bit n y) k"
      by (simp only: assms(2))
    then show ?thesis by (simp add: bit_xor_iff bit_drop_bit_eq)
  qed
  show "bit x k = bit y k"
  proof (induction "LENGTH('a) - k" arbitrary: k rule: less_induct)
    case less
    show ?case
    proof (cases "k < LENGTH('a)")
      case True
      then have "LENGTH('a) - (n + k) < LENGTH('a) - k" using assms(1) by simp
      then have "bit x (n + k) = bit y (n + k)" by (rule less)
      with step [of k] show ?thesis by blast
    next
      case False
      then show ?thesis by (meson bit_imp_le_length)
    qed
  qed
qed

lemma mult_inj:
  fixes a b c d :: "'a :: len word"
  assumes "c * d = 1" and "a * c = b * c"
  shows "a = b"
proof -
  have "a = a * c * d" using assms(1) by (simp add: mult.assoc)
  also have "\<dots> = b * c * d" by (simp only: assms(2))
  also have "\<dots> = b" using assms(1) by (simp add: mult.assoc)
  finally show ?thesis .
qed

lemma SplitMix64_inj: "SplitMix64 x = SplitMix64 y \<Longrightarrow> x = y"
proof -
  assume eq: "SplitMix64 x = SplitMix64 y"
  define a where "a = (\<lambda>v::u64. v + 0x9e3779b97f4a7c15)"
  define b where "b = (\<lambda>v::u64. (v XOR drop_bit 30 v) * 0xbf58476d1ce4e5b9)"
  define c where "c = (\<lambda>v::u64. (v XOR drop_bit 27 v) * 0x94d049bb133111eb)"
  have "SplitMix64 v = c (b (a v)) XOR drop_bit 31 (c (b (a v)))" for v
    by (simp only: SplitMix64_def a_def b_def c_def Let_def)
  with eq have "c (b (a x)) XOR drop_bit 31 (c (b (a x))) = c (b (a y)) XOR drop_bit 31 (c (b (a y)))"
    by (simp only:)
  then have "c (b (a x)) = c (b (a y))"
    by (rule xorshift_inj [rotated]) simp
  then have "b (a x) XOR drop_bit 27 (b (a x)) = b (a y) XOR drop_bit 27 (b (a y))"
    unfolding c_def by (rule mult_inj [where d = "0x319642b2d24d8ec3", rotated]) simp
  then have "b (a x) = b (a y)"
    by (rule xorshift_inj [rotated]) simp
  then have "a x XOR drop_bit 30 (a x) = a y XOR drop_bit 30 (a y)"
    unfolding b_def by (rule mult_inj [where d = "0x96de1b173f119089", rotated]) simp
  then have "a x = a y"
    by (rule xorshift_inj [rotated]) simp
  then show "x = y" by (simp add: a_def)
qed

lemma StableHash64_inj: "StableHash64 k seed ver = StableHash64 k' seed ver \<Longrightarrow> k = k'"
proof -
  assume eq: "StableHash64 k seed ver = StableHash64 k' seed ver"
  define m where "m = seed XOR ucast ver * 0xd6e8feb86659fd93"
  have "StableHash64 k seed ver = SplitMix64 (k XOR m)" for k
    by (simp only: StableHash64_def m_def Let_def xor.assoc)
  with eq have "SplitMix64 (k XOR m) = SplitMix64 (k' XOR m)" by metis
  then have "k XOR m = k' XOR m" by (rule SplitMix64_inj)
  then have "(k XOR m) XOR m = (k' XOR m) XOR m" by simp
  then show "k = k'" by (simp add: xor.assoc)
qed

text \<open>
  For every seed and hash version, \<open>StableHash64\<close> is a bijection of the 64-bit key space:
  distinct primary keys have distinct hashes, and every hash value is taken.
\<close>

lemma StableHash64_bij: "bij (\<lambda>k. StableHash64 k seed version)"
proof -
  have "inj (\<lambda>k. StableHash64 k seed version)"
    by (rule injI) (rule StableHash64_inj)
  then show ?thesis by (simp add: bij_def finite_UNIV_inj_surj)
qed

section \<open>Powers of two\<close>

lemma and_pred_nat_zero: "0 < m \<Longrightarrow> m AND (m - 1) = 0 \<Longrightarrow> \<exists>n. m = (2 :: nat) ^ n"
proof (induction m rule: less_induct)
  case (less m)
  show ?case
  proof (cases "even m")
    case True
    then obtain k where k: "m = 2 * k" by (elim evenE)
    with less.prems have "0 < k" by simp
    have "(m - 1) div 2 = k - 1" using k \<open>0 < k\<close> by simp
    then have "m AND (m - 1) = 2 * (k AND (k - 1))"
      using k and_nat_rec [of m "m - 1"] by simp
    with less.prems have "k AND (k - 1) = 0" by simp
    then obtain n where "k = 2 ^ n" using less.IH [of k] k \<open>0 < k\<close> by auto
    then have "m = 2 ^ Suc n" using k by simp
    then show ?thesis by blast
  next
    case False
    then obtain k where k: "m = 2 * k + 1" by (elim oddE)
    then have "m AND (m - 1) = 2 * (k AND k)" using and_nat_rec [of m "m - 1"] by simp
    with less.prems have "k = 0" by simp
    with k have "m = 2 ^ 0" by simp
    then show ?thesis by blast
  qed
qed

lemma pow2_and_pred_nat: "(2 :: nat) ^ n AND (2 ^ n - 1) = 0"
proof -
  have "(2 ^ n :: nat) AND mask n = take_bit n (2 ^ n)" by (simp only: take_bit_eq_mask)
  then show ?thesis by (simp add: mask_eq_exp_minus_1)
qed

lemma IsPowerOfTwo_size_iff: "IsPowerOfTwo_size v \<longleftrightarrow> (\<exists>n. v = 2 ^ n)"
  using and_pred_nat_zero [of v] pow2_and_pred_nat by (auto simp: IsPowerOfTwo_size_def)

lemma word_and_pred_iff:
  fixes v :: "'a :: len word"
  shows "v \<noteq> 0 \<and> v AND (v - 1) = 0 \<longleftrightarrow> (\<exists>n < LENGTH('a). v = 2 ^ n)"
proof
  assume v: "v \<noteq> 0 \<and> v AND (v - 1) = 0"
  have pos: "0 < unat v" using v by (simp add: unat_gt_0)
  have "unat (v AND (v - 1)) = 0" using v by simp
  then have "unat v AND unat (v - 1) = 0" by (simp only: unsigned_and_eq)
  then have "unat v AND (unat v - 1) = 0"
    using v by (simp only: unat_minus_one simp_thms)
  with and_pred_nat_zero [OF pos] obtain n where n: "unat v = 2 ^ n" by blast
  have "n < LENGTH('a)"
    using unsigned_less [of v, where ?'a = nat] n by (simp add: nat_power_less_imp_less)
  moreover have "v = of_nat (unat v)" by simp
  then have "v = 2 ^ n" by (simp only: n) simp
  ultimately show "\<exists>n < LENGTH('a). v = 2 ^ n" by blast
next
  assume "\<exists>n < LENGTH('a). v = 2 ^ n"
  then obtain n where n: "n < LENGTH('a)" "v = 2 ^ n" by blast
  have nz: "v \<noteq> 0" using n unat_pow2 [OF n(1)] by auto
  have "unat (v AND (v - 1)) = 2 ^ n AND (2 ^ n - 1)"
    using n nz by (simp add: unsigned_and_eq unat_minus_one unat_pow2)
  then have "v AND (v - 1) = 0" by (simp only: pow2_and_pred_nat unat_eq_zero)
  with nz show "v \<noteq> 0 \<and> v AND (v - 1) = 0" by simp
qed

lemma IsPowerOfTwo_iff: "IsPowerOfTwo v \<longleftrightarrow> (\<exists>n < 32. v = 2 ^ n)"
  using word_and_pred_iff [of v] by (simp add: IsPowerOfTwo_def)

lemma has_single_bit_iff: "has_single_bit v \<longleftrightarrow> (\<exists>n < 64. v = 2 ^ n)"
  using word_and_pred_iff [of v] by (simp add: has_single_bit_def)

end
