(* ===== verification/KV_Types.thy ===== *)
theory KV_Types
  imports KV_Prelude
begin

text \<open>
  \<open>include/kv_index/status.h\<close> and the parts of \<open>include/kv_index/types.h\<close> that carry
  decisions: statuses and their normalisation, the serving modes, source positions with the
  rule that orders two updates of one key, and the records of messages, progress and loads.
\<close>

section \<open>Statuses\<close>

record Status =
  st_code :: StatusCode
  st_message :: string

definition Status_Ok :: Status where
  "Status_Ok = \<lparr>st_code = kOk, st_message = []\<rparr>"

definition Status_make :: "StatusCode \<Rightarrow> string \<Rightarrow> Status" where
  "Status_make code message =
     \<lparr>st_code = (if code = kOk \<and> message \<noteq> [] then kUnknown else code), st_message = message\<rparr>"

definition Status_ok :: "Status \<Rightarrow> bool" where
  "Status_ok s \<longleftrightarrow> st_code s = kOk"

definition NormalizeStatus :: "Status \<Rightarrow> Status" where
  "NormalizeStatus status =
     (if Status_ok status
      then Status_make kInternal ''StatusOr constructed from OK status without a value''
      else status)"

text \<open>A \<open>StatusOr\<close> built from a status, and the accessor \<open>value()\<close> that throws on an error.\<close>

definition StatusOr_of_Status :: "Status \<Rightarrow> 'a res" where
  "StatusOr_of_Status status =
     (let s = NormalizeStatus status in Inl (Error (st_code s) (st_message s)))"

fun StatusOr_value :: "'a res \<Rightarrow> 'a res" where
  "StatusOr_value (Inr v) = Inr v"
| "StatusOr_value (Inl (Error code message)) =
     Inl (Throw (if message \<noteq> [] then ''StatusOr has no value: '' @ message
                 else ''StatusOr has no value''))"
| "StatusOr_value (Inl e) = Inl e"

section \<open>Serving modes\<close>

text \<open>\<open>kFullSnapshotWithRealtimeDeltaAndCompaction\<close> is an alias of \<open>kRealtimeDelta\<close>.\<close>

datatype ForwardIndexMode = kRealtimeDelta | kFullSnapshotOnly | kFullSnapshotWithRealtimeDelta

abbreviation kFullSnapshotWithRealtimeDeltaAndCompaction :: ForwardIndexMode where
  "kFullSnapshotWithRealtimeDeltaAndCompaction \<equiv> kRealtimeDelta"

definition ForwardIndexModeUsesKafkaRealtime :: "ForwardIndexMode \<Rightarrow> bool" where
  "ForwardIndexModeUsesKafkaRealtime mode \<longleftrightarrow> mode \<noteq> kFullSnapshotOnly"

definition ForwardIndexModeUsesCompactDelta :: "ForwardIndexMode \<Rightarrow> bool" where
  "ForwardIndexModeUsesCompactDelta mode \<longleftrightarrow> mode = kFullSnapshotWithRealtimeDeltaAndCompaction"

section \<open>Files and numbers\<close>

text \<open>What \<open>stat\<close> says of a path, and the decimal text of an unsigned integer as \<open>std::ostream\<close> writes it.\<close>

datatype FileKind = RegularFile | Directory | OtherFile

fun decimal :: "nat \<Rightarrow> string" where
  "decimal n = (if n < 10 then [char_of (48 + n)] else decimal (n div 10) @ [char_of (48 + n mod 10)])"

declare decimal.simps [simp del]

section \<open>Source positions\<close>

record SourcePosition =
  sp_partition :: int
  sp_offset :: int

datatype SourcePositionUpdateDecision = kStale | kIdempotent | kNewer

definition IsValidSourcePosition :: "SourcePosition \<Rightarrow> bool" where
  "IsValidSourcePosition p \<longleftrightarrow> sp_partition p \<ge> 0 \<and> sp_offset p \<ge> 0"

definition ClassifySourcePositionUpdate ::
    "SourcePosition \<Rightarrow> SourcePosition \<Rightarrow> SourcePositionUpdateDecision res" where
  "ClassifySourcePositionUpdate current candidate =
     (if \<not> IsValidSourcePosition current \<or> \<not> IsValidSourcePosition candidate
      then Inl (InvalidArgument ''source position is invalid'')
      else if sp_partition current \<noteq> sp_partition candidate
      then Inl (FailedPrecondition ''same-key source positions are from different partitions'')
      else if sp_offset candidate < sp_offset current then Inr kStale
      else if sp_offset candidate = sp_offset current then Inr kIdempotent
      else Inr kNewer)"

section \<open>Kafka and load records\<close>

text \<open>Partitions and offsets are integers in the range of their C++ types.\<close>

record KafkaConsumerConfig =
  kc_bootstrap_servers :: string
  kc_group_id :: string
  kc_topics :: "string list"

record KafkaPartition =
  kp_topic :: string
  kp_partition :: int

record KafkaPosition =
  ks_partition :: KafkaPartition
  ks_offset :: int

record KafkaMessageMetadata =
  mm_partition :: KafkaPartition
  mm_offset :: int
  mm_key :: string
  mm_timestamp_millis :: int

record KafkaUpsertMessage =
  um_metadata :: KafkaMessageMetadata
  um_primary_key :: u64
  um_payload :: "byte list"

record KafkaCheckpoint =
  kk_next_offsets :: "KafkaPosition list"

record KafkaPartitionProgress =
  pp_partition :: KafkaPartition
  pp_committed_next_offset :: int
  pp_high_watermark :: int
  pp_lag :: int

record KafkaProgress =
  pg_partitions :: "KafkaPartitionProgress list"

record PollOptions =
  po_timeout_ms :: int
  po_max_messages :: nat

record LoadRequest =
  lr_artifact_uri :: string
  lr_artifact_id :: string

datatype LoadStateCode = kLoadUnknown | kPending | kRunning | kSucceeded | kFailed | kLoadCancelled

record ShardProgress =
  sh_shard_id :: u32
  sh_loaded :: bool
  sh_prewarmed :: bool
  sh_cutover :: bool
  sh_message :: string

record LoadState =
  ls_id :: u64
  ls_code :: LoadStateCode
  ls_terminal :: bool
  ls_artifact_uri :: string
  ls_artifact_id :: string
  ls_total_shard_count :: u32
  ls_loaded_shard_count :: u32
  ls_prewarmed_shard_count :: u32
  ls_cutover_shard_count :: u32
  ls_source_progress :: KafkaProgress
  ls_shards :: "ShardProgress list"
  ls_last_error :: string
  ls_message :: string

section \<open>Lemmas\<close>

lemma StatusOr_of_Status_not_Ok:
  "\<exists>code m. StatusOr_of_Status s = Inl (Error code m) \<and> code \<noteq> kOk"
  by (auto simp: StatusOr_of_Status_def NormalizeStatus_def Status_ok_def Status_make_def Let_def)

lemma Classify_kNewer_iff:
  "ClassifySourcePositionUpdate p q = Inr kNewer \<longleftrightarrow>
   IsValidSourcePosition p \<and> IsValidSourcePosition q \<and> sp_partition p = sp_partition q
   \<and> sp_offset p < sp_offset q"
  by (auto simp: ClassifySourcePositionUpdate_def)

lemma Classify_not_newer_iff:
  "(\<exists>d. ClassifySourcePositionUpdate p q = Inr d \<and> d \<noteq> kNewer) \<longleftrightarrow>
   IsValidSourcePosition p \<and> IsValidSourcePosition q \<and> sp_partition p = sp_partition q
   \<and> sp_offset q \<le> sp_offset p"
  by (auto simp: ClassifySourcePositionUpdate_def)

end
