(* ===== verification/Linear_Probing.thy ===== *)
theory Linear_Probing
  imports KV_Prelude
begin

text \<open>
  Open addressing, independent of how the slots are stored. The frozen primary-key index keeps its
  slots in a byte vector and the realtime hash map keeps them in an array of records; both find a
  key by following the key's probe sequence until they meet the key or an empty slot. The contract
  of the probe sequence is the locale \<open>probing\<close>; \<open>cyclic_probing\<close> adds that the sequence
  visits every slot. The lemmas here are used by both tables through their interpretations.

  A table is seen as a function \<open>T\<close> from slot numbers to the key stored there, if any.
\<close>

section \<open>Definitions\<close>

datatype search_result = Hit nat | Vacant nat | Exhausted

fun probe_search ::
    "(nat \<Rightarrow> 'k option) \<Rightarrow> ('k \<Rightarrow> nat \<Rightarrow> nat) \<Rightarrow> 'k \<Rightarrow> nat \<Rightarrow> nat \<Rightarrow> search_result" where
  "probe_search T probe k i 0 = Exhausted"
| "probe_search T probe k i (Suc n) =
     (case T (probe k i) of
        None \<Rightarrow> Vacant (probe k i)
      | Some k' \<Rightarrow> if k' = k then Hit (probe k i) else probe_search T probe k (Suc i) n)"

text \<open>The first \<open>i\<close> slots of the sequence of \<open>k\<close> are taken by other keys.\<close>

definition passed_over :: "(nat \<Rightarrow> 'k option) \<Rightarrow> ('k \<Rightarrow> nat \<Rightarrow> nat) \<Rightarrow> 'k \<Rightarrow> nat \<Rightarrow> bool" where
  "passed_over T probe k i \<longleftrightarrow> (\<forall>j < i. T (probe k j) \<noteq> None \<and> T (probe k j) \<noteq> Some k)"

text \<open>Every stored key is reached from its own probe sequence.\<close>

definition probe_inv :: "nat \<Rightarrow> ('k \<Rightarrow> nat \<Rightarrow> nat) \<Rightarrow> (nat \<Rightarrow> 'k option) \<Rightarrow> bool" where
  "probe_inv cap probe T \<longleftrightarrow>
     (\<forall>s < cap. \<forall>k. T s = Some k \<longrightarrow> (\<exists>i < cap. probe k i = s \<and> passed_over T probe k i))"

section \<open>The search loop\<close>

lemma passed_over_0 [simp]: "passed_over T probe k 0"
  by (simp add: passed_over_def)

lemma passed_over_Suc:
  "passed_over T probe k (Suc i) \<longleftrightarrow>
   passed_over T probe k i \<and> T (probe k i) \<noteq> None \<and> T (probe k i) \<noteq> Some k"
  by (auto simp: passed_over_def less_Suc_eq)

lemma probe_search_Hit:
  assumes "probe_search T probe k i n = Hit s" and "passed_over T probe k i"
  shows "\<exists>j < i + n. probe k j = s \<and> T s = Some k \<and> passed_over T probe k j"
  using assms
proof (induction n arbitrary: i)
  case (Suc n)
  show ?case
  proof (cases "T (probe k i) \<noteq> None \<and> T (probe k i) \<noteq> Some k")
    case True
    with Suc.prems have "probe_search T probe k (Suc i) n = Hit s" "passed_over T probe k (Suc i)"
      by (auto simp: passed_over_Suc split: option.splits)
    from Suc.IH [OF this] show ?thesis by auto
  next
    case False
    with Suc.prems show ?thesis by (auto intro!: exI [of _ i] split: option.splits)
  qed
qed simp

lemma probe_search_Vacant:
  assumes "probe_search T probe k i n = Vacant s" and "passed_over T probe k i"
  shows "\<exists>j < i + n. probe k j = s \<and> T s = None \<and> passed_over T probe k j"
  using assms
proof (induction n arbitrary: i)
  case (Suc n)
  show ?case
  proof (cases "T (probe k i) \<noteq> None \<and> T (probe k i) \<noteq> Some k")
    case True
    with Suc.prems have "probe_search T probe k (Suc i) n = Vacant s" "passed_over T probe k (Suc i)"
      by (auto simp: passed_over_Suc split: option.splits)
    from Suc.IH [OF this] show ?thesis by auto
  next
    case False
    with Suc.prems show ?thesis by (auto intro!: exI [of _ i] split: option.splits if_splits)
  qed
qed simp

lemma probe_search_Exhausted:
  assumes "probe_search T probe k i n = Exhausted" and "passed_over T probe k i"
  shows "passed_over T probe k (i + n)"
  using assms
proof (induction n arbitrary: i)
  case (Suc n)
  then have "probe_search T probe k (Suc i) n = Exhausted" "passed_over T probe k (Suc i)"
    by (auto simp: passed_over_Suc split: option.splits if_splits)
  from Suc.IH [OF this] show ?case by simp
qed simp

lemma probe_inv_empty: "probe_inv cap probe (\<lambda>_. None)"
  by (simp add: probe_inv_def)

lemma probe_inv_cong:
  assumes "\<And>k i. i < cap \<Longrightarrow> probe k i < cap" and "\<And>s. s < cap \<Longrightarrow> T s = T' s"
  shows "probe_inv cap probe T = probe_inv cap probe T'"
proof -
  have "passed_over T probe k i = passed_over T' probe k i" if "i < cap" for k i
    using that assms by (auto simp: passed_over_def)
  then show ?thesis unfolding probe_inv_def using assms(2) by (metis (no_types, lifting))
qed

section \<open>The contract of a probe sequence\<close>

locale probing =
  fixes cap :: nat and probe :: "'k \<Rightarrow> nat \<Rightarrow> nat"
  assumes probe_less: "i < cap \<Longrightarrow> probe k i < cap"
begin

lemma stored_reachable:
  "probe_inv cap probe T \<Longrightarrow> s < cap \<Longrightarrow> T s = Some k \<Longrightarrow>
   \<exists>i < cap. probe k i = s \<and> passed_over T probe k i"
  by (auto simp: probe_inv_def)

lemma stored_unique:
  assumes "probe_inv cap probe T" and "s < cap" "T s = Some k" and "s' < cap" "T s' = Some k"
  shows "s = s'"
proof -
  from stored_reachable [OF assms(1,2,3)] obtain i where i: "probe k i = s" "passed_over T probe k i"
    by blast
  from stored_reachable [OF assms(1,4,5)] obtain i' where i': "probe k i' = s'" "passed_over T probe k i'"
    by blast
  have "\<not> i < i'" "\<not> i' < i" using i i' assms(3,5) by (auto simp: passed_over_def)
  then have "i = i'" by simp
  with i i' show ?thesis by simp
qed

lemma vacant_absent:
  assumes "probe_inv cap probe T" and "T (probe k i) = None" and "passed_over T probe k i"
  shows "s < cap \<Longrightarrow> T s \<noteq> Some k"
proof
  assume "s < cap" "T s = Some k"
  from stored_reachable [OF assms(1) this] obtain i' where i': "probe k i' = s" "passed_over T probe k i'"
    by blast
  consider "i' < i" | "i' = i" | "i < i'" by linarith
  then show False
    using i' \<open>T s = Some k\<close> assms(2,3) by cases (auto simp: passed_over_def)
qed

lemma search_Hit_iff:
  assumes "probe_inv cap probe T"
  shows "probe_search T probe k 0 cap = Hit s \<longleftrightarrow> s < cap \<and> T s = Some k"
proof
  assume "probe_search T probe k 0 cap = Hit s"
  from probe_search_Hit [OF this] show "s < cap \<and> T s = Some k" using probe_less by auto
next
  assume s: "s < cap \<and> T s = Some k"
  show "probe_search T probe k 0 cap = Hit s"
  proof (cases "probe_search T probe k 0 cap")
    case (Hit s')
    from probe_search_Hit [OF this] have "s' < cap" "T s' = Some k" using probe_less by auto
    with s assms have "s' = s" by (blast intro: stored_unique)
    with Hit show ?thesis by simp
  next
    case (Vacant s')
    from probe_search_Vacant [OF this] obtain j where "T (probe k j) = None" "passed_over T probe k j"
      by auto
    with vacant_absent [OF assms this] s show ?thesis by blast
  next
    case Exhausted
    from probe_search_Exhausted [OF this] have po: "passed_over T probe k cap" by simp
    from stored_reachable [OF assms] s obtain i where "i < cap" "probe k i = s" by blast
    with po s show ?thesis by (auto simp: passed_over_def)
  qed
qed

lemma search_Vacant:
  assumes "probe_inv cap probe T" and "probe_search T probe k 0 cap = Vacant s"
  shows "s < cap" and "T s = None" and "s' < cap \<Longrightarrow> T s' \<noteq> Some k"
    and "probe_inv cap probe (T(s := Some k))"
proof -
  from probe_search_Vacant [OF assms(2)] obtain i
    where i: "i < cap" "probe k i = s" "T s = None" "passed_over T probe k i" by auto
  show "s < cap" "T s = None" using i probe_less by auto
  show "s' < cap \<Longrightarrow> T s' \<noteq> Some k" using vacant_absent [OF assms(1)] i by blast
  have keep: "passed_over (T(s := Some k)) probe k' j" if "passed_over T probe k' j" for k' j
    using that i(3) by (auto simp: passed_over_def)
  show "probe_inv cap probe (T(s := Some k))"
    unfolding probe_inv_def
  proof (intro allI impI)
    fix r k' assume "r < cap" and r: "(T(s := Some k)) r = Some k'"
    show "\<exists>i < cap. probe k' i = r \<and> passed_over (T(s := Some k)) probe k' i"
    proof (cases "r = s")
      case True
      with r i keep show ?thesis by auto
    next
      case False
      with r have "T r = Some k'" by simp
      from stored_reachable [OF assms(1) \<open>r < cap\<close> this] keep show ?thesis by blast
    qed
  qed
qed

end

text \<open>A sequence that visits every slot, so a search in a table with a free slot never gives up.\<close>

locale cyclic_probing = probing +
  assumes probe_covers: "s < cap \<Longrightarrow> \<exists>i < cap. probe k i = s"
begin

lemma search_not_Exhausted:
  assumes "s < cap" and "T s = None"
  shows "probe_search T probe k 0 cap \<noteq> Exhausted"
proof
  assume "probe_search T probe k 0 cap = Exhausted"
  from probe_search_Exhausted [OF this] have "passed_over T probe k cap" by simp
  moreover from probe_covers [OF assms(1)] obtain i where "i < cap" "probe k i = s" by blast
  ultimately show False using assms(2) by (auto simp: passed_over_def)
qed

end

section \<open>Sequences of the form \<open>(home + i) mod cap\<close>\<close>

lemma cyc_covers:
  fixes s cap h :: nat
  assumes "s < cap"
  shows "\<exists>i < cap. (h + i) mod cap = s"
proof -
  define i where "i = (s + (cap - h mod cap)) mod cap"
  have "h mod cap < cap" using assms by simp
  have "(h + i) mod cap = (h mod cap + (s + (cap - h mod cap))) mod cap"
    by (simp add: i_def mod_simps)
  also have "\<dots> = (s + cap) mod cap" using \<open>h mod cap < cap\<close> by simp
  also have "\<dots> = s" using assms by simp
  finally have "(h + i) mod cap = s" .
  moreover have "i < cap" using assms by (simp add: i_def)
  ultimately show ?thesis by blast
qed

end
