(* ===== verification/Realtime_Delta.thy ===== *)
theory Realtime_Delta
  imports Row_Storage Stable_Hash KV_Types Linear_Probing "HOL-Library.AList"
begin

text \<open>
  \<open>src/store/realtime_delta.{h,cc}\<close>: the open-addressing hash map from primary keys to the newest
  row of the key, and the realtime table that owns the rows, publishes them and scans the visible
  ones up to a compaction boundary.

  A \<open>const RealtimeRowRef*\<close> is the row itself: rows are never moved or freed while the table
  lives and nothing but \<open>sealed_visible\<close>, which is only read through \<open>rows_\<close>, changes after
  a row has been stored. Publishing runs under \<open>rows_mutex_\<close>, so the publish loop is given for
  one writer, whose \<open>compare_exchange\<close> succeeds; \<open>publish_trace\<close> lists the states that a
  concurrent reader can meet while one insertion is under way.
\<close>

section \<open>Data\<close>

record RealtimeRowRef =
  rr_primary_key :: u64
  rr_position :: SourcePosition
  rr_encoded :: "EncodedRow option"
  rr_row_slot_bytes :: u64
  rr_payload_pool_bytes :: u64
  rr_sealed_visible :: bool

record RealtimeVisibleRow =
  rv_primary_key :: u64
  rv_position :: SourcePosition
  rv_encoded :: EncodedRow

datatype SlotState = kEmpty | kReserved | kOccupied

record Slot =
  sl_state :: SlotState
  sl_primary_key :: u64
  sl_latest_row :: "RealtimeRowRef option"

record RealtimeAtomicHashMap =
  hm_slots :: "Slot list"
  hm_capacity :: nat
  hm_hash_seed :: u64
  hm_hash_version :: u32
  hm_unique_key_count :: nat

record RealtimeDeltaAtomicTable =
  rt_layout :: "CompiledRowLayout option"
  rt_map :: RealtimeAtomicHashMap
  rt_rows :: "RealtimeRowRef list"
  rt_row_slot_bytes :: u64
  rt_payload_pool_bytes :: u64

text \<open>The counters of \<open>RealtimeDeltaStats\<close>; its \<open>double\<close> load factor is left out.\<close>

record RealtimeDeltaStats =
  ds_hash_capacity :: nat
  ds_unique_visible_keys :: nat
  ds_published_row_count :: nat
  ds_row_slot_bytes :: u64
  ds_payload_pool_bytes :: u64

section \<open>The hash map\<close>

definition empty_slot :: Slot where
  "empty_slot = \<lparr>sl_state = kEmpty, sl_primary_key = 0, sl_latest_row = None\<rparr>"

definition NewRealtimeAtomicHashMap :: "nat \<Rightarrow> u64 \<Rightarrow> u32 \<Rightarrow> RealtimeAtomicHashMap" where
  "NewRealtimeAtomicHashMap capacity hash_seed hash_version =
     \<lparr>hm_slots = replicate capacity empty_slot, hm_capacity = capacity, hm_hash_seed = hash_seed,
      hm_hash_version = hash_version, hm_unique_key_count = 0\<rparr>"

definition ProbeIndex :: "RealtimeAtomicHashMap \<Rightarrow> u64 \<Rightarrow> nat \<Rightarrow> nat" where
  "ProbeIndex m primary_key probe =
     (let hash = StableHash64 primary_key (hm_hash_seed m) (hm_hash_version m) in
      if IsPowerOfTwo_size (hm_capacity m)
      then unat ((hash + of_nat probe) AND (of_nat (hm_capacity m) - 1))
      else unat (hash + of_nat probe) mod hm_capacity m)"

definition capacity_exhausted :: failure where
  "capacity_exhausted = FailedPrecondition ''realtime hash map capacity exhausted''"

definition no_visible_row :: failure where
  "no_visible_row = Internal ''occupied realtime slot has no visible row''"

definition PublishExisting ::
    "RealtimeAtomicHashMap \<Rightarrow> nat \<Rightarrow> RealtimeRowRef \<Rightarrow> bool res \<times> RealtimeAtomicHashMap" where
  "PublishExisting m s row_ref =
     (case sl_latest_row (hm_slots m ! s) of
        None \<Rightarrow> (Inl no_visible_row, m)
      | Some current \<Rightarrow>
          (case ClassifySourcePositionUpdate (rr_position current) (rr_position row_ref) of
             Inl e \<Rightarrow> (Inl e, m)
           | Inr decision \<Rightarrow>
               if decision \<noteq> kNewer then (Inr False, m)
               else (Inr True, m\<lparr>hm_slots := (hm_slots m)[s := (hm_slots m ! s)\<lparr>sl_latest_row := Some row_ref\<rparr>]\<rparr>)))"

text \<open>The insertion into an empty slot, as the four stores of the code.\<close>

definition slot_reserve :: "nat \<Rightarrow> RealtimeAtomicHashMap \<Rightarrow> RealtimeAtomicHashMap" where
  "slot_reserve s m = m\<lparr>hm_slots := (hm_slots m)[s := (hm_slots m ! s)\<lparr>sl_state := kReserved\<rparr>]\<rparr>"

definition slot_set_key :: "nat \<Rightarrow> u64 \<Rightarrow> RealtimeAtomicHashMap \<Rightarrow> RealtimeAtomicHashMap" where
  "slot_set_key s k m = m\<lparr>hm_slots := (hm_slots m)[s := (hm_slots m ! s)\<lparr>sl_primary_key := k\<rparr>]\<rparr>"

definition slot_set_row :: "nat \<Rightarrow> RealtimeRowRef \<Rightarrow> RealtimeAtomicHashMap \<Rightarrow> RealtimeAtomicHashMap" where
  "slot_set_row s r m = m\<lparr>hm_slots := (hm_slots m)[s := (hm_slots m ! s)\<lparr>sl_latest_row := Some r\<rparr>]\<rparr>"

definition slot_occupy :: "nat \<Rightarrow> RealtimeAtomicHashMap \<Rightarrow> RealtimeAtomicHashMap" where
  "slot_occupy s m = m\<lparr>hm_slots := (hm_slots m)[s := (hm_slots m ! s)\<lparr>sl_state := kOccupied\<rparr>]\<rparr>"

definition count_key :: "RealtimeAtomicHashMap \<Rightarrow> RealtimeAtomicHashMap" where
  "count_key m = m\<lparr>hm_unique_key_count := hm_unique_key_count m + 1\<rparr>"

definition insert_steps :: "nat \<Rightarrow> u64 \<Rightarrow> RealtimeRowRef \<Rightarrow> (RealtimeAtomicHashMap \<Rightarrow> RealtimeAtomicHashMap) list" where
  "insert_steps s k r = [slot_reserve s, slot_set_key s k, slot_set_row s r, slot_occupy s, count_key]"

text \<open>The probe loop; the second last argument is the probe, the last one the probes left.\<close>

fun PublishFrom ::
    "RealtimeAtomicHashMap \<Rightarrow> u64 \<Rightarrow> RealtimeRowRef \<Rightarrow> nat \<Rightarrow> nat \<Rightarrow> bool res \<times> RealtimeAtomicHashMap" where
  "PublishFrom m primary_key row_ref probe 0 = (Inl capacity_exhausted, m)"
| "PublishFrom m primary_key row_ref probe (Suc n) =
     (let s = ProbeIndex m primary_key probe; slot = hm_slots m ! s in
      case sl_state slot of
        kReserved \<Rightarrow> (Inl (Unavailable ''realtime hash map slot is reserved''), m)
      | kOccupied \<Rightarrow>
          if sl_primary_key slot = primary_key then PublishExisting m s row_ref
          else PublishFrom m primary_key row_ref (Suc probe) n
      | kEmpty \<Rightarrow> (Inr True, fold (\<lambda>step. step) (insert_steps s primary_key row_ref) m))"

definition PublishAndReport ::
    "RealtimeAtomicHashMap \<Rightarrow> u64 \<Rightarrow> RealtimeRowRef option \<Rightarrow> bool res \<times> RealtimeAtomicHashMap" where
  "PublishAndReport m primary_key row_ref =
     (case row_ref of
        None \<Rightarrow> (Inl (InvalidArgument ''realtime row ref must not be null''), m)
      | Some r \<Rightarrow>
          if rr_primary_key r \<noteq> primary_key
          then (Inl (InvalidArgument ''realtime row ref primary key mismatch''), m)
          else if \<not> IsValidSourcePosition (rr_position r)
          then (Inl (InvalidArgument ''source position is invalid''), m)
          else if hm_capacity m = 0 then (Inl capacity_exhausted, m)
          else PublishFrom m primary_key r 0 (hm_capacity m))"

definition hm_Publish ::
    "RealtimeAtomicHashMap \<Rightarrow> u64 \<Rightarrow> RealtimeRowRef option \<Rightarrow> unit res \<times> RealtimeAtomicHashMap" where
  "hm_Publish m primary_key row_ref =
     (case PublishAndReport m primary_key row_ref of
        (Inl e, m') \<Rightarrow> (Inl e, m')
      | (Inr _, m') \<Rightarrow> (Inr (), m'))"

fun GetFrom :: "RealtimeAtomicHashMap \<Rightarrow> u64 \<Rightarrow> nat \<Rightarrow> nat \<Rightarrow> RealtimeRowRef option res" where
  "GetFrom m primary_key probe 0 = Inr None"
| "GetFrom m primary_key probe (Suc n) =
     (let slot = hm_slots m ! ProbeIndex m primary_key probe in
      if sl_state slot = kReserved \<or> sl_state slot = kEmpty then Inr None
      else if sl_primary_key slot \<noteq> primary_key then GetFrom m primary_key (Suc probe) n
      else (case sl_latest_row slot of None \<Rightarrow> Inl no_visible_row | Some row \<Rightarrow> Inr (Some row)))"

definition hm_Get :: "RealtimeAtomicHashMap \<Rightarrow> u64 \<Rightarrow> RealtimeRowRef option res" where
  "hm_Get m primary_key =
     (if hm_capacity m = 0 then Inr None else GetFrom m primary_key 0 (hm_capacity m))"

section \<open>The realtime table\<close>

definition NewRealtimeDeltaAtomicTable ::
    "CompiledRowLayout option \<Rightarrow> nat \<Rightarrow> u64 \<Rightarrow> u32 \<Rightarrow> RealtimeDeltaAtomicTable" where
  "NewRealtimeDeltaAtomicTable layout capacity hash_seed hash_version =
     \<lparr>rt_layout = layout, rt_map = NewRealtimeAtomicHashMap capacity hash_seed hash_version,
      rt_rows = [], rt_row_slot_bytes = 0, rt_payload_pool_bytes = 0\<rparr>"

definition StringBytes :: "string list \<Rightarrow> u64" where
  "StringBytes values = fold (\<lambda>v bytes. bytes + of_nat (length v)) values 0"

definition PayloadPoolBytes :: "EncodedRow \<Rightarrow> u64" where
  "PayloadPoolBytes encoded =
     (let bytes = of_nat (length (er_arena encoded)) + StringBytes (er_string_dictionary encoded);
          bytes = fold (\<lambda>v bytes. bytes + of_nat (length v)) (er_scalar_list_dictionary encoded) bytes;
          bytes = fold (\<lambda>v bytes. bytes + StringBytes v) (er_string_list_dictionary encoded) bytes
      in bytes + StringBytes (er_string_element_dictionary encoded))"

definition BuildRowRef ::
    "RealtimeDeltaAtomicTable \<Rightarrow> u64 \<Rightarrow> SourcePosition \<Rightarrow> EncodedRow \<Rightarrow> RealtimeRowRef res" where
  "BuildRowRef t primary_key position encoded =
     (case rt_layout t of
        None \<Rightarrow> Inl (FailedPrecondition ''realtime table has no row layout'')
      | Some layout \<Rightarrow>
          rbind (reject (\<not> IsValidSourcePosition position)
                   (InvalidArgument ''source position is invalid'')) (\<lambda>_.
          rbind (reject (er_schema_version encoded \<noteq> cl_schema_version layout
                         \<or> er_layout_fingerprint encoded \<noteq> cl_layout_fingerprint layout)
                   (FailedPrecondition ''encoded row metadata does not match realtime layout'')) (\<lambda>_.
          rbind (reject (length (er_row_slot encoded) \<noteq> cl_row_slot_size layout)
                   (InvalidArgument ''encoded row slot size does not match realtime layout'')) (\<lambda>_.
          rbind (MaterializeRow (Some layout) encoded) (\<lambda>_.
          Inr \<lparr>rr_primary_key = primary_key, rr_position = position, rr_encoded = Some encoded,
               rr_row_slot_bytes = of_nat (length (er_row_slot encoded)),
               rr_payload_pool_bytes = PayloadPoolBytes encoded, rr_sealed_visible = False\<rparr>)))))"

definition seal_last :: "RealtimeRowRef list \<Rightarrow> RealtimeRowRef list" where
  "seal_last rows = rows[length rows - 1 := (last rows)\<lparr>rr_sealed_visible := True\<rparr>]"

definition rt_Publish ::
    "RealtimeDeltaAtomicTable \<Rightarrow> u64 \<Rightarrow> SourcePosition \<Rightarrow> EncodedRow \<Rightarrow> unit res \<times> RealtimeDeltaAtomicTable" where
  "rt_Publish t primary_key position encoded =
     (case BuildRowRef t primary_key position encoded of
        Inl e \<Rightarrow> (Inl e, t)
      | Inr row_ref \<Rightarrow>
          (let rows = rt_rows t @ [row_ref] in
           case PublishAndReport (rt_map t) primary_key (Some row_ref) of
             (Inl e, m) \<Rightarrow> (Inl e, t\<lparr>rt_rows := rows, rt_map := m\<rparr>)
           | (Inr visible, m) \<Rightarrow>
               (Inr (), t\<lparr>rt_rows := (if visible then seal_last rows else rows), rt_map := m,
                  rt_row_slot_bytes := rt_row_slot_bytes t + rr_row_slot_bytes row_ref,
                  rt_payload_pool_bytes := rt_payload_pool_bytes t + rr_payload_pool_bytes row_ref\<rparr>)))"

definition rt_Get :: "RealtimeDeltaAtomicTable \<Rightarrow> u64 \<Rightarrow> Row option res" where
  "rt_Get t primary_key =
     (case rt_layout t of
        None \<Rightarrow> Inl (FailedPrecondition ''realtime table has no row layout'')
      | Some layout \<Rightarrow>
          rbind (hm_Get (rt_map t) primary_key) (\<lambda>row_ref.
            case row_ref of
              None \<Rightarrow> Inr None
            | Some ref \<Rightarrow>
                (case rr_encoded ref of
                   None \<Rightarrow> Inl (Internal ''realtime row ref has no encoded row'')
                 | Some encoded \<Rightarrow>
                     Inr (Some \<lparr>row_layout = Some layout, row_encoded = Some encoded\<rparr>))))"

definition CaptureCompactionBoundary :: "RealtimeDeltaAtomicTable \<Rightarrow> nat" where
  "CaptureCompactionBoundary t = length (rt_rows t)"

text \<open>The scan: the newest sealed row of every key among the first rows, in key order.\<close>

definition ScanStep ::
    "RealtimeRowRef \<Rightarrow> (u64 \<times> RealtimeRowRef) list \<Rightarrow> (u64 \<times> RealtimeRowRef) list res" where
  "ScanStep row latest =
     (if \<not> rr_sealed_visible row then Inr latest
      else (case map_of latest (rr_primary_key row) of
              None \<Rightarrow> Inr (latest @ [(rr_primary_key row, row)])
            | Some current \<Rightarrow>
                rbind (ClassifySourcePositionUpdate (rr_position current) (rr_position row)) (\<lambda>decision.
                if decision = kNewer then Inr (AList.update (rr_primary_key row) row latest)
                else Inr latest)))"

definition VisibleRow :: "u64 \<times> RealtimeRowRef \<Rightarrow> RealtimeVisibleRow res" where
  "VisibleRow entry =
     (case rr_encoded (snd entry) of
        None \<Rightarrow> Inl (Internal ''sealed realtime row has no encoded row'')
      | Some encoded \<Rightarrow>
          Inr \<lparr>rv_primary_key = fst entry, rv_position = rr_position (snd entry), rv_encoded = encoded\<rparr>)"

definition ScanVisibleRows :: "RealtimeDeltaAtomicTable \<Rightarrow> nat \<Rightarrow> RealtimeVisibleRow list res" where
  "ScanVisibleRows t boundary =
     (let limit = min boundary (length (rt_rows t)) in
      rbind (foldM_res ScanStep (take limit (rt_rows t)) []) (\<lambda>latest.
      rbind (mapM_res VisibleRow latest) (\<lambda>visible.
      Inr (sort_key rv_primary_key visible))))"

definition rt_stats :: "RealtimeDeltaAtomicTable \<Rightarrow> RealtimeDeltaStats" where
  "rt_stats t =
     \<lparr>ds_hash_capacity = hm_capacity (rt_map t), ds_unique_visible_keys = hm_unique_key_count (rt_map t),
      ds_published_row_count = length (rt_rows t), ds_row_slot_bytes = rt_row_slot_bytes t,
      ds_payload_pool_bytes = rt_payload_pool_bytes t\<rparr>"

section \<open>Abstract state and invariants\<close>

text \<open>The key of an occupied slot, and the visible rows of the map as a partial function.\<close>

definition occupied_key :: "RealtimeAtomicHashMap \<Rightarrow> nat \<Rightarrow> u64 option" where
  "occupied_key m s =
     (if sl_state (hm_slots m ! s) = kOccupied then Some (sl_primary_key (hm_slots m ! s)) else None)"

definition hm_abs :: "RealtimeAtomicHashMap \<Rightarrow> u64 \<rightharpoonup> RealtimeRowRef" where
  "hm_abs m k =
     (case find (\<lambda>slot. sl_state slot = kOccupied \<and> sl_primary_key slot = k) (hm_slots m) of
        None \<Rightarrow> None | Some slot \<Rightarrow> sl_latest_row slot)"

definition slot_ok :: "Slot \<Rightarrow> bool" where
  "slot_ok slot \<longleftrightarrow> sl_state slot \<noteq> kReserved
     \<and> (sl_state slot = kOccupied \<longrightarrow> (\<exists>r. sl_latest_row slot = Some r
          \<and> rr_primary_key r = sl_primary_key slot \<and> IsValidSourcePosition (rr_position r)))"

definition hm_inv :: "RealtimeAtomicHashMap \<Rightarrow> bool" where
  "hm_inv m \<longleftrightarrow>
     length (hm_slots m) = hm_capacity m \<and> hm_capacity m < 2 ^ 64
     \<and> probe_inv (hm_capacity m) (ProbeIndex m) (occupied_key m)
     \<and> (\<forall>slot \<in> set (hm_slots m). slot_ok slot)"

text \<open>What publishing a row means for the visible rows: newer positions of one partition win.\<close>

definition spec_publish ::
    "(u64 \<rightharpoonup> RealtimeRowRef) \<Rightarrow> RealtimeRowRef \<Rightarrow> bool res \<times> (u64 \<rightharpoonup> RealtimeRowRef)" where
  "spec_publish visible r =
     (case visible (rr_primary_key r) of
        None \<Rightarrow> (Inr True, visible(rr_primary_key r \<mapsto> r))
      | Some current \<Rightarrow>
          (case ClassifySourcePositionUpdate (rr_position current) (rr_position r) of
             Inl e \<Rightarrow> (Inl e, visible)
           | Inr d \<Rightarrow> if d = kNewer then (Inr True, visible(rr_primary_key r \<mapsto> r)) else (Inr False, visible)))"

text \<open>The states that a reader can meet while one insertion into slot \<open>s\<close> is under way.\<close>

fun scan_steps :: "('s \<Rightarrow> 's) list \<Rightarrow> 's \<Rightarrow> 's list" where
  "scan_steps [] m = [m]"
| "scan_steps (step # rest) m = m # scan_steps rest (step m)"

definition publish_trace :: "RealtimeAtomicHashMap \<Rightarrow> nat \<Rightarrow> u64 \<Rightarrow> RealtimeRowRef \<Rightarrow> RealtimeAtomicHashMap list" where
  "publish_trace m s k r = scan_steps (insert_steps s k r) m"

text \<open>The newest sealed row of a key in the row log.\<close>

definition last_sealed :: "RealtimeRowRef list \<Rightarrow> u64 \<rightharpoonup> RealtimeRowRef" where
  "last_sealed rows k =
     (let rs = filter (\<lambda>r. rr_sealed_visible r \<and> rr_primary_key r = k) rows in
      if rs = [] then None else Some (last rs))"

definition unsealed :: "RealtimeRowRef \<Rightarrow> RealtimeRowRef" where
  "unsealed r = r\<lparr>rr_sealed_visible := False\<rparr>"

definition inserted :: "nat \<Rightarrow> u64 \<Rightarrow> RealtimeRowRef \<Rightarrow> RealtimeAtomicHashMap \<Rightarrow> RealtimeAtomicHashMap" where
  "inserted s k r m = m\<lparr>hm_slots := (hm_slots m)[s :=
     \<lparr>sl_state = kOccupied, sl_primary_key = k, sl_latest_row = Some r\<rparr>],
     hm_unique_key_count := hm_unique_key_count m + 1\<rparr>"

definition log_ok :: "RealtimeRowRef list \<Rightarrow> bool" where
  "log_ok rows \<longleftrightarrow>
     (\<forall>r \<in> set rows. rr_sealed_visible r \<longrightarrow> rr_encoded r \<noteq> None \<and> IsValidSourcePosition (rr_position r))
     \<and> sorted_wrt (\<lambda>r r'. rr_sealed_visible r \<and> rr_sealed_visible r' \<and> rr_primary_key r = rr_primary_key r' \<longrightarrow>
         sp_partition (rr_position r) = sp_partition (rr_position r')
         \<and> sp_offset (rr_position r) < sp_offset (rr_position r')) rows"

definition rt_inv :: "RealtimeDeltaAtomicTable \<Rightarrow> bool" where
  "rt_inv t \<longleftrightarrow> hm_inv (rt_map t) \<and> log_ok (rt_rows t)
     \<and> (\<forall>k. hm_abs (rt_map t) k = map_option unsealed (last_sealed (rt_rows t) k))"

text \<open>A sequence of publish calls with their results.\<close>

fun rt_run ::
    "(u64 \<times> SourcePosition \<times> EncodedRow) list \<Rightarrow> RealtimeDeltaAtomicTable \<Rightarrow> unit res list \<times> RealtimeDeltaAtomicTable" where
  "rt_run [] t = ([], t)"
| "rt_run ((k, pos, e) # ps) t =
     (let (res, t1) = rt_Publish t k pos e; (ress, t2) = rt_run ps t1 in (res # ress, t2))"

text \<open>The specification: per key the row with the greatest offset, the first one among equals.\<close>

fun newer_wins :: "u64 \<times> SourcePosition \<times> EncodedRow \<Rightarrow> (u64 \<rightharpoonup> SourcePosition \<times> EncodedRow) \<Rightarrow> (u64 \<rightharpoonup> SourcePosition \<times> EncodedRow)" where
  "newer_wins (k, pos, e) v =
     (case v k of
        None \<Rightarrow> v(k \<mapsto> (pos, e))
      | Some (pos', e') \<Rightarrow> if sp_offset pos' < sp_offset pos then v(k \<mapsto> (pos, e)) else v)"

definition rt_view :: "RealtimeDeltaAtomicTable \<Rightarrow> (u64 \<rightharpoonup> SourcePosition \<times> EncodedRow)" where
  "rt_view t k = map_option (\<lambda>r. (rr_position r, the (rr_encoded r))) (last_sealed (rt_rows t) k)"

definition empty_layout :: CompiledRowLayout where
  "empty_layout = \<lparr>cl_schema_version = 1, cl_layout_fingerprint = 9, cl_presence_bitmap_bytes = 0,
     cl_fixed_area_offset = 0, cl_ref_area_offset = 0, cl_row_slot_size = 0, cl_fields = []\<rparr>"

definition empty_row :: "byte list \<Rightarrow> EncodedRow" where
  "empty_row arena = (CreateEncodedRow empty_layout)\<lparr>er_arena := arena\<rparr>"

definition at_offset :: "int \<Rightarrow> SourcePosition" where
  "at_offset n = \<lparr>sp_partition = 0, sp_offset = n\<rparr>"

definition demo_publishes :: "(u64 \<times> SourcePosition \<times> EncodedRow) list" where
  "demo_publishes = [(7, at_offset 5, empty_row [1]), (9, at_offset 6, empty_row [2]), (7, at_offset 3, empty_row [3])]"

section \<open>The probe sequence\<close>

lemma ProbeIndex_less:
  assumes "i < hm_capacity m"
  shows "ProbeIndex m k i < hm_capacity m"
proof (cases "IsPowerOfTwo_size (hm_capacity m)")
  case True
  then obtain b where b: "hm_capacity m = 2 ^ b" by (auto simp: IsPowerOfTwo_size_iff)
  then have "ProbeIndex m k i = unat (StableHash64 k (hm_hash_seed m) (hm_hash_version m) + of_nat i) mod 2 ^ b"
    using True unat_and_mask_pow2 [of "StableHash64 k (hm_hash_seed m) (hm_hash_version m) + of_nat i" b]
    by (simp add: ProbeIndex_def)
  then show ?thesis by (simp add: b)
next
  case False
  then show ?thesis using assms by (simp add: ProbeIndex_def)
qed

text \<open>With a capacity that is a power of two the sequence visits every slot.\<close>

lemma ProbeIndex_pow2:
  assumes "hm_capacity m = 2 ^ b" and "b < 64"
  shows "ProbeIndex m k i = (unat (StableHash64 k (hm_hash_seed m) (hm_hash_version m)) + i) mod 2 ^ b"
proof -
  let ?h = "StableHash64 k (hm_hash_seed m) (hm_hash_version m)"
  have d: "(2 :: nat) ^ b dvd 2 ^ 64" using assms(2) by (intro le_imp_power_dvd) simp
  have "IsPowerOfTwo_size (hm_capacity m)" using assms(1) by (auto simp: IsPowerOfTwo_size_iff)
  then have "ProbeIndex m k i = unat (?h + of_nat i) mod 2 ^ b"
    using assms(1) unat_and_mask_pow2 [of "?h + of_nat i" b] by (simp add: ProbeIndex_def)
  also have "\<dots> = (unat ?h + i) mod 2 ^ b"
    using d by (simp add: unat_word_ariths unat_of_nat mod_mod_cancel mod_add_right_eq)
  finally show ?thesis .
qed

lemma pow2_cyclic:
  assumes "IsPowerOfTwo_size (hm_capacity m)" and "hm_capacity m < 2 ^ 64"
  shows "cyclic_probing (hm_capacity m) (ProbeIndex m)"
proof
  from assms(1) obtain b where b: "hm_capacity m = 2 ^ b" by (auto simp: IsPowerOfTwo_size_iff)
  then have "b < 64" using assms(2) power_less_imp_less_exp [of "2 :: nat" b 64] by simp
  then show "\<exists>i < hm_capacity m. ProbeIndex m k i = s" if "s < hm_capacity m" for s k
    using cyc_covers [OF that] by (simp add: ProbeIndex_pow2 [OF b] b)
qed (rule ProbeIndex_less)

interpretation rt: probing "hm_capacity m" "ProbeIndex m" for m
  by unfold_locales (rule ProbeIndex_less)

lemma ProbeIndex_cong:
  "hm_capacity m' = hm_capacity m \<Longrightarrow> hm_hash_seed m' = hm_hash_seed m \<Longrightarrow> hm_hash_version m' = hm_hash_version m \<Longrightarrow>
   ProbeIndex m' = ProbeIndex m"
  by (intro ext) (simp add: ProbeIndex_def Let_def)

section \<open>The visible rows\<close>

lemma hm_invD:
  assumes "hm_inv m"
  shows "length (hm_slots m) = hm_capacity m" and "probe_inv (hm_capacity m) (ProbeIndex m) (occupied_key m)"
    and "s < hm_capacity m \<Longrightarrow> sl_state (hm_slots m ! s) \<noteq> kReserved"
    and "s < hm_capacity m \<Longrightarrow> occupied_key m s = Some k \<Longrightarrow>
      \<exists>r. sl_latest_row (hm_slots m ! s) = Some r \<and> rr_primary_key r = k \<and> IsValidSourcePosition (rr_position r)"
  using assms nth_mem [of s "hm_slots m"] by (auto simp: hm_inv_def slot_ok_def occupied_key_def split: if_splits)

lemma hm_abs_hit:
  assumes inv: "hm_inv m" and s: "s < hm_capacity m" and k: "occupied_key m s = Some k"
  shows "hm_abs m k = sl_latest_row (hm_slots m ! s)"
proof -
  let ?P = "\<lambda>slot. sl_state slot = kOccupied \<and> sl_primary_key slot = k"
  have P: "?P (hm_slots m ! s)" using k by (auto simp: occupied_key_def split: if_splits)
  then have "find ?P (hm_slots m) \<noteq> None" using s hm_invD(1) [OF inv] by (auto simp: find_None_iff)
  then obtain slot where f: "find ?P (hm_slots m) = Some slot" by blast
  then obtain j where j: "j < hm_capacity m" "hm_slots m ! j = slot" "?P slot"
    using hm_invD(1) [OF inv] by (auto simp: find_Some_iff)
  then have "occupied_key m j = Some k" by (simp add: occupied_key_def)
  with rt.stored_unique [OF hm_invD(2) [OF inv] s k j(1)] j f show ?thesis by (simp add: hm_abs_def)
qed

lemma hm_abs_miss:
  assumes "hm_inv m" and "\<And>s. s < hm_capacity m \<Longrightarrow> occupied_key m s \<noteq> Some k"
  shows "hm_abs m k = None"
proof -
  have "find (\<lambda>slot. sl_state slot = kOccupied \<and> sl_primary_key slot = k) (hm_slots m) = None"
    using assms(2) hm_invD(1) [OF assms(1)] by (fastforce simp: find_None_iff in_set_conv_nth occupied_key_def)
  then show ?thesis by (simp add: hm_abs_def)
qed

lemma GetFrom_eq:
  assumes inv: "hm_inv m" and "i + n \<le> hm_capacity m"
  shows "GetFrom m k i n =
    (case probe_search (occupied_key m) (ProbeIndex m) k i n of
       Hit s \<Rightarrow> Inr (sl_latest_row (hm_slots m ! s)) | Vacant s \<Rightarrow> Inr None | Exhausted \<Rightarrow> Inr None)"
  using assms(2)
proof (induction n arbitrary: i)
  case (Suc n)
  let ?s = "ProbeIndex m k i"
  have s: "?s < hm_capacity m" using Suc.prems by (intro ProbeIndex_less) simp
  show ?case
    using Suc.IH [of "Suc i"] Suc.prems hm_invD(3,4) [OF inv s]
    by (cases "sl_state (hm_slots m ! ?s)") (auto simp: occupied_key_def Let_def)
qed simp

lemma hm_Get_eq:
  assumes "hm_inv m"
  shows "hm_Get m k = Inr (hm_abs m k)"
proof (cases "probe_search (occupied_key m) (ProbeIndex m) k 0 (hm_capacity m)")
  case (Hit s)
  with rt.search_Hit_iff [OF hm_invD(2) [OF assms]] have "s < hm_capacity m" "occupied_key m s = Some k" by blast+
  then show ?thesis using Hit GetFrom_eq [OF assms, of 0 "hm_capacity m" k] hm_abs_hit [OF assms]
    by (auto simp: hm_Get_def)
next
  case (Vacant s)
  then have "hm_abs m k = None"
    using rt.search_Vacant(3) [OF hm_invD(2) [OF assms] Vacant] by (intro hm_abs_miss [OF assms]) blast
  then show ?thesis using Vacant GetFrom_eq [OF assms, of 0 "hm_capacity m" k] by (simp add: hm_Get_def)
next
  case Exhausted
  then have "hm_abs m k = None"
    using rt.search_Hit_iff [OF hm_invD(2) [OF assms], of k] by (intro hm_abs_miss [OF assms]) auto
  then show ?thesis using Exhausted GetFrom_eq [OF assms, of 0 "hm_capacity m" k] by (simp add: hm_Get_def)
qed

section \<open>Publishing\<close>

lemma PublishFrom_eq:
  assumes inv: "hm_inv m" and "i + n \<le> hm_capacity m"
  shows "PublishFrom m k r i n =
    (case probe_search (occupied_key m) (ProbeIndex m) k i n of
       Hit s \<Rightarrow> PublishExisting m s r
     | Vacant s \<Rightarrow> (Inr True, fold (\<lambda>step. step) (insert_steps s k r) m)
     | Exhausted \<Rightarrow> (Inl capacity_exhausted, m))"
  using assms(2)
proof (induction n arbitrary: i)
  case (Suc n)
  let ?s = "ProbeIndex m k i"
  have s: "?s < hm_capacity m" using Suc.prems by (intro ProbeIndex_less) simp
  show ?case
    using Suc.IH [of "Suc i"] Suc.prems hm_invD(3) [OF inv s]
    by (cases "sl_state (hm_slots m ! ?s)") (auto simp: occupied_key_def Let_def)
qed simp

lemma insert_steps_eq:
  "s < length (hm_slots m) \<Longrightarrow> fold (\<lambda>step. step) (insert_steps s k r) m = inserted s k r m"
  by (cases "hm_slots m ! s")
     (simp add: insert_steps_def slot_reserve_def slot_set_key_def slot_set_row_def slot_occupy_def count_key_def inserted_def)

lemma occupied_key_update:
  "s < length (hm_slots m) \<Longrightarrow> occupied_key (m\<lparr>hm_slots := (hm_slots m)[s := slot], hm_unique_key_count := n\<rparr>) =
   (occupied_key m)(s := (if sl_state slot = kOccupied then Some (sl_primary_key slot) else None))"
  by (auto simp: occupied_key_def fun_eq_iff nth_list_update)

lemma hm_inv_put:
  assumes inv: "hm_inv m" and s: "s < hm_capacity m"
    and pi: "probe_inv (hm_capacity m) (ProbeIndex m) ((occupied_key m)(s := Some k))"
    and r: "rr_primary_key r = k" "IsValidSourcePosition (rr_position r)"
    and own: "occupied_key m s = None \<or> occupied_key m s = Some k"
    and m': "m' = m\<lparr>hm_slots := (hm_slots m)[s := \<lparr>sl_state = kOccupied, sl_primary_key = k, sl_latest_row = Some r\<rparr>],
       hm_unique_key_count := n\<rparr>"
  shows "hm_inv m'" and "hm_abs m' = (hm_abs m)(k \<mapsto> r)"
proof -
  let ?slot = "\<lparr>sl_state = kOccupied, sl_primary_key = k, sl_latest_row = Some r\<rparr>"
  have len: "length (hm_slots m) = hm_capacity m" using inv by (rule hm_invD)
  have P: "ProbeIndex m' = ProbeIndex m" by (rule ProbeIndex_cong) (simp_all add: m')
  have occ: "occupied_key m' = (occupied_key m)(s := Some k)"
    using occupied_key_update [where s = s and m = m and slot = ?slot and n = n] s len by (simp add: m')
  have "slot_ok ?slot" using r by (simp add: slot_ok_def)
  then have "\<forall>slot \<in> set (hm_slots m'). slot_ok slot"
    using inv set_update_subset_insert [of "hm_slots m" s ?slot] by (auto simp: m' hm_inv_def)
  with inv pi len show inv': "hm_inv m'" unfolding hm_inv_def P occ by (simp add: m')
  have cap: "hm_capacity m' = hm_capacity m" and slots: "hm_slots m' = (hm_slots m)[s := ?slot]" by (simp_all add: m')
  show "hm_abs m' = (hm_abs m)(k \<mapsto> r)"
  proof
    fix k'
    consider "k' = k" | s' where "k' \<noteq> k" "s' < hm_capacity m" "occupied_key m s' = Some k'"
      | "k' \<noteq> k" "\<And>s'. s' < hm_capacity m \<Longrightarrow> occupied_key m s' \<noteq> Some k'" by blast
    then show "hm_abs m' k' = ((hm_abs m)(k \<mapsto> r)) k'"
    proof cases
      case 1
      then show ?thesis using hm_abs_hit [OF inv', of s k] s len by (simp add: cap occ slots)
    next
      case 2
      then have "s' \<noteq> s" using own by auto
      with 2 hm_abs_hit [OF inv', of s' k'] hm_abs_hit [OF inv, of s' k'] show ?thesis
        by (simp add: cap occ slots)
    next
      case 3
      then show ?thesis using hm_abs_miss [OF inv, of k'] hm_abs_miss [OF inv', of k'] by (simp add: cap occ)
    qed
  qed
qed

lemma PublishExisting_spec:
  assumes inv: "hm_inv m" and s: "s < hm_capacity m" and k: "occupied_key m s = Some (rr_primary_key r)"
    and r: "IsValidSourcePosition (rr_position r)"
    and p: "PublishExisting m s r = (res, m')"
  shows "hm_inv m' \<and> (res, hm_abs m') = spec_publish (hm_abs m) r"
proof -
  from hm_invD(4) [OF inv s k] obtain c where c: "sl_latest_row (hm_slots m ! s) = Some c" by blast
  have st: "sl_state (hm_slots m ! s) = kOccupied" "sl_primary_key (hm_slots m ! s) = rr_primary_key r"
    using k by (auto simp: occupied_key_def split: if_splits)
  have abs: "hm_abs m (rr_primary_key r) = Some c" using hm_abs_hit [OF inv s k] c by simp
  have pi: "probe_inv (hm_capacity m) (ProbeIndex m) ((occupied_key m)(s := Some (rr_primary_key r)))"
    using hm_invD(2) [OF inv] k by (simp add: fun_upd_idem)
  have slot: "(hm_slots m ! s)\<lparr>sl_latest_row := Some r\<rparr>
      = \<lparr>sl_state = kOccupied, sl_primary_key = rr_primary_key r, sl_latest_row = Some r\<rparr>"
    using st by (cases "hm_slots m ! s") simp
  have eq: "m\<lparr>hm_slots := (hm_slots m)[s := (hm_slots m ! s)\<lparr>sl_latest_row := Some r\<rparr>]\<rparr> =
      m\<lparr>hm_slots := (hm_slots m)[s := \<lparr>sl_state = kOccupied, sl_primary_key = rr_primary_key r, sl_latest_row = Some r\<rparr>],
        hm_unique_key_count := hm_unique_key_count m\<rparr>"
    unfolding slot by simp
  note put = hm_inv_put [OF inv s pi refl r _ eq] 
  show ?thesis
    using p put k inv
    by (auto simp: PublishExisting_def c spec_publish_def abs split: sum.splits if_splits)
qed

lemma PublishAndReport_spec:
  assumes inv: "hm_inv m" and r: "IsValidSourcePosition (rr_position r)"
    and p: "PublishAndReport m (rr_primary_key r) (Some r) = (res, m')"
  shows "hm_inv m'"
    and "(res, hm_abs m') = spec_publish (hm_abs m) r
      \<or> res = Inl capacity_exhausted \<and> m' = m \<and> hm_abs m (rr_primary_key r) = None
        \<and> (IsPowerOfTwo_size (hm_capacity m) \<longrightarrow> (\<forall>s < hm_capacity m. occupied_key m s \<noteq> None))"
proof -
  let ?k = "rr_primary_key r"
  have goal: "hm_inv m' \<and> ((res, hm_abs m') = spec_publish (hm_abs m) r
      \<or> res = Inl capacity_exhausted \<and> m' = m \<and> hm_abs m ?k = None
        \<and> (IsPowerOfTwo_size (hm_capacity m) \<longrightarrow> (\<forall>s < hm_capacity m. occupied_key m s \<noteq> None)))"
  proof (cases "hm_capacity m = 0")
    case True
    then have "hm_abs m ?k = None" by (intro hm_abs_miss [OF inv]) simp
    with p r True inv show ?thesis by (auto simp: PublishAndReport_def)
  next
    case False
    then have pf: "PublishFrom m ?k r 0 (hm_capacity m) = (res, m')" using p r by (simp add: PublishAndReport_def)
    note pi = hm_invD(2) [OF inv]
    note E = PublishFrom_eq [OF inv, of 0 "hm_capacity m" ?k r, unfolded pf]
    show ?thesis
    proof (cases "probe_search (occupied_key m) (ProbeIndex m) ?k 0 (hm_capacity m)")
      case (Hit s)
      with rt.search_Hit_iff [OF pi] have "s < hm_capacity m" "occupied_key m s = Some ?k" by blast+
      from PublishExisting_spec [OF inv this r, of res m'] E Hit show ?thesis by simp
    next
      case (Vacant s)
      note V = rt.search_Vacant [OF pi Vacant]
      have abs: "hm_abs m ?k = None" using V(3) by (intro hm_abs_miss [OF inv]) blast
      have m': "res = Inr True" "m' = inserted s ?k r m"
        using E Vacant insert_steps_eq [of s m] V(1) hm_invD(1) [OF inv] by simp_all
      have "hm_inv m'" "hm_abs m' = (hm_abs m)(?k \<mapsto> r)"
        using hm_inv_put [OF inv V(1,4) refl r _ m'(2) [unfolded inserted_def]] V(2) by simp_all
      then show ?thesis by (simp add: m'(1) spec_publish_def abs)
    next
      case Exhausted
      then have abs: "hm_abs m ?k = None"
        using rt.search_Hit_iff [OF pi, of ?k] by (intro hm_abs_miss [OF inv]) auto
      have "\<forall>s < hm_capacity m. occupied_key m s \<noteq> None" if "IsPowerOfTwo_size (hm_capacity m)"
      proof (intro allI impI notI)
        fix s assume s: "s < hm_capacity m" "occupied_key m s = None"
        have "cyclic_probing (hm_capacity m) (ProbeIndex m)"
          using that inv by (intro pow2_cyclic) (simp_all add: hm_inv_def)
        from cyclic_probing.search_not_Exhausted [where T = "occupied_key m", OF this s] Exhausted show False by simp
      qed
      with E Exhausted abs inv show ?thesis by simp
    qed
  qed
  then show "hm_inv m'" by blast
  from goal show "(res, hm_abs m') = spec_publish (hm_abs m) r
      \<or> res = Inl capacity_exhausted \<and> m' = m \<and> hm_abs m ?k = None
        \<and> (IsPowerOfTwo_size (hm_capacity m) \<longrightarrow> (\<forall>s < hm_capacity m. occupied_key m s \<noteq> None))" by blast
qed


section \<open>Readers during an insertion\<close>

lemma GetFrom_cong:
  assumes "ProbeIndex m' = ProbeIndex m"
    and "\<And>j. hm_slots m' ! j = hm_slots m ! j
      \<or> sl_state (hm_slots m' ! j) \<noteq> kOccupied \<and> sl_state (hm_slots m ! j) \<noteq> kOccupied"
  shows "GetFrom m' k i n = GetFrom m k i n"
proof (induction n arbitrary: i)
  case (Suc n)
  have "s \<noteq> kOccupied \<Longrightarrow> s = kReserved \<or> s = kEmpty" for s by (cases s) auto
  then show ?case using assms(2) [of "ProbeIndex m k i"] Suc.IH [of "Suc i"] by (auto simp: assms(1) Let_def)
qed simp

lemma publish_trace_get:
  assumes "s < length (hm_slots m)" and "sl_state (hm_slots m ! s) = kEmpty" and "m1 \<in> set (publish_trace m s k r)"
  shows "hm_Get m1 k' = hm_Get m k' \<or> hm_Get m1 k' = hm_Get (inserted s k r m) k'"
proof -
  have cap: "hm_capacity m1 = hm_capacity m" and P: "ProbeIndex m1 = ProbeIndex m"
    using assms(3) by (auto simp: publish_trace_def insert_steps_def slot_reserve_def slot_set_key_def
        slot_set_row_def slot_occupy_def count_key_def intro!: ProbeIndex_cong)
  have P': "ProbeIndex (inserted s k r m) = ProbeIndex m" by (rule ProbeIndex_cong) (simp_all add: inserted_def)
  have "(\<forall>j. hm_slots m1 ! j = hm_slots m ! j
          \<or> sl_state (hm_slots m1 ! j) \<noteq> kOccupied \<and> sl_state (hm_slots m ! j) \<noteq> kOccupied)
      \<or> hm_slots m1 = hm_slots (inserted s k r m)"
    using assms
    by (cases "hm_slots m ! s")
       (auto simp: publish_trace_def insert_steps_def slot_reserve_def slot_set_key_def
        slot_set_row_def slot_occupy_def count_key_def inserted_def nth_list_update split: if_splits)
  then show ?thesis
  proof
    assume "\<forall>j. hm_slots m1 ! j = hm_slots m ! j
          \<or> sl_state (hm_slots m1 ! j) \<noteq> kOccupied \<and> sl_state (hm_slots m ! j) \<noteq> kOccupied"
    with GetFrom_cong [OF P, of k' 0 "hm_capacity m"] show ?thesis by (simp add: hm_Get_def cap)
  next
    assume "hm_slots m1 = hm_slots (inserted s k r m)"
    moreover have "ProbeIndex m1 = ProbeIndex (inserted s k r m)" by (simp only: P P')
    ultimately have "GetFrom m1 k' 0 (hm_capacity m) = GetFrom (inserted s k r m) k' 0 (hm_capacity m)"
      using GetFrom_cong [of m1 "inserted s k r m"] by simp
    then show ?thesis by (simp add: hm_Get_def cap) (simp add: inserted_def)
  qed
qed

text \<open>
  C20. While a writer inserts a new key, slot by slot store, a reader of any key gets at every moment
  either the answer of the map before the insertion or that of the map after it.
\<close>

theorem concurrent_get:
  assumes inv: "hm_inv m" and new: "hm_abs m k = None" and p: "PublishAndReport m k (Some r) = (Inr True, m')"
  shows "\<exists>s. last (publish_trace m s k r) = m' \<and>
    (\<forall>m1 \<in> set (publish_trace m s k r). hm_Get m1 k' = hm_Get m k' \<or> hm_Get m1 k' = hm_Get m' k')"
proof -
  from p have pf: "PublishFrom m k r 0 (hm_capacity m) = (Inr True, m')"
    by (auto simp: PublishAndReport_def split: if_splits)
  note E = PublishFrom_eq [OF inv, of 0 "hm_capacity m" k r, unfolded pf]
  obtain s where s: "probe_search (occupied_key m) (ProbeIndex m) k 0 (hm_capacity m) = Vacant s"
  proof (cases "probe_search (occupied_key m) (ProbeIndex m) k 0 (hm_capacity m)")
    case (Hit s)
    with rt.search_Hit_iff [OF hm_invD(2) [OF inv]] have h: "s < hm_capacity m" "occupied_key m s = Some k" by blast+
    with hm_invD(4) [OF inv h] hm_abs_hit [OF inv h] new show thesis by auto
  qed (use E in auto)
  note V = rt.search_Vacant [OF hm_invD(2) [OF inv] s]
  have lt: "s < length (hm_slots m)" using V(1) hm_invD(1) [OF inv] by simp
  have e: "sl_state (hm_slots m ! s) = kEmpty"
    using V(2) hm_invD(3) [OF inv V(1)] by (cases "sl_state (hm_slots m ! s)") (auto simp: occupied_key_def)
  have m': "m' = inserted s k r m" using E s insert_steps_eq [OF lt] by simp
  have "last (publish_trace m s k r) = fold (\<lambda>step. step) (insert_steps s k r) m"
    by (simp add: publish_trace_def insert_steps_def)
  then have "last (publish_trace m s k r) = m'" using insert_steps_eq [OF lt] m' by simp
  with publish_trace_get [OF lt e] m' show ?thesis by (intro exI [of _ s]) blast
qed

section \<open>The row log\<close>

lemma last_sealed_snoc [simp]:
  "last_sealed (rows @ [r]) k = (if rr_sealed_visible r \<and> rr_primary_key r = k then Some r else last_sealed rows k)"
  by (auto simp: last_sealed_def Let_def)

lemma last_sealed_Nil [simp]: "last_sealed [] k = None"
  by (simp add: last_sealed_def)

lemma last_sealed_SomeD:
  "last_sealed rows k = Some r \<Longrightarrow> r \<in> set rows \<and> rr_sealed_visible r \<and> rr_primary_key r = k"
  by (induction rows rule: rev_induct) (auto split: if_splits)

lemma last_sealed_None: "last_sealed rows k = None \<longleftrightarrow> (\<forall>r \<in> set rows. rr_sealed_visible r \<longrightarrow> rr_primary_key r \<noteq> k)"
  by (induction rows rule: rev_induct) auto

lemma log_ok_last:
  assumes "log_ok rows" and "last_sealed rows k = Some c" and "x \<in> set rows" "rr_sealed_visible x" "rr_primary_key x = k"
  shows "sp_partition (rr_position x) = sp_partition (rr_position c) \<and> sp_offset (rr_position x) \<le> sp_offset (rr_position c)"
  using assms
proof (induction rows rule: rev_induct)
  case (snoc r rows)
  have ok: "log_ok rows" using snoc.prems(1) by (auto simp: log_ok_def sorted_wrt_append)
  show ?case
  proof (cases "rr_sealed_visible r \<and> rr_primary_key r = k")
    case True
    with snoc.prems show ?thesis by (auto simp: log_ok_def sorted_wrt_append)
  next
    case False
    with snoc ok show ?thesis by auto
  qed
qed simp

lemma log_ok_snoc:
  "log_ok (rows @ [r]) \<longleftrightarrow> log_ok rows \<and> (rr_sealed_visible r \<longrightarrow> rr_encoded r \<noteq> None \<and> IsValidSourcePosition (rr_position r)
     \<and> (\<forall>c. last_sealed rows (rr_primary_key r) = Some c \<longrightarrow>
          sp_partition (rr_position c) = sp_partition (rr_position r) \<and> sp_offset (rr_position c) < sp_offset (rr_position r)))"
  (is "?L \<longleftrightarrow> ?R")
proof
  assume ?L
  then show ?R by (auto simp: log_ok_def sorted_wrt_append dest!: last_sealed_SomeD)
next
  assume R: ?R
  have "sp_partition (rr_position x) = sp_partition (rr_position r) \<and> sp_offset (rr_position x) < sp_offset (rr_position r)"
    if x: "x \<in> set rows" "rr_sealed_visible x" "rr_primary_key x = rr_primary_key r" and r: "rr_sealed_visible r" for x
  proof -
    from x last_sealed_None [of rows "rr_primary_key r"] obtain c
      where c: "last_sealed rows (rr_primary_key r) = Some c" by (cases "last_sealed rows (rr_primary_key r)") auto
    with log_ok_last [OF _ c x] R r show ?thesis by auto
  qed
  with R show ?L by (auto simp: log_ok_def sorted_wrt_append)
qed

lemma log_ok_take: "log_ok rows \<Longrightarrow> log_ok (take n rows)"
  unfolding log_ok_def by (auto dest: in_set_takeD intro: sorted_wrt_take)

section \<open>Scanning the log\<close>

lemma ScanStep_snoc:
  assumes "log_ok (rows @ [r])" and "distinct (map fst latest)" and "map_of latest = last_sealed rows"
  shows "\<exists>latest'. ScanStep r latest = Inr latest' \<and> distinct (map fst latest')
    \<and> map_of latest' = last_sealed (rows @ [r])"
proof (cases "rr_sealed_visible r")
  case False
  then have "last_sealed (rows @ [r]) = last_sealed rows" by (intro ext) simp
  with False assms show ?thesis by (simp add: ScanStep_def)
next
  case True
  then have eq: "last_sealed (rows @ [r]) = (last_sealed rows)(rr_primary_key r \<mapsto> r)" by (intro ext) auto
  show ?thesis
  proof (cases "last_sealed rows (rr_primary_key r)")
    case None
    then have "rr_primary_key r \<notin> fst ` set latest" unfolding assms(3) [symmetric] by (simp add: map_of_eq_None_iff)
    moreover have "map_of (latest @ [(rr_primary_key r, r)]) = (map_of latest)(rr_primary_key r \<mapsto> r)"
      using None assms(3) by (auto simp: fun_eq_iff map_add_def split: option.splits)
    ultimately show ?thesis using True None assms(2,3) by (simp add: ScanStep_def eq)
  next
    case (Some c)
    have "IsValidSourcePosition (rr_position c)"
      using last_sealed_SomeD [OF Some] assms(1) by (auto simp: log_ok_def)
    with assms(1) Some True have "ClassifySourcePositionUpdate (rr_position c) (rr_position r) = Inr kNewer"
      by (auto simp: log_ok_snoc Classify_kNewer_iff)
    with True Some assms(2,3) show ?thesis by (simp add: ScanStep_def eq update_conv' distinct_update)
  qed
qed

lemma ScanSteps_eq:
  assumes "log_ok rows"
  shows "\<exists>latest. foldM_res ScanStep rows [] = Inr latest \<and> distinct (map fst latest) \<and> map_of latest = last_sealed rows"
  using assms
proof (induction rows rule: rev_induct)
  case (snoc r rows)
  then obtain latest where l: "foldM_res ScanStep rows [] = Inr latest" "distinct (map fst latest)"
    "map_of latest = last_sealed rows" by (auto simp: log_ok_snoc)
  from ScanStep_snoc [OF snoc.prems l(2,3)] l(1) show ?case by (auto simp: foldM_res_append)
qed (simp add: fun_eq_iff)

lemma ScanVisibleRows_eq:
  assumes "log_ok (rt_rows t)"
  shows "\<exists>vs. ScanVisibleRows t b = Inr vs \<and> sorted (map rv_primary_key vs) \<and> distinct (map rv_primary_key vs)
    \<and> (\<forall>k v. (v \<in> set vs \<and> rv_primary_key v = k) \<longleftrightarrow>
        (\<exists>r. last_sealed (take b (rt_rows t)) k = Some r \<and> rv_primary_key v = k \<and> rv_position v = rr_position r
           \<and> rr_encoded r = Some (rv_encoded v)))"
proof -
  let ?rows = "take b (rt_rows t)"
  have rows: "take (min b (length (rt_rows t))) (rt_rows t) = ?rows" by (simp add: min_def)
  have ok: "log_ok ?rows" using assms by (rule log_ok_take)
  from ScanSteps_eq [OF ok] obtain latest where l: "foldM_res ScanStep ?rows [] = Inr latest"
    "distinct (map fst latest)" "map_of latest = last_sealed ?rows" by blast
  have mem: "(k, r) \<in> set latest \<longleftrightarrow> last_sealed ?rows k = Some r" for k r
    using l(2) unfolding l(3) [symmetric] by (simp add: map_of_eq_Some_iff)
  let ?v = "\<lambda>(k, r). \<lparr>rv_primary_key = k, rv_position = rr_position r, rv_encoded = the (rr_encoded r)\<rparr>"
  have enc: "\<exists>e. rr_encoded r = Some e" if "(k, r) \<in> set latest" for k r
    using that last_sealed_SomeD [of ?rows k r] ok unfolding mem log_ok_def by auto
  have map: "mapM_res VisibleRow latest = Inr (map ?v latest)"
    by (rule mapM_res_map) (use enc in \<open>fastforce simp: VisibleRow_def split: option.splits\<close>)
  let ?vs = "sort_key rv_primary_key (map ?v latest)"
  have "map rv_primary_key (map ?v latest) = map fst latest" by (simp add: comp_def case_prod_beta)
  then have "distinct (map rv_primary_key (map ?v latest))" using l(2) by (simp only:)
  then have "distinct (map rv_primary_key ?vs)" by (simp only: distinct_map distinct_sort set_sort)
  moreover have "ScanVisibleRows t b = Inr ?vs" using l(1) map by (simp add: ScanVisibleRows_def rows)
  moreover have "(v \<in> set ?vs \<and> rv_primary_key v = k) \<longleftrightarrow>
      (\<exists>r. last_sealed ?rows k = Some r \<and> rv_primary_key v = k \<and> rv_position v = rr_position r
         \<and> rr_encoded r = Some (rv_encoded v))" for k v
  proof -
    have "v \<in> set ?vs \<and> rv_primary_key v = k \<longleftrightarrow> (\<exists>r. (k, r) \<in> set latest \<and> v = ?v (k, r))" by auto
    also have "\<dots> \<longleftrightarrow> (\<exists>r. last_sealed ?rows k = Some r \<and> rv_primary_key v = k \<and> rv_position v = rr_position r
         \<and> rr_encoded r = Some (rv_encoded v))"
      using enc unfolding mem by (cases v) fastforce
    finally show ?thesis .
  qed
  ultimately show ?thesis by (intro exI [of _ ?vs]) simp
qed

section \<open>Publishing to the table\<close>

lemma BuildRowRef_Inr:
  "BuildRowRef t k pos e = Inr r \<Longrightarrow>
   \<exists>L. rt_layout t = Some L \<and> IsValidSourcePosition pos \<and> MaterializeRow (Some L) e = Inr \<lparr>row_layout = Some L, row_encoded = Some e\<rparr>
     \<and> rr_primary_key r = k \<and> rr_position r = pos \<and> rr_encoded r = Some e \<and> \<not> rr_sealed_visible r"
  by (auto simp: BuildRowRef_def MaterializeRow_def split: option.splits if_splits)

lemma unsealed_simps [simp]:
  "rr_primary_key (unsealed r) = rr_primary_key r" "rr_position (unsealed r) = rr_position r"
  "rr_encoded (unsealed r) = rr_encoded r"
  "\<not> rr_sealed_visible r \<Longrightarrow> unsealed (r\<lparr>rr_sealed_visible := True\<rparr>) = r"
  by (simp_all add: unsealed_def)

lemma seal_last_snoc [simp]: "seal_last (rows @ [r]) = rows @ [r\<lparr>rr_sealed_visible := True\<rparr>]"
  by (simp add: seal_last_def)

lemma spec_publish_True:
  assumes "(Inr True, v') = spec_publish v r"
  shows "v' = v(rr_primary_key r \<mapsto> r)"
    and "v (rr_primary_key r) = Some c \<Longrightarrow> sp_partition (rr_position c) = sp_partition (rr_position r)
      \<and> sp_offset (rr_position c) < sp_offset (rr_position r)"
proof -
  show "v' = v(rr_primary_key r \<mapsto> r)"
    using assms by (auto simp: spec_publish_def split: option.splits sum.splits if_splits)
  assume "v (rr_primary_key r) = Some c"
  with assms have "ClassifySourcePositionUpdate (rr_position c) (rr_position r) = Inr kNewer"
    by (auto simp: spec_publish_def split: sum.splits if_splits)
  then show "sp_partition (rr_position c) = sp_partition (rr_position r)
      \<and> sp_offset (rr_position c) < sp_offset (rr_position r)" by (simp add: Classify_kNewer_iff)
qed

lemma spec_publish_same: "(res, v') = spec_publish v r \<Longrightarrow> res \<noteq> Inr True \<Longrightarrow> v' = v"
  by (auto simp: spec_publish_def split: option.splits sum.splits if_splits)

text \<open>One call of \<open>Publish\<close> in terms of the abstract update.\<close>

lemma rt_Publish_cases:
  assumes inv: "rt_inv t" and p: "rt_Publish t k pos e = (res, t')"
  obtains (rejected) x where "BuildRowRef t k pos e = Inl x" "res = Inl x" "t' = t"
  | (failed) x r m where "BuildRowRef t k pos e = Inr r" "res = Inl x" "t' = t\<lparr>rt_rows := rt_rows t @ [r], rt_map := m\<rparr>"
      "hm_inv m" "hm_abs m = hm_abs (rt_map t)" "\<not> rr_sealed_visible r"
      "x = capacity_exhausted \<and> m = rt_map t \<and> hm_abs m k = None
         \<and> (IsPowerOfTwo_size (hm_capacity m) \<longrightarrow> (\<forall>s < hm_capacity m. occupied_key m s \<noteq> None))
       \<or> spec_publish (hm_abs (rt_map t)) r = (Inl x, hm_abs m)"
  | (stale) r m where "BuildRowRef t k pos e = Inr r" "res = Inr ()" "rt_rows t' = rt_rows t @ [r]" "rt_map t' = m"
      "rt_layout t' = rt_layout t" "hm_inv m" "hm_abs m = hm_abs (rt_map t)" "\<not> rr_sealed_visible r"
      "spec_publish (hm_abs (rt_map t)) r = (Inr False, hm_abs m)"
  | (visible) r m where "BuildRowRef t k pos e = Inr r" "res = Inr ()"
      "rt_rows t' = rt_rows t @ [r\<lparr>rr_sealed_visible := True\<rparr>]" "rt_map t' = m"
      "rt_layout t' = rt_layout t" "hm_inv m" "\<not> rr_sealed_visible r"
      "(Inr True, hm_abs m) = spec_publish (hm_abs (rt_map t)) r"
proof (cases "BuildRowRef t k pos e")
  case (Inl x)
  show thesis by (rule rejected [OF Inl]) (use p Inl in \<open>simp_all add: rt_Publish_def\<close>)
next
  case (Inr r)
  from BuildRowRef_Inr [OF Inr] have r: "rr_primary_key r = k" "IsValidSourcePosition (rr_position r)"
    "\<not> rr_sealed_visible r" by auto
  obtain pr m where pm: "PublishAndReport (rt_map t) k (Some r) = (pr, m)" by fastforce
  have "hm_inv (rt_map t)" using inv by (simp add: rt_inv_def)
  note S = PublishAndReport_spec [OF this r(2), of pr m, unfolded r(1), OF pm]
  show thesis
  proof (cases pr)
    case (Inl x)
    have "hm_abs m = hm_abs (rt_map t)" using S(2) Inl spec_publish_same [of pr] by auto
    moreover have "res = Inl x" "t' = t\<lparr>rt_rows := rt_rows t @ [r], rt_map := m\<rparr>"
      using p pm Inl \<open>BuildRowRef t k pos e = Inr r\<close> by (auto simp: rt_Publish_def Let_def)
    moreover have "x = capacity_exhausted \<and> m = rt_map t \<and> hm_abs m k = None
         \<and> (IsPowerOfTwo_size (hm_capacity m) \<longrightarrow> (\<forall>s < hm_capacity m. occupied_key m s \<noteq> None))
       \<or> spec_publish (hm_abs (rt_map t)) r = (Inl x, hm_abs m)"
      using S(2) Inl by auto
    ultimately show thesis using failed [OF \<open>BuildRowRef t k pos e = Inr r\<close> _ _ S(1) _ r(3)] by blast
  next
    case (Inr b)
    then have sp: "(pr, hm_abs m) = spec_publish (hm_abs (rt_map t)) r" using S(2) by auto
    show thesis
    proof (cases b)
      case True
      with sp Inr \<open>BuildRowRef t k pos e = Inr r\<close> p pm S(1) r(3) show thesis
        by (intro visible [of r m]) (auto simp: rt_Publish_def Let_def)
    next
      case False
      with sp spec_publish_same [OF sp] Inr \<open>BuildRowRef t k pos e = Inr r\<close> p pm S(1) r(3) show thesis
        by (intro stale [of r m]) (auto simp: rt_Publish_def Let_def)
    qed
  qed
qed

lemma rt_Publish_inv:
  assumes inv: "rt_inv t" and p: "rt_Publish t k pos e = (res, t')"
  shows "rt_inv t'" and "rt_layout t' = rt_layout t" and "\<exists>xs. rt_rows t' = rt_rows t @ xs"
proof -
  have "rt_inv t' \<and> rt_layout t' = rt_layout t \<and> (\<exists>xs. rt_rows t' = rt_rows t @ xs)"
    using inv p
  proof (cases rule: rt_Publish_cases)
    case (visible r m)
    from BuildRowRef_Inr [OF visible(1)] have r: "rr_primary_key r = k" "IsValidSourcePosition (rr_position r)"
      "rr_encoded r = Some e" by auto
    have old: "hm_abs (rt_map t) k' = map_option unsealed (last_sealed (rt_rows t) k')" for k'
      using inv by (simp add: rt_inv_def)
    have "log_ok (rt_rows t')"
      unfolding visible(3) log_ok_snoc
      using inv r spec_publish_True(2) [OF visible(8)] old [of k] by (auto simp: rt_inv_def)
    moreover have "hm_abs (rt_map t') k' = map_option unsealed (last_sealed (rt_rows t') k')" for k'
      using spec_publish_True(1) [OF visible(8)] old [of k'] r visible(3,4,7) by auto
    ultimately show ?thesis using visible by (auto simp: rt_inv_def)
  qed (use inv in \<open>auto simp: rt_inv_def log_ok_snoc\<close>)
  then show "rt_inv t'" "rt_layout t' = rt_layout t" "\<exists>xs. rt_rows t' = rt_rows t @ xs" by auto
qed

lemma rt_Get_eq:
  assumes "rt_inv t" and "rt_layout t = Some L"
  shows "rt_Get t k = Inr (map_option (\<lambda>r. \<lparr>row_layout = Some L, row_encoded = rr_encoded r\<rparr>) (last_sealed (rt_rows t) k))"
proof (cases "last_sealed (rt_rows t) k")
  case None
  then show ?thesis using assms hm_Get_eq [of "rt_map t" k] by (simp add: rt_Get_def rt_inv_def)
next
  case (Some r)
  then have "rr_encoded r \<noteq> None" using last_sealed_SomeD [OF Some] assms(1) by (auto simp: rt_inv_def log_ok_def)
  then show ?thesis using Some assms hm_Get_eq [of "rt_map t" k] by (auto simp: rt_Get_def rt_inv_def)
qed

lemma rt_inv_new: "capacity < 2 ^ 64 \<Longrightarrow> rt_inv (NewRealtimeDeltaAtomicTable layout capacity seed version)"
proof -
  assume "capacity < 2 ^ 64"
  then have inv: "hm_inv (NewRealtimeAtomicHashMap capacity seed version)"
    by (auto simp: hm_inv_def NewRealtimeAtomicHashMap_def slot_ok_def empty_slot_def probe_inv_def occupied_key_def)
  moreover have "hm_abs (NewRealtimeAtomicHashMap capacity seed version) k = None" for k
    using inv by (rule hm_abs_miss) (simp add: occupied_key_def NewRealtimeAtomicHashMap_def empty_slot_def)
  ultimately show ?thesis by (simp add: rt_inv_def NewRealtimeDeltaAtomicTable_def log_ok_def)
qed


section \<open>Properties of the realtime table\<close>

lemma rt_run_inv:
  assumes "rt_inv t" and "rt_run ps t = (ress, t')"
  shows "rt_inv t'" and "rt_layout t' = rt_layout t" and "\<exists>xs. rt_rows t' = rt_rows t @ xs"
proof -
  have "rt_inv t' \<and> rt_layout t' = rt_layout t \<and> (\<exists>xs. rt_rows t' = rt_rows t @ xs)"
    using assms
  proof (induction ps arbitrary: t ress)
    case (Cons p ps)
    obtain k pos e where p: "p = (k, pos, e)" by (cases p) auto
    obtain res t1 where 1: "rt_Publish t k pos e = (res, t1)" by fastforce
    obtain rs where 2: "rt_run ps t1 = (rs, t')" using Cons.prems(2) 1 by (auto simp: p split: prod.splits)
    note P = rt_Publish_inv [OF Cons.prems(1) 1]
    from Cons.IH [OF P(1) 2] P(2,3) show ?case by auto
  qed simp
  then show "rt_inv t'" "rt_layout t' = rt_layout t" "\<exists>xs. rt_rows t' = rt_rows t @ xs" by auto
qed

lemma rt_Publish_view:
  assumes inv: "rt_inv t" and p: "rt_Publish t k pos e = (Inr (), t')"
  shows "rt_view t' = newer_wins (k, pos, e) (rt_view t)"
  using inv p
proof (cases rule: rt_Publish_cases)
  case (stale r m)
  from BuildRowRef_Inr [OF stale(1)] have r: "rr_primary_key r = k" "rr_position r = pos" by auto
  from stale(9) r inv obtain c where c: "last_sealed (rt_rows t) k = Some c"
    "\<exists>d. ClassifySourcePositionUpdate (rr_position c) pos = Inr d \<and> d \<noteq> kNewer"
    by (auto simp: spec_publish_def rt_inv_def split: option.splits sum.splits if_splits)
  from c(2) have "sp_offset pos \<le> sp_offset (rr_position c)" unfolding Classify_not_newer_iff by simp
  with c(1) stale(3,8) show ?thesis by (auto simp: rt_view_def fun_eq_iff)
next
  case (visible r m)
  from BuildRowRef_Inr [OF visible(1)] have r: "rr_primary_key r = k" "rr_position r = pos" "rr_encoded r = Some e" by auto
  have old: "hm_abs (rt_map t) k = map_option unsealed (last_sealed (rt_rows t) k)" using inv by (simp add: rt_inv_def)
  have lt: "sp_offset (rr_position c) < sp_offset pos" if "last_sealed (rt_rows t) k = Some c" for c
    using spec_publish_True(2) [OF visible(8), of "unsealed c"] old that r by simp
  have new: "rt_view t' = (rt_view t)(k \<mapsto> (pos, e))"
    using r visible(3) by (auto simp: rt_view_def fun_eq_iff)
  show ?thesis
    using lt by (cases "last_sealed (rt_rows t) k") (simp_all add: new, simp_all add: rt_view_def)
qed simp_all

lemma rt_run_view:
  assumes "rt_inv t" and "rt_run ps t = (ress, t')" and "\<forall>res \<in> set ress. res = Inr ()"
  shows "rt_view t' = fold newer_wins ps (rt_view t)"
  using assms
proof (induction ps arbitrary: t ress)
  case (Cons p ps)
  obtain k pos e where p: "p = (k, pos, e)" by (cases p) auto
  obtain res t1 where 1: "rt_Publish t k pos e = (res, t1)" by fastforce
  obtain rs where 2: "rt_run ps t1 = (rs, t')" "ress = res # rs" using Cons.prems(2) 1 by (auto simp: p split: prod.splits)
  with Cons.prems(3) have res: "res = Inr ()" "\<forall>res \<in> set rs. res = Inr ()" by auto
  from Cons.IH [OF rt_Publish_inv(1) [OF Cons.prems(1) 1] 2(1) res(2)] rt_Publish_view [OF Cons.prems(1) 1 [unfolded res(1)]]
  show ?case by (simp add: p)
qed simp

lemma rt_Get_view:
  assumes "rt_inv t" and "rt_layout t = Some L"
  shows "rt_Get t k = Inr (map_option (\<lambda>(pos, e). \<lparr>row_layout = Some L, row_encoded = Some e\<rparr>) (rt_view t k))"
proof (cases "last_sealed (rt_rows t) k")
  case (Some r)
  then have "rr_encoded r \<noteq> None" using last_sealed_SomeD [OF Some] assms(1) by (auto simp: rt_inv_def log_ok_def)
  with Some rt_Get_eq [OF assms] show ?thesis by (auto simp: rt_view_def)
qed (simp add: rt_Get_eq [OF assms] rt_view_def)

text \<open>
  C3. A table to which rows were published, in any order, answers every key with the published row of
  the greatest offset (the first one among equal offsets) and nothing for a key never published.
\<close>

theorem realtime_newest_wins:
  assumes "rt_run ps (NewRealtimeDeltaAtomicTable (Some L) capacity seed version) = (ress, t)"
    and "capacity < 2 ^ 64" and "\<forall>res \<in> set ress. res = Inr ()"
  shows "rt_Get t k = Inr (map_option (\<lambda>(pos, e). \<lparr>row_layout = Some L, row_encoded = Some e\<rparr>)
    (fold newer_wins ps Map.empty k))"
proof -
  let ?t0 = "NewRealtimeDeltaAtomicTable (Some L) capacity seed version"
  have inv: "rt_inv ?t0" using assms(2) by (rule rt_inv_new)
  have "rt_view ?t0 = Map.empty" by (simp add: rt_view_def NewRealtimeDeltaAtomicTable_def fun_eq_iff)
  then have "rt_view t = fold newer_wins ps Map.empty" using rt_run_view [OF inv assms(1,3)] by simp
  moreover have "rt_layout t = Some L"
    using rt_run_inv(2) [OF inv assms(1)] by (simp add: NewRealtimeDeltaAtomicTable_def)
  ultimately show ?thesis using rt_Get_view [OF rt_run_inv(1) [OF inv assms(1)]] by simp
qed

text \<open>
  C21. A publish call that fails leaves the answer for every key unchanged; it reports an exhausted
  table of power-of-two capacity only when every slot is taken.
\<close>

theorem realtime_failed_publish:
  assumes "rt_inv t" and "rt_Publish t k pos e = (Inl x, t')"
  shows "rt_Get t' k' = rt_Get t k' \<and> rt_inv t' \<and>
    (x = capacity_exhausted \<longrightarrow> IsPowerOfTwo_size (hm_capacity (rt_map t)) \<longrightarrow>
       (\<forall>s < hm_capacity (rt_map t). occupied_key (rt_map t) s \<noteq> None))"
proof -
  have inv': "rt_inv t'" and lay: "rt_layout t' = rt_layout t" by (rule rt_Publish_inv [OF assms])+
  have "rt_view t' = rt_view t \<and> (x = capacity_exhausted \<longrightarrow> IsPowerOfTwo_size (hm_capacity (rt_map t)) \<longrightarrow>
       (\<forall>s < hm_capacity (rt_map t). occupied_key (rt_map t) s \<noteq> None))"
    using assms
  proof (cases rule: rt_Publish_cases)
    case (rejected y)
    then show ?thesis
      by (auto simp: BuildRowRef_def MaterializeRow_def capacity_exhausted_def rbind_eq_Inl split: option.splits if_splits)
  next
    case (failed y r m)
    then show ?thesis
      by (auto simp: rt_view_def fun_eq_iff spec_publish_def ClassifySourcePositionUpdate_def capacity_exhausted_def
          split: option.splits sum.splits if_splits)
  qed simp_all
  moreover have "rt_Get t' k' = rt_Get t k'" if "rt_view t' = rt_view t"
  proof (cases "rt_layout t")
    case (Some L)
    then show ?thesis using rt_Get_view [OF assms(1) Some] rt_Get_view [OF inv', of L] lay that by simp
  qed (simp add: rt_Get_def lay)
  ultimately show ?thesis using inv' by blast
qed

text \<open>
  C19. A scan up to a compaction boundary lists, in key order and once per key, exactly the rows that
  were visible when the boundary was captured, whatever was published since.
\<close>

theorem scan_boundary_stable:
  assumes inv: "rt_inv t" and L: "rt_layout t = Some L" and run: "rt_run ps t = (ress, t')"
  shows "\<exists>vs. ScanVisibleRows t' (CaptureCompactionBoundary t) = Inr vs \<and> sorted (map rv_primary_key vs)
    \<and> distinct (map rv_primary_key vs)
    \<and> (\<forall>k e. (\<exists>v \<in> set vs. rv_primary_key v = k \<and> rv_encoded v = e)
         \<longleftrightarrow> rt_Get t k = Inr (Some \<lparr>row_layout = Some L, row_encoded = Some e\<rparr>))"
proof -
  note R = rt_run_inv [OF inv run]
  then obtain xs where "rt_rows t' = rt_rows t @ xs" by blast
  then have tk: "take (CaptureCompactionBoundary t) (rt_rows t') = rt_rows t" by (simp add: CaptureCompactionBoundary_def)
  have "log_ok (rt_rows t')" using R(1) by (simp add: rt_inv_def)
  from ScanVisibleRows_eq [OF this, of "CaptureCompactionBoundary t", unfolded tk] obtain vs
    where vs: "ScanVisibleRows t' (CaptureCompactionBoundary t) = Inr vs" "sorted (map rv_primary_key vs)"
      "distinct (map rv_primary_key vs)"
      and mem: "\<And>k v. (v \<in> set vs \<and> rv_primary_key v = k) \<longleftrightarrow>
        (\<exists>r. last_sealed (rt_rows t) k = Some r \<and> rv_primary_key v = k \<and> rv_position v = rr_position r
           \<and> rr_encoded r = Some (rv_encoded v))" by blast
  have "(\<exists>v \<in> set vs. rv_primary_key v = k \<and> rv_encoded v = e)
      \<longleftrightarrow> rt_Get t k = Inr (Some \<lparr>row_layout = Some L, row_encoded = Some e\<rparr>)" for k e
  proof
    assume "\<exists>v \<in> set vs. rv_primary_key v = k \<and> rv_encoded v = e"
    with mem show "rt_Get t k = Inr (Some \<lparr>row_layout = Some L, row_encoded = Some e\<rparr>)"
      by (auto simp: rt_Get_eq [OF inv L])
  next
    assume "rt_Get t k = Inr (Some \<lparr>row_layout = Some L, row_encoded = Some e\<rparr>)"
    then obtain r where "last_sealed (rt_rows t) k = Some r" "rr_encoded r = Some e"
      by (auto simp: rt_Get_eq [OF inv L])
    then show "\<exists>v \<in> set vs. rv_primary_key v = k \<and> rv_encoded v = e"
      using mem [of "\<lparr>rv_primary_key = k, rv_position = rr_position r, rv_encoded = e\<rparr>" k]
      by (intro bexI [of _ "\<lparr>rv_primary_key = k, rv_position = rr_position r, rv_encoded = e\<rparr>"]) auto
  qed
  with vs show ?thesis by blast
qed


text \<open>A key for every hash value.\<close>

lemma StableHash64_surj: "\<exists>k. StableHash64 k seed version = h"
proof -
  have "inj (\<lambda>k. StableHash64 k seed version)" by (rule injI) (rule StableHash64_inj)
  then have "surj (\<lambda>k. StableHash64 k seed version)" by (simp add: finite_UNIV_inj_surj)
  from surjD [OF this, of h] show ?thesis by auto
qed

text \<open>
  C32. With a capacity that is not a power of two the probe sequence can miss a slot, because the sum of
  hash and probe wraps at \<open>2 ^ 64\<close> before the remainder is taken: a map with a free slot reports an
  exhausted capacity.
\<close>

theorem probe_skips_slots:
  "\<exists>m k r. hm_inv m \<and> hm_capacity m = 3 \<and> hm_abs m k = None \<and> sl_state (hm_slots m ! 2) = kEmpty
     \<and> IsValidSourcePosition (rr_position r) \<and> rr_primary_key r = k
     \<and> PublishAndReport m k (Some r) = (Inl capacity_exhausted, m)"
proof -
  obtain k0 where k0: "StableHash64 k0 0 1 = 0" using StableHash64_surj by blast
  obtain k1 where k1: "StableHash64 k1 0 1 = 1" using StableHash64_surj by blast
  obtain k where k: "StableHash64 k 0 1 = -1" using StableHash64_surj by blast
  have ne: "k \<noteq> k0" "k \<noteq> k1" "k0 \<noteq> k1" using k k0 k1 by auto
  let ?p = "\<lparr>sp_partition = 0, sp_offset = 0\<rparr>"
  let ?row = "\<lambda>k. \<lparr>rr_primary_key = k, rr_position = ?p, rr_encoded = None, rr_row_slot_bytes = 0,
     rr_payload_pool_bytes = 0, rr_sealed_visible = False\<rparr>"
  let ?slot = "\<lambda>k. \<lparr>sl_state = kOccupied, sl_primary_key = k, sl_latest_row = Some (?row k)\<rparr>"
  define m where "m = \<lparr>hm_slots = [?slot k0, ?slot k1, empty_slot], hm_capacity = 3, hm_hash_seed = 0,
     hm_hash_version = 1, hm_unique_key_count = 2\<rparr>"
  have cap: "hm_capacity m = 3" by (simp add: m_def)
  have np: "\<not> IsPowerOfTwo_size 3"
  proof -
    have "(3 :: nat) AND 2 = 2" by simp
    then show ?thesis by (simp add: IsPowerOfTwo_size_def)
  qed
  have idx: "ProbeIndex m x i = unat (StableHash64 x 0 1 + of_nat i) mod 3" for x i
    using np by (simp add: ProbeIndex_def m_def)
  have home: "ProbeIndex m k0 0 = 0" "ProbeIndex m k1 0 = 1" by (simp_all add: idx k0 k1)
  have probes: "ProbeIndex m k 0 = 0" "ProbeIndex m k 1 = 0" "ProbeIndex m k 2 = 1" by (simp_all add: idx k)
  have T: "occupied_key m 0 = Some k0" "occupied_key m 1 = Some k1" "occupied_key m 2 = None"
    by (simp_all add: occupied_key_def m_def empty_slot_def)
  have three: "s < 3 \<Longrightarrow> s = 0 \<or> s = 1 \<or> s = 2" for s :: nat by auto
  have "probe_inv 3 (ProbeIndex m) (occupied_key m)"
    unfolding probe_inv_def
  proof (intro allI impI)
    fix s x assume "s < (3 :: nat)" "occupied_key m s = Some x"
    with three [of s] T home show "\<exists>i < 3. ProbeIndex m x i = s \<and> passed_over (occupied_key m) (ProbeIndex m) x i"
      by (intro exI [of _ 0]) auto
  qed
  then have inv: "hm_inv m"
    by (auto simp: hm_inv_def m_def slot_ok_def empty_slot_def IsValidSourcePosition_def)
  have "hm_abs m k = None"
    by (rule hm_abs_miss [OF inv]) (use three T ne in \<open>fastforce simp: cap\<close>)
  moreover have "PublishFrom m k (?row k) 0 3 = (Inl capacity_exhausted, m)"
  proof -
    have s: "hm_slots m ! 0 = ?slot k0" "hm_slots m ! 1 = ?slot k1" by (simp_all add: m_def)
    show ?thesis using probes s ne by (simp add: eval_nat_numeral Let_def)
  qed
  then have "PublishAndReport m k (Some (?row k)) = (Inl capacity_exhausted, m)"
    by (simp add: PublishAndReport_def IsValidSourcePosition_def cap)
  ultimately show ?thesis
    using inv by (intro exI [of _ m] exI [of _ k] exI [of _ "?row k"]) (simp add: m_def empty_slot_def IsValidSourcePosition_def)
qed


lemma demo_run_ok:
  "fst (rt_run demo_publishes (NewRealtimeDeltaAtomicTable (Some empty_layout) 4 0 1)) = [Inr (), Inr (), Inr ()]"
  by code_simp


lemma demo_run:
  obtains ress t where "rt_run demo_publishes (NewRealtimeDeltaAtomicTable (Some empty_layout) 4 0 1) = (ress, t)"
    and "\<forall>res \<in> set ress. res = Inr ()"
  using demo_run_ok by (metis insertE list.set(1,2) prod.collapse empty_iff)

theorem realtime_newest_wins_witness:
  "\<exists>ress t. rt_run demo_publishes (NewRealtimeDeltaAtomicTable (Some empty_layout) 4 0 1) = (ress, t)
    \<and> rt_Get t 7 = Inr (Some \<lparr>row_layout = Some empty_layout, row_encoded = Some (empty_row [1])\<rparr>)
    \<and> rt_Get t 8 = Inr None"
proof -
  obtain ress t where r: "rt_run demo_publishes (NewRealtimeDeltaAtomicTable (Some empty_layout) 4 0 1) = (ress, t)"
    "\<forall>res \<in> set ress. res = Inr ()" by (rule demo_run)
  have "rt_Get t k = Inr (map_option (\<lambda>(pos, e). \<lparr>row_layout = Some empty_layout, row_encoded = Some e\<rparr>)
    (fold newer_wins demo_publishes Map.empty k))" for k
    using realtime_newest_wins [OF r(1) _ r(2)] by simp
  with r(1) show ?thesis
    by (intro exI [of _ ress] exI [of _ t]) (simp add: demo_publishes_def at_offset_def)
qed

theorem realtime_failed_publish_witness:
  "\<exists>t t'. rt_Publish (NewRealtimeDeltaAtomicTable (Some empty_layout) 1 0 1) 7 (at_offset 5) (empty_row [1]) = (Inr (), t)
    \<and> rt_Publish t 8 (at_offset 6) (empty_row [2]) = (Inl capacity_exhausted, t')
    \<and> rt_Get t' 7 = Inr (Some \<lparr>row_layout = Some empty_layout, row_encoded = Some (empty_row [1])\<rparr>)
    \<and> rt_Get t' 8 = Inr None \<and> occupied_key (rt_map t) 0 \<noteq> None"
proof -
  let ?n = "NewRealtimeDeltaAtomicTable (Some empty_layout) 1 0 1"
  let ?p = "rt_Publish ?n 7 (at_offset 5) (empty_row [1])"
  have "fst ?p = Inr ()" by code_simp
  then obtain t where t: "?p = (Inr (), t)" by (metis prod.collapse)
  have r: "fst (rt_Publish (snd ?p) 8 (at_offset 6) (empty_row [2])) = Inl capacity_exhausted"
    "hm_capacity (rt_map (snd ?p)) = 1" "rt_Get (snd ?p) 8 = Inr None"
    "rt_Get (snd ?p) 7 = Inr (Some \<lparr>row_layout = Some empty_layout, row_encoded = Some (empty_row [1])\<rparr>)"
    by code_simp+
  obtain t' where t': "rt_Publish t 8 (at_offset 6) (empty_row [2]) = (Inl capacity_exhausted, t')"
    using r(1) unfolding t by (metis prod.collapse snd_conv)
  have inv: "rt_inv t" by (rule rt_Publish_inv(1) [OF _ t]) (rule rt_inv_new, simp)
  note F = realtime_failed_publish [OF inv t']
  have "IsPowerOfTwo_size 1" by (simp add: IsPowerOfTwo_size_def)
  with F [of 7] F [of 8] r t t' show ?thesis by auto
qed

theorem scan_boundary_stable_witness:
  "\<exists>t ress t' vs. rt_run [(7, at_offset 9, empty_row [4])] t = (ress, t')
    \<and> ScanVisibleRows t' (CaptureCompactionBoundary t) = Inr vs \<and> sorted (map rv_primary_key vs)
    \<and> (\<exists>v \<in> set vs. rv_primary_key v = 7 \<and> rv_encoded v = empty_row [1])"
proof -
  obtain ress t where r: "rt_run demo_publishes (NewRealtimeDeltaAtomicTable (Some empty_layout) 4 0 1) = (ress, t)"
    "\<forall>res \<in> set ress. res = Inr ()" by (rule demo_run)
  have inv0: "rt_inv (NewRealtimeDeltaAtomicTable (Some empty_layout) 4 0 1)" by (rule rt_inv_new) simp
  have inv: "rt_inv t" and L: "rt_layout t = Some empty_layout"
    using rt_run_inv(1,2) [OF inv0 r(1)] by (simp_all add: NewRealtimeDeltaAtomicTable_def)
  have "rt_view (NewRealtimeDeltaAtomicTable (Some empty_layout) 4 0 1) = Map.empty"
    by (simp add: rt_view_def NewRealtimeDeltaAtomicTable_def fun_eq_iff)
  then have "rt_Get t 7 = Inr (Some \<lparr>row_layout = Some empty_layout, row_encoded = Some (empty_row [1])\<rparr>)"
    using rt_Get_view [OF inv L, of 7] rt_run_view [OF inv0 r] by (simp add: demo_publishes_def at_offset_def)
  moreover obtain ress' t' where run: "rt_run [(7, at_offset 9, empty_row [4])] t = (ress', t')" by fastforce
  ultimately show ?thesis using scan_boundary_stable [OF inv L run] run by blast
qed

theorem concurrent_get_witness:
  "\<exists>m' s. PublishAndReport (NewRealtimeAtomicHashMap 4 0 1) 7 (Some \<lparr>rr_primary_key = 7, rr_position = at_offset 5,
       rr_encoded = None, rr_row_slot_bytes = 0, rr_payload_pool_bytes = 0, rr_sealed_visible = False\<rparr>) = (Inr True, m')
    \<and> (\<forall>m1 \<in> set (publish_trace (NewRealtimeAtomicHashMap 4 0 1) s 7 \<lparr>rr_primary_key = 7, rr_position = at_offset 5,
       rr_encoded = None, rr_row_slot_bytes = 0, rr_payload_pool_bytes = 0, rr_sealed_visible = False\<rparr>).
        hm_Get m1 7 = Inr None \<or> hm_Get m1 7 = hm_Get m' 7)"
proof -
  let ?r = "\<lparr>rr_primary_key = 7, rr_position = at_offset 5,
       rr_encoded = None, rr_row_slot_bytes = 0, rr_payload_pool_bytes = 0, rr_sealed_visible = False\<rparr>"
  let ?m = "NewRealtimeAtomicHashMap 4 0 1"
  have "fst (PublishAndReport ?m 7 (Some ?r)) = Inr True" by code_simp
  then obtain m' where p: "PublishAndReport ?m 7 (Some ?r) = (Inr True, m')" by (metis prod.collapse)
  have "rt_inv (NewRealtimeDeltaAtomicTable None 4 0 1)" by (rule rt_inv_new) simp
  then have inv: "hm_inv ?m" by (simp add: rt_inv_def NewRealtimeDeltaAtomicTable_def)
  have "hm_abs ?m 7 = None"
    by (rule hm_abs_miss [OF inv]) (simp add: occupied_key_def NewRealtimeAtomicHashMap_def empty_slot_def)
  with concurrent_get [OF inv this p, of 7] p hm_Get_eq [OF inv, of 7] show ?thesis by auto
qed

text \<open>Every row of the log fits the layout of the table and materializes there.\<close>

definition rows_fit :: "RealtimeDeltaAtomicTable \<Rightarrow> bool" where
  "rows_fit t \<longleftrightarrow> (\<forall>r \<in> set (rt_rows t). \<exists>L e. rt_layout t = Some L \<and> rr_encoded r = Some e
     \<and> length (er_row_slot e) = cl_row_slot_size L \<and> er_schema_version e = cl_schema_version L
     \<and> er_layout_fingerprint e = cl_layout_fingerprint L
     \<and> MaterializeRow (Some L) e = Inr \<lparr>row_layout = Some L, row_encoded = Some e\<rparr>)"

section \<open>The published rows fit the layout\<close>

lemma rows_fit_new: "rows_fit (NewRealtimeDeltaAtomicTable layout capacity seed version)"
  by (simp add: rows_fit_def NewRealtimeDeltaAtomicTable_def)

lemma rt_Publish_rows_fit:
  assumes "rows_fit t" and "rt_Publish t k pos e = (res, t')"
  shows "rows_fit t'"
proof (cases "BuildRowRef t k pos e")
  case (Inl x)
  then show ?thesis using assms by (simp add: rt_Publish_def)
next
  case (Inr r)
  then obtain L where L: "rt_layout t = Some L" "rr_encoded r = Some e" "length (er_row_slot e) = cl_row_slot_size L"
    "er_schema_version e = cl_schema_version L" "er_layout_fingerprint e = cl_layout_fingerprint L"
    "MaterializeRow (Some L) e = Inr \<lparr>row_layout = Some L, row_encoded = Some e\<rparr>"
    using BuildRowRef_Inr [OF Inr] by (auto simp: BuildRowRef_def split: if_splits)
  have "rt_layout t' = rt_layout t \<and> (\<exists>b. rt_rows t' = rt_rows t @ [r\<lparr>rr_sealed_visible := b\<rparr>])"
    using assms(2) Inr
    by (auto simp: rt_Publish_def Let_def split: prod.splits sum.splits if_splits)
      (metis RealtimeRowRef.surjective RealtimeRowRef.update_convs(6))+
  with assms(1) L show ?thesis by (auto simp: rows_fit_def)
qed

lemma rt_run_rows_fit:
  assumes "rows_fit t" and "rt_run ps t = (ress, t')"
  shows "rows_fit t'"
  using assms
proof (induction ps arbitrary: t ress)
  case (Cons p ps)
  obtain k pos e where p: "p = (k, pos, e)" by (metis prod_cases3)
  with Cons.prems obtain res t1 ress1 where "rt_Publish t k pos e = (res, t1)" "rt_run ps t1 = (ress1, t')"
    by (auto split: prod.splits)
  with Cons.IH rt_Publish_rows_fit [OF Cons.prems(1)] show ?case by blast
qed simp

lemma rt_view_fits:
  assumes "rows_fit t" and "rt_layout t = Some L" and "rt_view t k = Some (pos, e)"
  shows "length (er_row_slot e) = cl_row_slot_size L" and "er_schema_version e = cl_schema_version L"
    and "er_layout_fingerprint e = cl_layout_fingerprint L"
    and "MaterializeRow (Some L) e = Inr \<lparr>row_layout = Some L, row_encoded = Some e\<rparr>"
proof -
  from assms(3) obtain r where r: "last_sealed (rt_rows t) k = Some r" "e = the (rr_encoded r)"
    by (auto simp: rt_view_def)
  then have "r \<in> set (rt_rows t)" using last_sealed_SomeD by blast
  then obtain L' e' where "rt_layout t = Some L'" "rr_encoded r = Some e'" "length (er_row_slot e') = cl_row_slot_size L'"
    "er_schema_version e' = cl_schema_version L'" "er_layout_fingerprint e' = cl_layout_fingerprint L'"
    "MaterializeRow (Some L') e' = Inr \<lparr>row_layout = Some L', row_encoded = Some e'\<rparr>"
    using assms(1) unfolding rows_fit_def by blast
  with assms(2) r(2) show "length (er_row_slot e) = cl_row_slot_size L" "er_schema_version e = cl_schema_version L"
    "er_layout_fingerprint e = cl_layout_fingerprint L"
    "MaterializeRow (Some L) e = Inr \<lparr>row_layout = Some L, row_encoded = Some e\<rparr>" by auto
qed

text \<open>Publishing what is newer than the table overrides the table.\<close>

lemma newer_wins_domain: "dom v \<subseteq> dom (newer_wins p v)"
  by (cases p) (auto split: option.splits if_splits)

lemma newer_wins_add:
  assumes "\<And>pos' e'. v0 (fst p) = Some (pos', e') \<Longrightarrow> sp_offset pos' < sp_offset (fst (snd p))"
  shows "newer_wins p (v0 ++ v) = v0 ++ newer_wins p v"
  using assms by (cases p) (auto simp: fun_eq_iff map_add_def split: option.splits)

lemma fold_newer_wins_add:
  assumes "\<forall>p \<in> set ps. \<forall>pos' e'. v0 (fst p) = Some (pos', e') \<longrightarrow> sp_offset pos' < sp_offset (fst (snd p))"
  shows "fold newer_wins ps (v0 ++ v) = v0 ++ fold newer_wins ps v"
  using assms by (induction ps arbitrary: v) (simp_all add: newer_wins_add)

lemma fold_newer_wins_domain: "dom v \<subseteq> dom (fold newer_wins ps v)"
proof (induction ps arbitrary: v)
  case (Cons p ps)
  show ?case using newer_wins_domain [of v p] Cons [of "newer_wins p v"] by simp
qed simp

text \<open>A scan up to the boundary of \<open>t\<close>, taken later, gives the view of \<open>t\<close>.\<close>

lemma scan_view:
  assumes inv: "rt_inv t" and run: "rt_run ps t = (ress, t')"
  shows "\<exists>vs. ScanVisibleRows t' (CaptureCompactionBoundary t) = Inr vs \<and> distinct (map rv_primary_key vs)
    \<and> map_of (map (\<lambda>v. (rv_primary_key v, rv_encoded v)) vs) = (\<lambda>k. map_option snd (rt_view t k))"
proof -
  note R = rt_run_inv [OF inv run]
  then obtain xs where "rt_rows t' = rt_rows t @ xs" by blast
  then have tk: "take (CaptureCompactionBoundary t) (rt_rows t') = rt_rows t" by (simp add: CaptureCompactionBoundary_def)
  have log: "log_ok (rt_rows t')" "log_ok (rt_rows t)" using R(1) inv by (simp_all add: rt_inv_def)
  from ScanVisibleRows_eq [OF log(1), of "CaptureCompactionBoundary t", unfolded tk] obtain vs
    where vs: "ScanVisibleRows t' (CaptureCompactionBoundary t) = Inr vs" "distinct (map rv_primary_key vs)"
      and mem: "\<And>k v. (v \<in> set vs \<and> rv_primary_key v = k) \<longleftrightarrow>
        (\<exists>r. last_sealed (rt_rows t) k = Some r \<and> rv_primary_key v = k \<and> rv_position v = rr_position r
           \<and> rr_encoded r = Some (rv_encoded v))" by blast
  let ?m = "map (\<lambda>v. (rv_primary_key v, rv_encoded v)) vs"
  have d: "distinct (map fst ?m)" using vs(2) by (simp add: comp_def)
  have "map_of ?m k = Some e \<longleftrightarrow> map_option snd (rt_view t k) = Some e" for k e
  proof -
    have "map_of ?m k = Some e \<longleftrightarrow> (\<exists>v. (v \<in> set vs \<and> rv_primary_key v = k) \<and> rv_encoded v = e)"
      unfolding map_of_eq_Some_iff [OF d] by auto
    also have "\<dots> \<longleftrightarrow> (\<exists>r. last_sealed (rt_rows t) k = Some r \<and> rr_encoded r = Some e)" (is "_ \<longleftrightarrow> ?R")
    proof
      assume ?R
      then obtain r where "last_sealed (rt_rows t) k = Some r" "rr_encoded r = Some e" by blast
      then show "\<exists>v. (v \<in> set vs \<and> rv_primary_key v = k) \<and> rv_encoded v = e"
        unfolding mem by (intro exI [of _ "\<lparr>rv_primary_key = k, rv_position = rr_position r, rv_encoded = e\<rparr>"]) simp
    qed (auto simp: mem)
    also have "\<dots> \<longleftrightarrow> map_option snd (rt_view t k) = Some e"
      using log(2) last_sealed_SomeD [of "rt_rows t" k] by (fastforce simp: rt_view_def log_ok_def)
    finally show ?thesis .
  qed
  then have "map_of ?m = (\<lambda>k. map_option snd (rt_view t k))" by (metis (no_types) ext not_None_eq option.exhaust)
  with vs show ?thesis by blast
qed

end
