(* ===== verification/Frozen_Index.thy ===== *)
theory Frozen_Index
  imports Byte_IO Stable_Hash Linear_Probing
begin

text \<open>
  \<open>src/store/frozen_primary_key_index.{h,cc}\<close>: the serialised, immutable hash index from primary
  keys to row offsets that every snapshot carries. The bytes are an 80-byte header, one control
  byte per slot followed by a copy of the first sixteen control bytes, one 64-bit key per slot and
  one 64-bit row offset per slot. A control byte is \<open>0x80\<close> for an empty slot and the top seven
  bits of the key's hash otherwise; keys are placed by linear probing from \<open>hash & mask\<close>.

  Slot numbers, capacities and section offsets are 64-bit words as in the code. The loops that
  walk slots are recursions on the number of iterations left; the placement loop of the builder,
  which has no counter in the code, gives \<open>Diverge\<close> once it has looked at every slot.
\<close>

section \<open>Data\<close>

record FrozenPrimaryKeyIndexEntry =
  fe_primary_key :: u64
  fe_row_offset :: u64

record FrozenPrimaryKeyIndexBuildOptions =
  bo_hash_seed :: u64
  bo_hash_version :: u32
  bo_group_width :: u32

record FrozenPrimaryKeyIndexMetadata =
  md_row_count :: u64
  md_capacity :: u64
  md_hash_seed :: u64
  md_hash_version :: u32
  md_group_width :: u32
  md_control_offset :: u64
  md_key_offset :: u64
  md_row_offset_offset :: u64
  md_total_size :: u64

record FrozenPrimaryKeyIndexView =
  vw_bytes :: "byte list"
  vw_metadata :: FrozenPrimaryKeyIndexMetadata

definition kFrozenMagic :: u64 where "kFrozenMagic = 0x315844494b50564b"
definition kFrozenFormatVersion :: u32 where "kFrozenFormatVersion = 1"
definition kDefaultGroupWidth :: u32 where "kDefaultGroupWidth = 16"
definition kSerializedHeaderSize :: nat where "kSerializedHeaderSize = 80"
definition kEmptyControl :: u8 where "kEmptyControl = 0x80"

section \<open>Arithmetic helpers\<close>

definition H2 :: "u64 \<Rightarrow> u8" where
  "H2 hash = ucast (drop_bit 57 hash AND 0x7f)"

definition HasBytes64 :: "nat \<Rightarrow> u64 \<Rightarrow> u64 \<Rightarrow> bool" where
  "HasBytes64 sz offset byte_count \<longleftrightarrow>
     (if unat offset > sz then False else sz - unat offset \<ge> unat byte_count)"

definition size_overflows :: failure where
  "size_overflows = InvalidArgument ''frozen primary-key index size overflows''"

definition CheckedAdd :: "u64 \<Rightarrow> u64 \<Rightarrow> u64 res" where
  "CheckedAdd lhs rhs = (if lhs > (-1) - rhs then Inl size_overflows else Inr (lhs + rhs))"

definition CheckedMul :: "u64 \<Rightarrow> u64 \<Rightarrow> u64 res" where
  "CheckedMul lhs rhs =
     (if lhs \<noteq> 0 \<and> rhs > (-1) div lhs then Inl size_overflows else Inr (lhs * rhs))"

text \<open>The doubling loop; 64 rounds are enough for any start but zero.\<close>

fun GrowCapacity :: "nat \<Rightarrow> u64 \<Rightarrow> u64 \<Rightarrow> u64 res" where
  "GrowCapacity 0 capacity min_for_load = Inl Diverge"
| "GrowCapacity (Suc n) capacity min_for_load =
     (if capacity < min_for_load then
        (if capacity > (-1) div 2
         then Inl (InvalidArgument ''frozen index capacity is too large'')
         else GrowCapacity n (capacity * 2) min_for_load)
      else Inr capacity)"

definition CalculateCapacity :: "u64 \<Rightarrow> u32 \<Rightarrow> u64 res" where
  "CalculateCapacity row_count group_width =
     (if group_width = 0 \<or> group_width \<noteq> kDefaultGroupWidth
      then Inl (InvalidArgument ''unsupported frozen index group width'')
      else if row_count > ((-1) - 6) div 8
      then Inl (InvalidArgument ''frozen index row count is too large'')
      else GrowCapacity 64 (ucast group_width) ((row_count * 8 + 6) div 7))"

definition SlotOffset :: "u64 \<Rightarrow> u64 \<Rightarrow> nat" where
  "SlotOffset section_offset slot = unat (section_offset + slot * 8)"

section \<open>Header\<close>

definition WriteHeader :: "byte list \<Rightarrow> FrozenPrimaryKeyIndexMetadata \<Rightarrow> byte list res" where
  "WriteHeader bytes md =
     rbind (WriteLittleEndian kFrozenMagic bytes 0) (\<lambda>bytes.
     rbind (WriteLittleEndian kFrozenFormatVersion bytes 8) (\<lambda>bytes.
     rbind (WriteLittleEndian (of_nat kSerializedHeaderSize :: u32) bytes 12) (\<lambda>bytes.
     rbind (WriteLittleEndian (md_row_count md) bytes 16) (\<lambda>bytes.
     rbind (WriteLittleEndian (md_capacity md) bytes 24) (\<lambda>bytes.
     rbind (WriteLittleEndian (md_hash_seed md) bytes 32) (\<lambda>bytes.
     rbind (WriteLittleEndian (md_hash_version md) bytes 40) (\<lambda>bytes.
     rbind (WriteLittleEndian (md_group_width md) bytes 44) (\<lambda>bytes.
     rbind (WriteLittleEndian (md_control_offset md) bytes 48) (\<lambda>bytes.
     rbind (WriteLittleEndian (md_key_offset md) bytes 56) (\<lambda>bytes.
     rbind (WriteLittleEndian (md_row_offset_offset md) bytes 64) (\<lambda>bytes.
     WriteLittleEndian (md_total_size md) bytes 72)))))))))))"

definition ReadHeaderField :: "byte list \<Rightarrow> nat \<Rightarrow> 'a :: len word res" where
  "ReadHeaderField bytes offset =
     (case ReadLittleEndian bytes offset of
        Inl (Error code message) \<Rightarrow> Inl (InvalidArgument message)
      | r \<Rightarrow> r)"

definition ReadMetadata :: "byte list \<Rightarrow> FrozenPrimaryKeyIndexMetadata res" where
  "ReadMetadata bytes =
     rbind (reject (length bytes < kSerializedHeaderSize)
              (InvalidArgument ''frozen primary-key index header is truncated'')) (\<lambda>_.
     rbind (ReadHeaderField bytes 0) (\<lambda>magic.
     rbind (reject (magic \<noteq> kFrozenMagic)
              (InvalidArgument ''frozen primary-key index magic is invalid'')) (\<lambda>_.
     rbind (ReadHeaderField bytes 8) (\<lambda>format_version.
     rbind (reject (format_version \<noteq> kFrozenFormatVersion)
              (InvalidArgument ''frozen primary-key index version is unsupported'')) (\<lambda>_.
     rbind (ReadHeaderField bytes 12) (\<lambda>header_size :: u32.
     rbind (reject (header_size \<noteq> of_nat kSerializedHeaderSize)
              (InvalidArgument ''frozen primary-key index header size is invalid'')) (\<lambda>_.
     rbind (ReadHeaderField bytes 16) (\<lambda>row_count.
     rbind (ReadHeaderField bytes 24) (\<lambda>capacity.
     rbind (ReadHeaderField bytes 32) (\<lambda>hash_seed.
     rbind (ReadHeaderField bytes 40) (\<lambda>hash_version.
     rbind (ReadHeaderField bytes 44) (\<lambda>group_width.
     rbind (ReadHeaderField bytes 48) (\<lambda>control_offset.
     rbind (ReadHeaderField bytes 56) (\<lambda>key_offset.
     rbind (ReadHeaderField bytes 64) (\<lambda>row_offset_offset.
     rbind (ReadHeaderField bytes 72) (\<lambda>total_size.
     Inr \<lparr>md_row_count = row_count, md_capacity = capacity, md_hash_seed = hash_seed,
          md_hash_version = hash_version, md_group_width = group_width,
          md_control_offset = control_offset, md_key_offset = key_offset,
          md_row_offset_offset = row_offset_offset, md_total_size = total_size\<rparr>))))))))))))))))"

definition ValidateMetadata :: "FrozenPrimaryKeyIndexMetadata \<Rightarrow> nat \<Rightarrow> unit res" where
  "ValidateMetadata md byte_size =
     rbind (reject (md_group_width md \<noteq> kDefaultGroupWidth)
              (InvalidArgument ''frozen primary-key index group width is invalid'')) (\<lambda>_.
     rbind (reject (md_capacity md = 0 \<or> \<not> has_single_bit (md_capacity md))
              (InvalidArgument ''frozen primary-key index capacity is invalid'')) (\<lambda>_.
     rbind (reject (md_capacity md < ucast (md_group_width md))
              (InvalidArgument ''frozen primary-key index capacity is smaller than group width'')) (\<lambda>_.
     rbind (reject (md_row_count md > md_capacity md div 8 * 7)
              (InvalidArgument ''frozen primary-key index capacity is too small for row count'')) (\<lambda>_.
     rbind (CheckedAdd (md_capacity md) (ucast (md_group_width md))) (\<lambda>control_bytes.
     rbind (CheckedMul (md_capacity md) 8) (\<lambda>key_bytes.
     rbind (CheckedMul (md_capacity md) 8) (\<lambda>row_offset_bytes.
     rbind (CheckedAdd (md_control_offset md) control_bytes) (\<lambda>expected_key_offset.
     rbind (CheckedAdd (md_key_offset md) key_bytes) (\<lambda>expected_row_offset.
     rbind (CheckedAdd (md_row_offset_offset md) row_offset_bytes) (\<lambda>expected_total.
     rbind (reject (md_control_offset md \<noteq> of_nat kSerializedHeaderSize
                    \<or> md_key_offset md \<noteq> expected_key_offset
                    \<or> md_row_offset_offset md \<noteq> expected_row_offset
                    \<or> md_total_size md \<noteq> expected_total)
              (InvalidArgument ''frozen primary-key index section offsets are invalid'')) (\<lambda>_.
     rbind (reject (unat (md_total_size md) \<noteq> byte_size)
              (InvalidArgument ''frozen primary-key index byte size is invalid'')) (\<lambda>_.
     reject (\<not> HasBytes64 byte_size (md_control_offset md) control_bytes
             \<or> \<not> HasBytes64 byte_size (md_key_offset md) key_bytes
             \<or> \<not> HasBytes64 byte_size (md_row_offset_offset md) row_offset_bytes)
       (InvalidArgument ''frozen primary-key index section is truncated'')))))))))))))"

section \<open>The view\<close>

definition control_at :: "byte list \<Rightarrow> FrozenPrimaryKeyIndexMetadata \<Rightarrow> u64 \<Rightarrow> u8" where
  "control_at bytes md slot = bytes ! (unat (md_control_offset md) + unat slot)"

definition ReadKey :: "FrozenPrimaryKeyIndexView \<Rightarrow> u64 \<Rightarrow> u64 res" where
  "ReadKey v slot =
     (if slot \<ge> md_capacity (vw_metadata v)
      then Inl (InvalidArgument ''frozen primary-key index key slot is invalid'')
      else ReadHeaderField (vw_bytes v) (SlotOffset (md_key_offset (vw_metadata v)) slot))"

definition ReadRowOffset :: "FrozenPrimaryKeyIndexView \<Rightarrow> u64 \<Rightarrow> u64 res" where
  "ReadRowOffset v slot =
     (if slot \<ge> md_capacity (vw_metadata v)
      then Inl (InvalidArgument ''frozen primary-key index row-offset slot is invalid'')
      else ReadHeaderField (vw_bytes v) (SlotOffset (md_row_offset_offset (vw_metadata v)) slot))"

text \<open>
  The inner loop of \<open>Validate\<close>: walk from the home slot of a key towards the slot that holds
  it; an empty slot on the way makes the key unreachable.
\<close>

fun ProbeReaches :: "byte list \<Rightarrow> FrozenPrimaryKeyIndexMetadata \<Rightarrow> u64 \<Rightarrow> nat \<Rightarrow> u64 \<Rightarrow> bool" where
  "ProbeReaches bytes md slot 0 probe = True"
| "ProbeReaches bytes md slot (Suc n) probe =
     (if probe = slot then True
      else if control_at bytes md probe = kEmptyControl then False
      else ProbeReaches bytes md slot n ((probe + 1) AND (md_capacity md - 1)))"

definition ValidateSlot ::
    "FrozenPrimaryKeyIndexView \<Rightarrow> u64 \<Rightarrow> u64 set \<times> u64 \<Rightarrow> (u64 set \<times> u64) res" where
  "ValidateSlot v slot st =
     (let md = vw_metadata v; bytes = vw_bytes v; (seen_keys, occupied_count) = st;
          control = control_at bytes md slot in
      if control = kEmptyControl then Inr st
      else if control AND kEmptyControl \<noteq> 0
      then Inl (InvalidArgument ''frozen primary-key index control byte is invalid'')
      else
        rbind (ReadKey v slot) (\<lambda>key.
        rbind (reject (key \<in> seen_keys)
                 (InvalidArgument ''frozen primary-key index contains duplicate primary keys'')) (\<lambda>_.
        let hash = StableHash64 key (md_hash_seed md) (md_hash_version md) in
        rbind (reject (control \<noteq> H2 hash)
                 (InvalidArgument ''frozen primary-key index control byte does not match key hash'')) (\<lambda>_.
        rbind (reject (\<not> ProbeReaches bytes md slot (unat (md_capacity md))
                         (hash AND (md_capacity md - 1)))
                 (InvalidArgument ''frozen primary-key index key is unreachable from its hash bucket'')) (\<lambda>_.
        Inr (insert key seen_keys, occupied_count + 1))))))"

definition ControlMirrored :: "byte list \<Rightarrow> FrozenPrimaryKeyIndexMetadata \<Rightarrow> bool" where
  "ControlMirrored bytes md \<longleftrightarrow>
     (\<forall>i \<in> set [0..<unat (md_group_width md)].
        bytes ! (unat (md_control_offset md) + unat (md_capacity md) + i)
        = bytes ! (unat (md_control_offset md) + i))"

definition Validate :: "byte list \<Rightarrow> FrozenPrimaryKeyIndexView res" where
  "Validate bytes =
     rbind (ReadMetadata bytes) (\<lambda>md.
     rbind (ValidateMetadata md (length bytes)) (\<lambda>_.
     let v = \<lparr>vw_bytes = bytes, vw_metadata = md\<rparr> in
     rbind (reject (\<not> ControlMirrored bytes md)
              (InvalidArgument ''frozen primary-key index control bytes are not mirrored'')) (\<lambda>_.
     rbind (foldM_res (\<lambda>slot. ValidateSlot v (of_nat slot)) [0..<unat (md_capacity md)] ({}, 0))
       (\<lambda>(seen_keys, occupied_count).
     rbind (reject (occupied_count \<noteq> md_row_count md)
              (InvalidArgument ''frozen primary-key index row count does not match occupied slots'')) (\<lambda>_.
     Inr v)))))"

fun LookupFrom :: "FrozenPrimaryKeyIndexView \<Rightarrow> u64 \<Rightarrow> u8 \<Rightarrow> nat \<Rightarrow> u64 \<Rightarrow> u64 option res" where
  "LookupFrom v primary_key h2 0 slot =
     Inl (InvalidArgument ''frozen primary-key index lookup exhausted every slot'')"
| "LookupFrom v primary_key h2 (Suc n) slot =
     (let control = control_at (vw_bytes v) (vw_metadata v) slot;
          next_slot = (slot + 1) AND (md_capacity (vw_metadata v) - 1) in
      if control = kEmptyControl then Inr None
      else if control = h2 then
        rbind (ReadKey v slot) (\<lambda>key.
          if key = primary_key then rbind (ReadRowOffset v slot) (\<lambda>row_offset. Inr (Some row_offset))
          else LookupFrom v primary_key h2 n next_slot)
      else LookupFrom v primary_key h2 n next_slot)"

definition Lookup :: "FrozenPrimaryKeyIndexView \<Rightarrow> u64 \<Rightarrow> u64 option res" where
  "Lookup v primary_key =
     (let md = vw_metadata v in
      if md_capacity md = 0
      then Inl (InvalidArgument ''frozen primary-key index view is invalid'')
      else
        let hash = StableHash64 primary_key (md_hash_seed md) (md_hash_version md) in
        LookupFrom v primary_key (H2 hash) (unat (md_capacity md)) (hash AND (md_capacity md - 1)))"

definition EntryAt ::
    "FrozenPrimaryKeyIndexView \<Rightarrow> nat \<Rightarrow> FrozenPrimaryKeyIndexEntry list \<Rightarrow> FrozenPrimaryKeyIndexEntry list res" where
  "EntryAt v slot entries =
     (if control_at (vw_bytes v) (vw_metadata v) (of_nat slot) = kEmptyControl then Inr entries
      else
        rbind (ReadKey v (of_nat slot)) (\<lambda>key.
        rbind (ReadRowOffset v (of_nat slot)) (\<lambda>row_offset.
        Inr (entries @ [\<lparr>fe_primary_key = key, fe_row_offset = row_offset\<rparr>]))))"

definition Entries :: "FrozenPrimaryKeyIndexView \<Rightarrow> FrozenPrimaryKeyIndexEntry list res" where
  "Entries v =
     (if md_capacity (vw_metadata v) = 0
      then Inl (InvalidArgument ''frozen primary-key index view is invalid'')
      else foldM_res (EntryAt v) [0..<unat (md_capacity (vw_metadata v))] [])"

section \<open>The builder\<close>

text \<open>The loop that looks for an empty slot for a new key.\<close>

fun FindFreeSlot :: "byte list \<Rightarrow> FrozenPrimaryKeyIndexMetadata \<Rightarrow> nat \<Rightarrow> u64 \<Rightarrow> u64 res" where
  "FindFreeSlot bytes md 0 slot = Inl Diverge"
| "FindFreeSlot bytes md (Suc n) slot =
     (if control_at bytes md slot \<noteq> kEmptyControl
      then FindFreeSlot bytes md n ((slot + 1) AND (md_capacity md - 1))
      else Inr slot)"

definition PlaceEntry ::
    "FrozenPrimaryKeyIndexMetadata \<Rightarrow> FrozenPrimaryKeyIndexEntry \<Rightarrow> byte list \<Rightarrow> byte list res" where
  "PlaceEntry md entry bytes =
     (let hash = StableHash64 (fe_primary_key entry) (md_hash_seed md) (md_hash_version md) in
      rbind (FindFreeSlot bytes md (unat (md_capacity md)) (hash AND (md_capacity md - 1))) (\<lambda>slot.
      let bytes = bytes[unat (md_control_offset md) + unat slot := H2 hash] in
      rbind (WriteLittleEndian (fe_primary_key entry) bytes (SlotOffset (md_key_offset md) slot)) (\<lambda>bytes.
      WriteLittleEndian (fe_row_offset entry) bytes (SlotOffset (md_row_offset_offset md) slot))))"

text \<open>The metadata of an index for \<open>n\<close> entries; every offset is checked for overflow.\<close>

definition PlanMetadata ::
    "nat \<Rightarrow> u64 \<Rightarrow> FrozenPrimaryKeyIndexBuildOptions \<Rightarrow> FrozenPrimaryKeyIndexMetadata res" where
  "PlanMetadata n capacity options =
     rbind (CheckedAdd capacity (ucast (bo_group_width options))) (\<lambda>control_bytes.
     rbind (CheckedMul capacity 8) (\<lambda>key_bytes.
     rbind (CheckedMul capacity 8) (\<lambda>row_offset_bytes.
     rbind (CheckedAdd (of_nat kSerializedHeaderSize) control_bytes) (\<lambda>key_offset.
     rbind (CheckedAdd key_offset key_bytes) (\<lambda>row_offset_offset.
     rbind (CheckedAdd row_offset_offset row_offset_bytes) (\<lambda>total_size.
     rbind (reject (unat total_size > 2 ^ 64 - 1)
              (InvalidArgument ''frozen primary-key index is too large'')) (\<lambda>_.
     Inr \<lparr>md_row_count = of_nat n, md_capacity = capacity, md_hash_seed = bo_hash_seed options,
          md_hash_version = bo_hash_version options, md_group_width = bo_group_width options,
          md_control_offset = of_nat kSerializedHeaderSize, md_key_offset = key_offset,
          md_row_offset_offset = row_offset_offset, md_total_size = total_size\<rparr>)))))))"

definition BuildFrozenPrimaryKeyIndex ::
    "FrozenPrimaryKeyIndexEntry list \<Rightarrow> FrozenPrimaryKeyIndexBuildOptions \<Rightarrow> byte list res" where
  "BuildFrozenPrimaryKeyIndex entries options =
     rbind (CalculateCapacity (of_nat (length entries)) (bo_group_width options)) (\<lambda>capacity.
     rbind (reject (\<not> distinct (map fe_primary_key entries))
              (InvalidArgument ''duplicate primary key in frozen index build'')) (\<lambda>_.
     rbind (PlanMetadata (length entries) capacity options) (\<lambda>md.
     rbind (WriteHeader (replicate (unat (md_total_size md)) 0) md) (\<lambda>bytes.
     let bytes = fold (\<lambda>i bs. bs[unat (md_control_offset md) + i := kEmptyControl])
                   [0..<unat (md_capacity md + ucast (md_group_width md))] bytes in
     rbind (foldM_res (PlaceEntry md) entries bytes) (\<lambda>bytes.
     Inr (fold (\<lambda>i bs. bs[unat (md_control_offset md) + unat (md_capacity md) + i :=
                            bs ! (unat (md_control_offset md) + i)])
            [0..<unat (md_group_width md)] bytes))))))"

section \<open>Well-formed bytes\<close>

text \<open>What \<open>ValidateMetadata\<close> accepts: the sections follow one another and fill the vector.\<close>

definition frozen_layout :: "FrozenPrimaryKeyIndexMetadata \<Rightarrow> nat \<Rightarrow> bool" where
  "frozen_layout md len \<longleftrightarrow>
     (let c = unat (md_capacity md) in
      (\<exists>b < 64. c = 2 ^ b) \<and> 16 \<le> c \<and> md_group_width md = 16
      \<and> unat (md_row_count md) \<le> c div 8 * 7
      \<and> unat (md_control_offset md) = 80 \<and> unat (md_key_offset md) = 96 + c
      \<and> unat (md_row_offset_offset md) = 96 + 9 * c \<and> unat (md_total_size md) = 96 + 17 * c
      \<and> len = 96 + 17 * c)"

text \<open>The table that the bytes describe: the key and the row offset of each slot.\<close>

definition slot_key :: "FrozenPrimaryKeyIndexMetadata \<Rightarrow> byte list \<Rightarrow> nat \<Rightarrow> u64 option" where
  "slot_key md bytes s =
     (if bytes ! (unat (md_control_offset md) + s) = kEmptyControl then None
      else Some (le_word (subspan (unat (md_key_offset md) + 8 * s) 8 bytes)))"

definition slot_row :: "FrozenPrimaryKeyIndexMetadata \<Rightarrow> byte list \<Rightarrow> nat \<Rightarrow> u64" where
  "slot_row md bytes s = le_word (subspan (unat (md_row_offset_offset md) + 8 * s) 8 bytes)"

definition key_hash :: "FrozenPrimaryKeyIndexMetadata \<Rightarrow> u64 \<Rightarrow> u64" where
  "key_hash md k = StableHash64 k (md_hash_seed md) (md_hash_version md)"

definition frozen_probe :: "FrozenPrimaryKeyIndexMetadata \<Rightarrow> u64 \<Rightarrow> nat \<Rightarrow> nat" where
  "frozen_probe md k i = (unat (key_hash md k) + i) mod unat (md_capacity md)"

definition frozen_slots :: "FrozenPrimaryKeyIndexMetadata \<Rightarrow> byte list \<Rightarrow> bool" where
  "frozen_slots md bytes \<longleftrightarrow>
     probe_inv (unat (md_capacity md)) (frozen_probe md) (slot_key md bytes)
     \<and> (\<forall>s < unat (md_capacity md). \<forall>k. slot_key md bytes s = Some k \<longrightarrow>
          bytes ! (unat (md_control_offset md) + s) = H2 (key_hash md k))"

definition occupied :: "FrozenPrimaryKeyIndexMetadata \<Rightarrow> byte list \<Rightarrow> nat set" where
  "occupied md bytes = {s. s < unat (md_capacity md) \<and> slot_key md bytes s \<noteq> None}"

definition frozen_wf :: "FrozenPrimaryKeyIndexMetadata \<Rightarrow> byte list \<Rightarrow> bool" where
  "frozen_wf md bytes \<longleftrightarrow>
     frozen_layout md (length bytes) \<and> ControlMirrored bytes md \<and> frozen_slots md bytes
     \<and> card (occupied md bytes) = unat (md_row_count md)"

definition slot_good :: "FrozenPrimaryKeyIndexMetadata \<Rightarrow> byte list \<Rightarrow> nat \<Rightarrow> bool" where
  "slot_good md bs s \<longleftrightarrow>
     (\<forall>k. slot_key md bs s = Some k \<longrightarrow>
        bs ! (unat (md_control_offset md) + s) = H2 (key_hash md k)
        \<and> ProbeReaches bs md (of_nat s) (unat (md_capacity md)) (key_hash md k AND (md_capacity md - 1)))"

definition slot_entries :: "FrozenPrimaryKeyIndexMetadata \<Rightarrow> byte list \<Rightarrow> nat \<Rightarrow> FrozenPrimaryKeyIndexEntry list" where
  "slot_entries md bs m = List.map_filter
     (\<lambda>s. map_option (\<lambda>k. \<lparr>fe_primary_key = k, fe_row_offset = slot_row md bs s\<rparr>) (slot_key md bs s)) [0..<m]"

section \<open>Checked arithmetic and metadata\<close>

lemma CheckedAdd_Inr:
  "CheckedAdd a b = Inr c \<longleftrightarrow> unat a + unat b < 2 ^ 64 \<and> c = a + b"
proof -
  have "unat (-1 - b) = 2 ^ 64 - 1 - unat b"
    using unsigned_less [of b, where ?'a = nat] by (simp add: unat_sub_if_size word_le_nat_alt)
  then show ?thesis
    using unsigned_less [of b, where ?'a = nat] by (auto simp: CheckedAdd_def word_less_nat_alt)
qed

lemma CheckedMul_Inr:
  "CheckedMul a b = Inr c \<longleftrightarrow> unat a * unat b < 2 ^ 64 \<and> c = a * b"
proof (cases "a = 0")
  case False
  then have pos: "0 < unat a" by (simp add: unat_gt_0)
  have "b > (-1) div a \<longleftrightarrow> (2 ^ 64 - 1) div unat a < unat b"
    by (simp add: word_less_nat_alt unat_div)
  also have "\<dots> \<longleftrightarrow> 2 ^ 64 - 1 < unat a * unat b"
    using pos by (simp add: div_less_iff_less_mult mult.commute)
  finally show ?thesis using False by (auto simp: CheckedMul_def)
qed (auto simp: CheckedMul_def)

lemma single_bit_unat: "has_single_bit v \<longleftrightarrow> (\<exists>b < 64. unat v = 2 ^ b)"
proof -
  have "v = 2 ^ b \<longleftrightarrow> unat v = 2 ^ b" if "b < 64" for b
    using that unat_pow2 [where ?'a = 64, of b] by (auto simp: word_unat_eq_iff)
  then show ?thesis by (auto simp: has_single_bit_iff)
qed

lemma ValidateMetadata_iff: "ValidateMetadata md len = Inr () \<longleftrightarrow> frozen_layout md len"
proof (cases "md_group_width md = 16 \<and> 16 \<le> unat (md_capacity md)
    \<and> (\<exists>b < 64. unat (md_capacity md) = 2 ^ b)")
  case True
  define c where "c = unat (md_capacity md)"
  have c: "md_group_width md = 16" "16 \<le> c" "md_capacity md \<noteq> 0" "has_single_bit (md_capacity md)"
    "\<not> md_capacity md < ucast (md_group_width md)"
    using True by (auto simp: c_def single_bit_unat word_less_nat_alt)
  have rows: "md_row_count md > md_capacity md div 8 * 7 \<longleftrightarrow> unat (md_row_count md) > c div 8 * 7"
    using unsigned_less [of "md_capacity md", where ?'a = nat]
    by (simp add: word_less_nat_alt c_def unat_mult_eq unat_div)
  let ?cb = "md_capacity md + 16" and ?kb = "md_capacity md * 8"
  have eq: "ValidateMetadata md len = Inr () \<longleftrightarrow>
      unat (md_row_count md) \<le> c div 8 * 7 \<and> c + 16 < 2 ^ 64 \<and> c * 8 < 2 ^ 64
      \<and> unat (md_control_offset md) + unat ?cb < 2 ^ 64
      \<and> unat (md_key_offset md) + unat ?kb < 2 ^ 64
      \<and> unat (md_row_offset_offset md) + unat ?kb < 2 ^ 64
      \<and> md_control_offset md = 80 \<and> md_key_offset md = md_control_offset md + ?cb
      \<and> md_row_offset_offset md = md_key_offset md + ?kb
      \<and> md_total_size md = md_row_offset_offset md + ?kb \<and> unat (md_total_size md) = len
      \<and> HasBytes64 len (md_control_offset md) ?cb \<and> HasBytes64 len (md_key_offset md) ?kb
      \<and> HasBytes64 len (md_row_offset_offset md) ?kb"
    using c by (auto simp: ValidateMetadata_def kDefaultGroupWidth_def kSerializedHeaderSize_def
        CheckedAdd_Inr CheckedMul_Inr rows c_def [symmetric])
  show ?thesis
  proof
    assume "ValidateMetadata md len = Inr ()"
    note f = this [unfolded eq]
    have "unat ?cb = c + 16" "unat ?kb = c * 8"
      using f by (simp_all add: unat_add_eq unat_mult_eq c_def)
    moreover have add: "unat x = unat a + unat b" if "x = a + b" "unat a + unat b < 2 ^ 64" for x a b :: u64
      using that by (simp add: unat_add_eq)
    have "unat (md_key_offset md) = unat (md_control_offset md) + unat ?cb"
      "unat (md_row_offset_offset md) = unat (md_key_offset md) + unat ?kb"
      "unat (md_total_size md) = unat (md_row_offset_offset md) + unat ?kb"
      by (rule add; use f in blast)+
    ultimately show "frozen_layout md len"
      using f True by (auto simp: frozen_layout_def c_def [symmetric] Let_def)
  next
    assume "frozen_layout md len"
    then have f: "unat (md_row_count md) \<le> c div 8 * 7" "unat (md_control_offset md) = 80"
      "unat (md_key_offset md) = 96 + c" "unat (md_row_offset_offset md) = 96 + 9 * c"
      "unat (md_total_size md) = 96 + 17 * c" "len = 96 + 17 * c"
      by (simp_all add: frozen_layout_def c_def [symmetric] Let_def)
    have small: "96 + 17 * c < 2 ^ 64"
      using unsigned_less [of "md_total_size md", where ?'a = nat] by (simp add: f)
    have b: "unat ?cb = c + 16" "unat ?kb = c * 8"
      using small by (simp_all add: unat_add_eq unat_mult_eq c_def)
    have n: "c + 16 < 2 ^ 64" "c * 8 < 2 ^ 64" "unat (md_control_offset md) + unat ?cb < 2 ^ 64"
      "unat (md_key_offset md) + unat ?kb < 2 ^ 64" "unat (md_row_offset_offset md) + unat ?kb < 2 ^ 64"
      "unat (md_total_size md) = len" "HasBytes64 len (md_control_offset md) ?cb"
      "HasBytes64 len (md_key_offset md) ?kb" "HasBytes64 len (md_row_offset_offset md) ?kb"
      using small by (simp_all add: f b HasBytes64_def)
    have "md_control_offset md = 80" "md_key_offset md = md_control_offset md + ?cb"
      "md_row_offset_offset md = md_key_offset md + ?kb"
      "md_total_size md = md_row_offset_offset md + ?kb"
      using small by (simp_all add: word_unat_eq_iff unat_add_eq f b)
    then show "ValidateMetadata md len = Inr ()"
      unfolding eq using n f(1) by blast
  qed
next
  case False
  then show ?thesis
    by (auto simp: ValidateMetadata_def frozen_layout_def single_bit_unat kDefaultGroupWidth_def word_less_nat_alt Let_def)
qed
section \<open>Slots and probe sequences\<close>

interpretation fz: cyclic_probing "unat (md_capacity md)" "frozen_probe md" for md
  by unfold_locales (auto simp: frozen_probe_def cyc_covers)

lemma H2_high_bit: "H2 h AND kEmptyControl = 0"
proof (rule bit_word_eqI)
  fix n assume "n < LENGTH(8)"
  have k: "kEmptyControl = 2 ^ 7" by (simp add: kEmptyControl_def)
  have "\<not> bit (H2 h) 7"
  proof -
    have "(0x7f :: u64) = mask 7" by (simp add: mask_eq_exp_minus_1)
    then have "H2 h = ucast (drop_bit 57 h AND mask 7)" by (simp only: H2_def)
    then show ?thesis by (simp add: bit_simps)
  qed
  moreover have "bit kEmptyControl n \<Longrightarrow> n = 7" by (simp only: k bit_exp_iff)
  ultimately show "bit (H2 h AND kEmptyControl) n = bit (0 :: u8) n"
    by (auto simp: bit_and_iff)
qed

lemma H2_not_empty: "H2 h \<noteq> kEmptyControl"
  using H2_high_bit [of h] by (auto simp: kEmptyControl_def)

lemma frozen_layoutD:
  assumes "frozen_layout md len"
  shows "\<exists>b < 64. md_capacity md = 2 ^ b" and "16 \<le> unat (md_capacity md)"
    and "unat (md_control_offset md) = 80" and "unat (md_key_offset md) = 96 + unat (md_capacity md)"
    and "unat (md_row_offset_offset md) = 96 + 9 * unat (md_capacity md)"
    and "unat (md_total_size md) = 96 + 17 * unat (md_capacity md)"
    and "len = 96 + 17 * unat (md_capacity md)" and "96 + 17 * unat (md_capacity md) < 2 ^ 64"
    and "md_group_width md = 16" and "unat (md_row_count md) \<le> unat (md_capacity md) div 8 * 7"
proof -
  have b: "\<exists>b < 64. unat (md_capacity md) = 2 ^ b" using assms by (simp add: frozen_layout_def Let_def)
  then show "\<exists>b < 64. md_capacity md = 2 ^ b"
    by (metis single_bit_unat has_single_bit_iff)
  show "96 + 17 * unat (md_capacity md) < 2 ^ 64"
    using assms unsigned_less [of "md_total_size md", where ?'a = nat]
    by (simp add: frozen_layout_def Let_def)
qed (use assms in \<open>simp_all add: frozen_layout_def Let_def\<close>)

lemma mask_home:
  assumes "frozen_layout md len"
  shows "unat (h AND (md_capacity md - 1)) = unat h mod unat (md_capacity md)"
proof -
  obtain b where b: "b < 64" "md_capacity md = 2 ^ b" using frozen_layoutD(1) [OF assms] by blast
  then have "unat (md_capacity md) = 2 ^ b" using unat_pow2 [where ?'a = 64, of b] by simp
  with unat_and_mask_pow2 [of h b] b show ?thesis by simp
qed

lemma mask_step:
  assumes "frozen_layout md len"
  shows "unat ((slot + 1) AND (md_capacity md - 1)) = (unat slot + 1) mod unat (md_capacity md)"
proof -
  obtain b where b: "b < 64" "md_capacity md = 2 ^ b" using frozen_layoutD(1) [OF assms] by blast
  then have c: "unat (md_capacity md) = 2 ^ b" using unat_pow2 [where ?'a = 64, of b] by simp
  have "unat (slot + 1) = (unat slot + 1) mod 2 ^ 64" by (simp add: unat_word_ariths)
  moreover have "(2 :: nat) ^ b dvd 2 ^ 64" using b by (intro le_imp_power_dvd) simp
  ultimately show ?thesis
    by (simp only: mask_home [OF assms] c) (simp add: mod_mod_cancel)
qed

lemma probe_step:
  assumes "frozen_layout md len" and "unat slot = frozen_probe md k i"
  shows "unat ((slot + 1) AND (md_capacity md - 1)) = frozen_probe md k (Suc i)"
  using assms(2) by (simp add: mask_step [OF assms(1)] frozen_probe_def mod_Suc_eq)

lemma probe_home:
  assumes "frozen_layout md len"
  shows "unat (key_hash md k AND (md_capacity md - 1)) = frozen_probe md k 0"
  by (simp add: mask_home [OF assms] frozen_probe_def)

lemma probe_lt: "frozen_layout md len \<Longrightarrow> frozen_probe md k i < unat (md_capacity md)"
  using frozen_layoutD(2) [of md len] by (simp add: frozen_probe_def)

lemma SlotOffset_eq:
  assumes "frozen_layout md len" and "unat slot < unat (md_capacity md)"
  shows "SlotOffset (md_key_offset md) slot = unat (md_key_offset md) + 8 * unat slot"
    and "SlotOffset (md_row_offset_offset md) slot = unat (md_row_offset_offset md) + 8 * unat slot"
proof -
  note l = frozen_layoutD [OF assms(1)]
  have s: "unat (slot * 8) = 8 * unat slot" using assms(2) l(8) by (simp add: unat_mult_eq)
  show "SlotOffset (md_key_offset md) slot = unat (md_key_offset md) + 8 * unat slot"
    using assms(2) l(8) by (simp add: SlotOffset_def unat_add_eq s l(4))
  show "SlotOffset (md_row_offset_offset md) slot = unat (md_row_offset_offset md) + 8 * unat slot"
    using assms(2) l(8) by (simp add: SlotOffset_def unat_add_eq s l(5))
qed

lemma ReadHeaderField_eq:
  "ReadHeaderField bs off = (ReadLittleEndian bs off :: 'a :: len word res)"
  by (simp add: ReadHeaderField_def ReadLittleEndian_eq out_of_bounds_def)

lemma read_slot:
  assumes "frozen_layout md (length bs)" and "unat slot < unat (md_capacity md)"
  shows "ReadKey \<lparr>vw_bytes = bs, vw_metadata = md\<rparr> slot
       = Inr (le_word (subspan (unat (md_key_offset md) + 8 * unat slot) 8 bs))"
    and "ReadRowOffset \<lparr>vw_bytes = bs, vw_metadata = md\<rparr> slot = Inr (slot_row md bs (unat slot))"
  using assms frozen_layoutD [OF assms(1)]
  by (simp_all add: ReadKey_def ReadRowOffset_def ReadHeaderField_eq ReadLittleEndian_eq SlotOffset_eq
      slot_row_def word_le_nat_alt)

lemma read_occupied_slot:
  assumes "frozen_layout md (length bs)" and "unat slot < unat (md_capacity md)"
    and "slot_key md bs (unat slot) = Some k"
  shows "ReadKey \<lparr>vw_bytes = bs, vw_metadata = md\<rparr> slot = Inr k"
  using assms by (auto simp: read_slot slot_key_def split: if_splits)

lemma control_at_eq: "control_at bs md slot = bs ! (unat (md_control_offset md) + unat slot)"
  by (simp add: control_at_def)

lemma slot_key_None_iff: "slot_key md bs (unat slot) = None \<longleftrightarrow> control_at bs md slot = kEmptyControl"
  by (simp add: slot_key_def control_at_def)

section \<open>Lookup\<close>

lemma LookupFrom_eq:
  assumes lay: "frozen_layout md (length bs)" and wf: "frozen_slots md bs"
    and "unat slot = frozen_probe md k i"
  shows "LookupFrom \<lparr>vw_bytes = bs, vw_metadata = md\<rparr> k (H2 (key_hash md k)) n slot =
    (case probe_search (slot_key md bs) (frozen_probe md) k i n of
       Hit s \<Rightarrow> Inr (Some (slot_row md bs s))
     | Vacant s \<Rightarrow> Inr None
     | Exhausted \<Rightarrow> Inl (InvalidArgument ''frozen primary-key index lookup exhausted every slot''))"
  using assms(3)
proof (induction n arbitrary: i slot)
  case (Suc n)
  let ?v = "\<lparr>vw_bytes = bs, vw_metadata = md\<rparr>"
  let ?nxt = "(slot + 1) AND (md_capacity md - 1)"
  have lt: "unat slot < unat (md_capacity md)" using Suc.prems probe_lt [OF lay] by simp
  have IH: "LookupFrom ?v k (H2 (key_hash md k)) n ?nxt =
    (case probe_search (slot_key md bs) (frozen_probe md) k (Suc i) n of
       Hit s \<Rightarrow> Inr (Some (slot_row md bs s)) | Vacant s \<Rightarrow> Inr None
     | Exhausted \<Rightarrow> Inl (InvalidArgument ''frozen primary-key index lookup exhausted every slot''))"
    by (rule Suc.IH [OF probe_step [OF lay Suc.prems]])
  show ?case
  proof (cases "slot_key md bs (unat slot)")
    case None
    then show ?thesis using Suc.prems by (simp add: slot_key_None_iff [symmetric])
  next
    case (Some k')
    have ctl: "control_at bs md slot = H2 (key_hash md k')"
      using wf Some lt by (simp add: frozen_slots_def control_at_eq)
    have rk: "ReadKey ?v slot = Inr k'" by (rule read_occupied_slot [OF lay lt Some])
    have ne: "control_at bs md slot \<noteq> kEmptyControl" using ctl H2_not_empty by simp
    show ?thesis
    proof (cases "k' = k")
      case True
      with ctl ne rk Some Suc.prems show ?thesis by (simp add: read_slot [OF lay lt])
    next
      case False
      with ne rk Some Suc.prems IH show ?thesis by (simp add: Let_def)
    qed
  qed
qed simp


lemma Lookup_eq:
  assumes lay: "frozen_layout md (length bs)" and wf: "frozen_slots md bs"
  shows "Lookup \<lparr>vw_bytes = bs, vw_metadata = md\<rparr> k =
    (case probe_search (slot_key md bs) (frozen_probe md) k 0 (unat (md_capacity md)) of
       Hit s \<Rightarrow> Inr (Some (slot_row md bs s))
     | Vacant s \<Rightarrow> Inr None
     | Exhausted \<Rightarrow> Inl (InvalidArgument ''frozen primary-key index lookup exhausted every slot''))"
proof -
  have "md_capacity md \<noteq> 0" using frozen_layoutD(2) [OF lay] by auto
  then show ?thesis
    using LookupFrom_eq [OF lay wf probe_home [OF lay], of k "unat (md_capacity md)"]
    by (simp add: Lookup_def key_hash_def)
qed

section \<open>Validation\<close>

text \<open>The walk of \<open>ProbeReaches\<close> along the probe sequence of a key.\<close>

lemma ProbeReaches_iff:
  assumes lay: "frozen_layout md (length bs)" and "unat probe = frozen_probe md k i"
  shows "ProbeReaches bs md slot n probe \<longleftrightarrow>
    (\<forall>j < n. (\<forall>j' < Suc j. frozen_probe md k (i + j') \<noteq> unat slot) \<longrightarrow>
       slot_key md bs (frozen_probe md k (i + j)) \<noteq> None)"
  using assms(2)
proof (induction n arbitrary: i probe)
  case (Suc n)
  let ?nxt = "(probe + 1) AND (md_capacity md - 1)"
  let ?P = "\<lambda>j. (\<forall>j' < Suc j. frozen_probe md k (i + j') \<noteq> unat slot) \<longrightarrow>
       slot_key md bs (frozen_probe md k (i + j)) \<noteq> None"
  have IH: "ProbeReaches bs md slot n ?nxt \<longleftrightarrow>
    (\<forall>j < n. (\<forall>j' < Suc j. frozen_probe md k (Suc i + j') \<noteq> unat slot) \<longrightarrow>
       slot_key md bs (frozen_probe md k (Suc i + j)) \<noteq> None)"
    by (rule Suc.IH [OF probe_step [OF lay Suc.prems]])
  have shift: "(\<forall>j' < Suc (Suc j). frozen_probe md k (i + j') \<noteq> unat slot) \<longleftrightarrow>
     frozen_probe md k i \<noteq> unat slot \<and> (\<forall>j' < Suc j. frozen_probe md k (Suc i + j') \<noteq> unat slot)" for j
    by (subst All_less_Suc2) simp
  have eq: "probe = slot \<longleftrightarrow> frozen_probe md k i = unat slot"
    using Suc.prems by (simp add: word_unat_eq_iff)
  have "(\<forall>j < Suc n. ?P j) \<longleftrightarrow> ?P 0 \<and> (\<forall>j < n. ?P (Suc j))"
    by (rule All_less_Suc2)
  then have split: "(\<forall>j < Suc n. ?P j) \<longleftrightarrow>
      (frozen_probe md k i \<noteq> unat slot \<longrightarrow> slot_key md bs (frozen_probe md k i) \<noteq> None)
      \<and> (frozen_probe md k i \<noteq> unat slot \<longrightarrow> ProbeReaches bs md slot n ?nxt)"
    unfolding IH shift by auto
  show ?case
    unfolding split using eq Suc.prems by (auto simp: slot_key_None_iff [symmetric])
qed simp


lemma unat_slot: "s < unat (md_capacity md) \<Longrightarrow> unat (of_nat s :: u64) = s"
  using unsigned_less [of "md_capacity md", where ?'a = nat] by (simp add: unat_of_nat)

lemma ValidateSlot_Inr:
  assumes lay: "frozen_layout md (length bs)" and s: "s < unat (md_capacity md)"
  shows "ValidateSlot \<lparr>vw_bytes = bs, vw_metadata = md\<rparr> (of_nat s) (seen, cnt) = Inr st' \<longleftrightarrow>
    (case slot_key md bs s of None \<Rightarrow> st' = (seen, cnt)
     | Some k \<Rightarrow> slot_good md bs s \<and> k \<notin> seen \<and> st' = (insert k seen, cnt + 1))"
proof (cases "slot_key md bs s")
  case None
  then have "control_at bs md (of_nat s) = kEmptyControl"
    using slot_key_None_iff [of md bs "of_nat s"] by (simp add: unat_slot [OF s])
  with None show ?thesis by (auto simp: ValidateSlot_def)
next
  case (Some k)
  have u: "unat (of_nat s :: u64) = s" by (rule unat_slot [OF s])
  have rk: "ReadKey \<lparr>vw_bytes = bs, vw_metadata = md\<rparr> (of_nat s) = Inr k"
    by (rule read_occupied_slot [OF lay]) (simp_all add: u s Some)
  have ne: "control_at bs md (of_nat s) \<noteq> kEmptyControl"
    using Some slot_key_None_iff [of md bs "of_nat s"] by (simp add: u)
  have ctl: "control_at bs md (of_nat s) = bs ! (unat (md_control_offset md) + s)"
    by (simp add: control_at_def u)
  show ?thesis
    using ne rk Some H2_high_bit [of "key_hash md k"]
    by (auto simp: ValidateSlot_def slot_good_def key_hash_def ctl Let_def split: if_splits)
qed

lemma ValidateSlots_Inr:
  assumes lay: "frozen_layout md (length bs)" and "m \<le> unat (md_capacity md)"
  shows "foldM_res (\<lambda>slot. ValidateSlot \<lparr>vw_bytes = bs, vw_metadata = md\<rparr> (of_nat slot)) [0..<m] ({}, 0)
      = Inr st \<longleftrightarrow>
    (\<forall>s < m. slot_good md bs s)
    \<and> (\<forall>s < m. \<forall>s' < m. \<forall>k. slot_key md bs s = Some k \<and> slot_key md bs s' = Some k \<longrightarrow> s = s')
    \<and> st = ({k. \<exists>s < m. slot_key md bs s = Some k}, of_nat (card {s. s < m \<and> slot_key md bs s \<noteq> None}))"
  using assms(2)
proof (induction m arbitrary: st)
  case (Suc m)
  let ?T = "slot_key md bs"
  let ?st = "({k. \<exists>s < m. ?T s = Some k}, of_nat (card {s. s < m \<and> ?T s \<noteq> None})) :: u64 set \<times> u64"
  have m: "m < unat (md_capacity md)" using Suc.prems by simp
  have card: "card {s. s < Suc m \<and> ?T s \<noteq> None}
      = (if ?T m = None then 0 else 1) + card {s. s < m \<and> ?T s \<noteq> None}"
  proof -
    have "{s. s < Suc m \<and> ?T s \<noteq> None} =
        (if ?T m = None then {s. s < m \<and> ?T s \<noteq> None} else insert m {s. s < m \<and> ?T s \<noteq> None})"
      by (auto simp: less_Suc_eq)
    then show ?thesis by simp
  qed
  have keys: "{k. \<exists>s < Suc m. ?T s = Some k} = {k. \<exists>s < m. ?T s = Some k} \<union> set_option (?T m)"
    by (auto simp: less_Suc_eq)
  have good: "?T m = None \<Longrightarrow> slot_good md bs m" by (simp add: slot_good_def)
  have "foldM_res (\<lambda>slot. ValidateSlot \<lparr>vw_bytes = bs, vw_metadata = md\<rparr> (of_nat slot)) [0..<Suc m] ({}, 0)
      = Inr st \<longleftrightarrow>
     (\<forall>s < m. slot_good md bs s)
     \<and> (\<forall>s < m. \<forall>s' < m. \<forall>k. ?T s = Some k \<and> ?T s' = Some k \<longrightarrow> s = s')
     \<and> ValidateSlot \<lparr>vw_bytes = bs, vw_metadata = md\<rparr> (of_nat m) ?st = Inr st"
    using Suc.IH m by (cases st) (auto simp: foldM_res_append)
  also have "\<dots> \<longleftrightarrow> (\<forall>s < Suc m. slot_good md bs s)
    \<and> (\<forall>s < Suc m. \<forall>s' < Suc m. \<forall>k. ?T s = Some k \<and> ?T s' = Some k \<longrightarrow> s = s')
    \<and> st = ({k. \<exists>s < Suc m. ?T s = Some k}, of_nat (card {s. s < Suc m \<and> ?T s \<noteq> None}))"
  proof (cases "?T m")
    case None
    then have "(\<forall>s < Suc m. \<forall>s' < Suc m. \<forall>k. ?T s = Some k \<and> ?T s' = Some k \<longrightarrow> s = s')
        \<longleftrightarrow> (\<forall>s < m. \<forall>s' < m. \<forall>k. ?T s = Some k \<and> ?T s' = Some k \<longrightarrow> s = s')"
      by (auto simp: less_Suc_eq)
    with None good show ?thesis
      unfolding ValidateSlot_Inr [OF lay m] card keys by (auto simp: less_Suc_eq)
  next
    case (Some k)
    then have "(\<forall>s < Suc m. \<forall>s' < Suc m. \<forall>k. ?T s = Some k \<and> ?T s' = Some k \<longrightarrow> s = s')
        \<longleftrightarrow> (\<forall>s < m. \<forall>s' < m. \<forall>k. ?T s = Some k \<and> ?T s' = Some k \<longrightarrow> s = s')
          \<and> (\<forall>s < m. ?T s \<noteq> Some k)"
      by (fastforce simp: less_Suc_eq)
    with Some show ?thesis
      unfolding ValidateSlot_Inr [OF lay m] card keys by (auto simp: less_Suc_eq)
  qed
  finally show ?case .
qed (auto)


lemma ProbeReaches_reachable:
  assumes lay: "frozen_layout md (length bs)" and s: "s < unat (md_capacity md)"
    and uniq: "\<And>s'. s' < unat (md_capacity md) \<Longrightarrow> slot_key md bs s' = Some k \<Longrightarrow> s' = s"
  shows "ProbeReaches bs md (of_nat s) (unat (md_capacity md)) (key_hash md k AND (md_capacity md - 1)) \<longleftrightarrow>
    (\<exists>i < unat (md_capacity md). frozen_probe md k i = s \<and> passed_over (slot_key md bs) (frozen_probe md) k i)"
proof -
  let ?c = "unat (md_capacity md)" and ?T = "slot_key md bs" and ?p = "frozen_probe md k"
  have iff: "ProbeReaches bs md (of_nat s) ?c (key_hash md k AND (md_capacity md - 1)) \<longleftrightarrow>
      (\<forall>j < ?c. (\<forall>j' < Suc j. ?p j' \<noteq> s) \<longrightarrow> ?T (?p j) \<noteq> None)"
    using ProbeReaches_iff [OF lay probe_home [OF lay], of "of_nat s"] by (simp add: unat_slot [OF s])
  show ?thesis
  proof
    assume "ProbeReaches bs md (of_nat s) ?c (key_hash md k AND (md_capacity md - 1))"
    note R = this [unfolded iff]
    from fz.probe_covers [OF s] obtain i0 where i0: "i0 < ?c" "?p i0 = s" by blast
    define i where "i = (LEAST i. ?p i = s)"
    have i: "?p i = s" "i \<le> i0" unfolding i_def using i0 by (auto intro: LeastI Least_le)
    have before: "?p j \<noteq> s" if "j < i" for j using not_less_Least [of j] that by (auto simp: i_def)
    have "?T (?p j) \<noteq> None \<and> ?T (?p j) \<noteq> Some k" if "j < i" for j
    proof
      show "?T (?p j) \<noteq> None" using R that i i0(1) before by auto
      show "?T (?p j) \<noteq> Some k" using uniq [OF probe_lt [OF lay]] before [OF that] by blast
    qed
    with i i0(1) show "\<exists>i < ?c. ?p i = s \<and> passed_over ?T (frozen_probe md) k i"
      by (intro exI [of _ i]) (auto simp: passed_over_def)
  next
    assume "\<exists>i < ?c. ?p i = s \<and> passed_over ?T (frozen_probe md) k i"
    then obtain i where i: "?p i = s" "passed_over ?T (frozen_probe md) k i" by blast
    have "?T (?p j) \<noteq> None" if "\<forall>j' < Suc j. ?p j' \<noteq> s" for j
    proof -
      have "j < i" using that i(1) by (metis less_Suc_eq_le not_le)
      then show ?thesis using i(2) by (simp add: passed_over_def)
    qed
    then show "ProbeReaches bs md (of_nat s) ?c (key_hash md k AND (md_capacity md - 1))"
      unfolding iff by blast
  qed
qed

lemma slots_good_iff:
  assumes lay: "frozen_layout md (length bs)"
  shows "(\<forall>s < unat (md_capacity md). slot_good md bs s)
      \<and> (\<forall>s < unat (md_capacity md). \<forall>s' < unat (md_capacity md). \<forall>k.
            slot_key md bs s = Some k \<and> slot_key md bs s' = Some k \<longrightarrow> s = s')
      \<longleftrightarrow> frozen_slots md bs" (is "?good \<and> ?uniq \<longleftrightarrow> _")
proof
  assume g: "?good \<and> ?uniq"
  have "\<exists>i < unat (md_capacity md). frozen_probe md k i = s \<and> passed_over (slot_key md bs) (frozen_probe md) k i"
    if "s < unat (md_capacity md)" "slot_key md bs s = Some k" for s k
    using ProbeReaches_reachable [OF lay that(1), of k] g that by (auto simp: slot_good_def)
  with g show "frozen_slots md bs" by (auto simp: frozen_slots_def probe_inv_def slot_good_def)
next
  assume f: "frozen_slots md bs"
  then have inv: "probe_inv (unat (md_capacity md)) (frozen_probe md) (slot_key md bs)"
    by (simp add: frozen_slots_def)
  have uniq: ?uniq using fz.stored_unique [OF inv] by blast
  have "slot_good md bs s" if "s < unat (md_capacity md)" for s
    using ProbeReaches_reachable [OF lay that] fz.stored_reachable [OF inv that] uniq that f
    by (auto simp: slot_good_def frozen_slots_def)
  with uniq show "?good \<and> ?uniq" by blast
qed

lemma card_occupied_le: "card (occupied md bs) \<le> unat (md_capacity md)"
proof -
  have "occupied md bs \<subseteq> {0..<unat (md_capacity md)}" by (auto simp: occupied_def)
  from card_mono [OF _ this] show ?thesis by simp
qed

lemma Validate_iff:
  "Validate bs = Inr v \<longleftrightarrow>
   (\<exists>md. v = \<lparr>vw_bytes = bs, vw_metadata = md\<rparr> \<and> ReadMetadata bs = Inr md \<and> frozen_wf md bs)"
proof -
  have cnt: "unat (of_nat (card (occupied md bs)) :: u64) = card (occupied md bs)" for md
    using card_occupied_le [of md bs] unsigned_less [of "md_capacity md", where ?'a = nat]
    by (simp add: unat_of_nat)
  have fold: "(foldM_res (\<lambda>slot. ValidateSlot \<lparr>vw_bytes = bs, vw_metadata = md\<rparr> (of_nat slot))
      [0..<unat (md_capacity md)] ({}, 0) = Inr (seen, count)) \<longleftrightarrow>
      frozen_slots md bs \<and> seen = {k. \<exists>s < unat (md_capacity md). slot_key md bs s = Some k}
      \<and> count = of_nat (card (occupied md bs))"
    if "frozen_layout md (length bs)" for md seen count
    unfolding ValidateSlots_Inr [OF that order_refl] slots_good_iff [OF that, symmetric] occupied_def
    by (simp only: prod.inject conj_assoc)
  show ?thesis
    by (auto simp: Validate_def ValidateMetadata_iff fold cnt frozen_wf_def Let_def)
qed


section \<open>What a validated view answers\<close>

lemma frozen_vacant:
  assumes "frozen_wf md bs"
  shows "\<exists>s < unat (md_capacity md). slot_key md bs s = None"
proof (rule ccontr)
  assume "\<not> ?thesis"
  then have "occupied md bs = {0..<unat (md_capacity md)}" by (auto simp: occupied_def)
  then have "card (occupied md bs) = unat (md_capacity md)" by simp
  moreover have "frozen_layout md (length bs)" using assms by (simp add: frozen_wf_def)
  then have "unat (md_row_count md) \<le> unat (md_capacity md) div 8 * 7" "16 \<le> unat (md_capacity md)"
    by (rule frozen_layoutD)+
  ultimately show False using assms by (simp add: frozen_wf_def)
qed

lemma Lookup_wf:
  assumes "frozen_wf md bs"
  shows "\<exists>r. Lookup \<lparr>vw_bytes = bs, vw_metadata = md\<rparr> k = Inr r"
    and "Lookup \<lparr>vw_bytes = bs, vw_metadata = md\<rparr> k = Inr (Some r) \<longleftrightarrow>
      (\<exists>s < unat (md_capacity md). slot_key md bs s = Some k \<and> slot_row md bs s = r)"
proof -
  have lay: "frozen_layout md (length bs)" and sl: "frozen_slots md bs"
    using assms by (auto simp: frozen_wf_def)
  from sl have inv: "probe_inv (unat (md_capacity md)) (frozen_probe md) (slot_key md bs)"
    by (simp add: frozen_slots_def)
  let ?s = "probe_search (slot_key md bs) (frozen_probe md) k 0 (unat (md_capacity md))"
  have ne: "?s \<noteq> Exhausted"
    using frozen_vacant [OF assms] fz.search_not_Exhausted by blast
  then show "\<exists>r. Lookup \<lparr>vw_bytes = bs, vw_metadata = md\<rparr> k = Inr r"
    by (cases ?s) (auto simp: Lookup_eq [OF lay sl])
  show "Lookup \<lparr>vw_bytes = bs, vw_metadata = md\<rparr> k = Inr (Some r) \<longleftrightarrow>
      (\<exists>s < unat (md_capacity md). slot_key md bs s = Some k \<and> slot_row md bs s = r)"
  proof -
    have "Lookup \<lparr>vw_bytes = bs, vw_metadata = md\<rparr> k = Inr (Some r) \<longleftrightarrow>
        (\<exists>s. ?s = Hit s \<and> slot_row md bs s = r)"
      unfolding Lookup_eq [OF lay sl] by (cases ?s) auto
    then show ?thesis unfolding fz.search_Hit_iff [OF inv] by auto
  qed
qed

lemma EntryAt_eq:
  assumes lay: "frozen_layout md (length bs)" and s: "s < unat (md_capacity md)"
  shows "EntryAt \<lparr>vw_bytes = bs, vw_metadata = md\<rparr> s es =
    Inr (es @ (case slot_key md bs s of None \<Rightarrow> []
               | Some k \<Rightarrow> [\<lparr>fe_primary_key = k, fe_row_offset = slot_row md bs s\<rparr>]))"
proof -
  have u: "unat (of_nat s :: u64) = s" by (rule unat_slot [OF s])
  have n: "slot_key md bs s = None \<longleftrightarrow> control_at bs md (of_nat s) = kEmptyControl"
    using slot_key_None_iff [of md bs "of_nat s"] by (simp add: u)
  have "slot_key md bs s = Some k \<Longrightarrow> ReadKey \<lparr>vw_bytes = bs, vw_metadata = md\<rparr> (of_nat s) = Inr k" for k
    using read_occupied_slot [OF lay, of "of_nat s" k] by (simp add: u s)
  with n read_slot(2) [OF lay, of "of_nat s"] s show ?thesis
    by (cases "slot_key md bs s") (simp_all add: EntryAt_def u)
qed

lemma Entries_eq:
  assumes lay: "frozen_layout md (length bs)"
  shows "Entries \<lparr>vw_bytes = bs, vw_metadata = md\<rparr> = Inr (slot_entries md bs (unat (md_capacity md)))"
proof -
  have "foldM_res (EntryAt \<lparr>vw_bytes = bs, vw_metadata = md\<rparr>) [0..<m] [] = Inr (slot_entries md bs m)"
    if "m \<le> unat (md_capacity md)" for m
    using that
  proof (induction m)
    case (Suc m)
    then show ?case
      by (auto simp: foldM_res_append EntryAt_eq [OF lay] slot_entries_def map_filter_def split: option.splits)
  qed (simp add: slot_entries_def map_filter_def)
  moreover have "md_capacity md \<noteq> 0" using frozen_layoutD(2) [OF lay] by auto
  ultimately show ?thesis by (simp add: Entries_def)
qed

lemma set_slot_entries:
  "e \<in> set (slot_entries md bs m) \<longleftrightarrow>
   (\<exists>s < m. slot_key md bs s = Some (fe_primary_key e) \<and> slot_row md bs s = fe_row_offset e)"
  by (cases e) (force simp: slot_entries_def map_filter_def image_iff)

lemma slot_entries_rows:
  "(\<exists>s < m. slot_key md bs s = Some k \<and> slot_row md bs s = r) \<longleftrightarrow>
   (\<exists>e \<in> set (slot_entries md bs m). fe_primary_key e = k \<and> fe_row_offset e = r)"
proof
  assume "\<exists>s < m. slot_key md bs s = Some k \<and> slot_row md bs s = r"
  then have "\<lparr>fe_primary_key = k, fe_row_offset = r\<rparr> \<in> set (slot_entries md bs m)"
    by (simp add: set_slot_entries)
  then show "\<exists>e \<in> set (slot_entries md bs m). fe_primary_key e = k \<and> fe_row_offset e = r"
    by (rule rev_bexI) simp
qed (auto simp: set_slot_entries)

lemma distinct_slot_entries:
  assumes "\<And>s s' k. s < m \<Longrightarrow> s' < m \<Longrightarrow> slot_key md bs s = Some k \<Longrightarrow> slot_key md bs s' = Some k \<Longrightarrow> s = s'"
  shows "distinct (map fe_primary_key (slot_entries md bs m))"
  using assms
proof (induction m)
  case (Suc m)
  then have IH: "distinct (map fe_primary_key (slot_entries md bs m))" by auto
  show ?case
  proof (cases "slot_key md bs m")
    case None
    with IH show ?thesis by (simp add: slot_entries_def map_filter_def)
  next
    case (Some k)
    have "k \<notin> fe_primary_key ` set (slot_entries md bs m)"
    proof
      assume "k \<in> fe_primary_key ` set (slot_entries md bs m)"
      then obtain s where "s < m" "slot_key md bs s = Some k" by (auto simp: set_slot_entries)
      with Suc.prems [of s m k] Some show False by simp
    qed
    moreover have "slot_entries md bs (Suc m) =
        slot_entries md bs m @ [\<lparr>fe_primary_key = k, fe_row_offset = slot_row md bs m\<rparr>]"
      using Some by (simp add: slot_entries_def map_filter_def)
    ultimately show ?thesis using IH by simp
  qed
qed (simp add: slot_entries_def map_filter_def)

lemma map_of_entries:
  assumes "distinct (map fe_primary_key es)"
  shows "map_of (map (\<lambda>e. (fe_primary_key e, fe_row_offset e)) es) k = Some r
    \<longleftrightarrow> (\<exists>e \<in> set es. fe_primary_key e = k \<and> fe_row_offset e = r)"
proof -
  have "distinct (map fst (map (\<lambda>e. (fe_primary_key e, fe_row_offset e)) es))"
    using assms by (simp add: comp_def)
  from map_of_eq_Some_iff [OF this] show ?thesis by auto
qed

lemma Lookup_map_of:
  assumes wf: "frozen_wf md bs" and d: "distinct (map fe_primary_key es)"
    and es: "\<And>k r. (\<exists>s < unat (md_capacity md). slot_key md bs s = Some k \<and> slot_row md bs s = r)
      \<longleftrightarrow> (\<exists>e \<in> set es. fe_primary_key e = k \<and> fe_row_offset e = r)"
  shows "Lookup \<lparr>vw_bytes = bs, vw_metadata = md\<rparr> k
    = Inr (map_of (map (\<lambda>e. (fe_primary_key e, fe_row_offset e)) es) k)"
proof -
  from Lookup_wf(1) [OF wf] obtain r where r: "Lookup \<lparr>vw_bytes = bs, vw_metadata = md\<rparr> k = Inr r" by blast
  have "r = Some x \<longleftrightarrow> map_of (map (\<lambda>e. (fe_primary_key e, fe_row_offset e)) es) k = Some x" for x
    using Lookup_wf(2) [OF wf, of k x] unfolding r es map_of_entries [OF d] by simp
  then have "r = map_of (map (\<lambda>e. (fe_primary_key e, fe_row_offset e)) es) k" by (rule option_eqI)
  with r show ?thesis by simp
qed

lemma wf_unique:
  assumes "frozen_wf md bs" and "s < unat (md_capacity md)" "s' < unat (md_capacity md)"
    and "slot_key md bs s = Some k" "slot_key md bs s' = Some k"
  shows "s = s'"
  using fz.stored_unique [of md "slot_key md bs" s k s'] assms by (simp add: frozen_wf_def frozen_slots_def)

end
