(* ===== verification/Frozen_Build.thy ===== *)
theory Frozen_Build
  imports Frozen_Index "HOL-Library.Multiset"
begin

text \<open>
  Correctness of \<open>BuildFrozenPrimaryKeyIndex\<close> against the view of the same file: the header
  survives the round trip, the placement loop keeps every stored key reachable and always finds an
  empty slot, and the finished bytes are accepted by \<open>Validate\<close> and answer lookups as the
  entry list does.
\<close>

section \<open>Reference definitions\<close>

definition header_bytes :: "FrozenPrimaryKeyIndexMetadata \<Rightarrow> byte list" where
  "header_bytes md = le_bytes kFrozenMagic @ le_bytes kFrozenFormatVersion @ le_bytes (80 :: u32)
     @ le_bytes (md_row_count md) @ le_bytes (md_capacity md) @ le_bytes (md_hash_seed md)
     @ le_bytes (md_hash_version md) @ le_bytes (md_group_width md) @ le_bytes (md_control_offset md)
     @ le_bytes (md_key_offset md) @ le_bytes (md_row_offset_offset md) @ le_bytes (md_total_size md)"

text \<open>The bytes after an entry has been stored in slot \<open>s\<close>.\<close>

definition placed :: "FrozenPrimaryKeyIndexMetadata \<Rightarrow> nat \<Rightarrow> FrozenPrimaryKeyIndexEntry \<Rightarrow> byte list \<Rightarrow> byte list" where
  "placed md s e bs =
     overwrite (unat (md_row_offset_offset md) + 8 * s) (le_bytes (fe_row_offset e))
       (overwrite (unat (md_key_offset md) + 8 * s) (le_bytes (fe_primary_key e))
          (bs[unat (md_control_offset md) + s := H2 (key_hash md (fe_primary_key e))]))"

text \<open>The invariant of the placement loop, for the entries placed so far.\<close>

definition partial_build :: "FrozenPrimaryKeyIndexMetadata \<Rightarrow> FrozenPrimaryKeyIndexEntry list \<Rightarrow> byte list \<Rightarrow> bool" where
  "partial_build md es bs \<longleftrightarrow>
     frozen_layout md (length bs) \<and> take 80 bs = header_bytes md \<and> frozen_slots md bs
     \<and> card (occupied md bs) = length es
     \<and> (\<forall>k r. (\<exists>s < unat (md_capacity md). slot_key md bs s = Some k \<and> slot_row md bs s = r)
              \<longleftrightarrow> (\<exists>e \<in> set es. fe_primary_key e = k \<and> fe_row_offset e = r))"

section \<open>Header round trip\<close>

text \<open>Writing adjacent fields one after the other is writing their concatenation.\<close>

lemma rbind_write_adjacent:
  fixes v :: "'a :: len word"
  assumes "off = length ys" and "length ys + sizeof TYPE('a) \<le> length xs"
  shows "rbind (WriteLittleEndian v (overwrite 0 ys xs) off) f = f (overwrite 0 (ys @ le_bytes v) xs)"
  using assms overwrite_append_adjacent [of 0 ys "le_bytes v" xs]
  by (simp add: WriteLittleEndian_eq)

lemma write_adjacent:
  fixes v :: "'a :: len word"
  assumes "off = length ys" and "length ys + sizeof TYPE('a) \<le> length xs"
  shows "WriteLittleEndian v (overwrite 0 ys xs) off = Inr (overwrite 0 (ys @ le_bytes v) xs)"
  using rbind_write_adjacent [OF assms, of v Inr] by (cases "WriteLittleEndian v (overwrite 0 ys xs) off") simp_all

lemma WriteHeader_eq:
  assumes "80 \<le> length bs"
  shows "WriteHeader bs md = Inr (overwrite 0 (header_bytes md) bs)"
proof -
  have 0: "overwrite 0 [] bs = bs" by (simp add: overwrite_def)
  have "WriteHeader (overwrite 0 [] bs) md = Inr (overwrite 0 (header_bytes md) bs)"
    using assms
    by (simp add: WriteHeader_def rbind_write_adjacent write_adjacent kSerializedHeaderSize_def header_bytes_def)
  then show ?thesis by (simp only: 0)
qed

lemma length_header_bytes [simp]: "length (header_bytes md) = 80"
  by (simp add: header_bytes_def)

lemma ReadMetadata_header:
  assumes "take 80 bs = header_bytes md"
  shows "ReadMetadata bs = Inr md"
proof -
  have len: "80 \<le> length bs"
    using arg_cong [OF assms, of length] by simp
  have sub: "subspan off n bs = subspan off n (header_bytes md)" if "off + n \<le> 80" for off n
  proof -
    have "subspan off n bs = subspan off n (take 80 bs @ drop 80 bs)" by simp
    also have "\<dots> = subspan off n (take 80 bs)" using that len by (intro subspan_append1) simp
    finally show ?thesis by (simp only: assms)
  qed
  have rd: "ReadHeaderField bs off = Inr (le_word (subspan off (sizeof TYPE('a)) (header_bytes md)) :: 'a :: len word)"
    if "off + sizeof TYPE('a) \<le> 80" for off
    using that len sub [OF that] by (simp add: ReadHeaderField_eq ReadLittleEndian_eq)
  show ?thesis
    using len
    by (simp add: ReadMetadata_def rd kSerializedHeaderSize_def header_bytes_def subspan_def
        le_word_le_bytes)
qed

lemma GrowCapacity_Inr:
  assumes "GrowCapacity n cap m = Inr cap'" and "unat cap = 2 ^ b" and "b < 64"
  shows "m \<le> cap' \<and> cap \<le> cap' \<and> (\<exists>b' < 64. unat cap' = 2 ^ b')"
  using assms
proof (induction n arbitrary: cap b)
  case (Suc n)
  show ?case
  proof (cases "cap < m")
    case True
    with Suc.prems have g: "GrowCapacity n (cap * 2) m = Inr cap'" and "\<not> cap > (-1) div 2"
      by (auto split: if_splits)
    then have "unat cap \<le> (2 ^ 64 - 1) div 2" by (simp add: word_less_nat_alt unat_div)
    then have u: "unat (cap * 2) = 2 * unat cap" by (simp add: unat_mult_eq)
    have "2 ^ Suc b < (2 :: nat) ^ 64"
      using u Suc.prems(2) unsigned_less [of "cap * 2", where ?'a = nat] by simp
    then have "Suc b < 64" by (rule power_less_imp_less_exp [rotated]) simp
    with Suc.IH [OF g, of "Suc b"] u Suc.prems show ?thesis by (auto simp: word_le_nat_alt)
  next
    case False
    with Suc.prems show ?thesis by auto
  qed
qed simp

lemma GrowCapacity_succeeds:
  assumes "unat cap = 2 ^ b" and "unat m \<le> 2 ^ t" and "b \<le> t" and "t < 63" and "t - b < n"
  shows "\<exists>cap'. GrowCapacity n cap m = Inr cap' \<and> unat cap' \<le> 2 ^ t"
  using assms
proof (induction n arbitrary: cap b)
  case (Suc n)
  show ?case
  proof (cases "cap < m")
    case True
    then have "2 ^ b < unat m" using Suc.prems by (simp add: word_less_nat_alt)
    also note Suc.prems(2)
    finally have bt: "b < t" by simp
    have "(2 :: nat) ^ b \<le> 2 ^ 62" using Suc.prems by (intro power_increasing) auto
    then have small: "unat cap \<le> 2 ^ 62" using Suc.prems by simp
    then have u: "unat (cap * 2) = 2 ^ Suc b" using Suc.prems by (simp add: unat_mult_eq)
    have "\<not> cap > (-1) div 2" using small by (simp add: word_less_nat_alt unat_div)
    with True Suc.IH [OF u] Suc.prems bt show ?thesis by simp
  next
    case False
    with Suc.prems show ?thesis by (auto intro: power_increasing)
  qed
qed simp


lemma CalculateCapacity_Inr:
  assumes "CalculateCapacity n gw = Inr cap"
  shows "gw = 16" and "\<exists>b < 64. unat cap = 2 ^ b" and "16 \<le> unat cap" and "unat n \<le> unat cap div 8 * 7"
proof -
  from assms have gw: "gw = 16" and n: "\<not> n > ((-1) - 6) div 8"
    and g: "GrowCapacity 64 16 ((n * 8 + 6) div 7) = Inr cap"
    by (auto simp: CalculateCapacity_def kDefaultGroupWidth_def split: if_splits)
  show "gw = 16" by (rule gw)
  have c16: "unat (16 :: u64) = 2 ^ 4" by simp
  note G = GrowCapacity_Inr [OF g c16]
  then obtain b where b: "b < 64" "unat cap = 2 ^ b" by auto
  then show "\<exists>b < 64. unat cap = 2 ^ b" by blast
  show cap: "16 \<le> unat cap" using G by (simp add: word_le_nat_alt)
  have "unat n \<le> (2 ^ 64 - 7) div 8" using n by (simp add: word_less_nat_alt unat_div)
  then have "unat (n * 8 + 6) = unat n * 8 + 6" by (simp add: unat_add_eq unat_mult_eq)
  then have ceil: "(unat n * 8 + 6) div 7 \<le> unat cap" using G by (simp add: word_le_nat_alt unat_div)
  have "4 \<le> b"
  proof (rule ccontr)
    assume "\<not> 4 \<le> b"
    then have "(2 :: nat) ^ b < 2 ^ 4" by (intro power_strict_increasing) auto
    with cap b show False by simp
  qed
  then have "8 dvd unat cap" using b le_imp_power_dvd [of 3 b "2 :: nat"] by simp
  then obtain q where "unat cap = 8 * q" by blast
  with ceil show "unat n \<le> unat cap div 8 * 7" by simp
qed

lemma PlanMetadata_Inr:
  assumes cap: "CalculateCapacity (of_nat n) (bo_group_width opts) = Inr cap"
    and plan: "PlanMetadata n cap opts = Inr md" and n: "n < 2 ^ 64"
  shows "frozen_layout md (unat (md_total_size md))" and "unat (md_row_count md) = n"
    and "n \<le> unat (md_capacity md) div 8 * 7"
proof -
  note c = CalculateCapacity_Inr [OF cap]
  have un: "unat (of_nat n :: u64) = n" using n by (simp add: unat_of_nat)
  let ?cb = "cap + 16" and ?kb = "cap * 8"
  from plan c(1) have sizes: "unat cap + 16 < 2 ^ 64" "unat cap * 8 < 2 ^ 64" "80 + unat ?cb < 2 ^ 64"
    "unat (80 + ?cb) + unat ?kb < 2 ^ 64" "unat (80 + ?cb + ?kb) + unat ?kb < 2 ^ 64"
    and md: "md = \<lparr>md_row_count = of_nat n, md_capacity = cap, md_hash_seed = bo_hash_seed opts,
      md_hash_version = bo_hash_version opts, md_group_width = 16, md_control_offset = 80,
      md_key_offset = 80 + ?cb, md_row_offset_offset = 80 + ?cb + ?kb, md_total_size = 80 + ?cb + ?kb + ?kb\<rparr>"
    by (auto simp: PlanMetadata_def CheckedAdd_Inr CheckedMul_Inr kSerializedHeaderSize_def)
  have cb: "unat ?cb = unat cap + 16" and kb: "unat ?kb = unat cap * 8"
    using sizes by (simp_all add: unat_add_eq unat_mult_eq)
  have k: "unat (80 + ?cb) = 96 + unat cap"
    using sizes(3) unat_add_eq [of 80 ?cb] by (simp only: cb) simp
  have r: "unat (80 + ?cb + ?kb) = 96 + 9 * unat cap"
    using sizes(4) unat_add_eq [of "80 + ?cb" ?kb] by (simp only: k kb) simp
  have t: "unat (80 + ?cb + ?kb + ?kb) = 96 + 17 * unat cap"
    using sizes(5) unat_add_eq [of "80 + ?cb + ?kb" ?kb] by (simp only: r kb) simp
  show "frozen_layout md (unat (md_total_size md))"
    using c(2,3,4) un k r t by (simp add: frozen_layout_def md Let_def)
  show "unat (md_row_count md) = n" "n \<le> unat (md_capacity md) div 8 * 7"
    using c(4) un by (simp_all add: md)
qed


lemma FindFreeSlot_eq:
  assumes lay: "frozen_layout md (length bs)" and "unat slot = frozen_probe md k i"
    and absent: "\<And>s. s < unat (md_capacity md) \<Longrightarrow> slot_key md bs s \<noteq> Some k"
  shows "FindFreeSlot bs md n slot =
    (case probe_search (slot_key md bs) (frozen_probe md) k i n of
       Vacant s \<Rightarrow> Inr (of_nat s) | _ \<Rightarrow> Inl Diverge)"
  using assms(2)
proof (induction n arbitrary: i slot)
  case (Suc n)
  have "slot_key md bs (frozen_probe md k i) \<noteq> Some k" by (rule absent [OF probe_lt [OF lay]])
  moreover have "slot = of_nat (frozen_probe md k i)" by (simp add: Suc.prems [symmetric])
  ultimately show ?case
    using Suc.IH [OF probe_step [OF lay Suc.prems]] Suc.prems slot_key_None_iff [of md bs slot]
    by (auto split: option.splits)
qed simp

lemma placed_slots:
  assumes lay: "frozen_layout md (length bs)" and s: "s < unat (md_capacity md)"
  shows "length (placed md s e bs) = length bs" and "take 80 (placed md s e bs) = take 80 bs"
    and "j < unat (md_capacity md) \<Longrightarrow> placed md s e bs ! (unat (md_control_offset md) + j) =
      (if j = s then H2 (key_hash md (fe_primary_key e)) else bs ! (unat (md_control_offset md) + j))"
    and "j < unat (md_capacity md) \<Longrightarrow> slot_key md (placed md s e bs) j =
      (if j = s then Some (fe_primary_key e) else slot_key md bs j)"
    and "j < unat (md_capacity md) \<Longrightarrow> slot_row md (placed md s e bs) j =
      (if j = s then fe_row_offset e else slot_row md bs j)"
proof -
  note l = frozen_layoutD [OF lay]
  let ?c = "unat (md_capacity md)"
  let ?b1 = "bs[80 + s := H2 (key_hash md (fe_primary_key e))]"
  let ?b2 = "overwrite (96 + ?c + 8 * s) (le_bytes (fe_primary_key e)) ?b1"
  let ?b3 = "overwrite (96 + 9 * ?c + 8 * s) (le_bytes (fe_row_offset e)) ?b2"
  have p: "placed md s e bs = ?b3" by (simp add: placed_def l)
  have len: "length bs = 96 + 17 * ?c" "length ?b1 = 96 + 17 * ?c" "length ?b2 = 96 + 17 * ?c"
    "length ?b3 = 96 + 17 * ?c" using l s by simp_all
  show "length (placed md s e bs) = length bs" by (simp only: p len)
  show "take 80 (placed md s e bs) = take 80 bs"
    unfolding p using s by (intro nth_equalityI) (simp_all add: nth_overwrite len)
  show ctl: "placed md s e bs ! (unat (md_control_offset md) + j) =
      (if j = s then H2 (key_hash md (fe_primary_key e)) else bs ! (unat (md_control_offset md) + j))"
    if "j < ?c" for j
    unfolding p l(3) using s that by (simp add: nth_overwrite len)
  have key: "subspan (96 + ?c + 8 * j) 8 ?b3 =
      (if j = s then le_bytes (fe_primary_key e) else subspan (96 + ?c + 8 * j) 8 bs)" if "j < ?c"
    using s that subspan_overwrite_same [of "96 + ?c + 8 * s" "le_bytes (fe_primary_key e)" ?b1]
    by (cases "j < s"; cases "s < j") (simp_all add: subspan_overwrite_disjoint subspan_list_update len)
  show "slot_key md (placed md s e bs) j = (if j = s then Some (fe_primary_key e) else slot_key md bs j)"
    if "j < ?c"
    using ctl [OF that] key [OF that] H2_not_empty
    by (cases "j = s") (simp_all add: slot_key_def l(4) p le_word_le_bytes)
  have row: "subspan (96 + 9 * ?c + 8 * j) 8 ?b3 =
      (if j = s then le_bytes (fe_row_offset e) else subspan (96 + 9 * ?c + 8 * j) 8 bs)" if "j < ?c"
    using s that subspan_overwrite_same [of "96 + 9 * ?c + 8 * s" "le_bytes (fe_row_offset e)" ?b2]
    by (cases "j < s"; cases "s < j") (simp_all add: subspan_overwrite_disjoint subspan_list_update len)
  show "slot_row md (placed md s e bs) j = (if j = s then fe_row_offset e else slot_row md bs j)"
    if "j < ?c"
    using row [OF that] by (cases "j = s") (simp_all add: slot_row_def l(5) p le_word_le_bytes)
qed


lemma PlaceEntry_eq:
  assumes lay: "frozen_layout md (length bs)" and fs: "frozen_slots md bs"
    and absent: "\<And>s. s < unat (md_capacity md) \<Longrightarrow> slot_key md bs s \<noteq> Some (fe_primary_key e)"
    and "s < unat (md_capacity md)" "slot_key md bs s = None"
  shows "\<exists>s < unat (md_capacity md). slot_key md bs s = None \<and> PlaceEntry md e bs = Inr (placed md s e bs)
     \<and> frozen_slots md (placed md s e bs)"
proof -
  let ?c = "unat (md_capacity md)" and ?T = "slot_key md bs" and ?k = "fe_primary_key e"
  from fs have inv: "probe_inv ?c (frozen_probe md) ?T" by (simp add: frozen_slots_def)
  have "probe_search ?T (frozen_probe md) ?k 0 ?c \<noteq> Exhausted"
    using assms(4,5) by (rule fz.search_not_Exhausted)
  moreover have "probe_search ?T (frozen_probe md) ?k 0 ?c \<noteq> Hit s" for s
    using fz.search_Hit_iff [OF inv] absent by blast
  ultimately obtain t where t: "probe_search ?T (frozen_probe md) ?k 0 ?c = Vacant t"
    by (cases "probe_search ?T (frozen_probe md) ?k 0 ?c") auto
  note V = fz.search_Vacant [OF inv t]
  have ut: "unat (of_nat t :: u64) = t" by (rule unat_slot [OF V(1)])
  have free: "FindFreeSlot bs md ?c (key_hash md ?k AND (md_capacity md - 1)) = Inr (of_nat t)"
    using FindFreeSlot_eq [OF lay probe_home [OF lay] absent, of ?c] t by simp
  note l = frozen_layoutD [OF lay]
  have "PlaceEntry md e bs = Inr (placed md t e bs)"
    using free SlotOffset_eq [OF lay, of "of_nat t"] V(1) l(3,4,5,7)
    by (simp add: PlaceEntry_def key_hash_def [symmetric] ut placed_def WriteLittleEndian_eq)
  moreover have "probe_inv ?c (frozen_probe md) (slot_key md (placed md t e bs))"
    using V(4) probe_inv_cong [of ?c "frozen_probe md" "?T(t := Some ?k)" "slot_key md (placed md t e bs)"]
    by (simp add: probe_lt [OF lay] placed_slots(4) [OF lay V(1)])
  with fs have "frozen_slots md (placed md t e bs)"
    by (auto simp: frozen_slots_def placed_slots(3,4) [OF lay V(1)])
  ultimately show ?thesis using V(1,2) by blast
qed

lemma PlaceEntry_partial_build:
  assumes pb: "partial_build md es bs" and new: "fe_primary_key e \<notin> fe_primary_key ` set es"
    and room: "length es < unat (md_capacity md)"
  shows "\<exists>bs'. PlaceEntry md e bs = Inr bs' \<and> partial_build md (es @ [e]) bs'"
proof -
  let ?c = "unat (md_capacity md)"
  from pb have lay: "frozen_layout md (length bs)" and fs: "frozen_slots md bs"
    and cnt: "card (occupied md bs) = length es"
    and es: "\<And>k r. (\<exists>s < ?c. slot_key md bs s = Some k \<and> slot_row md bs s = r)
              \<longleftrightarrow> (\<exists>e \<in> set es. fe_primary_key e = k \<and> fe_row_offset e = r)"
    by (auto simp: partial_build_def)
  have absent: "slot_key md bs s \<noteq> Some (fe_primary_key e)" if "s < ?c" for s
    using es [of "fe_primary_key e" "slot_row md bs s"] that new by (metis imageI)
  have "occupied md bs \<noteq> {0..<?c}" using cnt room by auto
  then obtain s where s: "s < ?c" "slot_key md bs s = None" by (fastforce simp: occupied_def)
  from PlaceEntry_eq [OF lay fs absent s] obtain t where t: "t < ?c" "slot_key md bs t = None"
    and pe: "PlaceEntry md e bs = Inr (placed md t e bs)" and fs': "frozen_slots md (placed md t e bs)"
    by blast
  note P = placed_slots [OF lay t(1)]
  have "occupied md (placed md t e bs) = insert t (occupied md bs)"
    using t(1) by (auto simp: occupied_def P split: if_splits)
  moreover have "t \<notin> occupied md bs" "finite (occupied md bs)" using t by (auto simp: occupied_def)
  ultimately have card: "card (occupied md (placed md t e bs)) = length (es @ [e])" using cnt by simp
  have "(\<exists>s < ?c. slot_key md (placed md t e bs) s = Some k \<and> slot_row md (placed md t e bs) s = r)
      \<longleftrightarrow> (\<exists>s < ?c. slot_key md bs s = Some k \<and> slot_row md bs s = r)
        \<or> fe_primary_key e = k \<and> fe_row_offset e = r" for k r
    using t P(4,5) by (metis option.distinct(1) option.inject)
  then have "partial_build md (es @ [e]) (placed md t e bs)"
    using pb lay fs' card es by (auto simp: partial_build_def P(1,2))
  with pe show ?thesis by blast
qed

lemma PlaceEntries_partial_build:
  assumes "partial_build md es bs" and "distinct (map fe_primary_key (es @ es'))"
    and "length (es @ es') \<le> unat (md_capacity md)"
  shows "\<exists>bs'. foldM_res (PlaceEntry md) es' bs = Inr bs' \<and> partial_build md (es @ es') bs'"
  using assms
proof (induction es' arbitrary: es bs)
  case (Cons e es')
  from PlaceEntry_partial_build [OF Cons.prems(1), of e] Cons.prems(2,3)
  obtain b where b: "PlaceEntry md e bs = Inr b" "partial_build md (es @ [e]) b" by auto
  from Cons.IH [OF b(2)] Cons.prems(2,3) b(1) show ?case by auto
qed simp


lemma empty_partial_build:
  assumes lay: "frozen_layout md (length bs)" and hd: "take 80 bs = header_bytes md"
    and free: "\<And>s. s < unat (md_capacity md) \<Longrightarrow> bs ! (80 + s) = kEmptyControl"
  shows "partial_build md [] bs"
proof -
  have "slot_key md bs s = None" if "s < unat (md_capacity md)" for s
    using free [OF that] by (simp add: slot_key_def frozen_layoutD(3) [OF lay])
  with lay hd show ?thesis by (auto simp: partial_build_def frozen_slots_def probe_inv_def occupied_def)
qed

lemma fold_copy:
  "src + n \<le> off \<Longrightarrow> off + n \<le> length xs \<Longrightarrow>
   fold (\<lambda>i bs. bs[off + i := bs ! (src + i)]) [0..<n] xs
   = overwrite off (map (\<lambda>i. xs ! (src + i)) [0..<n]) xs"
proof (induction n)
  case (Suc n)
  let ?ys = "overwrite off (map (\<lambda>i. xs ! (src + i)) [0..<n]) xs"
  have "fold (\<lambda>i bs. bs[off + i := bs ! (src + i)]) [0..<Suc n] xs = ?ys[off + n := ?ys ! (src + n)]"
    using Suc by simp
  also have "?ys ! (src + n) = xs ! (src + n)" using Suc.prems by (subst nth_overwrite) auto
  finally show ?case
    using Suc.prems overwrite_snoc [of off "map (\<lambda>i. xs ! (src + i)) [0..<n]" xs "xs ! (src + n)"] by simp
qed (simp add: overwrite_def)

text \<open>Copying the first sixteen control bytes behind the others completes the index.\<close>

lemma partial_build_mirror:
  assumes pb: "partial_build md es bs" and rows: "unat (md_row_count md) = length es"
    and bs': "bs' = overwrite (80 + unat (md_capacity md)) (map (\<lambda>i. bs ! (80 + i)) [0..<16]) bs"
  shows "frozen_wf md bs'" and "partial_build md es bs'"
proof -
  let ?c = "unat (md_capacity md)"
  from pb have lay: "frozen_layout md (length bs)" by (simp add: partial_build_def)
  note l = frozen_layoutD [OF lay]
  have len: "length bs' = length bs" using l by (simp add: bs')
  have ctl: "bs' ! (80 + s) = bs ! (80 + s)" if "s < ?c" for s
    using l that by (simp add: bs' nth_overwrite)
  have slots: "slot_key md bs' s = slot_key md bs s" "slot_row md bs' s = slot_row md bs s" if "s < ?c" for s
    using l that ctl [OF that] by (simp_all add: slot_key_def slot_row_def bs' subspan_overwrite_disjoint)
  have "take 80 bs' = take 80 bs" using l by (simp add: bs' overwrite_def)
  moreover have occ: "occupied md bs' = occupied md bs" by (auto simp: occupied_def slots)
  moreover have "probe_inv ?c (frozen_probe md) (slot_key md bs') = probe_inv ?c (frozen_probe md) (slot_key md bs)"
    by (rule probe_inv_cong) (auto simp: probe_lt [OF lay] slots)
  then have fs: "frozen_slots md bs' = frozen_slots md bs"
    by (simp add: frozen_slots_def slots ctl l(3))
  ultimately show "partial_build md es bs'"
    using pb by (simp add: partial_build_def len slots cong: conj_cong)
  have "ControlMirrored bs' md"
    using l by (auto simp: ControlMirrored_def ctl) (simp add: bs' nth_overwrite)
  with pb lay occ fs rows show "frozen_wf md bs'" by (simp add: frozen_wf_def len partial_build_def)
qed

lemma Build_Inr:
  assumes cap: "CalculateCapacity (of_nat (length es)) (bo_group_width opts) = Inr cap"
    and d: "distinct (map fe_primary_key es)"
    and plan: "PlanMetadata (length es) cap opts = Inr md" and n: "length es < 2 ^ 64"
  shows "\<exists>bs. BuildFrozenPrimaryKeyIndex es opts = Inr bs \<and> partial_build md es bs \<and> frozen_wf md bs"
proof -
  let ?c = "unat (md_capacity md)"
  note P = PlanMetadata_Inr [OF cap plan n]
  note l = frozen_layoutD [OF P(1)]
  let ?b0 = "replicate (unat (md_total_size md)) (0 :: byte)"
  let ?b1 = "overwrite 0 (header_bytes md) ?b0"
  let ?b2 = "overwrite 80 (map (\<lambda>i. kEmptyControl) [0..<?c + 16]) ?b1"
  have hdr: "WriteHeader ?b0 md = Inr ?b1" using l(6) by (intro WriteHeader_eq) simp
  have len: "length ?b1 = 96 + 17 * ?c" "length ?b2 = 96 + 17 * ?c" using l(6) by simp_all
  have w16: "unat (md_capacity md + ucast (md_group_width md)) = ?c + 16"
    using l(8) by (simp add: l(9) unat_add_eq)
  have fill: "fold (\<lambda>i bs. bs[unat (md_control_offset md) + i := kEmptyControl])
      [0..<unat (md_capacity md + ucast (md_group_width md))] ?b1 = ?b2"
    unfolding w16 l(3) by (rule fold_list_update) (simp add: len)
  have "partial_build md [] ?b2"
  proof (rule empty_partial_build)
    show "frozen_layout md (length ?b2)" by (simp only: len(2)) (use P(1) l(7) in simp)
    show "take 80 ?b2 = header_bytes md" by (simp add: overwrite_def)
    show "?b2 ! (80 + s) = kEmptyControl" if "s < ?c" for s using that len by (simp add: nth_overwrite)
  qed
  moreover have "length es \<le> ?c" using P(3) by simp
  ultimately obtain b3 where b3: "foldM_res (PlaceEntry md) es ?b2 = Inr b3" "partial_build md es b3"
    using PlaceEntries_partial_build [of md "[]" ?b2 es] d by auto
  define bs where "bs = overwrite (80 + ?c) (map (\<lambda>i. b3 ! (80 + i)) [0..<16]) b3"
  have "frozen_layout md (length b3)" using b3(2) by (simp add: partial_build_def)
  from frozen_layoutD(7) [OF this]
  have mirror: "fold (\<lambda>i bs. bs[unat (md_control_offset md) + ?c + i := bs ! (unat (md_control_offset md) + i)])
      [0..<unat (md_group_width md)] b3 = bs"
    using l(2) fold_copy [of 80 16 "80 + ?c" b3] by (simp add: l(3,9) bs_def)
  have "BuildFrozenPrimaryKeyIndex es opts = Inr bs"
    using cap d plan
    by (simp add: BuildFrozenPrimaryKeyIndex_def hdr fill b3(1) mirror [symmetric] Let_def)
  with partial_build_mirror [OF b3(2) P(2) bs_def] show ?thesis by blast
qed


lemma PlanMetadata_succeeds:
  assumes "bo_group_width opts = 16" and "unat cap \<le> 2 ^ 59"
  shows "\<exists>md. PlanMetadata n cap opts = Inr md"
proof -
  have cb: "unat (cap + 16) = unat cap + 16" and kb: "unat (cap * 8) = unat cap * 8"
    using assms(2) by (simp_all add: unat_add_eq unat_mult_eq)
  have k: "unat (80 + (cap + 16)) = 96 + unat cap"
    using assms(2) unat_add_eq [of 80 "cap + 16"] by (simp only: cb) simp
  have r: "unat (80 + (cap + 16) + cap * 8) = 96 + 9 * unat cap"
    using assms(2) unat_add_eq [of "80 + (cap + 16)" "cap * 8"] by (simp only: k kb) simp
  have "unat total \<le> 2 ^ 64 - 1" for total :: u64
    using unsigned_less [of total, where ?'a = nat] by simp
  moreover have "CheckedAdd cap 16 = Inr (cap + 16)" "CheckedMul cap 8 = Inr (cap * 8)"
    "CheckedAdd 80 (cap + 16) = Inr (80 + (cap + 16))"
    "CheckedAdd (80 + (cap + 16)) (cap * 8) = Inr (80 + (cap + 16) + cap * 8)"
    "CheckedAdd (80 + (cap + 16) + cap * 8) (cap * 8) = Inr (80 + (cap + 16) + cap * 8 + cap * 8)"
    using assms(2) by (simp_all only: CheckedAdd_Inr CheckedMul_Inr cb kb k r) simp_all
  ultimately show ?thesis
    by (simp add: PlanMetadata_def assms(1) kSerializedHeaderSize_def reject_def not_less)
qed

lemma CalculateCapacity_succeeds:
  assumes "n \<le> 2 ^ 58"
  shows "\<exists>cap. CalculateCapacity (of_nat n) 16 = Inr cap \<and> unat cap \<le> 2 ^ 59"
proof -
  have un: "unat (of_nat n :: u64) = n" using assms by (simp add: unat_of_nat)
  have "unat (of_nat n * 8 + 6 :: u64) = n * 8 + 6" using assms by (simp add: unat_add_eq unat_mult_eq un)
  then have m: "unat ((of_nat n * 8 + 6) div 7 :: u64) \<le> 2 ^ 59" using assms by (simp add: unat_div)
  have c16: "unat (16 :: u64) = 2 ^ 4" by simp
  from GrowCapacity_succeeds [OF c16 m, of 64]
  obtain cap where "GrowCapacity 64 16 ((of_nat n * 8 + 6) div 7) = Inr cap" "unat cap \<le> 2 ^ 59" by auto
  moreover have "\<not> (of_nat n :: u64) > ((-1) - 6) div 8"
    using assms un by (simp add: word_less_nat_alt unat_div)
  ultimately show ?thesis by (simp add: CalculateCapacity_def kDefaultGroupWidth_def)
qed

lemma Build_succeeds:
  assumes "bo_group_width opts = 16" and "length es \<le> 2 ^ 58" and d: "distinct (map fe_primary_key es)"
  shows "\<exists>bs. BuildFrozenPrimaryKeyIndex es opts = Inr bs"
proof -
  from CalculateCapacity_succeeds [OF assms(2)] obtain cap
    where cap: "CalculateCapacity (of_nat (length es)) (bo_group_width opts) = Inr cap" "unat cap \<le> 2 ^ 59"
    using assms(1) by auto
  from PlanMetadata_succeeds [OF assms(1) cap(2)] obtain md where "PlanMetadata (length es) cap opts = Inr md" ..
  from Build_Inr [OF cap(1) d this] assms(2) show ?thesis by auto
qed

lemma Build_InrE:
  assumes "BuildFrozenPrimaryKeyIndex es opts = Inr bs" and "length es < 2 ^ 64"
  obtains md where "partial_build md es bs" and "frozen_wf md bs" and "distinct (map fe_primary_key es)"
proof -
  from assms(1) obtain cap md where c: "CalculateCapacity (of_nat (length es)) (bo_group_width opts) = Inr cap"
    and d: "distinct (map fe_primary_key es)" and p: "PlanMetadata (length es) cap opts = Inr md"
    by (auto simp: BuildFrozenPrimaryKeyIndex_def)
  from Build_Inr [OF c d p assms(2)] assms(1) that d show thesis by auto
qed

text \<open>
  C2. A view that \<open>Validate\<close> accepts answers every lookup without an error, and the answer is the
  row offset that \<open>Entries\<close> lists for the key, if it lists one; the listed keys are distinct.
\<close>

theorem validated_view_lookup:
  assumes "Validate bs = Inr v"
  shows "\<exists>es. Entries v = Inr es \<and> distinct (map fe_primary_key es)
    \<and> (\<forall>k. Lookup v k = Inr (map_of (map (\<lambda>e. (fe_primary_key e, fe_row_offset e)) es) k))"
proof -
  from assms obtain md where v: "v = \<lparr>vw_bytes = bs, vw_metadata = md\<rparr>" and wf: "frozen_wf md bs"
    unfolding Validate_iff by blast
  let ?es = "slot_entries md bs (unat (md_capacity md))"
  have d: "distinct (map fe_primary_key ?es)"
    by (rule distinct_slot_entries) (rule wf_unique [OF wf])
  have "Entries v = Inr ?es" using wf by (simp add: v Entries_eq frozen_wf_def)
  moreover have "Lookup v k = Inr (map_of (map (\<lambda>e. (fe_primary_key e, fe_row_offset e)) ?es) k)" for k
    unfolding v by (rule Lookup_map_of [OF wf d]) (rule slot_entries_rows)
  ultimately show ?thesis using d by blast
qed

theorem validated_view_lookup_witness:
  "\<exists>bs v es. Validate bs = Inr v \<and> Entries v = Inr es
    \<and> (\<forall>k. Lookup v k = Inr (map_of (map (\<lambda>e. (fe_primary_key e, fe_row_offset e)) es) k))"
proof -
  let ?es = "[\<lparr>fe_primary_key = 7, fe_row_offset = 100\<rparr>, \<lparr>fe_primary_key = 9, fe_row_offset = 200\<rparr>]"
  let ?o = "\<lparr>bo_hash_seed = 5, bo_hash_version = 1, bo_group_width = 16\<rparr>"
  obtain bs where "BuildFrozenPrimaryKeyIndex ?es ?o = Inr bs" using Build_succeeds [of ?o ?es] by auto
  from Build_InrE [OF this] obtain md where "partial_build md ?es bs" "frozen_wf md bs" by auto
  then obtain v where "Validate bs = Inr v"
    by (auto simp: Validate_iff partial_build_def intro: ReadMetadata_header)
  from validated_view_lookup [OF this] this show ?thesis by blast
qed

lemma Build_view:
  assumes "BuildFrozenPrimaryKeyIndex es opts = Inr bs" and "length es < 2 ^ 64"
  shows "\<exists>v. Validate bs = Inr v \<and> (\<exists>es'. Entries v = Inr es' \<and> mset es' = mset es)
    \<and> (\<forall>k. Lookup v k = Inr (map_of (map (\<lambda>e. (fe_primary_key e, fe_row_offset e)) es) k))"
proof -
  from Build_InrE [OF assms] obtain md where pb: "partial_build md es bs" and wf: "frozen_wf md bs"
    and d: "distinct (map fe_primary_key es)" .
  let ?v = "\<lparr>vw_bytes = bs, vw_metadata = md\<rparr>" and ?es = "slot_entries md bs (unat (md_capacity md))"
  from pb have rows: "(\<exists>s < unat (md_capacity md). slot_key md bs s = Some k \<and> slot_row md bs s = r)
      \<longleftrightarrow> (\<exists>e \<in> set es. fe_primary_key e = k \<and> fe_row_offset e = r)" for k r
    by (simp add: partial_build_def)
  have "Validate bs = Inr ?v"
    using pb wf by (auto simp: Validate_iff partial_build_def intro: ReadMetadata_header)
  moreover have "Entries ?v = Inr ?es" using wf by (simp add: Entries_eq frozen_wf_def)
  moreover have "mset ?es = mset es"
  proof -
    have "distinct (map fe_primary_key ?es)" by (rule distinct_slot_entries) (rule wf_unique [OF wf])
    then have "distinct ?es" "distinct es" using d by (auto simp: distinct_map)
    moreover have "set ?es = set es"
      using rows by (auto simp: set_slot_entries) (metis FrozenPrimaryKeyIndexEntry.equality old.unit.exhaust)
    ultimately show ?thesis by (simp add: set_eq_iff_mset_eq_distinct)
  qed
  ultimately show ?thesis using Lookup_map_of [OF wf d rows] by blast
qed

text \<open>
  C1. The builder and the view agree: the bytes built from a list of entries pass \<open>Validate\<close>,
  the view lists exactly these entries (in slot order), and a lookup of any key answers what the
  entry list says.
\<close>

theorem build_validates:
  assumes "BuildFrozenPrimaryKeyIndex es opts = Inr bs" and "length es < 2 ^ 64"
  shows "\<exists>v. Validate bs = Inr v \<and> (\<exists>es'. Entries v = Inr es' \<and> mset es' = mset es)
    \<and> (\<forall>k. Lookup v k = Inr (map_of (map (\<lambda>e. (fe_primary_key e, fe_row_offset e)) es) k))"
  by (rule Build_view [OF assms])

theorem build_validates_witness:
  "\<exists>bs v. BuildFrozenPrimaryKeyIndex
       [\<lparr>fe_primary_key = 7, fe_row_offset = 100\<rparr>, \<lparr>fe_primary_key = 9, fe_row_offset = 200\<rparr>]
       \<lparr>bo_hash_seed = 5, bo_hash_version = 1, bo_group_width = 16\<rparr> = Inr bs
     \<and> Validate bs = Inr v
     \<and> Lookup v 7 = Inr (Some 100) \<and> Lookup v 9 = Inr (Some 200) \<and> Lookup v 8 = Inr None"
proof -
  let ?es = "[\<lparr>fe_primary_key = 7, fe_row_offset = 100\<rparr>, \<lparr>fe_primary_key = 9, fe_row_offset = 200\<rparr>]"
  let ?o = "\<lparr>bo_hash_seed = 5, bo_hash_version = 1, bo_group_width = 16\<rparr>"
  from Build_succeeds [of ?o ?es] obtain bs where bs: "BuildFrozenPrimaryKeyIndex ?es ?o = Inr bs" by auto
  from build_validates [OF bs] obtain v where "Validate bs = Inr v"
    and "\<forall>k. Lookup v k = Inr (map_of (map (\<lambda>e. (fe_primary_key e, fe_row_offset e)) ?es) k)" by auto
  with bs show ?thesis by (intro exI [of _ bs] exI [of _ v]) simp
qed

text \<open>
  C27. For every list of up to \<open>2 ^ 58\<close> entries and the group width 16, which is the default and the only one
  that the builder supports, it ends: with an index when the keys
  are distinct, with the duplicate-key error otherwise. In particular its placement loop, which has
  no exit of its own when every slot is taken, always meets an empty slot.
\<close>

theorem build_total:
  assumes "bo_group_width opts = 16" and "length es \<le> 2 ^ 58"
  shows "if distinct (map fe_primary_key es) then \<exists>bs. BuildFrozenPrimaryKeyIndex es opts = Inr bs
    else BuildFrozenPrimaryKeyIndex es opts = Inl (InvalidArgument ''duplicate primary key in frozen index build'')"
proof -
  show ?thesis
    using Build_succeeds [OF assms] CalculateCapacity_succeeds [OF assms(2)] assms(1)
    by (auto simp: BuildFrozenPrimaryKeyIndex_def)
qed

theorem build_total_witness:
  "\<exists>bs. BuildFrozenPrimaryKeyIndex [\<lparr>fe_primary_key = 7, fe_row_offset = 100\<rparr>]
     \<lparr>bo_hash_seed = 5, bo_hash_version = 1, bo_group_width = 16\<rparr> = Inr bs"
  using build_total [of "\<lparr>bo_hash_seed = 5, bo_hash_version = 1, bo_group_width = 16\<rparr>"
      "[\<lparr>fe_primary_key = 7, fe_row_offset = 100\<rparr>]"] by simp

end
