(* ===== verification/Snapshot.thy ===== *)
theory Snapshot
  imports Row_Storage Frozen_Build
begin

text \<open>
  \<open>src/store/snapshot.{h,cc}\<close> and \<open>src/store/snapshot_builder.{h,cc}\<close>: an immutable snapshot
  is a frozen primary-key index over row slots and row payloads. The abstract class
  \<open>SnapshotBacking\<close> is a record of its virtual functions; \<open>OwnedSnapshotBacking\<close> provides one.
  The contract that the views need from a backing is the locale \<open>readable_backing\<close>, which is
  interpreted for the owned backing that \<open>SnapshotBuilder::Seal\<close> produces and for every backing
  that satisfies its laws.
\<close>

section \<open>Backings\<close>

record OwnedSnapshotRowPayload =
  op_arena :: "byte list"
  op_string_dictionary :: "string list"
  op_scalar_list_dictionary :: "byte list list"
  op_string_list_dictionary :: "string list list"
  op_string_element_dictionary :: "string list"

record SnapshotRow =
  sr_primary_key :: u64
  sr_encoded :: EncodedRow

text \<open>
  The virtual functions of a backing; the last component is the artifact id that a
  \<open>dynamic_cast\<close> to \<open>MmapSnapshotBacking\<close> gives access to.
\<close>

record SnapshotBacking =
  sb_layout :: "CompiledRowLayout option"
  sb_frozen_index_bytes :: "byte list"
  sb_row_count :: u64
  sb_EncodedRowAt :: "u64 \<Rightarrow> EncodedRow res"
  sb_mmap_artifact_id :: "string option"

record OwnedSnapshotBacking =
  ob_layout :: "CompiledRowLayout option"
  ob_frozen_index_bytes :: "byte list"
  ob_row_slot_bytes :: "byte list"
  ob_row_payloads :: "OwnedSnapshotRowPayload list"

definition owned_EncodedRowAt :: "OwnedSnapshotBacking \<Rightarrow> u64 \<Rightarrow> EncodedRow res" where
  "owned_EncodedRowAt b row_offset =
     (case ob_layout b of
        None \<Rightarrow> Inl (FailedPrecondition ''snapshot backing has no row layout'')
      | Some layout \<Rightarrow>
          (let row_slot_size = cl_row_slot_size layout; offset = unat row_offset;
               row_index = offset div row_slot_size in
           if row_slot_size = 0 then Inl (InvalidArgument ''snapshot row slot size is zero'')
           else if offset > length (ob_row_slot_bytes b)
           then Inl (InvalidArgument ''snapshot row offset is out of bounds'')
           else if length (ob_row_slot_bytes b) - offset < row_slot_size
           then Inl (InvalidArgument ''snapshot row slot is truncated'')
           else if offset mod row_slot_size \<noteq> 0
           then Inl (InvalidArgument ''snapshot row offset is not slot aligned'')
           else if row_index \<ge> length (ob_row_payloads b)
           then Inl (InvalidArgument ''snapshot row payload is missing'')
           else
             (let payload = ob_row_payloads b ! row_index in
              Inr \<lparr>er_schema_version = cl_schema_version layout,
                   er_layout_fingerprint = cl_layout_fingerprint layout,
                   er_row_slot = subspan offset row_slot_size (ob_row_slot_bytes b),
                   er_arena = op_arena payload,
                   er_string_dictionary = op_string_dictionary payload,
                   er_scalar_list_dictionary = op_scalar_list_dictionary payload,
                   er_string_list_dictionary = op_string_list_dictionary payload,
                   er_string_element_dictionary = op_string_element_dictionary payload\<rparr>)))"

definition owned_backing :: "OwnedSnapshotBacking \<Rightarrow> SnapshotBacking" where
  "owned_backing b =
     \<lparr>sb_layout = ob_layout b, sb_frozen_index_bytes = ob_frozen_index_bytes b,
      sb_row_count = of_nat (length (ob_row_payloads b)), sb_EncodedRowAt = owned_EncodedRowAt b,
      sb_mmap_artifact_id = None\<rparr>"

section \<open>Views\<close>

record ImmutableRowSnapshotView =
  iv_backing :: "SnapshotBacking option"
  iv_index :: "FrozenPrimaryKeyIndexView res"

definition ValidateBackingIndex :: "SnapshotBacking option \<Rightarrow> FrozenPrimaryKeyIndexView res" where
  "ValidateBackingIndex backing =
     (case backing of
        None \<Rightarrow> Inl (FailedPrecondition ''snapshot view has no backing'')
      | Some b \<Rightarrow> Validate (sb_frozen_index_bytes b))"

definition NewImmutableRowSnapshotView :: "SnapshotBacking option \<Rightarrow> ImmutableRowSnapshotView" where
  "NewImmutableRowSnapshotView backing =
     \<lparr>iv_backing = backing, iv_index = ValidateBackingIndex backing\<rparr>"

text \<open>An index can only be valid when there is a backing, so the null backing has no other branch.\<close>

definition iv_Get :: "ImmutableRowSnapshotView \<Rightarrow> u64 \<Rightarrow> Row option res" where
  "iv_Get v primary_key =
     rbind (iv_index v) (\<lambda>index.
     rbind (Lookup index primary_key) (\<lambda>row_offset.
       case (row_offset, iv_backing v) of
         (None, _) \<Rightarrow> Inr None
       | (Some off, Some backing) \<Rightarrow>
           rbind (sb_EncodedRowAt backing off) (\<lambda>encoded.
           rbind (MaterializeRow (sb_layout backing) encoded) (\<lambda>row.
           Inr (Some row)))
       | (Some off, None) \<Rightarrow> Inl (FailedPrecondition ''snapshot view has no backing'')))"

record FullSnapshotView =
  fsv_backing :: "SnapshotBacking option"
  fsv_view :: ImmutableRowSnapshotView

definition NewFullSnapshotView :: "SnapshotBacking option \<Rightarrow> FullSnapshotView" where
  "NewFullSnapshotView backing =
     \<lparr>fsv_backing = backing, fsv_view = NewImmutableRowSnapshotView backing\<rparr>"

definition fsv_Get :: "FullSnapshotView \<Rightarrow> u64 \<Rightarrow> Row option res" where
  "fsv_Get v primary_key = iv_Get (fsv_view v) primary_key"

record CompactDeltaSnapshot =
  cds_backing :: "OwnedSnapshotBacking option"
  cds_view :: ImmutableRowSnapshotView

definition NewCompactDeltaSnapshot :: "OwnedSnapshotBacking option \<Rightarrow> CompactDeltaSnapshot" where
  "NewCompactDeltaSnapshot backing =
     \<lparr>cds_backing = backing, cds_view = NewImmutableRowSnapshotView (map_option owned_backing backing)\<rparr>"

definition cds_Get :: "CompactDeltaSnapshot \<Rightarrow> u64 \<Rightarrow> Row option res" where
  "cds_Get v primary_key = iv_Get (cds_view v) primary_key"

definition EnumerateSnapshotRows :: "SnapshotBacking \<Rightarrow> SnapshotRow list res" where
  "EnumerateSnapshotRows backing =
     rbind (Validate (sb_frozen_index_bytes backing)) (\<lambda>index.
     rbind (Entries index) (\<lambda>entries.
     mapM_res (\<lambda>entry.
       rbind (sb_EncodedRowAt backing (fe_row_offset entry)) (\<lambda>encoded.
       Inr \<lparr>sr_primary_key = fe_primary_key entry, sr_encoded = encoded\<rparr>)) entries))"

section \<open>The builder\<close>

record SnapshotBuilder =
  bl_layout :: "CompiledRowLayout option"
  bl_hash_seed :: u64
  bl_hash_version :: u32
  bl_primary_keys :: "u64 list"
  bl_index_entries :: "FrozenPrimaryKeyIndexEntry list"
  bl_row_slot_bytes :: "byte list"
  bl_row_payloads :: "OwnedSnapshotRowPayload list"

definition NewSnapshotBuilder :: "CompiledRowLayout option \<Rightarrow> u64 \<Rightarrow> u32 \<Rightarrow> SnapshotBuilder" where
  "NewSnapshotBuilder layout hash_seed hash_version =
     \<lparr>bl_layout = layout, bl_hash_seed = hash_seed, bl_hash_version = hash_version, bl_primary_keys = [],
      bl_index_entries = [], bl_row_slot_bytes = [], bl_row_payloads = []\<rparr>"

text \<open>The test of the arena size against the largest 64-bit value cannot succeed.\<close>

definition AddRow :: "SnapshotBuilder \<Rightarrow> u64 \<Rightarrow> EncodedRow \<Rightarrow> SnapshotBuilder res" where
  "AddRow b primary_key encoded =
     (case bl_layout b of
        None \<Rightarrow> Inl (FailedPrecondition ''snapshot builder has no row layout'')
      | Some layout \<Rightarrow>
          if er_schema_version encoded \<noteq> cl_schema_version layout
             \<or> er_layout_fingerprint encoded \<noteq> cl_layout_fingerprint layout
          then Inl (FailedPrecondition ''encoded row metadata does not match snapshot layout'')
          else if length (er_row_slot encoded) < cl_row_slot_size layout
          then Inl (InvalidArgument ''encoded row slot is shorter than snapshot layout'')
          else if primary_key \<in> set (bl_primary_keys b)
          then Inl (InvalidArgument ''duplicate primary key in snapshot build'')
          else
            Inr (b\<lparr>bl_row_slot_bytes := bl_row_slot_bytes b @ take (cl_row_slot_size layout) (er_row_slot encoded),
                   bl_row_payloads := bl_row_payloads b @
                     [\<lparr>op_arena = er_arena encoded, op_string_dictionary = er_string_dictionary encoded,
                       op_scalar_list_dictionary = er_scalar_list_dictionary encoded,
                       op_string_list_dictionary = er_string_list_dictionary encoded,
                       op_string_element_dictionary = er_string_element_dictionary encoded\<rparr>],
                   bl_primary_keys := bl_primary_keys b @ [primary_key],
                   bl_index_entries := bl_index_entries b @
                     [\<lparr>fe_primary_key = primary_key, fe_row_offset = of_nat (length (bl_row_slot_bytes b))\<rparr>]\<rparr>))"

text \<open>A successful \<open>Seal\<close> moves the slots and payloads out of the builder; the keys stay.\<close>

definition Seal :: "SnapshotBuilder \<Rightarrow> OwnedSnapshotBacking res \<times> SnapshotBuilder" where
  "Seal b =
     (case bl_layout b of
        None \<Rightarrow> (Inl (FailedPrecondition ''snapshot builder has no row layout''), b)
      | Some layout \<Rightarrow>
          (case BuildFrozenPrimaryKeyIndex (bl_index_entries b)
                  \<lparr>bo_hash_seed = bl_hash_seed b, bo_hash_version = bl_hash_version b,
                   bo_group_width = kDefaultGroupWidth\<rparr> of
             Inl e \<Rightarrow> (Inl e, b)
           | Inr index_bytes \<Rightarrow>
               (Inr \<lparr>ob_layout = Some layout, ob_frozen_index_bytes = index_bytes,
                     ob_row_slot_bytes = bl_row_slot_bytes b, ob_row_payloads = bl_row_payloads b\<rparr>,
                b\<lparr>bl_row_slot_bytes := [], bl_row_payloads := []\<rparr>)))"

definition AddRows :: "(u64 \<times> EncodedRow) list \<Rightarrow> SnapshotBuilder \<Rightarrow> SnapshotBuilder res" where
  "AddRows rows b = foldM_res (\<lambda>(k, e) b. AddRow b k e) rows b"

section \<open>Contents\<close>

text \<open>The row that a snapshot of layout \<open>L\<close> keeps of an encoded row.\<close>

definition stored_row :: "CompiledRowLayout \<Rightarrow> EncodedRow \<Rightarrow> EncodedRow" where
  "stored_row L e = e\<lparr>er_row_slot := take (cl_row_slot_size L) (er_row_slot e)\<rparr>"

definition payload_of :: "EncodedRow \<Rightarrow> OwnedSnapshotRowPayload" where
  "payload_of e =
     \<lparr>op_arena = er_arena e, op_string_dictionary = er_string_dictionary e,
      op_scalar_list_dictionary = er_scalar_list_dictionary e,
      op_string_list_dictionary = er_string_list_dictionary e,
      op_string_element_dictionary = er_string_element_dictionary e\<rparr>"

definition row_for :: "CompiledRowLayout \<Rightarrow> EncodedRow \<Rightarrow> bool" where
  "row_for L e \<longleftrightarrow> er_schema_version e = cl_schema_version L \<and> er_layout_fingerprint e = cl_layout_fingerprint L
     \<and> cl_row_slot_size L \<le> length (er_row_slot e)"

definition entry_list :: "CompiledRowLayout \<Rightarrow> (u64 \<times> EncodedRow) list \<Rightarrow> FrozenPrimaryKeyIndexEntry list" where
  "entry_list L rows = map (\<lambda>(i, (k, e)). \<lparr>fe_primary_key = k, fe_row_offset = of_nat (i * cl_row_slot_size L)\<rparr>)
     (enumerate 0 rows)"

definition slot_list :: "CompiledRowLayout \<Rightarrow> (u64 \<times> EncodedRow) list \<Rightarrow> byte list" where
  "slot_list L rows = concat (map (\<lambda>(k, e). take (cl_row_slot_size L) (er_row_slot e)) rows)"

text \<open>A builder that holds exactly these rows, and a backing sealed from it.\<close>

definition builder_holds :: "CompiledRowLayout \<Rightarrow> (u64 \<times> EncodedRow) list \<Rightarrow> SnapshotBuilder \<Rightarrow> bool" where
  "builder_holds L rows b \<longleftrightarrow>
     bl_layout b = Some L \<and> bl_primary_keys b = map fst rows \<and> bl_index_entries b = entry_list L rows
     \<and> bl_row_slot_bytes b = slot_list L rows \<and> bl_row_payloads b = map (payload_of \<circ> snd) rows
     \<and> distinct (map fst rows) \<and> (\<forall>(k, e) \<in> set rows. row_for L e)"

definition owned_holds :: "CompiledRowLayout \<Rightarrow> (u64 \<times> EncodedRow) list \<Rightarrow> OwnedSnapshotBacking \<Rightarrow> bool" where
  "owned_holds L rows b \<longleftrightarrow>
     0 < cl_row_slot_size L \<and> length (slot_list L rows) < 2 ^ 64
     \<and> ob_layout b = Some L \<and> ob_row_slot_bytes b = slot_list L rows
     \<and> ob_row_payloads b = map (payload_of \<circ> snd) rows
     \<and> distinct (map fst rows) \<and> (\<forall>(k, e) \<in> set rows. row_for L e)
     \<and> (\<exists>opts. BuildFrozenPrimaryKeyIndex (entry_list L rows) opts = Inr (ob_frozen_index_bytes b))"

text \<open>The rows of an owned backing as they are read: the slots cut to the size of the layout.\<close>

definition owned_contains :: "CompiledRowLayout \<Rightarrow> (u64 \<times> EncodedRow) list \<Rightarrow> OwnedSnapshotBacking \<Rightarrow> bool" where
  "owned_contains L rows b \<longleftrightarrow>
     (\<exists>rows0. owned_holds L rows0 b \<and> rows = map (\<lambda>(k, e). (k, stored_row L e)) rows0)"

text \<open>
  Any backing that holds these rows: they fit the layout, there is a valid index with exactly their
  keys, and for every entry of the index the row of its key.
\<close>

definition index_lists :: "FrozenPrimaryKeyIndexView \<Rightarrow> FrozenPrimaryKeyIndexEntry list \<Rightarrow> u64 set \<Rightarrow> bool" where
  "index_lists v es ks \<longleftrightarrow>
     Entries v = Inr es \<and> distinct (map fe_primary_key es) \<and> set (map fe_primary_key es) = ks
     \<and> (\<forall>k. Lookup v k = Inr (map_of (map (\<lambda>e. (fe_primary_key e, fe_row_offset e)) es) k))"

definition backing_holds :: "CompiledRowLayout \<Rightarrow> (u64 \<times> EncodedRow) list \<Rightarrow> SnapshotBacking \<Rightarrow> bool" where
  "backing_holds L rows b \<longleftrightarrow>
     sb_layout b = Some L \<and> distinct (map fst rows)
     \<and> (\<forall>(k, e) \<in> set rows. row_for L e \<and> stored_row L e = e)
     \<and> (\<exists>v es. Validate (sb_frozen_index_bytes b) = Inr v \<and> index_lists v es (fst ` set rows)
          \<and> (\<forall>e \<in> set es. \<exists>row. (fe_primary_key e, row) \<in> set rows
               \<and> sb_EncodedRowAt b (fe_row_offset e) = Inr row))"

text \<open>The answer that a snapshot with these rows gives.\<close>

definition snapshot_answer :: "CompiledRowLayout \<Rightarrow> (u64 \<rightharpoonup> EncodedRow) \<Rightarrow> u64 \<Rightarrow> Row option res" where
  "snapshot_answer L contents k =
     (case contents k of
        None \<Rightarrow> Inr None
      | Some e \<Rightarrow> rbind (MaterializeRow (Some L) e) (\<lambda>row. Inr (Some row)))"

text \<open>A schema whose only field is nullable, so that an empty row of it can be read, for examples.\<close>

definition nullable_schema :: RuntimeSchema where
  "nullable_schema = \<lparr>rs_version = 1, rs_active_fields = [demo_field 2 kString False kArena], rs_deleted_fields = []\<rparr>"

section \<open>The contract of a backing\<close>

text \<open>
  A client of a backing that holds some rows relies on a valid index whose entries name exactly
  these keys and on \<open>EncodedRowAt\<close> giving the row for each listed offset.
\<close>

locale readable_backing =
  fixes as_backing :: "'b \<Rightarrow> SnapshotBacking"
    and holds :: "CompiledRowLayout \<Rightarrow> (u64 \<times> EncodedRow) list \<Rightarrow> 'b \<Rightarrow> bool"
  assumes layout: "holds L rows b \<Longrightarrow> sb_layout (as_backing b) = Some L"
    and keys: "holds L rows b \<Longrightarrow> distinct (map fst rows)"
    and fits: "holds L rows b \<Longrightarrow> \<forall>(k, e) \<in> set rows. row_for L e \<and> stored_row L e = e"
    and index: "holds L rows b \<Longrightarrow> \<exists>v es. Validate (sb_frozen_index_bytes (as_backing b)) = Inr v
      \<and> index_lists v es (fst ` set rows)
      \<and> (\<forall>e \<in> set es. \<exists>row. (fe_primary_key e, row) \<in> set rows \<and> sb_EncodedRowAt (as_backing b) (fe_row_offset e) = Inr row)"
begin

lemma provides: "holds L rows b \<Longrightarrow> backing_holds L rows (as_backing b)"
  using layout keys fits index by (simp add: backing_holds_def)

lemma view_Get:
  assumes "holds L rows b"
  shows "iv_Get (NewImmutableRowSnapshotView (Some (as_backing b))) k = snapshot_answer L (map_of rows) k"
proof -
  obtain v and es :: "FrozenPrimaryKeyIndexEntry list"
    where v: "Validate (sb_frozen_index_bytes (as_backing b)) = Inr v" "Entries v = Inr es"
    and d: "distinct (map fe_primary_key es)" and ks: "set (map fe_primary_key es) = fst ` set rows"
    and lk: "\<forall>k. Lookup v k = Inr (map_of (map (\<lambda>e. (fe_primary_key e, fe_row_offset e)) es) k)"
    and at: "\<forall>e \<in> set es. \<exists>row. (fe_primary_key e, row) \<in> set rows
      \<and> sb_EncodedRowAt (as_backing b) (fe_row_offset e) = Inr row"
    using index [OF assms] unfolding index_lists_def by (elim exE conjE) (rule that)
  show ?thesis
  proof (cases "map_of (map (\<lambda>e. (fe_primary_key e, fe_row_offset e)) es) k")
    case None
    then have "k \<notin> fst ` set rows" unfolding ks [symmetric] by (auto simp: map_of_eq_None_iff image_iff)
    then have "map_of rows k = None" by (simp add: map_of_eq_None_iff)
    with None v lk show ?thesis
      by (simp add: iv_Get_def NewImmutableRowSnapshotView_def ValidateBackingIndex_def snapshot_answer_def)
  next
    case (Some off)
    then obtain e where e: "e \<in> set es" "fe_primary_key e = k" "fe_row_offset e = off"
      using map_of_entries [OF d] by blast
    from at e(1) obtain row where row: "(k, row) \<in> set rows" "sb_EncodedRowAt (as_backing b) off = Inr row"
      using e by auto
    then have "map_of rows k = Some row" using keys [OF assms] by simp
    with Some v lk row layout [OF assms] show ?thesis
      by (simp add: iv_Get_def NewImmutableRowSnapshotView_def ValidateBackingIndex_def snapshot_answer_def)
  qed
qed

lemma enumerate_rows:
  assumes "holds L rows b"
  shows "\<exists>srs. EnumerateSnapshotRows (as_backing b) = Inr srs
    \<and> mset (map (\<lambda>r. (sr_primary_key r, sr_encoded r)) srs) = mset rows"
proof -
  obtain v and es :: "FrozenPrimaryKeyIndexEntry list"
    where v: "Validate (sb_frozen_index_bytes (as_backing b)) = Inr v" "Entries v = Inr es"
    and d: "distinct (map fe_primary_key es)" and ks: "set (map fe_primary_key es) = fst ` set rows"
    and lk: "\<forall>k. Lookup v k = Inr (map_of (map (\<lambda>e. (fe_primary_key e, fe_row_offset e)) es) k)"
    and at: "\<forall>e \<in> set es. \<exists>row. (fe_primary_key e, row) \<in> set rows
      \<and> sb_EncodedRowAt (as_backing b) (fe_row_offset e) = Inr row"
    using index [OF assms] unfolding index_lists_def by (elim exE conjE) (rule that)
  define row where "row e = the (map_of rows (fe_primary_key e))" for e :: FrozenPrimaryKeyIndexEntry
  have rows: "(fe_primary_key e, row e) \<in> set rows \<and> sb_EncodedRowAt (as_backing b) (fe_row_offset e) = Inr (row e)"
    if "e \<in> set es" for e
    using at that keys [OF assms] by (auto simp: row_def)
  let ?srs = "map (\<lambda>e. \<lparr>sr_primary_key = fe_primary_key e, sr_encoded = row e\<rparr>) es"
  have "EnumerateSnapshotRows (as_backing b) = Inr ?srs"
    unfolding EnumerateSnapshotRows_def v rbind_Inr by (rule mapM_res_map) (simp add: rows)
  moreover have "mset (map (\<lambda>r. (sr_primary_key r, sr_encoded r)) ?srs) = mset rows"
  proof -
    let ?ps = "map (\<lambda>e. (fe_primary_key e, row e)) es"
    have "distinct (map fst ?ps)" using d by (simp add: comp_def)
    then have dp: "distinct ?ps" "distinct rows" using keys [OF assms] by (metis distinct_map)+
    have "set ?ps = set rows"
    proof
      show "set ?ps \<subseteq> set rows" using rows by auto
      show "set rows \<subseteq> set ?ps"
      proof
        fix p assume p: "p \<in> set rows"
        then have "fst p \<in> set (map fe_primary_key es)" unfolding ks by simp
        then obtain e where e: "e \<in> set es" "fe_primary_key e = fst p" by auto
        then have "row e = snd p" using p keys [OF assms] by (cases p) (simp add: row_def)
        with e show "p \<in> set ?ps" by (auto simp: image_iff intro!: bexI [of _ e])
      qed
    qed
    with dp have "mset ?ps = mset rows" using set_eq_iff_mset_eq_distinct by blast
    then show ?thesis by (simp add: comp_def)
  qed
  ultimately show ?thesis by blast
qed

end

interpretation any: readable_backing "\<lambda>b. b" backing_holds
  by unfold_locales (simp_all add: backing_holds_def)

section \<open>Rows in the slot area\<close>

lemma subspan_concat:
  assumes "\<And>x. x \<in> set xs \<Longrightarrow> length (f x) = n" and "i < length xs"
  shows "subspan (i * n) n (concat (map f xs)) = f (xs ! i)"
  using assms
proof (induction xs arbitrary: i)
  case (Cons x xs)
  then show ?case by (cases i) (auto simp: subspan_def)
qed simp

lemma length_slot_list:
  assumes "\<forall>(k, e) \<in> set rows. row_for L e"
  shows "length (slot_list L rows) = length rows * cl_row_slot_size L"
  using assms by (induction rows) (auto simp: slot_list_def row_for_def)

lemma owned_row_at:
  assumes h: "owned_holds L rows b" and i: "i < length rows"
  shows "owned_EncodedRowAt b (of_nat (i * cl_row_slot_size L)) = Inr (stored_row L (snd (rows ! i)))"
proof -
  let ?n = "cl_row_slot_size L"
  have rf: "\<forall>(k, e) \<in> set rows. row_for L e" and n: "0 < ?n" and lt: "length (slot_list L rows) < 2 ^ 64"
    and b: "ob_layout b = Some L" "ob_row_slot_bytes b = slot_list L rows" "ob_row_payloads b = map (payload_of \<circ> snd) rows"
    using h by (auto simp: owned_holds_def)
  note len = length_slot_list [OF rf]
  have le: "i * ?n + ?n \<le> length rows * ?n" using i mult_le_mono1 [of "Suc i" "length rows" ?n] by simp
  then have u: "unat (of_nat (i * ?n) :: u64) = i * ?n" using lt len n by (simp add: unat_of_nat del: of_nat_mult)
  obtain k e where ke: "rows ! i = (k, e)" by fastforce
  then have "(k, e) \<in> set rows" using i by (metis nth_mem)
  with rf have e: "row_for L e" by auto
  have sub: "subspan (i * ?n) ?n (slot_list L rows) = take ?n (er_row_slot e)"
    using rf i ke unfolding slot_list_def
    by (subst subspan_concat) (auto simp: row_for_def split: prod.splits)
  show ?thesis
    using n le e i
    by (simp add: owned_EncodedRowAt_def b u len sub ke stored_row_def payload_of_def row_for_def Let_def
        del: of_nat_mult)
qed

lemma entry_list_keys: "map fe_primary_key (entry_list L rows) = map fst rows"
proof -
  have "map fe_primary_key (entry_list L rows) = map (\<lambda>p. fst (snd p)) (enumerate 0 rows)"
    by (simp add: entry_list_def comp_def case_prod_beta)
  then show ?thesis by (simp only: map_enumerate_snd)
qed

lemma length_entry_list: "length (entry_list L rows) = length rows"
  by (simp add: entry_list_def)

lemma entry_list_elem:
  assumes "e \<in> set (entry_list L rows)"
  obtains i where "i < length rows" "fe_primary_key e = fst (rows ! i)" "fe_row_offset e = of_nat (i * cl_row_slot_size L)"
  using assms by (auto simp: entry_list_def in_set_enumerate_eq simp del: of_nat_mult)

lemma map_of_entries_mset:
  assumes "distinct (map fe_primary_key es)" and "mset es = mset (es' :: FrozenPrimaryKeyIndexEntry list)"
  shows "map_of (map (\<lambda>e. (fe_primary_key e, fe_row_offset e)) es') = map_of (map (\<lambda>e. (fe_primary_key e, fe_row_offset e)) es)"
proof (rule map_of_inject_set [THEN iffD2])
  show "distinct (map fst (map (\<lambda>e. (fe_primary_key e, fe_row_offset e)) es))" using assms by (simp add: comp_def)
  have "mset (map fe_primary_key es) = mset (map fe_primary_key es')" using assms by simp
  then show "distinct (map fst (map (\<lambda>e. (fe_primary_key e, fe_row_offset e)) es'))"
    using assms(1) by (simp add: comp_def) (metis mset_map mset_eq_imp_distinct_iff)
  show "set (map (\<lambda>e. (fe_primary_key e, fe_row_offset e)) es') = set (map (\<lambda>e. (fe_primary_key e, fe_row_offset e)) es)"
    using mset_eq_setD [OF assms(2)] by simp
qed

interpretation own: readable_backing owned_backing owned_contains
proof
  fix L rows b assume "owned_contains L rows b"
  then obtain rows0 where h: "owned_holds L rows0 b" and rows: "rows = map (\<lambda>(k, e). (k, stored_row L e)) rows0"
    by (auto simp: owned_contains_def)
  show "sb_layout (owned_backing b) = Some L" using h by (simp add: owned_backing_def owned_holds_def)
  have fst: "map fst rows = map fst rows0" by (simp add: rows comp_def case_prod_beta)
  show d: "distinct (map fst rows)" using h by (simp add: fst owned_holds_def)
  show "\<forall>(k, e) \<in> set rows. row_for L e \<and> stored_row L e = e"
    using h by (auto simp: rows owned_holds_def row_for_def stored_row_def)
  from h obtain opts where bld: "BuildFrozenPrimaryKeyIndex (entry_list L rows0) opts = Inr (ob_frozen_index_bytes b)"
    by (auto simp: owned_holds_def)
  have rf: "\<forall>(k, e) \<in> set rows0. row_for L e" and n: "0 < cl_row_slot_size L"
    and lt: "length (slot_list L rows0) < 2 ^ 64" and d0: "distinct (map fst rows0)"
    using h by (auto simp: owned_holds_def)
  have "length (entry_list L rows0) < 2 ^ 64"
    using n lt le_less_trans [of "length rows0" "length rows0 * cl_row_slot_size L"]
    by (simp add: length_slot_list [OF rf] length_entry_list)
  from Build_view [OF bld this] obtain v es where v: "Validate (ob_frozen_index_bytes b) = Inr v" "Entries v = Inr es"
    and m: "mset es = mset (entry_list L rows0)"
    and lk: "\<And>k. Lookup v k = Inr (map_of (map (\<lambda>e. (fe_primary_key e, fe_row_offset e)) (entry_list L rows0)) k)" by blast
  have mk: "mset (map fe_primary_key es) = mset (map fst rows0)" by (simp only: mset_map m) (simp only: entry_list_keys flip: mset_map)
  then have des: "distinct (map fe_primary_key es)" using d0 by (metis mset_eq_imp_distinct_iff)
  have sk: "set (map fe_primary_key es) = fst ` set rows" using mset_eq_setD [OF mk] fst by (metis set_map)
  have look: "Lookup v k = Inr (map_of (map (\<lambda>e. (fe_primary_key e, fe_row_offset e)) es) k)" for k
    unfolding lk using map_of_entries_mset [OF des m] by simp
  have at: "\<exists>row. (fe_primary_key e, row) \<in> set rows \<and> sb_EncodedRowAt (owned_backing b) (fe_row_offset e) = Inr row"
    if "e \<in> set es" for e
  proof -
    from that m have "e \<in> set (entry_list L rows0)" by (metis mset_eq_setD)
    then obtain i where i: "i < length rows0"
      "fe_primary_key e = fst (rows0 ! i)" "fe_row_offset e = of_nat (i * cl_row_slot_size L)"
      by (rule entry_list_elem)
    with owned_row_at [OF h i(1)] nth_mem [OF i(1)] show ?thesis
      by (auto simp: rows owned_backing_def image_iff split: prod.splits intro!: bexI [of _ "rows0 ! i"])
  qed
  show "\<exists>v es. Validate (sb_frozen_index_bytes (owned_backing b)) = Inr v \<and> index_lists v es (fst ` set rows)
      \<and> (\<forall>e \<in> set es. \<exists>row. (fe_primary_key e, row) \<in> set rows \<and> sb_EncodedRowAt (owned_backing b) (fe_row_offset e) = Inr row)"
    using v des sk look at by (intro exI [of _ v] exI [of _ es]) (simp add: index_lists_def owned_backing_def)
qed

section \<open>Building\<close>

lemma entry_list_snoc:
  "entry_list L (rows @ [(k, e)]) = entry_list L rows @ [\<lparr>fe_primary_key = k, fe_row_offset = of_nat (length rows * cl_row_slot_size L)\<rparr>]"
  by (simp add: entry_list_def enumerate_append_eq)

lemma NewSnapshotBuilder_holds: "builder_holds L [] (NewSnapshotBuilder (Some L) seed version)"
  by (simp add: builder_holds_def NewSnapshotBuilder_def entry_list_def slot_list_def)

lemma AddRow_holds:
  assumes h: "builder_holds L rows b" and a: "AddRow b k e = Inr b'"
  shows "builder_holds L (rows @ [(k, e)]) b'"
proof -
  have rf: "\<forall>(k, e) \<in> set rows. row_for L e" using h by (simp add: builder_holds_def)
  show ?thesis
    using h a length_slot_list [OF rf]
    by (auto simp: builder_holds_def AddRow_def entry_list_snoc slot_list_def payload_of_def row_for_def
        split: if_splits simp del: of_nat_mult)
qed

text \<open>On a builder that holds \<open>rows\<close> a row is accepted exactly when its layout and key are.\<close>

lemma AddRow_iff:
  assumes "builder_holds L rows b"
  shows "(\<exists>b'. AddRow b k e = Inr b') \<longleftrightarrow> row_for L e \<and> k \<notin> fst ` set rows"
  using assms by (auto simp: builder_holds_def AddRow_def row_for_def not_less)

lemma AddRows_holds:
  assumes "builder_holds L rows b" and "AddRows rows' b = Inr b'"
  shows "builder_holds L (rows @ rows') b' \<and> bl_hash_seed b' = bl_hash_seed b \<and> bl_hash_version b' = bl_hash_version b"
  using assms
proof (induction rows' arbitrary: rows b)
  case Nil
  then show ?case by (simp add: AddRows_def)
next
  case (Cons p rows')
  obtain k e where p: "p = (k, e)" by fastforce
  from Cons.prems obtain b1 where b1: "AddRow b k e = Inr b1" "AddRows rows' b1 = Inr b'"
    by (auto simp: AddRows_def p)
  have "bl_hash_seed b1 = bl_hash_seed b \<and> bl_hash_version b1 = bl_hash_version b"
    using b1(1) by (auto simp: AddRow_def split: option.splits if_splits)
  with Cons.IH [OF AddRow_holds [OF Cons.prems(1) b1(1)] b1(2)] show ?case by (simp add: p)
qed

lemma Seal_holds:
  assumes h: "builder_holds L rows b" and n: "0 < cl_row_slot_size L" and lt: "length (slot_list L rows) < 2 ^ 64"
    and s: "fst (Seal b) = Inr ob"
  shows "owned_contains L (map (\<lambda>(k, e). (k, stored_row L e)) rows) ob"
proof -
  have "owned_holds L rows ob"
    using assms by (auto simp: owned_holds_def builder_holds_def Seal_def split: sum.splits)
  then show ?thesis by (auto simp: owned_contains_def)
qed

lemma Seal_succeeds:
  assumes "builder_holds L rows b" and "length rows \<le> 2 ^ 58"
  shows "\<exists>ob. fst (Seal b) = Inr ob"
  using assms Build_succeeds [of "\<lparr>bo_hash_seed = bl_hash_seed b, bo_hash_version = bl_hash_version b,
                   bo_group_width = kDefaultGroupWidth\<rparr>" "entry_list L rows"]
  by (auto simp: builder_holds_def Seal_def kDefaultGroupWidth_def length_entry_list entry_list_keys)

lemma AddRows_seal:
  assumes "AddRows rows (NewSnapshotBuilder (Some L) seed version) = Inr b"
    and "0 < cl_row_slot_size L" and "length rows * cl_row_slot_size L < 2 ^ 64" and "length rows \<le> 2 ^ 58"
  obtains ob where "fst (Seal b) = Inr ob" "owned_contains L (map (\<lambda>(k, e). (k, stored_row L e)) rows) ob"
proof -
  have h: "builder_holds L rows b"
    using AddRows_holds [OF NewSnapshotBuilder_holds assms(1)] by simp
  then have rf: "\<forall>(k, e) \<in> set rows. row_for L e" by (simp add: builder_holds_def)
  from Seal_succeeds [OF h assms(4)] obtain ob where s: "fst (Seal b) = Inr ob" ..
  from Seal_holds [OF h assms(2) _ s] assms(3) that s show ?thesis by (simp add: length_slot_list [OF rf])
qed

lemma owned_contains_full:
  "owned_contains L rows ob \<Longrightarrow> fsv_Get (NewFullSnapshotView (Some (owned_backing ob))) k = snapshot_answer L (map_of rows) k"
  by (simp add: fsv_Get_def NewFullSnapshotView_def own.view_Get)

lemma owned_contains_delta:
  "owned_contains L rows ob \<Longrightarrow> cds_Get (NewCompactDeltaSnapshot (Some ob)) k = snapshot_answer L (map_of rows) k"
  by (simp add: cds_Get_def NewCompactDeltaSnapshot_def own.view_Get)

text \<open>
  C33. A snapshot that is built from rows and sealed answers every key with the row that was added
  under it, cut to the slot size of the layout, and with absence for the other keys. The full
  snapshot view and the compact delta give the same answers. The slot size is not zero, which every layout with
  an active field satisfies, there are at most \<open>2 ^ 58\<close> rows, and their slots take less than \<open>2 ^ 64\<close> bytes.
\<close>

theorem snapshot_roundtrip:
  assumes "AddRows rows (NewSnapshotBuilder (Some L) seed version) = Inr b"
    and "0 < cl_row_slot_size L" and "length rows * cl_row_slot_size L < 2 ^ 64" and "length rows \<le> 2 ^ 58"
  shows "\<exists>ob. fst (Seal b) = Inr ob \<and> (\<forall>k.
     fsv_Get (NewFullSnapshotView (Some (owned_backing ob))) k
       = snapshot_answer L (map_of (map (\<lambda>(k, e). (k, stored_row L e)) rows)) k
     \<and> cds_Get (NewCompactDeltaSnapshot (Some ob)) k
       = snapshot_answer L (map_of (map (\<lambda>(k, e). (k, stored_row L e)) rows)) k)"
proof -
  from AddRows_seal [OF assms] obtain ob where ob: "fst (Seal b) = Inr ob"
    "owned_contains L (map (\<lambda>(k, e). (k, stored_row L e)) rows) ob" .
  then show ?thesis by (intro exI [of _ ob]) (simp only: owned_contains_full owned_contains_delta simp_thms)
qed

text \<open>
  The enumeration of a sealed snapshot lists exactly the rows that were added, each once.
\<close>

lemma enumerate_snapshot_complete:
  assumes "AddRows rows (NewSnapshotBuilder (Some L) seed version) = Inr b"
    and "0 < cl_row_slot_size L" and "length rows * cl_row_slot_size L < 2 ^ 64" and "length rows \<le> 2 ^ 58"
  shows "\<exists>ob srs. fst (Seal b) = Inr ob \<and> EnumerateSnapshotRows (owned_backing ob) = Inr srs
     \<and> mset (map (\<lambda>r. (sr_primary_key r, sr_encoded r)) srs) = mset (map (\<lambda>(k, e). (k, stored_row L e)) rows)"
proof -
  from AddRows_seal [OF assms] obtain ob where ob: "fst (Seal b) = Inr ob"
    "owned_contains L (map (\<lambda>(k, e). (k, stored_row L e)) rows) ob" .
  from own.enumerate_rows [OF ob(2)] ob(1) show ?thesis by blast
qed

lemma AddRows_accepts:
  "(\<exists>b. AddRows rows (NewSnapshotBuilder (Some L) seed version) = Inr b)
     \<longleftrightarrow> distinct (map fst rows) \<and> list_all (row_for L \<circ> snd) rows"
proof
  assume "\<exists>b. AddRows rows (NewSnapshotBuilder (Some L) seed version) = Inr b"
  then obtain b where "builder_holds L rows b" using AddRows_holds [OF NewSnapshotBuilder_holds] by fastforce
  then show "distinct (map fst rows) \<and> list_all (row_for L \<circ> snd) rows"
    by (auto simp: builder_holds_def list_all_iff)
next
  assume "distinct (map fst rows) \<and> list_all (row_for L \<circ> snd) rows"
  then show "\<exists>b. AddRows rows (NewSnapshotBuilder (Some L) seed version) = Inr b"
  proof (induction rows rule: rev_induct)
    case Nil
    then show ?case by (simp add: AddRows_def)
  next
    case (snoc p rows)
    then obtain b where b: "AddRows rows (NewSnapshotBuilder (Some L) seed version) = Inr b" by auto
    then have h: "builder_holds L rows b" using AddRows_holds [OF NewSnapshotBuilder_holds] by fastforce
    obtain k e where p: "p = (k, e)" by fastforce
    from snoc.prems have "row_for L e \<and> k \<notin> fst ` set rows" by (auto simp: p)
    then obtain b' where "AddRow b k e = Inr b'" using AddRow_iff [OF h] by blast
    with b show ?case by (simp add: AddRows_def foldM_res_append p)
  qed
qed

text \<open>
  The builder accepts a sequence of rows exactly when their keys are distinct and each has the
  version, the fingerprint and at least the slot size of the layout.
\<close>

theorem snapshot_build_accepts:
  "(\<exists>b. AddRows rows (NewSnapshotBuilder (Some L) seed version) = Inr b)
     \<longleftrightarrow> distinct (map fst rows) \<and> list_all (row_for L \<circ> snd) rows"
  by (rule AddRows_accepts)

text \<open>
  C38. Under a layout with row slots of size zero, as a schema without active fields has, the
  builder accepts rows and seals them, but no stored row can be read back.
\<close>

theorem empty_slot_rows_unreadable:
  assumes "AddRows rows (NewSnapshotBuilder (Some L) seed version) = Inr b"
    and "cl_row_slot_size L = 0" and "length rows \<le> 2 ^ 58" and "k \<in> fst ` set rows"
  shows "\<exists>ob. fst (Seal b) = Inr ob \<and> fsv_Get (NewFullSnapshotView (Some (owned_backing ob))) k
     = Inl (InvalidArgument ''snapshot row slot size is zero'')"
proof -
  have h: "builder_holds L rows b"
    using AddRows_holds [OF NewSnapshotBuilder_holds assms(1)] by simp
  from Seal_succeeds [OF h assms(3)] obtain ob where s: "fst (Seal b) = Inr ob" ..
  then obtain opts where ob: "ob_layout ob = Some L"
    and bld: "BuildFrozenPrimaryKeyIndex (entry_list L rows) opts = Inr (ob_frozen_index_bytes ob)"
    using h by (auto simp: builder_holds_def Seal_def split: sum.splits)
  from Build_view [OF bld] assms(3) obtain v where v: "Validate (ob_frozen_index_bytes ob) = Inr v"
    and lk: "\<And>k. Lookup v k = Inr (map_of (map (\<lambda>e. (fe_primary_key e, fe_row_offset e)) (entry_list L rows)) k)"
    by (auto simp: length_entry_list)
  have "map fst (map (\<lambda>e. (fe_primary_key e, fe_row_offset e)) (entry_list L rows)) = map fst rows"
    by (simp add: comp_def entry_list_keys)
  then have "k \<in> fst ` set (map (\<lambda>e. (fe_primary_key e, fe_row_offset e)) (entry_list L rows))"
    using assms(4) by (simp only: set_map [symmetric])
  then have "map_of (map (\<lambda>e. (fe_primary_key e, fe_row_offset e)) (entry_list L rows)) k \<noteq> None"
    by (simp only: map_of_eq_None_iff not_not)
  then obtain off where "map_of (map (\<lambda>e. (fe_primary_key e, fe_row_offset e)) (entry_list L rows)) k = Some off"
    by blast
  then have "fsv_Get (NewFullSnapshotView (Some (owned_backing ob))) k
     = Inl (InvalidArgument ''snapshot row slot size is zero'')"
    by (simp add: fsv_Get_def NewFullSnapshotView_def iv_Get_def NewImmutableRowSnapshotView_def ValidateBackingIndex_def
        owned_backing_def v lk owned_EncodedRowAt_def ob assms(2) Let_def)
  with s show ?thesis by blast
qed

section \<open>Examples\<close>

lemma nullable_layout:
  obtains L where "Compile nullable_schema = Inr L" and "0 < cl_row_slot_size L" and "cl_row_slot_size L \<le> 64"
    and "\<And>arena. let e = (CreateEncodedRow L)\<lparr>er_arena := arena\<rparr> in
      MaterializeRow (Some L) (stored_row L e) = Inr \<lparr>row_layout = Some L, row_encoded = Some e\<rparr>"
  by (simp add: Compile_def nullable_schema_def demo_field_def MakeFieldLayout_def enumerate_eq_zip upt_rec Let_def
      IsRefField_def AlignUp_def kValueRef16Size_def stored_row_def CreateEncodedRow_def MaterializeRow_def fl_HasDefault_def)

lemma demo_rows_arena:
  "\<exists>b. AddRows [(5, CreateEncodedRow L), (9, (CreateEncodedRow L)\<lparr>er_arena := [1]\<rparr>)] (NewSnapshotBuilder (Some L) 3 1) = Inr b"
  by (simp add: AddRows_def AddRow_def NewSnapshotBuilder_def CreateEncodedRow_def)

lemma demo_rows:
  "\<exists>b. AddRows [(5, CreateEncodedRow L), (9, CreateEncodedRow L)] (NewSnapshotBuilder (Some L) 3 1) = Inr b"
  by (simp add: AddRows_def AddRow_def NewSnapshotBuilder_def CreateEncodedRow_def)

theorem snapshot_roundtrip_witness:
  "\<exists>L b ob. Compile nullable_schema = Inr L
     \<and> AddRows [(5, CreateEncodedRow L), (9, (CreateEncodedRow L)\<lparr>er_arena := [1]\<rparr>)] (NewSnapshotBuilder (Some L) 3 1) = Inr b
     \<and> fst (Seal b) = Inr ob
     \<and> fsv_Get (NewFullSnapshotView (Some (owned_backing ob))) 7 = Inr None
     \<and> fsv_Get (NewFullSnapshotView (Some (owned_backing ob))) 5
       = Inr (Some \<lparr>row_layout = Some L, row_encoded = Some (CreateEncodedRow L)\<rparr>)
     \<and> cds_Get (NewCompactDeltaSnapshot (Some ob)) 9
       = Inr (Some \<lparr>row_layout = Some L, row_encoded = Some ((CreateEncodedRow L)\<lparr>er_arena := [1]\<rparr>)\<rparr>)"
proof -
  obtain L where L: "Compile nullable_schema = Inr L" "0 < cl_row_slot_size L" "cl_row_slot_size L \<le> 64"
    and m: "\<And>arena. let e = (CreateEncodedRow L)\<lparr>er_arena := arena\<rparr> in
      MaterializeRow (Some L) (stored_row L e) = Inr \<lparr>row_layout = Some L, row_encoded = Some e\<rparr>"
    using nullable_layout by blast
  obtain b where b: "AddRows [(5, CreateEncodedRow L), (9, (CreateEncodedRow L)\<lparr>er_arena := [1]\<rparr>)] (NewSnapshotBuilder (Some L) 3 1) = Inr b"
    using demo_rows_arena by blast
  have e: "(CreateEncodedRow L)\<lparr>er_arena := []\<rparr> = CreateEncodedRow L" by (simp add: CreateEncodedRow_def)
  from snapshot_roundtrip [OF b L(2)] L b m [of "[]"] m [of "[1]"] show ?thesis
    by (auto simp: snapshot_answer_def e Let_def)
qed

theorem empty_slot_rows_unreadable_witness:
  "\<exists>L b ob. Compile \<lparr>rs_version = 1, rs_active_fields = [], rs_deleted_fields = []\<rparr> = Inr L
     \<and> AddRows [(5, CreateEncodedRow L), (9, CreateEncodedRow L)] (NewSnapshotBuilder (Some L) 3 1) = Inr b
     \<and> fst (Seal b) = Inr ob \<and> fsv_Get (NewFullSnapshotView (Some (owned_backing ob))) 9
       = Inl (InvalidArgument ''snapshot row slot size is zero'')"
proof -
  obtain L where L: "Compile \<lparr>rs_version = 1, rs_active_fields = [], rs_deleted_fields = []\<rparr> = Inr L"
    "cl_row_slot_size L = 0" by (auto simp: Compile_def AlignUp_def Let_def)
  obtain b where b: "AddRows [(5, CreateEncodedRow L), (9, CreateEncodedRow L)] (NewSnapshotBuilder (Some L) 3 1) = Inr b"
    using demo_rows by blast
  from empty_slot_rows_unreadable [OF b L(2), of 9] L b show ?thesis by auto
qed

end
