(* ===== verification/Shard_Runtime.thy ===== *)
theory Shard_Runtime
  imports Realtime_Delta Snapshot
begin

text \<open>
  \<open>src/runtime/shard_state.{h,cc}\<close> and \<open>src/runtime/shard_directory.{h,cc}\<close>: the three layers of
  a shard, the reads that fall through them, the status report and the directory that publishes
  shard states.

  A shard state is immutable, but it shares its realtime table with the update applier, which
  publishes into it. Realtime tables therefore live in an explicit store, and a
  \<open>shared_ptr\<close> to a table is an address; a shard state itself is passed as a value.
\<close>

section \<open>Realtime tables in memory\<close>

type_synonym table_ptr = nat

type_synonym tables = "table_ptr \<Rightarrow> RealtimeDeltaAtomicTable"

section \<open>Shard states\<close>

record Layers =
  ly_realtime_delta :: "table_ptr option"
  ly_compact_delta :: "CompactDeltaSnapshot option"
  ly_full_snapshot :: "FullSnapshotView option"

record ShardState =
  ss_shard_id :: u32
  ss_generation :: u64
  ss_realtime_delta :: "table_ptr option"
  ss_compact_delta :: "CompactDeltaSnapshot option"
  ss_full_snapshot :: "FullSnapshotView option"

definition NewShardState :: "u32 \<Rightarrow> u64 \<Rightarrow> Layers \<Rightarrow> ShardState" where
  "NewShardState shard_id generation layers =
     \<lparr>ss_shard_id = shard_id, ss_generation = generation, ss_realtime_delta = ly_realtime_delta layers,
      ss_compact_delta = ly_compact_delta layers, ss_full_snapshot = ly_full_snapshot layers\<rparr>"

definition ss_Get :: "tables \<Rightarrow> ShardState \<Rightarrow> u64 \<Rightarrow> Row option res" where
  "ss_Get h s primary_key =
     rbind (case ss_realtime_delta s of None \<Rightarrow> Inr None | Some p \<Rightarrow> rt_Get (h p) primary_key) (\<lambda>realtime_row.
     if realtime_row \<noteq> None then Inr realtime_row else
     rbind (case ss_compact_delta s of None \<Rightarrow> Inr None | Some c \<Rightarrow> cds_Get c primary_key) (\<lambda>compact_row.
     if compact_row \<noteq> None then Inr compact_row else
     rbind (case ss_full_snapshot s of None \<Rightarrow> Inr None | Some f \<Rightarrow> fsv_Get f primary_key) (\<lambda>full_row.
     if full_row \<noteq> None then Inr full_row else Inr None)))"

definition ss_MGet :: "tables \<Rightarrow> ShardState \<Rightarrow> u64 list \<Rightarrow> Row option list res" where
  "ss_MGet h s primary_keys = mapM_res (ss_Get h s) primary_keys"

record ShardRuntimeStatus =
  rs_shard_id :: u32
  rs_generation :: u64
  rs_schema_version :: u64
  rs_layout_fingerprint :: u64
  rs_artifact_id :: string
  rs_has_realtime_delta :: bool
  rs_has_compact_delta :: bool
  rs_has_full_snapshot :: bool
  rs_realtime_delta :: RealtimeDeltaStats
  rs_compact_row_count :: u64
  rs_full_row_count :: u64
  rs_accessor_mismatch_count :: u64
  rs_last_error :: string

definition no_stats :: RealtimeDeltaStats where
  "no_stats = \<lparr>ds_hash_capacity = 0, ds_unique_visible_keys = 0, ds_published_row_count = 0,
     ds_row_slot_bytes = 0, ds_payload_pool_bytes = 0\<rparr>"

definition ShardRuntimeStatus_of :: "u32 \<Rightarrow> u64 \<Rightarrow> ShardRuntimeStatus" where
  "ShardRuntimeStatus_of shard_id generation =
     \<lparr>rs_shard_id = shard_id, rs_generation = generation, rs_schema_version = 0, rs_layout_fingerprint = 0,
      rs_artifact_id = [], rs_has_realtime_delta = False, rs_has_compact_delta = False,
      rs_has_full_snapshot = False, rs_realtime_delta = no_stats, rs_compact_row_count = 0,
      rs_full_row_count = 0, rs_accessor_mismatch_count = 0, rs_last_error = []\<rparr>"

definition CopyLayoutMetadata :: "CompiledRowLayout option \<Rightarrow> ShardRuntimeStatus \<Rightarrow> ShardRuntimeStatus" where
  "CopyLayoutMetadata layout status =
     (case layout of
        None \<Rightarrow> status
      | Some l \<Rightarrow>
          if rs_schema_version status \<noteq> 0 then status
          else status\<lparr>rs_schema_version := cl_schema_version l, rs_layout_fingerprint := cl_layout_fingerprint l\<rparr>)"

definition ss_GetRuntimeStatus :: "tables \<Rightarrow> ShardState \<Rightarrow> ShardRuntimeStatus" where
  "ss_GetRuntimeStatus h s =
     (let status = ShardRuntimeStatus_of (ss_shard_id s) (ss_generation s);
          status =
            (case ss_realtime_delta s of
               None \<Rightarrow> status
             | Some p \<Rightarrow> CopyLayoutMetadata (rt_layout (h p))
                 (status\<lparr>rs_has_realtime_delta := True, rs_realtime_delta := rt_stats (h p)\<rparr>));
          status =
            (case ss_compact_delta s of
               None \<Rightarrow> status
             | Some c \<Rightarrow>
                 (let status = status\<lparr>rs_has_compact_delta := True\<rparr> in
                  case cds_backing c of
                    None \<Rightarrow> status
                  | Some b \<Rightarrow> CopyLayoutMetadata (ob_layout b)
                      (status\<lparr>rs_compact_row_count := sb_row_count (owned_backing b)\<rparr>)))
      in case ss_full_snapshot s of
           None \<Rightarrow> status
         | Some f \<Rightarrow>
             (let status = status\<lparr>rs_has_full_snapshot := True\<rparr> in
              case fsv_backing f of
                None \<Rightarrow> status
              | Some b \<Rightarrow>
                  (let status = CopyLayoutMetadata (sb_layout b) (status\<lparr>rs_full_row_count := sb_row_count b\<rparr>) in
                   case sb_mmap_artifact_id b of
                     None \<Rightarrow> status | Some i \<Rightarrow> status\<lparr>rs_artifact_id := i\<rparr>)))"

section \<open>The shard directory\<close>

record ShardDirectory =
  sd_shard_count :: u32
  sd_shards :: "ShardState option list"

definition NewShardDirectory :: "u32 \<Rightarrow> ShardDirectory" where
  "NewShardDirectory shard_count =
     \<lparr>sd_shard_count = shard_count, sd_shards = replicate (unat shard_count) None\<rparr>"

definition sd_Publish :: "ShardDirectory \<Rightarrow> u32 \<Rightarrow> ShardState option \<Rightarrow> unit res \<times> ShardDirectory" where
  "sd_Publish d shard_id state =
     (if shard_id \<ge> sd_shard_count d then (Inl (InvalidArgument ''shard id is out of range''), d)
      else if Option.is_none state then (Inl (InvalidArgument ''published shard state must not be null''), d)
      else (Inr (), d\<lparr>sd_shards := (sd_shards d)[unat shard_id := state]\<rparr>))"

definition sd_Load :: "ShardDirectory \<Rightarrow> u32 \<Rightarrow> ShardState option res" where
  "sd_Load d shard_id =
     (if shard_id \<ge> sd_shard_count d then Inl (InvalidArgument ''shard id is out of range'')
      else Inr (sd_shards d ! unat shard_id))"

definition sd_ok :: "ShardDirectory \<Rightarrow> bool" where
  "sd_ok d \<longleftrightarrow> length (sd_shards d) = unat (sd_shard_count d)"

text \<open>
  The encoded rows of each layer, all under one layout, and the rows a shard serves: the realtime
  delta over the compact delta over the full snapshot.
\<close>

definition realtime_holds :: "tables \<Rightarrow> CompiledRowLayout \<Rightarrow> table_ptr option \<Rightarrow> (u64 \<rightharpoonup> EncodedRow) \<Rightarrow> bool" where
  "realtime_holds h L p m \<longleftrightarrow>
     (case p of
        None \<Rightarrow> m = Map.empty
      | Some q \<Rightarrow> rt_inv (h q) \<and> rows_fit (h q) \<and> rt_layout (h q) = Some L
          \<and> m = (\<lambda>k. map_option snd (rt_view (h q) k)))"

definition compact_holds :: "CompiledRowLayout \<Rightarrow> CompactDeltaSnapshot option \<Rightarrow> (u64 \<rightharpoonup> EncodedRow) \<Rightarrow> bool" where
  "compact_holds L c m \<longleftrightarrow>
     (case c of
        None \<Rightarrow> m = Map.empty
      | Some d \<Rightarrow> \<exists>b rows. d = NewCompactDeltaSnapshot (Some b) \<and> owned_contains L rows b \<and> m = map_of rows)"

definition full_holds :: "CompiledRowLayout \<Rightarrow> FullSnapshotView option \<Rightarrow> (u64 \<rightharpoonup> EncodedRow) \<Rightarrow> bool" where
  "full_holds L f m \<longleftrightarrow>
     (case f of
        None \<Rightarrow> m = Map.empty
      | Some v \<Rightarrow> \<exists>b rows. v = NewFullSnapshotView (Some b) \<and> backing_holds L rows b \<and> m = map_of rows)"

definition shard_serves :: "tables \<Rightarrow> CompiledRowLayout \<Rightarrow> ShardState \<Rightarrow> (u64 \<rightharpoonup> EncodedRow) \<Rightarrow> bool" where
  "shard_serves h L s m \<longleftrightarrow>
     (\<exists>full compact realtime. full_holds L (ss_full_snapshot s) full \<and> compact_holds L (ss_compact_delta s) compact
        \<and> realtime_holds h L (ss_realtime_delta s) realtime \<and> m = full ++ compact ++ realtime)"

definition plain_layout :: CompiledRowLayout where
  "plain_layout = \<lparr>cl_schema_version = 1, cl_layout_fingerprint = 9, cl_presence_bitmap_bytes = 8,
     cl_fixed_area_offset = 8, cl_ref_area_offset = 8, cl_row_slot_size = 8, cl_fields = []\<rparr>"

definition plain_row :: "byte list \<Rightarrow> EncodedRow" where
  "plain_row arena = (CreateEncodedRow plain_layout)\<lparr>er_arena := arena\<rparr>"

definition plain_table :: RealtimeDeltaAtomicTable where
  "plain_table = snd (rt_Publish (NewRealtimeDeltaAtomicTable (Some plain_layout) 4 0 1) 7 (at_offset 5) (plain_row [1]))"

section \<open>What a shard serves\<close>

section \<open>Reads\<close>

lemma snapshot_answer_None: "m k = None \<Longrightarrow> snapshot_answer L m k = Inr None"
  by (simp add: snapshot_answer_def)

lemma snapshot_answer_eq_None: "snapshot_answer L m k = Inr None \<longleftrightarrow> m k = None"
  by (auto simp: snapshot_answer_def split: option.splits)

lemma realtime_holds_Get:
  assumes "realtime_holds h L p m"
  shows "(case p of None \<Rightarrow> Inr None | Some q \<Rightarrow> rt_Get (h q) k) = snapshot_answer L m k"
proof (cases p)
  case (Some q)
  with assms have q: "rt_inv (h q)" "rows_fit (h q)" "rt_layout (h q) = Some L" "m = (\<lambda>k. map_option snd (rt_view (h q) k))"
    by (auto simp: realtime_holds_def)
  show ?thesis
    using rt_Get_view [OF q(1,3), of k] rt_view_fits(4) [OF q(2,3), of k] Some
    by (cases "rt_view (h q) k") (auto simp: q(4) snapshot_answer_def)
qed (use assms in \<open>simp add: realtime_holds_def snapshot_answer_def\<close>)

lemma compact_holds_Get:
  assumes "compact_holds L c m"
  shows "(case c of None \<Rightarrow> Inr None | Some d \<Rightarrow> cds_Get d k) = snapshot_answer L m k"
  using assms by (auto simp: compact_holds_def owned_contains_delta snapshot_answer_None split: option.splits)

lemma full_holds_Get:
  assumes "full_holds L f m"
  shows "(case f of None \<Rightarrow> Inr None | Some v \<Rightarrow> fsv_Get v k) = snapshot_answer L m k"
  using assms by (auto simp: full_holds_def fsv_Get_def NewFullSnapshotView_def any.view_Get snapshot_answer_None split: option.splits)

lemma answer_fall_through:
  "rbind (snapshot_answer L m k) (\<lambda>r. if r \<noteq> None then Inr r else snapshot_answer L m' k) = snapshot_answer L (m' ++ m) k"
  by (auto simp: snapshot_answer_def map_add_def rbind_assoc split: option.splits)

lemma shard_servesI:
  assumes "full_holds L (ss_full_snapshot s) full" and "compact_holds L (ss_compact_delta s) compact"
    and "realtime_holds h L (ss_realtime_delta s) realtime"
  shows "shard_serves h L s (full ++ compact ++ realtime)"
  using assms unfolding shard_serves_def by blast

lemma shard_serves_Get:
  assumes "shard_serves h L s m"
  shows "ss_Get h s k = snapshot_answer L m k"
proof -
  from assms obtain full compact realtime where c: "full_holds L (ss_full_snapshot s) full"
    "compact_holds L (ss_compact_delta s) compact" "realtime_holds h L (ss_realtime_delta s) realtime"
    "m = full ++ compact ++ realtime" by (auto simp: shard_serves_def)
  have last: "(\<lambda>r :: Row option. if r \<noteq> None then Inr r else Inr None) = (Inr :: _ \<Rightarrow> Row option res)" by auto
  have "ss_Get h s k = rbind (snapshot_answer L realtime k) (\<lambda>r. if r \<noteq> None then Inr r
      else rbind (snapshot_answer L compact k) (\<lambda>r. if r \<noteq> None then Inr r else snapshot_answer L full k))"
    unfolding ss_Get_def realtime_holds_Get [OF c(3)] compact_holds_Get [OF c(2)] full_holds_Get [OF c(1)] last rbind_return ..
  then show ?thesis by (simp only: answer_fall_through c(4) map_add_assoc)
qed

text \<open>
  C34. A read of a shard falls through its layers: the realtime delta hides the compact delta, which
  hides the full snapshot; a key in no layer is absent.
\<close>

theorem shard_precedence:
  assumes "full_holds L (ss_full_snapshot s) full" and "compact_holds L (ss_compact_delta s) compact"
    and "realtime_holds h L (ss_realtime_delta s) realtime"
  shows "ss_Get h s k = snapshot_answer L (full ++ compact ++ realtime) k"
  by (rule shard_serves_Get [OF shard_servesI [OF assms]])

section \<open>The directory\<close>

lemma NewShardDirectory_ok: "sd_ok (NewShardDirectory n)"
  by (simp add: sd_ok_def NewShardDirectory_def)

lemma sd_Publish_cases:
  assumes "sd_ok d" and "sd_Publish d i st = (res, d')"
  shows "sd_ok d' \<and> sd_shard_count d' = sd_shard_count d
    \<and> (res = Inr () \<longleftrightarrow> i < sd_shard_count d \<and> st \<noteq> None)
    \<and> sd_Load d' j = (if res = Inr () \<and> j = i then Inr st else sd_Load d j)"
proof (cases "i < sd_shard_count d \<and> st \<noteq> None")
  case True
  then have "res = Inr ()" "d' = d\<lparr>sd_shards := (sd_shards d)[unat i := st]\<rparr>"
    using assms(2) by (auto simp: sd_Publish_def Option.is_none_def not_le[symmetric])
  moreover have "unat i < length (sd_shards d)" using True assms(1) by (simp add: sd_ok_def word_less_nat_alt)
  ultimately show ?thesis using True assms(1) by (auto simp: sd_ok_def sd_Load_def nth_list_update dest: unsigned_word_eqI)
next
  case False
  then have "res \<noteq> Inr () \<and> d' = d"
    using assms(2) by (auto simp: sd_Publish_def Option.is_none_def not_less split: if_splits)
  with False assms(1) show ?thesis by auto
qed

text \<open>
  Publishing a shard state succeeds exactly for a shard in range and a state that is not null;
  then loading the shard gives the state, and every other shard is as before. A rejected state
  changes nothing.
\<close>

theorem directory_publish_load:
  assumes "sd_ok d" and "sd_Publish d i st = (res, d')"
  shows "sd_ok d' \<and> (res = Inr () \<longleftrightarrow> i < sd_shard_count d \<and> st \<noteq> None)
    \<and> sd_Load d' j = (if res = Inr () \<and> j = i then Inr st else sd_Load d j)"
  using sd_Publish_cases [OF assms, of j] by blast

section \<open>Examples\<close>

lemma plain_layout_size [simp]: "cl_row_slot_size plain_layout = 8"
  by (simp add: plain_layout_def)

lemma plain_row_stored: "stored_row plain_layout (plain_row a) = plain_row a"
  by (simp add: stored_row_def plain_row_def CreateEncodedRow_def plain_layout_def)

lemma plain_row_materializes: "MaterializeRow (Some plain_layout) (plain_row a) = Inr \<lparr>row_layout = Some plain_layout, row_encoded = Some (plain_row a)\<rparr>"
  by (simp add: MaterializeRow_def plain_row_def CreateEncodedRow_def plain_layout_def)

lemma plain_backing:
  assumes "distinct (map fst rows)" and "length rows < 1000"
  obtains ob where "owned_contains plain_layout (map (\<lambda>(k, a). (k, plain_row a)) rows) ob"
proof -
  let ?rows = "map (\<lambda>(k, a). (k, plain_row a)) rows"
  have "map fst ?rows = map fst rows" by (simp add: comp_def case_prod_beta)
  moreover have "list_all (row_for plain_layout \<circ> snd) ?rows"
    by (auto simp: list_all_iff row_for_def plain_row_def CreateEncodedRow_def plain_layout_def)
  ultimately obtain b where b: "AddRows ?rows (NewSnapshotBuilder (Some plain_layout) 3 1) = Inr b"
    using AddRows_accepts [of ?rows] assms(1) by metis
  have st: "map (\<lambda>(k, e). (k, stored_row plain_layout e)) ?rows = ?rows" by (auto simp: plain_row_stored)
  show thesis by (rule AddRows_seal [OF b, unfolded st]) (use assms(2) that in simp_all)
qed

lemma rt_view_new: "rt_view (NewRealtimeDeltaAtomicTable layout capacity seed version) = Map.empty"
  by (simp add: fun_eq_iff rt_view_def NewRealtimeDeltaAtomicTable_def)

lemma plain_table_facts:
  "rt_inv plain_table" "rows_fit plain_table" "rt_layout plain_table = Some plain_layout"
  "rt_view plain_table = [7 \<mapsto> (at_offset 5, plain_row [1])]"
proof -
  let ?t = "NewRealtimeDeltaAtomicTable (Some plain_layout) 4 0 1"
  obtain res where p: "rt_Publish ?t 7 (at_offset 5) (plain_row [1]) = (res, plain_table)"
    by (metis plain_table_def prod.collapse)
  have "fst (rt_Publish ?t 7 (at_offset 5) (plain_row [1])) = Inr ()" by code_simp
  with p have p: "rt_Publish ?t 7 (at_offset 5) (plain_row [1]) = (Inr (), plain_table)" by simp
  have inv: "rt_inv ?t" by (rule rt_inv_new) simp
  show "rt_view plain_table = [7 \<mapsto> (at_offset 5, plain_row [1])]"
    using rt_Publish_view [OF inv p] rt_view_new [of "Some plain_layout" 4 0 1] by simp
  show "rt_inv plain_table" "rows_fit plain_table" "rt_layout plain_table = Some plain_layout"
    using rt_Publish_inv [OF inv p] rt_Publish_rows_fit [OF rows_fit_new p] by (auto simp: NewRealtimeDeltaAtomicTable_def)
qed

lemma plain_table_holds:
  "realtime_holds (\<lambda>_. plain_table) plain_layout (Some p) [7 \<mapsto> plain_row [1]]"
  using plain_table_facts by (auto simp: realtime_holds_def)

theorem shard_precedence_witness:
  "\<exists>cb fb. let s = NewShardState 0 1 \<lparr>ly_realtime_delta = Some 0,
       ly_compact_delta = Some (NewCompactDeltaSnapshot (Some cb)),
       ly_full_snapshot = Some (NewFullSnapshotView (Some (owned_backing fb)))\<rparr>;
       found = (\<lambda>a. Inr (Some \<lparr>row_layout = Some plain_layout, row_encoded = Some (plain_row a)\<rparr>))
     in ss_Get (\<lambda>_. plain_table) s 7 = found [1] \<and> ss_Get (\<lambda>_. plain_table) s 9 = found [2]
      \<and> ss_Get (\<lambda>_. plain_table) s 11 = found [3] \<and> ss_Get (\<lambda>_. plain_table) s 8 = Inr None"
proof -
  obtain cb where cb: "owned_contains plain_layout (map (\<lambda>(k, a). (k, plain_row a)) [(7, [9]), (9, [2])]) cb"
    by (rule plain_backing [of "[(7, [9]), (9, [2])]"]) auto
  obtain fb where fb: "owned_contains plain_layout (map (\<lambda>(k, a). (k, plain_row a)) [(9, [8]), (11, [3])]) fb"
    by (rule plain_backing [of "[(9, [8]), (11, [3])]"]) auto
  let ?s = "NewShardState 0 1 \<lparr>ly_realtime_delta = Some 0,
       ly_compact_delta = Some (NewCompactDeltaSnapshot (Some cb)),
       ly_full_snapshot = Some (NewFullSnapshotView (Some (owned_backing fb)))\<rparr>"
  have f: "full_holds plain_layout (ss_full_snapshot ?s) [9 \<mapsto> plain_row [8], 11 \<mapsto> plain_row [3]]"
    using own.provides [OF fb] by (fastforce simp: full_holds_def NewShardState_def)
  have c: "compact_holds plain_layout (ss_compact_delta ?s) [7 \<mapsto> plain_row [9], 9 \<mapsto> plain_row [2]]"
    using cb by (fastforce simp: compact_holds_def NewShardState_def)
  have r: "realtime_holds (\<lambda>_. plain_table) plain_layout (ss_realtime_delta ?s) [7 \<mapsto> plain_row [1]]"
    using plain_table_holds [of 0] by (simp add: NewShardState_def)
  show ?thesis
    by (intro exI [of _ cb] exI [of _ fb])
      (simp add: shard_precedence [OF f c r] snapshot_answer_def plain_row_materializes map_add_def)
qed

theorem directory_publish_load_witness:
  "let d = NewShardDirectory 4; s = NewShardState 2 1 \<lparr>ly_realtime_delta = None, ly_compact_delta = None, ly_full_snapshot = None\<rparr>;
       d' = snd (sd_Publish d 2 (Some s))
   in sd_Load d' 2 = Inr (Some s) \<and> sd_Load d' 1 = Inr None \<and> fst (sd_Publish d 4 (Some s)) \<noteq> Inr ()"
proof -
  let ?d = "NewShardDirectory 4"
  let ?s = "NewShardState 2 1 \<lparr>ly_realtime_delta = None, ly_compact_delta = None, ly_full_snapshot = None\<rparr>"
  note P = directory_publish_load [OF NewShardDirectory_ok surjective_pairing]
  have "sd_Load ?d 1 = Inr None" by (simp add: sd_Load_def NewShardDirectory_def word_le_nat_alt)
  with P [of 4 2 "Some ?s" 2] P [of 4 2 "Some ?s" 1] P [of 4 4 "Some ?s"] show ?thesis
    by (simp add: NewShardDirectory_def Let_def)
qed

end
