(* ===== verification/Rebuild.thy ===== *)
theory Rebuild
  imports Shard_Runtime
begin

text \<open>
  \<open>src/rebuild/compaction.{h,cc}\<close> and \<open>src/rebuild/full_rebase.{h,cc}\<close>: folding the realtime
  delta into a new compact delta, folding the compact delta into a new full snapshot, and the shard
  states that take over.

  The sinks of \<open>AddRowIfNew\<close> are the addresses of two local variables and the encoded row of a
  scanned row has been checked by the scan, so the tests for null pointers have no counterpart.
\<close>

section \<open>Compaction\<close>

record SnapshotBuildOptions =
  so_hash_seed :: u64
  so_hash_version :: u32

record CompactionBuildRequest =
  cr_state :: ShardState
  cr_boundary :: nat
  cr_build_options :: SnapshotBuildOptions
  cr_mode :: ForwardIndexMode

record FinishDeltaCompactionRequest =
  cf_previous :: ShardState
  cf_successor_generation :: u64
  cf_successor_realtime :: "table_ptr option"
  cf_compact_backing :: "OwnedSnapshotBacking option"
  cf_mode :: ForwardIndexMode

definition ResolveLayout :: "tables \<Rightarrow> ShardState \<Rightarrow> CompiledRowLayout option res" where
  "ResolveLayout h state =
     (case Option.bind (ss_realtime_delta state) (\<lambda>p. rt_layout (h p)) of
        Some l \<Rightarrow> Inr (Some l)
      | None \<Rightarrow>
          (case Option.bind (ss_compact_delta state) cds_backing of
             Some b \<Rightarrow> Inr (ob_layout b)
           | None \<Rightarrow>
               (case Option.bind (ss_full_snapshot state) fsv_backing of
                  Some b \<Rightarrow> Inr (sb_layout b)
                | None \<Rightarrow> Inl (FailedPrecondition ''compaction state has no row layout''))))"

type_synonym row_sink = "SnapshotBuilder \<times> u64 set"

definition AddRowIfNew :: "u64 \<Rightarrow> EncodedRow \<Rightarrow> row_sink \<Rightarrow> row_sink res" where
  "AddRowIfNew primary_key encoded sink =
     (let (builder, seen) = sink in
      if primary_key \<in> seen then Inr sink
      else rbind (AddRow builder primary_key encoded) (\<lambda>builder'. Inr (builder', insert primary_key seen)))"

definition AddSnapshotRows :: "SnapshotBacking \<Rightarrow> row_sink \<Rightarrow> row_sink res" where
  "AddSnapshotRows backing sink =
     rbind (EnumerateSnapshotRows backing) (\<lambda>rows.
     foldM_res (\<lambda>row. AddRowIfNew (sr_primary_key row) (sr_encoded row)) rows sink)"

definition BuildCompactedDeltaSnapshot :: "tables \<Rightarrow> CompactionBuildRequest \<Rightarrow> OwnedSnapshotBacking res" where
  "BuildCompactedDeltaSnapshot h request =
     (if \<not> ForwardIndexModeUsesCompactDelta (cr_mode request)
      then Inl (FailedPrecondition ''delta compaction is disabled for forward index mode'')
      else
        rbind (ResolveLayout h (cr_state request)) (\<lambda>layout.
        let options = cr_build_options request;
            sink = (NewSnapshotBuilder layout (so_hash_seed options) (so_hash_version options), {}) in
        rbind (case ss_realtime_delta (cr_state request) of
                 None \<Rightarrow> Inr sink
               | Some p \<Rightarrow>
                   rbind (ScanVisibleRows (h p) (cr_boundary request)) (\<lambda>rows.
                   foldM_res (\<lambda>row. AddRowIfNew (rv_primary_key row) (rv_encoded row)) rows sink)) (\<lambda>sink.
        rbind (case ss_compact_delta (cr_state request) of
                 None \<Rightarrow> Inr sink
               | Some compact \<Rightarrow>
                   (case cds_backing compact of
                      None \<Rightarrow> Inl (FailedPrecondition ''compact delta has no backing'')
                    | Some b \<Rightarrow> AddSnapshotRows (owned_backing b) sink)) (\<lambda>sink.
        fst (Seal (fst sink))))))"

definition FinishDeltaCompaction :: "FinishDeltaCompactionRequest \<Rightarrow> ShardState res" where
  "FinishDeltaCompaction request =
     (if \<not> ForwardIndexModeUsesCompactDelta (cf_mode request)
      then Inl (FailedPrecondition ''delta compaction is disabled for forward index mode'')
      else
        (case cf_compact_backing request of
           None \<Rightarrow> Inl (InvalidArgument ''compaction compact backing is null'')
         | Some b \<Rightarrow>
             Inr (NewShardState (ss_shard_id (cf_previous request)) (cf_successor_generation request)
               \<lparr>ly_realtime_delta = cf_successor_realtime request,
                ly_compact_delta = Some (NewCompactDeltaSnapshot (Some b)),
                ly_full_snapshot = ss_full_snapshot (cf_previous request)\<rparr>)))"

section \<open>Full rebase\<close>

record FullRebaseBuildRequest =
  rb_state :: ShardState
  rb_external_async_load_active :: bool
  rb_build_options :: SnapshotBuildOptions
  rb_mode :: ForwardIndexMode

record FinishFullRebaseRequest =
  rf_previous :: ShardState
  rf_successor_generation :: u64
  rf_rebase_realtime :: "table_ptr option"
  rf_full_backing :: "OwnedSnapshotBacking option"
  rf_mode :: ForwardIndexMode

definition CheckSameLayout :: "SnapshotBacking \<Rightarrow> SnapshotBacking \<Rightarrow> unit res" where
  "CheckSameLayout lhs rhs =
     (case (sb_layout lhs, sb_layout rhs) of
        (Some l, Some r) \<Rightarrow>
          if cl_schema_version l \<noteq> cl_schema_version r \<or> cl_layout_fingerprint l \<noteq> cl_layout_fingerprint r
             \<or> cl_row_slot_size l \<noteq> cl_row_slot_size r
          then Inl (FailedPrecondition ''compact and full snapshots have different row layouts'')
          else
            rbind (Validate (sb_frozen_index_bytes lhs)) (\<lambda>lhs_index.
            rbind (Validate (sb_frozen_index_bytes rhs)) (\<lambda>rhs_index.
            let lm = vw_metadata lhs_index; rm = vw_metadata rhs_index in
            if md_hash_seed lm \<noteq> md_hash_seed rm \<or> md_hash_version lm \<noteq> md_hash_version rm
               \<or> md_group_width lm \<noteq> md_group_width rm
            then Inl (FailedPrecondition ''compact and full snapshots have different hash settings'')
            else Inr ()))
      | _ \<Rightarrow> Inl (FailedPrecondition ''rebase snapshot has no row layout''))"

definition EnsurePreviousRealtimeIsEmpty :: "tables \<Rightarrow> ShardState \<Rightarrow> unit res" where
  "EnsurePreviousRealtimeIsEmpty h previous =
     (case ss_realtime_delta previous of
        None \<Rightarrow> Inr ()
      | Some p \<Rightarrow>
          rbind (ScanVisibleRows (h p) (CaptureCompactionBoundary (h p))) (\<lambda>visible_rows.
          reject (visible_rows \<noteq> [])
            (FailedPrecondition ''full rebase cutover requires previous realtime delta to be empty'')))"

definition BuildRebasedFullSnapshot :: "FullRebaseBuildRequest \<Rightarrow> OwnedSnapshotBacking res" where
  "BuildRebasedFullSnapshot request =
     (if \<not> ForwardIndexModeUsesCompactDelta (rb_mode request)
      then Inl (FailedPrecondition ''internal full rebase is disabled for forward index mode'')
      else if rb_external_async_load_active request
      then Inl (FailedPrecondition ''external async load is active; internal full rebase is deferred'')
      else
        (case Option.bind (ss_full_snapshot (rb_state request)) fsv_backing of
           None \<Rightarrow> Inl (FailedPrecondition ''full rebase requires a full snapshot'')
         | Some full_backing \<Rightarrow>
             rbind (case ss_compact_delta (rb_state request) of
                      None \<Rightarrow> Inr ()
                    | Some compact \<Rightarrow>
                        (case cds_backing compact of
                           None \<Rightarrow> Inl (FailedPrecondition ''compact delta has no backing'')
                         | Some b \<Rightarrow> CheckSameLayout (owned_backing b) full_backing)) (\<lambda>_.
             let options = rb_build_options request;
                 sink = (NewSnapshotBuilder (sb_layout full_backing) (so_hash_seed options) (so_hash_version options), {}) in
             rbind (case Option.bind (ss_compact_delta (rb_state request)) cds_backing of
                      None \<Rightarrow> Inr sink
                    | Some b \<Rightarrow> AddSnapshotRows (owned_backing b) sink) (\<lambda>sink.
             rbind (AddSnapshotRows full_backing sink) (\<lambda>sink.
             fst (Seal (fst sink)))))))"

definition FinishFullRebase :: "tables \<Rightarrow> FinishFullRebaseRequest \<Rightarrow> ShardState res" where
  "FinishFullRebase h request =
     (if \<not> ForwardIndexModeUsesCompactDelta (rf_mode request)
      then Inl (FailedPrecondition ''internal full rebase is disabled for forward index mode'')
      else
        (case rf_full_backing request of
           None \<Rightarrow> Inl (InvalidArgument ''rebased full backing is null'')
         | Some b \<Rightarrow>
             rbind (EnsurePreviousRealtimeIsEmpty h (rf_previous request)) (\<lambda>_.
             Inr (NewShardState (ss_shard_id (rf_previous request)) (rf_successor_generation request)
               \<lparr>ly_realtime_delta = rf_rebase_realtime request, ly_compact_delta = None,
                ly_full_snapshot = Some (NewFullSnapshotView (Some (owned_backing b)))\<rparr>))))"

text \<open>Rows go into the sink unless their key has been seen: what is already there wins.\<close>

abbreviation sink_holds :: "CompiledRowLayout \<Rightarrow> (u64 \<times> EncodedRow) list \<Rightarrow> row_sink \<Rightarrow> bool" where
  "sink_holds L acc sink \<equiv> builder_holds L acc (fst sink) \<and> snd sink = fst ` set acc"

text \<open>The contents of a sink as a partial function.\<close>

definition sink_serves :: "CompiledRowLayout \<Rightarrow> (u64 \<rightharpoonup> EncodedRow) \<Rightarrow> row_sink \<Rightarrow> bool" where
  "sink_serves L m sink \<longleftrightarrow> (\<exists>acc. sink_holds L acc sink \<and> map_of acc = m
     \<and> (\<forall>(k, e) \<in> set acc. stored_row L e = e))"

text \<open>Sealing a sink with enough room gives a backing with its rows.\<close>

definition room_for :: "CompiledRowLayout \<Rightarrow> (u64 \<rightharpoonup> EncodedRow) \<Rightarrow> bool" where
  "room_for L m \<longleftrightarrow> 0 < cl_row_slot_size L \<and> card (dom m) * cl_row_slot_size L < 2 ^ 64 \<and> card (dom m) \<le> 2 ^ 58"

text \<open>The encoded rows that a realtime table shows.\<close>

definition rt_rows_view :: "RealtimeDeltaAtomicTable \<Rightarrow> (u64 \<rightharpoonup> EncodedRow)" where
  "rt_rows_view t = (\<lambda>k. map_option snd (rt_view t k))"

definition demo_build_options :: SnapshotBuildOptions where
  "demo_build_options = \<lparr>so_hash_seed = 3, so_hash_version = 1\<rparr>"

definition first_updates :: "(u64 \<times> SourcePosition \<times> EncodedRow) list" where
  "first_updates = [(9, at_offset 6, plain_row [2])]"

definition later_updates :: "(u64 \<times> SourcePosition \<times> EncodedRow) list" where
  "later_updates = [(7, at_offset 8, plain_row [4])]"

definition boundary_table :: RealtimeDeltaAtomicTable where
  "boundary_table = snd (rt_run first_updates plain_table)"

definition demo_tables :: tables where
  "demo_tables p = (if p = 0 then snd (rt_run later_updates boundary_table)
     else snd (rt_run (first_updates @ later_updates) (NewRealtimeDeltaAtomicTable (Some plain_layout) 4 0 1)))"

definition delta_state :: ShardState where
  "delta_state = NewShardState 0 1 \<lparr>ly_realtime_delta = Some 0, ly_compact_delta = None, ly_full_snapshot = None\<rparr>"

definition rebase_tables :: tables where
  "rebase_tables p = plain_table"

section \<open>Merging rows\<close>

lemma AddRowIfNew_holds:
  assumes "sink_holds L acc sink" and "row_for L e"
  shows "\<exists>sink'. AddRowIfNew k e sink = Inr sink'
    \<and> sink_holds L (if k \<in> fst ` set acc then acc else acc @ [(k, e)]) sink'"
proof (cases "k \<in> fst ` set acc")
  case True
  with assms show ?thesis by (cases sink) (auto simp: AddRowIfNew_def)
next
  case False
  with assms AddRow_iff [of L acc "fst sink" k e] obtain b' where b': "AddRow (fst sink) k e = Inr b'" by blast
  from AddRow_holds [OF _ b'] assms False b' show ?thesis
    by (cases sink) (auto simp: AddRowIfNew_def)
qed

lemma merge_rows:
  assumes "sink_holds L acc sink" and "distinct (map fst rows)" and "\<forall>(k, e) \<in> set rows. row_for L e"
  shows "\<exists>sink'. foldM_res (\<lambda>p. AddRowIfNew (fst p) (snd p)) rows sink = Inr sink'
    \<and> sink_holds L (acc @ filter (\<lambda>p. fst p \<notin> fst ` set acc) rows) sink'"
  using assms
proof (induction rows arbitrary: acc sink)
  case (Cons p rows)
  let ?acc = "if fst p \<in> fst ` set acc then acc else acc @ [(fst p, snd p)]"
  have "row_for L (snd p)" using Cons.prems(3) by auto
  from AddRowIfNew_holds [OF Cons.prems(1) this, of "fst p"] obtain sink1
    where s1: "AddRowIfNew (fst p) (snd p) sink = Inr sink1" "sink_holds L ?acc sink1" by blast
  show ?case
  proof (cases "fst p \<in> fst ` set acc")
    case True
    then have "sink_holds L acc sink1" using s1(2) by simp
    from Cons.IH [OF this] Cons.prems(2,3) True s1(1) show ?thesis by simp
  next
    case False
    then have s2: "sink_holds L (acc @ [p]) sink1" using s1(2) by simp
    have "filter (\<lambda>q. fst q \<notin> fst ` set (acc @ [p])) rows = filter (\<lambda>q. fst q \<notin> fst ` set acc) rows"
      by (rule filter_cong) (use Cons.prems(2) in \<open>auto simp: image_iff\<close>)
    note eq = this
    have "distinct (map fst rows)" "\<forall>(k, e) \<in> set rows. row_for L e" using Cons.prems(2,3) by auto
    from Cons.IH [OF s2 this] obtain sink' where s3: "foldM_res (\<lambda>p. AddRowIfNew (fst p) (snd p)) rows sink1 = Inr sink'"
      "sink_holds L ((acc @ [p]) @ filter (\<lambda>q. fst q \<notin> fst ` set (acc @ [p])) rows) sink'" by blast
    from s3(2) [unfolded eq] s3(1) s1(1) False show ?thesis by simp
  qed
qed simp

lemma merge_rows_map:
  assumes "distinct (map fst rows)"
  shows "map_of (acc @ filter (\<lambda>p. fst p \<notin> fst ` set acc) rows) = map_of rows ++ map_of acc"
proof
  fix k
  have f: "map_of (filter (\<lambda>p. fst p \<notin> S) rows) k = (if k \<in> S then None else map_of rows k)" for S
    by (induction rows) auto
  show "map_of (acc @ filter (\<lambda>p. fst p \<notin> fst ` set acc) rows) k = (map_of rows ++ map_of acc) k"
  proof (cases "map_of acc k")
    case None
    then have "k \<notin> fst ` set acc" by (simp add: map_of_eq_None_iff)
    with None show ?thesis by (simp add: map_add_def f)
  qed (simp add: map_add_def)
qed

lemma sink_serves_new: "sink_serves L Map.empty (NewSnapshotBuilder (Some L) seed version, {})"
  by (auto simp: sink_serves_def NewSnapshotBuilder_holds intro!: exI [of _ "[]"])

lemma sink_serves_merge:
  assumes "sink_serves L m sink" and "distinct (map fst rows)"
    and "\<forall>(k, e) \<in> set rows. row_for L e \<and> stored_row L e = e"
  shows "\<exists>sink'. foldM_res (\<lambda>p. AddRowIfNew (fst p) (snd p)) rows sink = Inr sink' \<and> sink_serves L (map_of rows ++ m) sink'"
proof -
  from assms(1) obtain acc where acc: "sink_holds L acc sink" "map_of acc = m" "\<forall>(k, e) \<in> set acc. stored_row L e = e"
    by (auto simp: sink_serves_def)
  have "\<forall>(k, e) \<in> set rows. row_for L e" using assms(3) by auto
  from merge_rows [OF acc(1) assms(2) this] obtain sink' where s: "foldM_res (\<lambda>p. AddRowIfNew (fst p) (snd p)) rows sink = Inr sink'"
    "sink_holds L (acc @ filter (\<lambda>p. fst p \<notin> fst ` set acc) rows) sink'" by blast
  moreover have "sink_serves L (map_of rows ++ m) sink'"
    unfolding sink_serves_def using s(2) acc(2,3) assms(3) merge_rows_map [OF assms(2), of acc]
    by (intro exI [of _ "acc @ filter (\<lambda>p. fst p \<notin> fst ` set acc) rows"]) auto
  ultimately show ?thesis by blast
qed

lemma foldM_res_map: "foldM_res f (map g xs) s = foldM_res (\<lambda>x. f (g x)) xs s"
  by (induction xs arbitrary: s) (auto simp: rbind_def split: sum.splits)

lemma AddSnapshotRows_serves:
  assumes "sink_serves L m sink" and h: "backing_holds L rows b"
  shows "\<exists>sink'. AddSnapshotRows b sink = Inr sink' \<and> sink_serves L (map_of rows ++ m) sink'"
proof -
  from any.enumerate_rows [OF h] obtain srs where srs: "EnumerateSnapshotRows b = Inr srs"
    and ms: "mset (map (\<lambda>r. (sr_primary_key r, sr_encoded r)) srs) = mset rows" by blast
  let ?ps = "map (\<lambda>r. (sr_primary_key r, sr_encoded r)) srs"
  have k: "mset (map fst ?ps) = mset (map fst rows)" by (simp only: mset_map [of fst] ms)
  then have d: "distinct (map fst ?ps)" using any.keys [OF h] mset_eq_imp_distinct_iff [OF k] by blast
  have st: "set ?ps = set rows" using ms by (rule mset_eq_setD)
  have "map_of ?ps = map_of rows" using d any.keys [OF h] st by (rule map_of_inject_set [THEN iffD2])
  moreover have "\<forall>(k, e) \<in> set ?ps. row_for L e \<and> stored_row L e = e" unfolding st by (rule any.fits [OF h])
  ultimately obtain sink' where "foldM_res (\<lambda>p. AddRowIfNew (fst p) (snd p)) ?ps sink = Inr sink'" "sink_serves L (map_of rows ++ m) sink'"
    using sink_serves_merge [OF assms(1) d] by auto
  then show ?thesis by (simp add: AddSnapshotRows_def srs foldM_res_map)
qed

lemma sink_serves_Seal:
  assumes "sink_serves L m sink" and "room_for L m"
  shows "\<exists>ob rows. fst (Seal (fst sink)) = Inr ob \<and> owned_contains L rows ob \<and> map_of rows = m"
proof -
  from assms(1) obtain acc where acc: "builder_holds L acc (fst sink)" "map_of acc = m" "\<forall>(k, e) \<in> set acc. stored_row L e = e"
    by (auto simp: sink_serves_def)
  then have d: "distinct (map fst acc)" and rf: "\<forall>(k, e) \<in> set acc. row_for L e" by (auto simp: builder_holds_def)
  have "card (dom m) = length acc"
    using d distinct_card [of "map fst acc"] by (simp add: acc(2) [symmetric] dom_map_of_conv_image_fst)
  with assms(2) have room: "0 < cl_row_slot_size L" "length acc * cl_row_slot_size L < 2 ^ 64" "length acc \<le> 2 ^ 58"
    by (simp_all add: room_for_def)
  have st: "map (\<lambda>(k, e). (k, stored_row L e)) acc = acc" using acc(3) by (induction acc) auto
  from Seal_succeeds [OF acc(1) room(3)] obtain ob where "fst (Seal (fst sink)) = Inr ob" ..
  with Seal_holds [OF acc(1) room(1)] room(2) acc(2) show ?thesis
    by (auto simp: length_slot_list [OF rf] st)
qed

section \<open>Compaction\<close>

lemma scan_serves:
  assumes inv: "rt_inv tb" and fit: "rows_fit tb" and L: "rt_layout tb = Some L" and run: "rt_run ps tb = (ress, t1)"
    and sink: "sink_serves L m sink"
  shows "\<exists>rows sink'. ScanVisibleRows t1 (CaptureCompactionBoundary tb) = Inr rows
    \<and> foldM_res (\<lambda>row. AddRowIfNew (rv_primary_key row) (rv_encoded row)) rows sink = Inr sink'
    \<and> sink_serves L (rt_rows_view tb ++ m) sink'"
proof -
  from scan_view [OF inv run] obtain vs where vs: "ScanVisibleRows t1 (CaptureCompactionBoundary tb) = Inr vs"
    "distinct (map rv_primary_key vs)"
    and mo: "map_of (map (\<lambda>v. (rv_primary_key v, rv_encoded v)) vs) = rt_rows_view tb"
    unfolding rt_rows_view_def by blast
  let ?ps = "map (\<lambda>v. (rv_primary_key v, rv_encoded v)) vs"
  have d: "distinct (map fst ?ps)" using vs(2) by (simp add: comp_def)
  have "\<forall>(k, e) \<in> set ?ps. row_for L e \<and> stored_row L e = e"
  proof safe
    fix k e assume "(k, e) \<in> set ?ps"
    then have "rt_rows_view tb k = Some e" unfolding mo [symmetric] using d by (rule map_of_is_SomeI [rotated])
    then obtain pos where "rt_view tb k = Some (pos, e)" by (auto simp: rt_rows_view_def)
    from rt_view_fits [OF fit L this] show "row_for L e" "stored_row L e = e" by (simp_all add: row_for_def stored_row_def)
  qed
  from sink_serves_merge [OF sink d this] obtain sink' where "foldM_res (\<lambda>p. AddRowIfNew (fst p) (snd p)) ?ps sink = Inr sink'"
    "sink_serves L (rt_rows_view tb ++ m) sink'" unfolding mo by blast
  then have "foldM_res (\<lambda>row. AddRowIfNew (rv_primary_key row) (rv_encoded row)) vs sink = Inr sink'"
    by (simp add: foldM_res_map)
  with vs(1) \<open>sink_serves L (rt_rows_view tb ++ m) sink'\<close> show ?thesis by blast
qed

lemma AddCompactRows_serves:
  assumes "compact_holds L c compact" and "sink_serves L m sink"
  shows "\<exists>sink'. (case c of None \<Rightarrow> Inr sink | Some d \<Rightarrow> (case cds_backing d of
        None \<Rightarrow> Inl (FailedPrecondition ''compact delta has no backing'') | Some b \<Rightarrow> AddSnapshotRows (owned_backing b) sink)) = Inr sink'
    \<and> sink_serves L (compact ++ m) sink'"
proof (cases c)
  case (Some d)
  with assms(1) obtain b rows where "d = NewCompactDeltaSnapshot (Some b)" "owned_contains L rows b" "compact = map_of rows"
    by (auto simp: compact_holds_def)
  with Some AddSnapshotRows_serves [OF assms(2) own.provides] show ?thesis by (auto simp: NewCompactDeltaSnapshot_def)
qed (use assms in \<open>simp add: compact_holds_def\<close>)

lemma BuildCompacted_serves:
  assumes mode: "ForwardIndexModeUsesCompactDelta (cr_mode req)" and p: "ss_realtime_delta (cr_state req) = Some p"
    and tb: "rt_inv tb" "rows_fit tb" "rt_layout tb = Some L" and run: "rt_run ps tb = (ress, h p)"
    and b: "cr_boundary req = CaptureCompactionBoundary tb"
    and c: "compact_holds L (ss_compact_delta (cr_state req)) compact" and room: "room_for L (compact ++ rt_rows_view tb)"
  shows "\<exists>ob rows. BuildCompactedDeltaSnapshot h req = Inr ob \<and> owned_contains L rows ob \<and> map_of rows = compact ++ rt_rows_view tb"
proof -
  let ?sink = "(NewSnapshotBuilder (Some L) (so_hash_seed (cr_build_options req)) (so_hash_version (cr_build_options req)), {})"
  have "rt_layout (h p) = Some L" using rt_run_inv(2) [OF tb(1) run] tb(3) by simp
  then have layout: "ResolveLayout h (cr_state req) = Inr (Some L)" by (simp add: ResolveLayout_def p)
  from scan_serves [OF tb run sink_serves_new] obtain vs sink1 where s1: "ScanVisibleRows (h p) (cr_boundary req) = Inr vs"
    "foldM_res (\<lambda>row. AddRowIfNew (rv_primary_key row) (rv_encoded row)) vs ?sink = Inr sink1"
    "sink_serves L (rt_rows_view tb) sink1" unfolding b map_add_empty by blast
  from AddCompactRows_serves [OF c s1(3)] obtain sink2 where s2: "(case ss_compact_delta (cr_state req) of None \<Rightarrow> Inr sink1
       | Some d \<Rightarrow> (case cds_backing d of None \<Rightarrow> Inl (FailedPrecondition ''compact delta has no backing'')
       | Some b \<Rightarrow> AddSnapshotRows (owned_backing b) sink1)) = Inr sink2" "sink_serves L (compact ++ rt_rows_view tb) sink2" by blast
  have "BuildCompactedDeltaSnapshot h req = fst (Seal (fst sink2))"
    using mode by (simp add: BuildCompactedDeltaSnapshot_def layout p s1(1,2) s2(1) Let_def)
  with sink_serves_Seal [OF s2(2) room] show ?thesis by simp
qed

lemma rt_rows_view_add: "rt_view t = v0 ++ v1 \<Longrightarrow> rt_rows_view t = (\<lambda>k. map_option snd (v0 k)) ++ (\<lambda>k. map_option snd (v1 k))"
  by (auto simp: rt_rows_view_def map_add_def fun_eq_iff split: option.splits)

lemma add_overridden: "dom a \<subseteq> dom b \<Longrightarrow> a ++ b = b"
  by (auto simp: map_add_def fun_eq_iff dom_def split: option.splits)

text \<open>Publishing to the old table and to an empty one at the same time.\<close>

lemma dual_writes:
  assumes "rt_inv t0" and "rt_run ps1 t0 = (r1, tb)" and "rt_run ps2 tb = (r2, t1)"
    and "rt_run (ps1 @ ps2) (NewRealtimeDeltaAtomicTable (Some L) cap seed ver) = (r3, tq)" and "cap < 2 ^ 64"
    and "\<forall>r \<in> set (r1 @ r2 @ r3). r = Inr ()"
    and "\<forall>p \<in> set (ps1 @ ps2). \<forall>pos' e'. rt_view t0 (fst p) = Some (pos', e') \<longrightarrow> sp_offset pos' < sp_offset (fst (snd p))"
  shows "rt_rows_view t1 = rt_rows_view tb ++ rt_rows_view tq"
proof -
  let ?f1 = "fold newer_wins ps1 Map.empty" and ?f = "fold newer_wins (ps1 @ ps2) Map.empty"
  have "rt_view tb = fold newer_wins ps1 (rt_view t0)"
    using rt_run_view [OF assms(1,2)] assms(6) by simp
  moreover have "rt_view t1 = fold newer_wins ps2 (rt_view tb)"
    using rt_run_view [OF rt_run_inv(1) [OF assms(1,2)] assms(3)] assms(6) by simp
  ultimately have vb: "rt_view tb = rt_view t0 ++ ?f1" and v1: "rt_view t1 = rt_view t0 ++ ?f"
    using fold_newer_wins_add [of ps1 "rt_view t0" Map.empty] fold_newer_wins_add [of "ps1 @ ps2" "rt_view t0" Map.empty] assms(7)
    by auto
  have vq: "rt_view tq = ?f"
    using rt_run_view [OF rt_inv_new [OF assms(5)] assms(4)] assms(6) rt_view_new by simp
  have "dom (\<lambda>k. map_option snd (?f1 k)) \<subseteq> dom (\<lambda>k. map_option snd (?f k))"
    using fold_newer_wins_domain [of ?f1 ps2] by (auto simp: dom_def)
  from add_overridden [OF this] show ?thesis
    unfolding rt_rows_view_add [OF vb] rt_rows_view_add [OF v1] by (simp add: rt_rows_view_def vq map_add_assoc [symmetric])
qed

text \<open>
  C10. Compaction does not change what a shard serves. While updates are published both to the old
  realtime table and to an empty successor table, a boundary is captured, the rows up to it are
  folded over the compact delta, and the successor state takes over: every read gives what it gave
  before. The updates must be newer than what the old table held when they began.
\<close>

theorem compaction_preserves_reads:
  assumes t0: "rt_inv t0" "rows_fit t0" "rt_layout t0 = Some L"
    and old: "rt_run ps1 t0 = (r1, tb)" "rt_run ps2 tb = (r2, h p)"
    and new: "rt_run (ps1 @ ps2) (NewRealtimeDeltaAtomicTable (Some L) cap seed ver) = (r3, h q)" "cap < 2 ^ 64"
    and accepted: "\<forall>r \<in> set (r1 @ r2 @ r3). r = Inr ()"
    and newer: "\<forall>u \<in> set (ps1 @ ps2). \<forall>pos' e'. rt_view t0 (fst u) = Some (pos', e') \<longrightarrow> sp_offset pos' < sp_offset (fst (snd u))"
    and state: "ss_realtime_delta s = Some p" "compact_holds L (ss_compact_delta s) compact" "full_holds L (ss_full_snapshot s) full"
    and room: "room_for L (compact ++ rt_rows_view tb)"
  shows "\<exists>ob s'. BuildCompactedDeltaSnapshot h \<lparr>cr_state = s, cr_boundary = CaptureCompactionBoundary tb,
       cr_build_options = opts, cr_mode = kRealtimeDelta\<rparr> = Inr ob
     \<and> FinishDeltaCompaction \<lparr>cf_previous = s, cf_successor_generation = gen, cf_successor_realtime = Some q,
       cf_compact_backing = Some ob, cf_mode = kRealtimeDelta\<rparr> = Inr s'
     \<and> (\<forall>k. ss_Get h s' k = ss_Get h s k)"
proof -
  let ?req = "\<lparr>cr_state = s, cr_boundary = CaptureCompactionBoundary tb, cr_build_options = opts, cr_mode = kRealtimeDelta\<rparr>"
  note B = rt_run_inv [OF t0(1) old(1)]
  have tb: "rt_inv tb" "rows_fit tb" "rt_layout tb = Some L"
    using B t0 rt_run_rows_fit [OF t0(2) old(1)] by auto
  obtain ob rows where ob: "BuildCompactedDeltaSnapshot h ?req = Inr ob" "owned_contains L rows ob"
      "map_of rows = compact ++ rt_rows_view tb"
    using BuildCompacted_serves [of ?req p tb L ps2 r2 h compact] state tb old(2) room
    by (auto simp: ForwardIndexModeUsesCompactDelta_def)
  let ?s' = "NewShardState (ss_shard_id s) gen \<lparr>ly_realtime_delta = Some q,
      ly_compact_delta = Some (NewCompactDeltaSnapshot (Some ob)), ly_full_snapshot = ss_full_snapshot s\<rparr>"
  have rp: "realtime_holds h L (Some p) (rt_rows_view (h p))"
    using rt_run_inv [OF tb(1) old(2)] rt_run_rows_fit [OF tb(2) old(2)] tb(3) by (simp add: realtime_holds_def rt_rows_view_def)
  have rq: "realtime_holds h L (Some q) (rt_rows_view (h q))"
    using rt_run_inv [OF rt_inv_new [OF new(2)] new(1)] rt_run_rows_fit [OF rows_fit_new new(1)]
    by (simp add: realtime_holds_def rt_rows_view_def NewRealtimeDeltaAtomicTable_def)
  have cq: "compact_holds L (Some (NewCompactDeltaSnapshot (Some ob))) (compact ++ rt_rows_view tb)"
    using ob(2) ob(3) [symmetric] unfolding compact_holds_def option.case by blast
  have "shard_serves h L ?s' (full ++ (compact ++ rt_rows_view tb) ++ rt_rows_view (h q))"
    by (rule shard_servesI) (use state(3) rq cq in \<open>simp_all add: NewShardState_def\<close>)
  moreover have "shard_serves h L s (full ++ compact ++ rt_rows_view (h p))"
    by (rule shard_servesI) (use state rp in simp_all)
  ultimately have "ss_Get h ?s' k = ss_Get h s k" for k
    using dual_writes [OF t0(1) old new accepted newer] by (simp add: shard_serves_Get)
  with ob(1) show ?thesis by (auto simp: FinishDeltaCompaction_def ForwardIndexModeUsesCompactDelta_def)
qed

section \<open>Full rebase\<close>

lemma AddCompactRows_serves':
  assumes "compact_holds L c compact" and "sink_serves L m sink"
  shows "\<exists>sink'. (case Option.bind c cds_backing of None \<Rightarrow> Inr sink | Some b \<Rightarrow> AddSnapshotRows (owned_backing b) sink) = Inr sink'
    \<and> sink_serves L (compact ++ m) sink'"
proof (cases c)
  case (Some d)
  with assms(1) have "cds_backing d \<noteq> None" by (auto simp: compact_holds_def NewCompactDeltaSnapshot_def)
  with AddCompactRows_serves [OF assms] Some show ?thesis by (auto split: option.splits)
qed (use assms in \<open>simp add: compact_holds_def\<close>)

lemma BuildRebased_serves:
  assumes f: "ss_full_snapshot (rb_state req) = Some v" "full_holds L (Some v) full"
    and c: "compact_holds L (ss_compact_delta (rb_state req)) compact" and room: "room_for L (full ++ compact)"
    and bld: "BuildRebasedFullSnapshot req = Inr ob"
  shows "\<exists>rows. owned_contains L rows ob \<and> map_of rows = full ++ compact"
proof -
  from f(2) obtain b frows where b: "v = NewFullSnapshotView (Some b)" "backing_holds L frows b" "full = map_of frows"
    by (auto simp: full_holds_def)
  then have fb: "Option.bind (ss_full_snapshot (rb_state req)) fsv_backing = Some b" by (simp add: f NewFullSnapshotView_def)
  let ?sink = "(NewSnapshotBuilder (Some L) (so_hash_seed (rb_build_options req)) (so_hash_version (rb_build_options req)), {})"
  from AddCompactRows_serves' [OF c sink_serves_new] obtain sink1
    where s1: "(case Option.bind (ss_compact_delta (rb_state req)) cds_backing of None \<Rightarrow> Inr ?sink | Some b \<Rightarrow> AddSnapshotRows (owned_backing b) ?sink) = Inr sink1"
      "sink_serves L compact sink1" unfolding map_add_empty by blast
  from AddSnapshotRows_serves [OF s1(2) b(2)] obtain sink2 where s2: "AddSnapshotRows b sink1 = Inr sink2" "sink_serves L (full ++ compact) sink2"
    unfolding b(3) [symmetric] by blast
  have "fst (Seal (fst sink2)) = Inr ob"
    using bld s1(1) s2(1) any.layout [OF b(2)] by (auto simp: BuildRebasedFullSnapshot_def fb Let_def split: if_splits)
  with sink_serves_Seal [OF s2(2) room] show ?thesis by auto
qed

lemma scan_empty_view:
  assumes "rt_inv t" and "ScanVisibleRows t (CaptureCompactionBoundary t) = Inr []"
  shows "rt_rows_view t = Map.empty"
proof -
  have "rt_run [] t = ([], t)" by simp
  from scan_view [OF assms(1) this] assms(2) show ?thesis by (auto simp: rt_rows_view_def)
qed

text \<open>
  C11. A full rebase does not change what a shard serves: it can only be finished when the realtime
  delta shows no row, and then every read that the rebase's own realtime table does not answer gives
  what it gave before.
\<close>

theorem rebase_preserves_reads:
  assumes full: "ss_full_snapshot s = Some v" "full_holds L (Some v) full" and c: "compact_holds L (ss_compact_delta s) compact"
    and r: "realtime_holds h L (ss_realtime_delta s) realtime" and q: "realtime_holds h L q later"
    and room: "room_for L (full ++ compact)"
    and bld: "BuildRebasedFullSnapshot \<lparr>rb_state = s, rb_external_async_load_active = False, rb_build_options = opts,
       rb_mode = mode\<rparr> = Inr ob"
    and fin: "FinishFullRebase h \<lparr>rf_previous = s, rf_successor_generation = gen, rf_rebase_realtime = q,
       rf_full_backing = Some ob, rf_mode = mode\<rparr> = Inr s'"
  shows "realtime = Map.empty \<and> ss_Get h s' k = (if later k = None then ss_Get h s k else snapshot_answer L later k)"
proof -
  from BuildRebased_serves [OF _ full(2) _ room bld] full(1) c obtain rows
    where ob: "owned_contains L rows ob" "map_of rows = full ++ compact" by auto
  let ?s' = "NewShardState (ss_shard_id s) gen \<lparr>ly_realtime_delta = q, ly_compact_delta = None,
      ly_full_snapshot = Some (NewFullSnapshotView (Some (owned_backing ob)))\<rparr>"
  have s': "s' = ?s'" and e: "EnsurePreviousRealtimeIsEmpty h s = Inr ()"
    using fin by (auto simp: FinishFullRebase_def split: if_splits)
  have empty: "realtime = Map.empty"
    using r e scan_empty_view
    by (auto simp: EnsurePreviousRealtimeIsEmpty_def realtime_holds_def rt_rows_view_def split: option.splits)
  have f': "full_holds L (Some (NewFullSnapshotView (Some (owned_backing ob)))) (full ++ compact)"
    using own.provides [OF ob(1)] ob(2) [symmetric] unfolding full_holds_def option.case by blast
  have "shard_serves h L s' (full ++ compact ++ Map.empty ++ later)"
    unfolding s' by (rule shard_servesI) (use f' q in \<open>simp_all add: NewShardState_def compact_holds_def\<close>)
  moreover have "shard_serves h L s (full ++ compact)"
    using shard_servesI [of L s full compact h realtime] full c r empty by simp
  ultimately show ?thesis
    using empty by (auto simp: shard_serves_Get snapshot_answer_def map_add_def split: option.splits)
qed

section \<open>Examples\<close>

theorem compaction_preserves_reads_witness:
  "\<exists>ob s'. BuildCompactedDeltaSnapshot demo_tables \<lparr>cr_state = delta_state,
        cr_boundary = CaptureCompactionBoundary boundary_table, cr_build_options = demo_build_options, cr_mode = kRealtimeDelta\<rparr> = Inr ob
     \<and> FinishDeltaCompaction \<lparr>cf_previous = delta_state, cf_successor_generation = 2, cf_successor_realtime = Some 1,
        cf_compact_backing = Some ob, cf_mode = kRealtimeDelta\<rparr> = Inr s'
     \<and> ss_Get demo_tables s' 7 = Inr (Some \<lparr>row_layout = Some plain_layout, row_encoded = Some (plain_row [4])\<rparr>)
     \<and> ss_Get demo_tables s' 9 = Inr (Some \<lparr>row_layout = Some plain_layout, row_encoded = Some (plain_row [2])\<rparr>)"
proof -
  let ?ps = "first_updates @ later_updates"
  let ?new = "NewRealtimeDeltaAtomicTable (Some plain_layout) 4 0 1"
  have ok: "fst (rt_run first_updates plain_table) = [Inr ()]" "fst (rt_run later_updates boundary_table) = [Inr ()]"
    "fst (rt_run ?ps ?new) = [Inr (), Inr ()]" by code_simp+
  then have runs: "rt_run first_updates plain_table = ([Inr ()], boundary_table)"
    "rt_run later_updates boundary_table = ([Inr ()], demo_tables 0)" "rt_run ?ps ?new = ([Inr (), Inr ()], demo_tables 1)"
    by (simp_all add: boundary_table_def demo_tables_def prod_eq_iff)
  have newer: "\<forall>u \<in> set ?ps. \<forall>pos' e'. rt_view plain_table (fst u) = Some (pos', e') \<longrightarrow> sp_offset pos' < sp_offset (fst (snd u))"
    by (auto simp: first_updates_def later_updates_def at_offset_def plain_table_facts(4) split: if_splits)
  have room: "room_for plain_layout (Map.empty ++ rt_rows_view boundary_table)"
  proof -
    have "rt_view boundary_table = [7 \<mapsto> (at_offset 5, plain_row [1]), 9 \<mapsto> (at_offset 6, plain_row [2])]"
      using rt_run_view [OF plain_table_facts(1) runs(1)] by (simp add: plain_table_facts(4) first_updates_def)
    then have "dom (rt_rows_view boundary_table) = {7, 9}" by (auto simp: rt_rows_view_def split: if_splits)
    then show ?thesis by (simp add: room_for_def)
  qed
  have get: "ss_Get demo_tables delta_state 7 = Inr (Some \<lparr>row_layout = Some plain_layout, row_encoded = Some (plain_row [4])\<rparr>)"
    "ss_Get demo_tables delta_state 9 = Inr (Some \<lparr>row_layout = Some plain_layout, row_encoded = Some (plain_row [2])\<rparr>)"
    by code_simp+
  have "compact_holds plain_layout (ss_compact_delta delta_state) Map.empty"
    "full_holds plain_layout (ss_full_snapshot delta_state) Map.empty" "ss_realtime_delta delta_state = Some 0"
    by (simp_all add: delta_state_def NewShardState_def compact_holds_def full_holds_def)
  with compaction_preserves_reads [OF plain_table_facts(1-3) runs _ _ newer _ _ _ room, of delta_state Map.empty demo_build_options 2] get
  show ?thesis by fastforce
qed

theorem rebase_preserves_reads_witness:
  "\<exists>s ob s'. BuildRebasedFullSnapshot \<lparr>rb_state = s, rb_external_async_load_active = False,
        rb_build_options = demo_build_options, rb_mode = kRealtimeDelta\<rparr> = Inr ob
     \<and> FinishFullRebase rebase_tables \<lparr>rf_previous = s, rf_successor_generation = 2, rf_rebase_realtime = Some 0,
        rf_full_backing = Some ob, rf_mode = kRealtimeDelta\<rparr> = Inr s'
     \<and> ss_Get rebase_tables s' 7 = Inr (Some \<lparr>row_layout = Some plain_layout, row_encoded = Some (plain_row [1])\<rparr>)
     \<and> ss_Get rebase_tables s' 9 = Inr (Some \<lparr>row_layout = Some plain_layout, row_encoded = Some (plain_row [8])\<rparr>)"
proof -
  obtain fb where fb: "owned_contains plain_layout (map (\<lambda>(k, a). (k, plain_row a)) [(7, [5]), (9, [8])]) fb"
    by (rule plain_backing [of "[(7, [5]), (9, [8])]"]) auto
  let ?v = "NewFullSnapshotView (Some (owned_backing fb))"
  let ?s = "NewShardState 0 1 \<lparr>ly_realtime_delta = None, ly_compact_delta = None, ly_full_snapshot = Some ?v\<rparr>"
  let ?full = "[7 :: u64 \<mapsto> plain_row [5], 9 \<mapsto> plain_row [8]]"
  let ?req = "\<lparr>rb_state = ?s, rb_external_async_load_active = False, rb_build_options = demo_build_options, rb_mode = kRealtimeDelta\<rparr>"
  note own.provides [OF fb]
  then have bh: "backing_holds plain_layout [(7, plain_row [5]), (9, plain_row [8])] (owned_backing fb)" by simp
  have m: "map_of [(7 :: u64, plain_row [5]), (9, plain_row [8])] = ?full" by (auto simp: fun_upd_twist)
  have f: "full_holds plain_layout (Some ?v) ?full" using bh m [symmetric] unfolding full_holds_def option.case by blast
  have "card (dom ?full) = 2" by simp
  then have room: "room_for plain_layout (?full ++ Map.empty)" by (simp add: room_for_def)
  from AddSnapshotRows_serves [OF sink_serves_new bh] obtain sink where sink:
    "AddSnapshotRows (owned_backing fb) (NewSnapshotBuilder (Some plain_layout) 3 1, {}) = Inr sink" "sink_serves plain_layout (?full ++ Map.empty) sink"
    unfolding m by blast
  from sink_serves_Seal [OF sink(2) room] obtain ob where "fst (Seal (fst sink)) = Inr ob" by blast
  then have bld: "BuildRebasedFullSnapshot ?req = Inr ob"
    using sink(1) any.layout [OF bh]
    by (simp add: BuildRebasedFullSnapshot_def ForwardIndexModeUsesCompactDelta_def NewShardState_def NewFullSnapshotView_def demo_build_options_def)
  have q: "realtime_holds rebase_tables plain_layout (Some 0) [7 \<mapsto> plain_row [1]]"
    using plain_table_holds [of 0] by (simp add: realtime_holds_def rebase_tables_def)
  have r: "realtime_holds rebase_tables plain_layout (ss_realtime_delta ?s) Map.empty"
    and c: "compact_holds plain_layout (ss_compact_delta ?s) Map.empty" and fs: "ss_full_snapshot ?s = Some ?v"
    by (simp_all add: NewShardState_def realtime_holds_def compact_holds_def)
  obtain s' where fin: "FinishFullRebase rebase_tables \<lparr>rf_previous = ?s, rf_successor_generation = 2, rf_rebase_realtime = Some 0,
        rf_full_backing = Some ob, rf_mode = kRealtimeDelta\<rparr> = Inr s'"
    by (simp add: FinishFullRebase_def ForwardIndexModeUsesCompactDelta_def EnsurePreviousRealtimeIsEmpty_def NewShardState_def)
  note R = rebase_preserves_reads [OF fs f c r q room bld fin]
  have "ss_Get rebase_tables ?s 9 = snapshot_answer plain_layout ?full 9"
    using shard_serves_Get [OF shard_servesI [OF _ c r, of ?full]] f fs by simp
  with R [of 7] R [of 9] bld fin show ?thesis by (fastforce simp: snapshot_answer_def plain_row_materializes)
qed

end
