(* ===== verification/Cursor_Codec.thy ===== *)
theory Cursor_Codec
  imports Byte_IO
begin

text \<open>
  Reading and writing a byte vector from front to back, as the artifact code does: a reader takes the
  vector and an offset and returns a value and the offset behind it; a writer appends to the vector.
  What a reader gives back for bytes that were appended is the locale \<open>cursor_codec\<close>, which lifts a
  codec for an item to a counted run of items.
\<close>

section \<open>Readers and writers\<close>

text \<open>\<open>ReadLittleEndian\<close> followed by moving the offset behind the value.\<close>

definition ReadNext :: "byte list \<Rightarrow> nat \<Rightarrow> ('a :: len word \<times> nat) res" where
  "ReadNext bytes offset = rbind (ReadLittleEndian bytes offset) (\<lambda>v. Inr (v, offset + sizeof TYPE('a)))"

text \<open>The loops that read a number of items one after the other.\<close>

fun ReadRun :: "(byte list \<Rightarrow> nat \<Rightarrow> ('x \<times> nat) res) \<Rightarrow> nat \<Rightarrow> byte list \<Rightarrow> nat \<Rightarrow> ('x list \<times> nat) res" where
  "ReadRun item 0 bytes offset = Inr ([], offset)"
| "ReadRun item (Suc n) bytes offset =
     rbind (item bytes offset) (\<lambda>(x, offset).
     rbind (ReadRun item n bytes offset) (\<lambda>(xs, offset).
     Inr (x # xs, offset)))"

text \<open>\<open>AppendInt\<close> of \<open>artifact_writer.cc\<close>: grow the vector and write into the new bytes.\<close>

definition AppendInt :: "'a :: len word \<Rightarrow> byte list \<Rightarrow> byte list res" where
  "AppendInt value out = WriteLittleEndian value (out @ replicate (sizeof TYPE('a)) 0) (length out)"

definition AppendBytes :: "byte list \<Rightarrow> byte list \<Rightarrow> byte list" where
  "AppendBytes bytes out = out @ bytes"

section \<open>Contracts\<close>

text \<open>
  The reader gives back every good value whose encoding stands at the offset, and moves behind it.
\<close>

definition reads :: "(byte list \<Rightarrow> nat \<Rightarrow> ('x \<times> nat) res) \<Rightarrow> ('x \<Rightarrow> byte list) \<Rightarrow> ('x \<Rightarrow> bool) \<Rightarrow> bool" where
  "reads p enc good \<longleftrightarrow> (\<forall>bs off x rest. good x \<longrightarrow> off \<le> length bs \<longrightarrow> drop off bs = enc x @ rest \<longrightarrow>
     p bs off = Inr (x, off + length (enc x)))"

text \<open>The writer appends the encoding of every good value.\<close>

definition appends :: "('x \<Rightarrow> byte list \<Rightarrow> byte list res) \<Rightarrow> ('x \<Rightarrow> byte list) \<Rightarrow> ('x \<Rightarrow> bool) \<Rightarrow> bool" where
  "appends w enc good \<longleftrightarrow> (\<forall>x bs. good x \<longrightarrow> w x bs = Inr (bs @ enc x))"

text \<open>A count of 32 bits and the items.\<close>

definition run_bytes :: "('x \<Rightarrow> byte list) \<Rightarrow> 'x list \<Rightarrow> byte list" where
  "run_bytes enc xs = le_bytes (of_nat (length xs) :: u32) @ concat (map enc xs)"

section \<open>Composition\<close>

lemma readsD: "reads p enc good \<Longrightarrow> good x \<Longrightarrow> off \<le> length bs \<Longrightarrow> drop off bs = enc x @ rest \<Longrightarrow>
   p bs off = Inr (x, off + length (enc x))"
  by (simp add: reads_def)

lemma drop_behind:
  assumes "off \<le> length bs" and "drop off bs = xs @ rest"
  shows "off + length xs \<le> length bs" and "drop (off + length xs) bs = rest"
proof -
  have "length bs - off = length xs + length rest" using arg_cong [OF assms(2), of length] by simp
  then show "off + length xs \<le> length bs" using assms(1) by simp
  show "drop (off + length xs) bs = rest" using arg_cong [OF assms(2), of "drop (length xs)"] by (simp add: add.commute)
qed

lemma reads_ReadNext:
  assumes "8 dvd LENGTH('a :: len)"
  shows "reads (ReadNext :: byte list \<Rightarrow> nat \<Rightarrow> ('a word \<times> nat) res) le_bytes (\<lambda>_. True)"
  unfolding reads_def
proof (intro allI impI)
  fix bs off rest and x :: "'a word"
  assume a: "off \<le> length bs" "drop off bs = le_bytes x @ rest"
  from drop_behind(1) [OF a] have "off + sizeof TYPE('a) \<le> length bs" by simp
  moreover have "subspan off (sizeof TYPE('a)) bs = le_bytes x" by (simp add: subspan_def a(2))
  ultimately show "ReadNext bs off = Inr (x, off + length (le_bytes x))"
    by (simp add: ReadNext_def ReadLittleEndian_eq le_word_le_bytes [OF assms])
qed

lemma reads_u32: "reads (ReadNext :: byte list \<Rightarrow> nat \<Rightarrow> (u32 \<times> nat) res) le_bytes (\<lambda>_. True)"
  by (rule reads_ReadNext) simp

lemma reads_u64: "reads (ReadNext :: byte list \<Rightarrow> nat \<Rightarrow> (u64 \<times> nat) res) le_bytes (\<lambda>_. True)"
  by (rule reads_ReadNext) simp

locale cursor_codec =
  fixes item :: "byte list \<Rightarrow> nat \<Rightarrow> ('x \<times> nat) res"
    and append :: "'x \<Rightarrow> byte list \<Rightarrow> byte list res"
    and enc :: "'x \<Rightarrow> byte list"
    and good :: "'x \<Rightarrow> bool"
  assumes reading: "reads item enc good"
    and writing: "appends append enc good"
begin

lemma run:
  assumes "\<forall>x \<in> set xs. good x" and "off \<le> length bs" and "drop off bs = concat (map enc xs) @ rest"
  shows "ReadRun item (length xs) bs off = Inr (xs, off + length (concat (map enc xs)))"
  using assms
proof (induction xs arbitrary: off)
  case (Cons x xs)
  have d: "drop off bs = enc x @ concat (map enc xs) @ rest" using Cons.prems(3) by simp
  note a = drop_behind [OF Cons.prems(2) d]
  have "item bs off = Inr (x, off + length (enc x))" using Cons.prems by (intro readsD [OF reading _ _ d]) auto
  with Cons.IH [OF _ a] Cons.prems(1) show ?case by (simp add: add.assoc)
qed simp

lemma run_written: "\<forall>x \<in> set xs. good x \<Longrightarrow> foldM_res append xs bs = Inr (bs @ concat (map enc xs))"
  using writing by (induction xs arbitrary: bs) (simp_all add: appends_def)

lemma counted_run:
  assumes "\<forall>x \<in> set xs. good x" and "length xs < 2 ^ 32" and "off \<le> length bs" and "drop off bs = run_bytes enc xs @ rest"
  shows "rbind (ReadNext bs off) (\<lambda>(n :: u32, off). ReadRun item (unat n) bs off) = Inr (xs, off + length (run_bytes enc xs))"
proof -
  have d: "drop off bs = le_bytes (of_nat (length xs) :: u32) @ concat (map enc xs) @ rest"
    using assms(4) by (simp add: run_bytes_def)
  note a = drop_behind [OF assms(3) d]
  have "ReadNext bs off = Inr (of_nat (length xs) :: u32, off + length (le_bytes (of_nat (length xs) :: u32)))"
    by (rule readsD [OF reads_u32 _ assms(3) d]) simp
  with run [OF assms(1) a] assms(2) show ?thesis by (simp add: run_bytes_def unat_of_nat add.assoc)
qed

end

lemma AppendInt_eq:
  assumes "8 dvd LENGTH('a :: len)"
  shows "AppendInt (v :: 'a word) out = Inr (out @ le_bytes v)"
  using assms by (simp add: AppendInt_def WriteLittleEndian_eq overwrite_def)

lemma AppendInt_simps [simp]:
  "AppendInt (v8 :: u8) out = Inr (out @ le_bytes v8)"
  "AppendInt (v32 :: u32) out = Inr (out @ le_bytes v32)"
  "AppendInt (v64 :: u64) out = Inr (out @ le_bytes v64)"
  by (simp_all add: AppendInt_eq)

end
