(* ===== verification/Artifact_Format.thy ===== *)
theory Artifact_Format
  imports Schema KV_Types Cursor_Codec
begin

text \<open>
  \<open>src/artifact/artifact_format.{h,cc}\<close>: the parser of an artifact file. A file has a header of 128
  bytes, a directory of sections with offset, length and checksum, and the sections themselves. The
  parser checks the header against the options of the index, the directory against the bounds of the
  file, that no two sections overlap and that every checksum is right, and then decodes the schema and
  the Kafka source progress.

  \<open>std::sort\<close> leaves the order of sections with equal offsets open, so the sorting function is a
  parameter of the parser; \<open>sorts_by_offset\<close> says what the standard promises of it. The products
  \<open>i * kArtifactSectionEntrySize\<close> are computed in 32 bits.
\<close>

section \<open>Data\<close>

definition kArtifactMagic :: u64 where "kArtifactMagic = 0x3149564b54524146"
definition kArtifactFormatVersion :: u32 where "kArtifactFormatVersion = 1"
definition kArtifactHeaderSize :: u32 where "kArtifactHeaderSize = 128"
definition kArtifactSectionEntrySize :: u32 where "kArtifactSectionEntrySize = 64"
definition kArtifactGlobalShardId :: u32 where "kArtifactGlobalShardId = 0xffffffff"
definition kFnv1a64 :: u32 where "kFnv1a64 = 1"
definition kArtifactIdOffset :: nat where "kArtifactIdOffset = 68"
definition kArtifactIdCapacity :: nat where "kArtifactIdCapacity = 60"

datatype ArtifactSectionType =
    kSchemaMetadata | kSourceProgress | kFrozenPrimaryKeyIndex | kRowSlots | kRowArena | kStringPools
  | kScalarListPools | kStringListPools | kStringElementPools

fun section_code :: "ArtifactSectionType \<Rightarrow> u32" where
  "section_code kSchemaMetadata = 1"
| "section_code kSourceProgress = 2"
| "section_code kFrozenPrimaryKeyIndex = 100"
| "section_code kRowSlots = 101"
| "section_code kRowArena = 102"
| "section_code kStringPools = 103"
| "section_code kScalarListPools = 104"
| "section_code kStringListPools = 105"
| "section_code kStringElementPools = 106"

datatype ArtifactSourceProgressPolicy = kRequired | kOptional

record ArtifactValidationOptions =
  vo_expected_shard_count :: u32
  vo_expected_hash_seed :: u64
  vo_expected_hash_version :: u32
  vo_source_progress_policy :: ArtifactSourceProgressPolicy

record ArtifactSection =
  as_type :: ArtifactSectionType
  as_shard_id :: u32
  as_offset :: u64
  as_length :: u64
  as_checksum :: u64

record ArtifactSourceProgress =
  ap_topic :: string
  ap_partition :: int
  ap_checkpoint_next_offset :: int
  ap_high_watermark :: int

record ParsedArtifact =
  pa_artifact_id :: string
  pa_shard_count :: u32
  pa_hash_seed :: u64
  pa_hash_version :: u32
  pa_schema_version :: u64
  pa_layout_fingerprint :: u64
  pa_layout :: "CompiledRowLayout option"
  pa_source_progress :: "ArtifactSourceProgress list"
  pa_sections :: "ArtifactSection list"
  pa_bytes :: "byte list"

section \<open>Sections\<close>

definition CheckBounds :: "byte list \<Rightarrow> u64 \<Rightarrow> u64 \<Rightarrow> unit res" where
  "CheckBounds bytes offset len =
     reject (unat offset > length bytes \<or> length bytes - unat offset < unat len)
       (InvalidArgument ''artifact section is out of bounds'')"

definition af_ReadString :: "byte list \<Rightarrow> nat \<Rightarrow> (string \<times> nat) res" where
  "af_ReadString bytes offset =
     rbind (ReadNext bytes offset) (\<lambda>(sz :: u32, offset).
     if offset > length bytes \<or> length bytes - offset < unat sz
     then Inl (InvalidArgument ''artifact string is truncated'')
     else Inr (string_of_bytes (subspan offset (unat sz) bytes), offset + unat sz))"

text \<open>\<open>static_cast\<close> of a byte to the enums.\<close>

definition cast_FieldType :: "u8 \<Rightarrow> FieldType" where
  "cast_FieldType v =
     (if v = 1 then kInt8 else if v = 2 then kInt32 else if v = 3 then kInt64 else if v = 4 then kUInt64
      else if v = 5 then kBool else if v = 6 then kString else kUnlistedType v)"

definition cast_FieldEncoding :: "u8 \<Rightarrow> FieldEncoding" where
  "cast_FieldEncoding v =
     (if v = 1 then kFixed else if v = 2 then kArena else if v = 3 then kDictionary
      else if v = 4 then kListDictionary else if v = 5 then kElementDictionary else kUnlistedEncoding v)"

definition ParseSchemaField :: "byte list \<Rightarrow> nat \<Rightarrow> (FieldSpec \<times> nat) res" where
  "ParseSchemaField bytes offset =
     rbind (ReadNext bytes offset) (\<lambda>(field_id, offset).
     if offset + 4 > length bytes then Inl (InvalidArgument ''schema field entry is truncated'')
     else
       rbind (af_ReadString bytes (offset + 4)) (\<lambda>(name, offset').
       Inr (\<lparr>fs_field_id = field_id, fs_name = name, fs_type = cast_FieldType (bytes ! offset),
             fs_is_list = (bytes ! (offset + 1) \<noteq> 0), fs_nullable = (bytes ! (offset + 2) \<noteq> 0),
             fs_encoding = cast_FieldEncoding (bytes ! (offset + 3)), fs_default_value = NoDefault,
             fs_deleted = False\<rparr>, offset')))"

fun ParseSchemaFields :: "nat \<Rightarrow> byte list \<Rightarrow> nat \<Rightarrow> RuntimeSchema \<Rightarrow> (RuntimeSchema \<times> nat) res" where
  "ParseSchemaFields 0 bytes offset schema = Inr (schema, offset)"
| "ParseSchemaFields (Suc n) bytes offset schema =
     rbind (ParseSchemaField bytes offset) (\<lambda>(field, offset).
     rbind (AddField schema field) (\<lambda>schema.
     ParseSchemaFields n bytes offset schema))"

definition ParseSchemaSection :: "byte list \<Rightarrow> u64 \<Rightarrow> u64 \<Rightarrow> CompiledRowLayout res" where
  "ParseSchemaSection bytes expected_schema_version expected_layout_fingerprint =
     rbind (ReadNext bytes 0) (\<lambda>(schema_version, offset).
     if schema_version \<noteq> expected_schema_version
     then Inl (FailedPrecondition ''schema section version mismatch'')
     else
       rbind (ReadNext bytes offset) (\<lambda>(field_count :: u32, offset).
       rbind (ParseSchemaFields (unat field_count) bytes offset (NewRuntimeSchema schema_version)) (\<lambda>(schema, offset).
       if offset \<noteq> length bytes then Inl (InvalidArgument ''schema section has trailing bytes'')
       else
         rbind (Compile schema) (\<lambda>layout.
         if cl_layout_fingerprint layout \<noteq> expected_layout_fingerprint
         then Inl (FailedPrecondition ''schema layout fingerprint mismatch'')
         else Inr layout))))"

definition ParseProgressEntry :: "byte list \<Rightarrow> nat \<Rightarrow> (ArtifactSourceProgress \<times> nat) res" where
  "ParseProgressEntry bytes offset =
     rbind (af_ReadString bytes offset) (\<lambda>(topic, offset).
     rbind (ReadNext bytes offset) (\<lambda>(part :: u32, offset).
     rbind (ReadNext bytes offset) (\<lambda>(checkpoint :: u64, offset).
     rbind (ReadNext bytes offset) (\<lambda>(high_watermark :: u64, offset).
     if topic = [] \<or> sint part < 0 \<or> sint checkpoint < 0 \<or> sint high_watermark < sint checkpoint
     then Inl (InvalidArgument ''invalid source progress entry'')
     else Inr (\<lparr>ap_topic = topic, ap_partition = sint part, ap_checkpoint_next_offset = sint checkpoint,
                ap_high_watermark = sint high_watermark\<rparr>, offset)))))"

fun ParseProgressEntries ::
    "nat \<Rightarrow> byte list \<Rightarrow> nat \<Rightarrow> (string \<times> int) set \<Rightarrow> (ArtifactSourceProgress list \<times> nat) res" where
  "ParseProgressEntries 0 bytes offset seen = Inr ([], offset)"
| "ParseProgressEntries (Suc n) bytes offset seen =
     rbind (ParseProgressEntry bytes offset) (\<lambda>(entry, offset).
     if (ap_topic entry, ap_partition entry) \<in> seen
     then Inl (InvalidArgument ''duplicate source progress entry'')
     else
       rbind (ParseProgressEntries n bytes offset (insert (ap_topic entry, ap_partition entry) seen)) (\<lambda>(rest, offset).
       Inr (entry # rest, offset)))"

definition ParseSourceProgressSection :: "byte list \<Rightarrow> ArtifactSourceProgress list res" where
  "ParseSourceProgressSection bytes =
     rbind (ReadNext bytes 0) (\<lambda>(count :: u32, offset).
     rbind (ParseProgressEntries (unat count) bytes offset {}) (\<lambda>(progress, offset).
     if offset \<noteq> length bytes then Inl (InvalidArgument ''source progress section has trailing bytes'')
     else Inr progress))"

definition DecodeSectionType :: "u32 \<Rightarrow> ArtifactSectionType res" where
  "DecodeSectionType value =
     (case find (\<lambda>t. section_code t = value)
             [kSchemaMetadata, kSourceProgress, kFrozenPrimaryKeyIndex, kRowSlots, kRowArena, kStringPools,
              kScalarListPools, kStringListPools, kStringElementPools] of
        Some t \<Rightarrow> Inr t
      | None \<Rightarrow> Inl (InvalidArgument ''unsupported artifact section type''))"

definition FindSection :: "ArtifactSection list \<Rightarrow> ArtifactSectionType \<Rightarrow> u32 \<Rightarrow> ArtifactSection option" where
  "FindSection sections type shard_id = find (\<lambda>s. as_type s = type \<and> as_shard_id s = shard_id) sections"

definition Fnv1a64 :: "byte list \<Rightarrow> u64" where
  "Fnv1a64 bytes = fold (\<lambda>byte hash. (hash XOR ucast byte) * 1099511628211) bytes 14695981039346656037"

section \<open>The parser\<close>

record ArtifactHeader =
  ah_section_count :: u32
  ah_shard_count :: u32
  ah_hash_seed :: u64
  ah_hash_version :: u32
  ah_schema_version :: u64
  ah_layout_fingerprint :: u64
  ah_artifact_id_length :: u32

text \<open>A failed read is reported with the message of the check behind it.\<close>

definition read_or :: "string \<Rightarrow> 'a res \<Rightarrow> 'a res" where
  "read_or message r = (case r of Inl _ \<Rightarrow> Inl (InvalidArgument message) | Inr x \<Rightarrow> Inr x)"

definition ReadArtifactHeader :: "byte list \<Rightarrow> ArtifactHeader res" where
  "ReadArtifactHeader bytes =
     (if length bytes < unat kArtifactHeaderSize then Inl (InvalidArgument ''artifact header is truncated'')
      else
        rbind (ReadLittleEndian bytes 0) (\<lambda>magic.
        if magic \<noteq> kArtifactMagic then Inl (InvalidArgument ''artifact magic mismatch'')
        else rbind (ReadLittleEndian bytes 8) (\<lambda>version.
        if version \<noteq> kArtifactFormatVersion then Inl (InvalidArgument ''unsupported artifact format version'')
        else rbind (read_or ''artifact header metadata is truncated'' (ReadLittleEndian bytes 12)) (\<lambda>header_size.
        rbind (read_or ''artifact header metadata is truncated'' (ReadLittleEndian bytes 16)) (\<lambda>entry_size.
        if header_size \<noteq> kArtifactHeaderSize \<or> entry_size \<noteq> kArtifactSectionEntrySize
        then Inl (InvalidArgument ''unsupported artifact header layout'')
        else rbind (read_or ''artifact fixed header is truncated'' (ReadLittleEndian bytes 20)) (\<lambda>section_count.
        rbind (read_or ''artifact fixed header is truncated'' (ReadLittleEndian bytes 24)) (\<lambda>checksum_algorithm.
        rbind (read_or ''artifact fixed header is truncated'' (ReadLittleEndian bytes 28)) (\<lambda>shard_count.
        rbind (read_or ''artifact fixed header is truncated'' (ReadLittleEndian bytes 32)) (\<lambda>hash_seed.
        rbind (read_or ''artifact fixed header is truncated'' (ReadLittleEndian bytes 40)) (\<lambda>hash_version.
        rbind (read_or ''artifact fixed header is truncated'' (ReadLittleEndian bytes 48)) (\<lambda>schema_version.
        rbind (read_or ''artifact fixed header is truncated'' (ReadLittleEndian bytes 56)) (\<lambda>layout_fingerprint.
        rbind (read_or ''artifact fixed header is truncated'' (ReadLittleEndian bytes 64)) (\<lambda>artifact_id_length.
        if checksum_algorithm \<noteq> kFnv1a64 then Inl (InvalidArgument ''unsupported artifact checksum algorithm'')
        else if unat artifact_id_length > kArtifactIdCapacity
                \<or> kArtifactIdOffset + unat artifact_id_length > unat kArtifactHeaderSize
        then Inl (InvalidArgument ''artifact id is out of bounds'')
        else Inr \<lparr>ah_section_count = section_count, ah_shard_count = shard_count, ah_hash_seed = hash_seed,
                  ah_hash_version = hash_version, ah_schema_version = schema_version,
                  ah_layout_fingerprint = layout_fingerprint, ah_artifact_id_length = artifact_id_length\<rparr>)))))))))))))"

definition CheckExpected :: "ArtifactValidationOptions \<Rightarrow> ArtifactHeader \<Rightarrow> unit res" where
  "CheckExpected options h =
     (if vo_expected_shard_count options \<noteq> 0 \<and> vo_expected_shard_count options \<noteq> ah_shard_count h
      then Inl (FailedPrecondition ''artifact shard count mismatch'')
      else if vo_expected_hash_version options \<noteq> 0 \<and> vo_expected_hash_version options \<noteq> ah_hash_version h
      then Inl (FailedPrecondition ''artifact hash version mismatch'')
      else if vo_expected_hash_seed options \<noteq> ah_hash_seed h
      then Inl (FailedPrecondition ''artifact hash seed mismatch'')
      else Inr ())"

definition ParseSectionEntry ::
    "byte list \<Rightarrow> u32 \<Rightarrow> (u32 \<times> u32) set \<Rightarrow> u32 \<Rightarrow> ArtifactSection res" where
  "ParseSectionEntry bytes shard_count seen i =
     (let entry_offset = unat (kArtifactHeaderSize + i * kArtifactSectionEntrySize) in
      rbind (read_or ''artifact section entry is truncated'' (ReadLittleEndian bytes entry_offset)) (\<lambda>type_value.
      rbind (read_or ''artifact section entry is truncated'' (ReadLittleEndian bytes (entry_offset + 4))) (\<lambda>shard_id.
      rbind (read_or ''artifact section entry is truncated'' (ReadLittleEndian bytes (entry_offset + 8))) (\<lambda>file_offset.
      rbind (read_or ''artifact section entry is truncated'' (ReadLittleEndian bytes (entry_offset + 16))) (\<lambda>len.
      rbind (read_or ''artifact section entry is truncated'' (ReadLittleEndian bytes (entry_offset + 24))) (\<lambda>checksum.
      rbind (DecodeSectionType type_value) (\<lambda>type.
      if shard_id \<noteq> kArtifactGlobalShardId \<and> shard_id \<ge> shard_count
      then Inl (InvalidArgument ''artifact section shard id is invalid'')
      else if (type_value, shard_id) \<in> seen then Inl (InvalidArgument ''duplicate artifact section'')
      else
        rbind (CheckBounds bytes file_offset len) (\<lambda>_.
        Inr \<lparr>as_type = type, as_shard_id = shard_id, as_offset = file_offset, as_length = len,
             as_checksum = checksum\<rparr>))))))))"

fun ParseSectionEntries ::
    "nat \<Rightarrow> byte list \<Rightarrow> u32 \<Rightarrow> (u32 \<times> u32) set \<Rightarrow> u32 \<Rightarrow> ArtifactSection list res" where
  "ParseSectionEntries 0 bytes shard_count seen i = Inr []"
| "ParseSectionEntries (Suc n) bytes shard_count seen i =
     rbind (ParseSectionEntry bytes shard_count seen i) (\<lambda>section.
     rbind (ParseSectionEntries n bytes shard_count
              (insert (section_code (as_type section), as_shard_id section) seen) (i + 1)) (\<lambda>rest.
     Inr (section # rest)))"

fun CheckOverlap :: "ArtifactSection list \<Rightarrow> u64 \<Rightarrow> unit res" where
  "CheckOverlap [] previous_end = Inr ()"
| "CheckOverlap (section # rest) previous_end =
     (if as_offset section < previous_end then Inl (InvalidArgument ''artifact sections overlap'')
      else CheckOverlap rest (as_offset section + as_length section))"

definition section_bytes :: "byte list \<Rightarrow> ArtifactSection \<Rightarrow> byte list" where
  "section_bytes bytes section = subspan (unat (as_offset section)) (unat (as_length section)) bytes"

definition CheckChecksums :: "byte list \<Rightarrow> ArtifactSection list \<Rightarrow> unit res" where
  "CheckChecksums bytes sections =
     reject (\<exists>section \<in> set sections. Fnv1a64 (section_bytes bytes section) \<noteq> as_checksum section)
       (FailedPrecondition ''artifact section checksum mismatch'')"

text \<open>The end of \<open>ParseArtifact\<close>, once the sections are checked.\<close>

definition AssembleArtifact ::
    "byte list \<Rightarrow> ArtifactValidationOptions \<Rightarrow> ArtifactHeader \<Rightarrow> ArtifactSection list \<Rightarrow> ParsedArtifact res" where
  "AssembleArtifact bytes options h sections =
     (case FindSection sections kSchemaMetadata kArtifactGlobalShardId of
        None \<Rightarrow> Inl (InvalidArgument ''artifact schema section is missing'')
      | Some schema_section \<Rightarrow>
          rbind (ParseSchemaSection (section_bytes bytes schema_section) (ah_schema_version h)
                   (ah_layout_fingerprint h)) (\<lambda>layout.
          let artifact =
            \<lparr>pa_artifact_id = string_of_bytes (subspan kArtifactIdOffset (unat (ah_artifact_id_length h)) bytes),
             pa_shard_count = ah_shard_count h, pa_hash_seed = ah_hash_seed h, pa_hash_version = ah_hash_version h,
             pa_schema_version = ah_schema_version h, pa_layout_fingerprint = ah_layout_fingerprint h,
             pa_layout = Some layout, pa_source_progress = [], pa_sections = sections, pa_bytes = bytes\<rparr> in
          case FindSection sections kSourceProgress kArtifactGlobalShardId of
            None \<Rightarrow>
              if vo_source_progress_policy options = kOptional then Inr artifact
              else Inl (InvalidArgument ''artifact source progress section missing'')
          | Some progress_section \<Rightarrow>
              rbind (ParseSourceProgressSection (section_bytes bytes progress_section)) (\<lambda>progress.
              Inr (artifact\<lparr>pa_source_progress := progress\<rparr>))))"

definition ParseArtifact ::
    "(ArtifactSection list \<Rightarrow> ArtifactSection list) \<Rightarrow> byte list \<Rightarrow> ArtifactValidationOptions \<Rightarrow> ParsedArtifact res" where
  "ParseArtifact std_sort bytes options =
     rbind (ReadArtifactHeader bytes) (\<lambda>h.
     rbind (CheckExpected options h) (\<lambda>_.
     let directory_bytes = ucast (ah_section_count h) * ucast kArtifactSectionEntrySize :: u64 in
     if directory_bytes > - 1 - ucast kArtifactHeaderSize
        \<or> unat (ucast kArtifactHeaderSize + directory_bytes) > length bytes
     then Inl (InvalidArgument ''artifact section directory is truncated'')
     else
       rbind (ParseSectionEntries (unat (ah_section_count h)) bytes (ah_shard_count h) {} 0) (\<lambda>sections.
       rbind (CheckOverlap (std_sort sections) (ucast kArtifactHeaderSize + directory_bytes)) (\<lambda>_.
       rbind (CheckChecksums bytes sections) (\<lambda>_.
       AssembleArtifact bytes options h sections)))))"

text \<open>What the standard promises of sorting by offset.\<close>

definition sorts_by_offset :: "(ArtifactSection list \<Rightarrow> ArtifactSection list) \<Rightarrow> bool" where
  "sorts_by_offset std_sort \<longleftrightarrow> (\<forall>xs. mset (std_sort xs) = mset xs \<and> sorted (map as_offset (std_sort xs)))"

definition section_end :: "ArtifactSection \<Rightarrow> nat" where
  "section_end s = unat (as_offset s) + unat (as_length s)"

definition sections_apart :: "ArtifactSection \<Rightarrow> ArtifactSection \<Rightarrow> bool" where
  "sections_apart s t \<longleftrightarrow> section_end s \<le> unat (as_offset t) \<or> section_end t \<le> unat (as_offset s)"

definition progress_ok :: "ArtifactSourceProgress list \<Rightarrow> bool" where
  "progress_ok ps \<longleftrightarrow> distinct (map (\<lambda>p. (ap_topic p, ap_partition p)) ps)
     \<and> (\<forall>p \<in> set ps. ap_topic p \<noteq> [] \<and> 0 \<le> ap_partition p \<and> 0 \<le> ap_checkpoint_next_offset p
          \<and> ap_checkpoint_next_offset p \<le> ap_high_watermark p)"

text \<open>The sections of a file: behind the directory, inside the file, apart from each other, named once, with the right checksum.\<close>

definition sections_ok :: "byte list \<Rightarrow> ArtifactSection list \<Rightarrow> bool" where
  "sections_ok bytes secs \<longleftrightarrow>
     distinct (map (\<lambda>s. (as_type s, as_shard_id s)) secs)
     \<and> pairwise sections_apart (set secs)
     \<and> (\<forall>s \<in> set secs. 128 + 64 * length secs \<le> unat (as_offset s) \<and> section_end s \<le> length bytes
          \<and> Fnv1a64 (section_bytes bytes s) = as_checksum s)"

section \<open>What the parser accepts\<close>

lemma read_or_Inr [simp]: "read_or m r = Inr x \<longleftrightarrow> r = Inr x"
  by (simp add: read_or_def split: sum.splits)

lemma DecodeSectionType_Inr: "DecodeSectionType v = Inr t \<longleftrightarrow> v = section_code t"
  by (cases t) (auto simp: DecodeSectionType_def split: option.splits if_splits)

lemma section_code_inj [simp]: "section_code s = section_code t \<longleftrightarrow> s = t"
  by (cases s; cases t) simp_all

lemma ParseSectionEntry_Inr:
  assumes "ParseSectionEntry bs n seen i = Inr s"
  shows "section_end s \<le> length bs" and "(section_code (as_type s), as_shard_id s) \<notin> seen"
  using assms
  by (auto simp: ParseSectionEntry_def Let_def section_end_def CheckBounds_def DecodeSectionType_Inr split: if_splits)

lemma ParseSectionEntries_Inr:
  assumes "ParseSectionEntries n bs sc seen i = Inr secs"
  shows "length secs = n \<and> distinct (map (\<lambda>s. (as_type s, as_shard_id s)) secs)
    \<and> (\<forall>s \<in> set secs. section_end s \<le> length bs \<and> (section_code (as_type s), as_shard_id s) \<notin> seen)"
  using assms
proof (induction n arbitrary: seen i secs)
  case (Suc n)
  then obtain s rest where s: "ParseSectionEntry bs sc seen i = Inr s" "secs = s # rest"
    and r: "ParseSectionEntries n bs sc (insert (section_code (as_type s), as_shard_id s) seen) (i + 1) = Inr rest"
    by auto
  from Suc.IH [OF r] ParseSectionEntry_Inr [OF s(1)] s(2) show ?case by auto
qed simp

lemma CheckOverlap_Inr:
  assumes "CheckOverlap secs e = Inr ()" and "\<forall>s \<in> set secs. section_end s \<le> n" and "n < 2 ^ 64"
  shows "sorted_wrt (\<lambda>s t. section_end s \<le> unat (as_offset t)) secs \<and> (\<forall>s \<in> set secs. unat e \<le> unat (as_offset s))"
  using assms
proof (induction secs arbitrary: e)
  case (Cons s secs)
  have e: "unat (as_offset s + as_length s) = section_end s"
    using Cons.prems(2,3) by (simp add: section_end_def unat_add_eq)
  from Cons.prems have "unat e \<le> unat (as_offset s)" and c: "CheckOverlap secs (as_offset s + as_length s) = Inr ()"
    by (auto simp: word_less_nat_alt split: if_splits)
  moreover have "unat (as_offset s) \<le> section_end s" by (simp add: section_end_def)
  ultimately show ?case using Cons.IH [OF c] Cons.prems(2,3) by (auto simp: e intro: order_trans)
qed simp

lemma ParseSchemaFields_ok:
  "ParseSchemaFields n bs off s = Inr (s', off') \<Longrightarrow> schema_ok s \<Longrightarrow> schema_ok s' \<and> rs_version s' = rs_version s"
proof (induction n arbitrary: off s)
  case (Suc n)
  then obtain f off1 s1 where s1: "AddField s f = Inr s1" "ParseSchemaFields n bs off1 s1 = Inr (s', off')" by auto
  then have "rs_version s1 = rs_version s" by (auto simp: AddField_def split: if_splits)
  with s1 Suc.IH schema_step_ok [of s "OpAdd f" s1] Suc.prems(2) show ?case by auto
qed simp

lemma Compile_version: "Compile s = Inr L \<Longrightarrow> cl_schema_version L = rs_version s"
  by (auto simp: Compile_def Let_def split: prod.splits)

lemma ParseSchemaSection_Inr:
  assumes "ParseSchemaSection bs v fp = Inr L"
  shows "\<exists>s. schema_ok s \<and> Compile s = Inr L" and "cl_schema_version L = v" and "cl_layout_fingerprint L = fp"
proof -
  have new: "schema_ok (NewRuntimeSchema v)" "rs_version (NewRuntimeSchema v) = v"
    by (simp_all add: schema_ok_def NewRuntimeSchema_def)
  from assms obtain n off s off' where s: "ParseSchemaFields n bs off (NewRuntimeSchema v) = Inr (s, off')"
    "Compile s = Inr L" "cl_layout_fingerprint L = fp"
    by (auto simp: ParseSchemaSection_def split: if_splits)
  from ParseSchemaFields_ok [OF s(1) new(1)] new(2) have ok: "schema_ok s" "rs_version s = v" by auto
  with s(2) show "\<exists>s. schema_ok s \<and> Compile s = Inr L" by blast
  show "cl_schema_version L = v" using Compile_version [OF s(2)] ok(2) by simp
qed (use assms in \<open>auto simp: ParseSchemaSection_def split: if_splits\<close>)

lemma ParseProgressEntries_Inr:
  "ParseProgressEntries n bs off seen = Inr (ps, off') \<Longrightarrow>
   progress_ok ps \<and> (\<forall>p \<in> set ps. (ap_topic p, ap_partition p) \<notin> seen)"
proof (induction n arbitrary: off seen ps)
  case (Suc n)
  then obtain p off1 rest where p: "ParseProgressEntry bs off = Inr (p, off1)" "ps = p # rest"
    "(ap_topic p, ap_partition p) \<notin> seen"
    and r: "ParseProgressEntries n bs off1 (insert (ap_topic p, ap_partition p) seen) = Inr (rest, off')"
    by (auto split: if_splits)
  have "ap_topic p \<noteq> [] \<and> 0 \<le> ap_partition p \<and> 0 \<le> ap_checkpoint_next_offset p \<and> ap_checkpoint_next_offset p \<le> ap_high_watermark p"
    using p(1) by (auto simp: ParseProgressEntry_def split: if_splits)
  with Suc.IH [OF r] p show ?case by (auto simp: progress_ok_def)
qed (simp add: progress_ok_def)

lemma sections_okI:
  assumes p: "ParseSectionEntries n bs sc {} 0 = Inr secs" and c: "CheckOverlap (std_sort secs) e = Inr ()"
    and k: "CheckChecksums bs secs = Inr ()" and s: "sorts_by_offset std_sort" and len: "length bs < 2 ^ 64"
    and e: "unat e = 128 + 64 * n"
  shows "sections_ok bs secs"
proof -
  note P = ParseSectionEntries_Inr [OF p]
  have m: "mset (std_sort secs) = mset secs" using s by (simp add: sorts_by_offset_def)
  then have set: "set (std_sort secs) = set secs" by (metis mset_eq_setD)
  note C = CheckOverlap_Inr [OF c _ len, unfolded set]
  have bounds: "\<forall>s \<in> set secs. section_end s \<le> length bs" using P by blast
  have "pairwise sections_apart (set secs)"
    using sorted_wrt_either [OF conjunct1 [OF C [OF bounds]], unfolded set]
    by (auto simp: pairwise_def sections_apart_def)
  moreover have "\<forall>s \<in> set secs. 128 + 64 * n \<le> unat (as_offset s)" using C [OF bounds] e by auto
  ultimately show ?thesis using P k by (auto simp: sections_ok_def CheckChecksums_def)
qed

lemma directory_end:
  assumes "\<not> (ucast c * ucast kArtifactSectionEntrySize :: u64) > - 1 - ucast kArtifactHeaderSize"
  shows "unat (ucast kArtifactHeaderSize + ucast (c :: u32) * ucast kArtifactSectionEntrySize :: u64) = 128 + 64 * unat c"
proof -
  have lt: "unat c < 2 ^ 32" using unsigned_less [of c, where ?'a = nat] by simp
  then have c: "unat (ucast c :: u64) = unat c" by (simp add: unsigned_ucast_eq take_bit_nat_eq_self)
  have "unat (ucast c * 64 :: u64) = 64 * unat c" using lt by (subst unat_mult_eq) (simp_all add: c)
  then show ?thesis using lt by (simp add: kArtifactSectionEntrySize_def kArtifactHeaderSize_def unat_add_eq)
qed

lemma ParseArtifact_Inr:
  assumes "ParseArtifact std_sort bs options = Inr a"
  obtains h secs e where "ReadArtifactHeader bs = Inr h" "CheckExpected options h = Inr ()"
    "ParseSectionEntries (unat (ah_section_count h)) bs (ah_shard_count h) {} 0 = Inr secs"
    "unat e = 128 + 64 * unat (ah_section_count h)"
    "CheckOverlap (std_sort secs) e = Inr ()" "CheckChecksums bs secs = Inr ()"
    "AssembleArtifact bs options h secs = Inr a"
  using assms that directory_end by (auto simp: ParseArtifact_def Let_def split: if_splits)

lemma AssembleArtifact_Inr:
  assumes "AssembleArtifact bs options h secs = Inr a"
  shows "pa_sections a = secs" and "pa_bytes a = bs" and "pa_shard_count a = ah_shard_count h"
    and "pa_hash_seed a = ah_hash_seed h" and "pa_hash_version a = ah_hash_version h"
    and "\<exists>s L. schema_ok s \<and> Compile s = Inr L \<and> pa_layout a = Some L
      \<and> cl_schema_version L = pa_schema_version a \<and> cl_layout_fingerprint L = pa_layout_fingerprint a"
    and "progress_ok (pa_source_progress a)"
proof -
  from assms obtain ss L where L: "ParseSchemaSection (section_bytes bs ss) (ah_schema_version h) (ah_layout_fingerprint h) = Inr L"
    "pa_layout a = Some L" "pa_schema_version a = ah_schema_version h" "pa_layout_fingerprint a = ah_layout_fingerprint h"
    by (auto simp: AssembleArtifact_def Let_def split: option.splits if_splits)
  with ParseSchemaSection_Inr [OF L(1)] show "\<exists>s L. schema_ok s \<and> Compile s = Inr L \<and> pa_layout a = Some L
      \<and> cl_schema_version L = pa_schema_version a \<and> cl_layout_fingerprint L = pa_layout_fingerprint a" by auto
  have "progress_ok []" by (simp add: progress_ok_def)
  then show "progress_ok (pa_source_progress a)"
    using assms by (auto simp: AssembleArtifact_def ParseSourceProgressSection_def Let_def
        split: option.splits if_splits dest!: ParseProgressEntries_Inr)
qed (use assms in \<open>auto simp: AssembleArtifact_def Let_def split: option.splits if_splits\<close>)

text \<open>
  Whatever bytes it is given, an artifact that the parser accepts is sound: its sections lie behind
  the directory and inside the file, do not overlap, are named once each and have the recorded checksum;
  its layout is compiled from a valid schema and has the recorded version and fingerprint; its source
  progress names every partition once with consistent offsets; and shard count, hash seed and hash
  version are the expected ones.
\<close>

lemma ParseArtifact_sound:
  assumes "ParseArtifact std_sort bs options = Inr a" and "sorts_by_offset std_sort" and "length bs < 2 ^ 64"
  shows "sections_ok bs (pa_sections a)
    \<and> (\<exists>L. pa_layout a = Some L \<and> layout_ok L \<and> cl_schema_version L = pa_schema_version a
           \<and> cl_layout_fingerprint L = pa_layout_fingerprint a)
    \<and> progress_ok (pa_source_progress a)
    \<and> pa_hash_seed a = vo_expected_hash_seed options
    \<and> vo_expected_shard_count options \<in> {0, pa_shard_count a}
    \<and> vo_expected_hash_version options \<in> {0, pa_hash_version a}"
proof -
  from ParseArtifact_Inr [OF assms(1)] obtain h secs e where h: "CheckExpected options h = Inr ()"
    "ParseSectionEntries (unat (ah_section_count h)) bs (ah_shard_count h) {} 0 = Inr secs"
    "unat e = 128 + 64 * unat (ah_section_count h)"
    "CheckOverlap (std_sort secs) e = Inr ()" "CheckChecksums bs secs = Inr ()"
    "AssembleArtifact bs options h secs = Inr a" .
  note A = AssembleArtifact_Inr [OF h(6)]
  have "sections_ok bs (pa_sections a)" unfolding A(1) using h assms by (intro sections_okI)
  moreover have "\<exists>L. pa_layout a = Some L \<and> layout_ok L \<and> cl_schema_version L = pa_schema_version a
           \<and> cl_layout_fingerprint L = pa_layout_fingerprint a"
    using A(6) Compile_layout(1) by blast
  moreover have "pa_hash_seed a = vo_expected_hash_seed options \<and> vo_expected_shard_count options \<in> {0, pa_shard_count a}
    \<and> vo_expected_hash_version options \<in> {0, pa_hash_version a}"
    using h(1) A(3-5) by (auto simp: CheckExpected_def split: if_splits)
  ultimately show ?thesis using A(7) by blast
qed

end
