(* ===== verification/Artifact_Writer.thy ===== *)
theory Artifact_Writer
  imports Artifact_Format Snapshot
begin

text \<open>
  \<open>src/artifact/artifact_writer.{h,cc}\<close>: writing an artifact file. Every selected shard is built as a
  snapshot and stored in seven sections; the schema and the source progress come first, the header and
  the directory are filled in at the end. The lemmas show that what is written is what the parser of
  \<open>Artifact_Format\<close> reads.

  The output stream is a parameter (\<open>host\<close>), as are the operating-system calls that map the file in
  \<open>Mmap_Backing\<close>. The bytes of a section are appended to the file, so its offset is the size of the
  file before it.
\<close>

section \<open>Data\<close>

record ArtifactRow =
  ar_primary_key :: u64
  ar_encoded :: EncodedRow

record ArtifactShardBuildSpec =
  bs_shard_id :: u32
  bs_rows :: "ArtifactRow list"

record ArtifactSourceProgressBuildSpec =
  bp_topic :: string
  bp_partition :: int
  bp_checkpoint_next_offset :: int
  bp_high_watermark :: int

record ArtifactBuildSpec =
  ab_artifact_id :: string
  ab_shard_count :: u32
  ab_hash_seed :: u64
  ab_hash_version :: u32
  ab_layout :: "CompiledRowLayout option"
  ab_include_source_progress_section :: bool
  ab_source_progress :: "ArtifactSourceProgressBuildSpec list"
  ab_shards :: "ArtifactShardBuildSpec list"

text \<open>
  The file operations that the artifact code calls: \<open>std::ofstream\<close> (opened for truncation, then one
  write), and \<open>stat\<close>, \<open>open\<close>, \<open>fstat\<close>, \<open>mmap\<close>, \<open>strerror\<close> and \<open>sysconf(_SC_PAGESIZE)\<close>. A failed system call
  gives its \<open>errno\<close>.
\<close>

record 'fs host =
  ho_open_output :: "string \<Rightarrow> 'fs \<Rightarrow> bool \<times> 'fs"
  ho_write_output :: "string \<Rightarrow> byte list \<Rightarrow> 'fs \<Rightarrow> bool \<times> 'fs"
  ho_stat :: "'fs \<Rightarrow> string \<Rightarrow> int + FileKind"
  ho_open :: "'fs \<Rightarrow> string \<Rightarrow> int + int"
  ho_fstat :: "'fs \<Rightarrow> int \<Rightarrow> int + int"
  ho_mmap :: "'fs \<Rightarrow> int \<Rightarrow> nat \<Rightarrow> int + byte list"
  ho_strerror :: "int \<Rightarrow> string"
  ho_page_size :: int

section \<open>Serialisation\<close>

definition AppendString :: "string \<Rightarrow> byte list \<Rightarrow> byte list res" where
  "AppendString value out =
     (if length value > 2 ^ 32 - 1 then Inl (InvalidArgument ''artifact string is too large'')
      else
        rbind (AppendInt (of_nat (length value) :: u32) out) (\<lambda>out.
        Inr (AppendBytes (bytes_of_string value) out)))"

definition WriteSectionDirectoryEntry :: "nat \<Rightarrow> ArtifactSection \<Rightarrow> byte list \<Rightarrow> byte list res" where
  "WriteSectionDirectoryEntry entry_offset section out =
     rbind (WriteLittleEndian (section_code (as_type section)) out entry_offset) (\<lambda>out.
     rbind (WriteLittleEndian (as_shard_id section) out (entry_offset + 4)) (\<lambda>out.
     rbind (WriteLittleEndian (as_offset section) out (entry_offset + 8)) (\<lambda>out.
     rbind (WriteLittleEndian (as_length section) out (entry_offset + 16)) (\<lambda>out.
     WriteLittleEndian (as_checksum section) out (entry_offset + 24)))))"

definition AppendSchemaField :: "FieldLayout \<Rightarrow> byte list \<Rightarrow> byte list res" where
  "AppendSchemaField field bytes =
     rbind (AppendInt (fl_field_id field) bytes) (\<lambda>bytes.
     AppendString (fl_name field)
       (bytes @ [type_code (fl_type field), if fl_is_list field then 1 else 0, if fl_nullable field then 1 else 0,
                 encoding_code (fl_encoding field)]))"

definition SerializeSchema :: "CompiledRowLayout \<Rightarrow> byte list res" where
  "SerializeSchema layout =
     rbind (AppendInt (cl_schema_version layout) []) (\<lambda>bytes.
     if length (cl_fields layout) > 2 ^ 32 - 1 then Inl (InvalidArgument ''artifact has too many fields'')
     else
       rbind (AppendInt (of_nat (length (cl_fields layout)) :: u32) bytes) (\<lambda>bytes.
       foldM_res AppendSchemaField (cl_fields layout) bytes))"

definition AppendProgressEntry :: "ArtifactSourceProgressBuildSpec \<Rightarrow> byte list \<Rightarrow> byte list res" where
  "AppendProgressEntry entry bytes =
     rbind (AppendString (bp_topic entry) bytes) (\<lambda>bytes.
     rbind (AppendInt (of_int (bp_partition entry) :: u32) bytes) (\<lambda>bytes.
     rbind (AppendInt (of_int (bp_checkpoint_next_offset entry) :: u64) bytes) (\<lambda>bytes.
     AppendInt (of_int (bp_high_watermark entry) :: u64) bytes)))"

definition SerializeSourceProgress :: "ArtifactSourceProgressBuildSpec list \<Rightarrow> byte list res" where
  "SerializeSourceProgress progress =
     (if length progress > 2 ^ 32 - 1 then Inl (InvalidArgument ''too many source progress entries'')
      else
        rbind (AppendInt (of_nat (length progress) :: u32) []) (\<lambda>bytes.
        foldM_res AppendProgressEntry progress bytes))"

text \<open>The tests of a size against the largest 64-bit value cannot succeed.\<close>

definition AppendBlob :: "byte list \<Rightarrow> byte list \<Rightarrow> byte list res" where
  "AppendBlob blob bytes =
     rbind (AppendInt (of_nat (length blob) :: u64) bytes) (\<lambda>bytes. Inr (AppendBytes blob bytes))"

definition AppendStringList :: "string list \<Rightarrow> byte list \<Rightarrow> byte list res" where
  "AppendStringList values bytes =
     (if length values > 2 ^ 32 - 1 then Inl (InvalidArgument ''string list is too large'')
      else
        rbind (AppendInt (of_nat (length values) :: u32) bytes) (\<lambda>bytes.
        foldM_res AppendString values bytes))"

definition AppendRowPayload :: "OwnedSnapshotRowPayload \<Rightarrow> byte list \<Rightarrow> byte list res" where
  "AppendRowPayload payload bytes =
     rbind (AppendBlob (op_arena payload) bytes) (\<lambda>bytes.
     rbind (AppendStringList (op_string_dictionary payload) bytes) (\<lambda>bytes.
     if length (op_scalar_list_dictionary payload) > 2 ^ 32 - 1
     then Inl (InvalidArgument ''scalar list dictionary is too large'')
     else
       rbind (AppendInt (of_nat (length (op_scalar_list_dictionary payload)) :: u32) bytes) (\<lambda>bytes.
       rbind (foldM_res AppendBlob (op_scalar_list_dictionary payload) bytes) (\<lambda>bytes.
       if length (op_string_list_dictionary payload) > 2 ^ 32 - 1
       then Inl (InvalidArgument ''string list dictionary is too large'')
       else
         rbind (AppendInt (of_nat (length (op_string_list_dictionary payload)) :: u32) bytes) (\<lambda>bytes.
         rbind (foldM_res AppendStringList (op_string_list_dictionary payload) bytes) (\<lambda>bytes.
         AppendStringList (op_string_element_dictionary payload) bytes))))))"

definition SerializeRowPayloads :: "OwnedSnapshotRowPayload list \<Rightarrow> byte list res" where
  "SerializeRowPayloads payloads =
     rbind (AppendInt (of_nat (length payloads) :: u64) []) (\<lambda>bytes.
     foldM_res AppendRowPayload payloads bytes)"

section \<open>Files\<close>

type_synonym draft = "byte list \<times> ArtifactSection list"

definition AddSection :: "ArtifactSectionType \<Rightarrow> u32 \<Rightarrow> byte list \<Rightarrow> draft \<Rightarrow> draft" where
  "AddSection type shard_id payload = (\<lambda>(file, sections).
     (AppendBytes payload file,
      sections @ [\<lparr>as_type = type, as_shard_id = shard_id, as_offset = of_nat (length file),
                   as_length = of_nat (length payload), as_checksum = Fnv1a64 payload\<rparr>]))"

definition BuildShardSnapshot :: "ArtifactBuildSpec \<Rightarrow> ArtifactShardBuildSpec \<Rightarrow> OwnedSnapshotBacking res" where
  "BuildShardSnapshot spec shard =
     rbind (AddRows (map (\<lambda>row. (ar_primary_key row, ar_encoded row)) (bs_rows shard))
              (NewSnapshotBuilder (ab_layout spec) (ab_hash_seed spec) (ab_hash_version spec))) (\<lambda>builder.
     fst (Seal builder))"

definition AddShardSections :: "ArtifactBuildSpec \<Rightarrow> ArtifactShardBuildSpec \<Rightarrow> draft \<Rightarrow> draft res" where
  "AddShardSections spec shard d =
     rbind (BuildShardSnapshot spec shard) (\<lambda>backing.
     let d = AddSection kFrozenPrimaryKeyIndex (bs_shard_id shard) (ob_frozen_index_bytes backing) d;
         d = AddSection kRowSlots (bs_shard_id shard) (ob_row_slot_bytes backing) d in
     rbind (SerializeRowPayloads (ob_row_payloads backing)) (\<lambda>row_arena.
     Inr (fold (\<lambda>pool_type. AddSection pool_type (bs_shard_id shard) [0])
            [kStringPools, kScalarListPools, kStringListPools, kStringElementPools]
            (AddSection kRowArena (bs_shard_id shard) row_arena d))))"

text \<open>The selection is a vector of pointers; \<open>seen\<close> are the ids whose bit is set in \<open>seen_shards\<close>.\<close>

fun CheckSelection :: "ArtifactShardBuildSpec option list \<Rightarrow> u32 \<Rightarrow> u32 set \<Rightarrow> unit res" where
  "CheckSelection [] shard_count seen = Inr ()"
| "CheckSelection (s # rest) shard_count seen =
     (case s of
        None \<Rightarrow> Inl (InvalidArgument ''artifact shard id is out of range'')
      | Some shard \<Rightarrow>
          if bs_shard_id shard \<ge> shard_count then Inl (InvalidArgument ''artifact shard id is out of range'')
          else if bs_shard_id shard \<in> seen then Inl (InvalidArgument ''duplicate artifact shard spec'')
          else CheckSelection rest shard_count (insert (bs_shard_id shard) seen))"

definition WriteArtifactHeader :: "ArtifactBuildSpec \<Rightarrow> CompiledRowLayout \<Rightarrow> u32 \<Rightarrow> byte list \<Rightarrow> byte list res" where
  "WriteArtifactHeader spec layout section_count file =
     rbind (WriteLittleEndian kArtifactMagic file 0) (\<lambda>file.
     rbind (WriteLittleEndian kArtifactFormatVersion file 8) (\<lambda>file.
     rbind (WriteLittleEndian kArtifactHeaderSize file 12) (\<lambda>file.
     rbind (WriteLittleEndian kArtifactSectionEntrySize file 16) (\<lambda>file.
     rbind (WriteLittleEndian section_count file 20) (\<lambda>file.
     rbind (WriteLittleEndian kFnv1a64 file 24) (\<lambda>file.
     rbind (WriteLittleEndian (ab_shard_count spec) file 28) (\<lambda>file.
     rbind (WriteLittleEndian (ab_hash_seed spec) file 32) (\<lambda>file.
     rbind (WriteLittleEndian (ab_hash_version spec) file 40) (\<lambda>file.
     rbind (WriteLittleEndian (cl_schema_version layout) file 48) (\<lambda>file.
     rbind (WriteLittleEndian (cl_layout_fingerprint layout) file 56) (\<lambda>file.
     rbind (WriteLittleEndian (of_nat (length (ab_artifact_id spec)) :: u32) file 64) (\<lambda>file.
     Inr (overwrite kArtifactIdOffset (bytes_of_string (ab_artifact_id spec)) file)))))))))))))"

text \<open>
  The body of \<open>WriteArtifactWithShards\<close> up to the output, in three steps: the sections, the header and
  directory, and the checks in front of them.
\<close>

definition DraftArtifact ::
    "ArtifactBuildSpec \<Rightarrow> CompiledRowLayout \<Rightarrow> u32 \<Rightarrow> ArtifactShardBuildSpec option list \<Rightarrow> draft res" where
  "DraftArtifact spec layout section_count selected_shards =
     (let file = replicate (unat (kArtifactHeaderSize + section_count * kArtifactSectionEntrySize)) 0 in
      rbind (SerializeSchema layout) (\<lambda>schema.
      let d = AddSection kSchemaMetadata kArtifactGlobalShardId schema (file, []) in
      rbind (if ab_include_source_progress_section spec
             then rbind (SerializeSourceProgress (ab_source_progress spec)) (\<lambda>progress.
                  Inr (AddSection kSourceProgress kArtifactGlobalShardId progress d))
             else Inr d) (\<lambda>d.
      foldM_res (AddShardSections spec) (map the selected_shards) d)))"

definition FinishArtifact :: "ArtifactBuildSpec \<Rightarrow> CompiledRowLayout \<Rightarrow> u32 \<Rightarrow> draft \<Rightarrow> byte list res" where
  "FinishArtifact spec layout section_count = (\<lambda>(file, sections).
     if length sections \<noteq> unat section_count then Inl (Internal ''artifact section count mismatch'')
     else
       rbind (WriteArtifactHeader spec layout section_count file) (\<lambda>file.
       foldM_res (\<lambda>(i, section). WriteSectionDirectoryEntry
           (unat kArtifactHeaderSize + i * unat kArtifactSectionEntrySize) section)
         (enumerate 0 sections) file))"

definition BuildArtifactFile :: "ArtifactBuildSpec \<Rightarrow> ArtifactShardBuildSpec option list \<Rightarrow> byte list res" where
  "BuildArtifactFile spec selected_shards =
     (case ab_layout spec of
        None \<Rightarrow> Inl (InvalidArgument ''artifact layout is required'')
      | Some layout \<Rightarrow>
          if length (ab_artifact_id spec) > kArtifactIdCapacity then Inl (InvalidArgument ''artifact id is too long'')
          else if ab_shard_count spec = 0 then Inl (InvalidArgument ''artifact shard count must be non-zero'')
          else if selected_shards = [] then Inl (InvalidArgument ''artifact shard selection is empty'')
          else
            rbind (CheckSelection selected_shards (ab_shard_count spec) {}) (\<lambda>_.
            let section_count = of_nat (1 + (if ab_include_source_progress_section spec then 1 else 0)
                                          + length selected_shards * 7) :: u32 in
            rbind (DraftArtifact spec layout section_count selected_shards) (\<lambda>d.
            FinishArtifact spec layout section_count d)))"

definition WriteArtifactWithShards ::
    "'fs host \<Rightarrow> string \<Rightarrow> ArtifactBuildSpec \<Rightarrow> ArtifactShardBuildSpec option list \<Rightarrow> 'fs \<Rightarrow> unit res \<times> 'fs" where
  "WriteArtifactWithShards ho path spec selected_shards fs =
     (case BuildArtifactFile spec selected_shards of
        Inl e \<Rightarrow> (Inl e, fs)
      | Inr file \<Rightarrow>
          (case ho_open_output ho path fs of
             (False, fs) \<Rightarrow> (Inl (Unavailable ''failed to open artifact for writing''), fs)
           | (True, fs) \<Rightarrow>
               (case ho_write_output ho path file fs of
                  (False, fs) \<Rightarrow> (Inl (Unavailable ''failed to write artifact''), fs)
                | (True, fs) \<Rightarrow> (Inr (), fs))))"

definition WriteArtifact :: "'fs host \<Rightarrow> string \<Rightarrow> ArtifactBuildSpec \<Rightarrow> 'fs \<Rightarrow> unit res \<times> 'fs" where
  "WriteArtifact ho path spec fs =
     (if length (ab_shards spec) \<noteq> unat (ab_shard_count spec)
      then (Inl (InvalidArgument ''artifact shard specs are incomplete''), fs)
      else WriteArtifactWithShards ho path spec (map Some (ab_shards spec)) fs)"

definition WriteArtifactShard :: "'fs host \<Rightarrow> string \<Rightarrow> ArtifactBuildSpec \<Rightarrow> u32 \<Rightarrow> 'fs \<Rightarrow> unit res \<times> 'fs" where
  "WriteArtifactShard ho path spec shard_id fs =
     (case find (\<lambda>shard. bs_shard_id shard = shard_id) (ab_shards spec) of
        Some shard \<Rightarrow> WriteArtifactWithShards ho path spec [Some shard] fs
      | None \<Rightarrow> (Inl (InvalidArgument ''requested artifact shard spec is missing''), fs))"

definition string_bytes :: "string \<Rightarrow> byte list" where
  "string_bytes s = le_bytes (of_nat (length s) :: u32) @ bytes_of_string s"

definition schema_field_bytes :: "FieldLayout \<Rightarrow> byte list" where
  "schema_field_bytes f = le_bytes (fl_field_id f)
     @ [type_code (fl_type f), if fl_is_list f then 1 else 0, if fl_nullable f then 1 else 0, encoding_code (fl_encoding f)]
     @ string_bytes (fl_name f)"

definition schema_bytes :: "CompiledRowLayout \<Rightarrow> byte list" where
  "schema_bytes L = le_bytes (cl_schema_version L) @ run_bytes schema_field_bytes (cl_fields L)"

text \<open>The field specification that the schema section keeps of a field: all but its default.\<close>

definition spec_of :: "FieldLayout \<Rightarrow> FieldSpec" where
  "spec_of f = \<lparr>fs_field_id = fl_field_id f, fs_name = fl_name f, fs_type = fl_type f, fs_is_list = fl_is_list f,
     fs_nullable = fl_nullable f, fs_encoding = fl_encoding f, fs_default_value = NoDefault, fs_deleted = False\<rparr>"

text \<open>Fields that the schema section can represent.\<close>

definition storable_field :: "FieldLayout \<Rightarrow> bool" where
  "storable_field f \<longleftrightarrow> length (fl_name f) < 2 ^ 32 \<and> \<not> is_kUnlistedType (fl_type f)"

text \<open>Layouts that an artifact can hold: compiled from a schema without defaults.\<close>

definition storable_layout :: "CompiledRowLayout \<Rightarrow> bool" where
  "storable_layout L \<longleftrightarrow> (\<exists>s. schema_ok s \<and> Compile s = Inr L) \<and> length (cl_fields L) < 2 ^ 32
     \<and> (\<forall>f \<in> set (cl_fields L). storable_field f \<and> \<not> fl_HasDefault f)"

definition progress_entry_bytes :: "ArtifactSourceProgressBuildSpec \<Rightarrow> byte list" where
  "progress_entry_bytes p = string_bytes (bp_topic p) @ le_bytes (of_int (bp_partition p) :: u32)
     @ le_bytes (of_int (bp_checkpoint_next_offset p) :: u64) @ le_bytes (of_int (bp_high_watermark p) :: u64)"

definition progress_bytes :: "ArtifactSourceProgressBuildSpec list \<Rightarrow> byte list" where
  "progress_bytes ps = run_bytes progress_entry_bytes ps"

definition progress_of :: "ArtifactSourceProgressBuildSpec \<Rightarrow> ArtifactSourceProgress" where
  "progress_of p = \<lparr>ap_topic = bp_topic p, ap_partition = bp_partition p,
     ap_checkpoint_next_offset = bp_checkpoint_next_offset p, ap_high_watermark = bp_high_watermark p\<rparr>"

definition storable_progress :: "ArtifactSourceProgressBuildSpec list \<Rightarrow> bool" where
  "storable_progress ps \<longleftrightarrow> length ps < 2 ^ 32 \<and> progress_ok (map progress_of ps)
     \<and> (\<forall>p \<in> set ps. length (bp_topic p) < 2 ^ 32 \<and> bp_partition p < 2 ^ 31 \<and> bp_high_watermark p < 2 ^ 63)"

section \<open>Encodings\<close>

lemma subspan_at:
  assumes "off \<le> length bs" and "drop off bs = xs @ rest"
  shows "subspan off (length xs) bs = xs"
  by (simp add: subspan_def assms(2))

lemma nth_at:
  assumes "off \<le> length bs" and "drop off bs = xs @ rest" and "i < length xs"
  shows "bs ! (off + i) = xs ! i"
  using nth_drop [OF assms(1), of i] assms(2,3) by (simp add: nth_append)

lemma reads_string: "reads af_ReadString string_bytes (\<lambda>s. length s < 2 ^ 32)"
  unfolding reads_def
proof (intro allI impI)
  fix bs off s rest assume s: "length s < 2 ^ 32" and off: "off \<le> length bs" and d0: "drop off bs = string_bytes s @ rest"
  have d: "drop off bs = le_bytes (of_nat (length s) :: u32) @ bytes_of_string s @ rest" using d0 by (simp add: string_bytes_def)
  note a = drop_behind [OF off d]
  note r = readsD [OF reads_u32 _ off d]
  from subspan_at [OF a] drop_behind(1) [OF a] r s show "af_ReadString bs off = Inr (s, off + length (string_bytes s))"
    by (simp add: af_ReadString_def unat_of_nat string_bytes_def)
qed

lemma AppendString_eq: "length s < 2 ^ 32 \<Longrightarrow> AppendString s bs = Inr (bs @ string_bytes s)"
  by (simp add: AppendString_def AppendBytes_def string_bytes_def)

interpretation af_strings: cursor_codec af_ReadString AppendString string_bytes "\<lambda>s. length s < 2 ^ 32"
  by unfold_locales (rule reads_string, simp add: appends_def AppendString_eq)

lemma cast_type_code: "\<not> is_kUnlistedType t \<Longrightarrow> cast_FieldType (type_code t) = t"
  by (cases t) (simp_all add: cast_FieldType_def)

text \<open>The policy rejects every encoding that has no enumerator.\<close>

lemma cast_encoding_code: "ValidateEncodingPolicy (spec_of f) = Inr () \<Longrightarrow> cast_FieldEncoding (encoding_code (fl_encoding f)) = fl_encoding f"
  by (cases "fl_encoding f") (auto simp: cast_FieldEncoding_def ValidateEncodingPolicy_def spec_of_def split: if_splits)

lemma ParseSchemaField_at:
  assumes off: "off \<le> length bs" and d0: "drop off bs = schema_field_bytes f @ rest" and f: "storable_field f"
    and v: "ValidateEncodingPolicy (spec_of f) = Inr ()"
  shows "ParseSchemaField bs off = Inr (spec_of f, off + length (schema_field_bytes f))"
proof -
  let ?q = "[type_code (fl_type f), if fl_is_list f then 1 else 0, if fl_nullable f then 1 else 0, encoding_code (fl_encoding f)]"
  have d: "drop off bs = le_bytes (fl_field_id f) @ ?q @ string_bytes (fl_name f) @ rest" using d0 by (simp add: schema_field_bytes_def)
  note a = drop_behind [OF off d]
  note b = drop_behind [OF a]
  have r1: "ReadNext bs off = Inr (fl_field_id f, off + 4)" using readsD [OF reads_u32 _ off d] by simp
  have r2: "af_ReadString bs (off + 8) = Inr (fl_name f, off + 8 + length (string_bytes (fl_name f)))"
    using readsD [OF reads_string _ b] f by (simp add: storable_field_def add.commute add.left_commute)
  have q: "bs ! (off + 4 + i) = ?q ! i" if "i < 4" for i
    using nth_at [OF a, of i] that by simp
  have "cast_FieldType (bs ! (off + 4)) = fl_type f" "cast_FieldEncoding (bs ! (off + 7)) = fl_encoding f"
    "(bs ! (off + 5) \<noteq> 0) = fl_is_list f" "(bs ! (off + 6) \<noteq> 0) = fl_nullable f"
    using q [of 0] q [of 1] q [of 2] q [of 3] f cast_encoding_code [OF v] by (simp_all add: cast_type_code storable_field_def add.commute)
  then show ?thesis
    using r1 r2 b by (simp add: ParseSchemaField_def spec_of_def schema_field_bytes_def add.commute add.left_commute)
qed

lemma ParseSchemaFields_at:
  assumes "off \<le> length bs" and "drop off bs = concat (map schema_field_bytes fs) @ rest"
    and "\<forall>f \<in> set fs. storable_field f \<and> ValidateEncodingPolicy (spec_of f) = Inr ()"
    and "distinct (map fs_field_id (rs_active_fields s) @ map fl_field_id fs)" and "rs_deleted_fields s = []"
  shows "ParseSchemaFields (length fs) bs off s = Inr (s\<lparr>rs_active_fields := rs_active_fields s @ map spec_of fs\<rparr>,
    off + length (concat (map schema_field_bytes fs)))"
  using assms
proof (induction fs arbitrary: off s)
  case (Cons f fs)
  have d: "drop off bs = schema_field_bytes f @ concat (map schema_field_bytes fs) @ rest" using Cons.prems(2) by simp
  note a = drop_behind [OF Cons.prems(1) d]
  have p: "ParseSchemaField bs off = Inr (spec_of f, off + length (schema_field_bytes f))"
    using Cons.prems(3) by (intro ParseSchemaField_at [OF Cons.prems(1) d]) auto
  let ?s = "s\<lparr>rs_active_fields := rs_active_fields s @ [spec_of f]\<rparr>"
  have "AddField s (spec_of f) = Inr ?s"
    using Cons.prems(3-5) by (auto simp: AddField_def FindField_def FindDeletedField_def find_None_iff_map spec_of_def)
  moreover have "distinct (map fs_field_id (rs_active_fields ?s) @ map fl_field_id fs)"
    using Cons.prems(4) by (simp add: spec_of_def)
  ultimately show ?case using p Cons.IH [OF a, of ?s] Cons.prems(3,5) by (simp add: add.assoc)
qed simp

lemma AppendSchemaField_eq: "storable_field f \<Longrightarrow> AppendSchemaField f bs = Inr (bs @ schema_field_bytes f)"
  by (simp add: AppendSchemaField_def AppendString_eq storable_field_def schema_field_bytes_def)

lemma foldM_appends:
  assumes "\<And>x bs. x \<in> set xs \<Longrightarrow> w x bs = Inr (bs @ enc x)"
  shows "foldM_res w xs bs = Inr (bs @ concat (map enc xs))"
  using assms by (induction xs arbitrary: bs) simp_all

lemma SerializeSchema_eq: "storable_layout L \<Longrightarrow> SerializeSchema L = Inr (schema_bytes L)"
  by (auto simp: SerializeSchema_def storable_layout_def schema_bytes_def run_bytes_def
      intro!: foldM_appends AppendSchemaField_eq trans [OF foldM_appends [of _ _ schema_field_bytes]])

lemma spec_of_fields:
  assumes ok: "schema_ok s" and L: "Compile s = Inr L" and nd: "\<forall>f \<in> set (cl_fields L). \<not> fl_HasDefault f"
  shows "map spec_of (cl_fields L) = sort_key fs_field_id (rs_active_fields s)"
proof -
  let ?act = "sort_key fs_field_id (rs_active_fields s)"
  let ?strip = "\<lambda>g :: FieldSpec. g\<lparr>fs_default_value := NoDefault, fs_deleted := False\<rparr>"
  note un = Compile_layout(2) [OF ok L]
  have "map fl_default_value (cl_fields L) = map fl_default_value (map unslot (cl_fields L))" by (simp add: unslot_def)
  also have "\<dots> = map fs_default_value ?act" unfolding un
    by (simp add: comp_def case_prod_beta MakeFieldLayout_def map_enumerate_snd)
  finally have dv: "map fl_default_value (cl_fields L) = map fs_default_value ?act" .
  have "set (map fl_default_value (cl_fields L)) \<subseteq> {NoDefault}" using nd by (auto simp: fl_HasDefault_def)
  then have "\<forall>g \<in> set ?act. fs_default_value g = NoDefault" unfolding dv by auto
  moreover have "\<forall>g \<in> set ?act. \<not> fs_deleted g"
    using ok by (auto simp: schema_ok_def ValidateEncodingPolicy_def split: if_splits)
  ultimately have strip: "map ?strip ?act = ?act" by (intro map_idI) auto
  have make: "spec_of (MakeFieldLayout i g) = ?strip g" for i g by (cases g) (simp add: spec_of_def MakeFieldLayout_def)
  have "map spec_of (cl_fields L) = map spec_of (map unslot (cl_fields L))" by (simp add: unslot_def spec_of_def)
  also have "\<dots> = map ?strip ?act" unfolding un
    using map_enumerate_snd [of ?strip 0 ?act] by (simp add: comp_def case_prod_beta make)
  finally show ?thesis by (simp only: strip)
qed

text \<open>What is read from a schema section: the compiled layout of the fields without their defaults.\<close>

lemma ParseSchemaSection_written:
  assumes st: "\<forall>f \<in> set (cl_fields L). storable_field f \<and> ValidateEncodingPolicy (spec_of f) = Inr ()"
    and d: "distinct (map fl_field_id (cl_fields L))" and n: "length (cl_fields L) < 2 ^ 32"
  shows "ParseSchemaSection (schema_bytes L) (cl_schema_version L) fp =
    rbind (Compile (NewRuntimeSchema (cl_schema_version L)\<lparr>rs_active_fields := map spec_of (cl_fields L)\<rparr>)) (\<lambda>L'.
      if cl_layout_fingerprint L' \<noteq> fp then Inl (FailedPrecondition ''schema layout fingerprint mismatch'') else Inr L')"
proof -
  let ?bs = "schema_bytes L" and ?v = "cl_schema_version L" and ?m = "length (cl_fields L)"
  have 0: "drop 0 ?bs = le_bytes ?v @ run_bytes schema_field_bytes (cl_fields L)" by (simp add: schema_bytes_def)
  note r0 = readsD [OF reads_u64 _ _ 0, simplified]
  have 1: "drop 8 ?bs = le_bytes (of_nat ?m :: u32) @ concat (map schema_field_bytes (cl_fields L))" "8 \<le> length ?bs"
    by (simp_all add: schema_bytes_def run_bytes_def)
  note r1 = readsD [OF reads_u32 _ 1(2,1), simplified]
  have 2: "drop 12 ?bs = concat (map schema_field_bytes (cl_fields L)) @ []" "12 \<le> length ?bs"
    by (simp_all add: schema_bytes_def run_bytes_def)
  note r2 = ParseSchemaFields_at [OF 2(2,1), of "NewRuntimeSchema ?v"]
  have 3: "12 + length (concat (map schema_field_bytes (cl_fields L))) = length ?bs" by (simp add: schema_bytes_def run_bytes_def)
  have p: "ParseSchemaFields ?m ?bs 12 (NewRuntimeSchema ?v) = Inr (NewRuntimeSchema ?v\<lparr>rs_active_fields := map spec_of (cl_fields L)\<rparr>, length ?bs)"
    unfolding 3 [symmetric] using r2 st d by (simp add: NewRuntimeSchema_def)
  show ?thesis using r0 r1 p n by (simp add: ParseSchemaSection_def unat_of_nat)
qed

lemma ParseSchemaSection_roundtrip:
  assumes "storable_layout L"
  shows "ParseSchemaSection (schema_bytes L) (cl_schema_version L) (cl_layout_fingerprint L) = Inr L"
proof -
  from assms obtain s where s: "schema_ok s" "Compile s = Inr L" by (auto simp: storable_layout_def)
  have nd: "\<forall>f \<in> set (cl_fields L). \<not> fl_HasDefault f" and n: "length (cl_fields L) < 2 ^ 32"
    and st: "\<forall>f \<in> set (cl_fields L). storable_field f" using assms by (auto simp: storable_layout_def)
  note sp = spec_of_fields [OF s nd]
  have vs: "\<forall>g \<in> set (map spec_of (cl_fields L)). ValidateEncodingPolicy g = Inr ()"
    unfolding sp using s(1) by (simp add: schema_ok_def)
  have d: "distinct (map fl_field_id (cl_fields L))" using Compile_layout(1) [OF s] by (simp add: layout_ok_def)
  have "Compile (NewRuntimeSchema (cl_schema_version L)\<lparr>rs_active_fields := map spec_of (cl_fields L)\<rparr>) = Inr L"
    using s(2) Compile_version [OF s(2)]
    unfolding sp by (simp add: Compile_def NewRuntimeSchema_def sort_key_id_if_sorted)
  then show ?thesis using ParseSchemaSection_written [OF _ d n] st vs by simp
qed

lemma sint_of_small: "0 \<le> i \<Longrightarrow> i < 2 ^ 31 \<Longrightarrow> sint (of_int i :: u32) = i" "0 \<le> j \<Longrightarrow> j < 2 ^ 63 \<Longrightarrow> sint (of_int j :: u64) = j"
  by (simp_all add: signed_of_int signed_take_bit_int_eq_self)

lemma ParseProgressEntry_at:
  assumes off: "off \<le> length bs" and d0: "drop off bs = progress_entry_bytes p @ rest"
    and p: "length (bp_topic p) < 2 ^ 32" "bp_topic p \<noteq> []" "0 \<le> bp_partition p" "bp_partition p < 2 ^ 31"
      "0 \<le> bp_checkpoint_next_offset p" "bp_checkpoint_next_offset p \<le> bp_high_watermark p" "bp_high_watermark p < 2 ^ 63"
  shows "ParseProgressEntry bs off = Inr (progress_of p, off + length (progress_entry_bytes p))"
proof -
  let ?p = "of_int (bp_partition p) :: u32" and ?c = "of_int (bp_checkpoint_next_offset p) :: u64" and ?h = "of_int (bp_high_watermark p) :: u64"
  have d: "drop off bs = string_bytes (bp_topic p) @ le_bytes ?p @ le_bytes ?c @ le_bytes ?h @ rest"
    using d0 by (simp add: progress_entry_bytes_def)
  note a = drop_behind [OF off d]
  note b = drop_behind [OF a]
  note c = drop_behind [OF b]
  have s: "sint ?p = bp_partition p" "sint ?c = bp_checkpoint_next_offset p" "sint ?h = bp_high_watermark p"
    using p by (auto intro!: sint_of_small)
  show ?thesis
    using readsD [OF reads_string p(1) off d] readsD [OF reads_u32 _ a] readsD [OF reads_u64 _ b] readsD [OF reads_u64 _ c] p s
    by (simp add: ParseProgressEntry_def progress_of_def progress_entry_bytes_def add.commute add.left_commute)
qed

lemma ParseProgressEntries_at:
  assumes "off \<le> length bs" and "drop off bs = concat (map progress_entry_bytes ps) @ rest"
    and "storable_progress ps" and "\<forall>p \<in> set ps. (bp_topic p, bp_partition p) \<notin> seen"
  shows "ParseProgressEntries (length ps) bs off seen = Inr (map progress_of ps, off + length (concat (map progress_entry_bytes ps)))"
  using assms
proof (induction ps arbitrary: off seen)
  case (Cons p ps)
  have d: "drop off bs = progress_entry_bytes p @ concat (map progress_entry_bytes ps) @ rest" using Cons.prems(2) by simp
  note a = drop_behind [OF Cons.prems(1) d]
  have "ParseProgressEntry bs off = Inr (progress_of p, off + length (progress_entry_bytes p))"
    using Cons.prems(3) by (intro ParseProgressEntry_at [OF Cons.prems(1) d]) (auto simp: storable_progress_def progress_ok_def progress_of_def)
  moreover have "storable_progress ps" using Cons.prems(3) by (auto simp: storable_progress_def progress_ok_def)
  moreover have "\<forall>q \<in> set ps. (bp_topic q, bp_partition q) \<notin> insert (bp_topic p, bp_partition p) seen"
    using Cons.prems(3,4) by (auto simp: storable_progress_def progress_ok_def progress_of_def image_iff)
  ultimately show ?case using Cons.IH [OF a, of "insert (bp_topic p, bp_partition p) seen"] Cons.prems(4)
    by (simp add: progress_of_def add.assoc)
qed simp

lemma SerializeSourceProgress_eq: "storable_progress ps \<Longrightarrow> SerializeSourceProgress ps = Inr (progress_bytes ps)"
  by (auto simp: SerializeSourceProgress_def storable_progress_def progress_bytes_def run_bytes_def AppendProgressEntry_def
      AppendString_eq progress_entry_bytes_def intro!: trans [OF foldM_appends [of _ _ progress_entry_bytes]])

lemma ParseSourceProgress_roundtrip:
  assumes "storable_progress ps"
  shows "ParseSourceProgressSection (progress_bytes ps) = Inr (map progress_of ps)"
proof -
  let ?bs = "progress_bytes ps"
  have 0: "drop 0 ?bs = le_bytes (of_nat (length ps) :: u32) @ concat (map progress_entry_bytes ps)"
    by (simp add: progress_bytes_def run_bytes_def)
  have 1: "4 \<le> length ?bs" "drop 4 ?bs = concat (map progress_entry_bytes ps) @ []"
    "4 + length (concat (map progress_entry_bytes ps)) = length ?bs" by (simp_all add: progress_bytes_def run_bytes_def)
  from readsD [OF reads_u32 _ _ 0] ParseProgressEntries_at [OF 1(1,2) assms, of "{}"] 1(3) assms show ?thesis
    by (simp add: ParseSourceProgressSection_def unat_of_nat storable_progress_def)
qed

type_synonym part = "ArtifactSectionType \<times> u32 \<times> byte list"

text \<open>The directory of parts that are stored one after the other from an offset on.\<close>

fun place :: "nat \<Rightarrow> part list \<Rightarrow> ArtifactSection list" where
  "place n [] = []"
| "place n ((type, shard_id, payload) # parts) =
     \<lparr>as_type = type, as_shard_id = shard_id, as_offset = of_nat n, as_length = of_nat (length payload),
      as_checksum = Fnv1a64 payload\<rparr> # place (n + length payload) parts"

definition part_bytes :: "part list \<Rightarrow> byte list" where
  "part_bytes parts = concat (map (\<lambda>(type, shard_id, payload). payload) parts)"

definition directory_entry_bytes :: "ArtifactSection \<Rightarrow> byte list" where
  "directory_entry_bytes s = le_bytes (section_code (as_type s)) @ le_bytes (as_shard_id s) @ le_bytes (as_offset s)
     @ le_bytes (as_length s) @ le_bytes (as_checksum s) @ replicate 32 0"

definition artifact_header_bytes :: "ArtifactBuildSpec \<Rightarrow> CompiledRowLayout \<Rightarrow> nat \<Rightarrow> byte list" where
  "artifact_header_bytes spec L n = le_bytes kArtifactMagic @ le_bytes kArtifactFormatVersion @ le_bytes kArtifactHeaderSize
     @ le_bytes kArtifactSectionEntrySize @ le_bytes (of_nat n :: u32) @ le_bytes kFnv1a64 @ le_bytes (ab_shard_count spec)
     @ le_bytes (ab_hash_seed spec) @ le_bytes (ab_hash_version spec) @ replicate 4 0 @ le_bytes (cl_schema_version L)
     @ le_bytes (cl_layout_fingerprint L) @ le_bytes (of_nat (length (ab_artifact_id spec)) :: u32)
     @ bytes_of_string (ab_artifact_id spec) @ replicate (60 - length (ab_artifact_id spec)) 0"

definition artifact_file :: "ArtifactBuildSpec \<Rightarrow> CompiledRowLayout \<Rightarrow> part list \<Rightarrow> byte list" where
  "artifact_file spec L parts = artifact_header_bytes spec L (length parts)
     @ concat (map directory_entry_bytes (place (128 + 64 * length parts) parts)) @ part_bytes parts"

definition blob_bytes :: "byte list \<Rightarrow> byte list" where
  "blob_bytes b = le_bytes (of_nat (length b) :: u64) @ b"

definition row_payload_bytes :: "OwnedSnapshotRowPayload \<Rightarrow> byte list" where
  "row_payload_bytes p = blob_bytes (op_arena p) @ run_bytes string_bytes (op_string_dictionary p)
     @ run_bytes blob_bytes (op_scalar_list_dictionary p)
     @ run_bytes (run_bytes string_bytes) (op_string_list_dictionary p)
     @ run_bytes string_bytes (op_string_element_dictionary p)"

definition payload_section_bytes :: "OwnedSnapshotRowPayload list \<Rightarrow> byte list" where
  "payload_section_bytes ps = le_bytes (of_nat (length ps) :: u64) @ concat (map row_payload_bytes ps)"

definition strings_fit :: "string list \<Rightarrow> bool" where
  "strings_fit ss \<longleftrightarrow> length ss < 2 ^ 32 \<and> (\<forall>s \<in> set ss. length s < 2 ^ 32)"

text \<open>Payloads whose counts and lengths fit the fields of the format.\<close>

definition storable_payload :: "OwnedSnapshotRowPayload \<Rightarrow> bool" where
  "storable_payload p \<longleftrightarrow> length (op_arena p) < 2 ^ 64 \<and> strings_fit (op_string_dictionary p)
     \<and> length (op_scalar_list_dictionary p) < 2 ^ 32 \<and> (\<forall>b \<in> set (op_scalar_list_dictionary p). length b < 2 ^ 64)
     \<and> length (op_string_list_dictionary p) < 2 ^ 32 \<and> (\<forall>ss \<in> set (op_string_list_dictionary p). strings_fit ss)
     \<and> strings_fit (op_string_element_dictionary p)"

definition shard_parts :: "u32 \<Rightarrow> OwnedSnapshotBacking \<Rightarrow> part list" where
  "shard_parts i b =
     [(kFrozenPrimaryKeyIndex, i, ob_frozen_index_bytes b), (kRowSlots, i, ob_row_slot_bytes b),
      (kRowArena, i, payload_section_bytes (ob_row_payloads b)), (kStringPools, i, [0]), (kScalarListPools, i, [0]),
      (kStringListPools, i, [0]), (kStringElementPools, i, [0])]"

definition artifact_parts ::
    "ArtifactBuildSpec \<Rightarrow> CompiledRowLayout \<Rightarrow> ArtifactShardBuildSpec list \<Rightarrow> OwnedSnapshotBacking list \<Rightarrow> part list" where
  "artifact_parts spec L shards backings =
     (kSchemaMetadata, kArtifactGlobalShardId, schema_bytes L)
     # (if ab_include_source_progress_section spec
        then [(kSourceProgress, kArtifactGlobalShardId, progress_bytes (ab_source_progress spec))] else [])
     @ concat (map (\<lambda>(shard, b). shard_parts (bs_shard_id shard) b) (zip shards backings))"

text \<open>A specification that can be written: the shards, with the snapshots that are built from them.\<close>

definition writable :: "ArtifactBuildSpec \<Rightarrow> CompiledRowLayout \<Rightarrow> ArtifactShardBuildSpec list \<Rightarrow> OwnedSnapshotBacking list \<Rightarrow> bool" where
  "writable spec L shards backings \<longleftrightarrow>
     ab_layout spec = Some L \<and> storable_layout L \<and> length (ab_artifact_id spec) \<le> 60
     \<and> (ab_include_source_progress_section spec \<longrightarrow> storable_progress (ab_source_progress spec))
     \<and> shards \<noteq> [] \<and> length shards < 2 ^ 22 \<and> distinct (map bs_shard_id shards)
     \<and> (\<forall>shard \<in> set shards. bs_shard_id shard < ab_shard_count spec)
     \<and> list_all2 (\<lambda>shard b. BuildShardSnapshot spec shard = Inr b \<and> (\<forall>p \<in> set (ob_row_payloads b). storable_payload p)) shards backings"

section \<open>The bytes of a file\<close>

lemma place_append: "place n (ps @ qs) = place n ps @ place (n + length (part_bytes ps)) qs"
  by (induction ps arbitrary: n) (auto simp: part_bytes_def add.assoc)

lemma part_bytes_simps [simp]: "part_bytes [] = []" "part_bytes ((t, i, p) # ps) = p @ part_bytes ps" "part_bytes (ps @ qs) = part_bytes ps @ part_bytes qs"
  by (simp_all add: part_bytes_def)

lemma length_place [simp]: "length (place n ps) = length ps"
  by (induction ps arbitrary: n) auto

lemma AddSection_eq: "AddSection t i p (file, secs) = (file @ part_bytes [(t, i, p)], secs @ place (length file) [(t, i, p)])"
  by (simp add: AddSection_def AppendBytes_def)

lemma length_directory_entry_bytes [simp]: "length (directory_entry_bytes s) = 64"
  by (simp add: directory_entry_bytes_def)

lemma length_artifact_header_bytes [simp]: "length (ab_artifact_id spec) \<le> 60 \<Longrightarrow> length (artifact_header_bytes spec L n) = 128"
  by (simp add: artifact_header_bytes_def)

text \<open>Fields that are written one behind the other.\<close>

lemma write_behind:
  fixes v :: "'a :: len word"
  assumes "off = base + length ys" and "base + length ys + sizeof TYPE('a) \<le> length xs"
  shows "rbind (WriteLittleEndian v (overwrite base ys xs) off) f = f (overwrite base (ys @ le_bytes v) xs)"
    and "WriteLittleEndian v (overwrite base ys xs) off = Inr (overwrite base (ys @ le_bytes v) xs)"
  using assms overwrite_append_adjacent [of base ys "le_bytes v" xs] by (simp_all add: WriteLittleEndian_eq)

lemma overwrite_nothing: "off \<le> length xs \<Longrightarrow> overwrite off [] xs = xs"
  by (simp add: overwrite_def)

lemma overwrite_front: "overwrite 0 ys (xs @ zs) = overwrite 0 ys xs @ zs" if "length ys \<le> length xs"
  using that by (simp add: overwrite_def)

lemma WriteSectionDirectoryEntry_eq:
  assumes "length pre = off"
  shows "WriteSectionDirectoryEntry off s (pre @ replicate 64 0 @ rest) = Inr (pre @ directory_entry_bytes s @ rest)"
proof -
  let ?f = "pre @ replicate 64 0 @ rest"
  have 0: "?f = overwrite off [] ?f" using assms by (simp add: overwrite_nothing)
  have "WriteSectionDirectoryEntry off s (overwrite off [] ?f) = Inr (overwrite off (le_bytes (section_code (as_type s)) @ le_bytes (as_shard_id s)
     @ le_bytes (as_offset s) @ le_bytes (as_length s) @ le_bytes (as_checksum s)) ?f)"
    using assms by (simp add: WriteSectionDirectoryEntry_def write_behind)
  also have "\<dots> = Inr (pre @ directory_entry_bytes s @ rest)"
    using assms by (simp add: overwrite_def directory_entry_bytes_def)
  finally show ?thesis using 0 by simp
qed

lemma write_directory:
  assumes "length pre = 128 + k * 64"
  shows "foldM_res (\<lambda>(i, section). WriteSectionDirectoryEntry (unat kArtifactHeaderSize + i * unat kArtifactSectionEntrySize) section)
     (enumerate k secs) (pre @ replicate (64 * length secs) 0 @ rest) = Inr (pre @ concat (map directory_entry_bytes secs) @ rest)"
  using assms
proof (induction secs arbitrary: pre k)
  case (Cons s secs)
  have r: "replicate (64 * length (s # secs)) (0 :: byte) = replicate 64 0 @ replicate (64 * length secs) 0"
    by (simp flip: replicate_add)
  from Cons.IH [of "pre @ directory_entry_bytes s" "Suc k"] Cons.prems WriteSectionDirectoryEntry_eq [of pre "128 + k * 64" s "replicate (64 * length secs) 0 @ rest"]
  show ?case unfolding r by (simp add: kArtifactHeaderSize_def kArtifactSectionEntrySize_def)
qed simp

lemma WriteArtifactHeader_eq:
  assumes "length (ab_artifact_id spec) \<le> 60"
  shows "WriteArtifactHeader spec L (of_nat n) (replicate 128 0 @ rest) = Inr (artifact_header_bytes spec L n @ rest)"
proof -
  let ?f = "replicate 128 0 @ rest"
  let ?a = "le_bytes kArtifactMagic @ le_bytes kArtifactFormatVersion @ le_bytes kArtifactHeaderSize
     @ le_bytes kArtifactSectionEntrySize @ le_bytes (of_nat n :: u32) @ le_bytes kFnv1a64 @ le_bytes (ab_shard_count spec)
     @ le_bytes (ab_hash_seed spec) @ le_bytes (ab_hash_version spec)"
  let ?b = "?a @ replicate 4 0"
  let ?c = "?b @ le_bytes (cl_schema_version L) @ le_bytes (cl_layout_fingerprint L) @ le_bytes (of_nat (length (ab_artifact_id spec)) :: u32)"
  have gap: "overwrite 0 ?a ?f = overwrite 0 ?b ?f" by (simp add: overwrite_def numeral_eq_Suc)
  have 0: "?f = overwrite 0 [] ?f" by (simp add: overwrite_nothing)
  have "WriteArtifactHeader spec L (of_nat n) (overwrite 0 [] ?f) =
      rbind (WriteLittleEndian (cl_schema_version L) (overwrite 0 ?a ?f) 48) (\<lambda>file.
      rbind (WriteLittleEndian (cl_layout_fingerprint L) file 56) (\<lambda>file.
      rbind (WriteLittleEndian (of_nat (length (ab_artifact_id spec)) :: u32) file 64) (\<lambda>file.
      Inr (overwrite kArtifactIdOffset (bytes_of_string (ab_artifact_id spec)) file))))"
    by (simp add: WriteArtifactHeader_def write_behind)
  also have "\<dots> = Inr (overwrite 68 (bytes_of_string (ab_artifact_id spec)) (overwrite 0 ?c ?f))"
    unfolding gap by (simp add: write_behind kArtifactIdOffset_def)
  also have "\<dots> = Inr (artifact_header_bytes spec L n @ rest)"
    using assms by (simp add: overwrite_def artifact_header_bytes_def)
  finally show ?thesis using 0 by simp
qed
section \<open>Row payloads\<close>

lemma AppendBlob_eq: "AppendBlob b bs = Inr (bs @ blob_bytes b)"
  by (simp add: AppendBlob_def AppendBytes_def blob_bytes_def)

lemma AppendStringList_eq: "strings_fit ss \<Longrightarrow> AppendStringList ss bs = Inr (bs @ run_bytes string_bytes ss)"
  by (auto simp: AppendStringList_def strings_fit_def run_bytes_def af_strings.run_written)

lemma AppendRowPayload_eq:
  assumes "storable_payload p"
  shows "AppendRowPayload p bs = Inr (bs @ row_payload_bytes p)"
proof -
  have "foldM_res AppendBlob (op_scalar_list_dictionary p) xs = Inr (xs @ concat (map blob_bytes (op_scalar_list_dictionary p)))" for xs
    by (rule foldM_appends) (simp add: AppendBlob_eq)
  moreover have "foldM_res AppendStringList (op_string_list_dictionary p) xs
      = Inr (xs @ concat (map (run_bytes string_bytes) (op_string_list_dictionary p)))" for xs
    using assms by (intro foldM_appends) (simp add: AppendStringList_eq storable_payload_def)
  ultimately show ?thesis
    using assms by (simp add: AppendRowPayload_def storable_payload_def AppendBlob_eq AppendStringList_eq row_payload_bytes_def
        run_bytes_def [of blob_bytes] run_bytes_def [of "run_bytes string_bytes"])
qed

lemma SerializeRowPayloads_eq:
  "\<forall>p \<in> set ps. storable_payload p \<Longrightarrow> SerializeRowPayloads ps = Inr (payload_section_bytes ps)"
  by (simp add: SerializeRowPayloads_def payload_section_bytes_def foldM_appends [of _ _ row_payload_bytes] AppendRowPayload_eq)

section \<open>Written files\<close>

lemma CheckSelection_eq:
  "CheckSelection (map Some shards) n seen = Inr () \<longleftrightarrow>
   distinct (map bs_shard_id shards) \<and> (\<forall>s \<in> set shards. bs_shard_id s < n \<and> bs_shard_id s \<notin> seen)"
  by (induction shards arbitrary: seen) (auto simp: not_le image_iff)

lemma AddShardSections_eq:
  assumes "BuildShardSnapshot spec shard = Inr b" and "\<forall>p \<in> set (ob_row_payloads b). storable_payload p"
  shows "AddShardSections spec shard (file, secs) = Inr (file @ part_bytes (shard_parts (bs_shard_id shard) b),
     secs @ place (length file) (shard_parts (bs_shard_id shard) b))"
  using assms by (simp add: AddShardSections_def SerializeRowPayloads_eq AddSection_eq shard_parts_def Let_def)

lemma AddShards_eq:
  assumes "list_all2 (\<lambda>shard b. BuildShardSnapshot spec shard = Inr b \<and> (\<forall>p \<in> set (ob_row_payloads b). storable_payload p)) shards backings"
  shows "foldM_res (AddShardSections spec) shards (file, secs) =
     (let parts = concat (map (\<lambda>(shard, b). shard_parts (bs_shard_id shard) b) (zip shards backings))
      in Inr (file @ part_bytes parts, secs @ place (length file) parts))"
  using list_all2_lengthD [OF assms] assms
proof (induction shards backings arbitrary: "file" secs rule: list_induct2)
  case (Cons shard shards b backings)
  then show ?case by (simp add: AddShardSections_eq Let_def place_append)
qed simp

lemma BuildArtifactFile_eq:
  assumes "writable spec L shards backings"
  shows "BuildArtifactFile spec (map Some shards) = Inr (artifact_file spec L (artifact_parts spec L shards backings))"
proof -
  let ?parts = "artifact_parts spec L shards backings" and ?rest = "concat (map (\<lambda>(shard, b). shard_parts (bs_shard_id shard) b) (zip shards backings))"
  let ?incl = "ab_include_source_progress_section spec" and ?n = "length ?parts"
  have len: "length backings = length shards" using assms by (auto simp: writable_def dest: list_all2_lengthD)
  have s7: "length (shard_parts i b) = 7" for i b by (simp add: shard_parts_def)
  have "length ?rest = length shards * 7" using len [symmetric] by (induction shards backings rule: list_induct2) (auto simp: s7)
  then have n: "?n = 1 + (if ?incl then 1 else 0) + length shards * 7" by (simp add: artifact_parts_def)
  then have small: "?n < 2 ^ 25" using assms by (auto simp: writable_def)
  let ?f = "replicate (128 + 64 * ?n) (0 :: byte)"
  have f: "unat (kArtifactHeaderSize + of_nat ?n * kArtifactSectionEntrySize) = 128 + 64 * ?n"
    using small by (simp add: kArtifactHeaderSize_def kArtifactSectionEntrySize_def unat_word_ariths unat_of_nat)
  have u: "unat (of_nat ?n :: u32) = ?n" using small by (simp add: unat_of_nat)
  have d: "DraftArtifact spec L (of_nat ?n) (map Some shards) = Inr (?f @ part_bytes ?parts, place (128 + 64 * ?n) ?parts)"
    unfolding DraftArtifact_def f Let_def
    using assms by (auto simp: writable_def AddSection_eq AddShards_eq SerializeSchema_eq SerializeSourceProgress_eq artifact_parts_def Let_def add.assoc comp_def)
  have w: "WriteArtifactHeader spec L (of_nat ?n) (?f @ part_bytes ?parts)
      = Inr (artifact_header_bytes spec L ?n @ replicate (64 * ?n) 0 @ part_bytes ?parts)"
    using assms WriteArtifactHeader_eq [of spec L ?n "replicate (64 * ?n) 0 @ part_bytes ?parts"] by (simp add: writable_def replicate_add)
  have fin: "FinishArtifact spec L (of_nat ?n) (?f @ part_bytes ?parts, place (128 + 64 * ?n) ?parts) = Inr (artifact_file spec L ?parts)"
    using assms write_directory [of "artifact_header_bytes spec L ?n" 0 "place (128 + 64 * ?n) ?parts" "part_bytes ?parts"] u w
    by (simp add: FinishArtifact_def writable_def artifact_file_def)
  have "\<not> length (ab_artifact_id spec) > kArtifactIdCapacity" "ab_shard_count spec \<noteq> 0" "map Some shards \<noteq> []"
    "CheckSelection (map Some shards) (ab_shard_count spec) {} = Inr ()" "ab_layout spec = Some L"
    using assms by (auto simp: writable_def kArtifactIdCapacity_def CheckSelection_eq SerializeSchema_eq neq_Nil_conv)
  moreover have "1 + (if ?incl then 1 else 0) + length (map Some shards) * 7 = ?n" using n by simp
  ultimately show ?thesis unfolding BuildArtifactFile_def Let_def by (simp only:) (simp add: d fin)
qed

definition part_keys :: "part list \<Rightarrow> (ArtifactSectionType \<times> u32) list" where
  "part_keys parts = map (\<lambda>(type, shard_id, payload). (type, shard_id)) parts"

text \<open>
  Parts that can be stored: their keys are distinct and name shards of the artifact, and there are not too
  many of them.
\<close>

definition parts_ok :: "u32 \<Rightarrow> part list \<Rightarrow> bool" where
  "parts_ok shard_count parts \<longleftrightarrow> distinct (part_keys parts) \<and> length parts < 2 ^ 25
     \<and> (\<forall>(type, i, p) \<in> set parts. i = kArtifactGlobalShardId \<or> i < shard_count)
     \<and> 128 + 64 * length parts + length (part_bytes parts) < 2 ^ 64"

text \<open>Options that the artifact of a specification meets.\<close>

definition options_match :: "ArtifactValidationOptions \<Rightarrow> ArtifactBuildSpec \<Rightarrow> bool" where
  "options_match options spec \<longleftrightarrow> vo_expected_hash_seed options = ab_hash_seed spec
     \<and> vo_expected_shard_count options \<in> {0, ab_shard_count spec} \<and> vo_expected_hash_version options \<in> {0, ab_hash_version spec}"

definition parsed_file :: "ArtifactBuildSpec \<Rightarrow> CompiledRowLayout \<Rightarrow> part list \<Rightarrow> ArtifactSourceProgress list \<Rightarrow> ParsedArtifact" where
  "parsed_file spec L parts progress =
     \<lparr>pa_artifact_id = ab_artifact_id spec, pa_shard_count = ab_shard_count spec, pa_hash_seed = ab_hash_seed spec,
      pa_hash_version = ab_hash_version spec, pa_schema_version = cl_schema_version L,
      pa_layout_fingerprint = cl_layout_fingerprint L, pa_layout = Some L, pa_source_progress = progress,
      pa_sections = place (128 + 64 * length parts) parts, pa_bytes = artifact_file spec L parts\<rparr>"

definition shard_section_types :: "ArtifactSectionType list" where
  "shard_section_types = [kFrozenPrimaryKeyIndex, kRowSlots, kRowArena, kStringPools, kScalarListPools, kStringListPools, kStringElementPools]"

section \<open>Reading a written file\<close>

lemma ReadLittleEndian_at:
  assumes "8 dvd LENGTH('a :: len)" and "off \<le> length bs" and "drop off bs = le_bytes (v :: 'a word) @ rest"
  shows "ReadLittleEndian bs off = Inr v"
  using readsD [OF reads_ReadNext [OF assms(1)] _ assms(2,3)] by (auto simp: ReadNext_def)

lemma read32_at: "off \<le> length bs \<Longrightarrow> drop off bs = le_bytes (v :: u32) @ rest \<Longrightarrow> ReadLittleEndian bs off = Inr v"
  by (rule ReadLittleEndian_at) simp_all

lemma read64_at: "off \<le> length bs \<Longrightarrow> drop off bs = le_bytes (v :: u64) @ rest \<Longrightarrow> ReadLittleEndian bs off = Inr v"
  by (rule ReadLittleEndian_at) simp_all

lemma place_facts:
  assumes "n + length (part_bytes parts) < 2 ^ 64"
  shows "map (\<lambda>s. (as_type s, as_shard_id s)) (place n parts) = part_keys parts"
    and "\<forall>s \<in> set (place n parts). n \<le> unat (as_offset s) \<and> section_end s \<le> n + length (part_bytes parts)"
    and "CheckOverlap (place n parts) (of_nat n) = Inr ()"
    and "sorted (map as_offset (place n parts))"
proof -
  have *: "map (\<lambda>s. (as_type s, as_shard_id s)) (place n parts) = part_keys parts
    \<and> (\<forall>s \<in> set (place n parts). n \<le> unat (as_offset s) \<and> section_end s \<le> n + length (part_bytes parts))
    \<and> CheckOverlap (place n parts) (of_nat n) = Inr () \<and> sorted (map as_offset (place n parts))"
    using assms
  proof (induction n parts rule: place.induct)
    case (2 n t i p parts)
    have u: "unat (of_nat n :: u64) = n" "unat (of_nat (length p) :: u64) = length p"
      using 2(2) by (simp_all add: unat_of_nat)
    have le: "of_nat n \<le> as_offset s" if "s \<in> set (place (n + length p) parts)" for s
      using 2 that by (auto simp: word_le_nat_alt u)
    with 2 show ?case by (auto simp: part_keys_def section_end_def u)
  qed (simp add: part_keys_def)
  then show "map (\<lambda>s. (as_type s, as_shard_id s)) (place n parts) = part_keys parts"
    "\<forall>s \<in> set (place n parts). n \<le> unat (as_offset s) \<and> section_end s \<le> n + length (part_bytes parts)"
    "CheckOverlap (place n parts) (of_nat n) = Inr ()" "sorted (map as_offset (place n parts))" by blast+
qed

lemma place_bytes:
  assumes "length pre + length (part_bytes parts) < 2 ^ 64"
  shows "map (section_bytes (pre @ part_bytes parts)) (place (length pre) parts) = map (\<lambda>(t, i, p). p) parts
    \<and> (\<forall>s \<in> set (place (length pre) parts). Fnv1a64 (section_bytes (pre @ part_bytes parts) s) = as_checksum s)"
  using assms
proof (induction parts arbitrary: pre)
  case (Cons a parts)
  obtain t i p where a: "a = (t, i, p)" by (cases a)
  have "unat (of_nat (length pre) :: u64) = length pre" "unat (of_nat (length p) :: u64) = length p"
    using Cons.prems by (simp_all add: unat_of_nat a)
  with Cons.IH [of "pre @ p"] Cons.prems show ?case by (simp add: a section_bytes_def)
qed simp

lemma FindSection_place:
  assumes "length pre + length (part_bytes parts) < 2 ^ 64" and "distinct (part_keys parts)"
  shows "(t, i, p) \<in> set parts \<Longrightarrow> \<exists>s. FindSection (place (length pre) parts) t i = Some s \<and> section_bytes (pre @ part_bytes parts) s = p"
    and "(t, i) \<notin> set (part_keys parts) \<Longrightarrow> FindSection (place n parts) t i = None"
proof -
  assume "(t, i, p) \<in> set parts"
  with assms show "\<exists>s. FindSection (place (length pre) parts) t i = Some s \<and> section_bytes (pre @ part_bytes parts) s = p"
  proof (induction parts arbitrary: pre)
    case (Cons a parts)
    obtain t' i' p' where a: "a = (t', i', p')" by (cases a)
    have "unat (of_nat (length pre) :: u64) = length pre" "unat (of_nat (length p') :: u64) = length p'"
      using Cons.prems by (simp_all add: unat_of_nat a)
    with Cons.IH [of "pre @ p'"] Cons.prems show ?case
      by (cases "(t', i') = (t, i)") (auto simp: a section_bytes_def FindSection_def part_keys_def image_iff split: prod.splits)
  qed simp
next
  assume "(t, i) \<notin> set (part_keys parts)"
  then show "FindSection (place n parts) t i = None"
    by (induction n parts rule: place.induct) (auto simp: FindSection_def part_keys_def)
qed
lemma ReadArtifactHeader_written:
  assumes "length (ab_artifact_id spec) \<le> 60" and "n < 2 ^ 32"
  shows "ReadArtifactHeader (artifact_header_bytes spec L n @ rest) =
    Inr \<lparr>ah_section_count = of_nat n, ah_shard_count = ab_shard_count spec, ah_hash_seed = ab_hash_seed spec,
         ah_hash_version = ab_hash_version spec, ah_schema_version = cl_schema_version L,
         ah_layout_fingerprint = cl_layout_fingerprint L, ah_artifact_id_length = of_nat (length (ab_artifact_id spec))\<rparr>"
proof -
  let ?h = "artifact_header_bytes spec L n"
  have len: "length ?h = 128" using assms by simp
  have rd: "ReadLittleEndian (?h @ rest) off = Inr (le_word (subspan off (sizeof TYPE('a)) ?h) :: 'a :: len word)"
    if "off + sizeof TYPE('a) \<le> 128" for off
    using that len by (simp add: ReadLittleEndian_eq)
  have u: "unat (of_nat (length (ab_artifact_id spec)) :: u32) = length (ab_artifact_id spec)"
    using assms(1) by (simp add: unat_of_nat)
  have h: "unat kArtifactHeaderSize = 128" by (simp add: kArtifactHeaderSize_def)
  show ?thesis
    using assms(1) len unfolding ReadArtifactHeader_def h kArtifactIdCapacity_def kArtifactIdOffset_def
    by (simp add: rd read_or_def u) (simp add: artifact_header_bytes_def subspan_def le_word_le_bytes u)
qed

lemma artifact_id_written:
  assumes "length (ab_artifact_id spec) \<le> 60"
  shows "string_of_bytes (subspan kArtifactIdOffset (unat (of_nat (length (ab_artifact_id spec)) :: u32)) (artifact_header_bytes spec L n @ rest))
    = ab_artifact_id spec"
proof -
  have "unat (of_nat (length (ab_artifact_id spec)) :: u32) = length (ab_artifact_id spec)" using assms by (simp add: unat_of_nat)
  then show ?thesis using assms by (simp add: kArtifactIdOffset_def artifact_header_bytes_def subspan_def)
qed

lemma ParseSectionEntry_at:
  assumes d: "drop (128 + 64 * k) bs = directory_entry_bytes s @ rest" and off: "128 + 64 * k \<le> length bs" and k: "k < 2 ^ 25"
    and s: "as_shard_id s = kArtifactGlobalShardId \<or> as_shard_id s < sc" "section_end s \<le> length bs"
    and seen: "(section_code (as_type s), as_shard_id s) \<notin> seen"
  shows "ParseSectionEntry bs sc seen (of_nat k) = Inr s"
proof -
  have e: "unat (kArtifactHeaderSize + of_nat k * kArtifactSectionEntrySize) = 128 + 64 * k"
    using k by (simp add: kArtifactHeaderSize_def kArtifactSectionEntrySize_def unat_word_ariths unat_of_nat)
  let ?o = "128 + 64 * k" and ?z = "replicate 32 0 @ rest"
  have d0: "drop ?o bs = le_bytes (section_code (as_type s)) @ le_bytes (as_shard_id s) @ le_bytes (as_offset s) @ le_bytes (as_length s) @ le_bytes (as_checksum s) @ ?z"
    using d by (simp add: directory_entry_bytes_def)
  note d1 = drop_behind [OF off d0]
  note d2 = drop_behind [OF d1]
  note d3 = drop_behind [OF d2]
  note d4 = drop_behind [OF d3]
  have r: "ReadLittleEndian bs ?o = Inr (section_code (as_type s))" "ReadLittleEndian bs (?o + 4) = Inr (as_shard_id s)"
    "ReadLittleEndian bs (?o + 8) = Inr (as_offset s)" "ReadLittleEndian bs (?o + 16) = Inr (as_length s)" "ReadLittleEndian bs (?o + 24) = Inr (as_checksum s)"
    using read32_at [OF off d0] read32_at [OF d1] read64_at [OF d2] read64_at [OF d3] read64_at [OF d4]
    by (simp_all add: add.commute add.left_commute)
  have dt: "DecodeSectionType (section_code (as_type s)) = Inr (as_type s)" by (simp add: DecodeSectionType_Inr)
  have "CheckBounds bs (as_offset s) (as_length s) = Inr ()" using s(2) by (auto simp: CheckBounds_def section_end_def)
  with s(1) seen show ?thesis unfolding ParseSectionEntry_def e Let_def r by (auto simp: dt read_or_def not_le)
qed

lemma ParseSectionEntries_at:
  assumes "drop (128 + 64 * k) bs = concat (map directory_entry_bytes secs) @ rest" and "128 + 64 * k \<le> length bs"
    and "k + length secs \<le> 2 ^ 25" and "distinct (map (\<lambda>s. (as_type s, as_shard_id s)) secs)"
    and "\<forall>s \<in> set secs. (as_shard_id s = kArtifactGlobalShardId \<or> as_shard_id s < sc) \<and> section_end s \<le> length bs
      \<and> (section_code (as_type s), as_shard_id s) \<notin> seen"
  shows "ParseSectionEntries (length secs) bs sc seen (of_nat k) = Inr secs"
  using assms
proof (induction secs arbitrary: k seen)
  case (Cons s secs)
  have d: "drop (128 + 64 * k) bs = directory_entry_bytes s @ concat (map directory_entry_bytes secs) @ rest" using Cons.prems(1) by simp
  have "ParseSectionEntry bs sc seen (of_nat k) = Inr s" using Cons.prems by (intro ParseSectionEntry_at [OF d]) auto
  moreover have "ParseSectionEntries (length secs) bs sc (insert (section_code (as_type s), as_shard_id s) seen) (of_nat (Suc k)) = Inr secs"
    using drop_behind [OF Cons.prems(2) d] Cons.prems(3-5) by (intro Cons.IH) (auto simp: image_iff)
  ultimately show ?case by (simp add: add.commute)
qed simp
lemma directory_fits: "\<not> (ucast (c :: u32) * ucast kArtifactSectionEntrySize :: u64) > - 1 - ucast kArtifactHeaderSize"
proof -
  have lt: "unat c < 2 ^ 32" using unsigned_less [of c, where ?'a = nat] by simp
  then have c: "unat (ucast c :: u64) = unat c" by (simp add: unsigned_ucast_eq take_bit_nat_eq_self)
  have "unat (ucast c * 64 :: u64) = 64 * unat c" using lt by (subst unat_mult_eq) (simp_all add: c)
  moreover have "unat (- 1 - 128 :: u64) = 2 ^ 64 - 129" by simp
  ultimately show ?thesis using lt by (simp add: word_less_nat_alt kArtifactSectionEntrySize_def kArtifactHeaderSize_def)
qed

text \<open>Up to the overlap check, which depends on the sort, the file of the parts is accepted.\<close>

lemma ParseArtifact_overlap:
  assumes fid: "length (ab_artifact_id spec) \<le> 60" and ok: "parts_ok (ab_shard_count spec) parts"
    and opt: "options_match options spec" and L: "storable_layout L"
    and schema: "(kSchemaMetadata, kArtifactGlobalShardId, schema_bytes L) \<in> set parts"
    and progress: "(kSourceProgress, kArtifactGlobalShardId, progress_bytes ps) \<in> set parts \<and> storable_progress ps
      \<or> (kSourceProgress, kArtifactGlobalShardId) \<notin> set (part_keys parts) \<and> vo_source_progress_policy options = kOptional \<and> ps = []"
  shows "ParseArtifact std_sort (artifact_file spec L parts) options =
    rbind (CheckOverlap (std_sort (place (128 + 64 * length parts) parts)) (of_nat (128 + 64 * length parts)))
      (\<lambda>_. Inr (parsed_file spec L parts (map progress_of ps)))"
proof -
  let ?n = "length parts" and ?f = "artifact_file spec L parts" and ?b = "128 + 64 * length parts"
  let ?pre = "artifact_header_bytes spec L ?n @ concat (map directory_entry_bytes (place ?b parts))"
  let ?secs = "place ?b parts"
  have small: "?n < 2 ^ 25" "distinct (part_keys parts)" "?b + length (part_bytes parts) < 2 ^ 64"
    using ok by (auto simp: parts_ok_def)
  have "length (concat (map directory_entry_bytes secs)) = 64 * length secs" for secs by (induction secs) auto
  then have pre: "length ?pre = ?b" using fid by simp
  have f: "?f = ?pre @ part_bytes parts" by (simp add: artifact_file_def)
  have flen: "length ?f = ?b + length (part_bytes parts)" using pre by (simp add: f)
  note P = place_facts [OF small(3)]
  define h where "h = \<lparr>ah_section_count = of_nat ?n, ah_shard_count = ab_shard_count spec, ah_hash_seed = ab_hash_seed spec,
         ah_hash_version = ab_hash_version spec, ah_schema_version = cl_schema_version L,
         ah_layout_fingerprint = cl_layout_fingerprint L, ah_artifact_id_length = of_nat (length (ab_artifact_id spec)) :: u32\<rparr>"
  have hd: "ReadArtifactHeader ?f = Inr h"
    unfolding artifact_file_def h_def using fid small(1) by (intro ReadArtifactHeader_written) auto
  have ex: "CheckExpected options h = Inr ()" using opt by (auto simp: CheckExpected_def options_match_def h_def)
  have n: "unat (ah_section_count h) = ?n" using small(1) by (simp add: h_def unat_of_nat)
  have max: "\<not> (ucast (ah_section_count h) * ucast kArtifactSectionEntrySize :: u64) > - 1 - ucast kArtifactHeaderSize"
    by (rule directory_fits)
  note dir = directory_end [OF max, unfolded n]
  have e: "(ucast kArtifactHeaderSize + ucast (ah_section_count h) * ucast kArtifactSectionEntrySize :: u64) = of_nat ?b"
    unfolding dir [symmetric] by simp
  have shards: "as_shard_id s = kArtifactGlobalShardId \<or> as_shard_id s < ab_shard_count spec" if "s \<in> set ?secs" for s
  proof -
    have "(as_type s, as_shard_id s) \<in> set (part_keys parts)" unfolding P(1) [symmetric] using that by force
    then show ?thesis using ok by (auto simp: parts_ok_def part_keys_def)
  qed
  have ent: "ParseSectionEntries ?n ?f (ab_shard_count spec) {} 0 = Inr ?secs"
  proof -
    have d: "drop (128 + 64 * 0) ?f = concat (map directory_entry_bytes ?secs) @ part_bytes parts"
      using fid by (simp add: artifact_file_def)
    show ?thesis
      using ParseSectionEntries_at [OF d, of "ab_shard_count spec" "{}"] small P(1,2) shards flen by simp
  qed
  have chk: "CheckChecksums ?f ?secs = Inr ()"
    using place_bytes [of ?pre parts] small(3) unfolding f [symmetric] pre by (simp add: CheckChecksums_def)
  note F = FindSection_place [of ?pre parts, unfolded pre f [symmetric], OF small(3,2)]
  obtain ss where ss: "FindSection ?secs kSchemaMetadata kArtifactGlobalShardId = Some ss" "section_bytes ?f ss = schema_bytes L"
    using F(1) [OF schema] by blast
  have sc: "ParseSchemaSection (section_bytes ?f ss) (ah_schema_version h) (ah_layout_fingerprint h) = Inr L"
    unfolding ss h_def using ParseSchemaSection_roundtrip [OF L] by simp
  have aid: "string_of_bytes (subspan kArtifactIdOffset (unat (ah_artifact_id_length h)) ?f) = ab_artifact_id spec"
    unfolding artifact_file_def h_def using artifact_id_written [OF fid] by simp
  have asm: "AssembleArtifact ?f options h ?secs = Inr (parsed_file spec L parts (map progress_of ps))"
    using progress
  proof
    assume p: "(kSourceProgress, kArtifactGlobalShardId, progress_bytes ps) \<in> set parts \<and> storable_progress ps"
    then obtain sp where "FindSection ?secs kSourceProgress kArtifactGlobalShardId = Some sp" "section_bytes ?f sp = progress_bytes ps"
      using F(1) by blast
    with p ss(1) sc aid ParseSourceProgress_roundtrip [of ps] show ?thesis
      by (simp add: AssembleArtifact_def parsed_file_def) (simp add: h_def)
  next
    assume "(kSourceProgress, kArtifactGlobalShardId) \<notin> set (part_keys parts) \<and> vo_source_progress_policy options = kOptional \<and> ps = []"
    with F(2) ss(1) sc aid show ?thesis by (simp add: AssembleArtifact_def parsed_file_def) (simp add: h_def)
  qed
  have ub: "unat (of_nat ?b :: u64) = ?b" using dir by (simp only: e)
  have hs: "ah_shard_count h = ab_shard_count spec" by (simp add: h_def)
  show ?thesis
    unfolding ParseArtifact_def hd rbind_Inr ex Let_def e n hs ent chk asm ub flen using max by simp
qed

lemma ParseArtifact_file:
  assumes fid: "length (ab_artifact_id spec) \<le> 60" and ok: "parts_ok (ab_shard_count spec) parts"
    and srt: "std_sort (place (128 + 64 * length parts) parts) = place (128 + 64 * length parts) parts"
    and opt: "options_match options spec" and L: "storable_layout L"
    and schema: "(kSchemaMetadata, kArtifactGlobalShardId, schema_bytes L) \<in> set parts"
    and progress: "(kSourceProgress, kArtifactGlobalShardId, progress_bytes ps) \<in> set parts \<and> storable_progress ps
      \<or> (kSourceProgress, kArtifactGlobalShardId) \<notin> set (part_keys parts) \<and> vo_source_progress_policy options = kOptional \<and> ps = []"
  shows "ParseArtifact std_sort (artifact_file spec L parts) options = Inr (parsed_file spec L parts (map progress_of ps))"
proof -
  have "128 + 64 * length parts + length (part_bytes parts) < 2 ^ 64" using ok by (simp add: parts_ok_def)
  from place_facts(3) [OF this] show ?thesis
    unfolding ParseArtifact_overlap [OF fid ok opt L schema progress] srt by simp
qed

text \<open>When no part is empty, every sorting function leaves the directory as it is.\<close>

lemma place_offsets_distinct:
  assumes "n + length (part_bytes parts) < 2 ^ 64" and "\<forall>(t, i, p) \<in> set parts. p \<noteq> []"
  shows "distinct (map as_offset (place n parts))"
  using assms
proof (induction n parts rule: place.induct)
  case (2 n t i p parts)
  have "n + length p \<le> unat (as_offset s)" if "s \<in> set (place (n + length p) parts)" for s
    using place_facts(2) [of "n + length p" parts] 2(2) that by (auto simp: add.assoc)
  moreover have "unat (of_nat n :: u64) = n" using 2(2) by (simp add: unat_of_nat)
  moreover have "0 < length p" using 2(3) by simp
  ultimately have "as_offset s \<noteq> of_nat n" if "s \<in> set (place (n + length p) parts)" for s using that by fastforce
  then have "of_nat n \<notin> as_offset ` set (place (n + length p) parts)" by (metis imageE)
  with 2 show ?case by (simp add: add.assoc)
qed simp

lemma sort_place:
  assumes "sorts_by_offset std_sort" and "n + length (part_bytes parts) < 2 ^ 64" and "\<forall>(t, i, p) \<in> set parts. p \<noteq> []"
  shows "std_sort (place n parts) = place n parts"
proof -
  let ?xs = "place n parts"
  have m: "mset (std_sort ?xs) = mset ?xs" and s: "sorted (map as_offset (std_sort ?xs))"
    using assms(1) by (simp_all add: sorts_by_offset_def)
  have d: "distinct (map as_offset ?xs)" using place_offsets_distinct [OF assms(2,3)] .
  have "mset (map as_offset (std_sort ?xs)) = mset (map as_offset ?xs)" by (simp only: mset_map m)
  then have d': "distinct (map as_offset (std_sort ?xs))" using d by (metis mset_eq_imp_distinct_iff)
  have set: "set (std_sort ?xs) = set ?xs" using m by (metis mset_eq_setD)
  show ?thesis
    using place_facts(4) [OF assms(2)] s d d' set
    by (intro map_sorted_distinct_set_unique [of as_offset]) (auto simp: distinct_map)
qed

lemma stable_sort_place:
  assumes "n + length (part_bytes parts) < 2 ^ 64"
  shows "sort_key as_offset (place n parts) = place n parts"
  using place_facts(4) [OF assms] by (rule sort_key_id_if_sorted)

lemma part_keys_simps [simp]:
  "part_keys [] = []" "part_keys ((t, i, p) # parts) = (t, i) # part_keys parts" "part_keys (xs @ ys) = part_keys xs @ part_keys ys"
  by (simp_all add: part_keys_def)

lemma shard_part_keys: "part_keys (shard_parts i b) = map (\<lambda>t. (t, i)) shard_section_types"
  by (simp add: shard_parts_def shard_section_types_def)

lemma shard_keys_distinct:
  assumes "length shards = length backings" and "distinct (map bs_shard_id shards)"
  shows "distinct (part_keys (concat (map (\<lambda>(shard, b). shard_parts (bs_shard_id shard) b) (zip shards backings))))
    \<and> set (part_keys (concat (map (\<lambda>(shard, b). shard_parts (bs_shard_id shard) b) (zip shards backings))))
      \<subseteq> set shard_section_types \<times> set (map bs_shard_id shards)"
  using assms
proof (induction shards backings rule: list_induct2)
  case (Cons shard shards b backings)
  let ?ks = "part_keys (concat (map (\<lambda>(shard, b). shard_parts (bs_shard_id shard) b) (zip shards backings)))"
  have IH: "distinct ?ks" "set ?ks \<subseteq> set shard_section_types \<times> set (map bs_shard_id shards)" using Cons by auto
  have "distinct (map (\<lambda>t. (t, bs_shard_id shard)) shard_section_types)" by (simp add: shard_section_types_def)
  moreover have "set (map (\<lambda>t. (t, bs_shard_id shard)) shard_section_types) \<inter> set ?ks = {}" using IH(2) Cons.prems by auto
  ultimately show ?case using IH by (auto simp: shard_part_keys)
qed simp

lemma artifact_parts_ok:
  assumes w: "writable spec L shards backings" and sz: "length (artifact_file spec L (artifact_parts spec L shards backings)) < 2 ^ 64"
  shows "parts_ok (ab_shard_count spec) (artifact_parts spec L shards backings)"
proof -
  let ?rest = "concat (map (\<lambda>(shard, b). shard_parts (bs_shard_id shard) b) (zip shards backings))"
  let ?parts = "artifact_parts spec L shards backings"
  have len: "length shards = length backings" using w by (auto simp: writable_def dest: list_all2_lengthD)
  have small: "length shards < 2 ^ 22" and ids: "\<forall>shard \<in> set shards. bs_shard_id shard < ab_shard_count spec"
    and fid: "length (ab_artifact_id spec) \<le> 60" using w by (auto simp: writable_def)
  have d: "distinct (map bs_shard_id shards)" using w by (simp add: writable_def)
  note K = shard_keys_distinct [OF len d]
  have s7: "length (shard_parts i b) = 7" for i b by (simp add: shard_parts_def)
  have "length ?rest = length shards * 7" using len by (induction shards backings rule: list_induct2) (auto simp: s7)
  then have n: "length ?parts < 2 ^ 25" using small by (simp add: artifact_parts_def)
  have "length (concat (map directory_entry_bytes secs)) = 64 * length secs" for secs by (induction secs) auto
  then have "length (artifact_file spec L ?parts) = 128 + 64 * length ?parts + length (part_bytes ?parts)"
    using fid by (simp add: artifact_file_def)
  moreover have "distinct (part_keys ?parts)" using K by (auto simp: artifact_parts_def shard_section_types_def)
  moreover have "i < ab_shard_count spec" if "(t, i, p) \<in> set ?rest" for t i p
  proof -
    have "(t, i) \<in> set (part_keys ?rest)" using that by (force simp: part_keys_def)
    then have "i \<in> set (map bs_shard_id shards)" using K by blast
    with ids show ?thesis by auto
  qed
  then have "i = kArtifactGlobalShardId \<or> i < ab_shard_count spec" if "(t, i, p) \<in> set ?parts" for t i p
    using that unfolding artifact_parts_def by (cases "(t, i, p) \<in> set ?rest") (auto split: if_splits simp del: set_concat)
  ultimately show ?thesis using sz n by (auto simp: parts_ok_def)
qed

end
