(* ===== verification/Mmap_Backing.thy ===== *)
theory Mmap_Backing
  imports Artifact_Writer "HOL-Library.Sublist"
begin

text \<open>
  \<open>src/artifact/mmap_snapshot_backing.{h,cc}\<close>: a snapshot backing over a mapped artifact file. The file of
  a shard is found from the URI, mapped, parsed by \<open>ParseArtifact\<close> and checked; rows are then read from
  the row-slot section and the payload section. The backing provides the locale \<open>readable_backing\<close> of the
  snapshot theory.

  A mapping is the list of the bytes of the file. Unmapping has no counterpart, nor have the calls of
  \<open>reserve\<close>. System calls and \<open>std::sort\<close> are parameters, as in the writer and the parser.
\<close>

section \<open>Paths\<close>

definition local_scheme :: string where "local_scheme = ''file://''"

definition ResolveLocalPath :: "string \<Rightarrow> string res" where
  "ResolveLocalPath artifact_uri =
     (if list_ex (prefix ''://'') (suffixes artifact_uri) \<and> \<not> prefix local_scheme artifact_uri
      then Inl (InvalidArgument ''unsupported artifact uri scheme'')
      else
        (let path = (if prefix local_scheme artifact_uri then drop (length local_scheme) artifact_uri else artifact_uri) in
         if path = [] then Inl (InvalidArgument ''artifact path is empty'') else Inr path))"

definition JoinPath :: "string \<Rightarrow> string \<Rightarrow> string" where
  "JoinPath lhs rhs = (if lhs = [] \<or> lhs = ''/'' then lhs @ rhs else lhs @ ''/'' @ rhs)"

text \<open>\<open>std::setw(5)\<close> with \<open>std::setfill('0')\<close> pads the number to five digits.\<close>

definition ShardFileName :: "u32 \<Rightarrow> string" where
  "ShardFileName shard_id =
     (let digits = decimal (unat shard_id) in ''shard_'' @ replicate (5 - length digits) (CHR ''0'') @ digits @ ''.kvi'')"

definition ENOENT :: int where "ENOENT = 2"

definition ResolveArtifactFilePath :: "'fs host \<Rightarrow> 'fs \<Rightarrow> string \<Rightarrow> u32 \<Rightarrow> string res" where
  "ResolveArtifactFilePath ho fs artifact_uri shard_id =
     rbind (ResolveLocalPath artifact_uri) (\<lambda>path.
     case ho_stat ho fs path of
       Inl errno \<Rightarrow>
         if errno = ENOENT then Inl (NotFound ''artifact file not found'')
         else Inl (Unavailable (''failed to stat artifact path: '' @ ho_strerror ho errno))
     | Inr RegularFile \<Rightarrow> Inr path
     | Inr OtherFile \<Rightarrow> Inl (InvalidArgument ''artifact path is neither a regular file nor a directory'')
     | Inr Directory \<Rightarrow>
         (let shard_path = JoinPath path (ShardFileName shard_id) in
          case ho_stat ho fs shard_path of
            Inl errno \<Rightarrow>
              if errno = ENOENT then Inl (NotFound ''artifact shard file not found'')
              else Inl (Unavailable (''failed to stat artifact shard file: '' @ ho_strerror ho errno))
          | Inr RegularFile \<Rightarrow> Inr shard_path
          | Inr _ \<Rightarrow> Inl (InvalidArgument ''artifact shard path is not a regular file'')))"

definition SectionBytes :: "ParsedArtifact \<Rightarrow> ArtifactSectionType \<Rightarrow> u32 \<Rightarrow> byte list res" where
  "SectionBytes artifact type shard_id =
     (case FindSection (pa_sections artifact) type shard_id of
        None \<Rightarrow> Inl (InvalidArgument ''required shard artifact section missing'')
      | Some section \<Rightarrow> Inr (section_bytes (pa_bytes artifact) section))"

section \<open>Row payloads\<close>

definition mm_ReadString :: "byte list \<Rightarrow> nat \<Rightarrow> (string \<times> nat) res" where
  "mm_ReadString bytes offset =
     rbind (ReadNext bytes offset) (\<lambda>(sz :: u32, offset).
     if offset > length bytes \<or> length bytes - offset < unat sz
     then Inl (InvalidArgument ''mmap row string is truncated'')
     else Inr (string_of_bytes (subspan offset (unat sz) bytes), offset + unat sz))"

definition mm_ReadBlob :: "byte list \<Rightarrow> nat \<Rightarrow> (byte list \<times> nat) res" where
  "mm_ReadBlob bytes offset =
     rbind (ReadNext bytes offset) (\<lambda>(sz :: u64, offset).
     if offset > length bytes \<or> length bytes - offset < unat sz
     then Inl (InvalidArgument ''mmap row blob is truncated'')
     else Inr (subspan offset (unat sz) bytes, offset + unat sz))"

definition mm_ReadStringList :: "byte list \<Rightarrow> nat \<Rightarrow> (string list \<times> nat) res" where
  "mm_ReadStringList bytes offset =
     rbind (ReadNext bytes offset) (\<lambda>(count :: u32, offset). ReadRun mm_ReadString (unat count) bytes offset)"

text \<open>One round of the loop of \<open>ReadPayloadAt\<close>.\<close>

definition ReadPayload :: "byte list \<Rightarrow> nat \<Rightarrow> (OwnedSnapshotRowPayload \<times> nat) res" where
  "ReadPayload bytes offset =
     rbind (mm_ReadBlob bytes offset) (\<lambda>(arena, offset).
     rbind (mm_ReadStringList bytes offset) (\<lambda>(strings, offset).
     rbind (ReadNext bytes offset) (\<lambda>(scalar_list_count :: u32, offset).
     rbind (ReadRun mm_ReadBlob (unat scalar_list_count) bytes offset) (\<lambda>(scalar_lists, offset).
     rbind (ReadNext bytes offset) (\<lambda>(string_list_count :: u32, offset).
     rbind (ReadRun mm_ReadStringList (unat string_list_count) bytes offset) (\<lambda>(string_lists, offset).
     rbind (mm_ReadStringList bytes offset) (\<lambda>(string_elements, offset).
     Inr (\<lparr>op_arena = arena, op_string_dictionary = strings, op_scalar_list_dictionary = scalar_lists,
           op_string_list_dictionary = string_lists, op_string_element_dictionary = string_elements\<rparr>, offset))))))))"

text \<open>The loop, with the number of rows left and the number of rows before the wanted one.\<close>

fun ReadPayloadFrom :: "nat \<Rightarrow> byte list \<Rightarrow> nat \<Rightarrow> nat \<Rightarrow> OwnedSnapshotRowPayload res" where
  "ReadPayloadFrom 0 bytes offset wanted = Inl (Internal ''mmap row payload scan missed requested row'')"
| "ReadPayloadFrom (Suc n) bytes offset wanted =
     rbind (ReadPayload bytes offset) (\<lambda>(payload, offset).
     if wanted = 0 then Inr payload else ReadPayloadFrom n bytes offset (wanted - 1))"

definition ReadPayloadAt :: "byte list \<Rightarrow> u64 \<Rightarrow> OwnedSnapshotRowPayload res" where
  "ReadPayloadAt bytes wanted_index =
     rbind (ReadNext bytes 0) (\<lambda>(row_count :: u64, offset).
     if wanted_index \<ge> row_count then Inl (InvalidArgument ''mmap row payload index is out of bounds'')
     else ReadPayloadFrom (unat row_count) bytes offset (unat wanted_index))"

definition ValidatePayloadRowCount :: "byte list \<Rightarrow> u64 \<Rightarrow> unit res" where
  "ValidatePayloadRowCount bytes expected_row_count =
     rbind (ReadLittleEndian bytes 0) (\<lambda>row_count.
     if row_count \<noteq> expected_row_count then Inl (FailedPrecondition ''mmap row payload count mismatch'')
     else if expected_row_count = 0 \<and> length bytes \<noteq> 8
     then Inl (InvalidArgument ''empty mmap payload section has trailing data'')
     else if expected_row_count > 0
     then rbind (ReadPayloadAt bytes (expected_row_count - 1)) (\<lambda>_. Inr ())
     else Inr ())"

section \<open>Loading\<close>

definition MapFile :: "'fs host \<Rightarrow> 'fs \<Rightarrow> string \<Rightarrow> byte list res" where
  "MapFile ho fs path =
     (case ho_open ho fs path of
        Inl errno \<Rightarrow>
          if errno = ENOENT then Inl (NotFound ''artifact file not found'')
          else Inl (Unavailable (''failed to open artifact file: '' @ ho_strerror ho errno))
      | Inr fd \<Rightarrow>
          (case ho_fstat ho fs fd of
             Inl errno \<Rightarrow> Inl (Unavailable (''failed to stat artifact file: '' @ ho_strerror ho errno))
           | Inr st_size \<Rightarrow>
               if st_size \<le> 0 then Inl (InvalidArgument ''artifact file is empty'')
               else
                 (case ho_mmap ho fs fd (nat st_size) of
                    Inl errno \<Rightarrow> Inl (Unavailable (''failed to mmap artifact file: '' @ ho_strerror ho errno))
                  | Inr bytes \<Rightarrow> Inr bytes)))"

record MmapSnapshotLoadOptions =
  ml_expected_shard_count :: u32
  ml_expected_hash_seed :: u64
  ml_expected_hash_version :: u32
  ml_source_progress_policy :: ArtifactSourceProgressPolicy

record MmapSnapshotBacking =
  mb_artifact :: ParsedArtifact
  mb_shard_id :: u32
  mb_frozen_index_bytes :: "byte list"
  mb_row_slot_bytes :: "byte list"
  mb_row_payload_bytes :: "byte list"
  mb_prewarm_sections :: "byte list list"
  mb_row_count :: u64
  mb_prewarmed :: bool
  mb_prewarm_touched_pages :: nat

text \<open>The constructor is only called with an artifact that has a layout.\<close>

definition NewMmapSnapshotBacking ::
    "ParsedArtifact \<Rightarrow> u32 \<Rightarrow> byte list \<Rightarrow> byte list \<Rightarrow> byte list \<Rightarrow> byte list list \<Rightarrow> MmapSnapshotBacking" where
  "NewMmapSnapshotBacking artifact shard_id frozen_index_bytes row_slot_bytes payload_section prewarm_sections =
     \<lparr>mb_artifact = artifact, mb_shard_id = shard_id, mb_frozen_index_bytes = frozen_index_bytes,
      mb_row_slot_bytes = row_slot_bytes, mb_row_payload_bytes = payload_section,
      mb_prewarm_sections = prewarm_sections,
      mb_row_count = (case pa_layout artifact of
         None \<Rightarrow> 0
       | Some layout \<Rightarrow>
           if cl_row_slot_size layout = 0 then 0 else of_nat (length row_slot_bytes div cl_row_slot_size layout)),
      mb_prewarmed = False, mb_prewarm_touched_pages = 0\<rparr>"

text \<open>The checks of \<open>LoadShard\<close> on a mapped file.\<close>

definition LoadMapped ::
    "(ArtifactSection list \<Rightarrow> ArtifactSection list) \<Rightarrow> byte list \<Rightarrow> u32 \<Rightarrow> MmapSnapshotLoadOptions \<Rightarrow> MmapSnapshotBacking res" where
  "LoadMapped std_sort bytes shard_id options =
     rbind (ParseArtifact std_sort bytes
              \<lparr>vo_expected_shard_count = ml_expected_shard_count options,
               vo_expected_hash_seed = ml_expected_hash_seed options,
               vo_expected_hash_version = ml_expected_hash_version options,
               vo_source_progress_policy = ml_source_progress_policy options\<rparr>) (\<lambda>parsed.
     if shard_id \<ge> pa_shard_count parsed then Inl (InvalidArgument ''requested shard id is out of range'')
     else
       rbind (SectionBytes parsed kFrozenPrimaryKeyIndex shard_id) (\<lambda>index.
       rbind (SectionBytes parsed kRowSlots shard_id) (\<lambda>row_slots.
       rbind (SectionBytes parsed kRowArena shard_id) (\<lambda>row_payloads.
       let row_slot_size = (case pa_layout parsed of None \<Rightarrow> 0 | Some layout \<Rightarrow> cl_row_slot_size layout) in
       if row_slot_size = 0 \<or> length row_slots mod row_slot_size \<noteq> 0
       then Inl (InvalidArgument ''mmap row slot section is misaligned'')
       else
         rbind (ValidatePayloadRowCount row_payloads (of_nat (length row_slots div row_slot_size))) (\<lambda>_.
         rbind (mapM_res (\<lambda>type. SectionBytes parsed type shard_id)
                  [kFrozenPrimaryKeyIndex, kRowSlots, kRowArena, kStringPools, kScalarListPools, kStringListPools,
                   kStringElementPools]) (\<lambda>prewarm_sections.
         Inr (NewMmapSnapshotBacking parsed shard_id index row_slots row_payloads prewarm_sections)))))))"

definition LoadShard ::
    "'fs host \<Rightarrow> (ArtifactSection list \<Rightarrow> ArtifactSection list) \<Rightarrow> 'fs \<Rightarrow> string \<Rightarrow> u32 \<Rightarrow> MmapSnapshotLoadOptions
      \<Rightarrow> MmapSnapshotBacking res" where
  "LoadShard ho std_sort fs artifact_uri shard_id options =
     rbind (ResolveArtifactFilePath ho fs artifact_uri shard_id) (\<lambda>path.
     rbind (MapFile ho fs path) (\<lambda>bytes.
     LoadMapped std_sort bytes shard_id options))"

section \<open>The backing\<close>

definition mm_EncodedRowAt :: "MmapSnapshotBacking \<Rightarrow> u64 \<Rightarrow> EncodedRow res" where
  "mm_EncodedRowAt b row_offset =
     (case pa_layout (mb_artifact b) of
        None \<Rightarrow> Inl (FailedPrecondition ''mmap snapshot has no row layout'')
      | Some layout \<Rightarrow>
          (let row_slot_size = cl_row_slot_size layout; offset = unat row_offset in
           if row_slot_size = 0 then Inl (InvalidArgument ''mmap row slot size is zero'')
           else if offset > length (mb_row_slot_bytes b) then Inl (InvalidArgument ''mmap row offset is out of bounds'')
           else if length (mb_row_slot_bytes b) - offset < row_slot_size
           then Inl (InvalidArgument ''mmap row slot is truncated'')
           else if offset mod row_slot_size \<noteq> 0
           then Inl (InvalidArgument ''mmap row offset is not slot aligned'')
           else
             rbind (ReadPayloadAt (mb_row_payload_bytes b) (of_nat (offset div row_slot_size))) (\<lambda>payload.
             Inr \<lparr>er_schema_version = cl_schema_version layout,
                  er_layout_fingerprint = cl_layout_fingerprint layout,
                  er_row_slot = subspan offset row_slot_size (mb_row_slot_bytes b),
                  er_arena = op_arena payload,
                  er_string_dictionary = op_string_dictionary payload,
                  er_scalar_list_dictionary = op_scalar_list_dictionary payload,
                  er_string_list_dictionary = op_string_list_dictionary payload,
                  er_string_element_dictionary = op_string_element_dictionary payload\<rparr>)))"

definition mmap_backing :: "MmapSnapshotBacking \<Rightarrow> SnapshotBacking" where
  "mmap_backing b =
     \<lparr>sb_layout = pa_layout (mb_artifact b), sb_frozen_index_bytes = mb_frozen_index_bytes b,
      sb_row_count = mb_row_count b, sb_EncodedRowAt = mm_EncodedRowAt b,
      sb_mmap_artifact_id = Some (pa_artifact_id (mb_artifact b))\<rparr>"

text \<open>The loop over the pages of a section; the byte that is read has no use. The step is never zero.\<close>

function TouchPages :: "nat \<Rightarrow> nat \<Rightarrow> nat \<Rightarrow> nat \<Rightarrow> nat" where
  "TouchPages step len offset touched =
     (if offset < len \<and> 0 < step then TouchPages step len (offset + step) (touched + 1) else touched)"
  by pat_completeness auto

termination
  by (relation "measure (\<lambda>(step, len, offset, touched). len - offset)") auto

definition TouchSectionPages :: "'fs host \<Rightarrow> byte list \<Rightarrow> nat \<Rightarrow> nat" where
  "TouchSectionPages ho bytes touched_pages =
     (if bytes = [] then touched_pages
      else TouchPages (if ho_page_size ho > 0 then nat (ho_page_size ho) else 4096) (length bytes) 0 touched_pages)"

definition Prewarm :: "'fs host \<Rightarrow> MmapSnapshotBacking \<Rightarrow> unit res \<times> MmapSnapshotBacking" where
  "Prewarm ho b =
     (Inr (), b\<lparr>mb_prewarm_touched_pages := fold (TouchSectionPages ho) (mb_prewarm_sections b) 0,
               mb_prewarmed := True\<rparr>)"

text \<open>A mapped backing with the sections that are written for an owned one.\<close>

definition maps_owned :: "CompiledRowLayout \<Rightarrow> OwnedSnapshotBacking \<Rightarrow> MmapSnapshotBacking \<Rightarrow> bool" where
  "maps_owned L ob b \<longleftrightarrow> pa_layout (mb_artifact b) = Some L \<and> mb_frozen_index_bytes b = ob_frozen_index_bytes ob
     \<and> mb_row_slot_bytes b = ob_row_slot_bytes ob \<and> mb_row_payload_bytes b = payload_section_bytes (ob_row_payloads ob)
     \<and> (\<forall>p \<in> set (ob_row_payloads ob). storable_payload p)"

definition mmap_contains :: "CompiledRowLayout \<Rightarrow> (u64 \<times> EncodedRow) list \<Rightarrow> MmapSnapshotBacking \<Rightarrow> bool" where
  "mmap_contains L rows b \<longleftrightarrow> (\<exists>ob. owned_contains L rows ob \<and> maps_owned L ob b)"

section \<open>Reading payloads back\<close>

lemma mm_reads_string: "reads mm_ReadString string_bytes (\<lambda>s. length s < 2 ^ 32)"
  unfolding reads_def
proof (intro allI impI)
  fix bs off s rest assume s: "length s < 2 ^ 32" and off: "off \<le> length bs" and d0: "drop off bs = string_bytes s @ rest"
  have d: "drop off bs = le_bytes (of_nat (length s) :: u32) @ bytes_of_string s @ rest" using d0 by (simp add: string_bytes_def)
  note a = drop_behind [OF off d]
  note r = readsD [OF reads_u32 _ off d]
  from subspan_at [OF a] drop_behind(1) [OF a] r s show "mm_ReadString bs off = Inr (s, off + length (string_bytes s))"
    by (simp add: mm_ReadString_def unat_of_nat string_bytes_def)
qed

lemma mm_reads_blob: "reads mm_ReadBlob blob_bytes (\<lambda>b. length b < 2 ^ 64)"
  unfolding reads_def
proof (intro allI impI)
  fix bs off b rest assume b: "length (b :: byte list) < 2 ^ 64" and off: "off \<le> length bs" and d0: "drop off bs = blob_bytes b @ rest"
  have d: "drop off bs = le_bytes (of_nat (length b) :: u64) @ b @ rest" using d0 by (simp add: blob_bytes_def)
  note a = drop_behind [OF off d]
  note r = readsD [OF reads_u64 _ off d]
  from subspan_at [OF a] drop_behind(1) [OF a] r b show "mm_ReadBlob bs off = Inr (b, off + length (blob_bytes b))"
    by (simp add: mm_ReadBlob_def unat_of_nat blob_bytes_def)
qed

interpretation mm_strings: cursor_codec mm_ReadString AppendString string_bytes "\<lambda>s. length s < 2 ^ 32"
  by unfold_locales (rule mm_reads_string, simp add: appends_def AppendString_eq)

interpretation mm_blobs: cursor_codec mm_ReadBlob AppendBlob blob_bytes "\<lambda>b. length b < 2 ^ 64"
  by unfold_locales (rule mm_reads_blob, simp add: appends_def AppendBlob_eq)

lemma mm_reads_string_list: "reads mm_ReadStringList (run_bytes string_bytes) strings_fit"
  unfolding reads_def mm_ReadStringList_def strings_fit_def by (intro allI impI) (blast intro: mm_strings.counted_run)

interpretation mm_string_lists: cursor_codec mm_ReadStringList AppendStringList "run_bytes string_bytes" strings_fit
  by unfold_locales (rule mm_reads_string_list, simp add: appends_def AppendStringList_eq)

lemma mm_reads_payload: "reads ReadPayload row_payload_bytes storable_payload"
  unfolding reads_def
proof (intro allI impI)
  fix bs off p rest assume p: "storable_payload p" and off: "off \<le> length bs" and d0: "drop off bs = row_payload_bytes p @ rest"
  let ?ss = "run_bytes string_bytes"
  have d1: "drop off bs = blob_bytes (op_arena p) @ ?ss (op_string_dictionary p) @ run_bytes blob_bytes (op_scalar_list_dictionary p)
      @ run_bytes ?ss (op_string_list_dictionary p) @ ?ss (op_string_element_dictionary p) @ rest"
    using d0 by (simp add: row_payload_bytes_def)
  note a1 = drop_behind [OF off d1]
  note a2 = drop_behind [OF a1]
  note a3 = drop_behind [OF a2]
  note a4 = drop_behind [OF a3]
  have P: "length (op_arena p) < 2 ^ 64" "strings_fit (op_string_dictionary p)" "length (op_scalar_list_dictionary p) < 2 ^ 32"
    "\<forall>b \<in> set (op_scalar_list_dictionary p). length b < 2 ^ 64" "length (op_string_list_dictionary p) < 2 ^ 32"
    "\<forall>ss \<in> set (op_string_list_dictionary p). strings_fit ss" "strings_fit (op_string_element_dictionary p)"
    using p by (simp_all add: storable_payload_def)
  note r1 = readsD [OF mm_reads_blob P(1) off d1]
  note r2 = readsD [OF mm_reads_string_list P(2) a1]
  note r3 = mm_blobs.counted_run [OF P(4,3) a2]
  note r4 = mm_string_lists.counted_run [OF P(6,5) a3]
  note r5 = readsD [OF mm_reads_string_list P(7) a4]
  have split: "rbind (ReadNext bs o1) (\<lambda>(c :: u32, o2). rbind (ReadRun f (unat c) bs o2) g)
      = rbind (rbind (ReadNext bs o1) (\<lambda>(c :: u32, o2). ReadRun f (unat c) bs o2)) g"
    for f :: "byte list \<Rightarrow> nat \<Rightarrow> ('z \<times> nat) res" and g :: "'z list \<times> nat \<Rightarrow> 'y res" and o1
    by (cases "ReadNext bs o1 :: (u32 \<times> nat) res") auto
  show "ReadPayload bs off = Inr (p, off + length (row_payload_bytes p))"
    unfolding ReadPayload_def split r1 r2 r3 r4 r5 rbind_Inr prod.case by (simp add: row_payload_bytes_def add.assoc)
qed

lemma ReadPayloadFrom_at:
  assumes "\<forall>p \<in> set ps. storable_payload p" and "off \<le> length bs" and "drop off bs = concat (map row_payload_bytes ps) @ rest"
    and "i < length ps"
  shows "ReadPayloadFrom (length ps) bs off i = Inr (ps ! i)"
  using assms
proof (induction ps arbitrary: off i)
  case (Cons p ps)
  have d: "drop off bs = row_payload_bytes p @ concat (map row_payload_bytes ps) @ rest" using Cons.prems(3) by simp
  have r: "ReadPayload bs off = Inr (p, off + length (row_payload_bytes p))"
    using Cons.prems(1) by (intro readsD [OF mm_reads_payload _ Cons.prems(2) d]) simp
  show ?case
  proof (cases i)
    case (Suc j)
    then show ?thesis using r Cons.IH [OF _ drop_behind [OF Cons.prems(2) d], of j] Cons.prems(1,4) by simp
  qed (simp add: r)
qed simp

lemma payload_count:
  "ReadNext (payload_section_bytes ps) 0 = Inr (of_nat (length ps) :: u64, 8)"
  using readsD [OF reads_u64, where off = 0 and bs = "payload_section_bytes ps"] by (simp add: payload_section_bytes_def)

lemma ReadPayloadAt_written:
  assumes "\<forall>p \<in> set ps. storable_payload p" and "length ps < 2 ^ 64" and "i < length ps"
  shows "ReadPayloadAt (payload_section_bytes ps) (of_nat i) = Inr (ps ! i)"
proof -
  have u: "unat (of_nat (length ps) :: u64) = length ps" "unat (of_nat i :: u64) = i" using assms by (simp_all add: unat_of_nat)
  then have "\<not> of_nat i \<ge> (of_nat (length ps) :: u64)" using assms by (simp add: word_le_nat_alt)
  moreover have "ReadPayloadFrom (length ps) (payload_section_bytes ps) 8 i = Inr (ps ! i)"
    using assms(3) by (intro ReadPayloadFrom_at [OF assms(1), where rest = "[]"]) (simp_all add: payload_section_bytes_def)
  ultimately show ?thesis unfolding ReadPayloadAt_def payload_count rbind_Inr by (simp add: u)
qed

lemma ValidatePayloadRowCount_written:
  assumes "\<forall>p \<in> set ps. storable_payload p" and "length ps < 2 ^ 64"
  shows "ValidatePayloadRowCount (payload_section_bytes ps) (of_nat (length ps)) = Inr ()"
proof -
  have r: "ReadLittleEndian (payload_section_bytes ps) 0 = Inr (of_nat (length ps) :: u64)"
    using payload_count [of ps] by (auto simp: ReadNext_def rbind_eq_Inr)
  have u: "unat (of_nat (length ps) :: u64) = length ps" using assms by (simp add: unat_of_nat)
  show ?thesis
  proof (cases ps)
    case (Cons p qs)
    have "of_nat (length ps) - 1 = (of_nat (length ps - 1) :: u64)" using Cons by simp
    moreover have "ReadPayloadAt (payload_section_bytes ps) (of_nat (length ps - 1)) = Inr (ps ! (length ps - 1))"
      using ReadPayloadAt_written [OF assms, of "length ps - 1"] Cons by simp
    moreover have "(of_nat (length ps) :: u64) \<noteq> 0" using u Cons by (metis length_0_conv list.distinct(1) unat_0)
    ultimately show ?thesis unfolding ValidatePayloadRowCount_def r rbind_Inr by (simp only:) simp
  next
    case Nil
    then show ?thesis using r by (simp add: ValidatePayloadRowCount_def payload_section_bytes_def)
  qed
qed

section \<open>The mapped backing refines the owned one\<close>

lemma owned_contains_sizes:
  assumes "owned_contains L rows ob"
  shows "ob_layout ob = Some L" and "0 < cl_row_slot_size L" and "length (ob_row_payloads ob) = length rows"
    and "length (ob_row_slot_bytes ob) = length rows * cl_row_slot_size L" and "length (ob_row_slot_bytes ob) < 2 ^ 64"
  using assms by (auto simp: owned_contains_def owned_holds_def length_slot_list)

lemma row_count_small: "owned_contains L rows ob \<Longrightarrow> length rows < 2 ^ 64"
proof (rule le_less_trans)
  assume c: "owned_contains L rows ob"
  show "length rows \<le> length (ob_row_slot_bytes ob)"
    using mult_le_mono2 [of 1 "cl_row_slot_size L" "length rows"] owned_contains_sizes(2,4) [OF c] by simp
qed (rule owned_contains_sizes(5))

lemma mm_EncodedRowAt_iff:
  assumes c: "owned_contains L rows ob" and m: "maps_owned L ob b"
  shows "mm_EncodedRowAt b off = Inr r \<longleftrightarrow> owned_EncodedRowAt ob off = Inr r"
proof -
  let ?n = "cl_row_slot_size L" and ?i = "unat off div cl_row_slot_size L"
  note z = owned_contains_sizes [OF c]
  have pay: "ReadPayloadAt (mb_row_payload_bytes b) (of_nat ?i) = Inr (ob_row_payloads ob ! ?i)" if "?i < length rows"
    using ReadPayloadAt_written [of "ob_row_payloads ob" ?i] that m z(3) row_count_small [OF c] by (simp add: maps_owned_def)
  have lt: "?i < length rows" if "unat off + ?n \<le> length rows * ?n"
  proof -
    have "unat off < length rows * ?n" using that z(2) by simp
    then show ?thesis using z(2) by (simp add: div_less_iff_less_mult)
  qed
  show ?thesis
  proof (cases "unat off + ?n \<le> length rows * ?n")
    case True
    with pay [OF lt [OF True]] lt [OF True] m z show ?thesis
      by (simp add: mm_EncodedRowAt_def owned_EncodedRowAt_def maps_owned_def Let_def)
  next
    case False
    with m z show ?thesis by (auto simp: mm_EncodedRowAt_def owned_EncodedRowAt_def maps_owned_def Let_def)
  qed
qed

interpretation mm: readable_backing mmap_backing mmap_contains
proof
  fix L rows b assume "mmap_contains L rows b"
  then obtain ob where c: "owned_contains L rows ob" and m: "maps_owned L ob b" by (auto simp: mmap_contains_def)
  show "sb_layout (mmap_backing b) = Some L" using m by (simp add: mmap_backing_def maps_owned_def)
  show "distinct (map fst rows)" using own.keys [OF c] .
  show "\<forall>(k, e) \<in> set rows. row_for L e \<and> stored_row L e = e" using own.fits [OF c] .
  show "\<exists>v es. Validate (sb_frozen_index_bytes (mmap_backing b)) = Inr v \<and> index_lists v es (fst ` set rows)
      \<and> (\<forall>e \<in> set es. \<exists>row. (fe_primary_key e, row) \<in> set rows \<and> sb_EncodedRowAt (mmap_backing b) (fe_row_offset e) = Inr row)"
    using own.index [OF c] m by (simp add: mmap_backing_def owned_backing_def maps_owned_def mm_EncodedRowAt_iff [OF c m])
qed

lemma mmap_contains_full:
  "mmap_contains L rows b \<Longrightarrow> fsv_Get (NewFullSnapshotView (Some (mmap_backing b))) k = snapshot_answer L (map_of rows) k"
  by (simp add: fsv_Get_def NewFullSnapshotView_def mm.view_Get)


section \<open>Prewarming\<close>

text \<open>The pages that are touched: one for every page that begins in the section.\<close>

declare TouchPages.simps [simp del]

lemma TouchPages_eq:
  assumes "0 < step" and "step dvd offset"
  shows "TouchPages step len offset touched = touched + ((len + step - 1) div step - offset div step)"
  using assms
proof (induction step len offset touched rule: TouchPages.induct)
  case (1 step len offset touched)
  obtain k where k: "offset = step * k" using 1(3) by (elim dvdE)
  show ?case
  proof (cases "offset < len")
    case True
    then have "step * (k + 1) \<le> len + step - 1" using k by simp
    from div_le_mono [OF this, of step] have "offset div step < (len + step - 1) div step" using 1(2) k by simp
    moreover have "TouchPages step len (offset + step) (touched + 1) = touched + 1 + ((len + step - 1) div step - (offset + step) div step)"
      using 1 True by simp
    moreover have "TouchPages step len offset touched = TouchPages step len (offset + step) (touched + 1)"
      using True 1(2) by (subst TouchPages.simps) simp
    ultimately show ?thesis using 1(2) by (simp add: k)
  next
    case False
    then have "len + step - 1 \<le> step * k + (step - 1)" using k by simp
    moreover have "(step * k + (step - 1)) div step = k" using 1(2) by (intro div_nat_eqI) auto
    ultimately have "(len + step - 1) div step \<le> offset div step" using div_le_mono 1(2) k by (metis nonzero_mult_div_cancel_left less_numeral_extra(3))
    then show ?thesis using False by (simp add: TouchPages.simps [of step len offset])
  qed
qed

text \<open>
  Warming up a loaded shard touches every page of its seven sections once, whatever the page size of the
  system is, and marks the backing as warm; it changes nothing that a reader sees.
\<close>

lemma prewarm_touches_every_page:
  "\<exists>b'. Prewarm ho b = (Inr (), b') \<and> mb_prewarmed b' \<and> mmap_backing b' = mmap_backing b
     \<and> mb_prewarm_touched_pages b' = (\<Sum>s \<leftarrow> mb_prewarm_sections b.
         let page = (if ho_page_size ho > 0 then nat (ho_page_size ho) else 4096) in (length s + page - 1) div page)"
proof -
  let ?page = "if ho_page_size ho > 0 then nat (ho_page_size ho) else 4096"
  have one: "TouchSectionPages ho s n = n + (length s + ?page - 1) div ?page" for s n
    using TouchPages_eq [of ?page 0 "length s" n] by (simp add: TouchSectionPages_def)
  have "fold (TouchSectionPages ho) ss n = n + (\<Sum>s \<leftarrow> ss. (length s + ?page - 1) div ?page)" for ss n
    by (induction ss arbitrary: n) (simp_all add: one)
  moreover have "mm_EncodedRowAt (b\<lparr>mb_prewarm_touched_pages := n, mb_prewarmed := w\<rparr>) off = mm_EncodedRowAt b off" for n w off
    by (cases "pa_layout (mb_artifact b)") (simp_all add: mm_EncodedRowAt_def Let_def)
  then have "mm_EncodedRowAt (b\<lparr>mb_prewarm_touched_pages := n, mb_prewarmed := w\<rparr>) = mm_EncodedRowAt b" for n w by blast
  ultimately show ?thesis by (simp add: Prewarm_def Let_def mmap_backing_def)
qed

end
