(* ===== verification/Artifact_Roundtrip.thy ===== *)
theory Artifact_Roundtrip
  imports Mmap_Backing
begin

text \<open>
  The artifact writer, the parser and the mapped backing together: what a load accepts is sound, what was written
  is loaded again, and two limits of the format: it keeps no defaults, and with an empty shard the outcome of
  a load depends on the order in which \<open>std::sort\<close> leaves sections of equal offset.
\<close>

section \<open>Specifications\<close>

text \<open>A sort that leaves the directory of these parts in the order of the file.\<close>

definition keeps_directory :: "(ArtifactSection list \<Rightarrow> ArtifactSection list) \<Rightarrow> part list \<Rightarrow> bool" where
  "keeps_directory std_sort parts \<longleftrightarrow> std_sort (place (128 + 64 * length parts) parts) = place (128 + 64 * length parts) parts"

definition mmap_options_match :: "MmapSnapshotLoadOptions \<Rightarrow> ArtifactBuildSpec \<Rightarrow> bool" where
  "mmap_options_match options spec \<longleftrightarrow> ml_expected_hash_seed options = ab_hash_seed spec
     \<and> ml_expected_shard_count options \<in> {0, ab_shard_count spec} \<and> ml_expected_hash_version options \<in> {0, ab_hash_version spec}
     \<and> (ab_include_source_progress_section spec \<or> ml_source_progress_policy options = kOptional)"

definition spec_progress :: "ArtifactBuildSpec \<Rightarrow> ArtifactSourceProgress list" where
  "spec_progress spec = (if ab_include_source_progress_section spec then map progress_of (ab_source_progress spec) else [])"

text \<open>
  What the code relies on when it reads a file that it has written: the file is a regular one and is mapped
  with the written bytes. Sizes are of type \<open>off_t\<close>.
\<close>

definition keeps_files :: "'fs host \<Rightarrow> bool" where
  "keeps_files ho \<longleftrightarrow>
     (\<forall>path fs fs1 bytes fs2. ho_open_output ho path fs = (True, fs1) \<longrightarrow> ho_write_output ho path bytes fs1 = (True, fs2) \<longrightarrow>
        ho_stat ho fs2 path = Inr RegularFile
        \<and> (\<exists>fd. ho_open ho fs2 path = Inr fd \<and> ho_fstat ho fs2 fd = Inr (int (length bytes))
             \<and> ho_mmap ho fs2 fd (length bytes) = Inr bytes))
     \<and> (\<forall>fs fd n. ho_fstat ho fs fd = Inr n \<longrightarrow> n < 2 ^ 63)"

text \<open>The rows of a shard, as they are stored.\<close>

definition spec_rows :: "CompiledRowLayout \<Rightarrow> ArtifactShardBuildSpec \<Rightarrow> (u64 \<times> EncodedRow) list" where
  "spec_rows L shard = map (\<lambda>row. (ar_primary_key row, stored_row L (ar_encoded row))) (bs_rows shard)"

text \<open>A shard that can be stored: rows of the layout under distinct keys, with sizes that the format can express.\<close>

definition shard_spec_ok :: "CompiledRowLayout \<Rightarrow> ArtifactShardBuildSpec \<Rightarrow> bool" where
  "shard_spec_ok L shard \<longleftrightarrow> distinct (map ar_primary_key (bs_rows shard))
     \<and> (\<forall>row \<in> set (bs_rows shard). row_for L (ar_encoded row) \<and> storable_payload (payload_of (ar_encoded row)))
     \<and> length (bs_rows shard) \<le> 2 ^ 58 \<and> length (bs_rows shard) * cl_row_slot_size L < 2 ^ 64"

definition artifact_spec_ok :: "CompiledRowLayout \<Rightarrow> ArtifactBuildSpec \<Rightarrow> bool" where
  "artifact_spec_ok L spec \<longleftrightarrow>
     ab_layout spec = Some L \<and> storable_layout L \<and> 0 < cl_row_slot_size L \<and> length (ab_artifact_id spec) \<le> 60
     \<and> (ab_include_source_progress_section spec \<longrightarrow> storable_progress (ab_source_progress spec))
     \<and> length (ab_shards spec) = unat (ab_shard_count spec)
     \<and> ab_shards spec \<noteq> [] \<and> length (ab_shards spec) < 2 ^ 22 \<and> distinct (map bs_shard_id (ab_shards spec))
     \<and> (\<forall>shard \<in> set (ab_shards spec). bs_shard_id shard < ab_shard_count spec \<and> shard_spec_ok L shard)"

text \<open>A mapping has the requested size, and sizes of files are of type \<open>off_t\<close>.\<close>

definition maps_files :: "'fs host \<Rightarrow> bool" where
  "maps_files ho \<longleftrightarrow> (\<forall>fs fd n bytes. ho_mmap ho fs fd n = Inr bytes \<longrightarrow> length bytes = n)
     \<and> (\<forall>fs fd n. ho_fstat ho fs fd = Inr n \<longrightarrow> n < 2 ^ 63)"

text \<open>
  A file system in memory, for the examples: the files that were written, the newest first. A descriptor is a
  position in this list, and files of \<open>2 ^ 63\<close> bytes or more cannot be written.
\<close>

definition memory_host :: "(string \<times> byte list) list host" where
  "memory_host =
     \<lparr>ho_open_output = (\<lambda>path fs. (True, fs)),
      ho_write_output = (\<lambda>path bytes fs. if length bytes < 2 ^ 63 then (True, (path, bytes) # fs) else (False, fs)),
      ho_stat = (\<lambda>fs path. if path \<in> fst ` set fs then Inr RegularFile else Inl ENOENT),
      ho_open = (\<lambda>fs path. if path \<in> fst ` set fs then Inr (int (length (takeWhile (\<lambda>f. fst f \<noteq> path) fs))) else Inl ENOENT),
      ho_fstat = (\<lambda>fs fd. if 0 \<le> fd \<and> nat fd < length fs \<and> length (snd (fs ! nat fd)) < 2 ^ 63
                          then Inr (int (length (snd (fs ! nat fd)))) else Inl 9),
      ho_mmap = (\<lambda>fs fd n. if 0 \<le> fd \<and> nat fd < length fs \<and> n \<le> length (snd (fs ! nat fd))
                           then Inr (take n (snd (fs ! nat fd))) else Inl 22),
      ho_strerror = (\<lambda>errno. ''''), ho_page_size = 4096\<rparr>"

text \<open>A schema whose fields are all nullable, so that an empty row of it can be read.\<close>

definition note_schema :: RuntimeSchema where
  "note_schema = \<lparr>rs_version = 1, rs_active_fields =
     [demo_field 2 kString False kArena, demo_field 3 kInt32 True kArena], rs_deleted_fields = []\<rparr>"

definition demo_shard_spec :: "CompiledRowLayout \<Rightarrow> u64 list \<Rightarrow> ArtifactShardBuildSpec" where
  "demo_shard_spec L keys = \<lparr>bs_shard_id = 0, bs_rows = map (\<lambda>k. \<lparr>ar_primary_key = k, ar_encoded = CreateEncodedRow L\<rparr>) keys\<rparr>"

definition demo_artifact :: "CompiledRowLayout \<Rightarrow> u64 list \<Rightarrow> ArtifactBuildSpec" where
  "demo_artifact L keys =
     \<lparr>ab_artifact_id = ''a1'', ab_shard_count = 1, ab_hash_seed = 3, ab_hash_version = 1, ab_layout = Some L,
      ab_include_source_progress_section = True,
      ab_source_progress = [\<lparr>bp_topic = ''t'', bp_partition = 0, bp_checkpoint_next_offset = 4, bp_high_watermark = 9\<rparr>],
      ab_shards = [demo_shard_spec L keys]\<rparr>"

definition demo_load_options :: MmapSnapshotLoadOptions where
  "demo_load_options = \<lparr>ml_expected_shard_count = 1, ml_expected_hash_seed = 3, ml_expected_hash_version = 1,
     ml_source_progress_policy = kRequired\<rparr>"

section \<open>Loading a written file\<close>

lemma artifact_file_sections:
  assumes fid: "length (ab_artifact_id spec) \<le> 60" and ok: "parts_ok (ab_shard_count spec) parts" and p: "(t, i, p) \<in> set parts"
  shows "SectionBytes (parsed_file spec L parts progress) t i = Inr p"
proof -
  let ?b = "128 + 64 * length parts"
  let ?pre = "artifact_header_bytes spec L (length parts) @ concat (map directory_entry_bytes (place ?b parts))"
  have "length (concat (map directory_entry_bytes secs)) = 64 * length secs" for secs by (induction secs) auto
  then have pre: "length ?pre = ?b" using fid by simp
  have "length ?pre + length (part_bytes parts) < 2 ^ 64" unfolding pre using ok by (simp add: parts_ok_def)
  moreover have "distinct (part_keys parts)" using ok by (simp add: parts_ok_def)
  ultimately obtain s where "FindSection (place ?b parts) t i = Some s" "section_bytes (?pre @ part_bytes parts) s = p"
    using FindSection_place(1) [OF _ _ p, of ?pre] unfolding pre by blast
  then show ?thesis by (simp add: SectionBytes_def parsed_file_def artifact_file_def)
qed

lemma shard_parts_mem:
  assumes "i < length shards" and "length shards = length backings" and "part \<in> set (shard_parts (bs_shard_id (shards ! i)) (backings ! i))"
  shows "part \<in> set (artifact_parts spec L shards backings)"
proof -
  have "(shards ! i, backings ! i) \<in> set (zip shards backings)" using assms(1,2) by (metis length_zip min.idem nth_mem nth_zip)
  with assms(3) show ?thesis by (force simp: artifact_parts_def)
qed

lemma artifact_parts_progress:
  assumes "writable spec L shards backings" and "ab_include_source_progress_section spec \<or> policy = kOptional"
  defines "ps \<equiv> if ab_include_source_progress_section spec then ab_source_progress spec else []"
  shows "(kSourceProgress, kArtifactGlobalShardId, progress_bytes ps) \<in> set (artifact_parts spec L shards backings) \<and> storable_progress ps
      \<or> (kSourceProgress, kArtifactGlobalShardId) \<notin> set (part_keys (artifact_parts spec L shards backings)) \<and> policy = kOptional \<and> ps = []"
proof -
  have len: "length shards = length backings" and d: "distinct (map bs_shard_id shards)"
    using assms(1) by (auto simp: writable_def dest: list_all2_lengthD)
  have "(kSourceProgress, kArtifactGlobalShardId) \<notin> set (part_keys (artifact_parts spec L shards backings))"
    if "\<not> ab_include_source_progress_section spec"
    using shard_keys_distinct [OF len d] that by (auto simp: artifact_parts_def shard_section_types_def)
  then show ?thesis using assms(1,2) by (auto simp: ps_def artifact_parts_def writable_def)
qed

lemma ParseArtifact_written:
  assumes w: "writable spec L shards backings" and sz: "length (artifact_file spec L (artifact_parts spec L shards backings)) < 2 ^ 64"
    and opt: "options_match options spec" and pol: "ab_include_source_progress_section spec \<or> vo_source_progress_policy options = kOptional"
  shows "ParseArtifact std_sort (artifact_file spec L (artifact_parts spec L shards backings)) options
      = rbind (CheckOverlap (std_sort (place (128 + 64 * length (artifact_parts spec L shards backings)) (artifact_parts spec L shards backings)))
                (of_nat (128 + 64 * length (artifact_parts spec L shards backings))))
          (\<lambda>_. Inr (parsed_file spec L (artifact_parts spec L shards backings) (spec_progress spec)))"
    and "keeps_directory std_sort (artifact_parts spec L shards backings) \<Longrightarrow>
      ParseArtifact std_sort (artifact_file spec L (artifact_parts spec L shards backings)) options
      = Inr (parsed_file spec L (artifact_parts spec L shards backings) (spec_progress spec))"
proof -
  have fid: "length (ab_artifact_id spec) \<le> 60" and L: "storable_layout L" using w by (auto simp: writable_def)
  have sm: "(kSchemaMetadata, kArtifactGlobalShardId, schema_bytes L) \<in> set (artifact_parts spec L shards backings)"
    by (simp add: artifact_parts_def)
  have sp: "spec_progress spec = map progress_of (if ab_include_source_progress_section spec then ab_source_progress spec else [])"
    by (simp add: spec_progress_def)
  note ok = artifact_parts_ok [OF w sz] and pr = artifact_parts_progress [OF w pol]
  show "ParseArtifact std_sort (artifact_file spec L (artifact_parts spec L shards backings)) options
      = rbind (CheckOverlap (std_sort (place (128 + 64 * length (artifact_parts spec L shards backings)) (artifact_parts spec L shards backings)))
                (of_nat (128 + 64 * length (artifact_parts spec L shards backings))))
          (\<lambda>_. Inr (parsed_file spec L (artifact_parts spec L shards backings) (spec_progress spec)))"
    unfolding sp by (rule ParseArtifact_overlap [OF fid ok opt L sm pr])
  show "ParseArtifact std_sort (artifact_file spec L (artifact_parts spec L shards backings)) options
      = Inr (parsed_file spec L (artifact_parts spec L shards backings) (spec_progress spec))"
    if "keeps_directory std_sort (artifact_parts spec L shards backings)"
    unfolding sp by (rule ParseArtifact_file [where std_sort = std_sort, OF fid ok that [unfolded keeps_directory_def] opt L sm pr])
qed

lemma LoadMapped_written:
  assumes w: "writable spec L shards backings" and sz: "length (artifact_file spec L (artifact_parts spec L shards backings)) < 2 ^ 64"
    and srt: "keeps_directory std_sort (artifact_parts spec L shards backings)"
    and opt: "mmap_options_match options spec" and i: "i < length shards" and c: "owned_contains L rows (backings ! i)"
  shows "\<exists>mb. LoadMapped std_sort (artifact_file spec L (artifact_parts spec L shards backings)) (bs_shard_id (shards ! i)) options = Inr mb
    \<and> maps_owned L (backings ! i) mb \<and> mb_artifact mb = parsed_file spec L (artifact_parts spec L shards backings) (spec_progress spec)
    \<and> mb_shard_id mb = bs_shard_id (shards ! i)"
proof -
  let ?parts = "artifact_parts spec L shards backings" and ?ob = "backings ! i" and ?id = "bs_shard_id (shards ! i)"
  let ?pf = "parsed_file spec L ?parts (spec_progress spec)"
  have fid: "length (ab_artifact_id spec) \<le> 60" and id: "?id < ab_shard_count spec" and len: "length shards = length backings"
    and sp: "\<forall>p \<in> set (ob_row_payloads ?ob). storable_payload p"
    using w i by (auto simp: writable_def list_all2_conv_all_nth)
  note z = owned_contains_sizes [OF c]
  have parse: "ParseArtifact std_sort (artifact_file spec L ?parts)
      \<lparr>vo_expected_shard_count = ml_expected_shard_count options, vo_expected_hash_seed = ml_expected_hash_seed options,
       vo_expected_hash_version = ml_expected_hash_version options, vo_source_progress_policy = ml_source_progress_policy options\<rparr> = Inr ?pf"
    using opt by (intro ParseArtifact_written(2) [OF w sz _ _ srt]) (auto simp: options_match_def mmap_options_match_def)
  have sec: "SectionBytes ?pf t ?id = Inr p" if "(t, ?id, p) \<in> set (shard_parts ?id ?ob)" for t p
    by (rule artifact_file_sections [OF fid artifact_parts_ok [OF w sz] shard_parts_mem [OF i len that]])
  have secs: "SectionBytes ?pf kFrozenPrimaryKeyIndex ?id = Inr (ob_frozen_index_bytes ?ob)"
    "SectionBytes ?pf kRowSlots ?id = Inr (ob_row_slot_bytes ?ob)"
    "SectionBytes ?pf kRowArena ?id = Inr (payload_section_bytes (ob_row_payloads ?ob))"
    "SectionBytes ?pf kStringPools ?id = Inr [0]" "SectionBytes ?pf kScalarListPools ?id = Inr [0]"
    "SectionBytes ?pf kStringListPools ?id = Inr [0]" "SectionBytes ?pf kStringElementPools ?id = Inr [0]"
    by (simp_all add: sec shard_parts_def)
  have cnt: "ValidatePayloadRowCount (payload_section_bytes (ob_row_payloads ?ob)) (of_nat (length rows)) = Inr ()"
    using ValidatePayloadRowCount_written [OF sp] z(3) row_count_small [OF c] by simp
  have pf: "pa_layout ?pf = Some L" "pa_shard_count ?pf = ab_shard_count spec" by (simp_all add: parsed_file_def)
  have "length (ob_row_slot_bytes ?ob) div cl_row_slot_size L = length rows" "length (ob_row_slot_bytes ?ob) mod cl_row_slot_size L = 0"
    using z(2,4) by simp_all
  then show ?thesis
    using id z(2) sp unfolding LoadMapped_def parse rbind_Inr secs
    by (simp add: pf secs cnt maps_owned_def NewMmapSnapshotBacking_def Let_def not_le)
qed

section \<open>Written artifacts are read\<close>

lemma BuildShardSnapshot_ok:
  assumes L: "ab_layout spec = Some L" "0 < cl_row_slot_size L" and s: "shard_spec_ok L shard"
  obtains ob where "BuildShardSnapshot spec shard = Inr ob" "owned_contains L (spec_rows L shard) ob"
    "\<forall>p \<in> set (ob_row_payloads ob). storable_payload p"
proof -
  let ?rows = "map (\<lambda>row. (ar_primary_key row, ar_encoded row)) (bs_rows shard)"
  have "distinct (map fst ?rows) \<and> list_all (row_for L \<circ> snd) ?rows"
    using s by (simp add: shard_spec_ok_def comp_def list_all_iff)
  then obtain b where b: "AddRows ?rows (NewSnapshotBuilder (Some L) (ab_hash_seed spec) (ab_hash_version spec)) = Inr b"
    unfolding AddRows_accepts [of ?rows L "ab_hash_seed spec" "ab_hash_version spec", symmetric] by (elim exE)
  obtain ob where ob: "fst (Seal b) = Inr ob" "owned_contains L (map (\<lambda>(k, e). (k, stored_row L e)) ?rows) ob"
    by (rule AddRows_seal [OF b L(2)]) (use s in \<open>simp_all add: shard_spec_ok_def\<close>)
  have "ob_row_payloads ob = map (payload_of \<circ> snd) ?rows"
    using AddRows_holds [OF NewSnapshotBuilder_holds b] ob(1) by (auto simp: builder_holds_def Seal_def split: sum.splits)
  then have "\<forall>p \<in> set (ob_row_payloads ob). storable_payload p" using s by (auto simp: shard_spec_ok_def)
  with that ob b L(1) show thesis by (simp add: BuildShardSnapshot_def spec_rows_def comp_def)
qed

lemma writable_shards:
  assumes ok: "artifact_spec_ok L spec" and sub: "shards \<noteq> []" "set shards \<subseteq> set (ab_shards spec)" "distinct shards" "length shards < 2 ^ 22"
  obtains backings where "writable spec L shards backings" "list_all2 (\<lambda>shard ob. owned_contains L (spec_rows L shard) ob) shards backings"
proof -
  have L: "ab_layout spec = Some L" "0 < cl_row_slot_size L" and s: "\<forall>shard \<in> set shards. shard_spec_ok L shard"
    using ok sub(2) by (auto simp: artifact_spec_ok_def)
  define f where "f shard = (SOME ob. BuildShardSnapshot spec shard = Inr ob \<and> owned_contains L (spec_rows L shard) ob
    \<and> (\<forall>p \<in> set (ob_row_payloads ob). storable_payload p))" for shard
  have f: "BuildShardSnapshot spec shard = Inr (f shard) \<and> owned_contains L (spec_rows L shard) (f shard)
    \<and> (\<forall>p \<in> set (ob_row_payloads (f shard)). storable_payload p)" if "shard \<in> set shards" for shard
    unfolding f_def by (rule someI_ex) (use BuildShardSnapshot_ok [OF L, of shard] s that in blast)
  have "inj_on bs_shard_id (set (ab_shards spec))" using ok by (auto simp: artifact_spec_ok_def distinct_map)
  then have "inj_on bs_shard_id (set shards)" using sub(2) by (rule inj_on_subset)
  then have "distinct (map bs_shard_id shards)" using sub(3) by (simp add: distinct_map)
  moreover have "list_all2 (\<lambda>shard ob. BuildShardSnapshot spec shard = Inr ob \<and> (\<forall>p \<in> set (ob_row_payloads ob). storable_payload p)) shards (map f shards)"
    "list_all2 (\<lambda>shard ob. owned_contains L (spec_rows L shard) ob) shards (map f shards)"
    using f [OF nth_mem] by (auto simp add: list_all2_conv_all_nth)
  ultimately show thesis
    using ok sub by (intro that [of "map f shards"]) (auto simp: writable_def artifact_spec_ok_def)
qed

lemma LoadShard_kept:
  assumes ho: "keeps_files ho" and wr: "ho_open_output ho path fs = (True, fs1)" "ho_write_output ho path bytes fs1 = (True, fs2)"
    and ne: "bytes \<noteq> []"
  shows "ResolveLocalPath uri = Inr path \<Longrightarrow> LoadShard ho std_sort fs2 uri shard_id options = LoadMapped std_sort bytes shard_id options"
    and "length bytes < 2 ^ 63"
proof -
  obtain fd where fd: "ho_stat ho fs2 path = Inr RegularFile" "ho_open ho fs2 path = Inr fd"
    "ho_fstat ho fs2 fd = Inr (int (length bytes))" "ho_mmap ho fs2 fd (length bytes) = Inr bytes"
    using ho wr unfolding keeps_files_def by blast
  have "int (length bytes) < 2 ^ 63" using ho fd(3) unfolding keeps_files_def by blast
  then show "length bytes < 2 ^ 63" by simp
  show "LoadShard ho std_sort fs2 uri shard_id options = LoadMapped std_sort bytes shard_id options" if "ResolveLocalPath uri = Inr path"
    using fd ne that by (simp add: LoadShard_def ResolveArtifactFilePath_def MapFile_def)
qed

lemma le_bytes_nonempty: "le_bytes (v :: u64) \<noteq> []" "le_bytes (w :: u32) \<noteq> []"
  by (simp_all flip: length_0_conv)

text \<open>No part of the file is empty when every shard has a row.\<close>

lemma frozen_index_nonempty: "owned_contains L rows ob \<Longrightarrow> ob_frozen_index_bytes ob \<noteq> []"
proof
  assume c: "owned_contains L rows ob" and e: "ob_frozen_index_bytes ob = []"
  obtain v where "Validate (ob_frozen_index_bytes ob) = Inr v" using own.index [OF c] by (auto simp: owned_backing_def)
  moreover have "Validate [] = Inl (InvalidArgument ''frozen primary-key index header is truncated'')"
    by (simp add: Validate_def ReadMetadata_def rbind_reject kSerializedHeaderSize_def)
  ultimately show False by (simp add: e)
qed

lemma keeps_directory_sorted:
  assumes w: "writable spec L shards backings" and sz: "length (artifact_file spec L (artifact_parts spec L shards backings)) < 2 ^ 64"
    and srt: "sorts_by_offset std_sort" and rows: "list_all2 (\<lambda>shard ob. owned_contains L (spec_rows L shard) ob) shards backings"
    and ne: "\<forall>shard \<in> set shards. bs_rows shard \<noteq> []"
  shows "keeps_directory std_sort (artifact_parts spec L shards backings)"
proof -
  let ?parts = "artifact_parts spec L shards backings"
  have one: "p \<noteq> []" if "owned_contains L (spec_rows L shard) ob" "bs_rows shard \<noteq> []" "(t, i, p) \<in> set (shard_parts j ob)" for shard ob t i p j
    using that owned_contains_sizes [OF that(1)] frozen_index_nonempty [OF that(1)]
    by (auto simp: shard_parts_def payload_section_bytes_def spec_rows_def le_bytes_nonempty)
  have "p \<noteq> []" if "(t, i, p) \<in> set ?parts" for t i p
  proof (cases "\<exists>shard ob. (shard, ob) \<in> set (zip shards backings) \<and> (t, i, p) \<in> set (shard_parts (bs_shard_id shard) ob)")
    case True
    then obtain shard ob where z: "(shard, ob) \<in> set (zip shards backings)" "(t, i, p) \<in> set (shard_parts (bs_shard_id shard) ob)" by blast
    have "owned_contains L (spec_rows L shard) ob" using rows z(1) by (auto simp: list_all2_iff)
    moreover have "bs_rows shard \<noteq> []" using ne z(1) by (meson set_zip_leftD)
    ultimately show ?thesis using one z(2) by blast
  next
    case False
    then show ?thesis using that by (auto simp: artifact_parts_def schema_bytes_def progress_bytes_def run_bytes_def le_bytes_nonempty split: if_splits)
  qed
  then have "\<forall>(t, i, p) \<in> set ?parts. p \<noteq> []" by blast
  then show ?thesis
    using artifact_parts_ok [OF w sz] unfolding keeps_directory_def by (intro sort_place [OF srt]) (simp_all add: parts_ok_def)
qed

lemma WriteArtifactWithShards_Inr:
  assumes "WriteArtifactWithShards ho path spec selected fs = (Inr (), fs')"
  obtains "file" fs1 where "BuildArtifactFile spec selected = Inr file" "ho_open_output ho path fs = (True, fs1)"
    "ho_write_output ho path file fs1 = (True, fs')"
  using assms by (auto simp: WriteArtifactWithShards_def split: sum.splits prod.splits bool.splits)

lemma written_shards_read:
  assumes ho: "keeps_files ho" and ok: "artifact_spec_ok L spec" and srt: "sorts_by_offset std_sort"
    and sub: "shards \<noteq> []" "set shards \<subseteq> set (ab_shards spec)" "distinct shards" "length shards < 2 ^ 22"
    and ne: "\<forall>shard \<in> set shards. bs_rows shard \<noteq> []"
    and wr: "WriteArtifactWithShards ho path spec (map Some shards) fs = (Inr (), fs')"
    and opt: "mmap_options_match options spec" and mem: "shard \<in> set shards"
  obtains "file" mb fs1 where "BuildArtifactFile spec (map Some shards) = Inr file"
    "ho_open_output ho path fs = (True, fs1)" "ho_write_output ho path file fs1 = (True, fs')" "file \<noteq> []"
    "LoadMapped std_sort file (bs_shard_id shard) options = Inr mb"
    "mmap_contains L (spec_rows L shard) mb" "mb_shard_id mb = bs_shard_id shard"
    "pa_artifact_id (mb_artifact mb) = ab_artifact_id spec" "pa_source_progress (mb_artifact mb) = spec_progress spec"
proof -
  obtain backings where w: "writable spec L shards backings"
    and rows: "list_all2 (\<lambda>shard ob. owned_contains L (spec_rows L shard) ob) shards backings"
    using writable_shards [OF ok sub] .
  let ?file = "artifact_file spec L (artifact_parts spec L shards backings)"
  obtain fs1 where fs1: "ho_open_output ho path fs = (True, fs1)" "ho_write_output ho path ?file fs1 = (True, fs')"
    using WriteArtifactWithShards_Inr [OF wr] BuildArtifactFile_eq [OF w] by auto
  have nf: "?file \<noteq> []" by (simp add: artifact_file_def artifact_header_bytes_def le_bytes_nonempty)
  have sz: "length ?file < 2 ^ 64" using LoadShard_kept(2) [OF ho fs1 nf] by simp
  from mem obtain i where i: "i < length shards" "shards ! i = shard" by (metis in_set_conv_nth)
  have c: "owned_contains L (spec_rows L shard) (backings ! i)" using rows i by (auto simp: list_all2_conv_all_nth)
  from LoadMapped_written [OF w sz keeps_directory_sorted [OF w sz srt rows ne] opt i(1) c]
  obtain mb where mb: "LoadMapped std_sort ?file (bs_shard_id shard) options = Inr mb" "maps_owned L (backings ! i) mb"
    "mb_artifact mb = parsed_file spec L (artifact_parts spec L shards backings) (spec_progress spec)"
    "mb_shard_id mb = bs_shard_id shard" unfolding i(2) by blast
  show thesis using that [OF BuildArtifactFile_eq [OF w] fs1 nf mb(1)] mb c by (auto simp: mmap_contains_def parsed_file_def)
qed

lemma WriteArtifact_LoadShard:
  assumes ho: "keeps_files ho" and ok: "artifact_spec_ok L spec" and srt: "sorts_by_offset std_sort"
    and ne: "\<forall>shard \<in> set (ab_shards spec). bs_rows shard \<noteq> []"
    and wr: "WriteArtifact ho path spec fs = (Inr (), fs')" and uri: "ResolveLocalPath uri = Inr path"
    and opt: "mmap_options_match options spec" and mem: "shard \<in> set (ab_shards spec)"
  shows "\<exists>mb. LoadShard ho std_sort fs' uri (bs_shard_id shard) options = Inr mb
    \<and> mmap_contains L (spec_rows L shard) mb
    \<and> pa_artifact_id (mb_artifact mb) = ab_artifact_id spec \<and> pa_source_progress (mb_artifact mb) = spec_progress spec"
proof -
  have wr': "WriteArtifactWithShards ho path spec (map Some (ab_shards spec)) fs = (Inr (), fs')"
    using wr by (simp add: WriteArtifact_def split: if_splits)
  have d: "distinct (ab_shards spec)" and n: "ab_shards spec \<noteq> []" "length (ab_shards spec) < 2 ^ 22"
    using ok by (auto simp: artifact_spec_ok_def distinct_map)
  obtain "file" mb fs1 where f: "ho_open_output ho path fs = (True, fs1)" "ho_write_output ho path file fs1 = (True, fs')" "file \<noteq> []"
    and mb: "LoadMapped std_sort file (bs_shard_id shard) options = Inr mb" "mmap_contains L (spec_rows L shard) mb"
      "pa_artifact_id (mb_artifact mb) = ab_artifact_id spec" "pa_source_progress (mb_artifact mb) = spec_progress spec"
    using written_shards_read [OF ho ok srt n(1) subset_refl d n(2) ne wr' opt mem] by blast
  from LoadShard_kept(1) [OF ho f uri] mb show ?thesis by auto
qed

text \<open>
  C12. An artifact that has been written for a specification is read back. For every shard, loading it
  from the written file succeeds, the full snapshot view over the mapped file answers each key with the row
  that was given for it and with absence for the other keys, and the artifact id and the source progress
  are those of the specification. The sort of the directory may be any that the standard allows. The
  layout of the specification has no default and a slot size that is not zero, every shard has a row, the values and sizes
  are ones that the format can express, the operating system gives back the written file, and the load options agree
  with the specification.
\<close>

theorem written_artifact_is_read:
  assumes ho: "keeps_files ho" and ok: "artifact_spec_ok L spec" and srt: "sorts_by_offset std_sort"
    and ne: "\<forall>shard \<in> set (ab_shards spec). bs_rows shard \<noteq> []"
    and wr: "WriteArtifact ho path spec fs = (Inr (), fs')" and uri: "ResolveLocalPath uri = Inr path"
    and opt: "mmap_options_match options spec" and mem: "shard \<in> set (ab_shards spec)"
  shows "\<exists>mb. LoadShard ho std_sort fs' uri (bs_shard_id shard) options = Inr mb
    \<and> (\<forall>k. fsv_Get (NewFullSnapshotView (Some (mmap_backing mb))) k = snapshot_answer L (map_of (spec_rows L shard)) k)
    \<and> pa_artifact_id (mb_artifact mb) = ab_artifact_id spec \<and> pa_source_progress (mb_artifact mb) = spec_progress spec"
  using WriteArtifact_LoadShard [OF assms] by (auto simp: mmap_contains_full)

section \<open>Examples\<close>

lemma memory_host_keeps: "keeps_files memory_host"
  by (auto simp: keeps_files_def memory_host_def split: if_splits)

lemma note_schema_ok: "schema_ok note_schema"
  by (simp add: schema_ok_def note_schema_def demo_field_def ValidateEncodingPolicy_def DefaultMatchesField_def)

lemma note_layout:
  obtains L where "Compile note_schema = Inr L"
  using Compile_succeeds [of note_schema] Compile_layout(1) [OF note_schema_ok] by blast

lemma note_layout_size:
  assumes "Compile note_schema = Inr L"
  shows "cl_row_slot_size L = 40"
  using assms
  by (auto simp: Compile_def note_schema_def demo_field_def MakeFieldLayout_def enumerate_eq_zip upt_rec Let_def
      IsRefField_def AlignUp_def kValueRef16Size_def)

lemma note_fields:
  assumes "Compile note_schema = Inr L"
  shows "length (cl_fields L) = 2"
    and "\<forall>f \<in> set (cl_fields L). fl_name f = ''f'' \<and> \<not> fl_HasDefault f \<and> \<not> is_kUnlistedType (fl_type f) \<and> fl_nullable f"
proof -
  note C = Compile_layout(2) [OF note_schema_ok assms]
  show "length (cl_fields L) = 2" using arg_cong [OF C, of length] by (simp add: note_schema_def demo_field_def)
  show "\<forall>f \<in> set (cl_fields L). fl_name f = ''f'' \<and> \<not> fl_HasDefault f \<and> \<not> is_kUnlistedType (fl_type f) \<and> fl_nullable f"
  proof
    fix f assume "f \<in> set (cl_fields L)"
    then have "unslot f \<in> set (map unslot (cl_fields L))" by simp
    then obtain i g where g: "unslot f = MakeFieldLayout i g" "g \<in> set (rs_active_fields note_schema)"
      unfolding C by (auto dest!: set_zip_rightD simp: enumerate_eq_zip)
    have "fl_name f = fl_name (unslot f)" "fl_type f = fl_type (unslot f)" "fl_default_value f = fl_default_value (unslot f)"
      "fl_nullable f = fl_nullable (unslot f)"
      by (simp_all add: unslot_def)
    then show "fl_name f = ''f'' \<and> \<not> fl_HasDefault f \<and> \<not> is_kUnlistedType (fl_type f) \<and> fl_nullable f"
      unfolding g(1) using g(2) by (auto simp: MakeFieldLayout_def note_schema_def demo_field_def fl_HasDefault_def)
  qed
qed

lemma demo_artifact_ok_with:
  assumes "Compile note_schema = Inr L" and "keys \<in> {[], [5, 9]}" and "storable_progress ps"
  shows "artifact_spec_ok L ((demo_artifact L keys)\<lparr>ab_source_progress := ps\<rparr>)"
proof -
  have "storable_layout L"
    using note_fields [OF assms(1)] note_schema_ok assms(1) by (auto simp: storable_layout_def storable_field_def)
  moreover have "shard_spec_ok L (demo_shard_spec L keys)"
    using note_layout_size [OF assms(1)] assms(2)
    by (auto simp: shard_spec_ok_def demo_shard_spec_def row_for_def CreateEncodedRow_def storable_payload_def payload_of_def strings_fit_def)
  ultimately show ?thesis using note_layout_size [OF assms(1)] assms(3)
    by (simp add: artifact_spec_ok_def demo_artifact_def) (simp add: demo_shard_spec_def)
qed

lemma demo_progress:
  "(demo_artifact L keys)\<lparr>ab_source_progress := ab_source_progress (demo_artifact L keys)\<rparr> = demo_artifact L keys"
  "storable_progress (ab_source_progress (demo_artifact L keys))" "length (progress_bytes (ab_source_progress (demo_artifact L keys))) < 2 ^ 20"
  by (simp_all add: demo_artifact_def storable_progress_def progress_ok_def progress_of_def progress_bytes_def run_bytes_def
      progress_entry_bytes_def string_bytes_def)

lemma demo_artifact_ok:
  assumes "Compile note_schema = Inr L" and "keys \<in> {[], [5, 9]}"
  shows "artifact_spec_ok L (demo_artifact L keys)"
  using demo_artifact_ok_with [OF assms demo_progress(2) [of L keys]] unfolding demo_progress(1) .

lemma built_index_length:
  assumes b: "BuildFrozenPrimaryKeyIndex es opts = Inr bs" and n: "length es < 2 ^ 64"
  obtains cap where "CalculateCapacity (of_nat (length es)) (bo_group_width opts) = Inr cap" "length bs = 96 + 17 * unat cap"
proof -
  from b obtain cap md where c: "CalculateCapacity (of_nat (length es)) (bo_group_width opts) = Inr cap"
    and d: "distinct (map fe_primary_key es)" and p: "PlanMetadata (length es) cap opts = Inr md"
    by (auto simp: BuildFrozenPrimaryKeyIndex_def)
  have "frozen_layout md (length bs)" using Build_Inr [OF c d p n] b by (auto simp: frozen_wf_def)
  moreover have "md_capacity md = cap" using p by (auto simp: PlanMetadata_def)
  ultimately show thesis using that c by (simp add: frozen_layout_def Let_def)
qed

lemma demo_index_length:
  assumes "owned_contains L rows ob" and "length rows \<in> {0, 2}"
  shows "length (ob_frozen_index_bytes ob) = 368"
proof -
  from assms obtain rows0 opts where b: "BuildFrozenPrimaryKeyIndex (entry_list L rows0) opts = Inr (ob_frozen_index_bytes ob)"
    and n: "length (entry_list L rows0) \<in> {0, 2}"
    by (auto simp: owned_contains_def owned_holds_def length_entry_list)
  obtain cap where cap: "CalculateCapacity (of_nat (length (entry_list L rows0))) (bo_group_width opts) = Inr cap"
    "length (ob_frozen_index_bytes ob) = 96 + 17 * unat cap"
    by (rule built_index_length [OF b]) (use n in auto)
  have w: "bo_group_width opts = 16" using cap(1) by (simp add: CalculateCapacity_def kDefaultGroupWidth_def split: if_splits)
  have "GrowCapacity n c m = Inr c" if "0 < n" "\<not> c < m" for n c m using that by (cases n) simp_all
  then have "cap = 16" using cap(1) n unfolding w by (auto simp: CalculateCapacity_def kDefaultGroupWidth_def)
  then show ?thesis using cap(2) by simp
qed

lemma demo_file_with:
  assumes L: "Compile note_schema = Inr L" and k: "keys \<in> {[], [5, 9]}"
    and ps: "storable_progress ps" "length (progress_bytes ps) < 2 ^ 20"
  defines "spec \<equiv> (demo_artifact L keys)\<lparr>ab_source_progress := ps\<rparr>"
  obtains ob where "writable spec L [demo_shard_spec L keys] [ob]"
    "owned_contains L (spec_rows L (demo_shard_spec L keys)) ob"
    "length (artifact_file spec L (artifact_parts spec L [demo_shard_spec L keys] [ob])) < 2 ^ 63"
proof -
  let ?s = "demo_shard_spec L keys"
  have sub: "[?s] \<noteq> []" "set [?s] \<subseteq> set (ab_shards spec)" "distinct [?s]" "length [?s] < 2 ^ 22" by (simp_all add: spec_def demo_artifact_def)
  obtain backings where w: "writable spec L [?s] backings"
    and l: "list_all2 (\<lambda>shard ob. owned_contains L (spec_rows L shard) ob) [?s] backings"
    using writable_shards [OF demo_artifact_ok_with [OF L k ps(1), folded spec_def] sub] .
  from l obtain ob where ob: "backings = [ob]" and c: "owned_contains L (spec_rows L ?s) ob" by (auto simp: list_all2_Cons1)
  have n: "length (spec_rows L ?s) = length keys" by (simp add: spec_rows_def demo_shard_spec_def)
  note z = owned_contains_sizes [OF c]
  have "ob_row_payloads ob = map (payload_of \<circ> snd) (spec_rows L ?s)"
    using c by (auto simp: owned_contains_def owned_holds_def stored_row_def payload_of_def)
  then have "length (payload_section_bytes (ob_row_payloads ob)) = 8 + 24 * length keys"
    using k by (auto simp: spec_rows_def demo_shard_spec_def payload_section_bytes_def row_payload_bytes_def blob_bytes_def run_bytes_def
        payload_of_def stored_row_def CreateEncodedRow_def)
  moreover have "length (schema_bytes L) = 38"
  proof -
    have "length (concat (map schema_field_bytes fs)) = 13 * length fs" if "\<forall>f \<in> set fs. fl_name f = ''f''" for fs
      using that by (induction fs) (simp_all add: schema_field_bytes_def string_bytes_def)
    then show ?thesis using note_fields [OF L] by (simp add: schema_bytes_def run_bytes_def)
  qed
  ultimately have "length (part_bytes (artifact_parts spec L [?s] backings))
      = 38 + length (progress_bytes ps) + 368 + 40 * length keys + 8 + 24 * length keys + 4"
    using demo_index_length [OF c] k z(4) n note_layout_size [OF L]
    by (simp add: artifact_parts_def ob shard_parts_def part_bytes_def spec_def) (auto simp: demo_artifact_def)
  moreover have "length (concat (map directory_entry_bytes secs)) = 64 * length secs" for secs by (induction secs) auto
  moreover have "length (artifact_parts spec L [?s] backings) = 9"
    by (simp add: artifact_parts_def ob shard_parts_def spec_def) (simp add: demo_artifact_def)
  ultimately have "length (artifact_file spec L (artifact_parts spec L [?s] backings)) < 2 ^ 63"
    using k ps(2) by (auto simp: artifact_file_def spec_def) (auto simp: demo_artifact_def)
  with that w c show thesis by (simp add: ob)
qed

lemma demo_file:
  assumes L: "Compile note_schema = Inr L" and k: "keys \<in> {[], [5, 9]}"
  obtains ob where "writable (demo_artifact L keys) L [demo_shard_spec L keys] [ob]"
    "owned_contains L (spec_rows L (demo_shard_spec L keys)) ob"
    "length (artifact_file (demo_artifact L keys) L (artifact_parts (demo_artifact L keys) L [demo_shard_spec L keys] [ob])) < 2 ^ 63"
  by (rule demo_file_with [OF L k demo_progress(2,3) [of L keys], unfolded demo_progress(1)]) (rule that)

lemma demo_written:
  assumes L: "Compile note_schema = Inr L"
  shows "\<exists>fs. WriteArtifact memory_host path (demo_artifact L [5, 9]) [] = (Inr (), fs)"
proof -
  obtain ob where w: "writable (demo_artifact L [5, 9]) L [demo_shard_spec L [5, 9]] [ob]"
    and sz: "length (artifact_file (demo_artifact L [5, 9]) L (artifact_parts (demo_artifact L [5, 9]) L [demo_shard_spec L [5, 9]] [ob])) < 2 ^ 63"
    by (rule demo_file [OF L, of "[5, 9]"]) simp
  show ?thesis
    using BuildArtifactFile_eq [OF w] sz by (simp add: WriteArtifact_def WriteArtifactWithShards_def demo_artifact_def memory_host_def)
qed

lemma demo_setup:
  "\<forall>shard \<in> set (ab_shards (demo_artifact L [5, 9])). bs_rows shard \<noteq> []" "mmap_options_match demo_load_options (demo_artifact L [5, 9])"
  "sorts_by_offset (sort_key as_offset)" "demo_shard_spec L [5, 9] \<in> set (ab_shards (demo_artifact L [5, 9]))" "bs_shard_id (demo_shard_spec L [5, 9]) = 0"
  by (simp_all add: demo_artifact_def demo_shard_spec_def mmap_options_match_def demo_load_options_def sorts_by_offset_def)

theorem written_artifact_is_read_witness:
  "\<exists>L fs mb. Compile note_schema = Inr L \<and> WriteArtifact memory_host ''d/a'' (demo_artifact L [5, 9]) [] = (Inr (), fs)
     \<and> LoadShard memory_host (sort_key as_offset) fs ''file://d/a'' 0 demo_load_options = Inr mb
     \<and> fsv_Get (NewFullSnapshotView (Some (mmap_backing mb))) 7 = Inr None
     \<and> fsv_Get (NewFullSnapshotView (Some (mmap_backing mb))) 9
         = Inr (Some \<lparr>row_layout = Some L, row_encoded = Some (CreateEncodedRow L)\<rparr>)
     \<and> pa_source_progress (mb_artifact mb) =
         [\<lparr>ap_topic = ''t'', ap_partition = 0, ap_checkpoint_next_offset = 4, ap_high_watermark = 9\<rparr>]"
proof -
  obtain L where L: "Compile note_schema = Inr L" by (rule note_layout)
  obtain fs where fs: "WriteArtifact memory_host ''d/a'' (demo_artifact L [5, 9]) [] = (Inr (), fs)" using demo_written [OF L] by blast
  have uri: "ResolveLocalPath ''file://d/a'' = Inr ''d/a''" by (simp add: ResolveLocalPath_def local_scheme_def)
  have prog: "spec_progress (demo_artifact L [5, 9]) = [\<lparr>ap_topic = ''t'', ap_partition = 0, ap_checkpoint_next_offset = 4, ap_high_watermark = 9\<rparr>]"
    by (simp add: spec_progress_def demo_artifact_def progress_of_def)
  have "stored_row L (CreateEncodedRow L) = CreateEncodedRow L" "MaterializeRow (Some L) (CreateEncodedRow L)
      = Inr \<lparr>row_layout = Some L, row_encoded = Some (CreateEncodedRow L)\<rparr>"
    using note_fields [OF L] by (simp_all add: stored_row_def CreateEncodedRow_def MaterializeRow_def)
  then have "snapshot_answer L (map_of (spec_rows L (demo_shard_spec L [5, 9]))) 7 = Inr None"
    "snapshot_answer L (map_of (spec_rows L (demo_shard_spec L [5, 9]))) 9 = Inr (Some \<lparr>row_layout = Some L, row_encoded = Some (CreateEncodedRow L)\<rparr>)"
    by (simp_all add: snapshot_answer_def spec_rows_def demo_shard_spec_def)
  with written_artifact_is_read [OF memory_host_keeps demo_artifact_ok [OF L, of "[5, 9]", simplified] demo_setup(3,1) fs uri demo_setup(2,4)] L fs
  show ?thesis unfolding demo_setup(5) prog by metis
qed

section \<open>Limits of the format\<close>

text \<open>
  The schema section has no defaults, so no layout that is read from an artifact has one. The
  fingerprint covers the defaults (\<open>schema.cc\<close>), so an artifact of a layout with a default can only be
  read when two fingerprints collide.
\<close>

lemma ParseSchemaFields_no_default:
  assumes "ParseSchemaFields n bs off s = Inr (s', off')" and "\<forall>g \<in> set (rs_active_fields s). fs_default_value g = NoDefault"
  shows "\<forall>g \<in> set (rs_active_fields s'). fs_default_value g = NoDefault"
  using assms
proof (induction n arbitrary: off s)
  case (Suc n)
  then obtain g off1 s1 where g: "ParseSchemaField bs off = Inr (g, off1)" "AddField s g = Inr s1"
    "ParseSchemaFields n bs off1 s1 = Inr (s', off')" by auto
  have "fs_default_value g = NoDefault" using g(1) by (auto simp: ParseSchemaField_def split: if_splits)
  moreover have "rs_active_fields s1 = rs_active_fields s @ [g]" using g(2) by (auto simp: AddField_def split: if_splits)
  ultimately show ?case using Suc.prems(2) by (intro Suc.IH [OF g(3)]) auto
qed simp

lemma read_layout_no_default:
  assumes "ParseSchemaSection bs v fp = Inr L" and "f \<in> set (cl_fields L)"
  shows "\<not> fl_HasDefault f"
proof -
  from assms(1) obtain n off s off' where s: "ParseSchemaFields n bs off (NewRuntimeSchema v) = Inr (s, off')" "Compile s = Inr L"
    by (auto simp: ParseSchemaSection_def split: if_splits)
  have nd: "\<forall>g \<in> set (rs_active_fields s). fs_default_value g = NoDefault"
    by (rule ParseSchemaFields_no_default [OF s(1)]) (simp add: NewRuntimeSchema_def)
  have ok: "schema_ok s" using ParseSchemaFields_ok [OF s(1)] by (simp add: schema_ok_def NewRuntimeSchema_def)
  have "unslot f \<in> set (map unslot (cl_fields L))" using assms(2) by simp
  then obtain i g where "unslot f = MakeFieldLayout i g" "g \<in> set (rs_active_fields s)"
    unfolding Compile_layout(2) [OF ok s(2)] by (auto dest!: set_zip_rightD simp: enumerate_eq_zip)
  with nd have "fl_default_value (unslot f) = NoDefault" by (simp add: MakeFieldLayout_def)
  then show ?thesis by (simp add: unslot_def fl_HasDefault_def)
qed

text \<open>
  \<open>std::sort\<close> may swap an empty section and the section behind it, which have the same offset. Then
  the parser takes the two for overlapping.
\<close>

lemma CheckOverlap_place_append:
  assumes "n + length (part_bytes xs) < 2 ^ 64"
  shows "CheckOverlap (place n xs @ rest) (of_nat n) = CheckOverlap rest (of_nat (n + length (part_bytes xs)))"
  using assms by (induction n xs rule: place.induct) (simp_all add: add.assoc)

lemma empty_section_swapped:
  assumes parts: "parts = xs @ (t, i, []) # (t', i', p) # ys" and sz: "n + length (part_bytes parts) < 2 ^ 64" and p: "p \<noteq> []"
  shows "\<exists>std_sort. sorts_by_offset std_sort
    \<and> CheckOverlap (std_sort (place n parts)) (of_nat n) = Inl (InvalidArgument ''artifact sections overlap'')"
proof -
  let ?m = "n + length (part_bytes xs)"
  let ?a = "\<lparr>as_type = t, as_shard_id = i, as_offset = of_nat ?m, as_length = 0, as_checksum = Fnv1a64 []\<rparr>"
  let ?b = "\<lparr>as_type = t', as_shard_id = i', as_offset = of_nat ?m, as_length = of_nat (length p), as_checksum = Fnv1a64 p\<rparr>"
  let ?ys = "place (?m + length p) ys" and ?sw = "place n xs @ [?b, ?a] @ place (?m + length p) ys"
  have pl: "place n parts = place n xs @ [?a, ?b] @ ?ys" by (simp add: parts place_append)
  define srt where "srt zs = (if zs = place n parts then ?sw else sort_key as_offset zs)" for zs
  have "sorted (map as_offset (place n parts))" using place_facts(4) [OF sz] .
  then have "sorted (map as_offset ?sw)" unfolding pl by (auto simp: sorted_append)
  moreover have "mset ?sw = mset (place n parts)" unfolding pl by simp
  ultimately have s: "sorts_by_offset srt" by (simp add: sorts_by_offset_def srt_def)
  have small: "?m + length p < 2 ^ 64" "n + length (part_bytes xs) < 2 ^ 64" using sz by (simp_all add: parts)
  have "(of_nat ?m :: u64) < of_nat ?m + of_nat (length p)"
  proof -
    have "unat (of_nat ?m :: u64) = ?m" "unat (of_nat (?m + length p) :: u64) = ?m + length p"
      using small by (simp_all add: unat_of_nat del: of_nat_add)
    then have "(of_nat ?m :: u64) < of_nat (?m + length p)" unfolding word_less_nat_alt using p by (simp del: of_nat_add)
    then show ?thesis by simp
  qed
  then have "CheckOverlap (srt (place n parts)) (of_nat n) = Inl (InvalidArgument ''artifact sections overlap'')"
    by (simp add: srt_def CheckOverlap_place_append [OF small(2)])
  with s show ?thesis by blast
qed

section \<open>Loaded shards\<close>

lemma ReadPayloadFrom_earlier:
  assumes "ReadPayloadFrom n bs off w = Inr q" and "i \<le> w"
  shows "\<exists>p. ReadPayloadFrom n bs off i = Inr p"
  using assms
proof (induction n arbitrary: off w i)
  case (Suc n)
  then obtain p off1 where r: "ReadPayload bs off = Inr (p, off1)" by auto
  show ?case
  proof (cases i)
    case (Suc j)
    then have "ReadPayloadFrom n bs off1 (w - 1) = Inr q" "j \<le> w - 1" using Suc.prems r by (auto split: if_splits)
    from Suc.IH [OF this] show ?thesis by (simp add: r Suc)
  qed (simp add: r)
qed simp

lemma validated_payloads:
  assumes "ValidatePayloadRowCount bs n = Inr ()" and "i < n"
  shows "\<exists>p. ReadPayloadAt bs i = Inr p"
proof -
  have n: "0 < n" "n \<noteq> 0" using assms(2) by (auto simp: word_less_nat_alt)
  with assms have r: "ReadLittleEndian bs 0 = Inr n" and "\<exists>q. ReadPayloadAt bs (n - 1) = Inr q"
    by (auto simp: ValidatePayloadRowCount_def split: if_splits)
  then obtain q where "ReadPayloadFrom (unat n) bs 8 (unat (n - 1)) = Inr q"
    by (auto simp: ReadPayloadAt_def ReadNext_def split: if_splits)
  moreover have "unat i \<le> unat (n - 1)" using assms(2) n by (simp add: unat_minus_one word_less_nat_alt)
  ultimately obtain p where "ReadPayloadFrom (unat n) bs 8 (unat i) = Inr p" using ReadPayloadFrom_earlier by blast
  with r assms(2) show ?thesis by (simp add: ReadPayloadAt_def ReadNext_def not_le)
qed

lemma LoadShard_Inr:
  assumes "LoadShard ho std_sort fs uri shard_id options = Inr mb" and "maps_files ho"
  obtains bs where "length bs < 2 ^ 63" "LoadMapped std_sort bs shard_id options = Inr mb"
proof -
  from assms(1) obtain path bs where "MapFile ho fs path = Inr bs" and l: "LoadMapped std_sort bs shard_id options = Inr mb"
    by (auto simp: LoadShard_def)
  then obtain fd n where n: "ho_fstat ho fs fd = Inr n" "0 < n" "ho_mmap ho fs fd (nat n) = Inr bs"
    by (auto simp: MapFile_def split: sum.splits if_splits)
  have "length bs = nat n" "n < 2 ^ 63" using assms(2) n unfolding maps_files_def by blast+
  then have "length bs < 2 ^ 63" by simp
  from that [OF this l] show thesis .
qed

lemma LoadMapped_Inr:
  assumes "LoadMapped std_sort bs shard_id options = Inr mb"
  obtains a L where "ParseArtifact std_sort bs \<lparr>vo_expected_shard_count = ml_expected_shard_count options,
       vo_expected_hash_seed = ml_expected_hash_seed options, vo_expected_hash_version = ml_expected_hash_version options,
       vo_source_progress_policy = ml_source_progress_policy options\<rparr> = Inr a"
    "mb_artifact mb = a" "mb_shard_id mb = shard_id" "shard_id < pa_shard_count a" "pa_layout a = Some L" "0 < cl_row_slot_size L"
    "length (mb_row_slot_bytes mb) mod cl_row_slot_size L = 0"
    "mb_row_count mb = of_nat (length (mb_row_slot_bytes mb) div cl_row_slot_size L)"
    "ValidatePayloadRowCount (mb_row_payload_bytes mb) (mb_row_count mb) = Inr ()"
    "SectionBytes a kRowSlots shard_id = Inr (mb_row_slot_bytes mb)"
  using assms 
  by (auto simp: LoadMapped_def Let_def NewMmapSnapshotBacking_def not_le split: if_splits option.splits)

lemma ParseArtifact_bytes: "ParseArtifact std_sort bs options = Inr a \<Longrightarrow> pa_bytes a = bs"
  by (erule ParseArtifact_Inr) (rule AssembleArtifact_Inr(2))

lemma unat_small: "n < 2 ^ 64 \<Longrightarrow> unat (of_nat n :: u64) = n"
  by (simp add: unat_of_nat)

lemma SectionBytes_length:
  assumes "SectionBytes a t i = Inr bs"
  shows "length bs < 2 ^ 64"
proof -
  from assms obtain s where "bs = section_bytes (pa_bytes a) s" by (auto simp: SectionBytes_def split: option.splits)
  then have "length bs \<le> unat (as_length s)" by (simp add: section_bytes_def subspan_def)
  also have "\<dots> < 2 ^ 64" using unsigned_less [of "as_length s"] by simp
  finally show ?thesis .
qed

lemma loaded_row:
  assumes L: "pa_layout (mb_artifact mb) = Some L" "0 < cl_row_slot_size L" and len: "length (mb_row_slot_bytes mb) < 2 ^ 64"
    and al: "length (mb_row_slot_bytes mb) mod cl_row_slot_size L = 0"
    and n: "mb_row_count mb = of_nat (length (mb_row_slot_bytes mb) div cl_row_slot_size L)"
    and v: "ValidatePayloadRowCount (mb_row_payload_bytes mb) (mb_row_count mb) = Inr ()" and i: "i < unat (mb_row_count mb)"
  shows "\<exists>e. mm_EncodedRowAt mb (of_nat (i * cl_row_slot_size L)) = Inr e
    \<and> er_row_slot e = subspan (i * cl_row_slot_size L) (cl_row_slot_size L) (mb_row_slot_bytes mb)"
proof -
  let ?n = "cl_row_slot_size L" and ?len = "length (mb_row_slot_bytes mb)"
  have c: "unat (mb_row_count mb) = ?len div ?n"
    unfolding n by (rule unat_small [OF le_less_trans [OF div_le_dividend len]])
  have e: "?len = ?len div ?n * ?n" using al by auto
  have le: "i * ?n + ?n \<le> ?len" using i unfolding c by (subst e) (metis Suc_leI add.commute mult_Suc mult_le_mono1)
  have u: "unat (of_nat (i * ?n) :: u64) = i * ?n" using le len L(2) by (intro unat_small) simp
  have "i < 2 ^ 64" using less_trans [OF i unsigned_less] by simp
  then have "of_nat i < mb_row_count mb" using i by (simp add: word_less_nat_alt unat_of_nat)
  from validated_payloads [OF v this] obtain p where "ReadPayloadAt (mb_row_payload_bytes mb) (of_nat i) = Inr p" ..
  then show ?thesis using L le u by (simp add: mm_EncodedRowAt_def Let_def del: of_nat_mult)
qed

text \<open>
  C13. Whatever the file holds, a shard that is loaded is sound. The sections of its artifact lie behind the
  directory and inside the file, do not overlap, are named once and have the recorded checksums; its layout is
  well formed and has the recorded version and fingerprint; its source progress is consistent; the hash
  seed and the shard count are the expected ones. Its row-slot section is a whole number of slots, and every one
  of these rows can be read.
\<close>

theorem loaded_shard_sound:
  assumes load: "LoadShard ho std_sort fs uri shard_id options = Inr mb" and srt: "sorts_by_offset std_sort" and ho: "maps_files ho"
  shows "sections_ok (pa_bytes (mb_artifact mb)) (pa_sections (mb_artifact mb)) \<and> progress_ok (pa_source_progress (mb_artifact mb))
    \<and> pa_hash_seed (mb_artifact mb) = ml_expected_hash_seed options \<and> shard_id < pa_shard_count (mb_artifact mb)
    \<and> ml_expected_shard_count options \<in> {0, pa_shard_count (mb_artifact mb)}
    \<and> (\<exists>L. pa_layout (mb_artifact mb) = Some L \<and> layout_ok L \<and> cl_schema_version L = pa_schema_version (mb_artifact mb)
         \<and> cl_layout_fingerprint L = pa_layout_fingerprint (mb_artifact mb)
         \<and> length (mb_row_slot_bytes mb) = unat (mb_row_count mb) * cl_row_slot_size L
         \<and> (\<forall>i < unat (mb_row_count mb). \<exists>e. mm_EncodedRowAt mb (of_nat (i * cl_row_slot_size L)) = Inr e
              \<and> er_row_slot e = subspan (i * cl_row_slot_size L) (cl_row_slot_size L) (mb_row_slot_bytes mb)))"
proof -
  obtain bs where bs: "length bs < 2 ^ 63" "LoadMapped std_sort bs shard_id options = Inr mb" using LoadShard_Inr [OF load ho] .
  obtain L where a: "ParseArtifact std_sort bs \<lparr>vo_expected_shard_count = ml_expected_shard_count options,
       vo_expected_hash_seed = ml_expected_hash_seed options, vo_expected_hash_version = ml_expected_hash_version options,
       vo_source_progress_policy = ml_source_progress_policy options\<rparr> = Inr (mb_artifact mb)"
    and id: "shard_id < pa_shard_count (mb_artifact mb)" and L: "pa_layout (mb_artifact mb) = Some L" "0 < cl_row_slot_size L"
    and al: "length (mb_row_slot_bytes mb) mod cl_row_slot_size L = 0"
    and n: "mb_row_count mb = of_nat (length (mb_row_slot_bytes mb) div cl_row_slot_size L)"
    and v: "ValidatePayloadRowCount (mb_row_payload_bytes mb) (mb_row_count mb) = Inr ()"
    and sec: "SectionBytes (mb_artifact mb) kRowSlots shard_id = Inr (mb_row_slot_bytes mb)"
    using LoadMapped_Inr [OF bs(2)] by metis
  note len = SectionBytes_length [OF sec]
  have "length bs < 2 ^ 64" using bs(1) by simp
  note S = ParseArtifact_sound [OF a srt this]
  have "unat (mb_row_count mb) = length (mb_row_slot_bytes mb) div cl_row_slot_size L"
    unfolding n by (rule unat_small [OF le_less_trans [OF div_le_dividend len]])
  then have "length (mb_row_slot_bytes mb) = unat (mb_row_count mb) * cl_row_slot_size L" using al by auto
  with S id L loaded_row [OF L len al n v] show ?thesis by (simp add: ParseArtifact_bytes [OF a])
qed

lemma demo_loaded:
  obtains L fs mb where "Compile note_schema = Inr L" "WriteArtifact memory_host ''a'' (demo_artifact L [5, 9]) [] = (Inr (), fs)"
    "LoadShard memory_host (sort_key as_offset) fs ''a'' 0 demo_load_options = Inr mb"
    "mmap_contains L (spec_rows L (demo_shard_spec L [5, 9])) mb" "pa_layout (mb_artifact mb) = Some L"
proof -
  obtain L where L: "Compile note_schema = Inr L" by (rule note_layout)
  obtain fs where fs: "WriteArtifact memory_host ''a'' (demo_artifact L [5, 9]) [] = (Inr (), fs)" using demo_written [OF L] by blast
  have uri: "ResolveLocalPath ''a'' = Inr ''a''" by (simp add: ResolveLocalPath_def local_scheme_def)
  obtain mb where mb: "LoadShard memory_host (sort_key as_offset) fs ''a'' 0 demo_load_options = Inr mb"
    and c: "mmap_contains L (spec_rows L (demo_shard_spec L [5, 9])) mb"
    using WriteArtifact_LoadShard [OF memory_host_keeps demo_artifact_ok [OF L, of "[5, 9]", simplified] demo_setup(3,1) fs uri demo_setup(2,4)]
    unfolding demo_setup(5) by blast
  have "pa_layout (mb_artifact mb) = Some L" using mm.layout [OF c] by (simp add: mmap_backing_def)
  with that L fs mb c show thesis by blast
qed

lemma memory_host_maps: "maps_files memory_host"
  by (auto simp: maps_files_def memory_host_def split: if_splits)

theorem loaded_shard_sound_witness:
  "\<exists>L fs mb. Compile note_schema = Inr L \<and> WriteArtifact memory_host ''a'' (demo_artifact L [5, 9]) [] = (Inr (), fs)
     \<and> LoadShard memory_host (sort_key as_offset) fs ''a'' 0 demo_load_options = Inr mb
     \<and> pa_layout (mb_artifact mb) = Some L \<and> sections_ok (pa_bytes (mb_artifact mb)) (pa_sections (mb_artifact mb))
     \<and> length (mb_row_slot_bytes mb) = unat (mb_row_count mb) * cl_row_slot_size L"
proof -
  obtain L fs mb where L: "Compile note_schema = Inr L" "WriteArtifact memory_host ''a'' (demo_artifact L [5, 9]) [] = (Inr (), fs)"
    and mb: "LoadShard memory_host (sort_key as_offset) fs ''a'' 0 demo_load_options = Inr mb" and la: "pa_layout (mb_artifact mb) = Some L"
    by (rule demo_loaded)
  from loaded_shard_sound [OF mb demo_setup(3) memory_host_maps] L mb la show ?thesis by (intro exI conjI) auto
qed

section \<open>Limits that concern written artifacts\<close>

lemma AssembleArtifact_schema:
  "AssembleArtifact bs options h secs = Inr a \<Longrightarrow> \<exists>ss v fp L. ParseSchemaSection (section_bytes bs ss) v fp = Inr L \<and> pa_layout a = Some L"
  by (fastforce simp: AssembleArtifact_def Let_def split: option.splits if_splits)

text \<open>
  C40. The layout of a loaded shard has no defaults, so an artifact that was written for a layout with a default is
  never loaded with that layout, although its fingerprint covers the default.
\<close>

theorem loaded_layout_has_no_default:
  assumes "LoadShard ho std_sort fs uri shard_id options = Inr mb" and "maps_files ho"
  shows "\<exists>L. pa_layout (mb_artifact mb) = Some L \<and> (\<forall>f \<in> set (cl_fields L). \<not> fl_HasDefault f)
    \<and> (\<forall>L' f. f \<in> set (cl_fields L') \<longrightarrow> fl_HasDefault f \<longrightarrow> L \<noteq> L')"
proof -
  obtain bs where "LoadMapped std_sort bs shard_id options = Inr mb" using LoadShard_Inr [OF assms] .
  then obtain o1 where "ParseArtifact std_sort bs o1 = Inr (mb_artifact mb)" by (metis LoadMapped_Inr)
  then obtain h secs where "AssembleArtifact bs o1 h secs = Inr (mb_artifact mb)" by (elim ParseArtifact_Inr)
  then obtain ss v fp L where L: "ParseSchemaSection (section_bytes bs ss) v fp = Inr L" "pa_layout (mb_artifact mb) = Some L"
    by (blast dest: AssembleArtifact_schema)
  then show ?thesis using read_layout_no_default [OF L(1)] by blast
qed

theorem loaded_layout_has_no_default_witness:
  "\<exists>L fs mb. Compile note_schema = Inr L \<and> LoadShard memory_host (sort_key as_offset) fs ''a'' 0 demo_load_options = Inr mb
     \<and> pa_layout (mb_artifact mb) = Some L \<and> (\<forall>f \<in> set (cl_fields L). \<not> fl_HasDefault f)"
proof -
  obtain L fs mb where L: "Compile note_schema = Inr L"
    and mb: "LoadShard memory_host (sort_key as_offset) fs ''a'' 0 demo_load_options = Inr mb" and la: "pa_layout (mb_artifact mb) = Some L"
    by (rule demo_loaded)
  from loaded_layout_has_no_default [OF mb memory_host_maps] L mb la show ?thesis by auto
qed

text \<open>
  C39. An artifact with an empty shard is written, but whether it can be read depends on the order in which
  the sort of the directory leaves sections of equal offset: some sort that the standard allows makes the
  parser report an overlap.
\<close>

theorem empty_shard_may_be_rejected:
  assumes w: "writable spec L shards backings" and sz: "length (artifact_file spec L (artifact_parts spec L shards backings)) < 2 ^ 64"
    and opt: "options_match options spec" and pol: "ab_include_source_progress_section spec \<or> vo_source_progress_policy options = kOptional"
    and i: "i < length shards" "ob_row_slot_bytes (backings ! i) = []"
  shows "\<exists>file. BuildArtifactFile spec (map Some shards) = Inr file
    \<and> (\<exists>a. ParseArtifact (sort_key as_offset) file options = Inr a)
    \<and> (\<exists>std_sort. sorts_by_offset std_sort \<and> ParseArtifact std_sort file options = Inl (InvalidArgument ''artifact sections overlap''))"
proof -
  let ?parts = "artifact_parts spec L shards backings" and ?id = "bs_shard_id (shards ! i)" and ?ob = "backings ! i"
  let ?b = "128 + 64 * length ?parts"
  have len: "length shards = length backings" using w by (auto simp: writable_def dest: list_all2_lengthD)
  have split: "zip shards backings = take i (zip shards backings) @ (shards ! i, ?ob) # drop (Suc i) (zip shards backings)"
    using id_take_nth_drop [of i "zip shards backings"] i len by simp
  obtain xs ys where parts: "?parts = xs @ (kRowSlots, ?id, []) # (kRowArena, ?id, payload_section_bytes (ob_row_payloads ?ob)) # ys"
  proof -
    have "\<exists>us vs. concat (map (\<lambda>(shard, b). shard_parts (bs_shard_id shard) b) (zip shards backings)) = us @ shard_parts ?id ?ob @ vs"
      by (subst split) auto
    then obtain us vs where c: "concat (map (\<lambda>(shard, b). shard_parts (bs_shard_id shard) b) (zip shards backings)) = us @ shard_parts ?id ?ob @ vs" by blast
    let ?global = "(kSchemaMetadata, kArtifactGlobalShardId, schema_bytes L) # (if ab_include_source_progress_section spec
        then [(kSourceProgress, kArtifactGlobalShardId, progress_bytes (ab_source_progress spec))] else [])"
    let ?pools = "map (\<lambda>t. (t, ?id, [0])) [kStringPools, kScalarListPools, kStringListPools, kStringElementPools]"
    have "?parts = (?global @ us @ [(kFrozenPrimaryKeyIndex, ?id, ob_frozen_index_bytes ?ob)])
        @ (kRowSlots, ?id, []) # (kRowArena, ?id, payload_section_bytes (ob_row_payloads ?ob)) # (?pools @ vs)"
      unfolding artifact_parts_def c by (simp add: shard_parts_def i(2))
    then show thesis by (rule that)
  qed
  have sm: "?b + length (part_bytes ?parts) < 2 ^ 64" using artifact_parts_ok [OF w sz] by (simp add: parts_ok_def)
  have ne: "payload_section_bytes (ob_row_payloads ?ob) \<noteq> []" by (simp add: payload_section_bytes_def le_bytes_nonempty)
  obtain srt where srt: "sorts_by_offset srt" "CheckOverlap (srt (place ?b ?parts)) (of_nat ?b) = Inl (InvalidArgument ''artifact sections overlap'')"
    using empty_section_swapped [OF parts sm ne] by blast
  have st: "keeps_directory (sort_key as_offset) ?parts" unfolding keeps_directory_def by (rule stable_sort_place [OF sm])
  note good = ParseArtifact_written(2) [OF w sz opt pol st]
  have bad: "ParseArtifact srt (artifact_file spec L ?parts) options = Inl (InvalidArgument ''artifact sections overlap'')"
    unfolding ParseArtifact_written(1) [OF w sz opt pol] srt(2) by simp
  from good bad srt(1) BuildArtifactFile_eq [OF w] show ?thesis by blast
qed

theorem empty_shard_may_be_rejected_witness:
  "\<exists>L file. Compile note_schema = Inr L \<and> BuildArtifactFile (demo_artifact L []) [Some (demo_shard_spec L [])] = Inr file
     \<and> (\<exists>a. ParseArtifact (sort_key as_offset) file \<lparr>vo_expected_shard_count = 1, vo_expected_hash_seed = 3,
            vo_expected_hash_version = 1, vo_source_progress_policy = kRequired\<rparr> = Inr a)
     \<and> (\<exists>std_sort. sorts_by_offset std_sort \<and> ParseArtifact std_sort file \<lparr>vo_expected_shard_count = 1, vo_expected_hash_seed = 3,
            vo_expected_hash_version = 1, vo_source_progress_policy = kRequired\<rparr> = Inl (InvalidArgument ''artifact sections overlap''))"
proof -
  let ?o = "\<lparr>vo_expected_shard_count = 1, vo_expected_hash_seed = 3, vo_expected_hash_version = 1, vo_source_progress_policy = kRequired\<rparr>"
  obtain L where L: "Compile note_schema = Inr L" by (rule note_layout)
  obtain ob where w: "writable (demo_artifact L []) L [demo_shard_spec L []] [ob]" and c: "owned_contains L (spec_rows L (demo_shard_spec L [])) ob"
    and sz: "length (artifact_file (demo_artifact L []) L (artifact_parts (demo_artifact L []) L [demo_shard_spec L []] [ob])) < 2 ^ 63"
    by (rule demo_file [OF L, of "[]"]) simp
  have "length (artifact_file (demo_artifact L []) L (artifact_parts (demo_artifact L []) L [demo_shard_spec L []] [ob])) < 2 ^ 64"
    using sz by simp
  moreover have "options_match ?o (demo_artifact L [])" "ab_include_source_progress_section (demo_artifact L [])"
    by (simp_all add: options_match_def demo_artifact_def)
  moreover have "ob_row_slot_bytes ob = []"
    using owned_contains_sizes(4) [OF c] by (simp add: spec_rows_def demo_shard_spec_def)
  ultimately show ?thesis using empty_shard_may_be_rejected [OF w, of ?o 0] L by auto
qed

end
