(* ===== verification/Forward_Index.thy ===== *)
theory Forward_Index
  imports Shard_Runtime "HOL-Library.Sublist"
begin

text \<open>
  \<open>include/kv_index/forward_index.h\<close> and \<open>src/api/forward_index.cc\<close>: the public index. Reads
  route a key to its shard; \<open>MGet\<close> groups the keys by shard, reads each shard once and puts the
  rows back in the order of the request. Loads are kept in a table under \<open>load_mu_\<close>; the
  operations of clients and of the load workers on that table are its steps.

  The two \<open>unordered_map\<close>s are partial maps, and the order in which the load table is iterated is
  an argument of \<open>GetRuntimeStatus\<close>. \<open>stat\<close> is an argument of \<open>LoadAsync\<close>. A started worker
  thread is recorded in the list of workers; its calls back into the index are the operations
  \<open>store_state\<close> and \<open>worker_done\<close>. The thresholds of the options, which are IEEE doubles
  that no code here reads, are left out.
\<close>

section \<open>The index\<close>

type_synonym LoadId = u64

record ForwardIndexOptions =
  io_mode :: ForwardIndexMode
  io_shard_count :: u32
  io_hash_seed :: u64
  io_hash_version :: u32
  io_kafka_consumer :: KafkaConsumerConfig

record ForwardIndex =
  fi_options :: ForwardIndexOptions
  fi_shard_directory :: ShardDirectory
  fi_next_load_id :: LoadId
  fi_loads :: "LoadId \<rightharpoonup> LoadState"
  fi_load_cancellations :: "LoadId \<rightharpoonup> bool"
  fi_load_workers :: "(LoadId \<times> LoadRequest) list"

definition HasKafkaConsumerConfig :: "KafkaConsumerConfig \<Rightarrow> bool" where
  "HasKafkaConsumerConfig config \<longleftrightarrow>
     kc_bootstrap_servers config \<noteq> [] \<or> kc_group_id config \<noteq> [] \<or> kc_topics config \<noteq> []"

definition NewForwardIndex :: "ForwardIndexOptions \<Rightarrow> ForwardIndex res" where
  "NewForwardIndex options =
     (if \<not> IsPowerOfTwo (io_shard_count options)
      then Inl (Throw ''ForwardIndexOptions::shard_count must be a non-zero power of two'')
      else if \<not> ForwardIndexModeUsesKafkaRealtime (io_mode options)
              \<and> HasKafkaConsumerConfig (io_kafka_consumer options)
      then Inl (Throw ''full-snapshot-only mode does not accept Kafka consumer config'')
      else Inr \<lparr>fi_options = options, fi_shard_directory = NewShardDirectory (io_shard_count options),
                fi_next_load_id = 1, fi_loads = Map.empty, fi_load_cancellations = Map.empty,
                fi_load_workers = []\<rparr>)"

text \<open>The destructor asks every running load to stop and then joins the workers.\<close>

definition cancel_all :: "ForwardIndex \<Rightarrow> ForwardIndex" where
  "cancel_all fi = fi\<lparr>fi_load_cancellations := (\<lambda>i. map_option (\<lambda>_. True) (fi_load_cancellations fi i))\<rparr>"

section \<open>Reads\<close>

fun fi_ThrowStatus :: "failure \<Rightarrow> failure" where
  "fi_ThrowStatus (Error code message) = Throw (if message = [] then ''forward index read failed'' else message)"
| "fi_ThrowStatus e = e"

definition or_throw :: "'a res \<Rightarrow> 'a res" where
  "or_throw r = (case r of Inl e \<Rightarrow> Inl (fi_ThrowStatus e) | Inr x \<Rightarrow> Inr x)"

definition ShardFor :: "ForwardIndex \<Rightarrow> u64 \<Rightarrow> u32" where
  "ShardFor fi primary_key =
     ucast (StableHash64 primary_key (io_hash_seed (fi_options fi)) (io_hash_version (fi_options fi))
            AND (ucast (io_shard_count (fi_options fi)) - 1))"

definition fi_Get :: "tables \<Rightarrow> ForwardIndex \<Rightarrow> u64 \<Rightarrow> Row option res" where
  "fi_Get h fi primary_key =
     rbind (or_throw (sd_Load (fi_shard_directory fi) (ShardFor fi primary_key))) (\<lambda>shard.
     case shard of
       None \<Rightarrow> Inr None
     | Some s \<Rightarrow> or_throw (ss_Get h s primary_key))"

definition PositionsByShard :: "ForwardIndex \<Rightarrow> u64 list \<Rightarrow> nat list list" where
  "PositionsByShard fi primary_keys =
     fold (\<lambda>i positions. let s = unat (ShardFor fi (primary_keys ! i)) in positions[s := positions ! s @ [i]])
       [0..<length primary_keys] (replicate (unat (io_shard_count (fi_options fi))) [])"

definition MGetShard ::
    "tables \<Rightarrow> ForwardIndex \<Rightarrow> u64 list \<Rightarrow> nat list list \<Rightarrow> nat \<Rightarrow> Row option list \<Rightarrow> Row option list res" where
  "MGetShard h fi primary_keys positions_by_shard shard_id rows =
     (let positions = positions_by_shard ! shard_id in
      if positions = [] then Inr rows
      else
        rbind (or_throw (sd_Load (fi_shard_directory fi) (of_nat shard_id))) (\<lambda>shard.
        case shard of
          None \<Rightarrow> Inr rows
        | Some s \<Rightarrow>
            rbind (or_throw (ss_MGet h s (map (\<lambda>position. primary_keys ! position) positions))) (\<lambda>shard_rows.
            if length shard_rows \<noteq> length positions
            then Inl (Throw ''shard returned a row count that does not match request count'')
            else Inr (fold (\<lambda>i rows. rows[positions ! i := shard_rows ! i]) [0..<length positions] rows))))"

definition fi_MGet :: "tables \<Rightarrow> ForwardIndex \<Rightarrow> u64 list \<Rightarrow> Row option list res" where
  "fi_MGet h fi primary_keys =
     (let positions_by_shard = PositionsByShard fi primary_keys in
      foldM_res (MGetShard h fi primary_keys positions_by_shard)
        [0..<unat (io_shard_count (fi_options fi))] (replicate (length primary_keys) None))"

section \<open>Loads\<close>

definition file_scheme :: string where "file_scheme = ''file://''"

definition PreflightLocalArtifactUri :: "(string \<Rightarrow> FileKind option) \<Rightarrow> LoadRequest \<Rightarrow> unit res" where
  "PreflightLocalArtifactUri stat request =
     (let uri = lr_artifact_uri request;
          has_scheme = list_ex (prefix ''://'') (suffixes uri);
          path = (if has_scheme then drop (length file_scheme) uri else uri) in
      if uri = [] then Inl (InvalidArgument ''artifact uri is empty'')
      else if has_scheme \<and> \<not> prefix file_scheme uri
      then Inl (InvalidArgument ''artifact uri scheme is unsupported'')
      else if path = [] then Inl (InvalidArgument ''artifact path is empty'')
      else (case stat path of
              None \<Rightarrow> Inl (NotFound ''artifact file does not exist'')
            | Some OtherFile \<Rightarrow> Inl (InvalidArgument ''artifact path is neither a regular file nor a directory'')
            | Some _ \<Rightarrow> Inr ()))"

definition LoadState_of :: "LoadId \<Rightarrow> LoadStateCode \<Rightarrow> bool \<Rightarrow> string \<Rightarrow> string \<Rightarrow> string \<Rightarrow> string \<Rightarrow> LoadState" where
  "LoadState_of lid code terminal uri artifact_id last_error message =
     \<lparr>ls_id = lid, ls_code = code, ls_terminal = terminal, ls_artifact_uri = uri, ls_artifact_id = artifact_id,
      ls_total_shard_count = 0, ls_loaded_shard_count = 0, ls_prewarmed_shard_count = 0,
      ls_cutover_shard_count = 0, ls_source_progress = \<lparr>pg_partitions = []\<rparr>, ls_shards = [],
      ls_last_error = last_error, ls_message = message\<rparr>"

fun failure_message :: "failure \<Rightarrow> string" where
  "failure_message (Error code message) = message"
| "failure_message (Throw message) = message"
| "failure_message Diverge = []"

text \<open>\<open>unordered_map::emplace\<close> keeps an entry that is already there.\<close>

definition emplace :: "'k \<Rightarrow> 'v \<Rightarrow> ('k \<rightharpoonup> 'v) \<Rightarrow> ('k \<rightharpoonup> 'v)" where
  "emplace k v m = (case m k of None \<Rightarrow> m(k \<mapsto> v) | Some _ \<Rightarrow> m)"

definition LoadAsync :: "(string \<Rightarrow> FileKind option) \<Rightarrow> ForwardIndex \<Rightarrow> LoadRequest \<Rightarrow> LoadId \<times> ForwardIndex" where
  "LoadAsync stat fi request =
     (let lid = fi_next_load_id fi; fi = fi\<lparr>fi_next_load_id := lid + 1\<rparr> in
      case PreflightLocalArtifactUri stat request of
        Inl e \<Rightarrow>
          (lid, fi\<lparr>fi_loads := emplace lid (LoadState_of lid kFailed True (lr_artifact_uri request)
                  (lr_artifact_id request) (failure_message e) (failure_message e)) (fi_loads fi)\<rparr>)
      | Inr _ \<Rightarrow>
          (lid, fi\<lparr>fi_loads := emplace lid (LoadState_of lid kRunning False (lr_artifact_uri request)
                  (lr_artifact_id request) [] []) (fi_loads fi),
                 fi_load_cancellations := emplace lid False (fi_load_cancellations fi),
                 fi_load_workers := fi_load_workers fi @ [(lid, request)]\<rparr>))"

text \<open>The callbacks of the worker of load \<open>lid\<close>, and what it does when the load has ended.\<close>

definition load_cancelled :: string where "load_cancelled = ''load cancelled''"

definition store_state :: "LoadId \<Rightarrow> LoadState \<Rightarrow> ForwardIndex \<Rightarrow> ForwardIndex" where
  "store_state lid state fi =
     (case fi_loads fi lid of
        None \<Rightarrow> fi
      | Some current \<Rightarrow>
          if ls_code current = kLoadCancelled \<and> ls_terminal current \<and> ls_code state \<noteq> kLoadCancelled
          then fi\<lparr>fi_loads := (fi_loads fi)(lid \<mapsto> state\<lparr>ls_code := kLoadCancelled, ls_terminal := True,
                    ls_message := load_cancelled, ls_last_error := load_cancelled\<rparr>)\<rparr>
          else fi\<lparr>fi_loads := (fi_loads fi)(lid \<mapsto> state)\<rparr>)"

definition publish_shard :: "u32 \<Rightarrow> ShardState option \<Rightarrow> ForwardIndex \<Rightarrow> unit res \<times> ForwardIndex" where
  "publish_shard shard_id state fi =
     (case sd_Publish (fi_shard_directory fi) shard_id state of
        (res, d) \<Rightarrow> (res, fi\<lparr>fi_shard_directory := d\<rparr>))"

definition worker_done :: "LoadId \<Rightarrow> ForwardIndex \<Rightarrow> ForwardIndex" where
  "worker_done lid fi = fi\<lparr>fi_load_cancellations := (fi_load_cancellations fi)(lid := None)\<rparr>"

definition GetLoadState :: "ForwardIndex \<Rightarrow> LoadId \<Rightarrow> LoadState" where
  "GetLoadState fi lid =
     (case fi_loads fi lid of
        None \<Rightarrow> LoadState_of lid kLoadUnknown True [] [] [] ''unknown load id''
      | Some state \<Rightarrow> state)"

definition CancelLoad :: "LoadId \<Rightarrow> ForwardIndex \<Rightarrow> bool \<times> ForwardIndex" where
  "CancelLoad lid fi =
     (case fi_loads fi lid of
        None \<Rightarrow> (False, fi)
      | Some state \<Rightarrow>
          if ls_terminal state then (False, fi)
          else
            (True, fi\<lparr>fi_loads := (fi_loads fi)(lid \<mapsto> state\<lparr>ls_code := kLoadCancelled, ls_terminal := True,
                       ls_last_error := load_cancelled, ls_message := load_cancelled\<rparr>),
                     fi_load_cancellations :=
                       (case fi_load_cancellations fi lid of
                          None \<Rightarrow> fi_load_cancellations fi
                        | Some _ \<Rightarrow> (fi_load_cancellations fi)(lid \<mapsto> True))\<rparr>))"

section \<open>Status\<close>

record RuntimeStatus =
  us_shard_count :: u32
  us_shards :: "ShardRuntimeStatus list"
  us_loads :: "LoadState list"
  us_last_error :: string

definition ShardStatusStep :: "tables \<Rightarrow> ForwardIndex \<Rightarrow> nat \<Rightarrow> RuntimeStatus \<Rightarrow> RuntimeStatus" where
  "ShardStatusStep h fi shard_id status =
     (case sd_Load (fi_shard_directory fi) (of_nat shard_id) of
        Inl e \<Rightarrow>
          status\<lparr>us_shards := us_shards status @
                   [(ShardRuntimeStatus_of (of_nat shard_id) 0)\<lparr>rs_last_error := failure_message e\<rparr>],
                 us_last_error := (if us_last_error status = [] then failure_message e else us_last_error status)\<rparr>
      | Inr None \<Rightarrow>
          status\<lparr>us_shards := us_shards status @ [ShardRuntimeStatus_of (of_nat shard_id) 0]\<rparr>
      | Inr (Some s) \<Rightarrow> status\<lparr>us_shards := us_shards status @ [ss_GetRuntimeStatus h s]\<rparr>)"

definition LoadStatusStep :: "LoadState \<Rightarrow> RuntimeStatus \<Rightarrow> RuntimeStatus" where
  "LoadStatusStep state status =
     status\<lparr>us_loads := us_loads status @ [state],
            us_last_error := (if ls_last_error state \<noteq> [] then ls_last_error state else us_last_error status)\<rparr>"

definition fi_GetRuntimeStatus :: "tables \<Rightarrow> LoadId list \<Rightarrow> ForwardIndex \<Rightarrow> RuntimeStatus" where
  "fi_GetRuntimeStatus h iteration fi =
     (let status = \<lparr>us_shard_count = io_shard_count (fi_options fi), us_shards = [], us_loads = [], us_last_error = []\<rparr>;
          status = fold (ShardStatusStep h fi) [0..<unat (io_shard_count (fi_options fi))] status
      in fold LoadStatusStep (List.map_filter (fi_loads fi) iteration) status)"

section \<open>Invariants and steps\<close>

definition fi_ok :: "ForwardIndex \<Rightarrow> bool" where
  "fi_ok fi \<longleftrightarrow> IsPowerOfTwo (io_shard_count (fi_options fi)) \<and> sd_ok (fi_shard_directory fi)
     \<and> sd_shard_count (fi_shard_directory fi) = io_shard_count (fi_options fi)"

text \<open>
  The steps on the load table, by clients and by workers. A worker stores only states of its own
  load, and marks a load cancelled only as terminal (\<open>MarkCancelled\<close> of \<open>async_load.cc\<close>).
\<close>

inductive load_step :: "(string \<Rightarrow> FileKind option) \<Rightarrow> ForwardIndex \<Rightarrow> ForwardIndex \<Rightarrow> bool" for stat where
  start: "LoadAsync stat fi request = (lid, fi') \<Longrightarrow> load_step stat fi fi'"
| cancel: "CancelLoad lid fi = (res, fi') \<Longrightarrow> load_step stat fi fi'"
| store: "lid \<in> fst ` set (fi_load_workers fi) \<Longrightarrow> ls_id state = lid \<Longrightarrow>
    (ls_code state = kLoadCancelled \<Longrightarrow> ls_terminal state) \<Longrightarrow> load_step stat fi (store_state lid state fi)"
| publish: "publish_shard shard_id state fi = (res, fi') \<Longrightarrow> load_step stat fi fi'"
| finished: "lid \<in> fst ` set (fi_load_workers fi) \<Longrightarrow> load_step stat fi (worker_done lid fi)"

text \<open>The rows of a request when the shards in \<open>S\<close> have been read.\<close>

definition rows_after :: "tables \<Rightarrow> ForwardIndex \<Rightarrow> u64 list \<Rightarrow> nat \<Rightarrow> Row option list" where
  "rows_after h fi keys n =
     map (\<lambda>k. if unat (ShardFor fi k) < n then projr (fi_Get h fi k) else None) keys"

definition cancelled :: "LoadId \<Rightarrow> ForwardIndex \<Rightarrow> bool" where
  "cancelled lid fi \<longleftrightarrow> (\<exists>st. fi_loads fi lid = Some st \<and> ls_code st = kLoadCancelled \<and> ls_terminal st)"

definition used_ids :: "ForwardIndex \<Rightarrow> LoadId set" where
  "used_ids fi = dom (fi_loads fi) \<union> fst ` set (fi_load_workers fi) \<union> dom (fi_load_cancellations fi)"

definition load_inv :: "ForwardIndex \<Rightarrow> bool" where
  "load_inv fi \<longleftrightarrow>
     used_ids fi \<subseteq> {0<..<fi_next_load_id fi} \<and> 0 < fi_next_load_id fi
     \<and> (\<forall>lid st. fi_loads fi lid = Some st \<longrightarrow> ls_id st = lid)"

definition demo_options :: ForwardIndexOptions where
  "demo_options = \<lparr>io_mode = kRealtimeDelta, io_shard_count = 2, io_hash_seed = 0, io_hash_version = 1,
     io_kafka_consumer = \<lparr>kc_bootstrap_servers = [], kc_group_id = [], kc_topics = []\<rparr>\<rparr>"

definition demo_index :: ForwardIndex where
  "demo_index = projr (NewForwardIndex demo_options)"

definition demo_shard :: "u32 \<Rightarrow> ShardState" where
  "demo_shard i = NewShardState i 1 \<lparr>ly_realtime_delta = Some 0, ly_compact_delta = None, ly_full_snapshot = None\<rparr>"

definition demo_published :: ForwardIndex where
  "demo_published = snd (publish_shard 1 (Some (demo_shard 1)) (snd (publish_shard 0 (Some (demo_shard 0)) demo_index)))"

definition demo_request :: LoadRequest where
  "demo_request = \<lparr>lr_artifact_uri = ''file:///data'', lr_artifact_id = ''a''\<rparr>"

definition demo_stat :: "string \<Rightarrow> FileKind option" where
  "demo_stat path = (if path = ''/data'' then Some RegularFile else None)"

definition demo_loading :: ForwardIndex where
  "demo_loading = snd (LoadAsync demo_stat demo_index demo_request)"

section \<open>Routing\<close>

lemma ShardFor_less:
  assumes "fi_ok fi"
  shows "unat (ShardFor fi k) < unat (io_shard_count (fi_options fi))"
proof -
  let ?h = "StableHash64 k (io_hash_seed (fi_options fi)) (io_hash_version (fi_options fi))"
  from assms obtain n where n: "n < 32" "io_shard_count (fi_options fi) = 2 ^ n"
    by (auto simp: fi_ok_def IsPowerOfTwo_iff)
  then have u: "unat (io_shard_count (fi_options fi)) = 2 ^ n" by (simp add: unat_pow2)
  have "(ucast (2 ^ n :: u32) :: u64) = 2 ^ n" using n(1) by (intro bit_word_eqI) (auto simp: bit_simps)
  then have "unat (?h AND (ucast (io_shard_count (fi_options fi)) - 1)) = unat ?h mod 2 ^ n"
    using unat_and_mask_pow2 [of ?h n] by (simp add: n(2))
  moreover have "unat (ShardFor fi k) \<le> unat (?h AND (ucast (io_shard_count (fi_options fi)) - 1))"
    by (simp add: ShardFor_def unsigned_ucast_eq take_bit_nat_less_eq_self)
  ultimately show ?thesis unfolding u by (metis le_less_trans mod_less_divisor zero_less_numeral zero_less_power)
qed

lemma or_throw_simps [simp]: "or_throw (Inr x) = Inr x" "or_throw (Inl e) = Inl (fi_ThrowStatus e)"
  by (simp_all add: or_throw_def)

lemma or_throw_Inr [simp]: "or_throw r = Inr x \<longleftrightarrow> r = Inr x"
  by (cases r) auto

lemma sd_Load_shard:
  assumes "fi_ok fi" and "s < unat (io_shard_count (fi_options fi))"
  shows "sd_Load (fi_shard_directory fi) (of_nat s) = Inr (sd_shards (fi_shard_directory fi) ! s)"
proof -
  have "s < 2 ^ 32" using assms(2) unsigned_less [of "io_shard_count (fi_options fi)", where ?'a = nat] by simp
  then have "unat (of_nat s :: u32) = s" by (simp add: unat_of_nat)
  with assms show ?thesis by (auto simp: sd_Load_def fi_ok_def word_le_nat_alt)
qed

lemma fi_Get_shard:
  assumes "fi_ok fi"
  shows "fi_Get h fi k = (case sd_shards (fi_shard_directory fi) ! unat (ShardFor fi k) of
     None \<Rightarrow> Inr None | Some s \<Rightarrow> or_throw (ss_Get h s k))"
  using sd_Load_shard [OF assms ShardFor_less [OF assms]] by (simp add: fi_Get_def)

lemma PositionsByShard_eq:
  assumes "fi_ok fi" and "s < unat (io_shard_count (fi_options fi))"
  shows "PositionsByShard fi keys ! s = filter (\<lambda>i. unat (ShardFor fi (keys ! i)) = s) [0..<length keys]"
proof -
  let ?n = "unat (io_shard_count (fi_options fi))"
  have "length ps = ?n \<Longrightarrow> fold (\<lambda>i positions. let s = unat (ShardFor fi (keys ! i)) in positions[s := positions ! s @ [i]]) is ps ! s
      = ps ! s @ filter (\<lambda>i. unat (ShardFor fi (keys ! i)) = s) is" for "is" ps
    using assms(2) ShardFor_less [OF assms(1)]
    by (induction "is" arbitrary: ps) (auto simp: Let_def nth_list_update)
  from this [of "replicate ?n []" "[0..<length keys]"] assms(2) show ?thesis by (simp add: PositionsByShard_def)
qed

section \<open>Batched reads\<close>

lemma fold_update_nth:
  "j < length rows \<Longrightarrow> fold (\<lambda>p rows. rows[p := f p]) ps rows ! j = (if j \<in> set ps then f j else rows ! j)"
  by (induction ps arbitrary: rows) (auto simp: nth_list_update)

lemma length_fold_update: "length (fold (\<lambda>p rows. rows[p := f p]) ps rows) = length rows"
  by (induction ps arbitrary: rows) auto

lemma fold_update_index:
  "fold (\<lambda>i rows. rows[ps ! i := map f ps ! i]) [0..<length ps] rows = fold (\<lambda>p rows. rows[p := f p]) ps rows"
proof -
  have "fold (\<lambda>i rows. rows[ps ! i := map f ps ! i]) [0..<length ps] rows
      = fold (\<lambda>p rows. rows[p := f p]) (map ((!) ps) [0..<length ps]) rows"
    unfolding fold_map by (rule fold_cong) auto
  then show ?thesis by (simp only: map_nth)
qed

lemma MGetShard_step:
  assumes ok: "fi_ok fi" and s: "s < unat (io_shard_count (fi_options fi))"
  shows "MGetShard h fi keys (PositionsByShard fi keys) s (rows_after h fi keys s) = Inr (rows_after h fi keys (Suc s))
       \<and> (\<forall>k \<in> set keys. unat (ShardFor fi k) = s \<longrightarrow> (\<exists>r. fi_Get h fi k = Inr r))
     \<or> (\<exists>k \<in> set keys. \<exists>e. unat (ShardFor fi k) = s \<and> fi_Get h fi k = Inl e
         \<and> MGetShard h fi keys (PositionsByShard fi keys) s (rows_after h fi keys s) = Inl e)"
proof -
  let ?ps = "filter (\<lambda>i. unat (ShardFor fi (keys ! i)) = s) [0..<length keys]"
  let ?shard = "sd_shards (fi_shard_directory fi) ! s"
  have get: "fi_Get h fi k = (case ?shard of None \<Rightarrow> Inr None | Some st \<Rightarrow> or_throw (ss_Get h st k))"
    if "unat (ShardFor fi k) = s" for k using fi_Get_shard [OF ok, of h k] that by simp
  have step: "MGetShard h fi keys (PositionsByShard fi keys) s rows =
      (if ?ps = [] then Inr rows else case ?shard of None \<Rightarrow> Inr rows
       | Some st \<Rightarrow> rbind (or_throw (mapM_res (ss_Get h st) (map ((!) keys) ?ps))) (\<lambda>vs.
           if length vs \<noteq> length ?ps then Inl (Throw ''shard returned a row count that does not match request count'')
           else Inr (fold (\<lambda>i rows. rows[?ps ! i := vs ! i]) [0..<length ?ps] rows)))" for rows
    unfolding MGetShard_def PositionsByShard_eq [OF ok s] sd_Load_shard [OF ok s] ss_MGet_def Let_def by simp
  have keep: "rows_after h fi keys (Suc s) = rows_after h fi keys s"
    if "\<forall>k \<in> set keys. unat (ShardFor fi k) = s \<longrightarrow> fi_Get h fi k = Inr None"
    using that by (auto simp: rows_after_def less_Suc_eq)
  show ?thesis
  proof (cases "?ps = [] \<or> ?shard = None")
    case True
    then have "\<forall>k \<in> set keys. unat (ShardFor fi k) = s \<longrightarrow> fi_Get h fi k = Inr None"
      using get by (auto simp: in_set_conv_nth filter_empty_conv) fastforce
    with True keep show ?thesis by (auto simp: step)
  next
    case False
    then obtain st where st: "?ps \<noteq> []" "?shard = Some st" by auto
    show ?thesis
    proof (cases "mapM_res (ss_Get h st) (map ((!) keys) ?ps)")
      case (Inl e)
      from mapM_res_Inl [OF Inl] obtain i where "i < length keys" "unat (ShardFor fi (keys ! i)) = s" "ss_Get h st (keys ! i) = Inl e"
        by auto
      then have "fi_Get h fi (keys ! i) = Inl (fi_ThrowStatus e)" using get [of "keys ! i"] st(2) by simp
      moreover have "MGetShard h fi keys (PositionsByShard fi keys) s (rows_after h fi keys s) = Inl (fi_ThrowStatus e)"
        using st by (simp add: step Inl del: map_eq_conv)
      ultimately show ?thesis using nth_mem [OF \<open>i < length keys\<close>] \<open>unat (ShardFor fi (keys ! i)) = s\<close> by blast
    next
      case (Inr vs)
      have g: "ss_Get h st (keys ! i) = Inr (projr (fi_Get h fi (keys ! i))) \<and> (\<exists>r. fi_Get h fi (keys ! i) = Inr r)"
        if "i \<in> set ?ps" for i
      proof -
        from that obtain j where j: "j < length ?ps" "?ps ! j = i" unfolding in_set_conv_nth by (elim exE conjE)
        from Inr have "\<forall>j < length (map ((!) keys) ?ps). ss_Get h st (map ((!) keys) ?ps ! j) = Inr (vs ! j)"
          unfolding mapM_res_Inr_iff by (rule conjunct2)
        from this [rule_format, of j] j have "ss_Get h st (keys ! i) = Inr (vs ! j)" by (simp only: length_map nth_map simp_thms)
        then show ?thesis using get [of "keys ! i"] that st by simp
      qed
      have "mapM_res (ss_Get h st) (map ((!) keys) ?ps) = Inr (map (\<lambda>k. projr (fi_Get h fi k)) (map ((!) keys) ?ps))"
        by (rule mapM_res_map) (use g in auto)
      then have vs: "vs = map (\<lambda>i. projr (fi_Get h fi (keys ! i))) ?ps" using Inr by simp
      have "MGetShard h fi keys (PositionsByShard fi keys) s (rows_after h fi keys s)
          = Inr (fold (\<lambda>i rows. rows[i := projr (fi_Get h fi (keys ! i))]) ?ps (rows_after h fi keys s))"
        using st by (simp add: step Inr fold_update_index [symmetric] vs del: rbind_eq_Inr)
      also have "fold (\<lambda>i rows. rows[i := projr (fi_Get h fi (keys ! i))]) ?ps (rows_after h fi keys s) = rows_after h fi keys (Suc s)"
        by (rule nth_equalityI) (auto simp: length_fold_update fold_update_nth rows_after_def less_Suc_eq)
      finally show ?thesis using g by (auto simp: in_set_conv_nth)
    qed
  qed
qed

lemma fi_MGet_from:
  assumes ok: "fi_ok fi" and n: "n \<le> unat (io_shard_count (fi_options fi))"
  shows "foldM_res (MGetShard h fi keys (PositionsByShard fi keys)) [0..<n] (replicate (length keys) None) = Inr (rows_after h fi keys n)
       \<and> (\<forall>k \<in> set keys. unat (ShardFor fi k) < n \<longrightarrow> (\<exists>r. fi_Get h fi k = Inr r))
     \<or> (\<exists>k \<in> set keys. \<exists>e. fi_Get h fi k = Inl e
         \<and> foldM_res (MGetShard h fi keys (PositionsByShard fi keys)) [0..<n] (replicate (length keys) None) = Inl e)"
  using n
proof (induction n)
  case 0
  then show ?case by (auto simp: rows_after_def map_replicate_const)
next
  case (Suc n)
  then have "n \<le> unat (io_shard_count (fi_options fi))" "n < unat (io_shard_count (fi_options fi))" by simp_all
  from Suc.IH [OF this(1)] MGetShard_step [OF ok this(2), of h keys] show ?case
    by (auto simp: foldM_res_append less_Suc_eq)
qed

lemma fi_MGet_cases:
  assumes "fi_ok fi"
  shows "fi_MGet h fi keys = Inr (map (\<lambda>k. projr (fi_Get h fi k)) keys) \<and> (\<forall>k \<in> set keys. \<exists>r. fi_Get h fi k = Inr r)
     \<or> (\<exists>k \<in> set keys. \<exists>e. fi_Get h fi k = Inl e \<and> fi_MGet h fi keys = Inl e)"
  using fi_MGet_from [OF assms order_refl, of h keys] ShardFor_less [OF assms]
  by (auto simp: fi_MGet_def rows_after_def)

text \<open>
  C35. A batched read gives the rows of the single reads, in the order of the request and with
  repeated keys repeated; it throws exactly when one of the single reads throws, and then what that
  read throws.
\<close>

theorem mget_is_map_get:
  assumes "fi_ok fi"
  shows "(fi_MGet h fi keys = Inr rows \<longleftrightarrow> mapM_res (fi_Get h fi) keys = Inr rows)
    \<and> (fi_MGet h fi keys = Inl e \<longrightarrow> (\<exists>k \<in> set keys. fi_Get h fi k = Inl e))"
proof -
  have "mapM_res (fi_Get h fi) keys = Inr (map (\<lambda>k. projr (fi_Get h fi k)) keys)"
    if "\<forall>k \<in> set keys. \<exists>r. fi_Get h fi k = Inr r"
    by (rule mapM_res_map) (use that in fastforce)
  moreover have "\<exists>e. mapM_res (fi_Get h fi) keys = Inl e" if "\<exists>k \<in> set keys. \<exists>e. fi_Get h fi k = Inl e"
    using that by (metis mapM_res_Inr_iff in_set_conv_nth sum.exhaust Inl_Inr_False)
  ultimately show ?thesis using fi_MGet_cases [OF assms, of h keys] by fastforce
qed

section \<open>Reachable indexes\<close>

inductive_cases load_stepE: "load_step stat fi fi'"

lemma load_step_ok:
  assumes "load_step stat fi fi'" and "fi_ok fi"
  shows "fi_ok fi' \<and> fi_options fi' = fi_options fi"
  using assms
proof cases
  case (publish shard_id state res)
  obtain r d where d: "sd_Publish (fi_shard_directory fi) shard_id state = (r, d)" by fastforce
  with publish have "fi' = fi\<lparr>fi_shard_directory := d\<rparr>" by (simp add: publish_shard_def)
  with assms(2) sd_Publish_cases [OF _ d, of 0] show ?thesis by (simp add: fi_ok_def)
qed (auto simp: fi_ok_def LoadAsync_def CancelLoad_def store_state_def worker_done_def Let_def
    split: sum.splits option.splits if_splits)

lemma load_steps_ok:
  assumes "(load_step stat)\<^sup>*\<^sup>* fi fi'" and "fi_ok fi"
  shows "fi_ok fi' \<and> fi_options fi' = fi_options fi"
  using assms by (induction rule: rtranclp_induct) (auto dest: load_step_ok)

lemma NewForwardIndex_ok: "NewForwardIndex options = Inr fi \<Longrightarrow> fi_ok fi \<and> fi_options fi = options"
  by (auto simp: NewForwardIndex_def fi_ok_def NewShardDirectory_ok split: if_splits)
    (simp_all add: NewShardDirectory_def)

text \<open>
  C37. In every index that the constructor and the later operations can reach, the shard of each key
  is in range, so a read finds its shard and fails only when that shard's layers fail.
\<close>

theorem index_routing:
  assumes "NewForwardIndex options = Inr fi0" and "(load_step stat)\<^sup>*\<^sup>* fi0 fi"
  shows "fi_ok fi \<and> unat (ShardFor fi k) < unat (io_shard_count options)
    \<and> fi_Get h fi k = (case sd_shards (fi_shard_directory fi) ! unat (ShardFor fi k) of
        None \<Rightarrow> Inr None | Some s \<Rightarrow> or_throw (ss_Get h s k))"
proof -
  have "fi_ok fi" and "fi_options fi = options"
    using NewForwardIndex_ok [OF assms(1)] load_steps_ok [OF assms(2)] by auto
  with ShardFor_less [of fi k] fi_Get_shard [of fi h k] show ?thesis by simp
qed

section \<open>Load states\<close>

lemma load_step_cancelled:
  assumes "load_step stat fi fi'" and "cancelled lid fi"
  shows "cancelled lid fi'"
  using assms
  by (elim load_stepE) (auto simp: cancelled_def LoadAsync_def CancelLoad_def store_state_def worker_done_def publish_shard_def
      emplace_def Let_def split: sum.splits option.splits if_splits prod.splits)

lemma load_steps_cancelled:
  assumes "(load_step stat)\<^sup>*\<^sup>* fi fi'" and "cancelled lid fi"
  shows "cancelled lid fi'"
  using assms by (induction rule: rtranclp_induct) (auto dest: load_step_cancelled)

text \<open>
  C36. Once a cancellation has been accepted the worker's flag is raised and the load is reported as
  cancelled for ever, whatever the worker stores afterwards; a second cancellation is refused.
\<close>

theorem cancel_is_final:
  assumes "CancelLoad lid fi = (True, fi1)" and "(load_step stat)\<^sup>*\<^sup>* fi1 fi2"
  shows "fi_load_cancellations fi1 lid \<noteq> Some False
    \<and> ls_code (GetLoadState fi2 lid) = kLoadCancelled \<and> ls_terminal (GetLoadState fi2 lid)
    \<and> CancelLoad lid fi2 = (False, fi2)"
proof -
  have "cancelled lid fi1" "fi_load_cancellations fi1 lid \<noteq> Some False"
    using assms(1) by (auto simp: CancelLoad_def cancelled_def split: option.splits if_splits)
  with load_steps_cancelled [OF assms(2)] show ?thesis
    by (fastforce simp: cancelled_def GetLoadState_def CancelLoad_def)
qed

lemma load_inv_new: "NewForwardIndex options = Inr fi \<Longrightarrow> load_inv fi"
  by (auto simp: NewForwardIndex_def load_inv_def used_ids_def split: if_splits)

lemma word_less_succ:
  fixes n :: u64
  assumes "n \<noteq> -1"
  shows "n < n + 1" and "x < n \<Longrightarrow> x < n + 1"
proof -
  have "unat n \<noteq> unat (-1 :: u64)" using assms unsigned_word_eqI by blast
  then have "unat n < 2 ^ 64 - 1" using unsigned_less [of n, where ?'a = nat] by simp
  then have "unat (n + 1) = unat n + 1" by (simp add: unat_word_ariths)
  then show "n < n + 1" "x < n \<Longrightarrow> x < n + 1" by (simp_all add: word_less_nat_alt)
qed

lemma LoadAsync_used:
  assumes "LoadAsync stat fi request = (lid, fi')"
  shows "lid = fi_next_load_id fi" and "fi_next_load_id fi' = fi_next_load_id fi + 1"
    and "used_ids fi' \<subseteq> insert lid (used_ids fi)"
    and "fi_loads fi' j = Some st \<Longrightarrow> fi_loads fi j = Some st \<or> ls_id st = j"
  using assms
  by (auto simp: LoadAsync_def used_ids_def emplace_def LoadState_of_def Let_def split: sum.splits option.splits if_splits)

lemma other_step_used:
  assumes "load_step stat fi fi'"
  shows "(\<exists>request lid. LoadAsync stat fi request = (lid, fi')) \<or>
    used_ids fi' \<subseteq> used_ids fi \<and> fi_next_load_id fi' = fi_next_load_id fi
    \<and> (\<forall>j st. fi_loads fi' j = Some st \<longrightarrow> ls_id st = j \<or> (\<exists>st0. fi_loads fi j = Some st0 \<and> ls_id st0 = ls_id st))"
  using assms
proof cases
  case (start request lid)
  then show ?thesis by blast
qed (auto simp: used_ids_def CancelLoad_def store_state_def worker_done_def publish_shard_def
      split: option.splits if_splits prod.splits)

lemma load_step_inv:
  assumes "load_step stat fi fi'" and inv: "load_inv fi" and "fi_next_load_id fi \<noteq> -1"
  shows "load_inv fi'"
proof -
  note W = word_less_succ [OF assms(3)]
  have ids: "ls_id st = j" if "fi_loads fi j = Some st" for j st using inv that by (simp add: load_inv_def)
  from other_step_used [OF assms(1)] show ?thesis
  proof (elim disjE exE)
    fix request lid assume la: "LoadAsync stat fi request = (lid, fi')"
    note U = LoadAsync_used [OF la]
    have "used_ids fi' \<subseteq> {0<..<fi_next_load_id fi'}"
      using U(1,3) inv W unfolding U(2) load_inv_def by (auto dest!: subsetD)
    moreover have "0 < fi_next_load_id fi'" unfolding U(2) using W(2) inv by (simp add: load_inv_def)
    ultimately show ?thesis using U(4) ids unfolding load_inv_def by blast
  next
    assume "used_ids fi' \<subseteq> used_ids fi \<and> fi_next_load_id fi' = fi_next_load_id fi
      \<and> (\<forall>j st. fi_loads fi' j = Some st \<longrightarrow> ls_id st = j \<or> (\<exists>st0. fi_loads fi j = Some st0 \<and> ls_id st0 = ls_id st))"
    with inv ids show ?thesis unfolding load_inv_def by (metis subset_trans)
  qed
qed

text \<open>
  A load request gets an id that no other load has, unless \<open>2 ^ 64\<close> requests have been made. A
  request that fails the check of its path is reported as failed and starts no worker; any other is
  reported as running, with its cancellation flag down and its worker started. No other load changes.
\<close>

lemma load_async_fresh:
  assumes "load_inv fi" and "LoadAsync stat fi request = (lid, fi')"
  shows "fi_loads fi lid = None
    \<and> GetLoadState fi' lid = (case PreflightLocalArtifactUri stat request of
        Inl e \<Rightarrow> LoadState_of lid kFailed True (lr_artifact_uri request) (lr_artifact_id request)
                   (failure_message e) (failure_message e)
      | Inr _ \<Rightarrow> LoadState_of lid kRunning False (lr_artifact_uri request) (lr_artifact_id request) [] [])
    \<and> (lid \<in> fst ` set (fi_load_workers fi') \<longleftrightarrow> PreflightLocalArtifactUri stat request = Inr ())
    \<and> (fi_load_cancellations fi' lid = Some False \<longleftrightarrow> PreflightLocalArtifactUri stat request = Inr ())
    \<and> (\<forall>j. j \<noteq> lid \<longrightarrow> fi_loads fi' j = fi_loads fi j)"
proof -
  have lid: "lid = fi_next_load_id fi"
    using assms(2) by (auto simp: LoadAsync_def Let_def split: sum.splits)
  then have "lid \<notin> used_ids fi" using assms(1) by (auto simp: load_inv_def)
  then have new: "fi_loads fi lid = None" "lid \<notin> fst ` set (fi_load_workers fi)" "fi_load_cancellations fi lid = None"
    by (auto simp: used_ids_def)
  show ?thesis
    using assms(2) new lid
    by (cases "PreflightLocalArtifactUri stat request")
      (auto simp: LoadAsync_def Let_def emplace_def GetLoadState_def)
qed

section \<open>Status reports\<close>

lemma shard_status_fold:
  assumes "fi_ok fi" and "n \<le> unat (io_shard_count (fi_options fi))"
  shows "fold (ShardStatusStep h fi) [0..<n] st = st\<lparr>us_shards := us_shards st @
    map (\<lambda>i. case sd_shards (fi_shard_directory fi) ! i of
      None \<Rightarrow> ShardRuntimeStatus_of (of_nat i) 0 | Some s \<Rightarrow> ss_GetRuntimeStatus h s) [0..<n]\<rparr>"
  using assms(2)
proof (induction n)
  case (Suc n)
  then show ?case using sd_Load_shard [OF assms(1), of n] by (auto simp: ShardStatusStep_def split: option.splits)
qed simp

lemma load_status_fold:
  "us_shards (fold LoadStatusStep sts st) = us_shards st \<and> us_loads (fold LoadStatusStep sts st) = us_loads st @ sts
   \<and> (us_last_error (fold LoadStatusStep sts st) = [] \<longleftrightarrow> us_last_error st = [] \<and> list_all (\<lambda>l. ls_last_error l = []) sts)"
  by (induction sts arbitrary: st) (auto simp: LoadStatusStep_def)

text \<open>
  The status report lists every shard in order, a shard without a state as an empty one, and
  every load; it names an error exactly when some load has one.
\<close>

theorem runtime_status_complete:
  assumes "fi_ok fi" and "set iteration = dom (fi_loads fi)" and "distinct iteration"
  shows "us_shards (fi_GetRuntimeStatus h iteration fi) =
      map (\<lambda>i. case sd_shards (fi_shard_directory fi) ! i of
        None \<Rightarrow> ShardRuntimeStatus_of (of_nat i) 0 | Some s \<Rightarrow> ss_GetRuntimeStatus h s)
        [0..<unat (io_shard_count (fi_options fi))]
    \<and> us_loads (fi_GetRuntimeStatus h iteration fi) = map (GetLoadState fi) iteration
    \<and> (us_last_error (fi_GetRuntimeStatus h iteration fi) = [] \<longleftrightarrow>
        (\<forall>st \<in> ran (fi_loads fi). ls_last_error st = []))"
proof -
  have mf: "List.map_filter (fi_loads fi) iteration = map (GetLoadState fi) iteration"
    using assms(2) unfolding List.map_filter_def
    by (intro map_cong) (auto simp: filter_id_conv GetLoadState_def split: option.splits)
  have "list_all (\<lambda>l. ls_last_error l = []) (map (GetLoadState fi) iteration) \<longleftrightarrow>
      (\<forall>lid st. fi_loads fi lid = Some st \<longrightarrow> ls_last_error st = [])"
    using assms(2) by (auto simp: list_all_iff GetLoadState_def split: option.splits)
  then show ?thesis
    unfolding fi_GetRuntimeStatus_def Let_def shard_status_fold [OF assms(1) order_refl] mf
    using load_status_fold [of "map (GetLoadState fi) iteration"] by (auto simp: ran_def)
qed

section \<open>Examples\<close>

lemma demo_index: "NewForwardIndex demo_options = Inr demo_index"
  by (simp add: demo_index_def NewForwardIndex_def demo_options_def IsPowerOfTwo_def ForwardIndexModeUsesKafkaRealtime_def)

lemma demo_published_reachable: "(load_step stat)\<^sup>*\<^sup>* demo_index demo_published"
  unfolding demo_published_def
  by (rule rtranclp.rtrancl_into_rtrancl [OF r_into_rtranclp]) (rule load_step.publish, rule surjective_pairing)+

lemma demo_published_ok: "fi_ok demo_published"
  using load_steps_ok [OF demo_published_reachable] NewForwardIndex_ok [OF demo_index] by blast

theorem mget_is_map_get_witness:
  "fi_MGet (\<lambda>_. plain_table) demo_published [7, 9, 7] =
     Inr [Some \<lparr>row_layout = Some plain_layout, row_encoded = Some (plain_row [1])\<rparr>, None,
          Some \<lparr>row_layout = Some plain_layout, row_encoded = Some (plain_row [1])\<rparr>]"
proof -
  have "mapM_res (fi_Get (\<lambda>_. plain_table) demo_published) [7, 9, 7] =
     Inr [Some \<lparr>row_layout = Some plain_layout, row_encoded = Some (plain_row [1])\<rparr>, None,
          Some \<lparr>row_layout = Some plain_layout, row_encoded = Some (plain_row [1])\<rparr>]" by code_simp
  with mget_is_map_get [OF demo_published_ok] show ?thesis by blast
qed

theorem index_routing_witness:
  "fi_Get (\<lambda>_. plain_table) demo_published 9 = or_throw (ss_Get (\<lambda>_. plain_table) (demo_shard (ShardFor demo_published 9)) 9)"
proof -
  have "sd_shards (fi_shard_directory demo_published) ! unat (ShardFor demo_published 9)
      = Some (demo_shard (ShardFor demo_published 9))" by code_simp
  with index_routing [OF demo_index demo_published_reachable, of 9 "\<lambda>_. plain_table"] show ?thesis by simp
qed

theorem cancel_is_final_witness:
  "let fi1 = snd (CancelLoad 1 demo_loading);
       fi2 = store_state 1 (LoadState_of 1 kSucceeded True [] [] [] ''artifact load succeeded'') fi1
   in fst (CancelLoad 1 demo_loading) \<and> ls_code (GetLoadState fi2 1) = kLoadCancelled \<and> \<not> fst (CancelLoad 1 fi2)"
proof -
  let ?fi1 = "snd (CancelLoad 1 demo_loading)"
  let ?fi2 = "store_state 1 (LoadState_of 1 kSucceeded True [] [] [] ''artifact load succeeded'') ?fi1"
  have t: "fst (CancelLoad 1 demo_loading)" by code_simp
  then have c: "CancelLoad 1 demo_loading = (True, ?fi1)" by (metis (full_types) surjective_pairing)
  have "1 \<in> fst ` set (fi_load_workers ?fi1)" by code_simp
  then have "load_step demo_stat ?fi1 ?fi2" by (rule load_step.store) (simp_all add: LoadState_of_def)
  then have s: "(load_step demo_stat)\<^sup>*\<^sup>* ?fi1 ?fi2" by blast
  from cancel_is_final [OF c s] t show ?thesis unfolding Let_def by simp
qed


theorem runtime_status_complete_witness:
  "us_shards (fi_GetRuntimeStatus (\<lambda>_. plain_table) [1] demo_loading) = [ShardRuntimeStatus_of 0 0, ShardRuntimeStatus_of 1 0]
   \<and> us_loads (fi_GetRuntimeStatus (\<lambda>_. plain_table) [1] demo_loading) = [GetLoadState demo_loading 1]"
proof -
  have "LoadAsync demo_stat demo_index demo_request = (fst (LoadAsync demo_stat demo_index demo_request), demo_loading)"
    by (simp add: demo_loading_def)
  then have "load_step demo_stat demo_index demo_loading" by (rule load_step.start)
  then have ok: "fi_ok demo_loading" "fi_options demo_loading = demo_options"
    using load_step_ok NewForwardIndex_ok [OF demo_index] by auto
  have d: "fi_loads demo_loading = [1 \<mapsto> GetLoadState demo_loading 1]"
    by (simp add: demo_loading_def LoadAsync_def demo_index_def NewForwardIndex_def demo_options_def IsPowerOfTwo_def
        ForwardIndexModeUsesKafkaRealtime_def emplace_def GetLoadState_def Let_def split: sum.splits)
  have sh: "sd_shards (fi_shard_directory demo_loading) = [None, None]" by code_simp
  have "set [1] = dom (fi_loads demo_loading)" by (subst d) simp
  from runtime_status_complete [OF ok(1) this, of "\<lambda>_. plain_table"] show ?thesis
    by (simp add: ok(2) demo_options_def sh upt_rec)
qed

end
