(* ===== verification/Payload_Codec.thy ===== *)
theory Payload_Codec
  imports Row_Storage
begin

text \<open>
  The first half of \<open>src/ingest/update_applier.cc\<close>: the reader of the Kafka upsert payload. The
  bytes of a message are parsed by a \<open>ByteReader\<close> that checks what is left before every read; a
  payload is a complete-row frame of fields with an id, a kind and the bytes of a value. The frame
  that the comment at the top of the file describes is written down as \<open>payload_bytes\<close>, and the
  decoder is shown to accept exactly these frames.

  \<open>WireKind\<close> is an enum over \<open>uint8_t\<close> that is made from an arbitrary byte, so it is a byte here.
  The calls of \<open>reserve\<close> have no counterpart.
\<close>

section \<open>Data\<close>

definition kWireVersion :: u16 where "kWireVersion = 1"

type_synonym WireKind = u8

abbreviation (input) kWireNull :: WireKind where "kWireNull \<equiv> 0"
abbreviation (input) kWireInt8 :: WireKind where "kWireInt8 \<equiv> 1"
abbreviation (input) kWireInt32 :: WireKind where "kWireInt32 \<equiv> 2"
abbreviation (input) kWireInt64 :: WireKind where "kWireInt64 \<equiv> 3"
abbreviation (input) kWireUInt64 :: WireKind where "kWireUInt64 \<equiv> 4"
abbreviation (input) kWireBool :: WireKind where "kWireBool \<equiv> 5"
abbreviation (input) kWireString :: WireKind where "kWireString \<equiv> 6"
abbreviation (input) kWireInt8List :: WireKind where "kWireInt8List \<equiv> 17"
abbreviation (input) kWireInt32List :: WireKind where "kWireInt32List \<equiv> 18"
abbreviation (input) kWireInt64List :: WireKind where "kWireInt64List \<equiv> 19"
abbreviation (input) kWireUInt64List :: WireKind where "kWireUInt64List \<equiv> 20"
abbreviation (input) kWireBoolList :: WireKind where "kWireBoolList \<equiv> 21"
abbreviation (input) kWireStringList :: WireKind where "kWireStringList \<equiv> 22"

datatype DecodedValue = VNull | VScalar ScalarValue | VList ListValue

record DecodedField =
  df_field_id :: FieldId
  df_kind :: WireKind
  df_value :: DecodedValue

record DecodedPayload =
  dp_fields :: "DecodedField list"

record ByteReader =
  br_bytes :: "byte list"
  br_offset :: nat

section \<open>The reader\<close>

definition NewByteReader :: "byte list \<Rightarrow> ByteReader" where
  "NewByteReader bytes = \<lparr>br_bytes = bytes, br_offset = 0\<rparr>"

definition remaining :: "ByteReader \<Rightarrow> nat" where
  "remaining r = length (br_bytes r) - br_offset r"

definition ReadInteger :: "ByteReader \<Rightarrow> ('a :: len word \<times> ByteReader) res" where
  "ReadInteger r =
     (if remaining r < sizeof TYPE('a) then Inl (InvalidArgument ''payload is truncated'')
      else rbind (ReadLittleEndian (br_bytes r) (br_offset r)) (\<lambda>value.
           Inr (value, r\<lparr>br_offset := br_offset r + sizeof TYPE('a)\<rparr>)))"

definition ReadUInt8 :: "ByteReader \<Rightarrow> (u8 \<times> ByteReader) res" where
  "ReadUInt8 r =
     (if remaining r < 1 then Inl (InvalidArgument ''payload is truncated'')
      else Inr (br_bytes r ! br_offset r, r\<lparr>br_offset := br_offset r + 1\<rparr>))"

definition ReadBytes :: "nat \<Rightarrow> ByteReader \<Rightarrow> (byte list \<times> ByteReader) res" where
  "ReadBytes sz r =
     (if remaining r < sz then Inl (InvalidArgument ''payload field is truncated'')
      else Inr (subspan (br_offset r) sz (br_bytes r), r\<lparr>br_offset := br_offset r + sz\<rparr>))"

section \<open>Values\<close>

definition ReadExactInteger :: "byte list \<Rightarrow> 'a :: len word res" where
  "ReadExactInteger bytes =
     (if length bytes \<noteq> sizeof TYPE('a) then Inl (InvalidArgument ''payload scalar byte length is invalid'')
      else ReadLittleEndian bytes 0)"

definition ReadBool :: "byte list \<Rightarrow> bool res" where
  "ReadBool bytes =
     rbind (ReadExactInteger bytes) (\<lambda>value :: u8.
     if value > 1 then Inl (InvalidArgument ''payload bool value is invalid'') else Inr (value \<noteq> 0))"

text \<open>A loop that reads a number of items one after the other.\<close>

fun ReadItems :: "(ByteReader \<Rightarrow> ('x \<times> ByteReader) res) \<Rightarrow> nat \<Rightarrow> ByteReader \<Rightarrow> ('x list \<times> ByteReader) res" where
  "ReadItems item 0 r = Inr ([], r)"
| "ReadItems item (Suc n) r =
     rbind (item r) (\<lambda>(value, r). rbind (ReadItems item n r) (\<lambda>(values, r). Inr (value # values, r)))"

definition ReadScalarList :: "byte list \<Rightarrow> 'a :: len word list res" where
  "ReadScalarList bytes =
     rbind (ReadInteger (NewByteReader bytes)) (\<lambda>(count :: u32, reader).
     if remaining reader \<noteq> unat count * sizeof TYPE('a)
     then Inl (InvalidArgument ''payload list byte length is invalid'')
     else rbind (ReadItems ReadInteger (unat count) reader) (\<lambda>(values, _). Inr values))"

definition ReadBoolItem :: "ByteReader \<Rightarrow> (bool \<times> ByteReader) res" where
  "ReadBoolItem r =
     rbind (ReadUInt8 r) (\<lambda>(raw, r).
     if raw > 1 then Inl (InvalidArgument ''payload bool-list value is invalid'') else Inr (raw \<noteq> 0, r))"

definition ReadBoolList :: "byte list \<Rightarrow> bool list res" where
  "ReadBoolList bytes =
     rbind (ReadInteger (NewByteReader bytes)) (\<lambda>(count :: u32, reader).
     if remaining reader \<noteq> unat count
     then Inl (InvalidArgument ''payload bool-list byte length is invalid'')
     else rbind (ReadItems ReadBoolItem (unat count) reader) (\<lambda>(values, _). Inr values))"

definition ReadStringItem :: "ByteReader \<Rightarrow> (string \<times> ByteReader) res" where
  "ReadStringItem r =
     rbind (ReadInteger r) (\<lambda>(len :: u32, r).
     rbind (ReadBytes (unat len) r) (\<lambda>(raw, r). Inr (string_of_bytes raw, r)))"

definition ReadStringList :: "byte list \<Rightarrow> string list res" where
  "ReadStringList bytes =
     rbind (ReadInteger (NewByteReader bytes)) (\<lambda>(count :: u32, reader).
     rbind (ReadItems ReadStringItem (unat count) reader) (\<lambda>(values, reader).
     if remaining reader \<noteq> 0 then Inl (InvalidArgument ''payload string-list has trailing bytes'')
     else Inr values))"

definition ToDecodedValue :: "('x \<Rightarrow> DecodedValue) \<Rightarrow> 'x res \<Rightarrow> DecodedValue res" where
  "ToDecodedValue f value = rbind value (\<lambda>v. Inr (f v))"

definition DecodeValue :: "WireKind \<Rightarrow> byte list \<Rightarrow> DecodedValue res" where
  "DecodeValue kind bytes =
     (if kind = kWireNull then
        (if bytes \<noteq> [] then Inl (InvalidArgument ''payload null field must be empty'') else Inr VNull)
      else if kind = kWireInt8 then ToDecodedValue (VScalar \<circ> SInt8) (ReadExactInteger bytes)
      else if kind = kWireInt32 then ToDecodedValue (VScalar \<circ> SInt32) (ReadExactInteger bytes)
      else if kind = kWireInt64 then ToDecodedValue (VScalar \<circ> SInt64) (ReadExactInteger bytes)
      else if kind = kWireUInt64 then ToDecodedValue (VScalar \<circ> SUInt64) (ReadExactInteger bytes)
      else if kind = kWireBool then ToDecodedValue (VScalar \<circ> SBool) (ReadBool bytes)
      else if kind = kWireString then Inr (VScalar (SString (string_of_bytes bytes)))
      else if kind = kWireInt8List then ToDecodedValue (VList \<circ> LInt8) (ReadScalarList bytes)
      else if kind = kWireInt32List then ToDecodedValue (VList \<circ> LInt32) (ReadScalarList bytes)
      else if kind = kWireInt64List then ToDecodedValue (VList \<circ> LInt64) (ReadScalarList bytes)
      else if kind = kWireUInt64List then ToDecodedValue (VList \<circ> LUInt64) (ReadScalarList bytes)
      else if kind = kWireBoolList then ToDecodedValue (VList \<circ> LBool) (ReadBoolList bytes)
      else if kind = kWireStringList then ToDecodedValue (VList \<circ> LString) (ReadStringList bytes)
      else Inl (InvalidArgument ''payload field kind is unsupported''))"

section \<open>Frames\<close>

text \<open>The body of the field loop after the field id has been read.\<close>

definition ReadFieldBody :: "FieldId \<Rightarrow> ByteReader \<Rightarrow> (DecodedField \<times> ByteReader) res" where
  "ReadFieldBody field_id r =
     rbind (ReadUInt8 r) (\<lambda>(kind, r).
     rbind (ReadInteger r) (\<lambda>(byte_length :: u32, r).
     rbind (ReadBytes (unat byte_length) r) (\<lambda>(field_bytes, r).
     rbind (DecodeValue kind field_bytes) (\<lambda>value.
     Inr (\<lparr>df_field_id = field_id, df_kind = kind, df_value = value\<rparr>, r)))))"

fun ReadFields :: "nat \<Rightarrow> FieldId set \<Rightarrow> ByteReader \<Rightarrow> (DecodedField list \<times> ByteReader) res" where
  "ReadFields 0 seen_fields r = Inr ([], r)"
| "ReadFields (Suc n) seen_fields r =
     rbind (ReadInteger r) (\<lambda>(field_id, r).
     if field_id \<in> seen_fields then Inl (InvalidArgument ''payload contains duplicate field id'')
     else
       rbind (ReadFieldBody field_id r) (\<lambda>(field, r).
       rbind (ReadFields n (insert field_id seen_fields) r) (\<lambda>(rest, r).
       Inr (field # rest, r))))"

definition kMagic :: "byte list" where "kMagic = bytes_of_string ''KVIU''"

definition DecodePayload :: "byte list \<Rightarrow> DecodedPayload res" where
  "DecodePayload bytes =
     (if length bytes < 12 \<or> take 4 bytes \<noteq> kMagic then Inl (InvalidArgument ''payload magic is invalid'')
      else
        rbind (ReadInteger (NewByteReader (drop 4 bytes))) (\<lambda>(version, r).
        if version \<noteq> kWireVersion then Inl (InvalidArgument ''payload version is unsupported'')
        else
          rbind (ReadInteger r) (\<lambda>(flags :: u16, r).
          if flags \<noteq> 0 then Inl (InvalidArgument ''payload flags are unsupported'')
          else
            rbind (ReadInteger r) (\<lambda>(field_count :: u32, r).
            rbind (ReadFields (unat field_count) {} r) (\<lambda>(decoded, r).
            if remaining r \<noteq> 0 then Inl (InvalidArgument ''payload has trailing bytes'')
            else Inr \<lparr>dp_fields = decoded\<rparr>)))))"

definition dp_Find :: "DecodedPayload \<Rightarrow> FieldId \<Rightarrow> DecodedField option" where
  "dp_Find payload field_id = find (\<lambda>field. df_field_id field = field_id) (dp_fields payload)"

section \<open>The wire format\<close>

text \<open>The bytes of each part of a frame, as the comment in the source describes them.\<close>

definition counted_bytes :: "('x \<Rightarrow> byte list) \<Rightarrow> 'x list \<Rightarrow> byte list" where
  "counted_bytes enc xs = le_bytes (of_nat (length xs) :: u32) @ concat (map enc xs)"

definition bool_bytes :: "bool \<Rightarrow> byte list" where
  "bool_bytes b = [if b then 1 else 0]"

definition sized_bytes :: "byte list \<Rightarrow> byte list" where
  "sized_bytes bs = le_bytes (of_nat (length bs) :: u32) @ bs"

fun wire_kind :: "DecodedValue \<Rightarrow> WireKind" where
  "wire_kind VNull = 0"
| "wire_kind (VScalar (SInt8 v)) = 1"
| "wire_kind (VScalar (SInt32 v)) = 2"
| "wire_kind (VScalar (SInt64 v)) = 3"
| "wire_kind (VScalar (SUInt64 v)) = 4"
| "wire_kind (VScalar (SBool v)) = 5"
| "wire_kind (VScalar (SString v)) = 6"
| "wire_kind (VList (LInt8 vs)) = 17"
| "wire_kind (VList (LInt32 vs)) = 18"
| "wire_kind (VList (LInt64 vs)) = 19"
| "wire_kind (VList (LUInt64 vs)) = 20"
| "wire_kind (VList (LBool vs)) = 21"
| "wire_kind (VList (LString vs)) = 22"

fun wire_bytes :: "DecodedValue \<Rightarrow> byte list" where
  "wire_bytes VNull = []"
| "wire_bytes (VScalar (SInt8 v)) = le_bytes v"
| "wire_bytes (VScalar (SInt32 v)) = le_bytes v"
| "wire_bytes (VScalar (SInt64 v)) = le_bytes v"
| "wire_bytes (VScalar (SUInt64 v)) = le_bytes v"
| "wire_bytes (VScalar (SBool v)) = bool_bytes v"
| "wire_bytes (VScalar (SString v)) = bytes_of_string v"
| "wire_bytes (VList (LInt8 vs)) = counted_bytes le_bytes vs"
| "wire_bytes (VList (LInt32 vs)) = counted_bytes le_bytes vs"
| "wire_bytes (VList (LInt64 vs)) = counted_bytes le_bytes vs"
| "wire_bytes (VList (LUInt64 vs)) = counted_bytes le_bytes vs"
| "wire_bytes (VList (LBool vs)) = counted_bytes bool_bytes vs"
| "wire_bytes (VList (LString vs)) = counted_bytes (sized_bytes \<circ> bytes_of_string) vs"

fun value_small :: "DecodedValue \<Rightarrow> bool" where
  "value_small (VList (LString vs)) \<longleftrightarrow> length vs < 2 ^ 32 \<and> (\<forall>s \<in> set vs. length s < 2 ^ 32)"
| "value_small (VList vs) \<longleftrightarrow> list_length vs < 2 ^ 32"
| "value_small _ \<longleftrightarrow> True"

definition field_bytes :: "DecodedField \<Rightarrow> byte list" where
  "field_bytes f = le_bytes (df_field_id f) @ [df_kind f] @ sized_bytes (wire_bytes (df_value f))"

definition field_ok :: "DecodedField \<Rightarrow> bool" where
  "field_ok f \<longleftrightarrow> df_kind f = wire_kind (df_value f) \<and> value_small (df_value f)
     \<and> length (wire_bytes (df_value f)) < 2 ^ 32"

definition payload_bytes :: "DecodedPayload \<Rightarrow> byte list" where
  "payload_bytes p = kMagic @ le_bytes kWireVersion @ le_bytes (0 :: u16) @ counted_bytes field_bytes (dp_fields p)"

definition payload_ok :: "DecodedPayload \<Rightarrow> bool" where
  "payload_ok p \<longleftrightarrow> length (dp_fields p) < 2 ^ 32 \<and> distinct (map df_field_id (dp_fields p))
     \<and> (\<forall>f \<in> set (dp_fields p). field_ok f)"

definition reader_ok :: "ByteReader \<Rightarrow> bool" where
  "reader_ok r \<longleftrightarrow> br_offset r \<le> length (br_bytes r)"

definition unread :: "ByteReader \<Rightarrow> byte list" where
  "unread r = drop (br_offset r) (br_bytes r)"

text \<open>
  A parser for the encodings of the values that satisfy \<open>V\<close>: it succeeds exactly when the unread
  bytes begin with the encoding of such a value, and leaves the bytes behind it.
\<close>

definition parses :: "(ByteReader \<Rightarrow> ('x \<times> ByteReader) res) \<Rightarrow> ('x \<Rightarrow> byte list) \<Rightarrow> ('x \<Rightarrow> bool) \<Rightarrow> bool" where
  "parses p enc V \<longleftrightarrow> (\<forall>r x r'. reader_ok r \<longrightarrow> (p r = Inr (x, r') \<longleftrightarrow>
     V x \<and> reader_ok r' \<and> br_bytes r' = br_bytes r \<and> unread r = enc x @ unread r'))"

section \<open>Parsers\<close>

lemma parsesD:
  assumes "parses p enc V" and "reader_ok r"
  shows "p r = Inr (x, r') \<longleftrightarrow> V x \<and> reader_ok r' \<and> br_bytes r' = br_bytes r \<and> unread r = enc x @ unread r'"
  using assms by (simp add: parses_def)

lemma remaining_unread: "reader_ok r \<Longrightarrow> remaining r = length (unread r)"
  by (simp add: remaining_def unread_def)

lemma reader_step:
  assumes "reader_ok r" and "length bs = n"
  shows "unread r = bs @ unread r' \<and> reader_ok r' \<and> br_bytes r' = br_bytes r \<longleftrightarrow>
    n \<le> remaining r \<and> take n (unread r) = bs \<and> r' = r\<lparr>br_offset := br_offset r + n\<rparr>"
proof
  assume a: "unread r = bs @ unread r' \<and> reader_ok r' \<and> br_bytes r' = br_bytes r"
  then have "length (unread r) = n + length (unread r')" using assms(2) by simp
  then have "br_offset r' = br_offset r + n" using a assms(1) by (auto simp: unread_def reader_ok_def)
  then have "r' = r\<lparr>br_offset := br_offset r + n\<rparr>" using a by (cases r, cases r') simp
  with a assms show "n \<le> remaining r \<and> take n (unread r) = bs \<and> r' = r\<lparr>br_offset := br_offset r + n\<rparr>"
    by (simp add: remaining_unread)
next
  assume a: "n \<le> remaining r \<and> take n (unread r) = bs \<and> r' = r\<lparr>br_offset := br_offset r + n\<rparr>"
  then show "unread r = bs @ unread r' \<and> reader_ok r' \<and> br_bytes r' = br_bytes r"
    using assms append_take_drop_id [of n "unread r"] by (auto simp: unread_def reader_ok_def remaining_def add.commute)
qed

lemma parses_ReadInteger:
  assumes "8 dvd LENGTH('a :: len)"
  shows "parses (ReadInteger :: ByteReader \<Rightarrow> ('a word \<times> ByteReader) res) le_bytes (\<lambda>_. True)"
  unfolding parses_def
proof (intro allI impI)
  fix r r' and x :: "'a word"
  assume ok: "reader_ok r"
  let ?n = "sizeof TYPE('a)"
  have st: "le_word (take ?n (unread r)) = x \<longleftrightarrow> take ?n (unread r) = le_bytes x" if "?n \<le> remaining r"
    using le_bytes_le_word [OF assms, of "take ?n (unread r)"] le_word_le_bytes [OF assms] that
    by (auto simp: remaining_unread [OF ok])
  have "ReadInteger r = Inr (x, r') \<longleftrightarrow>
      ?n \<le> remaining r \<and> le_word (take ?n (unread r)) = x \<and> r' = r\<lparr>br_offset := br_offset r + ?n\<rparr>"
    using ok by (auto simp: ReadInteger_def ReadLittleEndian_eq remaining_def reader_ok_def subspan_def unread_def)
  then show "ReadInteger r = Inr (x, r') \<longleftrightarrow>
      True \<and> reader_ok r' \<and> br_bytes r' = br_bytes r \<and> unread r = le_bytes x @ unread r'"
    using reader_step [OF ok length_le_bytes, of x r'] st by auto
qed

lemma parses_u16: "parses (ReadInteger :: ByteReader \<Rightarrow> (u16 \<times> ByteReader) res) le_bytes (\<lambda>_. True)"
  by (rule parses_ReadInteger) simp

lemma parses_u32: "parses (ReadInteger :: ByteReader \<Rightarrow> (u32 \<times> ByteReader) res) le_bytes (\<lambda>_. True)"
  by (rule parses_ReadInteger) simp

lemma parses_ReadUInt8: "parses ReadUInt8 (\<lambda>v. [v]) (\<lambda>_. True)"
  unfolding parses_def
proof (intro allI impI)
  fix r r' and x :: u8
  assume ok: "reader_ok r"
  have "take 1 (unread r) = [x] \<longleftrightarrow> br_bytes r ! br_offset r = x" if "1 \<le> remaining r"
    using that by (auto simp: unread_def remaining_def take_Suc hd_drop_conv_nth)
  then show "ReadUInt8 r = Inr (x, r') \<longleftrightarrow> True \<and> reader_ok r' \<and> br_bytes r' = br_bytes r \<and> unread r = [x] @ unread r'"
    using reader_step [OF ok, of "[x]" 1 r'] by (auto simp: ReadUInt8_def not_less_eq_eq not_less)
qed

lemma parses_ReadBytes: "parses (ReadBytes n) (\<lambda>bs. bs) (\<lambda>bs. length bs = n)"
  unfolding parses_def
proof (intro allI impI)
  fix r r' and bs :: "byte list"
  assume ok: "reader_ok r"
  show "ReadBytes n r = Inr (bs, r') \<longleftrightarrow> length bs = n \<and> reader_ok r' \<and> br_bytes r' = br_bytes r \<and> unread r = bs @ unread r'"
  proof -
    have "ReadBytes n r = Inr (bs, r') \<longleftrightarrow>
        n \<le> remaining r \<and> take n (unread r) = bs \<and> r' = r\<lparr>br_offset := br_offset r + n\<rparr>"
      by (auto simp: ReadBytes_def subspan_def unread_def)
    moreover have "length bs = n" if "n \<le> remaining r" "take n (unread r) = bs"
      using that by (auto simp: remaining_unread [OF ok])
    ultimately show ?thesis using reader_step [OF ok, of bs n r'] by blast
  qed
qed

text \<open>Two parsers in sequence.\<close>

lemma parses_seq:
  assumes p: "parses p enc V" and q: "\<And>x. V x \<Longrightarrow> parses (q x) (enc' x) (V' x)" and ok: "reader_ok r"
  shows "(\<exists>x r1. p r = Inr (x, r1) \<and> q x r1 = Inr (y, r') \<and> P x) \<longleftrightarrow>
    (\<exists>x. V x \<and> V' x y \<and> P x \<and> reader_ok r' \<and> br_bytes r' = br_bytes r \<and> unread r = enc x @ enc' x y @ unread r')"
    (is "?A \<longleftrightarrow> ?B")
proof
  assume ?A
  then obtain x r1 where x: "p r = Inr (x, r1)" "q x r1 = Inr (y, r')" "P x" by blast
  then have r1: "V x" "reader_ok r1" "br_bytes r1 = br_bytes r" "unread r = enc x @ unread r1"
    using parsesD [OF p ok] by auto
  with x parsesD [OF q [OF r1(1)] r1(2)] show ?B by auto
next
  assume ?B
  then obtain x where x: "V x" "V' x y" "P x" "reader_ok r'" "br_bytes r' = br_bytes r" "unread r = enc x @ enc' x y @ unread r'" by blast
  let ?r1 = "r\<lparr>br_offset := br_offset r + length (enc x)\<rparr>"
  have "length (enc x) \<le> remaining r \<and> take (length (enc x)) (unread r) = enc x"
    using x(6) remaining_unread [OF ok] by simp
  then have r1: "unread r = enc x @ unread ?r1 \<and> reader_ok ?r1 \<and> br_bytes ?r1 = br_bytes r"
    using reader_step [OF ok refl, of "enc x" ?r1] by simp
  then have "p r = Inr (x, ?r1)" using parsesD [OF p ok, of x ?r1] x(1) by simp
  moreover have "unread ?r1 = enc' x y @ unread r'" using r1 x(6) by simp
  then have "q x ?r1 = Inr (y, r')" using parsesD [OF q [OF x(1)], of ?r1 y r'] r1 x by simp
  ultimately show ?A using x(3) by blast
qed

text \<open>Reading nothing.\<close>

lemma parses_nothing:
  assumes "good []"
  shows "parses (\<lambda>r. Inr ([], r)) (\<lambda>xs. concat (map enc xs)) (\<lambda>xs. length xs = 0 \<and> good xs)"
  unfolding parses_def
proof (intro allI impI)
  fix r r' and xs assume "reader_ok r"
  then show "Inr ([], r) = (Inr (xs, r') :: _ res) \<longleftrightarrow> (length xs = 0 \<and> good xs) \<and> reader_ok r'
      \<and> br_bytes r' = br_bytes r \<and> unread r = concat (map enc xs) @ unread r'"
    using reader_step [of r "[]" 0 r'] assms by auto
qed

lemma u8_gt_1: "(v :: u8) > 1 \<longleftrightarrow> v \<noteq> 0 \<and> v \<noteq> 1"
proof -
  have "v = 1" if "unat v = unat (1 :: u8)" using that unsigned_word_eqI by blast
  moreover have "v = 0" if "unat v = unat (0 :: u8)" using that unsigned_word_eqI by blast
  ultimately have "unat v \<noteq> 0 \<and> unat v \<noteq> 1" if "v \<noteq> 0" "v \<noteq> 1" using that by auto
  then show ?thesis by (auto simp: word_less_nat_alt)
qed

text \<open>What is parsed item by item is the concatenation of the items.\<close>

locale item_parser =
  fixes item :: "ByteReader \<Rightarrow> ('x \<times> ByteReader) res"
    and enc :: "'x \<Rightarrow> byte list"
    and good :: "'x \<Rightarrow> bool"
  assumes item: "parses item enc good"
begin

lemma items: "parses (ReadItems item n) (\<lambda>xs. concat (map enc xs)) (\<lambda>xs. length xs = n \<and> (\<forall>x \<in> set xs. good x))"
proof (induction n)
  case 0
  show ?case using parses_nothing [of "\<lambda>xs. \<forall>x \<in> set xs. good x" enc] by (simp add: parses_def)
next
  case (Suc n)
  show ?case
    unfolding parses_def
  proof (intro allI impI)
    fix r xs r' assume ok: "reader_ok r"
    have "ReadItems item (Suc n) r = Inr (xs, r') \<longleftrightarrow>
        (\<exists>x r1. item r = Inr (x, r1) \<and> ReadItems item n r1 = Inr (tl xs, r') \<and> (xs \<noteq> [] \<and> hd xs = x))"
      by (cases xs) auto
    also have "\<dots> \<longleftrightarrow> (\<exists>x. good x \<and> (length (tl xs) = n \<and> (\<forall>x \<in> set (tl xs). good x)) \<and> (xs \<noteq> [] \<and> hd xs = x)
        \<and> reader_ok r' \<and> br_bytes r' = br_bytes r \<and> unread r = enc x @ concat (map enc (tl xs)) @ unread r')"
      by (rule parses_seq [OF item Suc.IH ok])
    also have "\<dots> \<longleftrightarrow> (length xs = Suc n \<and> (\<forall>x \<in> set xs. good x)) \<and> reader_ok r'
        \<and> br_bytes r' = br_bytes r \<and> unread r = concat (map enc xs) @ unread r'"
      by (cases xs) auto
    finally show "ReadItems item (Suc n) r = Inr (xs, r') \<longleftrightarrow> (length xs = Suc n \<and> (\<forall>x \<in> set xs. good x)) \<and> reader_ok r'
        \<and> br_bytes r' = br_bytes r \<and> unread r = concat (map enc xs) @ unread r'" .
  qed
qed

lemma counted:
  "(\<exists>count r r'. ReadInteger (NewByteReader bs) = Inr (count :: u32, r) \<and> ReadItems item (unat count) r = Inr (xs, r') \<and> remaining r' = 0)
   \<longleftrightarrow> bs = counted_bytes enc xs \<and> length xs < 2 ^ 32 \<and> (\<forall>x \<in> set xs. good x)" (is "?A \<longleftrightarrow> ?B")
proof -
  let ?r = "NewByteReader bs"
  have ok: "reader_ok ?r" and u: "unread ?r = bs" "br_bytes ?r = bs"
    by (simp_all add: reader_ok_def unread_def NewByteReader_def)
  have len: "length xs = unat c \<longleftrightarrow> c = of_nat (length xs) \<and> length xs < 2 ^ 32" for c :: u32
    using unsigned_less [of c, where ?'a = nat] by (auto simp: unat_of_nat)
  have "?A \<longleftrightarrow> (\<exists>r'. remaining r' = 0 \<and> (\<exists>c r1. ReadInteger ?r = Inr (c :: u32, r1) \<and> ReadItems item (unat c) r1 = Inr (xs, r') \<and> True))"
    by auto
  also have "\<dots> \<longleftrightarrow> (\<exists>r'. remaining r' = 0 \<and> (\<exists>c :: u32. True \<and> (length xs = unat c \<and> (\<forall>x \<in> set xs. good x)) \<and> True \<and>
      reader_ok r' \<and> br_bytes r' = br_bytes ?r \<and> unread ?r = le_bytes c @ concat (map enc xs) @ unread r'))"
    unfolding parses_seq [OF parses_u32 items ok] ..
  also have "\<dots> \<longleftrightarrow> ?B"
  proof
    assume B: ?B
    let ?r' = "\<lparr>br_bytes = bs, br_offset = length bs\<rparr>"
    have "remaining ?r' = 0" "reader_ok ?r'" "br_bytes ?r' = br_bytes ?r" "unread ?r' = []"
      by (simp_all add: remaining_def reader_ok_def unread_def u)
    with B show "\<exists>r'. remaining r' = 0 \<and> (\<exists>c :: u32. True \<and> (length xs = unat c \<and> (\<forall>x \<in> set xs. good x)) \<and> True \<and>
      reader_ok r' \<and> br_bytes r' = br_bytes ?r \<and> unread ?r = le_bytes c @ concat (map enc xs) @ unread r')"
      by (intro exI [of _ ?r'] conjI exI [of _ "of_nat (length xs)"]) (simp_all add: len u counted_bytes_def unread_def NewByteReader_def)
  qed (auto simp: len u counted_bytes_def remaining_unread)
  finally show ?thesis .
qed

lemma counted_fixed:
  assumes "\<And>x. length (enc x) = w"
  shows "(\<exists>count r r'. ReadInteger (NewByteReader bs) = Inr (count :: u32, r) \<and> remaining r = unat count * w
      \<and> ReadItems item (unat count) r = Inr (xs, r'))
   \<longleftrightarrow> bs = counted_bytes enc xs \<and> length xs < 2 ^ 32 \<and> (\<forall>x \<in> set xs. good x)"
proof -
  have len: "length (concat (map enc xs)) = length xs * w" for xs using assms by (induction xs) simp_all
  have "remaining r = unat count * w \<longleftrightarrow> remaining r' = 0"
    if "ReadInteger (NewByteReader bs) = Inr (count :: u32, r)" "ReadItems item (unat count) r = Inr (xs, r')" for count r r'
  proof -
    have "reader_ok (NewByteReader bs)" by (simp add: reader_ok_def NewByteReader_def)
    then have r: "reader_ok r" using parsesD [OF parses_u32] that(1) by force
    then show ?thesis using parsesD [OF items r] that(2) by (auto simp: remaining_unread len)
  qed
  then show ?thesis unfolding counted [symmetric] by blast
qed

end

lemma le_parser: "8 dvd LENGTH('a :: len) \<Longrightarrow> item_parser (ReadInteger :: ByteReader \<Rightarrow> ('a word \<times> ByteReader) res) le_bytes (\<lambda>_. True)"
  by unfold_locales (rule parses_ReadInteger)

interpretation int8: item_parser "ReadInteger :: ByteReader \<Rightarrow> (8 word \<times> ByteReader) res" le_bytes "\<lambda>_. True"
  by (rule le_parser) simp

interpretation int32: item_parser "ReadInteger :: ByteReader \<Rightarrow> (32 word \<times> ByteReader) res" le_bytes "\<lambda>_. True"
  by (rule le_parser) simp

interpretation int64: item_parser "ReadInteger :: ByteReader \<Rightarrow> (64 word \<times> ByteReader) res" le_bytes "\<lambda>_. True"
  by (rule le_parser) simp

interpretation bools: item_parser ReadBoolItem bool_bytes "\<lambda>_. True"
proof
  show "parses ReadBoolItem bool_bytes (\<lambda>_. True)"
    unfolding parses_def
  proof (intro allI impI)
    fix r b r' assume ok: "reader_ok r"
    have "ReadBoolItem r = Inr (b, r') \<longleftrightarrow> ReadUInt8 r = Inr (if b then 1 else 0, r')"
    proof (cases "ReadUInt8 r")
      case (Inr vr)
      obtain v r1 where vr: "vr = (v, r1)" by fastforce
      consider "v > 1" "v \<noteq> 0" "v \<noteq> 1" | "v = 0" | "v = 1" using u8_gt_1 [of v] by blast
      then show ?thesis by cases (auto simp: ReadBoolItem_def Inr vr)
    qed (simp add: ReadBoolItem_def)
    then show "ReadBoolItem r = Inr (b, r') \<longleftrightarrow> True \<and> reader_ok r' \<and> br_bytes r' = br_bytes r \<and> unread r = bool_bytes b @ unread r'"
      using parsesD [OF parses_ReadUInt8 ok] by (simp add: bool_bytes_def)
  qed
qed

lemma sized_parser:
  assumes "reader_ok r"
  shows "(\<exists>len :: u32. \<exists>r1. ReadInteger r = Inr (len, r1) \<and> ReadBytes (unat len) r1 = Inr (bs, r')) \<longleftrightarrow>
    length bs < 2 ^ 32 \<and> reader_ok r' \<and> br_bytes r' = br_bytes r \<and> unread r = sized_bytes bs @ unread r'"
proof -
  have len: "length bs = unat c \<longleftrightarrow> c = of_nat (length bs) \<and> length bs < 2 ^ 32" for c :: u32
    using unsigned_less [of c, where ?'a = nat] by (auto simp: unat_of_nat)
  show ?thesis
    using parses_seq [OF parses_u32 parses_ReadBytes assms, where P = "\<lambda>_. True", of unat bs r']
    by (simp add: len sized_bytes_def)
qed

interpretation strings: item_parser ReadStringItem "sized_bytes \<circ> bytes_of_string" "\<lambda>s. length s < 2 ^ 32"
proof
  show "parses ReadStringItem (sized_bytes \<circ> bytes_of_string) (\<lambda>s. length s < 2 ^ 32)"
    unfolding parses_def
  proof (intro allI impI)
    fix r s r' assume ok: "reader_ok r"
    have "ReadStringItem r = Inr (s, r') \<longleftrightarrow> (\<exists>len :: u32. \<exists>r1. ReadInteger r = Inr (len, r1) \<and> ReadBytes (unat len) r1 = Inr (bytes_of_string s, r'))"
      by (auto simp: ReadStringItem_def)
    then show "ReadStringItem r = Inr (s, r') \<longleftrightarrow> length s < 2 ^ 32 \<and> reader_ok r' \<and> br_bytes r' = br_bytes r
        \<and> unread r = (sized_bytes \<circ> bytes_of_string) s @ unread r'"
      unfolding sized_parser [OF ok] by simp
  qed
qed

section \<open>Values\<close>

lemma ReadExactInteger_iff:
  assumes "8 dvd LENGTH('a :: len)"
  shows "ReadExactInteger bs = Inr (v :: 'a word) \<longleftrightarrow> bs = le_bytes v"
  using le_bytes_le_word [OF assms, of bs] le_word_le_bytes [OF assms, of v]
  by (auto simp: ReadExactInteger_def ReadLittleEndian_eq subspan_def)

lemma ReadBool_iff: "ReadBool bs = Inr b \<longleftrightarrow> bs = bool_bytes b"
proof -
  have "ReadBool bs = Inr b \<longleftrightarrow> ReadExactInteger bs = Inr (if b then 1 else 0 :: u8)"
    by (cases "ReadExactInteger bs :: u8 res") (auto simp: ReadBool_def u8_gt_1)
  also have "\<dots> \<longleftrightarrow> bs = bool_bytes b"
    by (auto simp: ReadExactInteger_iff bool_bytes_def le_bytes_def)
  finally show ?thesis .
qed

lemma ReadScalarList_eq:
  "ReadScalarList bs = Inr (vs :: 'a :: len word list) \<longleftrightarrow>
   (\<exists>count r r'. ReadInteger (NewByteReader bs) = Inr (count :: u32, r) \<and> remaining r = unat count * sizeof TYPE('a)
      \<and> ReadItems ReadInteger (unat count) r = Inr (vs, r'))"
  by (auto simp: ReadScalarList_def split: if_splits)

lemma ReadScalarList_iff:
  "ReadScalarList bs = Inr (vs8 :: u8 list) \<longleftrightarrow> bs = counted_bytes le_bytes vs8 \<and> length vs8 < 2 ^ 32"
  "ReadScalarList bs = Inr (vs32 :: u32 list) \<longleftrightarrow> bs = counted_bytes le_bytes vs32 \<and> length vs32 < 2 ^ 32"
  "ReadScalarList bs = Inr (vs64 :: u64 list) \<longleftrightarrow> bs = counted_bytes le_bytes vs64 \<and> length vs64 < 2 ^ 32"
  unfolding ReadScalarList_eq
  using int8.counted_fixed [OF length_le_bytes] int32.counted_fixed [OF length_le_bytes] int64.counted_fixed [OF length_le_bytes]
  by simp_all

lemma ReadBoolList_iff: "ReadBoolList bs = Inr vs \<longleftrightarrow> bs = counted_bytes bool_bytes vs \<and> length vs < 2 ^ 32"
proof -
  have "ReadBoolList bs = Inr vs \<longleftrightarrow> (\<exists>count r r'. ReadInteger (NewByteReader bs) = Inr (count :: u32, r)
      \<and> remaining r = unat count * 1 \<and> ReadItems ReadBoolItem (unat count) r = Inr (vs, r'))"
    by (auto simp: ReadBoolList_def split: if_splits)
  then show ?thesis using bools.counted_fixed [of 1 bs vs] by (simp add: bool_bytes_def)
qed

lemma ReadStringList_iff:
  "ReadStringList bs = Inr vs \<longleftrightarrow>
   bs = counted_bytes (sized_bytes \<circ> bytes_of_string) vs \<and> length vs < 2 ^ 32 \<and> (\<forall>s \<in> set vs. length s < 2 ^ 32)"
proof -
  have "ReadStringList bs = Inr vs \<longleftrightarrow> (\<exists>count r r'. ReadInteger (NewByteReader bs) = Inr (count :: u32, r)
      \<and> ReadItems ReadStringItem (unat count) r = Inr (vs, r') \<and> remaining r' = 0)"
    by (auto simp: ReadStringList_def split: if_splits)
  then show ?thesis using strings.counted [of bs vs] by simp
qed

lemma string_of_bytes_eq: "string_of_bytes bs = s \<longleftrightarrow> bs = bytes_of_string s"
  by auto

lemmas value_iffs = ReadExactInteger_iff ReadBool_iff ReadScalarList_iff ReadBoolList_iff ReadStringList_iff string_of_bytes_eq

lemma DecodeValue_iff: "DecodeValue k bs = Inr v \<longleftrightarrow> k = wire_kind v \<and> bs = wire_bytes v \<and> value_small v"
proof (cases v)
  case VNull
  then show ?thesis by (auto simp: DecodeValue_def ToDecodedValue_def)
next
  case (VScalar x)
  then show ?thesis by (cases x) (auto simp: DecodeValue_def ToDecodedValue_def value_iffs)
next
  case (VList x)
  then show ?thesis by (cases x) (auto simp: DecodeValue_def ToDecodedValue_def value_iffs)
qed

section \<open>Frames\<close>

lemma ReadFieldBody_parses:
  "parses (ReadFieldBody i) (\<lambda>f. [df_kind f] @ sized_bytes (wire_bytes (df_value f))) (\<lambda>f. df_field_id f = i \<and> field_ok f)"
  unfolding parses_def
proof (intro allI impI)
  fix r f r' assume ok: "reader_ok r"
  define q where "q r = rbind (ReadInteger r) (\<lambda>(len :: u32, r). ReadBytes (unat len) r)" for r
  have q: "parses q sized_bytes (\<lambda>bs. length bs < 2 ^ 32)"
    unfolding parses_def q_def using sized_parser by (auto simp: split_beta)
  have "ReadFieldBody i r = Inr (f, r') \<longleftrightarrow>
      (\<exists>k r1. ReadUInt8 r = Inr (k, r1) \<and> q r1 = Inr (wire_bytes (df_value f), r')
        \<and> (k = df_kind f \<and> df_field_id f = i \<and> df_kind f = wire_kind (df_value f) \<and> value_small (df_value f)))"
    by (cases f) (auto simp: ReadFieldBody_def q_def DecodeValue_iff)
  also have "\<dots> \<longleftrightarrow> (\<exists>k. True \<and> length (wire_bytes (df_value f)) < 2 ^ 32
      \<and> (k = df_kind f \<and> df_field_id f = i \<and> df_kind f = wire_kind (df_value f) \<and> value_small (df_value f))
      \<and> reader_ok r' \<and> br_bytes r' = br_bytes r \<and> unread r = [k] @ sized_bytes (wire_bytes (df_value f)) @ unread r')"
    by (rule parses_seq [OF parses_ReadUInt8 q ok])
  also have "\<dots> \<longleftrightarrow> (df_field_id f = i \<and> field_ok f) \<and> reader_ok r' \<and> br_bytes r' = br_bytes r
      \<and> unread r = ([df_kind f] @ sized_bytes (wire_bytes (df_value f))) @ unread r'"
    by (auto simp: field_ok_def)
  finally show "ReadFieldBody i r = Inr (f, r') \<longleftrightarrow> (df_field_id f = i \<and> field_ok f) \<and> reader_ok r' \<and> br_bytes r' = br_bytes r
      \<and> unread r = ([df_kind f] @ sized_bytes (wire_bytes (df_value f))) @ unread r'" .
qed

text \<open>One field with its id, then the rest.\<close>

lemma ReadFields_parses:
  "parses (ReadFields n seen) (\<lambda>fs. concat (map field_bytes fs))
     (\<lambda>fs. length fs = n \<and> distinct (map df_field_id fs) \<and> (\<forall>f \<in> set fs. field_ok f \<and> df_field_id f \<notin> seen))"
proof (induction n arbitrary: seen)
  case 0
  show ?case
    using parses_nothing [of "\<lambda>fs. distinct (map df_field_id fs) \<and> (\<forall>f \<in> set fs. field_ok f \<and> df_field_id f \<notin> seen)" field_bytes]
    by (simp add: parses_def)
next
  case (Suc n)
  define body where "body i r = rbind (ReadFieldBody i r) (\<lambda>(f, r). rbind (ReadFields n (insert i seen) r) (\<lambda>(fs, r). Inr (f # fs, r)))" for i r
  let ?V = "\<lambda>i fs. fs \<noteq> [] \<and> df_field_id (hd fs) = i \<and> length fs = Suc n \<and> distinct (map df_field_id fs)
      \<and> field_ok (hd fs) \<and> (\<forall>f \<in> set (tl fs). field_ok f \<and> df_field_id f \<notin> insert i seen)"
  let ?enc = "\<lambda>fs. ([df_kind (hd fs)] @ sized_bytes (wire_bytes (df_value (hd fs)))) @ concat (map field_bytes (tl fs))"
  have body: "parses (body i) ?enc (?V i)" for i
    unfolding parses_def
  proof (intro allI impI)
    fix r fs r' assume ok: "reader_ok r"
    have "body i r = Inr (fs, r') \<longleftrightarrow> (\<exists>f r1. ReadFieldBody i r = Inr (f, r1) \<and> ReadFields n (insert i seen) r1 = Inr (tl fs, r') \<and> (fs \<noteq> [] \<and> hd fs = f))"
      by (cases fs) (auto simp: body_def)
    also have "\<dots> \<longleftrightarrow> (\<exists>f. (df_field_id f = i \<and> field_ok f) \<and> (length (tl fs) = n \<and> distinct (map df_field_id (tl fs))
        \<and> (\<forall>f \<in> set (tl fs). field_ok f \<and> df_field_id f \<notin> insert i seen)) \<and> (fs \<noteq> [] \<and> hd fs = f) \<and> reader_ok r' \<and> br_bytes r' = br_bytes r
        \<and> unread r = ([df_kind f] @ sized_bytes (wire_bytes (df_value f))) @ concat (map field_bytes (tl fs)) @ unread r')"
      by (rule parses_seq [OF ReadFieldBody_parses Suc.IH ok])
    also have "\<dots> \<longleftrightarrow> ?V i fs \<and> reader_ok r' \<and> br_bytes r' = br_bytes r \<and> unread r = ?enc fs @ unread r'"
      by (cases fs) auto
    finally show "body i r = Inr (fs, r') \<longleftrightarrow> ?V i fs \<and> reader_ok r' \<and> br_bytes r' = br_bytes r \<and> unread r = ?enc fs @ unread r'" .
  qed
  show ?case
    unfolding parses_def
  proof (intro allI impI)
    fix r fs r' assume ok: "reader_ok r"
    have "ReadFields (Suc n) seen r = Inr (fs, r') \<longleftrightarrow> (\<exists>i r1. ReadInteger r = Inr (i, r1) \<and> body i r1 = Inr (fs, r') \<and> i \<notin> seen)"
      by (auto simp: body_def split: if_splits)
    also have "\<dots> \<longleftrightarrow> (\<exists>i. True \<and> ?V i fs \<and> i \<notin> seen \<and> reader_ok r' \<and> br_bytes r' = br_bytes r \<and> unread r = le_bytes i @ ?enc fs @ unread r')"
      by (rule parses_seq [OF parses_u32 body ok])
    also have "\<dots> \<longleftrightarrow> (length fs = Suc n \<and> distinct (map df_field_id fs) \<and> (\<forall>f \<in> set fs. field_ok f \<and> df_field_id f \<notin> seen))
        \<and> reader_ok r' \<and> br_bytes r' = br_bytes r \<and> unread r = concat (map field_bytes fs) @ unread r'"
      by (cases fs) (auto simp: field_bytes_def image_iff)
    finally show "ReadFields (Suc n) seen r = Inr (fs, r') \<longleftrightarrow>
        (length fs = Suc n \<and> distinct (map df_field_id fs) \<and> (\<forall>f \<in> set fs. field_ok f \<and> df_field_id f \<notin> seen))
        \<and> reader_ok r' \<and> br_bytes r' = br_bytes r \<and> unread r = concat (map field_bytes fs) @ unread r'" .
  qed
qed

text \<open>The whole frame behind the magic bytes.\<close>

lemma NewByteReader_simps [simp]:
  "reader_ok (NewByteReader bs)" "unread (NewByteReader bs) = bs" "br_bytes (NewByteReader bs) = bs"
  by (simp_all add: reader_ok_def unread_def NewByteReader_def)

lemma split_prefix:
  assumes "length k = n"
  shows "take n bs = k \<and> drop n bs = x \<longleftrightarrow> bs = k @ x"
proof
  assume "take n bs = k \<and> drop n bs = x"
  then show "bs = k @ x" using append_take_drop_id [of n bs] by simp
qed (use assms in auto)

lemma DecodePayload_iff: "DecodePayload bs = Inr p \<longleftrightarrow> payload_ok p \<and> bs = payload_bytes p"
proof -
  define tail where "tail r = rbind (ReadInteger r) (\<lambda>(n :: u32, r). ReadFields (unat n) {} r)" for r
  define rest where "rest v r = rbind (ReadInteger r) (\<lambda>(flags :: u16, r). if flags \<noteq> 0 then Inl (InvalidArgument ''payload flags are unsupported'') else tail r)"
    for v :: u16 and r
  have n: "length fs = unat c \<longleftrightarrow> c = of_nat (length fs) \<and> length fs < 2 ^ 32" for c :: u32 and fs :: "DecodedField list"
    using unsigned_less [of c, where ?'a = nat] by (auto simp: unat_of_nat)
  have tail: "parses tail (counted_bytes field_bytes) (\<lambda>fs. payload_ok \<lparr>dp_fields = fs\<rparr>)"
    unfolding parses_def
  proof (intro allI impI)
    fix r fs r' assume ok: "reader_ok r"
    have "tail r = Inr (fs, r') \<longleftrightarrow> (\<exists>c r1. ReadInteger r = Inr (c :: u32, r1) \<and> ReadFields (unat c) {} r1 = Inr (fs, r') \<and> True)"
      by (auto simp: tail_def)
    also have "\<dots> \<longleftrightarrow> payload_ok \<lparr>dp_fields = fs\<rparr> \<and> reader_ok r' \<and> br_bytes r' = br_bytes r \<and> unread r = counted_bytes field_bytes fs @ unread r'"
      unfolding parses_seq [OF parses_u32 ReadFields_parses ok] by (auto simp: n payload_ok_def counted_bytes_def)
    finally show "tail r = Inr (fs, r') \<longleftrightarrow> payload_ok \<lparr>dp_fields = fs\<rparr> \<and> reader_ok r' \<and> br_bytes r' = br_bytes r
        \<and> unread r = counted_bytes field_bytes fs @ unread r'" .
  qed
  have rest: "parses (rest v) (\<lambda>fs. le_bytes (0 :: u16) @ counted_bytes field_bytes fs) (\<lambda>fs. payload_ok \<lparr>dp_fields = fs\<rparr>)" for v
    unfolding parses_def
  proof (intro allI impI)
    fix r fs r' assume ok: "reader_ok r"
    have "rest v r = Inr (fs, r') \<longleftrightarrow> (\<exists>c r1. ReadInteger r = Inr (c :: u16, r1) \<and> tail r1 = Inr (fs, r') \<and> c = 0)"
      by (auto simp: rest_def split: if_splits)
    then show "rest v r = Inr (fs, r') \<longleftrightarrow> payload_ok \<lparr>dp_fields = fs\<rparr> \<and> reader_ok r' \<and> br_bytes r' = br_bytes r
        \<and> unread r = (le_bytes (0 :: u16) @ counted_bytes field_bytes fs) @ unread r'"
      unfolding parses_seq [OF parses_u16 tail ok] by auto
  qed
  let ?bs = "drop 4 bs" and ?fs = "dp_fields p"
  have "DecodePayload bs = Inr p \<longleftrightarrow> 12 \<le> length bs \<and> take 4 bs = kMagic \<and> (\<exists>r'. remaining r' = 0 \<and>
      (\<exists>v r1. ReadInteger (NewByteReader ?bs) = Inr (v, r1) \<and> rest v r1 = Inr (?fs, r') \<and> v = kWireVersion))"
    by (cases p) (auto simp: DecodePayload_def rest_def tail_def not_less split: if_splits; blast)
  also have "\<dots> \<longleftrightarrow> 12 \<le> length bs \<and> take 4 bs = kMagic \<and> (\<exists>r'. remaining r' = 0 \<and> payload_ok p \<and> reader_ok r' \<and> br_bytes r' = ?bs
      \<and> ?bs = le_bytes kWireVersion @ (le_bytes (0 :: u16) @ counted_bytes field_bytes ?fs) @ unread r')"
    unfolding parses_seq [OF parses_u16 rest NewByteReader_simps(1)] by (cases p) simp
  also have "\<dots> \<longleftrightarrow> 12 \<le> length bs \<and> take 4 bs = kMagic \<and> payload_ok p
      \<and> ?bs = le_bytes kWireVersion @ le_bytes (0 :: u16) @ counted_bytes field_bytes ?fs" (is "?A \<longleftrightarrow> ?B")
  proof
    assume ?B
    then show ?A
      by (intro conjI exI [of _ "\<lparr>br_bytes = ?bs, br_offset = length ?bs\<rparr>"]) (auto simp: remaining_def reader_ok_def unread_def)
  qed (auto simp: remaining_unread)
  also have "\<dots> \<longleftrightarrow> payload_ok p \<and> bs = payload_bytes p"
  proof -
    have k: "length kMagic = 4" by (simp add: kMagic_def)
    have "12 \<le> length (payload_bytes p)" by (simp add: payload_bytes_def k counted_bytes_def)
    moreover have "take 4 bs = kMagic \<and> ?bs = x \<longleftrightarrow> bs = kMagic @ x" for x
      by (rule split_prefix [OF k])
    ultimately show ?thesis unfolding payload_bytes_def by blast
  qed
  finally show ?thesis .
qed

text \<open>
  C14. The decoder accepts exactly the frames of the wire format: a payload is decoded from the bytes
  that encode it and from no others. Its field ids are distinct, and every field has the kind of its
  value and fits the 32-bit lengths of the format.
\<close>

theorem payload_decode_exact: "DecodePayload bs = Inr p \<longleftrightarrow> payload_ok p \<and> bs = payload_bytes p"
  by (rule DecodePayload_iff)

end
