(* ===== verification/Field_Encoder.thy ===== *)
theory Field_Encoder
  imports Payload_Codec
begin

text \<open>
  The middle of \<open>src/ingest/update_applier.cc\<close>: a decoded payload is written field by field into an
  encoded row of the target's layout. Each function takes the row behind the \<open>EncodedRow*\<close> and
  returns the status with the row after the call, as the writers of \<open>Row_Storage\<close> do. The main
  result is that the row holds every payload field that the layout knows, with the value of the
  message, and nothing else.
\<close>

section \<open>Writers\<close>

text \<open>\<open>GetValue<T>\<close>: the alternative of the variant for a scalar or a list of a type.\<close>

definition GetScalar :: "FieldType \<Rightarrow> DecodedField \<Rightarrow> ScalarValue option" where
  "GetScalar t decoded =
     (case df_value decoded of VScalar v \<Rightarrow> if scalar_type v = t then Some v else None | _ \<Rightarrow> None)"

definition GetList :: "FieldType \<Rightarrow> DecodedField \<Rightarrow> ListValue option" where
  "GetList t decoded =
     (case df_value decoded of VList vs \<Rightarrow> if list_type vs = t then Some vs else None | _ \<Rightarrow> None)"

text \<open>The loop over the strings of a list; \<open>offset\<close> is the place of the next reference.\<close>

fun WriteArenaStrings :: "string list \<Rightarrow> nat \<Rightarrow> byte list \<Rightarrow> unit res \<times> byte list" where
  "WriteArenaStrings [] offset arena = (Inr (), arena)"
| "WriteArenaStrings (value # values) offset arena =
     (if length value > 2 ^ 32 - 1 then (Inl (InvalidArgument ''string-list element is too large''), arena)
      else
        (let value_offset = length arena; arena = arena @ bytes_of_string value in
         case WriteValueRef16 \<lparr>vr_offset = of_nat value_offset, vr_byte_length = of_nat (length value),
                vr_element_count_or_flags = 0\<rparr> arena offset of
           Inl e \<Rightarrow> (Inl e, arena)
         | Inr arena \<Rightarrow> WriteArenaStrings values (offset + 16) arena))"

definition WriteArenaStringListField :: "FieldLayout \<Rightarrow> string list \<Rightarrow> EncodedRow option \<Rightarrow> EncodedRow upd" where
  "WriteArenaStringListField field values encoded =
     (case encoded of
        None \<Rightarrow> (Inl null_row, None)
      | Some row \<Rightarrow>
          if \<not> fl_is_list field \<or> fl_type field \<noteq> kString \<or> fl_encoding field \<noteq> kArena
          then (Inl (InvalidArgument ''arena string-list writer does not match field''), Some row)
          else if length values > 2 ^ 32 - 1
          then (Inl (InvalidArgument ''string-list value count is too large''), Some row)
          else
            (let refs_offset = length (er_arena row); refs_bytes = length values * 16 in
             if refs_bytes > 2 ^ 32 - 1
             then (Inl (InvalidArgument ''string-list ref bytes are too large''), Some row)
             else
               (case WriteArenaStrings values refs_offset (er_arena row @ replicate refs_bytes 0) of
                  (Inl e, arena) \<Rightarrow> (Inl e, Some (row\<lparr>er_arena := arena\<rparr>))
                | (Inr _, arena) \<Rightarrow>
                    WriteValueRefField field
                      \<lparr>vr_offset = of_nat refs_offset, vr_byte_length = of_nat refs_bytes,
                       vr_element_count_or_flags = of_nat (length values)\<rparr>
                      (Some (row\<lparr>er_arena := arena\<rparr>)))))"

definition EncodeBoolListBytes :: "bool list \<Rightarrow> byte list res" where
  "EncodeBoolListBytes values =
     (if length values > 2 ^ 32 - 1 then Inl (InvalidArgument ''bool-list value count is too large'')
      else Inr (map (\<lambda>v. if v then 1 else 0) values))"

definition WriteArenaBoolListField :: "FieldLayout \<Rightarrow> bool list \<Rightarrow> EncodedRow option \<Rightarrow> EncodedRow upd" where
  "WriteArenaBoolListField field values encoded =
     (case encoded of
        None \<Rightarrow> (Inl null_row, None)
      | Some row \<Rightarrow>
          if \<not> fl_is_list field \<or> fl_type field \<noteq> kBool \<or> fl_encoding field \<noteq> kArena
          then (Inl (InvalidArgument ''arena bool-list writer does not match field''), Some row)
          else (case EncodeBoolListBytes values of
                  Inl e \<Rightarrow> (Inl e, Some row)
                | Inr payload \<Rightarrow>
                    WriteValueRefField field
                      \<lparr>vr_offset = of_nat (length (er_arena row)), vr_byte_length = of_nat (length payload),
                       vr_element_count_or_flags = of_nat (length values)\<rparr>
                      (Some (row\<lparr>er_arena := er_arena row @ payload\<rparr>))))"

fun scalar_mismatch :: "FieldType \<Rightarrow> string" where
  "scalar_mismatch kInt8 = ''payload int8 field type mismatch''"
| "scalar_mismatch kInt32 = ''payload int32 field type mismatch''"
| "scalar_mismatch kInt64 = ''payload int64 field type mismatch''"
| "scalar_mismatch kUInt64 = ''payload uint64 field type mismatch''"
| "scalar_mismatch kBool = ''payload bool field type mismatch''"
| "scalar_mismatch kString = ''payload string field type mismatch''"
| "scalar_mismatch (kUnlistedType c) = ''payload scalar field type unsupported''"

definition WriteStringValue :: "FieldLayout \<Rightarrow> string \<Rightarrow> EncodedRow option \<Rightarrow> EncodedRow upd" where
  "WriteStringValue field value encoded =
     (if fl_encoding field = kArena then WriteArenaStringField field value encoded
      else if fl_encoding field = kDictionary then
        (case encoded of
           None \<Rightarrow> (Inl null_row, None)
         | Some row \<Rightarrow>
             if length (er_string_dictionary row) > 2 ^ 32 - 1
             then (Inl (InvalidArgument ''string dictionary is too large''), Some row)
             else WriteDictionaryStringField field (of_nat (length (er_string_dictionary row)))
                    (Some (row\<lparr>er_string_dictionary := er_string_dictionary row @ [value]\<rparr>)))
      else (Inl (InvalidArgument ''payload string field encoding unsupported''), encoded))"

definition WriteScalarFieldValue :: "FieldLayout \<Rightarrow> DecodedField \<Rightarrow> EncodedRow option \<Rightarrow> EncodedRow upd" where
  "WriteScalarFieldValue field decoded encoded =
     (if fl_is_list field then (Inl (InvalidArgument ''payload field shape does not match layout''), encoded)
      else
        (case GetScalar (fl_type field) decoded of
           None \<Rightarrow> (Inl (InvalidArgument (scalar_mismatch (fl_type field))), encoded)
         | Some (SString value) \<Rightarrow> WriteStringValue field value encoded
         | Some value \<Rightarrow> WriteScalarField field value encoded))"

definition WriteListDictionaryScalarList :: "FieldLayout \<Rightarrow> ListValue \<Rightarrow> EncodedRow option \<Rightarrow> EncodedRow upd" where
  "WriteListDictionaryScalarList field values encoded =
     (case encoded of
        None \<Rightarrow> (Inl null_row, None)
      | Some row \<Rightarrow>
          if list_length values > 2 ^ 32 - 1 \<or> length (er_scalar_list_dictionary row) > 2 ^ 32 - 1
          then (Inl (InvalidArgument ''scalar-list dictionary entry is too large''), Some row)
          else (case EncodeScalarListSpan values of
                  Inl e \<Rightarrow> (Inl e, Some row)
                | Inr payload \<Rightarrow>
                    WriteListDictionaryField field (of_nat (length (er_scalar_list_dictionary row)))
                      (of_nat (list_length values))
                      (Some (row\<lparr>er_scalar_list_dictionary := er_scalar_list_dictionary row @ [payload]\<rparr>))))"

definition WriteListDictionaryBoolList :: "FieldLayout \<Rightarrow> bool list \<Rightarrow> EncodedRow option \<Rightarrow> EncodedRow upd" where
  "WriteListDictionaryBoolList field values encoded =
     (case encoded of
        None \<Rightarrow> (Inl null_row, None)
      | Some row \<Rightarrow>
          (case EncodeBoolListBytes values of
             Inl e \<Rightarrow> (Inl e, Some row)
           | Inr payload \<Rightarrow>
               if length (er_scalar_list_dictionary row) > 2 ^ 32 - 1
               then (Inl (InvalidArgument ''scalar-list dictionary is too large''), Some row)
               else WriteListDictionaryField field (of_nat (length (er_scalar_list_dictionary row)))
                      (of_nat (length values))
                      (Some (row\<lparr>er_scalar_list_dictionary := er_scalar_list_dictionary row @ [payload]\<rparr>))))"

definition WriteListDictionaryStringList :: "FieldLayout \<Rightarrow> string list \<Rightarrow> EncodedRow option \<Rightarrow> EncodedRow upd" where
  "WriteListDictionaryStringList field values encoded =
     (case encoded of
        None \<Rightarrow> (Inl null_row, None)
      | Some row \<Rightarrow>
          if length values > 2 ^ 32 - 1 \<or> length (er_string_list_dictionary row) > 2 ^ 32 - 1
          then (Inl (InvalidArgument ''string-list dictionary entry is too large''), Some row)
          else WriteListDictionaryField field (of_nat (length (er_string_list_dictionary row)))
                 (of_nat (length values))
                 (Some (row\<lparr>er_string_list_dictionary := er_string_list_dictionary row @ [values]\<rparr>)))"

text \<open>The loop that adds the strings to the element dictionary and collects their ids.\<close>

fun AddElements :: "string list \<Rightarrow> EncodedRow \<Rightarrow> u32 list res \<times> EncodedRow" where
  "AddElements [] row = (Inr [], row)"
| "AddElements (value # values) row =
     (if length (er_string_element_dictionary row) > 2 ^ 32 - 1
      then (Inl (InvalidArgument ''string element dictionary is too large''), row)
      else
        (case AddElements values
                (row\<lparr>er_string_element_dictionary := er_string_element_dictionary row @ [value]\<rparr>) of
           (Inl e, row') \<Rightarrow> (Inl e, row')
         | (Inr ids, row') \<Rightarrow> (Inr (of_nat (length (er_string_element_dictionary row)) # ids), row')))"

definition WriteElementDictionaryStringList :: "FieldLayout \<Rightarrow> string list \<Rightarrow> EncodedRow option \<Rightarrow> EncodedRow upd" where
  "WriteElementDictionaryStringList field values encoded =
     (case encoded of
        None \<Rightarrow> (Inl null_row, None)
      | Some row \<Rightarrow>
          (case AddElements values row of
             (Inl e, row) \<Rightarrow> (Inl e, Some row)
           | (Inr dictionary_ids, row) \<Rightarrow>
               WriteElementDictionaryStringListField field dictionary_ids (Some row)))"

fun list_mismatch :: "FieldType \<Rightarrow> string" where
  "list_mismatch kInt8 = ''payload int8-list field type mismatch''"
| "list_mismatch kInt32 = ''payload int32-list field type mismatch''"
| "list_mismatch kInt64 = ''payload int64-list field type mismatch''"
| "list_mismatch kUInt64 = ''payload uint64-list field type mismatch''"
| "list_mismatch kBool = ''payload bool-list field type mismatch''"
| "list_mismatch kString = ''payload string-list field type mismatch''"
| "list_mismatch (kUnlistedType c) = ''payload list field encoding unsupported''"

definition WriteListFieldValue :: "FieldLayout \<Rightarrow> DecodedField \<Rightarrow> EncodedRow option \<Rightarrow> EncodedRow upd" where
  "WriteListFieldValue field decoded encoded =
     (if \<not> fl_is_list field then (Inl (InvalidArgument ''payload field shape does not match layout''), encoded)
      else
        (case GetList (fl_type field) decoded of
           None \<Rightarrow> (Inl (InvalidArgument (list_mismatch (fl_type field))), encoded)
         | Some (LBool values) \<Rightarrow>
             if fl_encoding field = kArena then WriteArenaBoolListField field values encoded
             else if fl_encoding field = kListDictionary then WriteListDictionaryBoolList field values encoded
             else (Inl (InvalidArgument ''payload list field encoding unsupported''), encoded)
         | Some (LString values) \<Rightarrow>
             if fl_encoding field = kArena then WriteArenaStringListField field values encoded
             else if fl_encoding field = kListDictionary then WriteListDictionaryStringList field values encoded
             else if fl_encoding field = kElementDictionary
             then WriteElementDictionaryStringList field values encoded
             else (Inl (InvalidArgument ''payload list field encoding unsupported''), encoded)
         | Some values \<Rightarrow>
             if fl_encoding field = kArena then WriteArenaListField field values encoded
             else if fl_encoding field = kListDictionary then WriteListDictionaryScalarList field values encoded
             else (Inl (InvalidArgument ''payload list field encoding unsupported''), encoded)))"

section \<open>Rows\<close>

text \<open>One round of the loop over the payload fields; the row is a local variable, never null.\<close>

definition EncodeField :: "CompiledRowLayout \<Rightarrow> DecodedField \<Rightarrow> EncodedRow \<Rightarrow> EncodedRow res" where
  "EncodeField layout decoded encoded =
     (case FindLayoutField layout (df_field_id decoded) of
        None \<Rightarrow> Inr encoded
      | Some field \<Rightarrow>
          if df_value decoded = VNull then Inl (InvalidArgument ''payload explicit null field is unsupported'')
          else
            (case (if fl_is_list field then WriteListFieldValue field decoded (Some encoded)
                   else WriteScalarFieldValue field decoded (Some encoded)) of
               (Inl e, _) \<Rightarrow> Inl e
             | (Inr _, after) \<Rightarrow> Inr (the after)))"

definition EncodeForLayout :: "DecodedPayload \<Rightarrow> CompiledRowLayout option \<Rightarrow> EncodedRow res" where
  "EncodeForLayout payload layout =
     (case layout of
        None \<Rightarrow> Inl (FailedPrecondition ''target layout is null'')
      | Some l \<Rightarrow>
          rbind (foldM_res (EncodeField l) (dp_fields payload) (CreateEncodedRow l)) (\<lambda>encoded.
          rbind (MaterializeRow (Some l) encoded) (\<lambda>_.
          Inr encoded)))"

section \<open>What a row holds\<close>

definition holds_value :: "FieldLayout \<Rightarrow> EncodedRow \<Rightarrow> DecodedValue \<Rightarrow> bool" where
  "holds_value f e v \<longleftrightarrow> FieldPresent f e \<and>
     (case v of
        VNull \<Rightarrow> False
      | VScalar x \<Rightarrow> \<not> fl_is_list f \<and> fl_type f = scalar_type x \<and> ReadScalarField f e = Inr x
      | VList xs \<Rightarrow> fl_is_list f \<and> fl_type f = list_type xs \<and> ReadListField f e = Inr xs)"

text \<open>What writing a value to one field does to the row.\<close>

definition value_written :: "CompiledRowLayout \<Rightarrow> FieldLayout \<Rightarrow> DecodedValue \<Rightarrow> EncodedRow \<Rightarrow> EncodedRow \<Rightarrow> bool" where
  "value_written L f v e e' \<longleftrightarrow>
     holds_value f e' v \<and> (\<forall>g \<in> set (cl_fields L). g \<noteq> f \<longrightarrow> reads_kept g e e')"

definition same_frame :: "EncodedRow \<Rightarrow> EncodedRow \<Rightarrow> bool" where
  "same_frame e e' \<longleftrightarrow> grown e e' \<and> length (er_row_slot e') = length (er_row_slot e)
     \<and> er_schema_version e' = er_schema_version e \<and> er_layout_fingerprint e' = er_layout_fingerprint e"

fun string_refs :: "nat \<Rightarrow> string list \<Rightarrow> ValueRef16 list" where
  "string_refs start [] = []"
| "string_refs start (v # vs) =
     \<lparr>vr_offset = of_nat start, vr_byte_length = of_nat (length v), vr_element_count_or_flags = 0\<rparr>
     # string_refs (start + length v) vs"

text \<open>
  The memory behind a row, counted in arena bytes and dictionary entries. A field of \<open>n\<close> wire bytes
  adds at most \<open>5 * n\<close>: sixteen bytes of reference and an entry for each string of four bytes or more.
\<close>

definition row_use :: "EncodedRow \<Rightarrow> nat" where
  "row_use e = length (er_arena e) + length (er_string_dictionary e) + length (er_scalar_list_dictionary e)
     + length (er_string_list_dictionary e) + length (er_string_element_dictionary e)"

definition field_use :: "DecodedValue \<Rightarrow> nat" where
  "field_use v = 5 * (9 + length (wire_bytes v))"

definition written :: "CompiledRowLayout \<Rightarrow> FieldLayout \<Rightarrow> DecodedValue \<Rightarrow> EncodedRow \<Rightarrow> EncodedRow option \<Rightarrow> bool" where
  "written L f v e after \<longleftrightarrow>
     (\<exists>e'. after = Some e' \<and> same_frame e e' \<and> row_use e' \<le> row_use e + field_use v \<and> (length (er_arena e') < 2 ^ 64 \<longrightarrow> value_written L f v e e'))"

fun value_fits :: "FieldLayout \<Rightarrow> DecodedValue \<Rightarrow> bool" where
  "value_fits f VNull \<longleftrightarrow> False"
| "value_fits f (VScalar v) \<longleftrightarrow> \<not> fl_is_list f \<and> fl_type f = scalar_type v"
| "value_fits f (VList vs) \<longleftrightarrow> fl_is_list f \<and> fl_type f = list_type vs"

definition encoding_fits :: "FieldLayout \<Rightarrow> bool" where
  "encoding_fits f \<longleftrightarrow>
     (if fl_is_list f then fl_encoding f \<in> {kArena, kListDictionary} \<or> fl_encoding f = kElementDictionary \<and> fl_type f = kString
      else fl_type f = kString \<longrightarrow> fl_encoding f \<in> {kArena, kDictionary})"

text \<open>A payload that fits a layout: each known field has its type, each required field is there.\<close>

definition fits_layout :: "CompiledRowLayout \<Rightarrow> DecodedPayload \<Rightarrow> bool" where
  "fits_layout L p \<longleftrightarrow>
     (\<forall>d \<in> set (dp_fields p). \<forall>f. FindLayoutField L (df_field_id d) = Some f \<longrightarrow> value_fits f (df_value d))
     \<and> (\<forall>f \<in> set (cl_fields L). \<not> fl_nullable f \<and> \<not> fl_HasDefault f \<longrightarrow> fl_field_id f \<in> df_field_id ` set (dp_fields p))"

fun reads_as :: "Row \<Rightarrow> FieldId \<Rightarrow> DecodedValue \<Rightarrow> bool" where
  "reads_as r fid VNull \<longleftrightarrow> False"
| "reads_as r fid (VScalar v) \<longleftrightarrow> ReadScalarValue r fid (scalar_type v) None = Inr v"
| "reads_as r fid (VList vs) \<longleftrightarrow> ReadListValue r fid (list_type vs) None = Inr vs"

text \<open>A row that shows a payload: the known fields with their values and no other field.\<close>

definition shows_payload :: "CompiledRowLayout \<Rightarrow> DecodedPayload \<Rightarrow> Row \<Rightarrow> bool" where
  "shows_payload L p r \<longleftrightarrow>
     (\<forall>d \<in> set (dp_fields p). FindLayoutField L (df_field_id d) \<noteq> None \<longrightarrow> reads_as r (df_field_id d) (df_value d))
     \<and> (\<forall>fid. fid \<notin> df_field_id ` set (dp_fields p) \<longrightarrow> \<not> Row_Has r fid)"

definition demo_payload :: DecodedPayload where
  "demo_payload = \<lparr>dp_fields =
     [\<lparr>df_field_id = 2, df_kind = kWireString, df_value = VScalar (SString ''shoes'')\<rparr>,
      \<lparr>df_field_id = 1, df_kind = kWireInt64, df_value = VScalar (SInt64 42)\<rparr>,
      \<lparr>df_field_id = 4, df_kind = kWireStringList, df_value = VList (LString [''red'', ''blue''])\<rparr>,
      \<lparr>df_field_id = 9, df_kind = kWireBool, df_value = VScalar (SBool True)\<rparr>]\<rparr>"

section \<open>One field\<close>

lemmas use_defs = row_use_def field_use_def grown_def

lemma grown_refl [simp]: "grown e e"
  by (simp add: grown_def)

lemma grown_trans [trans]: "grown a b \<Longrightarrow> grown b c \<Longrightarrow> grown a c"
  unfolding grown_def by fastforce

text \<open>
  Writing a reference into the slot of a field, after data has been added behind it: it is enough to
  show how the field is read through the reference.
\<close>

lemma writtenI:
  assumes L: "layout_ok L" and f: "f \<in> set (cl_fields L)" and len: "cl_row_slot_size L \<le> length (er_row_slot e)"
    and u: "fl_is_list f \<or> fl_type f = kString"
    and e0: "er_row_slot e0 = er_row_slot e" "grown e e0" "er_schema_version e0 = er_schema_version e"
      "er_layout_fingerprint e0 = er_layout_fingerprint e"
    and use: "row_use e0 \<le> row_use e + field_use v"
    and w: "WriteValueRefField f r (Some e0) = (res, after)"
    and read: "\<And>e'. ReadRef f e' = Inr r \<Longrightarrow> FieldPresent f e' \<Longrightarrow> length (er_arena e0) < 2 ^ 64 \<Longrightarrow>
      er_arena e' = er_arena e0 \<Longrightarrow> er_string_dictionary e' = er_string_dictionary e0 \<Longrightarrow>
      er_scalar_list_dictionary e' = er_scalar_list_dictionary e0 \<Longrightarrow>
      er_string_list_dictionary e' = er_string_list_dictionary e0 \<Longrightarrow>
      er_string_element_dictionary e' = er_string_element_dictionary e0 \<Longrightarrow> holds_value f e' v"
  shows "written L f v e after"
proof -
  have ref: "fl_uses_ref f" by (rule uses_ref_shape [OF L f u])
  have len0: "cl_row_slot_size L \<le> length (er_row_slot e0)" using len e0(1) by simp
  define e' where "e' = put_field f (ref_bytes r) [] e0"
  have after: "after = Some e'" using WriteValueRefField_eq' [OF L f len0 ref, of r] w by (simp add: e'_def)
  note F = layout_okD [OF L f]
  have width: "length (ref_bytes r) = fl_value_width f" using F(1) ref by (simp add: field_shape_def)
  note P = put_field_slot [OF L f len0 width, where ext = "[]", folded e'_def]
  have fields: "er_arena e' = er_arena e0" "er_string_dictionary e' = er_string_dictionary e0"
    "er_scalar_list_dictionary e' = er_scalar_list_dictionary e0" "er_string_list_dictionary e' = er_string_list_dictionary e0"
    "er_string_element_dictionary e' = er_string_element_dictionary e0"
    by (simp_all add: e'_def)
  have gr: "grown e e'" using e0(2) fields by (simp add: grown_def)
  have "same_frame e e'" using gr P(1) e0 by (simp add: same_frame_def e'_def)
  moreover have "ReadRef f e' = Inr r" using ReadRef_slot [OF F(1) ref, of e'] P F(4) len0 by simp
  note read [OF this P(4) _ fields]
  moreover have "reads_kept g e e'" if g: "g \<in> set (cl_fields L)" "g \<noteq> f" for g
  proof -
    note G = layout_okD [OF L g(1)]
    have "slot_bytes g e0 = slot_bytes g e" "FieldPresent g e0 = FieldPresent g e"
      by (simp_all add: slot_bytes_def FieldPresent_def e0(1))
    then show ?thesis using P(1,3,5) g G(1,4) len gr e0(1) by (intro reads_keptI) simp_all
  qed
  moreover have "row_use e' = row_use e0" by (simp add: row_use_def fields)
  ultimately show ?thesis using use by (auto simp: written_def value_written_def after fields)
qed

lemma of_nat_small: "n < 2 ^ 32 \<Longrightarrow> unat (of_nat n :: u32) = n" "n < 2 ^ 64 \<Longrightarrow> unat (of_nat n :: u64) = n"
  by (simp_all add: unat_of_nat)

lemma ucast_small: "n < 2 ^ 32 \<Longrightarrow> unat (ucast (of_nat n :: u32) :: u64) = n"
  by (simp add: unsigned_ucast_eq unat_of_nat take_bit_eq_mod)

lemma WriteArenaStringField_written:
  assumes "layout_ok L" and "f \<in> set (cl_fields L)" and "cl_row_slot_size L \<le> length (er_row_slot e)"
    and w: "WriteArenaStringField f s (Some e) = (Inr (), after)"
  shows "written L f (VScalar (SString s)) e after"
proof -
  from w have t: "\<not> fl_is_list f" "fl_type f = kString" "fl_encoding f = kArena" "length s < 2 ^ 32"
    and w': "WriteValueRefField f \<lparr>vr_offset = of_nat (length (er_arena e)), vr_byte_length = of_nat (length s),
                  vr_element_count_or_flags = 0\<rparr> (Some (e\<lparr>er_arena := er_arena e @ bytes_of_string s\<rparr>)) = (Inr (), after)"
    by (auto simp: WriteArenaStringField_def split: if_splits)
  show ?thesis
    by (rule writtenI [OF assms(1-3) _ _ _ _ _ _ w'])
      (use t subspan_append3 [of "er_arena e" "bytes_of_string s"] in
       \<open>auto simp: use_defs holds_value_def ReadScalarField_def ValidateRefBounds_Inr of_nat_small\<close>)
qed

lemma WriteStringValue_written:
  assumes "layout_ok L" and "f \<in> set (cl_fields L)" and "cl_row_slot_size L \<le> length (er_row_slot e)"
    and w: "WriteStringValue f s (Some e) = (Inr (), after)"
  shows "written L f (VScalar (SString s)) e after"
proof (cases "fl_encoding f = kArena")
  case True
  with w WriteArenaStringField_written [OF assms(1-3)] show ?thesis by (simp add: WriteStringValue_def)
next
  case False
  with w have t: "fl_encoding f = kDictionary" "length (er_string_dictionary e) < 2 ^ 32"
      "\<not> fl_is_list f" "fl_type f = kString"
    and w': "WriteValueRefField f \<lparr>vr_offset = ucast (of_nat (length (er_string_dictionary e)) :: u32), vr_byte_length = 0,
         vr_element_count_or_flags = 0\<rparr> (Some (e\<lparr>er_string_dictionary := er_string_dictionary e @ [s]\<rparr>)) = (Inr (), after)"
    by (auto simp: WriteStringValue_def WriteDictionaryStringField_def split: if_splits)
  show ?thesis
    by (rule writtenI [OF assms(1-3) _ _ _ _ _ _ w'])
      (use t in \<open>auto simp: use_defs holds_value_def ReadScalarField_def ucast_small\<close>)
qed

lemma WriteScalarField_written:
  assumes L: "layout_ok L" and f: "f \<in> set (cl_fields L)" and len: "cl_row_slot_size L \<le> length (er_row_slot e)"
    and w: "WriteScalarField f v (Some e) = (Inr (), after)"
  shows "written L f (VScalar v) e after"
proof -
  from w have t: "\<not> fl_is_list f" "\<not> fl_uses_ref f" "scalar_type v = fl_type f"
    by (auto simp: WriteScalarField_def split: if_splits)
  note W = WriteScalarField_eq [OF L f len t(2,3)]
  let ?e = "put_field f (scalar_bytes v) [] e"
  note P = put_field_slot [OF L f len W(2), where ext = "[]"]
  note F = layout_okD [OF L f]
  have "scalar_type v \<noteq> kString" using F(1) t by (auto simp: field_shape_def)
  then have "ReadScalarField f ?e = Inr v"
    using ReadScalarField_fixed [OF F(1) t(2), of ?e] P F(4) len scalar_bytes_props(3) [of v] t(3) by simp
  then have "holds_value f ?e (VScalar v)" using t P(4) by (simp add: holds_value_def)
  moreover have gr: "grown e ?e" by (simp add: grown_def)
  moreover have "reads_kept g e ?e" if g: "g \<in> set (cl_fields L)" "g \<noteq> f" for g
    using P(1,3,5) g layout_okD(1,4) [OF L g(1)] len gr by (intro reads_keptI) simp_all
  moreover have "same_frame e ?e" using gr P(1) by (simp add: same_frame_def)
  moreover have "row_use ?e = row_use e" by (simp add: row_use_def)
  ultimately show ?thesis using W(1) w by (auto simp: written_def value_written_def)
qed

lemma WriteScalarFieldValue_written:
  assumes "layout_ok L" and "f \<in> set (cl_fields L)" and "cl_row_slot_size L \<le> length (er_row_slot e)"
    and w: "WriteScalarFieldValue f d (Some e) = (Inr (), after)"
  shows "written L f (df_value d) e after"
  using w WriteStringValue_written [OF assms(1-3)] WriteScalarField_written [OF assms(1-3)]
  by (auto simp: WriteScalarFieldValue_def GetScalar_def split: if_splits DecodedValue.splits ScalarValue.splits option.splits)


section \<open>Lists\<close>

lemma EncodeBoolListBytes_eq:
  "EncodeBoolListBytes vs = Inr bs \<longleftrightarrow> length vs < 2 ^ 32 \<and> EncodeScalarListSpan (LBool vs) = Inr bs"
proof -
  have "(if b then 1 else 0 :: byte) = hd (le_bytes (if b then 1 else 0 :: u8))" for b by (simp add: le_bytes_def sizeof_def)
  moreover have "concat (map le_bytes (map (\<lambda>b. if b then 1 else 0 :: u8) vs)) = map (\<lambda>b. if b then 1 else 0) vs"
    by (induction vs) (simp_all add: le_bytes_def sizeof_def)
  ultimately show ?thesis by (auto simp: EncodeBoolListBytes_def EncodeWords_eq)
qed

lemma EncodeScalarListSpan_decode:
  assumes "list_type vs \<noteq> kString" and "list_length vs < 2 ^ 32" and "EncodeScalarListSpan vs = Inr bs"
  shows "DecodeScalarListByType (list_type vs) bs (of_nat (list_length vs)) = Inr vs"
    and "length bs = list_length vs * FieldTypeSize (list_type vs)"
proof -
  from EncodeScalarListSpan_roundtrip [OF assms(1,2)] obtain bs' where bs':
    "EncodeScalarListSpan vs = Inr bs'" "DecodeScalarListByType (list_type vs) bs' (of_nat (list_length vs)) = Inr vs"
    "length bs' = list_length vs * FieldTypeSize (list_type vs)" .
  have "bs' = bs" using bs'(1) assms(3) by simp
  with bs' show "DecodeScalarListByType (list_type vs) bs (of_nat (list_length vs)) = Inr vs"
    "length bs = list_length vs * FieldTypeSize (list_type vs)" by blast+
qed

lemma wire_list_length:
  "list_type vs \<noteq> kString \<Longrightarrow> length (wire_bytes (VList vs)) = 4 + list_length vs * FieldTypeSize (list_type vs)"
proof (cases vs)
  case (LBool bs)
  have "length (concat (map bool_bytes bs)) = length bs" by (induction bs) (simp_all add: bool_bytes_def)
  with LBool show ?thesis by (simp add: counted_bytes_def)
qed (simp_all add: counted_bytes_def)

lemma length_string_list_bytes [simp]:
  "length (counted_bytes (sized_bytes \<circ> bytes_of_string) vs) = 4 + length vs * 4 + length (concat (map bytes_of_string vs))"
proof -
  have "length (concat (map (sized_bytes \<circ> bytes_of_string) vs)) = length vs * 4 + length (concat (map bytes_of_string vs))"
    by (induction vs) (simp_all add: sized_bytes_def)
  then show ?thesis by (simp add: counted_bytes_def)
qed

text \<open>Scalar lists, in the arena and in the list dictionary.\<close>

lemma arena_list_written:
  assumes "layout_ok L" and "f \<in> set (cl_fields L)" and "cl_row_slot_size L \<le> length (er_row_slot e)"
    and t: "fl_is_list f" "fl_type f = list_type vs" "list_type vs \<noteq> kString" "fl_encoding f = kArena"
    and n: "list_length vs * FieldTypeSize (list_type vs) < 2 ^ 32" "EncodeScalarListSpan vs = Inr bs"
    and w: "WriteValueRefField f \<lparr>vr_offset = of_nat (length (er_arena e)), vr_byte_length = of_nat (length bs),
        vr_element_count_or_flags = of_nat (list_length vs)\<rparr> (Some (e\<lparr>er_arena := er_arena e @ bs\<rparr>)) = (Inr (), after)"
  shows "written L f (VList vs) e after"
proof -
  have "list_length vs \<le> list_length vs * FieldTypeSize (list_type vs)"
    by (cases "list_type vs") (simp_all add: kValueRef16Size_def)
  then have "list_length vs < 2 ^ 32" using n by (simp only: le_less_trans)
  from EncodeScalarListSpan_decode [OF t(3) this n(2)] n(1) have
    "DecodeScalarListByType (list_type vs) bs (of_nat (list_length vs)) = Inr vs"
    "length bs < 2 ^ 32" by simp_all
  moreover have "length bs \<le> field_use (VList vs)"
    using wire_list_length [OF t(3)] EncodeScalarListSpan_decode(2) [OF t(3) \<open>list_length vs < 2 ^ 32\<close> n(2)]
    by (simp add: field_use_def)
  ultimately show ?thesis
    by (intro writtenI [OF assms(1-3) _ _ _ _ _ _ w])
      (use t subspan_append3 [of "er_arena e" bs] in
       \<open>auto simp: row_use_def grown_def holds_value_def ReadListField_def ValidateRefBounds_Inr of_nat_small\<close>)
qed

lemma list_dictionary_written:
  assumes "layout_ok L" and "f \<in> set (cl_fields L)" and "cl_row_slot_size L \<le> length (er_row_slot e)"
    and t: "fl_type f = list_type vs" "list_type vs \<noteq> kString"
    and n: "list_length vs < 2 ^ 32" "length (er_scalar_list_dictionary e) < 2 ^ 32" "EncodeScalarListSpan vs = Inr bs"
    and w: "WriteListDictionaryField f (of_nat (length (er_scalar_list_dictionary e))) (of_nat (list_length vs))
        (Some (e\<lparr>er_scalar_list_dictionary := er_scalar_list_dictionary e @ [bs]\<rparr>)) = (Inr (), after)"
  shows "written L f (VList vs) e after"
proof -
  from w have enc: "fl_is_list f" "fl_encoding f = kListDictionary" and
    w': "WriteValueRefField f \<lparr>vr_offset = ucast (of_nat (length (er_scalar_list_dictionary e)) :: u32), vr_byte_length = 0,
        vr_element_count_or_flags = of_nat (list_length vs)\<rparr>
        (Some (e\<lparr>er_scalar_list_dictionary := er_scalar_list_dictionary e @ [bs]\<rparr>)) = (Inr (), after)"
    by (auto simp: WriteListDictionaryField_def split: if_splits)
  note EncodeScalarListSpan_decode(1) [OF t(2) n(1,3)]
  then show ?thesis
    by (intro writtenI [OF assms(1-3) _ _ _ _ _ _ w'])
      (use t n(1,2) enc in \<open>auto simp: use_defs holds_value_def ReadListField_def ucast_small\<close>)
qed

lemma WriteListDictionaryStringList_written:
  assumes "layout_ok L" and "f \<in> set (cl_fields L)" and "cl_row_slot_size L \<le> length (er_row_slot e)"
    and t: "fl_type f = kString" and w: "WriteListDictionaryStringList f vs (Some e) = (Inr (), after)"
  shows "written L f (VList (LString vs)) e after"
proof -
  from w have enc: "fl_is_list f" "fl_encoding f = kListDictionary" "length vs < 2 ^ 32"
      "length (er_string_list_dictionary e) < 2 ^ 32" and
    w': "WriteValueRefField f \<lparr>vr_offset = ucast (of_nat (length (er_string_list_dictionary e)) :: u32), vr_byte_length = 0,
        vr_element_count_or_flags = of_nat (length vs)\<rparr>
        (Some (e\<lparr>er_string_list_dictionary := er_string_list_dictionary e @ [vs]\<rparr>)) = (Inr (), after)"
    by (auto simp: WriteListDictionaryStringList_def WriteListDictionaryField_def split: if_splits)
  show ?thesis
    by (intro writtenI [OF assms(1-3) _ _ _ _ _ _ w'])
      (use t enc in \<open>auto simp: use_defs holds_value_def ReadListField_def ucast_small of_nat_small\<close>)
qed

text \<open>Element dictionaries.\<close>

lemma AddElements_eq:
  "AddElements vs e = (Inr ids, e') \<Longrightarrow>
   e' = e\<lparr>er_string_element_dictionary := er_string_element_dictionary e @ vs\<rparr> \<and> length ids = length vs
   \<and> (\<forall>i < length vs. unat (ids ! i) = length (er_string_element_dictionary e) + i)"
proof (induction vs arbitrary: e ids)
  case (Cons v vs)
  let ?e = "e\<lparr>er_string_element_dictionary := er_string_element_dictionary e @ [v]\<rparr>"
  from Cons.prems obtain js where small: "length (er_string_element_dictionary e) < 2 ^ 32"
    and js: "AddElements vs ?e = (Inr js, e')" "ids = of_nat (length (er_string_element_dictionary e)) # js"
    by (auto split: if_splits prod.splits sum.splits)
  from Cons.IH [OF js(1)] small js(2) show ?case by (auto simp: nth_Cons of_nat_small split: nat.splits)
qed auto

lemma WriteElementDictionaryStringList_written:
  assumes "layout_ok L" and "f \<in> set (cl_fields L)" and "cl_row_slot_size L \<le> length (er_row_slot e)"
    and w: "WriteElementDictionaryStringList f vs (Some e) = (Inr (), after)"
  shows "written L f (VList (LString vs)) e after"
proof -
  let ?d = "er_string_element_dictionary e"
  from w obtain ids e1 where a: "AddElements vs e = (Inr ids, e1)"
    and w1: "WriteElementDictionaryStringListField f ids (Some e1) = (Inr (), after)"
    by (auto simp: WriteElementDictionaryStringList_def split: prod.splits sum.splits)
  from AddElements_eq [OF a] have e1: "e1 = e\<lparr>er_string_element_dictionary := ?d @ vs\<rparr>"
    and ids: "length ids = length vs" "\<And>i. i < length vs \<Longrightarrow> unat (ids ! i) = length ?d + i" by auto
  let ?ext = "concat (map le_bytes ids)"
  let ?r = "\<lparr>vr_offset = of_nat (length (er_arena e)), vr_byte_length = of_nat (length ids * 4),
      vr_element_count_or_flags = of_nat (length ids)\<rparr>"
  from w1 have t: "fl_is_list f" "fl_type f = kString" "fl_encoding f = kElementDictionary" "length ids < 2 ^ 32"
    and w': "WriteValueRefField f ?r (Some (e1\<lparr>er_arena := er_arena e @ ?ext\<rparr>)) = (Inr (), after)"
    by (auto simp: WriteElementDictionaryStringListField_def WriteIds_eq Let_def e1 split: if_splits)
  have "holds_value f e' (VList (LString vs))"
    if e': "ReadRef f e' = Inr ?r" "FieldPresent f e'" "length (er_arena e @ ?ext) < 2 ^ 64"
      "er_arena e' = er_arena e @ ?ext" "er_string_element_dictionary e' = ?d @ vs" for e'
  proof -
    have "unat (vr_byte_length ?r) \<le> length ids * 4" by (simp only: ValueRef16.select_convs unat_of_nat mod_less_eq_dividend)
    moreover have off: "unat (vr_offset ?r) = length (er_arena e)" using e'(3) by (simp add: of_nat_small)
    ultimately have b: "ValidateRefBounds ?r (length (er_arena e')) = Inr ()"
      unfolding ValidateRefBounds_Inr by (simp add: e'(4))
    have "ReadLittleEndian (er_arena e') (length (er_arena e) + i * 4) = Inr (ids ! i)" if "i < length vs" for i
      using nth_concat_le_bytes [of i ids "er_arena e" "[]"] that ids(1) e'(4) by simp
    then have "ReadElementDictionaryList ?r e' = Inr (LString vs)"
      using b off ids t(4) e'(5) by (auto simp: ReadElementDictionaryList_def of_nat_small mapM_res_Inr_iff)
    then show ?thesis using t e'(1,2) by (simp add: holds_value_def ReadListField_def)
  qed
  then show ?thesis
    by (intro writtenI [OF assms(1-3) _ _ _ _ _ _ w']) (use t e1 ids(1) in \<open>auto simp: use_defs\<close>)
qed


text \<open>Arena string lists: a table of references, then the strings.\<close>

lemma WriteArenaStrings_eq:
  assumes "WriteArenaStrings vs (length xs) (xs @ replicate (length vs * 16) 0 @ ys) = (Inr (), arena)"
    and "start = length xs + length vs * 16 + length ys"
  shows "arena = xs @ concat (map ref_bytes (string_refs start vs)) @ ys @ concat (map bytes_of_string vs)
     \<and> (\<forall>v \<in> set vs. length v < 2 ^ 32)"
  using assms
proof (induction vs arbitrary: xs ys start)
  case (Cons v vs)
  let ?r = "\<lparr>vr_offset = of_nat start, vr_byte_length = of_nat (length v), vr_element_count_or_flags = 0\<rparr>"
  let ?a = "xs @ replicate (length (v # vs) * 16) 0 @ ys @ bytes_of_string v"
  have "WriteValueRef16 ?r ?a (length xs)
      = Inr ((xs @ ref_bytes ?r) @ replicate (length vs * 16) 0 @ ys @ bytes_of_string v)"
    by (simp add: WriteValueRef16_eq overwrite_def)
  moreover have "start = length (xs @ replicate (length (v # vs) * 16) 0 @ ys)" using Cons.prems(2) by simp
  moreover have "length (xs @ ref_bytes ?r) = length xs + 16" by simp
  ultimately have v: "length v < 2 ^ 32"
    and rest: "WriteArenaStrings vs (length (xs @ ref_bytes ?r))
      ((xs @ ref_bytes ?r) @ replicate (length vs * 16) 0 @ (ys @ bytes_of_string v)) = (Inr (), arena)"
    using Cons.prems(1) by (auto simp: Let_def simp del: replicate.simps split: if_splits)
  have "start + length v = length (xs @ ref_bytes ?r) + length vs * 16 + length (ys @ bytes_of_string v)"
    using Cons.prems(2) by simp
  from Cons.IH [OF rest this] v show ?case by simp
qed simp

lemma string_refs_nth:
  assumes "i < length vs" and "length (pre @ concat (map bytes_of_string vs)) < 2 ^ 64" and "\<forall>v \<in> set vs. length v < 2 ^ 32"
  shows "unat (vr_offset (string_refs (length pre) vs ! i)) + unat (vr_byte_length (string_refs (length pre) vs ! i))
      \<le> length (pre @ concat (map bytes_of_string vs))
    \<and> subspan (unat (vr_offset (string_refs (length pre) vs ! i))) (unat (vr_byte_length (string_refs (length pre) vs ! i)))
        (pre @ concat (map bytes_of_string vs)) = bytes_of_string (vs ! i)"
  using assms
proof (induction vs arbitrary: pre i)
  case (Cons v vs)
  show ?case
  proof (cases i)
    case 0
    have "length pre < 2 ^ 64" "length v < 2 ^ 32" using Cons.prems by auto
    with 0 subspan_append2 [of pre "bytes_of_string v"] show ?thesis by (simp add: of_nat_small)
  next
    case (Suc j)
    with Cons.IH [of j "pre @ bytes_of_string v"] Cons.prems show ?thesis by (simp add: add.commute)
  qed
qed simp

lemma length_string_refs [simp]: "length (string_refs start vs) = length vs"
  by (induction vs arbitrary: start) simp_all

lemma length_concat_ref_bytes [simp]: "length (concat (map ref_bytes rs)) = length rs * 16"
  by (induction rs) simp_all

lemma DecodeArenaStringList_strings:
  fixes n :: nat and xs ys vs
  defines "refs \<equiv> string_refs (length xs + length vs * 16) vs"
  defines "r \<equiv> \<lparr>vr_offset = of_nat (length xs), vr_byte_length = of_nat (length vs * 16),
      vr_element_count_or_flags = of_nat (length vs)\<rparr>"
  assumes n: "length vs * 16 < 2 ^ 32" and vs: "\<forall>v \<in> set vs. length v < 2 ^ 32"
    and ar: "er_arena e = xs @ concat (map ref_bytes refs) @ concat (map bytes_of_string vs)"
    and len: "length (er_arena e) < 2 ^ 64"
  shows "DecodeArenaStringList r e = Inr (LString vs)"
proof -
  let ?pre = "xs @ concat (map ref_bytes refs)"
  have pre: "length ?pre = length xs + length vs * 16" by (simp add: refs_def)
  have off: "unat (vr_offset r) = length xs" using len by (simp add: r_def ar of_nat_small)
  have cnt: "unat (vr_element_count_or_flags r) = length vs" using n by (simp add: r_def of_nat_small)
  have bl: "unat (vr_byte_length r) = length vs * 16"
    using n unfolding r_def by (simp only: ValueRef16.select_convs of_nat_small)
  have "DecodeValueRef16 (er_arena e) (length xs + i * 16) = Inr (refs ! i)" if "i < length vs" for i
    using ref16.read_concat [of i refs xs] that by (simp add: ar refs_def)
  moreover have "i * 16 mod 2 ^ 32 = i * 16" if "i < length vs" for i
    using that n by (intro mod_less) linarith
  moreover have "ValidateRefBounds (refs ! i) (length (er_arena e)) = Inr ()"
      "subspan (unat (vr_offset (refs ! i))) (unat (vr_byte_length (refs ! i))) (er_arena e) = bytes_of_string (vs ! i)"
    if "i < length vs" for i
    using string_refs_nth [of i vs ?pre, OF that _ vs] len unfolding pre refs_def [symmetric] ValidateRefBounds_Inr ar
    by simp_all
  ultimately show ?thesis
    using bl cnt off by (auto simp: DecodeArenaStringList_def ValidateRefBounds_Inr mapM_res_Inr_iff ar refs_def)
qed


lemma WriteArenaStringListField_written:
  assumes "layout_ok L" and "f \<in> set (cl_fields L)" and "cl_row_slot_size L \<le> length (er_row_slot e)"
    and w: "WriteArenaStringListField f vs (Some e) = (Inr (), after)"
  shows "written L f (VList (LString vs)) e after"
proof -
  let ?r = "\<lparr>vr_offset = of_nat (length (er_arena e)), vr_byte_length = of_nat (length vs * 16),
      vr_element_count_or_flags = of_nat (length vs)\<rparr>"
  from w obtain arena where t: "fl_is_list f" "fl_type f = kString" "fl_encoding f = kArena" "length vs * 16 < 2 ^ 32"
    and a: "WriteArenaStrings vs (length (er_arena e)) (er_arena e @ replicate (length vs * 16) 0) = (Inr (), arena)"
    and w': "WriteValueRefField f ?r (Some (e\<lparr>er_arena := arena\<rparr>)) = (Inr (), after)"
    by (auto simp: WriteArenaStringListField_def Let_def split: if_splits prod.splits sum.splits)
  from WriteArenaStrings_eq [of vs "er_arena e" "[]" arena, OF _ refl] a
  have ar: "arena = er_arena e @ concat (map ref_bytes (string_refs (length (er_arena e) + length vs * 16) vs))
      @ concat (map bytes_of_string vs)" and small: "\<forall>v \<in> set vs. length v < 2 ^ 32" by simp_all
  have "holds_value f e' (VList (LString vs))"
    if e': "ReadRef f e' = Inr ?r" "FieldPresent f e'" "length arena < 2 ^ 64" "er_arena e' = arena" for e'
  proof -
    have "DecodeArenaStringList ?r e' = Inr (LString vs)"
      by (rule DecodeArenaStringList_strings [OF t(4) small]) (use e' ar in simp_all)
    moreover have "ValidateRefBounds ?r (length (er_arena e')) = Inr ()"
      using calculation by (auto simp: DecodeArenaStringList_def split: if_splits)
    ultimately show ?thesis using t e'(1,2) by (simp add: holds_value_def ReadListField_def)
  qed
  then show ?thesis
    by (intro writtenI [OF assms(1-3) _ _ _ _ _ _ w']) (use t ar in \<open>auto simp: use_defs\<close>)
qed

lemma WriteListFieldValue_written:
  assumes "layout_ok L" and "f \<in> set (cl_fields L)" and "cl_row_slot_size L \<le> length (er_row_slot e)"
    and w: "WriteListFieldValue f d (Some e) = (Inr (), after)"
    and ok: "field_ok d"
  shows "written L f (df_value d) e after"
proof -
  from w obtain vs where t: "fl_is_list f" "df_value d = VList vs" "list_type vs = fl_type f"
    by (auto simp: WriteListFieldValue_def GetList_def split: if_splits DecodedValue.splits)
  have get: "GetList (fl_type f) d = Some vs" using t by (simp add: GetList_def)
  show ?thesis
  proof (cases "fl_type f = kString")
    case True
    with t obtain ss where "vs = LString ss" by (cases vs) auto
    with w t get True show ?thesis
      using WriteArenaStringListField_written [OF assms(1-3)] WriteListDictionaryStringList_written [OF assms(1-3)]
        WriteElementDictionaryStringList_written [OF assms(1-3)]
      by (auto simp: WriteListFieldValue_def split: if_splits)
  next
    case False
    then have ns: "list_type vs \<noteq> kString" using t by simp
    have n: "list_length vs * FieldTypeSize (list_type vs) < 2 ^ 32"
      using ok t(2) wire_list_length [OF ns] by (simp add: field_ok_def)
    note arena = arena_list_written [OF assms(1-3) t(1) t(3) [symmetric] ns _ n]
    note dict = list_dictionary_written [OF assms(1-3) t(3) [symmetric] ns]
    show ?thesis
    proof (cases "fl_encoding f = kArena")
      case True
      obtain bs where "EncodeScalarListSpan vs = Inr bs"
        "WriteValueRefField f \<lparr>vr_offset = of_nat (length (er_arena e)), vr_byte_length = of_nat (length bs),
          vr_element_count_or_flags = of_nat (list_length vs)\<rparr> (Some (e\<lparr>er_arena := er_arena e @ bs\<rparr>)) = (Inr (), after)"
        using w t get ns True
        by (cases vs) (auto simp: WriteListFieldValue_def WriteArenaListField_def WriteArenaBoolListField_def
            EncodeBoolListBytes_eq split: if_splits sum.splits)
      with arena [OF True] t(2) show ?thesis by simp
    next
      case False
      obtain bs where "list_length vs < 2 ^ 32" "length (er_scalar_list_dictionary e) < 2 ^ 32"
        "EncodeScalarListSpan vs = Inr bs"
        "WriteListDictionaryField f (of_nat (length (er_scalar_list_dictionary e))) (of_nat (list_length vs))
          (Some (e\<lparr>er_scalar_list_dictionary := er_scalar_list_dictionary e @ [bs]\<rparr>)) = (Inr (), after)"
        using w t get ns False
        by (cases vs) (auto simp: WriteListFieldValue_def WriteListDictionaryScalarList_def WriteListDictionaryBoolList_def
            EncodeBoolListBytes_eq split: if_splits sum.splits)
      with dict t(2) show ?thesis by simp
    qed
  qed
qed


section \<open>The whole row\<close>

lemma FindLayoutField_Some: "FindLayoutField L i = Some f \<Longrightarrow> f \<in> set (cl_fields L) \<and> fl_field_id f = i"
  by (auto simp: FindLayoutField_def find_Some_iff)

lemma same_frame_refl [simp]: "same_frame e e"
  by (simp add: same_frame_def)

lemma same_frame_trans: "same_frame a b \<Longrightarrow> same_frame b c \<Longrightarrow> same_frame a c"
  by (auto simp: same_frame_def intro: grown_trans)

lemma reads_kept_refl [simp]: "reads_kept f e e"
  by (simp add: reads_kept_def)

lemma reads_kept_trans: "reads_kept f a b \<Longrightarrow> reads_kept f b c \<Longrightarrow> reads_kept f a c"
  by (auto simp: reads_kept_def)

lemma holds_value_kept: "holds_value f e v \<Longrightarrow> reads_kept f e e' \<Longrightarrow> holds_value f e' v"
  by (auto simp: holds_value_def reads_kept_def split: DecodedValue.splits)

lemma EncodeField_written:
  assumes L: "layout_ok L" and len: "cl_row_slot_size L \<le> length (er_row_slot e)" and ok: "field_ok d"
    and e': "EncodeField L d e = Inr e'" and f: "FindLayoutField L (df_field_id d) = Some f"
  shows "written L f (df_value d) e (Some e')"
proof -
  have mem: "f \<in> set (cl_fields L)" using FindLayoutField_Some [OF f] by simp
  let ?w = "if fl_is_list f then WriteListFieldValue f d (Some e) else WriteScalarFieldValue f d (Some e)"
  from e' f obtain after where w: "?w = (Inr (), after)" and after: "e' = the after"
    by (auto simp: EncodeField_def split: if_splits prod.splits sum.splits)
  then have "written L f (df_value d) e after"
    using WriteListFieldValue_written [OF L mem len _ ok] WriteScalarFieldValue_written [OF L mem len]
    by (simp split: if_splits)
  then show ?thesis using after by (auto simp: written_def)
qed

lemma EncodeFields_holds:
  assumes "layout_ok L" and "cl_row_slot_size L \<le> length (er_row_slot e)" and "\<forall>d \<in> set ds. field_ok d"
    and "distinct (map df_field_id ds)" and "foldM_res (EncodeField L) ds e = Inr e'" and "length (er_arena e') < 2 ^ 64"
  shows "same_frame e e'
    \<and> (\<forall>d \<in> set ds. \<forall>f. FindLayoutField L (df_field_id d) = Some f \<longrightarrow> holds_value f e' (df_value d))
    \<and> (\<forall>f \<in> set (cl_fields L). fl_field_id f \<notin> df_field_id ` set ds \<longrightarrow> reads_kept f e e')"
  using assms(2-)
proof (induction ds arbitrary: e)
  case (Cons d ds)
  from Cons.prems(4) obtain e1 where e1: "EncodeField L d e = Inr e1" and rest: "foldM_res (EncodeField L) ds e1 = Inr e'"
    by auto
  have new: "df_field_id d \<notin> df_field_id ` set ds" using Cons.prems(3) by simp
  have head: "same_frame e e1 \<and> (\<forall>f. FindLayoutField L (df_field_id d) = Some f \<longrightarrow> written L f (df_value d) e (Some e1))
      \<and> (FindLayoutField L (df_field_id d) = None \<longrightarrow> e1 = e)"
  proof (cases "FindLayoutField L (df_field_id d)")
    case (Some f)
    with EncodeField_written [OF assms(1) Cons.prems(1) _ e1] Cons.prems(2) show ?thesis by (auto simp: written_def)
  qed (use e1 in \<open>simp add: EncodeField_def\<close>)
  then have "cl_row_slot_size L \<le> length (er_row_slot e1)" using Cons.prems(1) by (simp add: same_frame_def)
  from Cons.IH [OF this _ _ rest Cons.prems(5)] Cons.prems(2,3)
  have fr: "same_frame e1 e'" and vals: "\<And>d f. d \<in> set ds \<Longrightarrow> FindLayoutField L (df_field_id d) = Some f \<Longrightarrow> holds_value f e' (df_value d)"
    and kept: "\<And>f. f \<in> set (cl_fields L) \<Longrightarrow> fl_field_id f \<notin> df_field_id ` set ds \<Longrightarrow> reads_kept f e1 e'"
    by auto
  have "length (er_arena e1) \<le> length (er_arena e')" using fr by (auto simp: same_frame_def grown_def)
  then have small: "length (er_arena e1) < 2 ^ 64" using Cons.prems(5) by simp
  have vw: "value_written L f (df_value d) e e1" if "FindLayoutField L (df_field_id d) = Some f" for f
    using head that small by (auto simp: written_def)
  have "holds_value f e' (df_value d)" if f: "FindLayoutField L (df_field_id d) = Some f" for f
    using vw [OF f] kept [of f] FindLayoutField_Some [OF f] new holds_value_kept [of f e1 "df_value d" e'] by (auto simp: value_written_def)
  moreover have "reads_kept f e e'" if f: "f \<in> set (cl_fields L)" "fl_field_id f \<notin> df_field_id ` set (d # ds)" for f
  proof -
    have "reads_kept f e e1"
    proof (cases "FindLayoutField L (df_field_id d)")
      case (Some g)
      with FindLayoutField_Some [OF Some] f have "g \<noteq> f" by auto
      with vw [OF Some] f(1) show ?thesis by (auto simp: value_written_def)
    qed (use head in simp)
    then show ?thesis using kept [OF f(1)] f(2) reads_kept_trans by auto
  qed
  ultimately show ?case using head fr vals same_frame_trans by auto
qed simp

lemma CreateEncodedRow_absent: "\<not> FieldPresent f (CreateEncodedRow L)"
  by (simp add: FieldPresent_bit CreateEncodedRow_def)

text \<open>What \<open>EncodeForLayout\<close> makes of a decoded payload.\<close>

lemma EncodeForLayout_holds:
  assumes L: "layout_ok L" and ok: "payload_ok p" and e: "EncodeForLayout p (Some L) = Inr e"
    and small: "length (er_arena e) < 2 ^ 64"
  shows "MaterializeRow (Some L) e = Inr \<lparr>row_layout = Some L, row_encoded = Some e\<rparr>"
    and "length (er_row_slot e) = cl_row_slot_size L"
    and "er_schema_version e = cl_schema_version L" and "er_layout_fingerprint e = cl_layout_fingerprint L"
    and "d \<in> set (dp_fields p) \<Longrightarrow> FindLayoutField L (df_field_id d) = Some f \<Longrightarrow> holds_value f e (df_value d)"
    and "f \<in> set (cl_fields L) \<Longrightarrow> fl_field_id f \<notin> df_field_id ` set (dp_fields p) \<Longrightarrow> \<not> FieldPresent f e"
proof -
  let ?e0 = "CreateEncodedRow L"
  from e obtain r where fold: "foldM_res (EncodeField L) (dp_fields p) ?e0 = Inr e" and m: "MaterializeRow (Some L) e = Inr r"
    by (auto simp: EncodeForLayout_def)
  show "MaterializeRow (Some L) e = Inr \<lparr>row_layout = Some L, row_encoded = Some e\<rparr>"
    using m by (auto simp: MaterializeRow_def split: if_splits)
  have "cl_row_slot_size L \<le> length (er_row_slot ?e0)" by (simp add: CreateEncodedRow_def)
  from EncodeFields_holds [OF L this _ _ fold small] ok
  have H: "same_frame ?e0 e" "\<And>d f. d \<in> set (dp_fields p) \<Longrightarrow> FindLayoutField L (df_field_id d) = Some f \<Longrightarrow> holds_value f e (df_value d)"
    "\<And>f. f \<in> set (cl_fields L) \<Longrightarrow> fl_field_id f \<notin> df_field_id ` set (dp_fields p) \<Longrightarrow> reads_kept f ?e0 e"
    by (auto simp: payload_ok_def)
  then show "length (er_row_slot e) = cl_row_slot_size L" "er_schema_version e = cl_schema_version L"
    "er_layout_fingerprint e = cl_layout_fingerprint L" by (simp_all add: same_frame_def CreateEncodedRow_def)
  show "d \<in> set (dp_fields p) \<Longrightarrow> FindLayoutField L (df_field_id d) = Some f \<Longrightarrow> holds_value f e (df_value d)"
    by (rule H)
  show "f \<in> set (cl_fields L) \<Longrightarrow> fl_field_id f \<notin> df_field_id ` set (dp_fields p) \<Longrightarrow> \<not> FieldPresent f e"
    using H(3) [of f] CreateEncodedRow_absent [of f L] by (simp add: reads_kept_def)
qed


section \<open>Which payloads are accepted\<close>

lemma WriteArenaStrings_succeeds:
  "\<forall>v \<in> set vs. length v < 2 ^ 32 \<Longrightarrow>
   \<exists>arena. WriteArenaStrings vs (length xs) (xs @ replicate (length vs * 16) 0 @ ys) = (Inr (), arena)"
proof (induction vs arbitrary: xs ys)
  case (Cons v vs)
  let ?r = "\<lparr>vr_offset = of_nat (length (xs @ replicate (length (v # vs) * 16) 0 @ ys)),
    vr_byte_length = of_nat (length v), vr_element_count_or_flags = 0\<rparr>"
  have "WriteValueRef16 ?r (xs @ replicate (length (v # vs) * 16) 0 @ ys @ bytes_of_string v) (length xs)
      = Inr ((xs @ ref_bytes ?r) @ replicate (length vs * 16) 0 @ ys @ bytes_of_string v)"
    by (simp add: WriteValueRef16_eq overwrite_def)
  moreover have "length (xs @ ref_bytes ?r) = length xs + 16" by simp
  ultimately show ?case
    using Cons.IH [of "xs @ ref_bytes ?r" "ys @ bytes_of_string v"] Cons.prems
    by (simp add: Let_def del: replicate.simps length_append of_nat_add)
qed simp

lemma AddElements_succeeds:
  "length (er_string_element_dictionary e) + length vs < 2 ^ 32 \<Longrightarrow> \<exists>ids e'. AddElements vs e = (Inr ids, e')"
proof (induction vs arbitrary: e)
  case (Cons v vs)
  let ?e = "e\<lparr>er_string_element_dictionary := er_string_element_dictionary e @ [v]\<rparr>"
  from Cons.prems have "length (er_string_element_dictionary ?e) + length vs < 2 ^ 32" by simp
  from Cons.IH [OF this] obtain ids e' where "AddElements vs ?e = (Inr ids, e')" by blast
  with Cons.prems show ?case by simp
qed simp

lemma field_use_bounds:
  "length (wire_bytes v) < field_use v" "list_type vs \<noteq> kString \<Longrightarrow> list_length vs < field_use (VList vs)"
  "length ss * 16 < field_use (VList (LString ss))" "s \<in> set ss \<Longrightarrow> length s < field_use (VList (LString ss))"
proof -
  show "length (wire_bytes v) < field_use v" by (simp add: field_use_def)
  have "list_length vs \<le> list_length vs * FieldTypeSize (list_type vs)"
    by (cases "list_type vs") (simp_all add: kValueRef16Size_def)
  moreover have "n \<le> m \<Longrightarrow> l = 4 + m \<Longrightarrow> n < 5 * (9 + l)" for n m l :: nat by simp
  ultimately show "list_length vs < field_use (VList vs)" if "list_type vs \<noteq> kString"
    using wire_list_length [OF that] unfolding field_use_def by blast
  show "length ss * 16 < field_use (VList (LString ss))" by (simp add: field_use_def)
  show "s \<in> set ss \<Longrightarrow> length s < field_use (VList (LString ss))"
  proof -
    assume "s \<in> set ss"
    then have "length s \<le> length (concat (map bytes_of_string ss))" by (induction ss) auto
    then show ?thesis by (simp add: field_use_def)
  qed
qed

lemma EncodeField_succeeds:
  assumes L: "layout_ok L" and len: "cl_row_slot_size L \<le> length (er_row_slot e)"
    and fits: "\<And>f. FindLayoutField L (df_field_id d) = Some f \<Longrightarrow> value_fits f (df_value d) \<and> encoding_fits f"
    and room: "row_use e + field_use (df_value d) < 2 ^ 32"
  shows "\<exists>e'. EncodeField L d e = Inr e'"
proof (cases "FindLayoutField L (df_field_id d)")
  case (Some f)
  then have f: "f \<in> set (cl_fields L)" by (simp add: FindLayoutField_Some)
  note fit = fits [OF Some]
  have ref: "WriteValueRefField f r (Some e0) = (Inr (), Some (put_field f (ref_bytes r) [] e0))"
    if "er_row_slot e0 = er_row_slot e" "fl_is_list f \<or> fl_type f = kString" for r e0
    using WriteValueRefField_eq' [OF L f _ uses_ref_shape [OF L f that(2)], of e0] that(1) len by simp
  have dict: "length (er_string_dictionary e) < 2 ^ 32" "length (er_scalar_list_dictionary e) < 2 ^ 32"
    "length (er_string_list_dictionary e) < 2 ^ 32" using room by (simp_all add: row_use_def)
  have "\<exists>after. (if fl_is_list f then WriteListFieldValue f d (Some e) else WriteScalarFieldValue f d (Some e)) = (Inr (), after)"
  proof (cases "df_value d")
    case VNull
    with fit show ?thesis by simp
  next
    case (VScalar v)
    show ?thesis
    proof (cases v)
      case (SString s)
      with VScalar fit room dict field_use_bounds(1) [of "df_value d"] show ?thesis
        by (auto simp: WriteScalarFieldValue_def GetScalar_def WriteStringValue_def encoding_fits_def
            WriteArenaStringField_def WriteDictionaryStringField_def ref)
    qed (use VScalar fit WriteScalarField_eq(1) [OF L f len, of v] layout_okD(1) [OF L f] in
        \<open>auto simp: WriteScalarFieldValue_def GetScalar_def field_shape_def\<close>)
  next
    case (VList vs)
    show ?thesis
    proof (cases "list_type vs = kString")
      case True
      then obtain ss where ss: "vs = LString ss" by (cases vs) auto
      note b = field_use_bounds(3) [of ss] field_use_bounds(4) [of _ ss]
      have "\<forall>s \<in> set ss. length s < 2 ^ 32" using b(2) room VList ss by fastforce
      from WriteArenaStrings_succeeds [OF this, of "er_arena e" "[]"] obtain arena
        where a: "WriteArenaStrings ss (length (er_arena e)) (er_arena e @ replicate (length ss * 16) 0) = (Inr (), arena)"
        by auto
      have "length (er_string_element_dictionary e) + length ss < 2 ^ 32" using b(1) room VList ss by (simp add: row_use_def)
      from AddElements_succeeds [OF this] obtain ids e1 where ae: "AddElements ss e = (Inr ids, e1)" by blast
      have ids: "WriteIds ids (length (er_arena e)) (er_arena e @ replicate (length ss * 4) 0)
          = (Inr (), er_arena e @ concat (map le_bytes ids))"
        using AddElements_eq [OF ae] WriteIds_eq [of ids "er_arena e"] by simp
      note AddElements_eq [OF ae]
      with VList ss fit room dict b(1) a ae show ?thesis
        by (auto simp: WriteListFieldValue_def GetList_def WriteArenaStringListField_def WriteListDictionaryStringList_def
            WriteElementDictionaryStringList_def WriteElementDictionaryStringListField_def WriteListDictionaryField_def
            encoding_fits_def Let_def ref ids)
    next
      case False
      have n: "list_length vs < 2 ^ 32" using field_use_bounds(2) [OF False] room VList by simp
      from EncodeScalarListSpan_roundtrip [OF False n] obtain bs where bs: "EncodeScalarListSpan vs = Inr bs" by blast
      with VList fit False dict n show ?thesis
        by (cases vs) (auto simp: WriteListFieldValue_def GetList_def WriteArenaListField_def WriteArenaBoolListField_def
            WriteListDictionaryScalarList_def WriteListDictionaryBoolList_def WriteListDictionaryField_def
            EncodeBoolListBytes_def encoding_fits_def ref split: sum.splits)
    qed
  qed
  then show ?thesis using Some fit by (cases "df_value d") (auto simp: EncodeField_def)
qed (simp add: EncodeField_def)


lemma EncodeFields_use:
  assumes "layout_ok L" and "cl_row_slot_size L \<le> length (er_row_slot e)" and "\<forall>d \<in> set ds. field_ok d"
    and "foldM_res (EncodeField L) ds e = Inr e'"
  shows "row_use e' \<le> row_use e + (\<Sum>d\<leftarrow>ds. field_use (df_value d))"
  using assms(2-)
proof (induction ds arbitrary: e)
  case (Cons d ds)
  from Cons.prems(3) obtain e1 where e1: "EncodeField L d e = Inr e1" and rest: "foldM_res (EncodeField L) ds e1 = Inr e'"
    by auto
  have "row_use e1 \<le> row_use e + field_use (df_value d) \<and> length (er_row_slot e1) = length (er_row_slot e)"
  proof (cases "FindLayoutField L (df_field_id d)")
    case (Some f)
    with EncodeField_written [OF assms(1) Cons.prems(1) _ e1] Cons.prems(2) show ?thesis by (auto simp: written_def same_frame_def)
  qed (use e1 in \<open>simp add: EncodeField_def\<close>)
  with Cons.IH [OF _ _ rest] Cons.prems(1,2) show ?case by simp
qed simp

lemma EncodeFields_succeeds:
  assumes "layout_ok L" and "cl_row_slot_size L \<le> length (er_row_slot e)" and "\<forall>d \<in> set ds. field_ok d"
    and "\<forall>d \<in> set ds. \<forall>f. FindLayoutField L (df_field_id d) = Some f \<longrightarrow> value_fits f (df_value d) \<and> encoding_fits f"
    and "row_use e + (\<Sum>d\<leftarrow>ds. field_use (df_value d)) < 2 ^ 32"
  shows "\<exists>e'. foldM_res (EncodeField L) ds e = Inr e'"
  using assms(2-)
proof (induction ds arbitrary: e)
  case (Cons d ds)
  have "row_use e + field_use (df_value d) < 2 ^ 32" using Cons.prems(4) by simp
  then obtain e1 where e1: "EncodeField L d e = Inr e1"
    using EncodeField_succeeds [OF assms(1) Cons.prems(1), of d] Cons.prems(3) by auto
  have step: "foldM_res (EncodeField L) [d] e = Inr e1" using e1 by simp
  have "row_use e1 \<le> row_use e + field_use (df_value d)"
    using EncodeFields_use [OF assms(1) Cons.prems(1) _ step] Cons.prems(2) by simp
  moreover have "length (er_row_slot e1) = length (er_row_slot e)"
  proof (cases "FindLayoutField L (df_field_id d)")
    case (Some f)
    with EncodeField_written [OF assms(1) Cons.prems(1) _ e1] Cons.prems(2) show ?thesis by (auto simp: written_def same_frame_def)
  qed (use e1 in \<open>simp add: EncodeField_def\<close>)
  ultimately have "\<exists>e'. foldM_res (EncodeField L) ds e1 = Inr e'"
    using Cons.prems by (intro Cons.IH) auto
  with e1 show ?case by simp
qed simp

lemma payload_use: "(\<Sum>d\<leftarrow>ds. field_use (df_value d)) = 5 * length (concat (map field_bytes ds))"
  by (induction ds) (simp_all add: field_use_def field_bytes_def sized_bytes_def)

lemma Compile_encoding_fits:
  assumes "schema_ok s" and "Compile s = Inr L" and "f \<in> set (cl_fields L)"
  shows "encoding_fits f"
proof -
  from Compile_field_spec [OF assms] obtain spec where "spec \<in> set (rs_active_fields s)"
    and f: "fl_type f = fs_type spec" "fl_is_list f = fs_is_list spec" "fl_encoding f = fs_encoding spec" by blast
  then have "ValidateEncodingPolicy spec = Inr ()" using assms(1) by (simp add: schema_ok_def)
  then show ?thesis
    by (auto simp: ValidateEncodingPolicy_def encoding_fits_def f split: if_splits FieldEncoding.splits)
qed

lemma holds_value_fits: "holds_value f e v \<Longrightarrow> value_fits f v"
  by (cases v) (simp_all add: holds_value_def)

text \<open>The arena of a row that is made from a message of less than \<open>2 ^ 28\<close> bytes is small.\<close>

lemma EncodeForLayout_small:
  assumes L: "layout_ok L" and ok: "payload_ok p" and n: "length (payload_bytes p) < 2 ^ 28"
    and e: "EncodeForLayout p (Some L) = Inr e"
  shows "length (er_arena e) < 2 ^ 64"
proof -
  from e have fold: "foldM_res (EncodeField L) (dp_fields p) (CreateEncodedRow L) = Inr e" by (auto simp: EncodeForLayout_def)
  have "row_use e \<le> 5 * length (concat (map field_bytes (dp_fields p)))"
    using EncodeFields_use [OF L _ _ fold] ok unfolding payload_use by (simp add: payload_ok_def CreateEncodedRow_def row_use_def)
  moreover have "length (concat (map field_bytes (dp_fields p))) < 2 ^ 28"
    using n by (simp add: payload_bytes_def counted_bytes_def)
  ultimately show ?thesis by (simp add: row_use_def)
qed

lemma EncodeForLayout_shows:
  assumes L: "layout_ok L" and ok: "payload_ok p" and n: "length (payload_bytes p) < 2 ^ 28"
    and e: "EncodeForLayout p (Some L) = Inr e"
  shows "shows_payload L p \<lparr>row_layout = Some L, row_encoded = Some e\<rparr>" (is "shows_payload L p ?r") and "fits_layout L p"
proof -
  note H = EncodeForLayout_holds [OF L ok e EncodeForLayout_small [OF assms]]
  have "reads_as ?r (df_field_id d) (df_value d)"
    if d: "d \<in> set (dp_fields p)" and f: "FindLayoutField L (df_field_id d) = Some f" for d f
  proof -
    have fd: "f \<in> set (cl_fields L)" "fl_field_id f = df_field_id d" using FindLayoutField_Some [OF f] by auto
    from H(5) [OF d f] read_by_id [OF L fd(1) H(3,4)] fd(2) show ?thesis
      by (cases "df_value d") (auto simp: holds_value_def)
  qed
  moreover have "\<not> Row_Has ?r fid" if "fid \<notin> df_field_id ` set (dp_fields p)" for fid
  proof (cases "FindLayoutField L fid")
    case (Some f)
    with FindLayoutField_Some [OF Some] H(6) [of f] that show ?thesis using read_by_id(3) [OF L _ H(3,4), of f] by auto
  qed (simp add: Row_Has_def)
  ultimately show "shows_payload L p ?r" by (auto simp: shows_payload_def)
  have "FieldPresent f e" if "f \<in> set (cl_fields L)" "\<not> fl_nullable f \<and> \<not> fl_HasDefault f" for f
    using H(1) that by (auto simp: MaterializeRow_def split: if_splits)
  then show "fits_layout L p"
    unfolding fits_layout_def using H(5,6) by (blast intro: holds_value_fits)
qed

lemma EncodeForLayout_succeeds:
  assumes s: "schema_ok s" "Compile s = Inr L" and ok: "payload_ok p" and n: "length (payload_bytes p) < 2 ^ 28"
    and fits: "fits_layout L p"
  shows "\<exists>e. EncodeForLayout p (Some L) = Inr e"
proof -
  have L: "layout_ok L" by (rule Compile_layout(1) [OF s])
  let ?e0 = "CreateEncodedRow L"
  have len: "cl_row_slot_size L \<le> length (er_row_slot ?e0)" by (simp add: CreateEncodedRow_def)
  have fields: "\<forall>d \<in> set (dp_fields p). field_ok d" using ok by (simp add: payload_ok_def)
  have "row_use ?e0 + 5 * length (concat (map field_bytes (dp_fields p))) < 2 ^ 32"
    using n by (simp add: payload_bytes_def counted_bytes_def row_use_def CreateEncodedRow_def)
  moreover have "\<forall>d \<in> set (dp_fields p). \<forall>f. FindLayoutField L (df_field_id d) = Some f \<longrightarrow> value_fits f (df_value d) \<and> encoding_fits f"
    using fits Compile_encoding_fits [OF s] FindLayoutField_Some by (auto simp: fits_layout_def)
  ultimately obtain e where e: "foldM_res (EncodeField L) (dp_fields p) ?e0 = Inr e"
    using EncodeFields_succeeds [OF L len fields] unfolding payload_use by blast
  have "row_use e < 2 ^ 32" using EncodeFields_use [OF L len fields e] n unfolding payload_use
    by (simp add: payload_bytes_def counted_bytes_def row_use_def CreateEncodedRow_def)
  then have "length (er_arena e) < 2 ^ 64" by (simp add: row_use_def)
  from EncodeFields_holds [OF L len fields _ e this] ok have fr: "same_frame ?e0 e"
    and vals: "\<And>d f. d \<in> set (dp_fields p) \<Longrightarrow> FindLayoutField L (df_field_id d) = Some f \<Longrightarrow> holds_value f e (df_value d)"
    by (auto simp: payload_ok_def)
  have "FieldPresent f e" if f: "f \<in> set (cl_fields L)" "\<not> fl_nullable f \<and> \<not> fl_HasDefault f" for f
  proof -
    from fits f obtain d where "d \<in> set (dp_fields p)" "df_field_id d = fl_field_id f" by (auto simp: fits_layout_def)
    with vals [of d f] layout_okD(7) [OF L f(1)] show ?thesis by (simp add: holds_value_def)
  qed
  then have "MaterializeRow (Some L) e = Inr \<lparr>row_layout = Some L, row_encoded = Some e\<rparr>"
    using fr by (auto simp: MaterializeRow_def same_frame_def CreateEncodedRow_def)
  with e show ?thesis by (simp add: EncodeForLayout_def)
qed

text \<open>
  C15. A message payload of less than \<open>2 ^ 28\<close> bytes is encoded for the layout of a schema exactly
  when every field that the layout knows has the type and shape of the layout and every required
  field is there. The row then shows the payload: every known field reads back, by its id, as the value
  that the message carries, whatever its storage class, and no other field is present.
\<close>

theorem encode_for_layout_exact:
  assumes "schema_ok s" and "Compile s = Inr L" and "DecodePayload bs = Inr p" and "length bs < 2 ^ 28"
  shows "((\<exists>e. EncodeForLayout p (Some L) = Inr e) \<longleftrightarrow> fits_layout L p)
    \<and> (\<forall>e. EncodeForLayout p (Some L) = Inr e \<longrightarrow> shows_payload L p \<lparr>row_layout = Some L, row_encoded = Some e\<rparr>)"
proof -
  have L: "layout_ok L" by (rule Compile_layout(1) [OF assms(1,2)])
  have ok: "payload_ok p" and n: "length (payload_bytes p) < 2 ^ 28"
    using assms(3,4) DecodePayload_iff [of bs p] by auto
  from EncodeForLayout_succeeds [OF assms(1,2) ok n] EncodeForLayout_shows [OF L ok n] show ?thesis by blast
qed

lemma demo_payload_ok: "payload_ok demo_payload" "length (payload_bytes demo_payload) < 2 ^ 28"
  by (simp_all add: payload_ok_def demo_payload_def field_ok_def sized_bytes_def payload_bytes_def
      counted_bytes_def field_bytes_def kMagic_def bool_bytes_def)

lemma demo_payload_fits:
  assumes "Compile demo_schema = Inr L"
  shows "fits_layout L demo_payload"
proof -
  have "value_fits f (df_value d)" if d: "d \<in> set (dp_fields demo_payload)" and f: "FindLayoutField L (df_field_id d) = Some f" for d f
  proof -
    from Compile_field_spec [OF demo_schema_ok assms] FindLayoutField_Some [OF f] obtain spec
      where "spec \<in> set (rs_active_fields demo_schema)" "fs_field_id spec = df_field_id d"
        "fl_type f = fs_type spec" "fl_is_list f = fs_is_list spec" by metis
    with d show ?thesis by (auto simp: demo_payload_def demo_schema_def demo_field_def)
  qed
  moreover have "fl_field_id f = 1" if f: "f \<in> set (cl_fields L)" "\<not> fl_nullable f" for f
  proof -
    from Compile_field_spec [OF demo_schema_ok assms f(1)] obtain spec
      where "spec \<in> set (rs_active_fields demo_schema)" "fs_field_id spec = fl_field_id f" "fl_nullable f = fs_nullable spec" by metis
    with f(2) show ?thesis by (auto simp: demo_schema_def demo_field_def)
  qed
  ultimately show ?thesis unfolding fits_layout_def by (simp add: demo_payload_def)
qed

theorem encode_for_layout_exact_witness:
  "\<exists>L e. Compile demo_schema = Inr L \<and> EncodeForLayout demo_payload (Some L) = Inr e
    \<and> shows_payload L demo_payload \<lparr>row_layout = Some L, row_encoded = Some e\<rparr>"
proof -
  obtain L where L: "Compile demo_schema = Inr L" "layout_ok L" by (rule demo_layout)
  have "DecodePayload (payload_bytes demo_payload) = Inr demo_payload"
    using DecodePayload_iff demo_payload_ok by blast
  from encode_for_layout_exact [OF demo_schema_ok L(1) this] demo_payload_ok demo_payload_fits [OF L(1)] L(1)
  show ?thesis by auto
qed

end
