(* ===== verification/Update_Applier.thy ===== *)
theory Update_Applier
  imports Field_Encoder Shard_Runtime
begin

text \<open>
  \<open>src/ingest/update_applier.h\<close> and the end of \<open>update_applier.cc\<close>: routes, the validation of options
  and messages, and \<open>Apply\<close>, which decodes a message once, encodes it for every target and only then
  publishes it to the realtime tables. The tables are the store of \<open>Shard_Runtime\<close>, because the
  shards that serve reads share them; a call returns its status with the store after it.
\<close>

section \<open>Data\<close>

datatype UpdateGenerationRole = kActive | kRebuild | kRebase | kCompaction

record UpdateTargetRoute =
  ut_role :: UpdateGenerationRole
  ut_generation_id :: u64
  ut_shard_count :: nat
  ut_hash_seed :: u64
  ut_hash_version :: u32
  ut_layout :: "CompiledRowLayout option"
  ut_realtime_shards :: "table_ptr option list"

record UpdateApplierOptions =
  ua_logical_topic :: string
  ua_targets :: "UpdateTargetRoute list"

record PreparedPublish =
  pu_table :: "table_ptr option"
  pu_primary_key :: u64
  pu_position :: SourcePosition
  pu_encoded :: EncodedRow

section \<open>Validation\<close>

definition ValidateRoute :: "UpdateTargetRoute \<Rightarrow> unit res" where
  "ValidateRoute route =
     (if ut_layout route = None then Inl (FailedPrecondition ''update target route has no layout'')
      else if ut_shard_count route = 0 \<or> \<not> IsPowerOfTwo_size (ut_shard_count route)
      then Inl (InvalidArgument ''update target shard_count must be a non-zero power of two'')
      else if length (ut_realtime_shards route) \<noteq> ut_shard_count route
      then Inl (InvalidArgument ''update target realtime shard count does not match shard_count'')
      else if None \<in> set (ut_realtime_shards route)
      then Inl (FailedPrecondition ''update target route contains a null realtime shard'')
      else Inr ())"

definition ua_ValidateOptions :: "UpdateApplierOptions \<Rightarrow> unit res" where
  "ua_ValidateOptions options =
     (if ua_logical_topic options = [] then Inl (InvalidArgument ''update applier logical topic is empty'')
      else if ua_targets options = [] then Inl (FailedPrecondition ''update applier has no target routes'')
      else foldM_res (\<lambda>route _. ValidateRoute route) (ua_targets options) ())"

definition ValidateMessageMetadata :: "KafkaUpsertMessage \<Rightarrow> string \<Rightarrow> unit res" where
  "ValidateMessageMetadata message logical_topic =
     (let metadata = um_metadata message; partition = mm_partition metadata in
      if kp_topic partition = [] then Inl (InvalidArgument ''kafka message topic is empty'')
      else if kp_topic partition \<noteq> logical_topic
      then Inl (FailedPrecondition ''kafka message topic does not match coordinator logical topic'')
      else if kp_partition partition < 0 then Inl (InvalidArgument ''kafka message partition is invalid'')
      else if mm_offset metadata < 0 then Inl (InvalidArgument ''kafka message offset is invalid'')
      else Inr ())"

section \<open>Applying messages\<close>

definition ua_ShardFor :: "u64 \<Rightarrow> UpdateTargetRoute \<Rightarrow> nat" where
  "ua_ShardFor primary_key route =
     (let hash = StableHash64 primary_key (ut_hash_seed route) (ut_hash_version route) in
      unat (hash AND (of_nat (ut_shard_count route) - 1)))"

definition source_position :: "KafkaUpsertMessage \<Rightarrow> SourcePosition" where
  "source_position message =
     \<lparr>sp_partition = kp_partition (mm_partition (um_metadata message)), sp_offset = mm_offset (um_metadata message)\<rparr>"

text \<open>The body of the loop that prepares one target.\<close>

definition PrepareRoute :: "DecodedPayload \<Rightarrow> KafkaUpsertMessage \<Rightarrow> UpdateTargetRoute \<Rightarrow> PreparedPublish res" where
  "PrepareRoute decoded message route =
     (let shard = ua_ShardFor (um_primary_key message) route in
      rbind (EncodeForLayout decoded (ut_layout route)) (\<lambda>encoded.
      Inr \<lparr>pu_table = ut_realtime_shards route ! shard, pu_primary_key = um_primary_key message,
           pu_position = source_position message, pu_encoded = encoded\<rparr>))"

text \<open>
  The loop that publishes; tables that were published to before a failure keep the row. A null table
  cannot occur after validation; calling through it is answered with an exception here.
\<close>

fun PublishAll :: "PreparedPublish list \<Rightarrow> tables \<Rightarrow> unit res \<times> tables" where
  "PublishAll [] h = (Inr (), h)"
| "PublishAll (publish # rest) h =
     (case pu_table publish of
        None \<Rightarrow> (Inl (Throw ''null realtime shard''), h)
      | Some p \<Rightarrow>
          (case rt_Publish (h p) (pu_primary_key publish) (pu_position publish) (pu_encoded publish) of
             (Inl e, t) \<Rightarrow> (Inl e, h(p := t))
           | (Inr _, t) \<Rightarrow> PublishAll rest (h(p := t))))"

definition Apply :: "UpdateApplierOptions \<Rightarrow> KafkaUpsertMessage \<Rightarrow> tables \<Rightarrow> unit res \<times> tables" where
  "Apply options message h =
     (case rbind (ua_ValidateOptions options) (\<lambda>_.
           rbind (ValidateMessageMetadata message (ua_logical_topic options)) (\<lambda>_.
           rbind (DecodePayload (um_payload message)) (\<lambda>decoded.
           mapM_res (PrepareRoute decoded message) (ua_targets options)))) of
        Inl e \<Rightarrow> (Inl e, h)
      | Inr prepared \<Rightarrow> PublishAll prepared h)"

fun ApplyBatch :: "UpdateApplierOptions \<Rightarrow> KafkaUpsertMessage list \<Rightarrow> tables \<Rightarrow> unit res \<times> tables" where
  "ApplyBatch options [] h = (Inr (), h)"
| "ApplyBatch options (message # messages) h =
     (case Apply options message h of
        (Inl e, h) \<Rightarrow> (Inl e, h)
      | (Inr _, h) \<Rightarrow> ApplyBatch options messages h)"

text \<open>What the tables must satisfy: each keeps its invariant.\<close>

definition tables_ok :: "tables \<Rightarrow> bool" where
  "tables_ok h \<longleftrightarrow> (\<forall>p. rt_inv (h p))"

text \<open>The rows that a list of prepared publishes sends to one table.\<close>

definition publishes_to :: "table_ptr \<Rightarrow> PreparedPublish list \<Rightarrow> (u64 \<times> SourcePosition \<times> EncodedRow) list" where
  "publishes_to p us = map (\<lambda>u. (pu_primary_key u, pu_position u, pu_encoded u)) (filter (\<lambda>u. pu_table u = Some p) us)"

text \<open>A table that has taken a position of a key: it holds that position or a later one.\<close>

definition taken :: "RealtimeDeltaAtomicTable \<Rightarrow> u64 \<Rightarrow> SourcePosition \<Rightarrow> bool" where
  "taken t k pos \<longleftrightarrow> (\<exists>pos' e'. rt_view t k = Some (pos', e') \<and> sp_partition pos' = sp_partition pos
     \<and> sp_offset pos \<le> sp_offset pos')"

text \<open>What a message becomes for the targets before anything is published.\<close>

definition prepare :: "UpdateApplierOptions \<Rightarrow> KafkaUpsertMessage \<Rightarrow> PreparedPublish list res" where
  "prepare options message =
     rbind (ua_ValidateOptions options) (\<lambda>_.
     rbind (ValidateMessageMetadata message (ua_logical_topic options)) (\<lambda>_.
     rbind (DecodePayload (um_payload message)) (\<lambda>decoded.
     mapM_res (PrepareRoute decoded message) (ua_targets options))))"

definition route_table :: "KafkaUpsertMessage \<Rightarrow> UpdateTargetRoute \<Rightarrow> table_ptr option" where
  "route_table message route = ut_realtime_shards route ! ua_ShardFor (um_primary_key message) route"

definition prepared :: "UpdateApplierOptions \<Rightarrow> KafkaUpsertMessage \<Rightarrow> DecodedPayload \<Rightarrow> PreparedPublish list \<Rightarrow> bool" where
  "prepared options m decoded us \<longleftrightarrow>
     DecodePayload (um_payload m) = Inr decoded
     \<and> ValidateMessageMetadata m (ua_logical_topic options) = Inr ()
     \<and> (\<forall>route \<in> set (ua_targets options). ValidateRoute route = Inr ())
     \<and> (\<forall>route \<in> set (ua_targets options). \<exists>e. EncodeForLayout decoded (ut_layout route) = Inr e
          \<and> \<lparr>pu_table = route_table m route, pu_primary_key = um_primary_key m, pu_position = source_position m,
              pu_encoded = e\<rparr> \<in> set us)
     \<and> (\<forall>u \<in> set us. \<exists>route \<in> set (ua_targets options). pu_table u = route_table m route
          \<and> EncodeForLayout decoded (ut_layout route) = Inr (pu_encoded u)
          \<and> pu_primary_key u = um_primary_key m \<and> pu_position u = source_position m)"

text \<open>Every table of a route has the row layout of the route.\<close>

definition routes_match :: "UpdateApplierOptions \<Rightarrow> tables \<Rightarrow> bool" where
  "routes_match options h \<longleftrightarrow>
     (\<forall>route \<in> set (ua_targets options). \<forall>p. Some p \<in> set (ut_realtime_shards route) \<longrightarrow> rt_layout (h p) = ut_layout route)"

definition accepted :: "tables \<Rightarrow> PreparedPublish \<Rightarrow> bool" where
  "accepted h u \<longleftrightarrow> (\<exists>p r. pu_table u = Some p
     \<and> BuildRowRef (h p) (pu_primary_key u) (pu_position u) (pu_encoded u) = Inr r
     \<and> taken (h p) (pu_primary_key u) (pu_position u))"

definition delivered :: "UpdateApplierOptions \<Rightarrow> tables \<Rightarrow> KafkaUpsertMessage \<Rightarrow> bool" where
  "delivered options h m \<longleftrightarrow> (\<exists>us. prepare options m = Inr us \<and> (\<forall>u \<in> set us. accepted h u))"

text \<open>Tables that keep what they have taken.\<close>

definition keeps :: "tables \<Rightarrow> tables \<Rightarrow> bool" where
  "keeps h h' \<longleftrightarrow> (\<forall>p. rt_layout (h' p) = rt_layout (h p) \<and> (\<forall>k pos. taken (h p) k pos \<longrightarrow> taken (h' p) k pos))"

text \<open>A table that can take a row of a key: the key is there already, or a slot is free.\<close>

definition can_take :: "RealtimeDeltaAtomicTable \<Rightarrow> u64 \<Rightarrow> SourcePosition \<Rightarrow> bool" where
  "can_take t k pos \<longleftrightarrow>
     (case rt_view t k of
        Some (pos', e) \<Rightarrow> sp_partition pos' = sp_partition pos
      | None \<Rightarrow> IsPowerOfTwo_size (hm_capacity (rt_map t)) \<and> (\<exists>s < hm_capacity (rt_map t). occupied_key (rt_map t) s = None))"

text \<open>Two targets with one shard each, and messages for one key.\<close>

definition demo_route :: "CompiledRowLayout \<Rightarrow> table_ptr \<Rightarrow> UpdateTargetRoute" where
  "demo_route L p = \<lparr>ut_role = kActive, ut_generation_id = 1, ut_shard_count = 1, ut_hash_seed = 0, ut_hash_version = 1,
     ut_layout = Some L, ut_realtime_shards = [Some p]\<rparr>"

definition two_targets :: "CompiledRowLayout \<Rightarrow> UpdateApplierOptions" where
  "two_targets L = \<lparr>ua_logical_topic = ''items'', ua_targets = [demo_route L 0, demo_route L 1]\<rparr>"

definition demo_message :: "int \<Rightarrow> KafkaUpsertMessage" where
  "demo_message n = \<lparr>um_metadata = \<lparr>mm_partition = \<lparr>kp_topic = ''items'', kp_partition = 0\<rparr>, mm_offset = n, mm_key = [],
     mm_timestamp_millis = 0\<rparr>, um_primary_key = 7, um_payload = payload_bytes demo_payload\<rparr>"

definition fresh_tables :: "CompiledRowLayout \<Rightarrow> tables" where
  "fresh_tables L p = NewRealtimeDeltaAtomicTable (Some L) 4 0 1"

section \<open>Publishing to one table\<close>

lemma newer_wins_other: "k0 \<noteq> k \<Longrightarrow> newer_wins (k, pos, e) v k0 = v k0"
  by (cases "v k") auto

lemma rt_Publish_failed_view:
  assumes "rt_inv t" and "rt_Publish t k pos e = (Inl x, t')"
  shows "rt_view t' = rt_view t"
  using assms by (cases rule: rt_Publish_cases) (auto simp: rt_view_def fun_eq_iff)

lemma hm_abs_view:
  assumes "rt_inv t"
  shows "hm_abs (rt_map t) k = None \<longleftrightarrow> rt_view t k = None"
    and "rt_view t k = Some (pos, e) \<Longrightarrow> \<exists>c. hm_abs (rt_map t) k = Some c \<and> rr_position c = pos \<and> rr_primary_key c = k \<and> IsValidSourcePosition pos"
proof -
  have abs: "hm_abs (rt_map t) k = map_option unsealed (last_sealed (rt_rows t) k)" using assms by (simp add: rt_inv_def)
  then show "hm_abs (rt_map t) k = None \<longleftrightarrow> rt_view t k = None" by (simp add: rt_view_def)
  assume "rt_view t k = Some (pos, e)"
  then obtain c where c: "last_sealed (rt_rows t) k = Some c" "rr_position c = pos" by (auto simp: rt_view_def)
  with last_sealed_SomeD [OF c(1)] assms abs
  show "\<exists>c. hm_abs (rt_map t) k = Some c \<and> rr_position c = pos \<and> rr_primary_key c = k \<and> IsValidSourcePosition pos"
    by (auto simp: rt_inv_def log_ok_def)
qed

lemma rt_Publish_taken:
  assumes inv: "rt_inv t" and p: "rt_Publish t k pos e = (Inr (), t')"
  shows "taken t' k pos" and "taken t k0 pos0 \<Longrightarrow> taken t' k0 pos0"
proof -
  have view: "rt_view t' = newer_wins (k, pos, e) (rt_view t)" by (rule rt_Publish_view [OF assms])
  have part: "sp_partition pos' = sp_partition pos" if "rt_view t k = Some (pos', e')" for pos' e'
    using inv p
  proof (cases rule: rt_Publish_cases)
    case (stale r m)
    from BuildRowRef_Inr [OF stale(1)] have r: "rr_primary_key r = k" "rr_position r = pos" by auto
    from hm_abs_view(2) [OF inv that] stale(9) r show ?thesis
      by (auto simp: spec_publish_def ClassifySourcePositionUpdate_def split: sum.splits if_splits)
  next
    case (visible r m)
    from BuildRowRef_Inr [OF visible(1)] have r: "rr_primary_key r = k" "rr_position r = pos" by auto
    from hm_abs_view(2) [OF inv that] spec_publish_True(2) [OF visible(8)] r show ?thesis by auto
  qed simp_all
  show "taken t' k pos"
  proof (cases "rt_view t k")
    case None
    then show ?thesis by (simp add: taken_def view)
  next
    case (Some x)
    obtain pos' e' where "x = (pos', e')" by (cases x)
    with Some part [of pos' e'] show ?thesis by (auto simp: taken_def view)
  qed
  assume "taken t k0 pos0"
  then obtain pos' e' where v: "rt_view t k0 = Some (pos', e')" "sp_partition pos' = sp_partition pos0" "sp_offset pos0 \<le> sp_offset pos'"
    by (auto simp: taken_def)
  show "taken t' k0 pos0"
  proof (cases "k0 = k")
    case True
    then have "rt_view t k = Some (pos', e')" "sp_partition pos = sp_partition pos'" using v(1) part [of pos' e'] by auto
    with v(2,3) True show ?thesis by (auto simp: taken_def view)
  next
    case False
    then have "rt_view t' k0 = rt_view t k0" unfolding view by (rule newer_wins_other)
    with v show ?thesis by (auto simp: taken_def)
  qed
qed

text \<open>A row that a table has taken already is accepted again and changes nothing.\<close>

lemma rt_Publish_again:
  assumes inv: "rt_inv t" and b: "BuildRowRef t k pos e = Inr r" and tk: "taken t k pos"
  shows "\<exists>t'. rt_Publish t k pos e = (Inr (), t') \<and> rt_view t' = rt_view t"
proof -
  obtain res t' where p: "rt_Publish t k pos e = (res, t')" by fastforce
  from tk obtain pos' e' where v: "rt_view t k = Some (pos', e')" "sp_partition pos' = sp_partition pos"
    "sp_offset pos \<le> sp_offset pos'" by (auto simp: taken_def)
  from BuildRowRef_Inr [OF b] have r: "rr_primary_key r = k" "rr_position r = pos" "IsValidSourcePosition pos" by auto
  from hm_abs_view(2) [OF inv v(1)] obtain c where c: "hm_abs (rt_map t) k = Some c" "rr_position c = pos'" "IsValidSourcePosition pos'"
    by blast
  from Classify_not_newer_iff [of pos' pos] v r(3) c(3)
  obtain d where d: "ClassifySourcePositionUpdate pos' pos = Inr d" "d \<noteq> kNewer" by auto
  have sp: "spec_publish (hm_abs (rt_map t)) r = (Inr False, hm_abs (rt_map t))"
    using c d r by (simp add: spec_publish_def)
  have "res = Inr ()" using inv p
  proof (cases rule: rt_Publish_cases)
    case (failed x r' m)
    with b sp c(1) show ?thesis by auto
  qed (use b in auto)
  moreover have "rt_view t' = rt_view t" if "res = Inr ()"
  proof -
    have "rt_view t' = newer_wins (k, pos, e) (rt_view t)" using rt_Publish_view [OF inv] p that by blast
    then show ?thesis using v by (simp split: prod.splits)
  qed
  ultimately show ?thesis using p by blast
qed

lemma BuildRowRef_layout: "rt_layout t' = rt_layout t \<Longrightarrow> BuildRowRef t' k pos e = BuildRowRef t k pos e"
  by (simp add: BuildRowRef_def)

section \<open>Publishing to the tables\<close>

lemma tables_ok_update: "tables_ok h \<Longrightarrow> rt_inv t \<Longrightarrow> tables_ok (h(p := t))"
  by (simp add: tables_ok_def)

lemma PublishAll_inv:
  assumes "tables_ok h" and "PublishAll us h = (res, h')"
  shows "tables_ok h' \<and> rt_layout (h' p) = rt_layout (h p)
    \<and> (p \<notin> {p. \<exists>u \<in> set us. pu_table u = Some p} \<longrightarrow> h' p = h p)
    \<and> (res = Inr () \<longrightarrow> rt_view (h' p) = fold newer_wins (publishes_to p us) (rt_view (h p)))
    \<and> (\<forall>k. k \<notin> pu_primary_key ` set us \<longrightarrow> rt_view (h' p) k = rt_view (h p) k)"
  using assms
proof (induction us arbitrary: h)
  case Nil
  then show ?case by (simp add: publishes_to_def)
next
  case (Cons u us)
  show ?case
  proof (cases "pu_table u")
    case None
    with Cons.prems show ?thesis by auto
  next
    case (Some q)
    obtain res1 t where pub: "rt_Publish (h q) (pu_primary_key u) (pu_position u) (pu_encoded u) = (res1, t)" by fastforce
    have inv: "rt_inv (h q)" using Cons.prems(1) by (simp add: tables_ok_def)
    note T = rt_Publish_inv [OF inv pub]
    have ok: "tables_ok (h(q := t))" by (rule tables_ok_update [OF Cons.prems(1) T(1)])
    have lay: "rt_layout ((h(q := t)) p) = rt_layout (h p)" using T(2) by simp
    have view: "rt_view t = (if res1 = Inr () then newer_wins (pu_primary_key u, pu_position u, pu_encoded u) (rt_view (h q)) else rt_view (h q))"
      using rt_Publish_view [OF inv] rt_Publish_failed_view [OF inv] pub by (cases res1) auto
    have other: "rt_view t k = rt_view (h q) k" if "k \<noteq> pu_primary_key u" for k
      unfolding view using newer_wins_other [OF that] by (simp del: newer_wins.simps)
    show ?thesis
    proof (cases res1)
      case (Inl x)
      with Cons.prems(2) Some pub have "res = Inl x" "h' = h(q := t)" by auto
      with ok lay other Some show ?thesis by (auto simp: fun_upd_def)
    next
      case (Inr v)
      with Cons.prems(2) Some pub have rest: "PublishAll us (h(q := t)) = (res, h')" by auto
      have "fold newer_wins (publishes_to p (u # us)) (rt_view (h p)) = fold newer_wins (publishes_to p us) (rt_view ((h(q := t)) p))"
        using view Inr Some by (simp add: publishes_to_def)
      with Cons.IH [OF ok rest] lay other Some show ?thesis by auto
    qed
  qed
qed


section \<open>Applying one message\<close>

lemma Apply_prepare:
  "Apply options message h = (case prepare options message of Inl e \<Rightarrow> (Inl e, h) | Inr us \<Rightarrow> PublishAll us h)"
  by (simp add: Apply_def prepare_def)

lemma ua_ValidateOptions_Inr:
  "ua_ValidateOptions options = Inr () \<longleftrightarrow> ua_logical_topic options \<noteq> [] \<and> ua_targets options \<noteq> []
     \<and> (\<forall>route \<in> set (ua_targets options). ValidateRoute route = Inr ())"
  by (auto simp: ua_ValidateOptions_def foldM_unit_Inr)

lemma ua_ShardFor_less:
  assumes "ValidateRoute route = Inr ()"
  shows "ua_ShardFor k route < length (ut_realtime_shards route)"
proof -
  from assms obtain n where n: "ut_shard_count route = 2 ^ n" "length (ut_realtime_shards route) = 2 ^ n"
    by (auto simp: ValidateRoute_def IsPowerOfTwo_size_iff split: if_splits)
  let ?h = "StableHash64 k (ut_hash_seed route) (ut_hash_version route)"
  have "unat (?h AND (2 ^ n - 1)) < 2 ^ n" unfolding unat_and_mask_pow2 by simp
  then show ?thesis by (simp add: ua_ShardFor_def Let_def n)
qed

lemma route_table_Some:
  assumes "ValidateRoute route = Inr ()"
  shows "\<exists>p. route_table m route = Some p \<and> Some p \<in> set (ut_realtime_shards route)"
proof -
  have "route_table m route \<in> set (ut_realtime_shards route)"
    using ua_ShardFor_less [OF assms] by (simp add: route_table_def)
  moreover have "None \<notin> set (ut_realtime_shards route)" using assms by (auto simp: ValidateRoute_def split: if_splits)
  ultimately show ?thesis by (metis not_None_eq)
qed

lemma prepare_Inr:
  assumes "prepare options m = Inr us"
  shows "\<exists>decoded. prepared options m decoded us"
proof -
  from assms obtain decoded where d: "DecodePayload (um_payload m) = Inr decoded"
    and v: "ua_ValidateOptions options = Inr ()" "ValidateMessageMetadata m (ua_logical_topic options) = Inr ()"
    and us: "mapM_res (PrepareRoute decoded m) (ua_targets options) = Inr us" by (auto simp: prepare_def)
  from us have len: "length us = length (ua_targets options)"
    and nth: "\<And>i. i < length us \<Longrightarrow> PrepareRoute decoded m (ua_targets options ! i) = Inr (us ! i)"
    by (auto simp: mapM_res_Inr_iff)
  have P: "PrepareRoute decoded m route = Inr u \<longleftrightarrow> (\<exists>e. EncodeForLayout decoded (ut_layout route) = Inr e
      \<and> u = \<lparr>pu_table = route_table m route, pu_primary_key = um_primary_key m, pu_position = source_position m, pu_encoded = e\<rparr>)" for route u
    by (auto simp: PrepareRoute_def route_table_def Let_def)
  have "\<exists>e. EncodeForLayout decoded (ut_layout route) = Inr e
        \<and> \<lparr>pu_table = route_table m route, pu_primary_key = um_primary_key m, pu_position = source_position m, pu_encoded = e\<rparr> \<in> set us"
    if "route \<in> set (ua_targets options)" for route
  proof -
    from that obtain i where i: "i < length us" "ua_targets options ! i = route" by (metis in_set_conv_nth len)
    with nth [OF i(1)] show ?thesis unfolding P i(2) by (metis nth_mem)
  qed
  moreover have "\<exists>route \<in> set (ua_targets options). pu_table u = route_table m route
        \<and> EncodeForLayout decoded (ut_layout route) = Inr (pu_encoded u) \<and> pu_primary_key u = um_primary_key m \<and> pu_position u = source_position m"
    if "u \<in> set us" for u
  proof -
    from that obtain i where i: "i < length us" "us ! i = u" by (metis in_set_conv_nth)
    moreover have "ua_targets options ! i \<in> set (ua_targets options)" using i(1) len by simp
    ultimately show ?thesis using nth [OF i(1)] unfolding P by (intro bexI [of _ "ua_targets options ! i"]) auto
  qed
  ultimately have "prepared options m decoded us"
    using d v(2) v(1) [unfolded ua_ValidateOptions_Inr] unfolding prepared_def by blast
  then show ?thesis ..
qed

text \<open>The rows sent to one table are all the same row when the routes match the tables.\<close>

lemma fold_newer_wins_same:
  assumes "\<forall>x \<in> set ps. x = (k, pos, e)" and "ps \<noteq> []" and "\<forall>pos' e'. v k = Some (pos', e') \<longrightarrow> sp_offset pos' < sp_offset pos"
  shows "fold newer_wins ps v = v(k \<mapsto> (pos, e))"
proof -
  have again: "fold newer_wins ps (v(k \<mapsto> (pos, e))) = v(k \<mapsto> (pos, e))" if "\<forall>x \<in> set ps. x = (k, pos, e)" for ps
    using that by (induction ps) auto
  obtain ps' where ps: "ps = (k, pos, e) # ps'" using assms(1,2) by (cases ps) auto
  have "\<forall>x \<in> set ps'. x = (k, pos, e)" using assms(1) unfolding ps by simp
  moreover have "newer_wins (k, pos, e) v = v(k \<mapsto> (pos, e))" using assms(3) by (cases "v k") auto
  ultimately show ?thesis unfolding ps fold_simps by (simp only: again)
qed

lemma Apply_visible:
  assumes h: "tables_ok h" and match: "routes_match options h" and app: "Apply options m h = (Inr (), h')"
    and route: "route \<in> set (ua_targets options)" and L: "ut_layout route = Some L"
    and new: "\<And>p pos e. route_table m route = Some p \<Longrightarrow> rt_view (h p) (um_primary_key m) = Some (pos, e) \<Longrightarrow>
      sp_offset pos < mm_offset (um_metadata m)"
  obtains decoded p e where "DecodePayload (um_payload m) = Inr decoded" and "route_table m route = Some p"
    and "Some p \<in> set (ut_realtime_shards route)" and "EncodeForLayout decoded (Some L) = Inr e"
    and "rt_Get (h' p) (um_primary_key m) = Inr (Some \<lparr>row_layout = Some L, row_encoded = Some e\<rparr>)"
proof -
  from app obtain us where us: "prepare options m = Inr us" and pub: "PublishAll us h = (Inr (), h')"
    by (auto simp: Apply_prepare split: sum.splits)
  from prepare_Inr [OF us] obtain decoded where P: "prepared options m decoded us" ..
  have d: "DecodePayload (um_payload m) = Inr decoded"
    and val: "\<And>route. route \<in> set (ua_targets options) \<Longrightarrow> ValidateRoute route = Inr ()"
    and enc: "\<And>route. route \<in> set (ua_targets options) \<Longrightarrow> \<exists>e. EncodeForLayout decoded (ut_layout route) = Inr e
        \<and> \<lparr>pu_table = route_table m route, pu_primary_key = um_primary_key m, pu_position = source_position m, pu_encoded = e\<rparr> \<in> set us"
    and us': "\<And>u. u \<in> set us \<Longrightarrow> \<exists>route \<in> set (ua_targets options). pu_table u = route_table m route
        \<and> EncodeForLayout decoded (ut_layout route) = Inr (pu_encoded u) \<and> pu_primary_key u = um_primary_key m \<and> pu_position u = source_position m"
    using P unfolding prepared_def by blast+
  from route_table_Some [OF val [OF route]] obtain p where p: "route_table m route = Some p" "Some p \<in> set (ut_realtime_shards route)" by blast
  from enc [OF route] obtain e where e: "EncodeForLayout decoded (Some L) = Inr e"
    and mem: "\<lparr>pu_table = Some p, pu_primary_key = um_primary_key m, pu_position = source_position m, pu_encoded = e\<rparr> \<in> set us"
    by (auto simp: L p(1))
  have lay: "rt_layout (h p) = Some L" using match route p(2) L by (auto simp: routes_match_def)
  have same: "x = (um_primary_key m, source_position m, e)" if x: "x \<in> set (publishes_to p us)" for x
  proof -
    from x obtain u where u: "u \<in> set us" "pu_table u = Some p" "x = (pu_primary_key u, pu_position u, pu_encoded u)"
      by (auto simp: publishes_to_def)
    from us' [OF u(1)] obtain r where r: "r \<in> set (ua_targets options)" "route_table m r = Some p"
      "EncodeForLayout decoded (ut_layout r) = Inr (pu_encoded u)" "pu_primary_key u = um_primary_key m" "pu_position u = source_position m"
      using u(2) by auto
    from route_table_Some [OF val [OF r(1)], of m] r(2) have "Some p \<in> set (ut_realtime_shards r)" by auto
    then have "ut_layout r = Some L" using match r(1) lay by (auto simp: routes_match_def)
    with r e u(3) show ?thesis by simp
  qed
  have ne: "publishes_to p us \<noteq> []" using mem by (force simp: publishes_to_def filter_empty_conv)
  have "rt_view (h' p) = fold newer_wins (publishes_to p us) (rt_view (h p))" using PublishAll_inv [OF h pub, of p] by simp
  also have "\<dots> = (rt_view (h p))(um_primary_key m \<mapsto> (source_position m, e))"
    by (rule fold_newer_wins_same) (use same ne new [OF p(1)] in \<open>auto simp: source_position_def\<close>)
  finally have v: "rt_view (h' p) (um_primary_key m) = Some (source_position m, e)" by simp
  have "rt_inv (h' p)" "rt_layout (h' p) = Some L" using PublishAll_inv [OF h pub, of p] lay by (auto simp: tables_ok_def)
  from rt_Get_view [OF this] v have "rt_Get (h' p) (um_primary_key m) = Inr (Some \<lparr>row_layout = Some L, row_encoded = Some e\<rparr>)" by simp
  with d p e show thesis by (rule that)
qed


lemma rt_Get_cong:
  assumes "rt_inv t" and "rt_inv t'" and "rt_layout t' = rt_layout t" and "rt_view t' k = rt_view t k"
  shows "rt_Get t' k = rt_Get t k"
proof (cases "rt_layout t")
  case None
  then show ?thesis using assms(3) by (simp add: rt_Get_def)
next
  case (Some L)
  then show ?thesis using rt_Get_view [OF assms(1)] rt_Get_view [OF assms(2)] assms(3,4) by simp
qed

lemma Apply_inv:
  assumes h: "tables_ok h" and app: "Apply options m h = (res, h')"
  shows "tables_ok h'" and "rt_layout (h' p) = rt_layout (h p)" and "k \<noteq> um_primary_key m \<Longrightarrow> rt_Get (h' p) k = rt_Get (h p) k"
proof -
  have "tables_ok h' \<and> rt_layout (h' p) = rt_layout (h p) \<and> (k \<noteq> um_primary_key m \<longrightarrow> rt_view (h' p) k = rt_view (h p) k)"
  proof (cases "prepare options m")
    case (Inr us)
    from prepare_Inr [OF Inr] have "pu_primary_key ` set us \<subseteq> {um_primary_key m}" by (auto simp: prepared_def)
    with PublishAll_inv [OF h, of us res h' p] app Inr show ?thesis by (auto simp: Apply_prepare)
  qed (use app h in \<open>simp add: Apply_prepare\<close>)
  then show ok: "tables_ok h'" and lay: "rt_layout (h' p) = rt_layout (h p)"
    and "k \<noteq> um_primary_key m \<Longrightarrow> rt_Get (h' p) k = rt_Get (h p) k"
    using h by (auto simp: tables_ok_def intro: rt_Get_cong)
qed

text \<open>
  A message that is applied is visible in every target: when it is newer than what the shard of its
  key holds, that shard answers the key with a row that shows the payload. No table answers another
  key differently.
\<close>

lemma apply_visible:
  assumes "tables_ok h" and "routes_match options h" and "Apply options m h = (Inr (), h')"
    and "route \<in> set (ua_targets options)" and "ut_layout route = Some L" and "layout_ok L"
    and "length (um_payload m) < 2 ^ 28"
    and "\<forall>p pos e. route_table m route = Some p \<and> rt_view (h p) (um_primary_key m) = Some (pos, e) \<longrightarrow>
      sp_offset pos < mm_offset (um_metadata m)"
  shows "(\<exists>decoded p r. DecodePayload (um_payload m) = Inr decoded \<and> route_table m route = Some p
      \<and> rt_Get (h' p) (um_primary_key m) = Inr (Some r) \<and> shows_payload L decoded r)
    \<and> (\<forall>p k. k \<noteq> um_primary_key m \<longrightarrow> rt_Get (h' p) k = rt_Get (h p) k)"
proof -
  from assms(8) have new: "\<And>p pos e. route_table m route = Some p \<Longrightarrow> rt_view (h p) (um_primary_key m) = Some (pos, e) \<Longrightarrow>
      sp_offset pos < mm_offset (um_metadata m)" by blast
  obtain decoded p e where d: "DecodePayload (um_payload m) = Inr decoded" and p: "route_table m route = Some p"
    and e: "EncodeForLayout decoded (Some L) = Inr e"
    and g: "rt_Get (h' p) (um_primary_key m) = Inr (Some \<lparr>row_layout = Some L, row_encoded = Some e\<rparr>)"
    by (rule Apply_visible [OF assms(1-5) new])
  have "payload_ok decoded" "length (payload_bytes decoded) < 2 ^ 28"
    using d assms(7) DecodePayload_iff [of "um_payload m" decoded] by auto
  from EncodeForLayout_shows(1) [OF assms(6) this e] d p g Apply_inv(3) [OF assms(1,3)] show ?thesis by blast
qed

text \<open>
  C24. A rejected message changes nothing: when \<open>Apply\<close> fails, no table answers a key other than the
  message's differently, and no table is touched at all unless the message passed every check and
  could be encoded for every target.
\<close>

theorem apply_rejects_cleanly:
  assumes "tables_ok h" and "Apply options m h = (Inl x, h')"
  shows "(\<forall>p k. k \<noteq> um_primary_key m \<longrightarrow> rt_Get (h' p) k = rt_Get (h p) k)
    \<and> (h' = h \<or> (ua_ValidateOptions options = Inr () \<and> ValidateMessageMetadata m (ua_logical_topic options) = Inr ()
        \<and> (\<exists>decoded. DecodePayload (um_payload m) = Inr decoded
            \<and> (\<forall>route \<in> set (ua_targets options). \<exists>e. EncodeForLayout decoded (ut_layout route) = Inr e))))"
proof (cases "prepare options m")
  case (Inl y)
  then show ?thesis using assms(2) by (simp add: Apply_prepare)
next
  case (Inr us)
  from prepare_Inr [OF Inr] have "\<exists>decoded. DecodePayload (um_payload m) = Inr decoded
      \<and> (\<forall>route \<in> set (ua_targets options). \<exists>e. EncodeForLayout decoded (ut_layout route) = Inr e)"
    unfolding prepared_def by blast
  moreover have "ua_ValidateOptions options = Inr ()" "ValidateMessageMetadata m (ua_logical_topic options) = Inr ()"
    using Inr by (auto simp: prepare_def)
  ultimately show ?thesis using Apply_inv(3) [OF assms] by blast
qed


section \<open>Redelivery\<close>

lemma keeps_trans: "keeps a b \<Longrightarrow> keeps b c \<Longrightarrow> keeps a c"
  by (simp add: keeps_def)

lemma accepted_keeps: "accepted h u \<Longrightarrow> keeps h h' \<Longrightarrow> accepted h' u"
  unfolding accepted_def keeps_def by (metis BuildRowRef_layout)

lemma delivered_keeps: "delivered options h m \<Longrightarrow> keeps h h' \<Longrightarrow> delivered options h' m"
  unfolding delivered_def by (blast intro: accepted_keeps)

lemma PublishAll_accepted:
  assumes "tables_ok h" and "PublishAll us h = (Inr (), h')"
  shows "keeps h h' \<and> (\<forall>u \<in> set us. accepted h' u)"
  using assms
proof (induction us arbitrary: h)
  case (Cons u us)
  then obtain q where q: "pu_table u = Some q" by (cases "pu_table u") auto
  with Cons.prems(2) obtain t where pub: "rt_Publish (h q) (pu_primary_key u) (pu_position u) (pu_encoded u) = (Inr (), t)"
    and rest: "PublishAll us (h(q := t)) = (Inr (), h')" by (auto split: prod.splits sum.splits)
  have inv: "rt_inv (h q)" using Cons.prems(1) by (simp add: tables_ok_def)
  note T = rt_Publish_inv [OF inv pub] rt_Publish_taken [OF inv pub]
  have step: "keeps h (h(q := t))" using T(2,5) by (simp add: keeps_def)
  obtain r where r: "BuildRowRef (h q) (pu_primary_key u) (pu_position u) (pu_encoded u) = Inr r"
    using pub by (cases "BuildRowRef (h q) (pu_primary_key u) (pu_position u) (pu_encoded u)") (auto simp: rt_Publish_def)
  have "accepted (h(q := t)) u"
    using q r T(4) BuildRowRef_layout [OF T(2)] by (auto simp: accepted_def)
  with Cons.IH [OF tables_ok_update [OF Cons.prems(1) T(1)] rest] step
  show ?case by (auto simp del: fun_upd_apply intro: accepted_keeps keeps_trans)
qed (simp add: keeps_def)

lemma PublishAll_again:
  assumes "tables_ok h" and "\<forall>u \<in> set us. accepted h u"
  shows "\<exists>h'. PublishAll us h = (Inr (), h') \<and> (\<forall>p. rt_view (h' p) = rt_view (h p))"
  using assms
proof (induction us arbitrary: h)
  case (Cons u us)
  from Cons.prems(2) obtain q r where q: "pu_table u = Some q"
    "BuildRowRef (h q) (pu_primary_key u) (pu_position u) (pu_encoded u) = Inr r"
    "taken (h q) (pu_primary_key u) (pu_position u)" by (auto simp: accepted_def)
  have inv: "rt_inv (h q)" using Cons.prems(1) by (simp add: tables_ok_def)
  from rt_Publish_again [OF inv q(2,3)] obtain t where
    pub: "rt_Publish (h q) (pu_primary_key u) (pu_position u) (pu_encoded u) = (Inr (), t)" and v: "rt_view t = rt_view (h q)" by blast
  note T = rt_Publish_inv [OF inv pub]
  have "keeps h (h(q := t))" using T(2) v by (simp add: keeps_def taken_def)
  then have "\<forall>u \<in> set us. accepted (h(q := t)) u" using Cons.prems(2) accepted_keeps by auto
  from Cons.IH [OF tables_ok_update [OF Cons.prems(1) T(1)] this] obtain h'
    where "PublishAll us (h(q := t)) = (Inr (), h')" "\<forall>p. rt_view (h' p) = rt_view ((h(q := t)) p)" by blast
  with q(1) pub v show ?case by auto
qed simp

lemma Apply_delivered:
  assumes "tables_ok h" and "Apply options m h = (Inr (), h')"
  shows "keeps h h' \<and> delivered options h' m"
proof -
  from assms(2) obtain us where "prepare options m = Inr us" "PublishAll us h = (Inr (), h')"
    by (auto simp: Apply_prepare split: sum.splits)
  with PublishAll_accepted [OF assms(1)] show ?thesis by (auto simp: delivered_def)
qed

lemma ApplyBatch_delivered:
  assumes "tables_ok h" and "ApplyBatch options ms h = (Inr (), h')"
  shows "tables_ok h' \<and> keeps h h' \<and> (\<forall>m \<in> set ms. delivered options h' m)"
  using assms
proof (induction ms arbitrary: h)
  case (Cons m ms)
  then obtain h1 where 1: "Apply options m h = (Inr (), h1)" and 2: "ApplyBatch options ms h1 = (Inr (), h')"
    by (auto split: prod.splits sum.splits)
  from Cons.IH [OF Apply_inv(1) [OF Cons.prems(1) 1] 2] Apply_delivered [OF Cons.prems(1) 1]
  show ?case using keeps_trans delivered_keeps by auto
qed (simp add: keeps_def)

lemma ApplyBatch_again:
  assumes "tables_ok h" and "\<forall>m \<in> set ms. delivered options h m"
  shows "\<exists>h'. ApplyBatch options ms h = (Inr (), h') \<and> (\<forall>p k. rt_Get (h' p) k = rt_Get (h p) k)"
  using assms
proof (induction ms arbitrary: h)
  case (Cons m ms)
  from Cons.prems(2) obtain us where us: "prepare options m = Inr us" "\<forall>u \<in> set us. accepted h u" by (auto simp: delivered_def)
  from PublishAll_again [OF Cons.prems(1) us(2)] obtain h1
    where p: "PublishAll us h = (Inr (), h1)" and v: "\<And>p. rt_view (h1 p) = rt_view (h p)" by blast
  have 1: "Apply options m h = (Inr (), h1)" using us p by (simp add: Apply_prepare)
  note A = Apply_inv [OF Cons.prems(1) 1]
  have "keeps h h1" using Apply_delivered [OF Cons.prems(1) 1] by simp
  with Cons.prems(2) delivered_keeps have "\<forall>m \<in> set ms. delivered options h1 m" by auto
  from Cons.IH [OF A(1) this] obtain h' where "ApplyBatch options ms h1 = (Inr (), h')" "\<And>p k. rt_Get (h' p) k = rt_Get (h1 p) k" by blast
  moreover have "rt_Get (h1 p) k = rt_Get (h p) k" for p k
    using Cons.prems(1) A(1) v A(2) by (intro rt_Get_cong) (simp_all add: tables_ok_def)
  ultimately show ?case using 1 by auto
qed simp

text \<open>
  C9. At-least-once delivery is harmless: after a batch has been applied, applying any of its messages
  again, in any order and any number, succeeds and changes no answer.
\<close>

theorem redelivery_harmless:
  assumes "tables_ok h" and "ApplyBatch options ms h = (Inr (), h')" and "set ms' \<subseteq> set ms"
  shows "\<exists>h''. ApplyBatch options ms' h' = (Inr (), h'') \<and> (\<forall>p k. rt_Get (h'' p) k = rt_Get (h' p) k)"
proof -
  note D = ApplyBatch_delivered [OF assms(1,2)]
  with assms(3) have "\<forall>m \<in> set ms'. delivered options h' m" by blast
  with D ApplyBatch_again show ?thesis by blast
qed

section \<open>Acceptance\<close>

lemma rt_Publish_succeeds:
  assumes inv: "rt_inv t" and b: "BuildRowRef t k pos e = Inr r" and can: "can_take t k pos"
  shows "\<exists>t'. rt_Publish t k pos e = (Inr (), t')"
proof -
  obtain res t' where p: "rt_Publish t k pos e = (res, t')" by fastforce
  from BuildRowRef_Inr [OF b] have r: "rr_primary_key r = k" "rr_position r = pos" "IsValidSourcePosition pos" by auto
  have "res = Inr ()" using inv p
  proof (cases rule: rt_Publish_cases)
    case (failed x r' m)
    show ?thesis
    proof (cases "rt_view t k")
      case None
      then have "hm_abs (rt_map t) k = None" using hm_abs_view(1) [OF inv] by simp
      with failed b r can None show ?thesis by (auto simp: can_take_def spec_publish_def)
    next
      case (Some v)
      obtain pos' e' where v: "v = (pos', e')" by (cases v)
      from hm_abs_view(2) [OF inv, of k pos' e'] Some v obtain c where
        c: "hm_abs (rt_map t) k = Some c" "rr_position c = pos'" "IsValidSourcePosition pos'" by blast
      have "sp_partition pos' = sp_partition pos" using can Some v by (simp add: can_take_def)
      then have "\<exists>d. ClassifySourcePositionUpdate pos' pos = Inr d" using c(3) r(3) by (auto simp: ClassifySourcePositionUpdate_def)
      with failed b r c show ?thesis by (auto simp: spec_publish_def split: if_splits)
    qed
  qed (use b in auto)
  with p show ?thesis by blast
qed

lemma PublishAll_succeeds:
  assumes "tables_ok h" and "distinct (map pu_table us)"
    and "\<forall>u \<in> set us. \<exists>p r. pu_table u = Some p \<and> BuildRowRef (h p) (pu_primary_key u) (pu_position u) (pu_encoded u) = Inr r
      \<and> can_take (h p) (pu_primary_key u) (pu_position u)"
  shows "\<exists>h'. PublishAll us h = (Inr (), h')"
  using assms
proof (induction us arbitrary: h)
  case (Cons u us)
  from Cons.prems(3) obtain q r where q: "pu_table u = Some q"
    "BuildRowRef (h q) (pu_primary_key u) (pu_position u) (pu_encoded u) = Inr r" "can_take (h q) (pu_primary_key u) (pu_position u)"
    by auto
  have inv: "rt_inv (h q)" using Cons.prems(1) by (simp add: tables_ok_def)
  from rt_Publish_succeeds [OF inv q(2,3)] obtain t where
    pub: "rt_Publish (h q) (pu_primary_key u) (pu_position u) (pu_encoded u) = (Inr (), t)" by blast
  have "pu_table u' \<noteq> Some q" if "u' \<in> set us" for u' using Cons.prems(2) q(1) that by (metis distinct.simps(2) image_eqI list.map(2) list.set_map)
  then have "\<forall>u \<in> set us. \<exists>p r. pu_table u = Some p
      \<and> BuildRowRef ((h(q := t)) p) (pu_primary_key u) (pu_position u) (pu_encoded u) = Inr r
      \<and> can_take ((h(q := t)) p) (pu_primary_key u) (pu_position u)"
    using Cons.prems(3) by fastforce
  with Cons.IH [OF tables_ok_update [OF Cons.prems(1) rt_Publish_inv(1) [OF inv pub]], of q] Cons.prems(2)
  obtain h' where "PublishAll us (h(q := t)) = (Inr (), h')" by (auto simp del: fun_upd_apply)
  with q(1) pub show ?case by simp
qed simp

lemma mapM_res_succeeds: "\<forall>x \<in> set xs. \<exists>y. f x = Inr y \<Longrightarrow> \<exists>ys. mapM_res f xs = Inr ys"
  by (induction xs) fastforce+

lemma Apply_succeeds:
  assumes "tables_ok h" and "routes_match options h" and "ua_ValidateOptions options = Inr ()"
    and "ValidateMessageMetadata m (ua_logical_topic options) = Inr ()"
    and "DecodePayload (um_payload m) = Inr decoded" and "length (um_payload m) < 2 ^ 28"
    and schema: "\<forall>route \<in> set (ua_targets options). \<exists>s L. schema_ok s \<and> Compile s = Inr L \<and> ut_layout route = Some L \<and> fits_layout L decoded"
    and "distinct (map (route_table m) (ua_targets options))"
    and can: "\<forall>route \<in> set (ua_targets options). \<forall>p. route_table m route = Some p \<longrightarrow> can_take (h p) (um_primary_key m) (source_position m)"
  shows "\<exists>h'. Apply options m h = (Inr (), h')"
proof -
  have ok: "payload_ok decoded" and n: "length (payload_bytes decoded) < 2 ^ 28" using assms(5,6) DecodePayload_iff [of "um_payload m" decoded] by auto
  have pos: "IsValidSourcePosition (source_position m)"
    using assms(4) by (auto simp: ValidateMessageMetadata_def Let_def IsValidSourcePosition_def source_position_def split: if_splits)
  have row: "\<exists>e L. ut_layout route = Some L \<and> EncodeForLayout decoded (Some L) = Inr e
      \<and> (\<forall>t. rt_layout t = Some L \<longrightarrow> (\<exists>r. BuildRowRef t (um_primary_key m) (source_position m) e = Inr r))"
    if "route \<in> set (ua_targets options)" for route
  proof -
    from schema that obtain s L where s: "schema_ok s" "Compile s = Inr L" "ut_layout route = Some L" "fits_layout L decoded" by blast
    from EncodeForLayout_succeeds [OF s(1,2) ok n s(4)] obtain e where e: "EncodeForLayout decoded (Some L) = Inr e" by blast
    note L = Compile_layout(1) [OF s(1,2)]
    note H = EncodeForLayout_holds [OF L ok e EncodeForLayout_small [OF L ok n e]]
    have "\<exists>r. BuildRowRef t (um_primary_key m) (source_position m) e = Inr r" if "rt_layout t = Some L" for t
      using that pos H(1-4) by (simp add: BuildRowRef_def)
    with e s(3) show ?thesis by blast
  qed
  have "\<forall>route \<in> set (ua_targets options). \<exists>u. PrepareRoute decoded m route = Inr u"
    using row by (fastforce simp: PrepareRoute_def Let_def)
  from mapM_res_succeeds [OF this] obtain us where us: "mapM_res (PrepareRoute decoded m) (ua_targets options) = Inr us" ..
  then have nth: "length us = length (ua_targets options)" "\<And>i. i < length us \<Longrightarrow> PrepareRoute decoded m (ua_targets options ! i) = Inr (us ! i)"
    by (auto simp: mapM_res_Inr_iff)
  have table: "PrepareRoute decoded m route = Inr u \<Longrightarrow> pu_table u = route_table m route" for route u
    by (auto simp: PrepareRoute_def route_table_def Let_def)
  have "map pu_table us = map (route_table m) (ua_targets options)"
    using nth(1) table [OF nth(2)] by (intro nth_equalityI) simp_all
  with assms(8) have dist: "distinct (map pu_table us)" by simp
  have P: "prepare options m = Inr us" using assms(3-5) us by (simp add: prepare_def)
  from prepare_Inr [OF P] assms(5) have prep: "prepared options m decoded us" by (auto simp: prepared_def)
  have "\<exists>p r. pu_table u = Some p \<and> BuildRowRef (h p) (pu_primary_key u) (pu_position u) (pu_encoded u) = Inr r
      \<and> can_take (h p) (pu_primary_key u) (pu_position u)" if u: "u \<in> set us" for u
  proof -
    from prep u obtain route where r: "route \<in> set (ua_targets options)" "pu_table u = route_table m route"
      "EncodeForLayout decoded (ut_layout route) = Inr (pu_encoded u)" "pu_primary_key u = um_primary_key m" "pu_position u = source_position m"
      unfolding prepared_def by blast
    have "ValidateRoute route = Inr ()" using assms(3) r(1) by (simp add: ua_ValidateOptions_Inr)
    from route_table_Some [OF this] obtain p where p: "route_table m route = Some p" "Some p \<in> set (ut_realtime_shards route)" by blast
    have "rt_layout (h p) = ut_layout route" using assms(2) r(1) p(2) by (auto simp: routes_match_def)
    with row [OF r(1)] r p can show ?thesis by force
  qed
  with PublishAll_succeeds [OF assms(1) dist] obtain h' where "PublishAll us h = (Inr (), h')" by blast
  with P show ?thesis by (simp add: Apply_prepare)
qed


text \<open>
  C25. A well-formed message is applied: if its topic, partition and offset are valid, its payload
  decodes and fits the layout of every target, and the table of its key in each target has room for it, then \<open>Apply\<close>
  succeeds. Room (\<open>can_take\<close>) means that the table has the key already, from the same partition, or that it has a free
  slot and a capacity that is a power of two, as the tables that the index creates have: with another capacity the probe may
  miss the slot. The options are valid, every table has the layout of its route, and the targets use different tables for the key.
\<close>

theorem apply_accepts:
  assumes "tables_ok h" and "routes_match options h" and "ua_ValidateOptions options = Inr ()"
    and "ValidateMessageMetadata m (ua_logical_topic options) = Inr ()"
    and "DecodePayload (um_payload m) = Inr decoded" and "length (um_payload m) < 2 ^ 28"
    and "\<forall>route \<in> set (ua_targets options). \<exists>s L. schema_ok s \<and> Compile s = Inr L \<and> ut_layout route = Some L \<and> fits_layout L decoded"
    and "distinct (map (route_table m) (ua_targets options))"
    and "\<forall>route \<in> set (ua_targets options). \<forall>p. route_table m route = Some p \<longrightarrow> can_take (h p) (um_primary_key m) (source_position m)"
  shows "\<exists>h'. Apply options m h = (Inr (), h')"
  using assms by (rule Apply_succeeds)

section \<open>Examples\<close>

lemma demo_setting:
  assumes L: "Compile demo_schema = Inr L"
  shows "tables_ok (fresh_tables L)" and "routes_match (two_targets L) (fresh_tables L)"
    and "ua_ValidateOptions (two_targets L) = Inr ()"
    and "0 \<le> n \<Longrightarrow> ValidateMessageMetadata (demo_message n) (ua_logical_topic (two_targets L)) = Inr ()"
    and "DecodePayload (um_payload (demo_message n)) = Inr demo_payload" and "length (um_payload (demo_message n)) < 2 ^ 28"
    and "\<forall>route \<in> set (ua_targets (two_targets L)). \<exists>s L. schema_ok s \<and> Compile s = Inr L \<and> ut_layout route = Some L \<and> fits_layout L demo_payload"
    and "distinct (map (route_table (demo_message n)) (ua_targets (two_targets L)))"
    and "rt_view (fresh_tables L p) k = None" and "route_table (demo_message n) (demo_route L p) = Some p"
    and "can_take (fresh_tables L p) k pos"
proof -
  have shard: "ua_ShardFor k (demo_route L p) = 0" for k p
    using ua_ShardFor_less [of "demo_route L p" k] by (simp add: demo_route_def ValidateRoute_def IsPowerOfTwo_size_def)
  show "tables_ok (fresh_tables L)" by (simp add: tables_ok_def fresh_tables_def rt_inv_new)
  show "routes_match (two_targets L) (fresh_tables L)"
    by (simp add: routes_match_def two_targets_def demo_route_def fresh_tables_def NewRealtimeDeltaAtomicTable_def)
  show "ua_ValidateOptions (two_targets L) = Inr ()"
    by (simp add: ua_ValidateOptions_def two_targets_def demo_route_def ValidateRoute_def IsPowerOfTwo_size_def)
  show "0 \<le> n \<Longrightarrow> ValidateMessageMetadata (demo_message n) (ua_logical_topic (two_targets L)) = Inr ()"
    by (simp add: ValidateMessageMetadata_def demo_message_def two_targets_def)
  show "DecodePayload (um_payload (demo_message n)) = Inr demo_payload" "length (um_payload (demo_message n)) < 2 ^ 28"
    using demo_payload_ok by (simp_all add: demo_message_def DecodePayload_iff)
  show "\<forall>route \<in> set (ua_targets (two_targets L)). \<exists>s L. schema_ok s \<and> Compile s = Inr L \<and> ut_layout route = Some L \<and> fits_layout L demo_payload"
    using demo_schema_ok L demo_payload_fits [OF L] by (auto simp: two_targets_def demo_route_def)
  show rt: "route_table (demo_message n) (demo_route L p) = Some p" for p
    unfolding route_table_def shard by (simp add: demo_route_def)
  show "distinct (map (route_table (demo_message n)) (ua_targets (two_targets L)))"
    by (simp add: two_targets_def rt)
  show v: "rt_view (fresh_tables L p) k = None"
    by (simp add: rt_view_def fresh_tables_def NewRealtimeDeltaAtomicTable_def)
  show "can_take (fresh_tables L p) k pos"
  proof -
    have "IsPowerOfTwo_size 4" by (simp add: IsPowerOfTwo_size_iff exI [of _ 2])
    moreover have "occupied_key (rt_map (fresh_tables L p)) 0 = None"
      by (simp add: fresh_tables_def NewRealtimeDeltaAtomicTable_def NewRealtimeAtomicHashMap_def occupied_key_def empty_slot_def)
    moreover have "hm_capacity (rt_map (fresh_tables L p)) = 4"
      by (simp add: fresh_tables_def NewRealtimeDeltaAtomicTable_def NewRealtimeAtomicHashMap_def)
    ultimately show ?thesis unfolding can_take_def v by (auto intro!: exI [of _ 0])
  qed
qed

theorem apply_accepts_witness:
  "\<exists>L h'. Compile demo_schema = Inr L \<and> Apply (two_targets L) (demo_message 5) (fresh_tables L) = (Inr (), h')"
proof -
  obtain L where L: "Compile demo_schema = Inr L" by (rule demo_layout)
  note D = demo_setting [OF L]
  from apply_accepts [OF D(1-3) D(4) [of 5] D(5-8)] D(11) L show ?thesis by auto
qed

lemma demo_applied:
  obtains L h' where "Compile demo_schema = Inr L" and "layout_ok L"
    and "Apply (two_targets L) (demo_message 5) (fresh_tables L) = (Inr (), h')"
proof -
  obtain L where L: "Compile demo_schema = Inr L" "layout_ok L" by (rule demo_layout)
  note D = demo_setting [OF L(1)]
  from Apply_succeeds [OF D(1-3) D(4) [of 5] D(5-8)] D(11) L that show thesis by auto
qed


theorem apply_rejects_cleanly_witness:
  "\<exists>x h'. Apply (two_targets empty_layout) ((demo_message 5)\<lparr>um_payload := []\<rparr>) (fresh_tables empty_layout) = (Inl x, h') \<and> h' = fresh_tables empty_layout"
proof -
  let ?m = "(demo_message 5)\<lparr>um_payload := []\<rparr>" and ?o = "two_targets empty_layout"
  have bad: "\<nexists>d. DecodePayload (um_payload ?m) = Inr d" by (simp add: DecodePayload_def)
  obtain res h' where a: "Apply ?o ?m (fresh_tables empty_layout) = (res, h')" by fastforce
  then obtain x where x: "res = Inl x" by (auto simp: Apply_def DecodePayload_def rbind_def split: sum.splits)
  have "tables_ok (fresh_tables empty_layout)" by (simp add: tables_ok_def fresh_tables_def rt_inv_new)
  from apply_rejects_cleanly [OF this a [unfolded x]] bad a x show ?thesis by blast
qed

theorem redelivery_harmless_witness:
  "\<exists>L h' h''. Compile demo_schema = Inr L \<and> ApplyBatch (two_targets L) [demo_message 5] (fresh_tables L) = (Inr (), h')
    \<and> ApplyBatch (two_targets L) [demo_message 5, demo_message 5] h' = (Inr (), h'') \<and> rt_Get (h'' 0) 7 = rt_Get (h' 0) 7"
proof -
  obtain L h' where L: "Compile demo_schema = Inr L"
    and a: "Apply (two_targets L) (demo_message 5) (fresh_tables L) = (Inr (), h')" by (rule demo_applied)
  then have b: "ApplyBatch (two_targets L) [demo_message 5] (fresh_tables L) = (Inr (), h')" by simp
  from redelivery_harmless [OF demo_setting(1) [OF L] b, of "[demo_message 5, demo_message 5]"] b L show ?thesis
    by (simp del: ApplyBatch.simps) blast
qed

end
