(* ===== verification/Kafka_Consumer.thy ===== *)
theory Kafka_Consumer
  imports KV_Types "HOL-Library.Char_ord" "HOL-Library.List_Lexorder" "HOL-Library.Product_Lexorder"
begin

text \<open>
  \<open>src/ingest/kafka_update_consumer.{h,cc}\<close>: the abstract client and its checks, and the client over
  \<open>librdkafka\<close>. That library is not part of the program; its calls are a record of functions on a
  consumer state of any type, an argument of the definitions that call them. The destructors and
  the deleters of its handles have no counterpart.
\<close>

section \<open>Validation\<close>

type_synonym PartitionKey = "string \<times> int"

definition partition_key :: "KafkaPartition \<Rightarrow> PartitionKey" where
  "partition_key p = (kp_topic p, kp_partition p)"

text \<open>The loop over the topics; a topic that is seen again is a duplicate.\<close>

fun ValidateTopics :: "string list \<Rightarrow> string set \<Rightarrow> unit res" where
  "ValidateTopics [] topics = Inr ()"
| "ValidateTopics (topic # rest) topics =
     (if topic = [] then Inl (InvalidArgument ''kafka topic must not be empty'')
      else if topic \<in> topics then Inl (InvalidArgument ''kafka topics must not contain duplicates'')
      else ValidateTopics rest (insert topic topics))"

definition ValidateConfig :: "KafkaConsumerConfig \<Rightarrow> unit res" where
  "ValidateConfig config =
     (if kc_bootstrap_servers config = []
      then Inl (InvalidArgument ''kafka bootstrap servers must not be empty'')
      else if kc_group_id config = [] then Inl (InvalidArgument ''kafka group id must not be empty'')
      else if kc_topics config = [] then Inl (InvalidArgument ''kafka topics must not be empty'')
      else ValidateTopics (kc_topics config) {})"

definition ValidatePollOptions :: "PollOptions \<Rightarrow> unit res" where
  "ValidatePollOptions options =
     (if po_timeout_ms options < 0 then Inl (InvalidArgument ''poll timeout must not be negative'')
      else if po_max_messages options = 0 then Inl (InvalidArgument ''poll max_messages must be positive'')
      else Inr ())"

definition ValidatePartition :: "KafkaPartition \<Rightarrow> unit res" where
  "ValidatePartition part =
     (if kp_topic part = [] then Inl (InvalidArgument ''kafka partition topic must not be empty'')
      else if kp_partition part < 0
      then Inl (InvalidArgument ''kafka partition id must not be negative'')
      else Inr ())"

definition ValidateMessage :: "KafkaUpsertMessage \<Rightarrow> unit res" where
  "ValidateMessage message =
     rbind (ValidatePartition (mm_partition (um_metadata message))) (\<lambda>_.
     if mm_offset (um_metadata message) < 0
     then Inl (InvalidArgument ''kafka message offset must not be negative'')
     else Inr ())"

fun ValidatePositions :: "KafkaPosition list \<Rightarrow> PartitionKey set \<Rightarrow> unit res" where
  "ValidatePositions [] seen = Inr ()"
| "ValidatePositions (position # rest) seen =
     rbind (ValidatePartition (ks_partition position)) (\<lambda>_.
     if ks_offset position < 0 then Inl (InvalidArgument ''kafka checkpoint offset must not be negative'')
     else if partition_key (ks_partition position) \<in> seen
     then Inl (InvalidArgument ''kafka checkpoint contains duplicate topic partition'')
     else ValidatePositions rest (insert (partition_key (ks_partition position)) seen))"

definition ValidateCheckpoint :: "KafkaCheckpoint \<Rightarrow> unit res" where
  "ValidateCheckpoint checkpoint =
     (if kk_next_offsets checkpoint = [] then Inl (InvalidArgument ''kafka checkpoint must not be empty'')
      else ValidatePositions (kk_next_offsets checkpoint) {})"

fun ValidateProgressPartitions :: "KafkaPartitionProgress list \<Rightarrow> PartitionKey set \<Rightarrow> unit res" where
  "ValidateProgressPartitions [] seen = Inr ()"
| "ValidateProgressPartitions (progress # rest) seen =
     rbind (ValidatePartition (pp_partition progress)) (\<lambda>_.
     if pp_committed_next_offset progress < 0 \<or> pp_high_watermark progress < 0 \<or> pp_lag progress < 0
     then Inl (InvalidArgument ''kafka progress offsets and lag must not be negative'')
     else if partition_key (pp_partition progress) \<in> seen
     then Inl (InvalidArgument ''kafka progress contains duplicate topic partition'')
     else ValidateProgressPartitions rest (insert (partition_key (pp_partition progress)) seen))"

definition ValidateProgress :: "KafkaProgress \<Rightarrow> unit res" where
  "ValidateProgress progress = ValidateProgressPartitions (pg_partitions progress) {}"

section \<open>Primary keys\<close>

text \<open>
  \<open>std::from_chars\<close> on \<open>std::uint64_t\<close> reads the longest run of decimal digits, without a sign or
  white space, and fails when there is none or its value has more than 64 bits. It returns the value
  and what is left of the text.
\<close>

definition is_digit :: "char \<Rightarrow> bool" where
  "is_digit c \<longleftrightarrow> CHR ''0'' \<le> c \<and> c \<le> CHR ''9''"

definition decimal_value :: "string \<Rightarrow> nat" where
  "decimal_value digits = foldl (\<lambda>n c. 10 * n + (of_char c - 48)) 0 digits"

definition from_chars :: "string \<Rightarrow> (u64 \<times> string) option" where
  "from_chars text =
     (let digits = takeWhile is_digit text in
      if digits = [] \<or> decimal_value digits \<ge> 2 ^ 64 then None
      else Some (of_nat (decimal_value digits), dropWhile is_digit text))"

definition ParsePrimaryKey :: "string \<Rightarrow> u64 res" where
  "ParsePrimaryKey key =
     (if key = [] then Inl (InvalidArgument ''kafka upsert key is empty'')
      else
        (case from_chars key of
           Some (primary_key, []) \<Rightarrow> Inr primary_key
         | _ \<Rightarrow> Inl (InvalidArgument ''kafka upsert key must be an unsigned decimal primary key'')))"

section \<open>The librdkafka client\<close>

text \<open>Messages and errors of the library; a null topic handle is \<open>None\<close>.\<close>

datatype rd_err = rd_no_error | rd_partition_eof | rd_error string

record rd_message =
  rm_err :: rd_err
  rm_topic :: "string option"
  rm_partition :: int
  rm_offset :: int
  rm_key :: string
  rm_payload :: "byte list"

record rd_partition =
  rp_topic :: string
  rp_partition :: int
  rp_offset :: int
  rp_err :: "string option"

text \<open>
  The calls of the library: an optional error text, or a sum with an error text on the left. Where
  the library allocates, the boolean says whether it succeeds.
\<close>

record 'k rdkafka =
  rk_conf_new :: bool
  rk_conf_set :: "string \<Rightarrow> string \<Rightarrow> string option"
  rk_new :: "(string \<times> string) list \<Rightarrow> string + 'k"
  rk_poll_set_consumer :: "'k \<Rightarrow> string option \<times> 'k"
  rk_list_new :: "nat \<Rightarrow> bool"
  rk_list_add :: "string \<Rightarrow> int \<Rightarrow> bool"
  rk_subscribe :: "string list \<Rightarrow> 'k \<Rightarrow> string option \<times> 'k"
  rk_consumer_poll :: "int \<Rightarrow> 'k \<Rightarrow> rd_message option \<times> 'k"
  rk_seek_partitions :: "KafkaPosition list \<Rightarrow> 'k \<Rightarrow> string option \<times> 'k"
  rk_assignment :: "'k \<Rightarrow> (string + (string \<times> int) list option) \<times> 'k"
  rk_committed :: "(string \<times> int) list \<Rightarrow> 'k \<Rightarrow> (string + rd_partition list) \<times> 'k"
  rk_query_watermark_offsets :: "string \<Rightarrow> int \<Rightarrow> 'k \<Rightarrow> (string + int \<times> int) \<times> 'k"
  rk_commit :: "KafkaPosition list \<Rightarrow> 'k \<Rightarrow> string option \<times> 'k"

definition ConvertMessage :: "rd_message \<Rightarrow> KafkaUpsertMessage res" where
  "ConvertMessage message =
     (case rm_topic message of
        None \<Rightarrow> Inl (InvalidArgument ''kafka message has no topic'')
      | Some topic \<Rightarrow>
          if rm_partition message < 0 \<or> rm_offset message < 0
          then Inl (InvalidArgument ''kafka message position is invalid'')
          else
            rbind (ParsePrimaryKey (rm_key message)) (\<lambda>primary_key.
            Inr \<lparr>um_metadata = \<lparr>mm_partition = \<lparr>kp_topic = topic, kp_partition = rm_partition message\<rparr>,
                   mm_offset = rm_offset message, mm_key = rm_key message, mm_timestamp_millis = 0\<rparr>,
                 um_primary_key = primary_key, um_payload = rm_payload message\<rparr>))"

text \<open>The loop of \<open>Poll\<close>; \<open>n\<close> counts the rounds that are left.\<close>

fun PollLoop ::
    "'k rdkafka \<Rightarrow> int \<Rightarrow> nat \<Rightarrow> KafkaUpsertMessage list \<Rightarrow> 'k \<Rightarrow> KafkaUpsertMessage list res \<times> 'k" where
  "PollLoop api timeout_ms 0 messages k = (Inr messages, k)"
| "PollLoop api timeout_ms (Suc n) messages k =
     (case rk_consumer_poll api (if messages = [] then timeout_ms else 0) k of
        (None, k) \<Rightarrow> (Inr messages, k)
      | (Some message, k) \<Rightarrow>
          (case rm_err message of
             rd_partition_eof \<Rightarrow> PollLoop api timeout_ms n messages k
           | rd_error text \<Rightarrow> (Inl (Unavailable (''kafka poll failed: '' @ text)), k)
           | rd_no_error \<Rightarrow>
               (case ConvertMessage message of
                  Inl e \<Rightarrow> (Inl e, k)
                | Inr converted \<Rightarrow> PollLoop api timeout_ms n (messages @ [converted]) k)))"

definition rdk_Poll :: "'k rdkafka \<Rightarrow> PollOptions \<Rightarrow> 'k \<Rightarrow> KafkaUpsertMessage list res \<times> 'k" where
  "rdk_Poll api options k = PollLoop api (po_timeout_ms options) (po_max_messages options) [] k"

definition BuildTopicPartitionList :: "'k rdkafka \<Rightarrow> KafkaCheckpoint \<Rightarrow> KafkaPosition list res" where
  "BuildTopicPartitionList api checkpoint =
     (if \<not> rk_list_new api (length (kk_next_offsets checkpoint))
      then Inl (Internal ''failed to allocate kafka topic partition list'')
      else
        mapM_res (\<lambda>position.
            if \<not> rk_list_add api (kp_topic (ks_partition position)) (kp_partition (ks_partition position))
            then Inl (Internal ''failed to add kafka topic partition'') else Inr position)
          (kk_next_offsets checkpoint))"

definition rdk_Seek :: "'k rdkafka \<Rightarrow> KafkaCheckpoint \<Rightarrow> 'k \<Rightarrow> unit res \<times> 'k" where
  "rdk_Seek api checkpoint k =
     (case BuildTopicPartitionList api checkpoint of
        Inl e \<Rightarrow> (Inl e, k)
      | Inr partitions \<Rightarrow>
          (case rk_seek_partitions api partitions k of
             (Some text, k) \<Rightarrow> (Inl (Unavailable (''kafka seek failed: '' @ text)), k)
           | (None, k) \<Rightarrow> (Inr (), k)))"

definition rdk_Commit :: "'k rdkafka \<Rightarrow> KafkaCheckpoint \<Rightarrow> 'k \<Rightarrow> unit res \<times> 'k" where
  "rdk_Commit api checkpoint k =
     (case BuildTopicPartitionList api checkpoint of
        Inl e \<Rightarrow> (Inl e, k)
      | Inr partitions \<Rightarrow>
          (case rk_commit api partitions k of
             (Some text, k) \<Rightarrow> (Inl (Unavailable (''kafka commit failed: '' @ text)), k)
           | (None, k) \<Rightarrow> (Inr (), k)))"

text \<open>The loop over the assigned partitions. Offsets are at most \<open>2 ^ 63 - 1\<close>, so the lag fits.\<close>

fun ProgressLoop ::
    "'k rdkafka \<Rightarrow> rd_partition list \<Rightarrow> 'k \<Rightarrow> KafkaPartitionProgress list res \<times> 'k" where
  "ProgressLoop api [] k = (Inr [], k)"
| "ProgressLoop api (part # rest) k =
     (case rp_err part of
        Some text \<Rightarrow> (Inl (Unavailable (''kafka partition progress failed: '' @ text)), k)
      | None \<Rightarrow>
          (case rk_query_watermark_offsets api (rp_topic part) (rp_partition part) k of
             (Inl text, k) \<Rightarrow> (Inl (Unavailable (''kafka watermark query failed: '' @ text)), k)
           | (Inr (low, high), k) \<Rightarrow>
               (let committed = (if rp_offset part \<ge> 0 then rp_offset part else 0);
                    progress = \<lparr>pp_partition = \<lparr>kp_topic = rp_topic part, kp_partition = rp_partition part\<rparr>,
                      pp_committed_next_offset = committed, pp_high_watermark = high,
                      pp_lag = (if high \<ge> committed then high - committed else 0)\<rparr> in
                case ProgressLoop api rest k of
                  (Inl e, k) \<Rightarrow> (Inl e, k)
                | (Inr tail, k) \<Rightarrow> (Inr (progress # tail), k))))"

definition rdk_Progress :: "'k rdkafka \<Rightarrow> 'k \<Rightarrow> KafkaProgress res \<times> 'k" where
  "rdk_Progress api k =
     (case rk_assignment api k of
        (Inl text, k) \<Rightarrow> (Inl (Unavailable (''kafka assignment failed: '' @ text)), k)
      | (Inr None, k) \<Rightarrow> (Inr \<lparr>pg_partitions = []\<rparr>, k)
      | (Inr (Some []), k) \<Rightarrow> (Inr \<lparr>pg_partitions = []\<rparr>, k)
      | (Inr (Some assignment), k) \<Rightarrow>
          (case rk_committed api assignment k of
             (Inl text, k) \<Rightarrow> (Inl (Unavailable (''kafka committed offsets failed: '' @ text)), k)
           | (Inr partitions, k) \<Rightarrow>
               (case ProgressLoop api partitions k of
                  (Inl e, k) \<Rightarrow> (Inl e, k)
                | (Inr progress, k) \<Rightarrow> (Inr \<lparr>pg_partitions = progress\<rparr>, k))))"

definition SetKafkaConfig :: "'k rdkafka \<Rightarrow> string \<times> string \<Rightarrow> unit res" where
  "SetKafkaConfig api setting =
     (case rk_conf_set api (fst setting) (snd setting) of
        None \<Rightarrow> Inr ()
      | Some text \<Rightarrow> Inl (InvalidArgument (''invalid kafka config '' @ fst setting @ '': '' @ text)))"

definition rdk_settings :: "KafkaConsumerConfig \<Rightarrow> (string \<times> string) list" where
  "rdk_settings config =
     [(''bootstrap.servers'', kc_bootstrap_servers config), (''group.id'', kc_group_id config),
      (''enable.auto.commit'', ''false''), (''enable.partition.eof'', ''true''),
      (''auto.offset.reset'', ''earliest'')]"

definition rdk_Create :: "'k rdkafka \<Rightarrow> KafkaConsumerConfig \<Rightarrow> 'k res" where
  "rdk_Create api config =
     (if \<not> rk_conf_new api then Inl (Internal ''failed to allocate kafka config'')
      else
        rbind (foldM_res (\<lambda>setting _. SetKafkaConfig api setting) (rdk_settings config) ()) (\<lambda>_.
        case rk_new api (rdk_settings config) of
          Inl text \<Rightarrow> Inl (Unavailable (''failed to create kafka consumer: '' @ text))
        | Inr consumer \<Rightarrow>
            (case rk_poll_set_consumer api consumer of
               (Some text, _) \<Rightarrow> Inl (Unavailable (''failed to configure kafka poll: '' @ text))
             | (None, consumer) \<Rightarrow>
                 if \<not> rk_list_new api (length (kc_topics config))
                 then Inl (Internal ''failed to allocate kafka subscription list'')
                 else
                   (case rk_subscribe api (kc_topics config) consumer of
                      (Some text, _) \<Rightarrow> Inl (Unavailable (''failed to subscribe kafka topics: '' @ text))
                    | (None, consumer) \<Rightarrow> Inr consumer))))"

section \<open>The consumer\<close>

text \<open>The virtual functions of \<open>KafkaUpdateConsumerClient\<close>, and the consumer that calls them.\<close>

record 'c KafkaUpdateConsumerClient =
  kcl_Poll :: "PollOptions \<Rightarrow> 'c \<Rightarrow> KafkaUpsertMessage list res \<times> 'c"
  kcl_Seek :: "KafkaCheckpoint \<Rightarrow> 'c \<Rightarrow> unit res \<times> 'c"
  kcl_Progress :: "'c \<Rightarrow> KafkaProgress res \<times> 'c"
  kcl_Commit :: "KafkaCheckpoint \<Rightarrow> 'c \<Rightarrow> unit res \<times> 'c"

record 'c KafkaUpdateConsumer =
  ku_config :: KafkaConsumerConfig
  ku_client :: "'c KafkaUpdateConsumerClient option"

definition rdk_client :: "'k rdkafka \<Rightarrow> 'k KafkaUpdateConsumerClient" where
  "rdk_client api = \<lparr>kcl_Poll = rdk_Poll api, kcl_Seek = rdk_Seek api, kcl_Progress = rdk_Progress api,
     kcl_Commit = rdk_Commit api\<rparr>"

definition ku_Create :: "'k rdkafka \<Rightarrow> KafkaConsumerConfig \<Rightarrow> ('k KafkaUpdateConsumer \<times> 'k) res" where
  "ku_Create api config =
     rbind (ValidateConfig config) (\<lambda>_.
     rbind (rdk_Create api config) (\<lambda>k.
     Inr (\<lparr>ku_config = config, ku_client = Some (rdk_client api)\<rparr>, k)))"

definition ku_CreateForTesting ::
    "KafkaConsumerConfig \<Rightarrow> 'c KafkaUpdateConsumerClient option \<Rightarrow> 'c KafkaUpdateConsumer res" where
  "ku_CreateForTesting config client =
     rbind (ValidateConfig config) (\<lambda>_.
     if client = None then Inl (InvalidArgument ''kafka update consumer client is null'')
     else Inr \<lparr>ku_config = config, ku_client = client\<rparr>)"

definition no_client :: failure where
  "no_client = FailedPrecondition ''kafka update consumer has no client''"

definition ku_Poll :: "'c KafkaUpdateConsumer \<Rightarrow> PollOptions \<Rightarrow> 'c \<Rightarrow> KafkaUpsertMessage list res \<times> 'c" where
  "ku_Poll consumer options c =
     (case ValidatePollOptions options of
        Inl e \<Rightarrow> (Inl e, c)
      | Inr _ \<Rightarrow>
          (case ku_client consumer of
             None \<Rightarrow> (Inl no_client, c)
           | Some client \<Rightarrow>
               (case kcl_Poll client options c of
                  (Inl e, c) \<Rightarrow> (Inl e, c)
                | (Inr batch, c) \<Rightarrow>
                    (case foldM_res (\<lambda>message _. ValidateMessage message) batch () of
                       Inl e \<Rightarrow> (Inl e, c)
                     | Inr _ \<Rightarrow> (Inr batch, c)))))"

definition ku_Seek :: "'c KafkaUpdateConsumer \<Rightarrow> KafkaCheckpoint \<Rightarrow> 'c \<Rightarrow> unit res \<times> 'c" where
  "ku_Seek consumer checkpoint c =
     (case ValidateCheckpoint checkpoint of
        Inl e \<Rightarrow> (Inl e, c)
      | Inr _ \<Rightarrow>
          (case ku_client consumer of None \<Rightarrow> (Inl no_client, c) | Some client \<Rightarrow> kcl_Seek client checkpoint c))"

definition ku_Progress :: "'c KafkaUpdateConsumer \<Rightarrow> 'c \<Rightarrow> KafkaProgress res \<times> 'c" where
  "ku_Progress consumer c =
     (case ku_client consumer of
        None \<Rightarrow> (Inl no_client, c)
      | Some client \<Rightarrow>
          (case kcl_Progress client c of
             (Inl e, c) \<Rightarrow> (Inl e, c)
           | (Inr progress, c) \<Rightarrow> (rbind (ValidateProgress progress) (\<lambda>_. Inr progress), c)))"

definition ku_Commit :: "'c KafkaUpdateConsumer \<Rightarrow> KafkaCheckpoint \<Rightarrow> 'c \<Rightarrow> unit res \<times> 'c" where
  "ku_Commit consumer checkpoint c =
     (case ValidateCheckpoint checkpoint of
        Inl e \<Rightarrow> (Inl e, c)
      | Inr _ \<Rightarrow>
          (case ku_client consumer of None \<Rightarrow> (Inl no_client, c) | Some client \<Rightarrow> kcl_Commit client checkpoint c))"

text \<open>A library that hands out the messages of a list.\<close>

definition replay_api :: "rd_message list rdkafka" where
  "replay_api = \<lparr>rk_conf_new = True, rk_conf_set = (\<lambda>_ _. None), rk_new = (\<lambda>_. Inr []), rk_poll_set_consumer = (\<lambda>k. (None, k)),
     rk_list_new = (\<lambda>_. True), rk_list_add = (\<lambda>_ _. True), rk_subscribe = (\<lambda>_ k. (None, k)),
     rk_consumer_poll = (\<lambda>_ k. case k of [] \<Rightarrow> (None, []) | m # ms \<Rightarrow> (Some m, ms)),
     rk_seek_partitions = (\<lambda>_ k. (None, k)), rk_assignment = (\<lambda>k. (Inr None, k)), rk_committed = (\<lambda>_ k. (Inr [], k)),
     rk_query_watermark_offsets = (\<lambda>_ _ k. (Inr (0, 0), k)), rk_commit = (\<lambda>_ k. (None, k))\<rparr>"

definition raw_message :: "int \<Rightarrow> string \<Rightarrow> byte list \<Rightarrow> rd_message" where
  "raw_message n key payload = \<lparr>rm_err = rd_no_error, rm_topic = Some ''items'', rm_partition = 0, rm_offset = n, rm_key = key,
     rm_payload = payload\<rparr>"

section \<open>Validation\<close>

lemma ValidatePartition_Inr: "ValidatePartition p = Inr () \<longleftrightarrow> kp_topic p \<noteq> [] \<and> 0 \<le> kp_partition p"
  by (auto simp: ValidatePartition_def)

lemma ValidateMessage_Inr:
  "ValidateMessage m = Inr () \<longleftrightarrow> kp_topic (mm_partition (um_metadata m)) \<noteq> []
     \<and> 0 \<le> kp_partition (mm_partition (um_metadata m)) \<and> 0 \<le> mm_offset (um_metadata m)"
  by (auto simp: ValidateMessage_def ValidatePartition_Inr)

lemma ValidatePositions_Inr:
  "ValidatePositions ps seen = Inr () \<longleftrightarrow>
     (\<forall>p \<in> set ps. ValidatePartition (ks_partition p) = Inr () \<and> 0 \<le> ks_offset p \<and> partition_key (ks_partition p) \<notin> seen)
     \<and> distinct (map (partition_key \<circ> ks_partition) ps)"
  by (induction ps arbitrary: seen) (auto simp: not_less image_iff)

lemma ValidateCheckpoint_Inr:
  "ValidateCheckpoint cp = Inr () \<longleftrightarrow> kk_next_offsets cp \<noteq> []
     \<and> (\<forall>p \<in> set (kk_next_offsets cp). ValidatePartition (ks_partition p) = Inr () \<and> 0 \<le> ks_offset p)
     \<and> distinct (map (partition_key \<circ> ks_partition) (kk_next_offsets cp))"
  by (auto simp: ValidateCheckpoint_def ValidatePositions_Inr)

lemma ValidateProgressPartitions_Inr:
  "ValidateProgressPartitions ps seen = Inr () \<longleftrightarrow>
     (\<forall>p \<in> set ps. ValidatePartition (pp_partition p) = Inr () \<and> 0 \<le> pp_committed_next_offset p \<and> 0 \<le> pp_high_watermark p
        \<and> 0 \<le> pp_lag p \<and> partition_key (pp_partition p) \<notin> seen)
     \<and> distinct (map (partition_key \<circ> pp_partition) ps)"
  by (induction ps arbitrary: seen) (auto simp: not_less image_iff)

section \<open>Keys\<close>

lemma is_digit_char_of [simp]: "n < 10 \<Longrightarrow> is_digit (char_of (48 + n :: nat))"
  by (simp add: is_digit_def less_eq_char_def)

lemma decimal_digits: "\<forall>c \<in> set (decimal n). is_digit c"
proof (induction n rule: decimal.induct)
  case (1 n)
  then show ?case unfolding decimal.simps [of n] by auto
qed

lemma decimal_value_snoc: "decimal_value (ds @ [c]) = 10 * decimal_value ds + (of_char c - 48)"
  by (simp add: decimal_value_def)

lemma decimal_value_decimal: "decimal_value (decimal n) = n"
proof (induction n rule: decimal.induct)
  case (1 n)
  show ?case
  proof (cases "n < 10")
    case True
    then show ?thesis by (simp add: decimal_value_def decimal.simps [of n])
  next
    case False
    then have "decimal n = decimal (n div 10) @ [char_of (48 + n mod 10)]" by (simp add: decimal.simps [of n])
    with 1 [OF False] show ?thesis by (simp add: decimal_value_snoc)
  qed
qed

lemma decimal_not_empty [simp]: "decimal n \<noteq> []"
  by (simp add: decimal.simps [of n])

lemma ParsePrimaryKey_Inr:
  "ParsePrimaryKey key = Inr k \<longleftrightarrow> key \<noteq> [] \<and> (\<forall>c \<in> set key. is_digit c) \<and> decimal_value key = unat k"
proof -
  have k: "(\<not> 2 ^ 64 \<le> decimal_value key \<and> of_nat (decimal_value key) = k) \<longleftrightarrow> decimal_value key = unat k"
    using unsigned_less [of k, where ?'a = nat] by (auto simp: unat_of_nat)
  show ?thesis
  proof (cases "\<forall>c \<in> set key. is_digit c")
    case True
    then have w: "takeWhile is_digit key = key" "dropWhile is_digit key = []" by (simp_all add: takeWhile_eq_all_conv dropWhile_eq_Nil_conv)
    have "ParsePrimaryKey key = Inr k \<longleftrightarrow> key \<noteq> [] \<and> \<not> 2 ^ 64 \<le> decimal_value key \<and> of_nat (decimal_value key) = k"
      unfolding ParsePrimaryKey_def from_chars_def w by (simp add: Let_def)
    then show ?thesis using True k by simp
  next
    case False
    then obtain c cs where "dropWhile is_digit key = c # cs" by (metis dropWhile_eq_Nil_conv neq_Nil_conv)
    with False show ?thesis by (simp add: ParsePrimaryKey_def from_chars_def Let_def)
  qed
qed

text \<open>
  The key of a message names the row: the decimal text of a 64-bit key parses to that key, and
  only texts of decimal digits whose value is the key do.
\<close>

lemma primary_key_roundtrip:
  "ParsePrimaryKey (decimal (unat k)) = Inr k \<and>
   (ParsePrimaryKey key = Inr k' \<longleftrightarrow> key \<noteq> [] \<and> list_all is_digit key \<and> decimal_value key = unat k')"
  unfolding ParsePrimaryKey_Inr list_all_iff using decimal_digits decimal_value_decimal decimal_not_empty by simp

section \<open>Batches\<close>

lemma ku_Poll_valid:
  assumes "ku_Poll consumer options c = (Inr batch, c')"
  shows "\<forall>m \<in> set batch. ValidateMessage m = Inr ()"
    and "\<exists>client. ku_client consumer = Some client \<and> kcl_Poll client options c = (Inr batch, c')"
proof -
  from assms obtain client where "ku_client consumer = Some client" "kcl_Poll client options c = (Inr batch, c')"
    "foldM_res (\<lambda>m _. ValidateMessage m) batch () = Inr ()"
    by (auto simp: ku_Poll_def split: sum.splits option.splits prod.splits)
  then show "\<forall>m \<in> set batch. ValidateMessage m = Inr ()"
    "\<exists>client. ku_client consumer = Some client \<and> kcl_Poll client options c = (Inr batch, c')"
    by (auto simp: foldM_unit_Inr)
qed

lemma PollLoop_messages:
  assumes "PollLoop api t n ms k = (Inr batch, k')"
  shows "\<exists>new. batch = ms @ new \<and> length new \<le> n
    \<and> (\<forall>m \<in> set new. ParsePrimaryKey (mm_key (um_metadata m)) = Inr (um_primary_key m))"
  using assms
proof (induction n arbitrary: ms k)
  case (Suc n)
  obtain r k1 where poll: "rk_consumer_poll api (if ms = [] then t else 0) k = (r, k1)" by fastforce
  show ?case
  proof (cases r)
    case None
    with Suc.prems poll show ?thesis by auto
  next
    case (Some raw)
    show ?thesis
    proof (cases "rm_err raw")
      case rd_no_error
      with Suc.prems poll Some obtain m where m: "ConvertMessage raw = Inr m"
        and rest: "PollLoop api t n (ms @ [m]) k1 = (Inr batch, k')" by (auto split: sum.splits)
      from Suc.IH [OF rest] obtain new where new: "batch = (ms @ [m]) @ new" "length new \<le> n"
        "\<forall>m \<in> set new. ParsePrimaryKey (mm_key (um_metadata m)) = Inr (um_primary_key m)" by blast
      moreover have "ParsePrimaryKey (mm_key (um_metadata m)) = Inr (um_primary_key m)"
        using m by (auto simp: ConvertMessage_def split: option.splits if_splits)
      ultimately show ?thesis by (intro exI [of _ "m # new"]) auto
    next
      case rd_partition_eof
      with Suc.prems poll Some have "PollLoop api t n ms k1 = (Inr batch, k')" by simp
      from Suc.IH [OF this] show ?thesis by auto
    qed (use Suc.prems poll Some in simp)
  qed
qed simp

text \<open>
  C26. A batch that the librdkafka consumer returns has at most \<open>max_messages\<close> messages, each with a
  topic, a partition and an offset that are valid and with the primary key that its Kafka key spells.
\<close>

theorem poll_batch_wellformed:
  assumes "ku_Poll \<lparr>ku_config = config, ku_client = Some (rdk_client api)\<rparr> options k = (Inr batch, k')"
  shows "length batch \<le> po_max_messages options
    \<and> (\<forall>m \<in> set batch. ValidateMessage m = Inr () \<and> ParsePrimaryKey (mm_key (um_metadata m)) = Inr (um_primary_key m))"
proof -
  from ku_Poll_valid(2) [OF assms] have "PollLoop api (po_timeout_ms options) (po_max_messages options) [] k = (Inr batch, k')"
    by (simp add: rdk_client_def rdk_Poll_def)
  from PollLoop_messages [OF this] ku_Poll_valid(1) [OF assms] show ?thesis by auto
qed

theorem poll_batch_wellformed_witness:
  "\<exists>batch k'. ku_Poll \<lparr>ku_config = \<lparr>kc_bootstrap_servers = [], kc_group_id = [], kc_topics = []\<rparr>, ku_client = Some (rdk_client replay_api)\<rparr>
      \<lparr>po_timeout_ms = 1, po_max_messages = 2\<rparr> [raw_message 4 ''17'' [], raw_message 5 ''8'' [1], raw_message 6 ''9'' []] = (Inr batch, k')
    \<and> map um_primary_key batch = [17, 8] \<and> length batch \<le> 2"
proof -
  let ?poll = "ku_Poll \<lparr>ku_config = \<lparr>kc_bootstrap_servers = [], kc_group_id = [], kc_topics = []\<rparr>, ku_client = Some (rdk_client replay_api)\<rparr>
      \<lparr>po_timeout_ms = 1, po_max_messages = 2\<rparr> [raw_message 4 ''17'' [], raw_message 5 ''8'' [1], raw_message 6 ''9'' []]"
  have "ParsePrimaryKey ''17'' = Inr 17" "ParsePrimaryKey ''8'' = Inr 8"
    by (simp_all add: ParsePrimaryKey_Inr is_digit_def less_eq_char_def decimal_value_def)
  then obtain batch k' where p: "?poll = (Inr batch, k')" "map um_primary_key batch = [17, 8]"
    by (simp add: ku_Poll_def ValidatePollOptions_def rdk_client_def rdk_Poll_def replay_api_def raw_message_def numeral_2_eq_2
        ConvertMessage_def ValidateMessage_def ValidatePartition_def)
  from poll_batch_wellformed [OF p(1)] p show ?thesis by auto
qed

end
