(* ===== verification/Update_Coordinator.thy ===== *)
theory Update_Coordinator
  imports Update_Applier Kafka_Consumer
begin

text \<open>
  \<open>src/ingest/update_coordinator.{h,cc}\<close>: one round of polling a batch, applying it and committing the
  next offsets. The consumer's client is any record of the client functions; the round threads the
  client state and the realtime tables.
\<close>

section \<open>Data\<close>

record UpdateCoordinatorOptions =
  co_logical_topic :: string
  co_poll_options :: PollOptions

section \<open>Operations\<close>

definition uc_ValidateOptions :: "UpdateCoordinatorOptions \<Rightarrow> unit res" where
  "uc_ValidateOptions options =
     (if co_logical_topic options = [] then Inl (InvalidArgument ''update coordinator logical topic is empty'')
      else if po_timeout_ms (co_poll_options options) < 0
      then Inl (InvalidArgument ''poll timeout must not be negative'')
      else if po_max_messages (co_poll_options options) = 0
      then Inl (InvalidArgument ''poll max_messages must be positive'')
      else Inr ())"

definition ValidateTopicAndPosition :: "string \<Rightarrow> KafkaUpsertMessage \<Rightarrow> unit res" where
  "ValidateTopicAndPosition logical_topic message =
     (let metadata = um_metadata message; part = mm_partition metadata in
      if kp_topic part = [] then Inl (InvalidArgument ''kafka message topic is empty'')
      else if kp_topic part \<noteq> logical_topic
      then Inl (FailedPrecondition ''coordinator stream contains multiple logical topics'')
      else if kp_partition part < 0 then Inl (InvalidArgument ''kafka message partition is invalid'')
      else if mm_offset metadata < 0 then Inl (InvalidArgument ''kafka message offset is invalid'')
      else Inr ())"

definition ValidateBatchTopicAndPositions :: "KafkaUpsertMessage list \<Rightarrow> string \<Rightarrow> unit res" where
  "ValidateBatchTopicAndPositions messages logical_topic =
     foldM_res (\<lambda>message _. ValidateTopicAndPosition logical_topic message) messages ()"

text \<open>
  \<open>std::map\<close> from partitions to offsets, as its entries in the order of the keys: insert an offset
  for a new key, keep the greater offset for a known one.
\<close>

fun bump_offset :: "PartitionKey \<Rightarrow> int \<Rightarrow> (PartitionKey \<times> int) list \<Rightarrow> (PartitionKey \<times> int) list" where
  "bump_offset key offset [] = [(key, offset)]"
| "bump_offset key offset ((key', offset') # rest) =
     (if key = key' then (key', if offset > offset' then offset else offset') # rest
      else if key < key' then (key, offset) # (key', offset') # rest
      else (key', offset') # bump_offset key offset rest)"

definition message_key :: "KafkaUpsertMessage \<Rightarrow> PartitionKey" where
  "message_key message = partition_key (mm_partition (um_metadata message))"

definition BumpMessage :: "KafkaUpsertMessage \<Rightarrow> (PartitionKey \<times> int) list \<Rightarrow> (PartitionKey \<times> int) list res" where
  "BumpMessage message max_offsets =
     (if mm_offset (um_metadata message) = 2 ^ 63 - 1
      then Inl (InvalidArgument ''kafka message offset cannot advance'')
      else Inr (bump_offset (message_key message) (mm_offset (um_metadata message)) max_offsets))"

definition BuildCommitCheckpoint :: "KafkaUpsertMessage list \<Rightarrow> KafkaCheckpoint res" where
  "BuildCommitCheckpoint messages =
     rbind (foldM_res BumpMessage messages []) (\<lambda>max_offsets.
     Inr \<lparr>kk_next_offsets = map (\<lambda>(key, offset).
        \<lparr>ks_partition = \<lparr>kp_topic = fst key, kp_partition = snd key\<rparr>, ks_offset = offset + 1\<rparr>) max_offsets\<rparr>)"

text \<open>A null consumer or applier is \<open>None\<close>.\<close>

definition PollApplyCommitOnce ::
    "'c KafkaUpdateConsumer option \<Rightarrow> UpdateApplierOptions option \<Rightarrow> UpdateCoordinatorOptions
      \<Rightarrow> 'c \<times> tables \<Rightarrow> unit res \<times> 'c \<times> tables" where
  "PollApplyCommitOnce consumer applier options s =
     (let (c, h) = s in
      case (consumer, applier) of
        (None, _) \<Rightarrow> (Inl (FailedPrecondition ''update coordinator has no consumer''), s)
      | (Some _, None) \<Rightarrow> (Inl (FailedPrecondition ''update coordinator has no applier''), s)
      | (Some ku, Some ua) \<Rightarrow>
          (case uc_ValidateOptions options of
             Inl e \<Rightarrow> (Inl e, s)
           | Inr _ \<Rightarrow>
               (case ku_Poll ku (co_poll_options options) c of
                  (Inl e, c) \<Rightarrow> (Inl e, c, h)
                | (Inr batch, c) \<Rightarrow>
                    if batch = [] then (Inr (), c, h)
                    else
                      (case rbind (ValidateBatchTopicAndPositions batch (co_logical_topic options)) (\<lambda>_.
                              BuildCommitCheckpoint batch) of
                         Inl e \<Rightarrow> (Inl e, c, h)
                       | Inr checkpoint \<Rightarrow>
                           (case ApplyBatch ua batch h of
                              (Inl e, h) \<Rightarrow> (Inl e, c, h)
                            | (Inr _, h) \<Rightarrow>
                                (case ku_Commit ku checkpoint c of (res, c) \<Rightarrow> (res, c, h)))))))"

text \<open>The greatest offset of a partition in a batch.\<close>

definition offsets_of :: "KafkaUpsertMessage list \<Rightarrow> PartitionKey \<Rightarrow> int set" where
  "offsets_of ms key = (\<lambda>m. mm_offset (um_metadata m)) ` {m \<in> set ms. message_key m = key}"

text \<open>The positions of a checkpoint, as a map from partitions.\<close>

definition next_offset :: "KafkaCheckpoint \<Rightarrow> PartitionKey \<rightharpoonup> int" where
  "next_offset cp = map_of (map (\<lambda>p. (partition_key (ks_partition p), ks_offset p)) (kk_next_offsets cp))"

text \<open>
  What the coordinator relies on from a Kafka client. Every partition has a log of messages; the client
  has a position in it and a committed offset. A successful \<open>Poll\<close> moves positions forward and returns
  all messages in between and no later ones; \<open>Poll\<close> commits nothing. \<open>Commit\<close> moves no position, and
  a committed offset it changes becomes the one of the checkpoint.
\<close>

definition log_client ::
    "'c KafkaUpdateConsumerClient \<Rightarrow> (PartitionKey \<Rightarrow> int \<Rightarrow> KafkaUpsertMessage option)
      \<Rightarrow> ('c \<Rightarrow> PartitionKey \<Rightarrow> int) \<Rightarrow> ('c \<Rightarrow> PartitionKey \<Rightarrow> int) \<Rightarrow> bool" where
  "log_client client log position committed \<longleftrightarrow>
     (\<forall>options c r c'. kcl_Poll client options c = (r, c') \<longrightarrow>
        committed c' = committed c
        \<and> (\<forall>ms. r = Inr ms \<longrightarrow>
             (\<forall>key. position c key \<le> position c' key)
             \<and> (\<forall>key n m. position c key \<le> n \<and> n < position c' key \<and> log key n = Some m \<longrightarrow> m \<in> set ms)
             \<and> (\<forall>m \<in> set ms. mm_offset (um_metadata m) < position c' (message_key m))))
     \<and> (\<forall>cp c r c'. kcl_Commit client cp c = (r, c') \<longrightarrow>
        position c' = position c
        \<and> (\<forall>key. committed c' key = committed c key \<or> next_offset cp key = Some (committed c' key)))"

text \<open>A caller that repeats the round until it fails, at most \<open>n\<close> times.\<close>

fun coordinator_run ::
    "'c KafkaUpdateConsumer option \<Rightarrow> UpdateApplierOptions option \<Rightarrow> UpdateCoordinatorOptions
      \<Rightarrow> nat \<Rightarrow> 'c \<times> tables \<Rightarrow> unit res \<times> 'c \<times> tables" where
  "coordinator_run consumer applier options 0 s = (Inr (), s)"
| "coordinator_run consumer applier options (Suc n) s =
     (case PollApplyCommitOnce consumer applier options s of
        (Inl e, s) \<Rightarrow> (Inl e, s)
      | (Inr _, s) \<Rightarrow> coordinator_run consumer applier options n s)"

definition all_delivered ::
    "UpdateApplierOptions \<Rightarrow> (PartitionKey \<Rightarrow> int \<Rightarrow> KafkaUpsertMessage option) \<Rightarrow> (PartitionKey \<Rightarrow> int)
      \<Rightarrow> tables \<Rightarrow> (PartitionKey \<Rightarrow> int) \<Rightarrow> bool" where
  "all_delivered ua log start h limit \<longleftrightarrow>
     (\<forall>key n m. start key \<le> n \<and> n < limit key \<and> log key n = Some m \<longrightarrow> delivered ua h m)"

text \<open>A client for a log with the one message at offset 5; its state is the position and the committed offset.\<close>

definition items_key :: PartitionKey where "items_key = (''items'', 0)"

definition one_message_client :: "(int \<times> int) KafkaUpdateConsumerClient" where
  "one_message_client = \<lparr>kcl_Poll = (\<lambda>_ (p, k). if p = 5 then (Inr [demo_message 5], 6, k) else (Inr [], p, k)),
     kcl_Seek = (\<lambda>_ s. (Inr (), s)), kcl_Progress = (\<lambda>s. (Inr \<lparr>pg_partitions = []\<rparr>, s)),
     kcl_Commit = (\<lambda>cp (p, k). (Inr (), p, case next_offset cp items_key of None \<Rightarrow> k | Some n \<Rightarrow> n))\<rparr>"

definition one_message_log :: "PartitionKey \<Rightarrow> int \<Rightarrow> KafkaUpsertMessage option" where
  "one_message_log key n = (if key = items_key \<and> n = 5 then Some (demo_message 5) else None)"

definition demo_consumer :: "(int \<times> int) KafkaUpdateConsumer" where
  "demo_consumer = \<lparr>ku_config = \<lparr>kc_bootstrap_servers = ''b'', kc_group_id = ''g'', kc_topics = [''items'']\<rparr>,
     ku_client = Some one_message_client\<rparr>"

definition demo_coordinator :: UpdateCoordinatorOptions where
  "demo_coordinator = \<lparr>co_logical_topic = ''items'', co_poll_options = \<lparr>po_timeout_ms = 1, po_max_messages = 1\<rparr>\<rparr>"

section \<open>Checkpoints\<close>

lemma bump_offset_keys: "set (map fst (bump_offset k n xs)) = insert k (set (map fst xs))"
  by (induction k n xs rule: bump_offset.induct) auto

lemma bump_offset_sorted: "sorted_wrt (<) (map fst xs) \<Longrightarrow> sorted_wrt (<) (map fst (bump_offset k n xs))"
proof (induction k n xs rule: bump_offset.induct)
  case (2 k n k' n' xs)
  then show ?case using bump_offset_keys [of k n xs] by (auto simp: not_less)
qed simp

lemma bump_offset_map:
  "sorted_wrt (<) (map fst xs) \<Longrightarrow>
   map_of (bump_offset k n xs) = (map_of xs)(k \<mapsto> (case map_of xs k of None \<Rightarrow> n | Some n' \<Rightarrow> max n n'))"
proof (induction k n xs rule: bump_offset.induct)
  case (2 k n k' n' xs)
  have "map_of xs k = None" if "k < k'"
    using 2(2) that by (fastforce simp: map_of_eq_None_iff)
  with 2 show ?case by (auto simp: fun_eq_iff max_def)
qed simp

lemma offsets_of_snoc: "offsets_of (ms @ [m]) key =
  (if message_key m = key then insert (mm_offset (um_metadata m)) (offsets_of ms key) else offsets_of ms key)"
  by (auto simp: offsets_of_def)

lemma finite_offsets_of [simp]: "finite (offsets_of ms key)"
  by (simp add: offsets_of_def)

lemma BumpMessage_Inr:
  "BumpMessage m xs = Inr ys \<longleftrightarrow> mm_offset (um_metadata m) \<noteq> 2 ^ 63 - 1
     \<and> ys = bump_offset (message_key m) (mm_offset (um_metadata m)) xs"
  by (auto simp: BumpMessage_def)

lemma BumpMessages_map:
  assumes "foldM_res BumpMessage ms [] = Inr xs"
  shows "sorted_wrt (<) (map fst xs)
    \<and> (\<forall>key. map_of xs key = (if offsets_of ms key = {} then None else Some (Max (offsets_of ms key))))
    \<and> (\<forall>m \<in> set ms. mm_offset (um_metadata m) \<noteq> 2 ^ 63 - 1)"
  using assms
proof (induction ms arbitrary: xs rule: rev_induct)
  case Nil
  then show ?case by (simp add: offsets_of_def)
next
  case (snoc m ms)
  from snoc.prems obtain ys where ys: "foldM_res BumpMessage ms [] = Inr ys"
    and m: "mm_offset (um_metadata m) \<noteq> 2 ^ 63 - 1" and xs: "xs = bump_offset (message_key m) (mm_offset (um_metadata m)) ys"
    by (auto simp: res_simps BumpMessage_Inr)
  from snoc.IH [OF ys] have IH: "sorted_wrt (<) (map fst ys)"
    "\<And>key. map_of ys key = (if offsets_of ms key = {} then None else Some (Max (offsets_of ms key)))"
    "\<forall>m \<in> set ms. mm_offset (um_metadata m) \<noteq> 2 ^ 63 - 1" by blast+
  show ?case
    using m IH(3) bump_offset_sorted [OF IH(1)] unfolding xs bump_offset_map [OF IH(1)]
    by (auto simp: IH(2) offsets_of_snoc)
qed

lemma BumpMessages_succeed:
  "\<forall>m \<in> set ms. mm_offset (um_metadata m) \<noteq> 2 ^ 63 - 1 \<Longrightarrow> \<exists>ys. foldM_res BumpMessage ms xs = Inr ys"
  by (induction ms arbitrary: xs) (auto simp: BumpMessage_def)

lemma BuildCommitCheckpoint_Inr:
  assumes "BuildCommitCheckpoint ms = Inr cp"
  shows "next_offset cp key = (if offsets_of ms key = {} then None else Some (Max (offsets_of ms key) + 1))"
    and "sorted_wrt (<) (map (partition_key \<circ> ks_partition) (kk_next_offsets cp))"
    and "\<forall>m \<in> set ms. mm_offset (um_metadata m) \<noteq> 2 ^ 63 - 1"
proof -
  from assms obtain xs where xs: "foldM_res BumpMessage ms [] = Inr xs"
    and cp: "kk_next_offsets cp = map (\<lambda>(key, offset). \<lparr>ks_partition = \<lparr>kp_topic = fst key, kp_partition = snd key\<rparr>, ks_offset = offset + 1\<rparr>) xs"
    by (auto simp: BuildCommitCheckpoint_def)
  note M = BumpMessages_map [OF xs]
  have "map (\<lambda>p. (partition_key (ks_partition p), ks_offset p)) (kk_next_offsets cp) = map (\<lambda>(key, offset). (key, offset + 1)) xs"
    by (simp add: cp comp_def case_prod_beta partition_key_def)
  then have "next_offset cp = (\<lambda>key. map_option (\<lambda>n. n + 1) (map_of xs key))"
    by (simp add: next_offset_def map_of_map comp_def)
  moreover have "map_of xs key = (if offsets_of ms key = {} then None else Some (Max (offsets_of ms key)))" using M by blast
  ultimately show "next_offset cp key = (if offsets_of ms key = {} then None else Some (Max (offsets_of ms key) + 1))" by simp
  have "map (partition_key \<circ> ks_partition) (kk_next_offsets cp) = map fst xs"
    by (simp add: cp comp_def case_prod_beta partition_key_def)
  with M show "sorted_wrt (<) (map (partition_key \<circ> ks_partition) (kk_next_offsets cp))"
    "\<forall>m \<in> set ms. mm_offset (um_metadata m) \<noteq> 2 ^ 63 - 1" by simp_all
qed

text \<open>
  The checkpoint of a batch names every partition of the batch exactly once, in key order, with the
  offset after the last one that was consumed; it exists unless an offset is the greatest 64-bit
  integer, and the consumer accepts it for committing when the batch is a valid non-empty batch.
\<close>

lemma commit_checkpoint_exact:
  "((\<exists>cp. BuildCommitCheckpoint ms = Inr cp) \<longleftrightarrow> (\<forall>m \<in> set ms. mm_offset (um_metadata m) \<noteq> 2 ^ 63 - 1))
   \<and> (BuildCommitCheckpoint ms = Inr cp \<longrightarrow>
       sorted_wrt (<) (map (partition_key \<circ> ks_partition) (kk_next_offsets cp))
       \<and> (\<forall>key. next_offset cp key = (if offsets_of ms key = {} then None else Some (Max (offsets_of ms key) + 1)))
       \<and> (ms \<noteq> [] \<and> (\<forall>m \<in> set ms. ValidateMessage m = Inr ()) \<longrightarrow> ValidateCheckpoint cp = Inr ()))"
proof -
  have "ValidateCheckpoint cp = Inr ()"
    if cp: "BuildCommitCheckpoint ms = Inr cp" and ms: "ms \<noteq> []" "\<forall>m \<in> set ms. ValidateMessage m = Inr ()"
  proof -
    note B = BuildCommitCheckpoint_Inr [OF cp]
    have dist: "distinct (map (partition_key \<circ> ks_partition) (kk_next_offsets cp))"
      using B(2) strict_sorted_iff by blast
    have "ValidatePartition (ks_partition p) = Inr () \<and> 0 \<le> ks_offset p" if p: "p \<in> set (kk_next_offsets cp)" for p
    proof -
      let ?key = "partition_key (ks_partition p)"
      have "next_offset cp ?key = Some (ks_offset p)"
        unfolding next_offset_def using dist p by (intro map_of_is_SomeI) (auto simp: comp_def)
      then have ne: "offsets_of ms ?key \<noteq> {}" and off: "ks_offset p = Max (offsets_of ms ?key) + 1"
        using B(1) [of ?key] by (auto split: if_splits)
      from Max_in [OF finite_offsets_of ne] obtain m where m: "m \<in> set ms" "message_key m = ?key"
        "mm_offset (um_metadata m) = Max (offsets_of ms ?key)" by (auto simp: offsets_of_def)
      have "ValidateMessage m = Inr ()" using ms(2) m(1) by blast
      then show ?thesis using m(2,3) off by (auto simp: ValidateMessage_Inr ValidatePartition_Inr message_key_def partition_key_def)
    qed
    moreover have "kk_next_offsets cp \<noteq> []"
    proof
      assume "kk_next_offsets cp = []"
      then have "next_offset cp (message_key (hd ms)) = None" by (simp add: next_offset_def)
      with B(1) [of "message_key (hd ms)"] hd_in_set [OF ms(1)] show False by (auto simp: offsets_of_def split: if_splits)
    qed
    ultimately show ?thesis using dist by (simp add: ValidateCheckpoint_Inr)
  qed
  moreover have "(\<exists>cp. BuildCommitCheckpoint ms = Inr cp) \<longleftrightarrow> (\<forall>m \<in> set ms. mm_offset (um_metadata m) \<noteq> 2 ^ 63 - 1)"
    using BumpMessages_succeed [of ms "[]"] BuildCommitCheckpoint_Inr(3) by (fastforce simp: BuildCommitCheckpoint_def)
  ultimately show ?thesis using BuildCommitCheckpoint_Inr(1,2) by blast
qed


section \<open>Rounds\<close>

lemma PublishAll_keeps: "tables_ok h \<Longrightarrow> PublishAll us h = (res, h') \<Longrightarrow> keeps h h'"
proof (induction us arbitrary: h)
  case (Cons u us)
  show ?case
  proof (cases "pu_table u")
    case None
    with Cons.prems show ?thesis by (simp add: keeps_def)
  next
    case (Some q)
    obtain res1 t where pub: "rt_Publish (h q) (pu_primary_key u) (pu_position u) (pu_encoded u) = (res1, t)" by fastforce
    have inv: "rt_inv (h q)" using Cons.prems(1) by (simp add: tables_ok_def)
    note T = rt_Publish_inv [OF inv pub]
    have "taken (h q) k pos \<Longrightarrow> taken t k pos" for k pos
      using rt_Publish_taken(2) [OF inv, of _ _ _ t] rt_Publish_failed_view [OF inv] pub by (cases res1) (auto simp: taken_def)
    then have step: "keeps h (h(q := t))" using T(2) by (simp add: keeps_def)
    show ?thesis
    proof (cases res1)
      case (Inl e)
      with Cons.prems(2) Some pub step show ?thesis by (auto simp del: fun_upd_apply)
    next
      case (Inr v)
      with Cons.prems(2) Some pub have "PublishAll us (h(q := t)) = (res, h')" by simp
      from Cons.IH [OF tables_ok_update [OF Cons.prems(1) T(1)] this] step show ?thesis by (rule keeps_trans [rotated])
    qed
  qed
qed (simp add: keeps_def)

lemma ApplyBatch_keeps: "tables_ok h \<Longrightarrow> ApplyBatch options ms h = (res, h') \<Longrightarrow> keeps h h'"
proof (induction ms arbitrary: h)
  case (Cons m ms)
  obtain r h1 where a: "Apply options m h = (r, h1)" by fastforce
  have ok: "tables_ok h1" by (rule Apply_inv(1) [OF Cons.prems(1) a])
  have step: "keeps h h1"
    using a PublishAll_keeps [OF Cons.prems(1)] by (auto simp: Apply_prepare keeps_def split: sum.splits)
  show ?case
  proof (cases r)
    case (Inl e)
    with Cons.prems(2) a step show ?thesis by simp
  next
    case (Inr v)
    with Cons.prems(2) a have "ApplyBatch options ms h1 = (res, h')" by simp
    from keeps_trans [OF step Cons.IH [OF ok this]] show ?thesis .
  qed
qed (simp add: keeps_def)

lemma ApplyBatch_ok: "tables_ok h \<Longrightarrow> ApplyBatch options ms h = (res, h') \<Longrightarrow> tables_ok h'"
proof (induction ms arbitrary: h)
  case (Cons m ms)
  obtain r h1 where a: "Apply options m h = (r, h1)" by fastforce
  with Apply_inv(1) [OF Cons.prems(1) a] Cons show ?case by (cases r) auto
qed simp

lemma all_delivered_keeps: "all_delivered ua log start h limit \<Longrightarrow> keeps h h' \<Longrightarrow> all_delivered ua log start h' limit"
  unfolding all_delivered_def by (blast intro: delivered_keeps)

lemma all_delivered_mono:
  "all_delivered ua log start h limit \<Longrightarrow> (\<And>key. limit' key \<le> limit key) \<Longrightarrow> all_delivered ua log start h limit'"
  unfolding all_delivered_def by (meson less_le_trans)

lemma round_cases:
  assumes "PollApplyCommitOnce (Some ku) (Some ua) options (c, h) = (res, c', h')"
  obtains (untouched) e where "res = Inl e" "c' = c" "h' = h"
  | (polled) r where "ku_Poll ku (co_poll_options options) c = (r, c')" "h' = h" "res \<noteq> Inr () \<or> r = Inr []"
  | (failed) batch e where "ku_Poll ku (co_poll_options options) c = (Inr batch, c')" "ApplyBatch ua batch h = (Inl e, h')" "res = Inl e"
  | (applied) batch c1 cp where "ku_Poll ku (co_poll_options options) c = (Inr batch, c1)" "BuildCommitCheckpoint batch = Inr cp"
      "ApplyBatch ua batch h = (Inr (), h')" "ku_Commit ku cp c1 = (res, c')"
proof (cases "uc_ValidateOptions options")
  case (Inl e)
  with assms untouched [of e] show thesis by (simp add: PollApplyCommitOnce_def)
next
  case ok: (Inr v)
  obtain r c1 where poll: "ku_Poll ku (co_poll_options options) c = (r, c1)" by fastforce
  show thesis
  proof (cases r)
    case (Inl e)
    with assms ok poll polled [of r] show thesis by (auto simp: PollApplyCommitOnce_def)
  next
    case (Inr batch)
    let ?check = "rbind (ValidateBatchTopicAndPositions batch (co_logical_topic options)) (\<lambda>_. BuildCommitCheckpoint batch)"
    show thesis
    proof (cases "batch = []")
      case True
      with assms ok poll Inr polled [of r] show thesis by (simp add: PollApplyCommitOnce_def)
    next
      case ne: False
      show thesis
      proof (cases ?check)
        case (Inl e)
        with assms ok poll \<open>r = Inr batch\<close> ne polled [of r] show thesis by (auto simp: PollApplyCommitOnce_def)
      next
        case check: (Inr cp)
        then have cp: "BuildCommitCheckpoint batch = Inr cp" by simp
        obtain ra h1 where ap: "ApplyBatch ua batch h = (ra, h1)" by fastforce
        show thesis
        proof (cases ra)
          case (Inl e)
          from assms have "res = Inl e \<and> c' = c1 \<and> h' = h1"
            by (simp add: PollApplyCommitOnce_def ok poll \<open>r = Inr batch\<close> ne check ap Inl del: rbind_eq_Inr)
          with failed [of batch e] poll \<open>r = Inr batch\<close> ap Inl show thesis by blast
        next
          case (Inr u)
          obtain rc c2 where co: "ku_Commit ku cp c1 = (rc, c2)" by fastforce
          from assms have "res = rc \<and> c' = c2 \<and> h' = h1"
            by (simp add: PollApplyCommitOnce_def ok poll \<open>r = Inr batch\<close> ne check ap Inr co del: rbind_eq_Inr)
          moreover have "ApplyBatch ua batch h = (Inr (), h1)" using ap Inr by simp
          ultimately show thesis using applied [of batch c1 cp] poll \<open>r = Inr batch\<close> cp co by blast
        qed
      qed
    qed
  qed
qed

lemma log_client_Commit:
  assumes "log_client client log position committed" and "kcl_Commit client cp c = (r, c')"
  shows "position c' = position c \<and> (\<forall>key. committed c' key = committed c key \<or> next_offset cp key = Some (committed c' key))"
  using assms(1) [unfolded log_client_def, THEN conjunct2, rule_format, OF assms(2)] by blast

lemma log_client_Poll:
  assumes "log_client client log position committed" and "kcl_Poll client options c = (r, c')"
  shows "committed c' = committed c"
    and "r = Inr ms \<Longrightarrow> position c key \<le> position c' key"
    and "r = Inr ms \<Longrightarrow> position c key \<le> n \<Longrightarrow> n < position c' key \<Longrightarrow> log key n = Some m \<Longrightarrow> m \<in> set ms"
    and "r = Inr ms \<Longrightarrow> m \<in> set ms \<Longrightarrow> mm_offset (um_metadata m) < position c' (message_key m)"
  using assms(1) [unfolded log_client_def, THEN conjunct1, THEN spec, THEN spec, THEN spec, THEN spec, THEN mp, OF assms(2)] by blast+

lemma ku_calls:
  assumes lc: "log_client client log position committed" and ku: "ku_client ku = Some client"
  shows "ku_Poll ku options c = (r, c') \<Longrightarrow> committed c' = committed c"
    and "ku_Commit ku cp c = (rc, c') \<Longrightarrow> position c' = position c
      \<and> (\<forall>key. committed c' key = committed c key \<or> next_offset cp key = Some (committed c' key))"
proof -
  show "committed c' = committed c" if poll: "ku_Poll ku options c = (r, c')"
  proof (cases "c' = c")
    case False
    with poll ku have "\<exists>r'. kcl_Poll client options c = (r', c')" by (auto simp: ku_Poll_def split: sum.splits prod.splits)
    then show ?thesis using log_client_Poll(1) [OF lc] by blast
  qed simp
  show "position c' = position c \<and> (\<forall>key. committed c' key = committed c key \<or> next_offset cp key = Some (committed c' key))"
    if co: "ku_Commit ku cp c = (rc, c')"
  proof (cases "c' = c")
    case False
    with co ku have "kcl_Commit client cp c = (rc, c')" by (auto simp: ku_Commit_def split: sum.splits)
    then show ?thesis by (rule log_client_Commit [OF lc])
  qed simp
qed

lemma polled_batch:
  assumes lc: "log_client client log position committed" and ku: "ku_client ku = Some client"
    and poll: "ku_Poll ku options c = (Inr batch, c1)" and del: "all_delivered ua log start h (position c)"
    and h1: "keeps h h1" "\<forall>m \<in> set batch. delivered ua h1 m"
  shows "all_delivered ua log start h1 (position c1)" and "position c key \<le> position c1 key"
    and "offsets_of batch key \<noteq> {} \<Longrightarrow> Max (offsets_of batch key) < position c1 key"
proof -
  from ku_Poll_valid(2) [OF poll] ku have "kcl_Poll client options c = (Inr batch, c1)" by auto
  note L = log_client_Poll [OF lc this]
  note fwd = L(2) [OF refl] and all = L(3) [OF refl] and lt = L(4) [OF refl]
  show "all_delivered ua log start h1 (position c1)"
    unfolding all_delivered_def
  proof (intro allI impI)
    fix key n m assume n: "start key \<le> n \<and> n < position c1 key \<and> log key n = Some m"
    show "delivered ua h1 m"
    proof (cases "n < position c key")
      case True
      with n all_delivered_keeps [OF del h1(1)] show ?thesis unfolding all_delivered_def by blast
    next
      case False
      with n all [of key n m] h1(2) show ?thesis by auto
    qed
  qed
  show "position c key \<le> position c1 key" by (rule fwd)
  assume "offsets_of batch key \<noteq> {}"
  from Max_in [OF finite_offsets_of this] obtain m where "m \<in> set batch" "message_key m = key"
    "mm_offset (um_metadata m) = Max (offsets_of batch key)" by (auto simp: offsets_of_def)
  with lt [of m] show "Max (offsets_of batch key) < position c1 key" by auto
qed

lemma round_delivers:
  assumes lc: "log_client client log position committed" and ku: "ku_client ku = Some client"
    and h: "tables_ok h" and del: "all_delivered ua log start h (position c)" and le: "\<And>key. committed c key \<le> position c key"
    and run: "PollApplyCommitOnce (Some ku) (Some ua) options (c, h) = (res, c', h')"
  shows "tables_ok h' \<and> all_delivered ua log start h' (committed c')
    \<and> (res = Inr () \<longrightarrow> all_delivered ua log start h' (position c') \<and> (\<forall>key. committed c' key \<le> position c' key))"
  using run
proof (cases rule: round_cases)
  case (untouched e)
  with h all_delivered_mono [OF del le] show ?thesis by simp
next
  case (polled r)
  have com: "committed c' = committed c" by (rule ku_calls(1) [OF lc ku polled(1)])
  show ?thesis
  proof (cases "res = Inr ()")
    case True
    with polled have "ku_Poll ku (co_poll_options options) c = (Inr [], c')" by simp
    note B = polled_batch [OF lc ku this del, of h]
    have "committed c' key \<le> position c' key" for key using B(2) [of key] le [of key] com by (simp add: keeps_def)
    with True B(1) h com all_delivered_mono [OF del le] polled(2) show ?thesis by (simp add: keeps_def)
  qed (use h com all_delivered_mono [OF del le] polled in simp)
next
  case (failed batch e)
  have com: "committed c' = committed c" by (rule ku_calls(1) [OF lc ku failed(1)])
  with failed(3) ApplyBatch_ok [OF h failed(2)] all_delivered_keeps [OF all_delivered_mono [OF del le] ApplyBatch_keeps [OF h failed(2)]]
  show ?thesis by simp
next
  case (applied batch c1 cp)
  have com: "committed c1 = committed c" by (rule ku_calls(1) [OF lc ku applied(1)])
  note C = ku_calls(2) [OF lc ku applied(4)]
  note D = ApplyBatch_delivered [OF h applied(3)]
  have "keeps h h'" "\<forall>m \<in> set batch. delivered ua h' m" using D by auto
  note B = polled_batch [OF lc ku applied(1) del this]
  have "committed c' key \<le> position c1 key" for key
  proof (cases "committed c' key = committed c1 key")
    case True
    with com le [of key] B(2) [of key] show ?thesis by simp
  next
    case False
    with C have "next_offset cp key = Some (committed c' key)" by blast
    with BuildCommitCheckpoint_Inr(1) [OF applied(2), of key] have "offsets_of batch key \<noteq> {}"
      and "committed c' key = Max (offsets_of batch key) + 1" by (auto split: if_splits)
    moreover from this(1) have "Max (offsets_of batch key) < position c1 key" by (rule B(3))
    ultimately show ?thesis by linarith
  qed
  with D B(1) C all_delivered_mono [OF B(1)] show ?thesis by simp
qed

text \<open>
  C8. No committed message is lost: a caller that repeats the round and stops at the first failure,
  whatever failed, has delivered to the tables of every target all messages from where it started up
  to the committed offsets. The Kafka client behind the consumer is one that keeps its contract (\<open>log_client\<close>): it polls
  the log without gaps from its position, a commit does not move the position, and it stores the offsets of the
  checkpoint or nothing. At the start, what is committed is the position.
\<close>

theorem committed_is_delivered:
  assumes "log_client client log position committed" and "ku_client ku = Some client" and "tables_ok h"
    and "\<forall>key. committed c key = position c key"
    and "coordinator_run (Some ku) (Some ua) options n (c, h) = (res, c', h')"
    and "position c key \<le> i" and "i < committed c' key" and "log key i = Some m"
  shows "delivered ua h' m"
proof -
  have "all_delivered ua log (position c) h' (committed c')"
    if "tables_ok h1" "all_delivered ua log (position c) h1 (position c1)" "\<And>key. committed c1 key \<le> position c1 key"
      "coordinator_run (Some ku) (Some ua) options n (c1, h1) = (res, c', h')" for c1 h1
    using that
  proof (induction n arbitrary: c1 h1)
    case 0
    then show ?case using all_delivered_mono by auto
  next
    case (Suc n)
    obtain r c2 h2 where r: "PollApplyCommitOnce (Some ku) (Some ua) options (c1, h1) = (r, c2, h2)" by (metis prod_cases3)
    note R = round_delivers [OF assms(1,2) Suc.prems(1,2) _ r] 
    show ?case
    proof (cases r)
      case (Inl e)
      with Suc.prems(4) r have "c' = c2" "h' = h2" by auto
      with R Suc.prems(3) show ?thesis by blast
    next
      case (Inr u)
      with Suc.prems(4) r have "coordinator_run (Some ku) (Some ua) options n (c2, h2) = (res, c', h')" by simp
      with R Suc.prems(3) Inr show ?thesis by (intro Suc.IH) auto
    qed
  qed
  moreover have "all_delivered ua log (position c) h (position c)" by (auto simp: all_delivered_def)
  moreover have "\<And>key. committed c key \<le> position c key" using assms(4) by (metis order_refl)
  ultimately have "all_delivered ua log (position c) h' (committed c')" using assms(3,5) by blast
  with assms(6-8) show ?thesis unfolding all_delivered_def by blast
qed


section \<open>Examples\<close>

lemma one_message_log_client:
  "log_client one_message_client one_message_log (\<lambda>(p, k) key. if key = items_key then p else 0)
     (\<lambda>(p, k) key. if key = items_key then k else 0)"
  by (auto simp: log_client_def one_message_client_def one_message_log_def message_key_def demo_message_def partition_key_def
      items_key_def split: if_splits option.splits)

theorem committed_is_delivered_witness:
  "\<exists>L h'. Compile demo_schema = Inr L
    \<and> coordinator_run (Some demo_consumer) (Some (two_targets L)) demo_coordinator 1 ((5, 5), fresh_tables L) = (Inr (), (6, 6), h')
    \<and> delivered (two_targets L) h' (demo_message 5)"
proof -
  obtain L h' where L: "Compile demo_schema = Inr L"
    and a: "Apply (two_targets L) (demo_message 5) (fresh_tables L) = (Inr (), h')" by (rule demo_applied)
  let ?cp = "\<lparr>kk_next_offsets = [\<lparr>ks_partition = \<lparr>kp_topic = ''items'', kp_partition = 0\<rparr>, ks_offset = 6\<rparr>]\<rparr>"
  have cp: "BuildCommitCheckpoint [demo_message 5] = Inr ?cp"
    by (simp add: BuildCommitCheckpoint_def BumpMessage_def message_key_def partition_key_def demo_message_def)
  have poll: "ku_Poll demo_consumer (co_poll_options demo_coordinator) (5, 5) = (Inr [demo_message 5], 6, 5)"
    by (simp add: ku_Poll_def demo_consumer_def demo_coordinator_def ValidatePollOptions_def one_message_client_def
        ValidateMessage_def ValidatePartition_def demo_message_def)
  have check: "ValidateBatchTopicAndPositions [demo_message 5] (co_logical_topic demo_coordinator) = Inr ()"
    by (simp add: ValidateBatchTopicAndPositions_def ValidateTopicAndPosition_def demo_coordinator_def demo_message_def)
  have commit: "ku_Commit demo_consumer ?cp (6, 5) = (Inr (), 6, 6)"
    by (simp add: ku_Commit_def ValidateCheckpoint_def ValidatePartition_def demo_consumer_def one_message_client_def
        next_offset_def partition_key_def items_key_def)
  have "uc_ValidateOptions demo_coordinator = Inr ()" by (simp add: uc_ValidateOptions_def demo_coordinator_def)
  with cp poll check commit a have run: "coordinator_run (Some demo_consumer) (Some (two_targets L)) demo_coordinator 1 ((5, 5), fresh_tables L)
      = (Inr (), (6, 6), h')" by (simp add: PollApplyCommitOnce_def)
  have m: "one_message_log items_key 5 = Some (demo_message 5)" by (simp add: one_message_log_def)
  from committed_is_delivered [OF one_message_log_client _ demo_setting(1) [OF L] _ run _ _ m] L run show ?thesis
    by (auto simp: demo_consumer_def)
qed


end
