(* ===== verification/Async_Load.thy ===== *)
theory Async_Load
  imports Artifact_Roundtrip Forward_Index Update_Coordinator
begin

text \<open>
  \<open>src/rebuild/async_load.{h,cc}\<close>: the load of an artifact, as it runs on a worker thread of the index. All shards
  are mapped and warmed up; without Kafka they are then published one by one, otherwise the changes since the
  artifact are first applied to new realtime tables until every partition has reached its high watermark.

  The load works on a \<open>load_world\<close>: the file system, the index, the realtime tables and the address of the next table
  to be allocated. The callbacks and the functions of a catch-up runner are state transformers of the world, so
  what other threads do meanwhile is part of them. The mutex around the factory for tests has no counterpart: the
  factory is an argument. The catch-up loop may run for ever; then the load has no result (\<open>None\<close>).
\<close>

section \<open>Data\<close>

record 'fs load_world =
  lw_fs :: 'fs
  lw_index :: ForwardIndex
  lw_tables :: tables
  lw_next_table :: table_ptr

record 'w AsyncCatchUpRequest =
  cu_load_id :: LoadId
  cu_checkpoint :: KafkaCheckpoint
  cu_safe_progress :: KafkaProgress
  cu_hash_seed :: u64
  cu_hash_version :: u32
  cu_layout :: "CompiledRowLayout option"
  cu_realtime_shards :: "table_ptr option list"
  cu_cancellation_requested :: "('w \<Rightarrow> bool) option"

text \<open>The virtual functions of a runner with state \<open>'r\<close>.\<close>

record ('r, 'w) AsyncCatchUpRunner =
  cr_Start :: "'w AsyncCatchUpRequest \<Rightarrow> 'r \<Rightarrow> 'w \<Rightarrow> unit res \<times> 'r \<times> 'w"
  cr_CaptureSafeProgress :: "'r \<Rightarrow> 'w \<Rightarrow> KafkaProgress res \<times> 'r \<times> 'w"
  cr_PollApplyCommitOnce :: "'r \<Rightarrow> 'w \<Rightarrow> unit res \<times> 'r \<times> 'w"

type_synonym ('r, 'w) AsyncCatchUpRunnerFactory = "ForwardIndexOptions \<Rightarrow> (('r, 'w) AsyncCatchUpRunner \<times> 'r) res"

record 'w AsyncLoadCallbacks =
  cb_publish_shard :: "(u32 \<Rightarrow> ShardState option \<Rightarrow> 'w \<Rightarrow> unit res \<times> 'w) option"
  cb_store_state :: "(LoadState \<Rightarrow> 'w \<Rightarrow> 'w) option"
  cb_is_cancelled :: "('w \<Rightarrow> bool \<times> 'w) option"
  cb_cancellation_requested :: "('w \<Rightarrow> bool) option"

section \<open>Source progress\<close>

definition SamePartition :: "KafkaPartition \<Rightarrow> KafkaPartition \<Rightarrow> bool" where
  "SamePartition lhs rhs \<longleftrightarrow> kp_topic lhs = kp_topic rhs \<and> kp_partition lhs = kp_partition rhs"

definition source_partition :: "ArtifactSourceProgress \<Rightarrow> KafkaPartition" where
  "source_partition entry = \<lparr>kp_topic = ap_topic entry, kp_partition = ap_partition entry\<rparr>"

definition BuildCheckpoint :: "ArtifactSourceProgress list \<Rightarrow> KafkaCheckpoint" where
  "BuildCheckpoint progress =
     \<lparr>kk_next_offsets = map (\<lambda>entry. \<lparr>ks_partition = source_partition entry, ks_offset = ap_checkpoint_next_offset entry\<rparr>) progress\<rparr>"

definition BuildSafeProgress :: "ArtifactSourceProgress list \<Rightarrow> KafkaProgress" where
  "BuildSafeProgress progress =
     \<lparr>pg_partitions = map (\<lambda>entry.
        \<lparr>pp_partition = source_partition entry, pp_committed_next_offset = ap_checkpoint_next_offset entry,
         pp_high_watermark = ap_high_watermark entry,
         pp_lag = max 0 (ap_high_watermark entry - ap_checkpoint_next_offset entry)\<rparr>) progress\<rparr>"

definition CatchUpRequired :: "KafkaProgress \<Rightarrow> bool" where
  "CatchUpRequired progress \<longleftrightarrow> list_ex (\<lambda>entry. pp_committed_next_offset entry < pp_high_watermark entry) (pg_partitions progress)"

definition FindProgress :: "KafkaProgress \<Rightarrow> KafkaPartition \<Rightarrow> KafkaPartitionProgress res" where
  "FindProgress progress part =
     (case find (\<lambda>entry. SamePartition (pp_partition entry) part) (pg_partitions progress) of
        None \<Rightarrow> Inl (FailedPrecondition ''catch-up progress is missing a source partition'')
      | Some entry \<Rightarrow> Inr entry)"

definition UpdateObservedEntry :: "KafkaProgress \<Rightarrow> KafkaPartitionProgress \<Rightarrow> KafkaPartitionProgress res" where
  "UpdateObservedEntry observed target_entry =
     rbind (FindProgress observed (pp_partition target_entry)) (\<lambda>observed_entry.
     let high_watermark = max (pp_high_watermark target_entry) (pp_high_watermark observed_entry) in
     Inr \<lparr>pp_partition = pp_partition target_entry,
          pp_committed_next_offset = pp_committed_next_offset observed_entry,
          pp_high_watermark = high_watermark,
          pp_lag = max 0 (high_watermark - pp_committed_next_offset observed_entry)\<rparr>)"

definition UpdateObservedSafeProgress :: "KafkaProgress \<Rightarrow> KafkaProgress \<Rightarrow> KafkaProgress res" where
  "UpdateObservedSafeProgress target observed =
     (if pg_partitions target = [] then Inl (FailedPrecondition ''artifact source progress is empty'')
      else
        rbind (mapM_res (UpdateObservedEntry observed) (pg_partitions target)) (\<lambda>entries.
        Inr \<lparr>pg_partitions = entries\<rparr>))"

section \<open>The state of a load\<close>

definition MarkFailed :: "failure \<Rightarrow> LoadState \<Rightarrow> LoadState" where
  "MarkFailed status state =
     state\<lparr>ls_code := kFailed, ls_terminal := True, ls_last_error := failure_message status,
           ls_message := (if failure_message status = [] then ''artifact load failed'' else failure_message status)\<rparr>"

definition MarkCancelled :: "LoadState \<Rightarrow> LoadState" where
  "MarkCancelled state =
     state\<lparr>ls_code := kLoadCancelled, ls_terminal := True, ls_last_error := ''load cancelled'',
           ls_message := ''load cancelled''\<rparr>"

definition PopulateSourceProgress :: "ArtifactSourceProgress list \<Rightarrow> LoadState \<Rightarrow> LoadState" where
  "PopulateSourceProgress progress state =
     state\<lparr>ls_source_progress := \<lparr>pg_partitions = map (\<lambda>entry.
        \<lparr>pp_partition = source_partition entry, pp_committed_next_offset = ap_checkpoint_next_offset entry,
         pp_high_watermark = ap_high_watermark entry,
         pp_lag = max 0 (ap_high_watermark entry - ap_checkpoint_next_offset entry)\<rparr>) progress\<rparr>\<rparr>"

definition StoreState :: "'w AsyncLoadCallbacks \<Rightarrow> LoadState \<Rightarrow> 'w \<Rightarrow> 'w" where
  "StoreState callbacks state w = (case cb_store_state callbacks of None \<Rightarrow> w | Some f \<Rightarrow> f state w)"

definition IsCancelled :: "'w AsyncLoadCallbacks \<Rightarrow> 'w \<Rightarrow> bool \<times> 'w" where
  "IsCancelled callbacks w = (case cb_is_cancelled callbacks of None \<Rightarrow> (False, w) | Some f \<Rightarrow> f w)"

text \<open>
  The steps of a load take its state and the world; an error ends the load. Sequences and loops of steps:
\<close>

definition sbind :: "('s \<Rightarrow> 'a res \<times> 's) \<Rightarrow> ('a \<Rightarrow> 's \<Rightarrow> 'b res \<times> 's) \<Rightarrow> 's \<Rightarrow> 'b res \<times> 's" where
  "sbind m f s = (case m s of (Inl e, s) \<Rightarrow> (Inl e, s) | (Inr x, s) \<Rightarrow> f x s)"

fun sfold :: "('x \<Rightarrow> 'a \<Rightarrow> 's \<Rightarrow> 'a res \<times> 's) \<Rightarrow> 'x list \<Rightarrow> 'a \<Rightarrow> 's \<Rightarrow> 'a res \<times> 's" where
  "sfold f [] a = (\<lambda>s. (Inr a, s))"
| "sfold f (x # xs) a = sbind (f x a) (sfold f xs)"

definition CheckCancelled :: "'w AsyncLoadCallbacks \<Rightarrow> LoadState \<times> 'w \<Rightarrow> unit res \<times> LoadState \<times> 'w" where
  "CheckCancelled callbacks = (\<lambda>(state, w).
     case IsCancelled callbacks w of
       (True, w) \<Rightarrow>
         (let state = MarkCancelled state in (Inl (Cancelled ''load cancelled''), state, StoreState callbacks state w))
     | (False, w) \<Rightarrow> (Inr (), state, w))"

text \<open>\<open>MarkFailed\<close>, \<open>StoreState\<close> and the return of the status.\<close>

definition FailLoad :: "'w AsyncLoadCallbacks \<Rightarrow> failure \<Rightarrow> LoadState \<times> 'w \<Rightarrow> 'a res \<times> LoadState \<times> 'w" where
  "FailLoad callbacks status = (\<lambda>(state, w).
     let state = MarkFailed status state in (Inl status, state, StoreState callbacks state w))"

definition update_shard :: "u32 \<Rightarrow> (ShardProgress \<Rightarrow> ShardProgress) \<Rightarrow> LoadState \<Rightarrow> LoadState" where
  "update_shard shard_id f state =
     state\<lparr>ls_shards := (ls_shards state)[unat shard_id := f (ls_shards state ! unat shard_id)]\<rparr>"

section \<open>Loading and warming up\<close>

definition shard_ids :: "ForwardIndexOptions \<Rightarrow> u32 list" where
  "shard_ids options = map of_nat [0..<unat (io_shard_count options)]"

definition LoadOneShard ::
    "'fs host \<Rightarrow> (ArtifactSection list \<Rightarrow> ArtifactSection list) \<Rightarrow> 'fs load_world AsyncLoadCallbacks \<Rightarrow> LoadRequest
      \<Rightarrow> MmapSnapshotLoadOptions \<Rightarrow> u32 \<Rightarrow> MmapSnapshotBacking list \<Rightarrow> LoadState \<times> 'fs load_world
      \<Rightarrow> MmapSnapshotBacking list res \<times> LoadState \<times> 'fs load_world" where
  "LoadOneShard ho std_sort callbacks request load_options shard_id backings =
     sbind (CheckCancelled callbacks) (\<lambda>_ (state, w).
     case LoadShard ho std_sort (lw_fs w) (lr_artifact_uri request) shard_id load_options of
       Inl e \<Rightarrow> FailLoad callbacks e (state, w)
     | Inr backing \<Rightarrow>
         (let state = (if ls_artifact_id state = [] then state\<lparr>ls_artifact_id := pa_artifact_id (mb_artifact backing)\<rparr> else state);
              state = (if shard_id = 0 then PopulateSourceProgress (pa_source_progress (mb_artifact backing)) state else state);
              state = update_shard shard_id (\<lambda>p. p\<lparr>sh_loaded := True\<rparr>) state;
              state = state\<lparr>ls_loaded_shard_count := ls_loaded_shard_count state + 1\<rparr>
          in (Inr (backings @ [backing]), state, StoreState callbacks state w)))"

definition PrewarmShard ::
    "'fs host \<Rightarrow> 'fs load_world AsyncLoadCallbacks \<Rightarrow> u32 \<Rightarrow> MmapSnapshotBacking list \<Rightarrow> LoadState \<times> 'fs load_world
      \<Rightarrow> MmapSnapshotBacking list res \<times> LoadState \<times> 'fs load_world" where
  "PrewarmShard ho callbacks shard_id backings =
     sbind (CheckCancelled callbacks) (\<lambda>_ (state, w).
     case Prewarm ho (backings ! unat shard_id) of
       (Inl e, b) \<Rightarrow> FailLoad callbacks e (state, w)
     | (Inr _, b) \<Rightarrow>
         (let state = update_shard shard_id (\<lambda>p. p\<lparr>sh_prewarmed := True\<rparr>) state;
              state = state\<lparr>ls_prewarmed_shard_count := ls_prewarmed_shard_count state + 1\<rparr>
          in (Inr (backings[unat shard_id := b]), state, StoreState callbacks state w)))"

definition load_options_of :: "ForwardIndexOptions \<Rightarrow> MmapSnapshotLoadOptions" where
  "load_options_of options =
     \<lparr>ml_expected_shard_count = io_shard_count options, ml_expected_hash_seed = io_hash_seed options,
      ml_expected_hash_version = io_hash_version options,
      ml_source_progress_policy = (if \<not> ForwardIndexModeUsesKafkaRealtime (io_mode options) then kOptional else kRequired)\<rparr>"

text \<open>The checks of the request, and all shards loaded and then warmed up.\<close>

definition PrepareShards ::
    "'fs host \<Rightarrow> (ArtifactSection list \<Rightarrow> ArtifactSection list) \<Rightarrow> LoadRequest \<Rightarrow> ForwardIndexOptions
      \<Rightarrow> 'fs load_world AsyncLoadCallbacks \<Rightarrow> LoadState \<times> 'fs load_world
      \<Rightarrow> MmapSnapshotBacking list res \<times> LoadState \<times> 'fs load_world" where
  "PrepareShards ho std_sort request options callbacks = (\<lambda>s.
     if lr_artifact_uri request = [] then FailLoad callbacks (InvalidArgument ''artifact uri is empty'') s
     else if cb_publish_shard callbacks = None
     then FailLoad callbacks (FailedPrecondition ''artifact load has no publish callback'') s
     else
       sbind (CheckCancelled callbacks) (\<lambda>_ (state, w).
         let state = state\<lparr>ls_total_shard_count := io_shard_count options,
                           ls_shards := ls_shards state @ map (\<lambda>shard_id.
                             \<lparr>sh_shard_id = shard_id, sh_loaded = False, sh_prewarmed = False,
                              sh_cutover = False, sh_message = []\<rparr>) (shard_ids options)\<rparr>
         in sbind (sfold (LoadOneShard ho std_sort callbacks request (load_options_of options)) (shard_ids options) [])
              (sfold (PrewarmShard ho callbacks) (shard_ids options)) (state, w)) s)"

section \<open>Cutover\<close>

definition CutoverShard ::
    "'fs load_world AsyncLoadCallbacks \<Rightarrow> LoadId \<Rightarrow> (u32 \<Rightarrow> Layers) \<Rightarrow> u32 \<Rightarrow> unit \<Rightarrow> LoadState \<times> 'fs load_world
      \<Rightarrow> unit res \<times> LoadState \<times> 'fs load_world" where
  "CutoverShard callbacks lid layers shard_id = (\<lambda>_.
     sbind (CheckCancelled callbacks) (\<lambda>_ (state, w).
     case cb_publish_shard callbacks of
       None \<Rightarrow> (Inl (Throw ''bad_function_call''), state, w)
     | Some publish \<Rightarrow>
         (case publish shard_id (Some (NewShardState shard_id lid (layers shard_id))) w of
            (Inl e, w) \<Rightarrow> FailLoad callbacks e (state, w)
          | (Inr _, w) \<Rightarrow>
              (let state = update_shard shard_id (\<lambda>p. p\<lparr>sh_cutover := True\<rparr>) state;
                   state = state\<lparr>ls_cutover_shard_count := ls_cutover_shard_count state + 1\<rparr>
               in (Inr (), state, StoreState callbacks state w)))))"

text \<open>The publication of all shards and the final state.\<close>

definition CutoverShards ::
    "'fs load_world AsyncLoadCallbacks \<Rightarrow> LoadId \<Rightarrow> ForwardIndexOptions \<Rightarrow> (u32 \<Rightarrow> Layers) \<Rightarrow> LoadState \<times> 'fs load_world
      \<Rightarrow> unit res \<times> LoadState \<times> 'fs load_world" where
  "CutoverShards callbacks lid options layers =
     sbind (sfold (CutoverShard callbacks lid layers) (shard_ids options) ()) (\<lambda>_ (state, w).
     let state = state\<lparr>ls_code := kSucceeded, ls_terminal := True, ls_message := ''artifact load succeeded''\<rparr>
     in (Inr (), state, StoreState callbacks state w))"

definition full_layers :: "MmapSnapshotBacking list \<Rightarrow> u32 \<Rightarrow> Layers" where
  "full_layers backings shard_id =
     \<lparr>ly_realtime_delta = None, ly_compact_delta = None,
      ly_full_snapshot = Some (NewFullSnapshotView (Some (mmap_backing (backings ! unat shard_id))))\<rparr>"

definition realtime_layers :: "MmapSnapshotBacking list \<Rightarrow> table_ptr option list \<Rightarrow> u32 \<Rightarrow> Layers" where
  "realtime_layers backings realtime_shards shard_id =
     (full_layers backings shard_id)\<lparr>ly_realtime_delta :=
        (if realtime_shards \<noteq> [] then realtime_shards ! unat shard_id else None)\<rparr>"

section \<open>Catching up\<close>

text \<open>New tables get the next addresses.\<close>

definition CreateRealtimeShards ::
    "CompiledRowLayout option \<Rightarrow> ForwardIndexOptions \<Rightarrow> 'fs load_world \<Rightarrow> table_ptr option list \<times> 'fs load_world" where
  "CreateRealtimeShards layout options w =
     (let n = unat (io_shard_count options); p = lw_next_table w;
          table = NewRealtimeDeltaAtomicTable layout 1024 (io_hash_seed options) (io_hash_version options)
      in (map Some [p..<p + n],
          w\<lparr>lw_tables := (\<lambda>q. if p \<le> q \<and> q < p + n then table else lw_tables w q), lw_next_table := p + n\<rparr>))"

record ('c, 'w) ProductionCatchUpRunner =
  pr_consumer :: "'c KafkaUpdateConsumer"
  pr_client_state :: 'c
  pr_request :: "'w AsyncCatchUpRequest"
  pr_applier :: "UpdateApplierOptions option"
  pr_coordinator :: "UpdateCoordinatorOptions option"

definition empty_request :: "'w AsyncCatchUpRequest" where
  "empty_request = \<lparr>cu_load_id = 0, cu_checkpoint = \<lparr>kk_next_offsets = []\<rparr>, cu_safe_progress = \<lparr>pg_partitions = []\<rparr>,
     cu_hash_seed = 0, cu_hash_version = 1, cu_layout = None, cu_realtime_shards = [], cu_cancellation_requested = None\<rparr>"

definition pr_Start ::
    "'w AsyncCatchUpRequest \<Rightarrow> ('c, 'w) ProductionCatchUpRunner \<Rightarrow> 'w \<Rightarrow> unit res \<times> ('c, 'w) ProductionCatchUpRunner \<times> 'w" where
  "pr_Start request r w =
     (let r = r\<lparr>pr_request := request\<rparr> in
      case pg_partitions (cu_safe_progress request) of
        [] \<Rightarrow> (Inl (FailedPrecondition ''catch-up safe progress is empty''), r, w)
      | first # _ \<Rightarrow>
          (case ku_Seek (pr_consumer r) (cu_checkpoint request) (pr_client_state r) of
             (Inl e, c) \<Rightarrow> (Inl e, r\<lparr>pr_client_state := c\<rparr>, w)
           | (Inr _, c) \<Rightarrow>
               (let logical_topic = kp_topic (pp_partition first) in
                (Inr (), r\<lparr>pr_client_state := c,
                   pr_applier := Some \<lparr>ua_logical_topic = logical_topic, ua_targets =
                     [\<lparr>ut_role = kRebuild, ut_generation_id = cu_load_id request,
                       ut_shard_count = length (cu_realtime_shards request), ut_hash_seed = cu_hash_seed request,
                       ut_hash_version = cu_hash_version request, ut_layout = cu_layout request,
                       ut_realtime_shards = cu_realtime_shards request\<rparr>]\<rparr>,
                   pr_coordinator := Some \<lparr>co_logical_topic = logical_topic,
                     co_poll_options = \<lparr>po_timeout_ms = 100, po_max_messages = 128\<rparr>\<rparr>\<rparr>, w))))"

definition not_started :: failure where
  "not_started = FailedPrecondition ''catch-up runner has not started''"

definition pr_CaptureSafeProgress ::
    "('c, 'w) ProductionCatchUpRunner \<Rightarrow> 'w \<Rightarrow> KafkaProgress res \<times> ('c, 'w) ProductionCatchUpRunner \<times> 'w" where
  "pr_CaptureSafeProgress r w =
     (case pr_coordinator r of
        None \<Rightarrow> (Inl not_started, r, w)
      | Some _ \<Rightarrow>
          (case ku_Progress (pr_consumer r) (pr_client_state r) of (res, c) \<Rightarrow> (res, r\<lparr>pr_client_state := c\<rparr>, w)))"

definition pr_PollApplyCommitOnce ::
    "('c, 'fs load_world) ProductionCatchUpRunner \<Rightarrow> 'fs load_world
      \<Rightarrow> unit res \<times> ('c, 'fs load_world) ProductionCatchUpRunner \<times> 'fs load_world" where
  "pr_PollApplyCommitOnce r w =
     (case pr_coordinator r of
        None \<Rightarrow> (Inl not_started, r, w)
      | Some coordinator \<Rightarrow>
          if (case cu_cancellation_requested (pr_request r) of None \<Rightarrow> False | Some load \<Rightarrow> load w)
          then (Inl (Cancelled ''catch-up cancelled''), r, w)
          else
            (case PollApplyCommitOnce (Some (pr_consumer r)) (pr_applier r) coordinator (pr_client_state r, lw_tables w) of
               (res, c, h) \<Rightarrow> (res, r\<lparr>pr_client_state := c\<rparr>, w\<lparr>lw_tables := h\<rparr>)))"

definition production_runner :: "(('c, 'fs load_world) ProductionCatchUpRunner, 'fs load_world) AsyncCatchUpRunner" where
  "production_runner = \<lparr>cr_Start = pr_Start, cr_CaptureSafeProgress = pr_CaptureSafeProgress,
     cr_PollApplyCommitOnce = pr_PollApplyCommitOnce\<rparr>"

text \<open>A factory that a test has set takes the place of the production runner.\<close>

definition SetAsyncCatchUpRunnerFactoryForTesting :: "'f option \<Rightarrow> 'f option \<Rightarrow> 'f option \<times> 'f option" where
  "SetAsyncCatchUpRunnerFactoryForTesting factory current = (current, factory)"

definition CreateCatchUpRunner ::
    "(('k, 'fs load_world) ProductionCatchUpRunner, 'fs load_world) AsyncCatchUpRunnerFactory option \<Rightarrow> 'k rdkafka
      \<Rightarrow> (('k, 'fs load_world) ProductionCatchUpRunner, 'fs load_world) AsyncCatchUpRunnerFactory" where
  "CreateCatchUpRunner factory_for_testing api options =
     (case factory_for_testing of
        Some factory \<Rightarrow> factory options
      | None \<Rightarrow>
          (let config = io_kafka_consumer options in
           if kc_bootstrap_servers config = [] \<or> kc_group_id config = [] \<or> kc_topics config = []
           then Inl (FailedPrecondition ''catch-up required but no production Kafka consumer can be started'')
           else
             rbind (ku_Create api config) (\<lambda>(consumer, k).
             Inr (production_runner, \<lparr>pr_consumer = consumer, pr_client_state = k, pr_request = empty_request,
                                      pr_applier = None, pr_coordinator = None\<rparr>))))"

text \<open>What the runner has seen becomes the progress of the load.\<close>

definition ObserveProgress ::
    "('r, 'w) AsyncCatchUpRunner \<Rightarrow> 'w AsyncLoadCallbacks \<Rightarrow> KafkaProgress \<Rightarrow> LoadState \<Rightarrow> 'r \<Rightarrow> 'w
      \<Rightarrow> unit res \<times> LoadState \<times> 'r \<times> 'w" where
  "ObserveProgress runner callbacks target state r w =
     (case cr_CaptureSafeProgress runner r w of
        (observed, r, w) \<Rightarrow>
          (case rbind observed (UpdateObservedSafeProgress target) of
             Inl e \<Rightarrow> (case FailLoad callbacks e (state, w) of (res, state, w) \<Rightarrow> (res, state, r, w))
           | Inr safe_progress \<Rightarrow>
               (let state = state\<lparr>ls_source_progress := safe_progress\<rparr> in
                (Inr (), state, r, StoreState callbacks state w))))"

text \<open>One round of the loop.\<close>

definition CatchUpRound ::
    "('r, 'w) AsyncCatchUpRunner \<Rightarrow> 'w AsyncLoadCallbacks \<Rightarrow> LoadState \<Rightarrow> 'r \<Rightarrow> 'w \<Rightarrow> unit res \<times> LoadState \<times> 'r \<times> 'w" where
  "CatchUpRound runner callbacks state r w =
     (case CheckCancelled callbacks (state, w) of
        (Inl e, state, w) \<Rightarrow> (Inl e, state, r, w)
      | (Inr _, state, w) \<Rightarrow>
          (case cr_PollApplyCommitOnce runner r w of
             (Inl e, r, w) \<Rightarrow>
               (let (cancelled, w) =
                      (case e of Error code _ \<Rightarrow> if code = kCancelled then (True, w) else IsCancelled callbacks w
                       | _ \<Rightarrow> IsCancelled callbacks w);
                    state = (if cancelled then MarkCancelled state else MarkFailed e state)
                in (Inl e, state, r, StoreState callbacks state w))
           | (Inr _, r, w) \<Rightarrow> ObserveProgress runner callbacks (ls_source_progress state) state r w))"

partial_function (option) CatchUpLoop ::
    "('r, 'w) AsyncCatchUpRunner \<Rightarrow> 'w AsyncLoadCallbacks \<Rightarrow> LoadState \<Rightarrow> 'r \<Rightarrow> 'w
      \<Rightarrow> (unit res \<times> LoadState \<times> 'r \<times> 'w) option" where
  "CatchUpLoop runner callbacks state r w =
     (if \<not> CatchUpRequired (ls_source_progress state) then Some (Inr (), state, r, w)
      else
        (case CatchUpRound runner callbacks state r w of
           (Inl e, state, r, w) \<Rightarrow> Some (Inl e, state, r, w)
         | (Inr _, state, r, w) \<Rightarrow> CatchUpLoop runner callbacks state r w))"

text \<open>From the start of the runner to the first captured progress.\<close>

definition StartCatchUp ::
    "('r, 'fs load_world) AsyncCatchUpRunner \<Rightarrow> 'fs load_world AsyncLoadCallbacks \<Rightarrow> 'fs load_world AsyncCatchUpRequest
      \<Rightarrow> LoadState \<Rightarrow> 'r \<Rightarrow> 'fs load_world \<Rightarrow> unit res \<times> LoadState \<times> 'r \<times> 'fs load_world" where
  "StartCatchUp runner callbacks request state r w =
     (case cr_Start runner request r w of
        (Inl e, r, w) \<Rightarrow> (case FailLoad callbacks e (state, w) of (res, state, w) \<Rightarrow> (res, state, r, w))
      | (Inr _, r, w) \<Rightarrow>
          (case CheckCancelled callbacks (state, w) of
             (Inl e, state, w) \<Rightarrow> (Inl e, state, r, w)
           | (Inr _, state, w) \<Rightarrow> ObserveProgress runner callbacks (cu_safe_progress request) state r w))"

text \<open>\<open>backings.front()\<close> is undefined when there are no shards, which the constructor of the index excludes; the result is then \<open>None\<close>.\<close>

definition CatchUpAndCutover ::
    "('r, 'fs load_world) AsyncCatchUpRunnerFactory \<Rightarrow> LoadId \<Rightarrow> ForwardIndexOptions \<Rightarrow> 'fs load_world AsyncLoadCallbacks
      \<Rightarrow> MmapSnapshotBacking list \<Rightarrow> LoadState \<times> 'fs load_world \<Rightarrow> (unit res \<times> LoadState \<times> 'fs load_world) option" where
  "CatchUpAndCutover create lid options callbacks backings s =
     (case backings of
        [] \<Rightarrow> None
      | front # _ \<Rightarrow>
          (let progress = pa_source_progress (mb_artifact front); layout = pa_layout (mb_artifact front);
               (state, w) = s in
           if progress = [] then Some (FailLoad callbacks (FailedPrecondition ''artifact source progress is empty'') s)
           else
             (let (realtime_shards, w) = CreateRealtimeShards layout options w in
              case create options of
                Inl e \<Rightarrow> Some (FailLoad callbacks e (state, w))
              | Inr (runner, r) \<Rightarrow>
                  (let state = state\<lparr>ls_message := ''artifact catch-up running''\<rparr>;
                       w = StoreState callbacks state w;
                       request = \<lparr>cu_load_id = lid, cu_checkpoint = BuildCheckpoint progress,
                                  cu_safe_progress = BuildSafeProgress progress, cu_hash_seed = io_hash_seed options,
                                  cu_hash_version = io_hash_version options, cu_layout = layout,
                                  cu_realtime_shards = realtime_shards,
                                  cu_cancellation_requested = cb_cancellation_requested callbacks\<rparr> in
                   case StartCatchUp runner callbacks request state r w of
                     (Inl e, state, r, w) \<Rightarrow> Some (Inl e, state, w)
                   | (Inr _, state, r, w) \<Rightarrow>
                       (case CatchUpLoop runner callbacks state r w of
                          None \<Rightarrow> None
                        | Some (Inl e, state, r, w) \<Rightarrow> Some (Inl e, state, w)
                        | Some (Inr _, state, r, w) \<Rightarrow>
                            Some (sbind (CheckCancelled callbacks)
                              (\<lambda>_. CutoverShards callbacks lid options (realtime_layers backings realtime_shards)) (state, w)))))))"

section \<open>The load\<close>

text \<open>The output parameter for the state is \<open>None\<close> for a null pointer.\<close>

definition RunExternalArtifactLoad ::
    "'fs host \<Rightarrow> (ArtifactSection list \<Rightarrow> ArtifactSection list) \<Rightarrow> ('r, 'fs load_world) AsyncCatchUpRunnerFactory
      \<Rightarrow> LoadRequest \<Rightarrow> LoadId \<Rightarrow> ForwardIndexOptions \<Rightarrow> 'fs load_world AsyncLoadCallbacks \<Rightarrow> LoadState option
      \<Rightarrow> 'fs load_world \<Rightarrow> (unit res \<times> LoadState option \<times> 'fs load_world) option" where
  "RunExternalArtifactLoad ho std_sort create request lid options callbacks state w =
     (case state of
        None \<Rightarrow> Some (Inl (InvalidArgument ''load state output is null''), None, w)
      | Some _ \<Rightarrow>
          (let state = LoadState_of lid kRunning False (lr_artifact_uri request) (lr_artifact_id request) [] [];
               w = StoreState callbacks state w in
           map_option (\<lambda>(res, state, w). (res, Some state, w))
             (case PrepareShards ho std_sort request options callbacks (state, w) of
                (Inl e, state, w) \<Rightarrow> Some (Inl e, state, w)
              | (Inr backings, state, w) \<Rightarrow>
                  if \<not> ForwardIndexModeUsesKafkaRealtime (io_mode options)
                  then Some (CutoverShards callbacks lid options (full_layers backings)
                         (state\<lparr>ls_source_progress := \<lparr>pg_partitions = []\<rparr>\<rparr>, w))
                  else CatchUpAndCutover create lid options callbacks backings (state, w))))"

text \<open>
  The callbacks that the index passes to the worker of load \<open>lid\<close> (\<open>ForwardIndex::LoadAsync\<close>). What other threads have
  done to the world since the last look at the cancellation flag is \<open>env\<close>.
\<close>

definition cancel_requested :: "LoadId \<Rightarrow> 'fs load_world \<Rightarrow> bool" where
  "cancel_requested lid w \<longleftrightarrow> fi_load_cancellations (lw_index w) lid = Some True"

definition index_callbacks :: "('fs load_world \<Rightarrow> 'fs load_world) \<Rightarrow> LoadId \<Rightarrow> 'fs load_world AsyncLoadCallbacks" where
  "index_callbacks env lid =
     \<lparr>cb_publish_shard = Some (\<lambda>shard_id state w.
        case publish_shard shard_id state (lw_index w) of (res, fi) \<Rightarrow> (res, w\<lparr>lw_index := fi\<rparr>)),
      cb_store_state = Some (\<lambda>state w. w\<lparr>lw_index := store_state lid state (lw_index w)\<rparr>),
      cb_is_cancelled = Some (\<lambda>w. let w = env w in (cancel_requested lid w, w)),
      cb_cancellation_requested = Some (cancel_requested lid)\<rparr>"

section \<open>Specifications\<close>

text \<open>The outcome of a step: what holds of its value and the state after it, and what holds of the state after an error.\<close>

definition outcome :: "('a \<Rightarrow> 's \<Rightarrow> bool) \<Rightarrow> ('s \<Rightarrow> bool) \<Rightarrow> 'a res \<times> 's \<Rightarrow> bool" where
  "outcome P Q r \<longleftrightarrow> (case r of (Inl e, s) \<Rightarrow> Q s | (Inr a, s) \<Rightarrow> P a s)"

definition directory :: "'fs load_world \<Rightarrow> ShardDirectory" where
  "directory w = fi_shard_directory (lw_index w)"

text \<open>How far a load has come, and the end of a load that does not succeed.\<close>

definition load_counts :: "LoadState \<Rightarrow> u32 \<times> u32 \<times> u32" where
  "load_counts st = (ls_loaded_shard_count st, ls_prewarmed_shard_count st, ls_cutover_shard_count st)"

definition halted :: "LoadState \<Rightarrow> bool" where
  "halted st \<longleftrightarrow> ls_terminal st \<and> ls_code st \<in> {kFailed, kLoadCancelled}"

text \<open>Backings of the shards of the artifact, each as some \<open>LoadShard\<close> has given it.\<close>

definition loaded_from ::
    "'fs host \<Rightarrow> (ArtifactSection list \<Rightarrow> ArtifactSection list) \<Rightarrow> string \<Rightarrow> MmapSnapshotLoadOptions \<Rightarrow> MmapSnapshotBacking list \<Rightarrow> bool" where
  "loaded_from ho std_sort uri opts backings \<longleftrightarrow> (\<forall>i < length backings. \<exists>fs mb. LoadShard ho std_sort fs uri (of_nat i) opts = Inr mb
     \<and> mmap_backing (backings ! i) = mmap_backing mb \<and> mb_artifact (backings ! i) = mb_artifact mb)"

text \<open>A directory whose first \<open>i\<close> shards have been replaced.\<close>

definition cut_over :: "LoadId \<Rightarrow> (u32 \<Rightarrow> Layers) \<Rightarrow> nat \<Rightarrow> ShardDirectory \<Rightarrow> ShardDirectory \<Rightarrow> bool" where
  "cut_over lid layers i d d' \<longleftrightarrow> sd_shard_count d' = sd_shard_count d \<and> length (sd_shards d') = length (sd_shards d)
     \<and> (\<forall>j < length (sd_shards d). sd_shards d' ! j =
          (if j < i then Some (NewShardState (of_nat j) lid (layers (of_nat j))) else sd_shards d ! j))"

text \<open>
  What a load has done by its end: shards \<open>0..<c\<close> are new, the others as before. Nothing is published before all shards have
  been loaded and warmed up and, with Kafka, have caught up.
\<close>

definition load_result ::
    "'fs host \<Rightarrow> (ArtifactSection list \<Rightarrow> ArtifactSection list) \<Rightarrow> LoadRequest \<Rightarrow> LoadId \<Rightarrow> ForwardIndexOptions
      \<Rightarrow> ShardDirectory \<Rightarrow> unit res \<Rightarrow> LoadState \<Rightarrow> ShardDirectory \<Rightarrow> bool" where
  "load_result ho std_sort request lid options d res st d' \<longleftrightarrow>
     (let n = unat (io_shard_count options); c = unat (ls_cutover_shard_count st) in
      ls_terminal st \<and> c \<le> n \<and> (if res = Inr () then ls_code st = kSucceeded \<and> c = n else ls_code st \<in> {kFailed, kLoadCancelled})
      \<and> (\<exists>layers. cut_over lid layers c d d'
          \<and> (0 < c \<longrightarrow> ls_loaded_shard_count st = io_shard_count options \<and> ls_prewarmed_shard_count st = io_shard_count options
              \<and> (ForwardIndexModeUsesKafkaRealtime (io_mode options) \<longrightarrow> \<not> CatchUpRequired (ls_source_progress st))
              \<and> (\<exists>backings. length backings = n
                  \<and> loaded_from ho std_sort (lr_artifact_uri request) (load_options_of options) backings
                  \<and> (\<forall>b \<in> set backings. mb_prewarmed b)
                  \<and> (if ForwardIndexModeUsesKafkaRealtime (io_mode options)
                     then \<exists>p. layers = realtime_layers backings (map Some [p..<p + n])
                     else layers = full_layers backings)))))"

text \<open>The load up to the end of the cutover with Kafka.\<close>

definition caught_up ::
    "LoadId \<Rightarrow> (u32 \<Rightarrow> Layers) \<Rightarrow> nat \<Rightarrow> u32 \<times> u32 \<Rightarrow> ShardDirectory \<Rightarrow> unit res \<Rightarrow> LoadState \<Rightarrow> ShardDirectory \<Rightarrow> bool" where
  "caught_up lid layers n counts d res st d' \<longleftrightarrow>
     (\<exists>i \<le> n. cut_over lid layers i d d' \<and> load_counts st = (fst counts, snd counts, of_nat i)
        \<and> (0 < i \<longrightarrow> \<not> CatchUpRequired (ls_source_progress st))
        \<and> (if res = Inr () then ls_terminal st \<and> ls_code st = kSucceeded \<and> i = n else halted st))"

section \<open>Sequences of steps\<close>

lemma outcome_simps [simp]:
  "outcome P Q (Inr a, s) \<longleftrightarrow> P a s" "outcome P Q (Inl e, s) \<longleftrightarrow> Q s"
  by (simp_all add: outcome_def)

lemma outcome_mono:
  assumes "outcome P Q r" and "\<And>a s. P a s \<Longrightarrow> P' a s" and "\<And>s. Q s \<Longrightarrow> Q' s"
  shows "outcome P' Q' r"
  using assms by (auto simp: outcome_def split: sum.splits prod.splits)

lemma outcome_sbind:
  assumes "outcome R Q (m s)" and "\<And>a s'. R a s' \<Longrightarrow> outcome P Q (f a s')"
  shows "outcome P Q (sbind m f s)"
proof -
  obtain r s' where m: "m s = (r, s')" by fastforce
  then show ?thesis using assms by (cases r) (auto simp: sbind_def)
qed

lemma sfold_append: "sfold f (xs @ ys) a = sbind (sfold f xs a) (sfold f ys)"
  by (induction xs arbitrary: a) (auto simp: sbind_def fun_eq_iff split: sum.splits prod.splits)

lemma outcome_shard_ids:
  assumes "P 0 a s" and "\<And>i a s. i < unat (io_shard_count options) \<Longrightarrow> P i a s \<Longrightarrow> outcome (P (Suc i)) Q (f (of_nat i) a s)"
  shows "outcome (P (unat (io_shard_count options))) Q (sfold f (shard_ids options) a s)"
proof -
  have "outcome (P n) Q (sfold f (map of_nat [0..<n]) a s)" if "n \<le> unat (io_shard_count options)" for n
    using that
  proof (induction n)
    case (Suc n)
    then have "outcome (P n) Q (sfold f (map of_nat [0..<n]) a s)" by simp
    then have "outcome (P (Suc n)) Q (sbind (sfold f (map of_nat [0..<n]) a) (sfold f [of_nat n]) s)"
    proof (rule outcome_sbind)
      fix a' s' assume "P n a' s'"
      then have "outcome (P (Suc n)) Q (f (of_nat n) a' s')" using assms(2) Suc.prems by simp
      then show "outcome (P (Suc n)) Q (sfold f [of_nat n] a' s')" by (auto simp: sbind_def outcome_def split: sum.splits prod.splits)
    qed
    then show ?case by (simp add: sfold_append del: sfold.simps)
  qed (simp add: assms(1))
  then show ?thesis by (simp add: shard_ids_def)
qed

lemma unat_shard_id:
  assumes "i < unat (n :: u32)"
  shows "unat (of_nat i :: u32) = i"
  using less_trans [OF assms unsigned_less] by (simp add: unat_of_nat)

lemma cut_over_publish:
  assumes c: "cut_over lid layers i d d1" and p: "sd_Publish d1 (of_nat i) (Some (NewShardState (of_nat i) lid (layers (of_nat i)))) = (r, d2)"
    and ok: "sd_ok d" "i < unat (sd_shard_count d)"
  shows "r = Inr ()" and "cut_over lid layers (Suc i) d d2"
proof -
  note u = unat_shard_id [OF ok(2)]
  have "\<not> of_nat i \<ge> sd_shard_count d1" using c ok(2) by (auto simp: cut_over_def word_le_nat_alt u)
  with p have "r = Inr () \<and> d2 = d1\<lparr>sd_shards := (sd_shards d1)[i := Some (NewShardState (of_nat i) lid (layers (of_nat i)))]\<rparr>"
    by (auto simp: sd_Publish_def u)
  with c ok show "r = Inr ()" "cut_over lid layers (Suc i) d d2"
    by (auto simp: cut_over_def nth_list_update sd_ok_def less_Suc_eq)
qed

lemma cut_over_0 [simp]: "cut_over lid layers 0 d d"
  by (simp add: cut_over_def)

section \<open>The contract of the callbacks\<close>

text \<open>
  Only the publication of a shard changes the shard directory, and it does what the directory does.
\<close>

locale load_callbacks =
  fixes cb :: "'fs load_world AsyncLoadCallbacks"
  assumes store: "directory (StoreState cb st w) = directory w"
    and poll: "IsCancelled cb w = (b, w') \<Longrightarrow> directory w' = directory w"
    and callable: "cb_publish_shard cb \<noteq> None"
    and publish: "cb_publish_shard cb = Some p \<Longrightarrow> p i s w = (r, w') \<Longrightarrow> sd_Publish (directory w) i s = (r, directory w')"
begin

lemma check:
  "outcome (\<lambda>_ (st', w'). st' = st \<and> directory w' = directory w)
     (\<lambda>(st', w'). halted st' \<and> load_counts st' = load_counts st \<and> ls_source_progress st' = ls_source_progress st \<and> directory w' = directory w)
     (CheckCancelled cb (st, w))"
proof -
  obtain b w1 where w1: "IsCancelled cb w = (b, w1)" by fastforce
  then show ?thesis using poll [OF w1] store
    by (cases b) (auto simp: CheckCancelled_def MarkCancelled_def halted_def load_counts_def Let_def)
qed

lemma fails:
  "outcome P (\<lambda>(st', w'). halted st' \<and> load_counts st' = load_counts st \<and> ls_source_progress st' = ls_source_progress st \<and> directory w' = directory w)
     (FailLoad cb e (st, w))"
  using store by (simp add: FailLoad_def MarkFailed_def halted_def load_counts_def Let_def)

lemma checked:
  assumes "\<And>w'. directory w' = directory w \<Longrightarrow> outcome P Q (f () (st, w'))"
    and "\<And>st' w'. halted st' \<Longrightarrow> load_counts st' = load_counts st \<Longrightarrow> ls_source_progress st' = ls_source_progress st
      \<Longrightarrow> directory w' = directory w \<Longrightarrow> Q (st', w')"
  shows "outcome P Q (sbind (CheckCancelled cb) f (st, w))"
proof (rule outcome_sbind)
  show "outcome (\<lambda>_ (st', w'). st' = st \<and> directory w' = directory w) Q (CheckCancelled cb (st, w))"
    by (rule outcome_mono [OF check]) (use assms(2) in auto)
qed (use assms(1) in auto)

lemma failed:
  assumes "\<And>st' w'. halted st' \<Longrightarrow> load_counts st' = load_counts st \<Longrightarrow> ls_source_progress st' = ls_source_progress st
      \<Longrightarrow> directory w' = directory w \<Longrightarrow> Q (st', w')"
  shows "outcome P Q (FailLoad cb e (st, w))"
  by (rule outcome_mono [OF fails]) (use assms in auto)

lemma prepare_shards:
  assumes n: "n = unat (io_shard_count options)" and st: "load_counts st = (0, 0, 0)"
  shows "outcome (\<lambda>backings (st', w'). directory w' = directory w \<and> load_counts st' = (io_shard_count options, io_shard_count options, 0)
       \<and> length backings = n \<and> loaded_from ho std_sort (lr_artifact_uri request) (load_options_of options) backings
       \<and> (\<forall>b \<in> set backings. mb_prewarmed b))
     (\<lambda>(st', w'). directory w' = directory w \<and> halted st' \<and> ls_cutover_shard_count st' = 0)
     (PrepareShards ho std_sort request options cb (st, w))"
    (is "outcome ?ready ?bad _")
proof -
  let ?uri = "lr_artifact_uri request" and ?opts = "load_options_of options"
  have bad: "?bad (st', w')" if "halted st'" "load_counts st' = load_counts st1" "directory w' = directory w" "ls_cutover_shard_count st1 = 0"
    for st1 st' w' using that by (simp add: load_counts_def)
  define P where "P i backings = (\<lambda>(st', w' :: 'fs load_world). directory w' = directory w \<and> load_counts st' = (of_nat i, 0, 0)
     \<and> length backings = i \<and> loaded_from ho std_sort ?uri ?opts backings)" for i backings
  define R where "R i backings = (\<lambda>(st', w' :: 'fs load_world). directory w' = directory w \<and> load_counts st' = (of_nat n, of_nat i, 0)
     \<and> length backings = n \<and> loaded_from ho std_sort ?uri ?opts backings \<and> (\<forall>j < i. mb_prewarmed (backings ! j)))" for i backings
  have load: "outcome (P (Suc i)) ?bad (LoadOneShard ho std_sort cb request ?opts (of_nat i) backings s)"
    if i: "i < n" "P i backings s" for i backings s
  proof -
    obtain st1 w1 where s: "s = (st1, w1)" by fastforce
    have u: "of_nat (Suc i) = (of_nat i :: u32) + 1" by simp
    show ?thesis unfolding LoadOneShard_def s
    proof (rule checked, goal_cases)
      case (1 w2)
      show ?case
      proof (cases "LoadShard ho std_sort (lw_fs w2) ?uri (of_nat i) ?opts")
        case (Inl e)
        show ?thesis using i 1 s Inl by (auto intro!: failed simp: P_def load_counts_def)
      next
        case (Inr b)
        have "loaded_from ho std_sort ?uri ?opts (backings @ [b])"
          using i Inr by (auto simp: s P_def loaded_from_def nth_append less_Suc_eq)
        then show ?thesis using i 1 Inr
          by (simp add: s P_def store load_counts_def Let_def PopulateSourceProgress_def update_shard_def)
      qed
    qed (use i in \<open>auto simp: s P_def load_counts_def\<close>)
  qed
  have warm: "outcome (R (Suc i)) ?bad (PrewarmShard ho cb (of_nat i) backings s)" if i: "i < n" "R i backings s" for i backings s
  proof -
    obtain st1 w1 where s: "s = (st1, w1)" by fastforce
    have u: "unat (of_nat i :: u32) = i" using i(1) unfolding n by (rule unat_shard_id)
    obtain b where b: "Prewarm ho (backings ! i) = (Inr (), b)" "mb_prewarmed b" "mmap_backing b = mmap_backing (backings ! i)"
      "mb_artifact b = mb_artifact (backings ! i)"
      using prewarm_touches_every_page [of ho "backings ! i"] by (auto simp: Prewarm_def)
    have "loaded_from ho std_sort ?uri ?opts (backings[i := b])"
      using i b by (auto simp: s R_def loaded_from_def nth_list_update)
    moreover have "\<forall>j < Suc i. mb_prewarmed (backings[i := b] ! j)" using i b by (auto simp: s R_def nth_list_update less_Suc_eq)
    ultimately show ?thesis unfolding PrewarmShard_def s u
      by (intro checked) (use i b in \<open>auto simp: s R_def store load_counts_def Let_def update_shard_def u\<close>)
  qed
  have all: "outcome ?ready ?bad (sbind (sfold (LoadOneShard ho std_sort cb request ?opts) (shard_ids options) [])
      (sfold (PrewarmShard ho cb) (shard_ids options)) (st', w'))" if s: "load_counts st' = (0, 0, 0)" "directory w' = directory w" for st' w'
  proof (rule outcome_sbind)
    show "outcome (P (unat (io_shard_count options))) ?bad (sfold (LoadOneShard ho std_sort cb request ?opts) (shard_ids options) [] (st', w'))"
    proof (rule outcome_shard_ids)
      show "P 0 [] (st', w')" using s by (simp add: P_def loaded_from_def)
    qed (rule load [unfolded n])
    show "outcome ?ready ?bad (sfold (PrewarmShard ho cb) (shard_ids options) backings s')"
      if "P (unat (io_shard_count options)) backings s'" for backings s'
    proof (rule outcome_mono)
      show "outcome (R (unat (io_shard_count options))) ?bad (sfold (PrewarmShard ho cb) (shard_ids options) backings s')"
      proof (rule outcome_shard_ids)
        show "R 0 backings s'" using that by (auto simp: P_def R_def n)
      qed (rule warm [unfolded n])
    qed (auto simp: R_def n in_set_conv_nth)
  qed
  have fail: "outcome ?ready ?bad (FailLoad cb e (st, w))" for e
    by (rule failed) (use st in \<open>auto simp: load_counts_def\<close>)
  show ?thesis
  proof (cases "lr_artifact_uri request = [] \<or> cb_publish_shard cb = None")
    case False
    then have f: "lr_artifact_uri request \<noteq> []" "cb_publish_shard cb \<noteq> None" by blast+
    show ?thesis unfolding PrepareShards_def Let_def if_not_P [OF f(1)] if_not_P [OF f(2)]
    proof (rule checked, goal_cases)
      case (1 w')
      show ?case unfolding prod.case by (rule all) (use st 1 in \<open>simp_all add: load_counts_def\<close>)
    qed (use st in \<open>auto simp: load_counts_def\<close>)
  qed (use fail in \<open>auto simp: PrepareShards_def\<close>)
qed

lemma cutover_shards:
  fixes w :: "'fs load_world"
  assumes d: "sd_shard_count (directory w) = io_shard_count options" "sd_ok (directory w)"
    and st: "load_counts st = (a, b, 0)"
  shows "outcome (\<lambda>_ (st', w'). cut_over lid layers (unat (io_shard_count options)) (directory w) (directory w') \<and> ls_code st' = kSucceeded
       \<and> ls_terminal st' \<and> load_counts st' = (a, b, io_shard_count options) \<and> ls_source_progress st' = ls_source_progress st)
     (\<lambda>(st', w'). \<exists>i \<le> unat (io_shard_count options). cut_over lid layers i (directory w) (directory w') \<and> halted st'
       \<and> load_counts st' = (a, b, of_nat i) \<and> ls_source_progress st' = ls_source_progress st)
     (CutoverShards cb lid options layers (st, w))"
    (is "outcome ?done ?part _")
proof -
  define P where "P i = (\<lambda>_ :: unit. \<lambda>(st', w' :: 'fs load_world). cut_over lid layers i (directory w) (directory w') \<and> load_counts st' = (a, b, of_nat i)
     \<and> ls_source_progress st' = ls_source_progress st)" for i
  have step: "outcome (P (Suc i)) ?part (CutoverShard cb lid layers (of_nat i) u s)"
    if i: "i < unat (io_shard_count options)" "P i u s" for i u s
  proof -
    obtain st1 w1 where s: "s = (st1, w1)" by fastforce
    obtain p where p: "cb_publish_shard cb = Some p" using callable by blast
    show ?thesis unfolding CutoverShard_def s
    proof (rule checked, goal_cases)
      case (1 w2)
      obtain r w3 where r: "p (of_nat i) (Some (NewShardState (of_nat i) lid (layers (of_nat i)))) w2 = (r, w3)" by fastforce
      have "cut_over lid layers i (directory w) (directory w2)" using i(2) 1 by (simp add: P_def s)
      from cut_over_publish [OF this publish [OF p r]] have "r = Inr ()" "cut_over lid layers (Suc i) (directory w) (directory w3)"
        using d i(1) by simp_all
      then show ?case using i(2) by (simp add: p r s P_def store load_counts_def update_shard_def Let_def)
    qed (use i in \<open>auto simp: s P_def intro!: exI [of _ i]\<close>)
  qed
  have "outcome (P (unat (io_shard_count options))) ?part (sfold (CutoverShard cb lid layers) (shard_ids options) () (st, w))"
  proof (rule outcome_shard_ids)
    show "P 0 () (st, w)" using st by (simp add: P_def cut_over_def)
  qed (rule step)
  then show ?thesis unfolding CutoverShards_def
    by (rule outcome_sbind) (auto simp: P_def store load_counts_def Let_def)
qed

end

section \<open>The contract of a runner\<close>

text \<open>A runner leaves the shard directory alone.\<close>

locale catch_up_runner =
  fixes runner :: "('r, 'fs load_world) AsyncCatchUpRunner"
  assumes starts: "cr_Start runner q r w = (res, r', w') \<Longrightarrow> directory w' = directory w"
    and captures: "cr_CaptureSafeProgress runner r w = (seen, r', w') \<Longrightarrow> directory w' = directory w"
    and polls: "cr_PollApplyCommitOnce runner r w = (res, r', w') \<Longrightarrow> directory w' = directory w"

locale background_load = load_callbacks cb + catch_up_runner runner
  for cb :: "'fs load_world AsyncLoadCallbacks" and runner :: "('r, 'fs load_world) AsyncCatchUpRunner"
begin

lemma observe:
  assumes "ObserveProgress runner cb target st r w = (res, st', r', w')"
  shows "directory w' = directory w \<and> load_counts st' = load_counts st \<and> (res \<noteq> Inr () \<longrightarrow> halted st')"
proof -
  obtain seen r1 w1 where c: "cr_CaptureSafeProgress runner r w = (seen, r1, w1)" by (cases "cr_CaptureSafeProgress runner r w") auto
  show ?thesis
    using assms captures [OF c] by (cases "rbind seen (UpdateObservedSafeProgress target)")
      (auto simp: ObserveProgress_def c FailLoad_def MarkFailed_def halted_def load_counts_def store Let_def)
qed

lemma round:
  assumes "CatchUpRound runner cb st r w = (res, st', r', w')"
  shows "directory w' = directory w \<and> load_counts st' = load_counts st \<and> (res \<noteq> Inr () \<longrightarrow> halted st')"
proof -
  obtain c st1 w1 where c: "CheckCancelled cb (st, w) = (c, st1, w1)" by (cases "CheckCancelled cb (st, w)") auto
  note C = check [of st w, unfolded c]
  show ?thesis
  proof (cases c)
    case (Inl e)
    then show ?thesis using assms C by (auto simp: CatchUpRound_def c [unfolded Inl])
  next
    case (Inr u)
    obtain p r2 w2 where p: "cr_PollApplyCommitOnce runner r w1 = (p, r2, w2)" by (cases "cr_PollApplyCommitOnce runner r w1") auto
    note d2 = polls [OF p]
    show ?thesis
    proof (cases p)
      case (Inl e)
      obtain b w3 where b: "IsCancelled cb w2 = (b, w3)" by fastforce
      show ?thesis using assms C Inr Inl d2 poll [OF b]
        by (cases e) (auto simp: CatchUpRound_def c p b Let_def MarkCancelled_def MarkFailed_def halted_def load_counts_def store split: if_splits)
    next
      case (Inr v)
      then show ?thesis using assms C \<open>c = Inr u\<close> d2 observe [of "ls_source_progress st" st r2 w2]
        by (auto simp: CatchUpRound_def c p)
    qed
  qed
qed

lemma loop:
  assumes "CatchUpLoop runner cb st r w = Some (res, st', r', w')"
  shows "directory w' = directory w \<and> load_counts st' = load_counts st
    \<and> (if res = Inr () then \<not> CatchUpRequired (ls_source_progress st') else halted st')"
proof -
  have "runner' = runner \<longrightarrow> cb' = cb \<longrightarrow> directory (snd (snd (snd y))) = directory w \<and> load_counts (fst (snd y)) = load_counts st
      \<and> (if fst y = Inr () then \<not> CatchUpRequired (ls_source_progress (fst (snd y))) else halted (fst (snd y)))"
    if "CatchUpLoop runner' cb' st r w = Some y" for runner' cb' st r w y
    using that
  proof (rule CatchUpLoop.raw_induct [rotated], goal_cases)
    case (1 self runner' cb' st r w y)
    show ?case
    proof (intro impI)
      assume e: "runner' = runner" "cb' = cb"
      obtain res1 st1 r1 w1 where r: "CatchUpRound runner cb st r w = (res1, st1, r1, w1)" by (cases "CatchUpRound runner cb st r w") auto
      note R = round [OF r]
      show "directory (snd (snd (snd y))) = directory w \<and> load_counts (fst (snd y)) = load_counts st
          \<and> (if fst y = Inr () then \<not> CatchUpRequired (ls_source_progress (fst (snd y))) else halted (fst (snd y)))"
      proof (cases "CatchUpRequired (ls_source_progress st)")
        case True
        then show ?thesis using 1(2) R 1(1) [of runner cb st1 r1 w1 y] unfolding e r by (cases res1) auto
      qed (use 1(2) in auto)
    qed
  qed
  from this [OF assms] show ?thesis by (auto split: if_splits)
qed

lemma start_catch_up:
  assumes "StartCatchUp runner cb q st r w = (res, st', r', w')"
  shows "directory w' = directory w \<and> load_counts st' = load_counts st \<and> (res \<noteq> Inr () \<longrightarrow> halted st')"
proof -
  obtain c r1 w1 where s: "cr_Start runner q r w = (c, r1, w1)" by (cases "cr_Start runner q r w") auto
  note d1 = starts [OF s]
  show ?thesis
  proof (cases c)
    case (Inl e)
    then show ?thesis using assms d1
      by (auto simp: StartCatchUp_def s FailLoad_def MarkFailed_def halted_def load_counts_def store Let_def)
  next
    case (Inr u)
    obtain k st2 w2 where k: "CheckCancelled cb (st, w1) = (k, st2, w2)" by (cases "CheckCancelled cb (st, w1)") auto
    note C = check [of st w1, unfolded k]
    show ?thesis using assms Inr C d1 observe [of "cu_safe_progress q" st2 r1 w2]
      by (cases k) (auto simp: StartCatchUp_def s k)
  qed
qed

end


section \<open>The whole load\<close>

lemma caught_up_halted:
  assumes "halted st" and "load_counts st = (a, b, 0)" and "res \<noteq> Inr ()"
  shows "caught_up lid layers n (a, b) d res st d"
  using assms by (auto simp: caught_up_def intro!: exI [of _ 0])

context background_load
begin

lemma start_loop_cutover:
  fixes w :: "'fs load_world"
  assumes d: "sd_shard_count (directory w) = io_shard_count options" "sd_ok (directory w)"
    and st: "load_counts st = (a, b, 0)"
    and run: "(case StartCatchUp runner cb request st r w of
        (Inl e, st, r, w) \<Rightarrow> Some (Inl e, st, w)
      | (Inr _, st, r, w) \<Rightarrow>
          (case CatchUpLoop runner cb st r w of
             None \<Rightarrow> None
           | Some (Inl e, st, r, w) \<Rightarrow> Some (Inl e, st, w)
           | Some (Inr _, st, r, w) \<Rightarrow>
               Some (sbind (CheckCancelled cb) (\<lambda>_. CutoverShards cb lid options layers) (st, w)))) = Some (res, st', w')"
  shows "caught_up lid layers (unat (io_shard_count options)) (a, b) (directory w) res st' (directory w')"
proof -
  obtain c st1 r1 w1 where s: "StartCatchUp runner cb request st r w = (c, st1, r1, w1)" by (cases "StartCatchUp runner cb request st r w") auto
  note S = start_catch_up [OF s]
  show ?thesis
  proof (cases c)
    case (Inl e)
    then show ?thesis using run S st by (auto simp: s intro!: caught_up_halted)
  next
    case (Inr u)
    then obtain l st2 r2 w2 where l: "CatchUpLoop runner cb st1 r1 w1 = Some (l, st2, r2, w2)"
      using run by (cases "CatchUpLoop runner cb st1 r1 w1") (auto simp: s)
    note L = loop [OF l]
    show ?thesis
    proof (cases l)
      case (Inl e)
      then show ?thesis using run S L st \<open>c = Inr u\<close> by (auto simp: s l intro!: caught_up_halted)
    next
      case (Inr v)
      then have end': "sbind (CheckCancelled cb) (\<lambda>_. CutoverShards cb lid options layers) (st2, w2) = (res, st', w')"
        using run \<open>c = Inr u\<close> by (simp add: s l)
      have d2: "directory w2 = directory w" and c2: "load_counts st2 = (a, b, 0)" and p2: "\<not> CatchUpRequired (ls_source_progress st2)"
        using S L st \<open>c = Inr u\<close> Inr by (auto split: if_splits)
      have "outcome (\<lambda>_ (st', w'). caught_up lid layers (unat (io_shard_count options)) (a, b) (directory w) (Inr ()) st' (directory w'))
        (\<lambda>(st', w'). \<forall>e. caught_up lid layers (unat (io_shard_count options)) (a, b) (directory w) (Inl e) st' (directory w'))
        (sbind (CheckCancelled cb) (\<lambda>_. CutoverShards cb lid options layers) (st2, w2))"
      proof (rule checked, goal_cases)
        case (1 w3)
        show ?case
          by (rule outcome_mono [OF cutover_shards [where a = a and b = b]]) (use 1 d d2 c2 p2 in \<open>auto simp: caught_up_def\<close>)
      qed (use c2 d2 in \<open>auto intro: caught_up_halted\<close>)
      then show ?thesis unfolding end' by (cases res) auto
    qed
  qed
qed

end

context load_callbacks
begin

lemma catch_up_and_cutover:
  fixes w :: "'fs load_world"
  assumes runners: "\<And>runner r. create options = Inr (runner, r) \<Longrightarrow> catch_up_runner runner"
    and d: "sd_shard_count (directory w) = io_shard_count options" "sd_ok (directory w)"
    and st: "load_counts st = (a, b, 0)"
    and run: "CatchUpAndCutover create lid options cb backings (st, w) = Some (res, st', w')"
    and n: "n = unat (io_shard_count options)"
  shows "\<exists>p. caught_up lid (realtime_layers backings (map Some [p..<p + n])) n (a, b) (directory w) res st' (directory w')"
proof -
  obtain front rest where backings: "backings = front # rest" using run by (auto simp: CatchUpAndCutover_def split: list.splits)
  have fail: ?thesis if "FailLoad cb e (st, w1) = (res, st', w')" "directory w1 = directory w" for e w1
    using that st store by (auto simp: FailLoad_def MarkFailed_def halted_def load_counts_def Let_def intro!: exI caught_up_halted)
  define w1 where "w1 = snd (CreateRealtimeShards (pa_layout (mb_artifact front)) options w)"
  have rs: "CreateRealtimeShards (pa_layout (mb_artifact front)) options w = (map Some [lw_next_table w..<lw_next_table w + n], w1)"
    and w1: "directory w1 = directory w"
    by (auto simp: w1_def CreateRealtimeShards_def directory_def n Let_def)
  show ?thesis
  proof (cases "pa_source_progress (mb_artifact front) = []")
    case True
    then show ?thesis using run by (intro fail) (auto simp: CatchUpAndCutover_def backings)
  next
    case False
    show ?thesis
    proof (cases "create options")
      case (Inl e)
      then show ?thesis using run False w1 by (intro fail [of e w1]) (auto simp: CatchUpAndCutover_def backings rs)
    next
      case (Inr rr)
      obtain runner r where rr: "rr = (runner, r)" by fastforce
      then have bg: "background_load cb runner" using runners Inr by (simp add: background_load_def load_callbacks_axioms)
      note run' = run [unfolded CatchUpAndCutover_def backings list.case Let_def prod.case rs if_not_P [OF False] Inr rr sum.case]
      show ?thesis
        using background_load.start_loop_cutover [OF bg _ _ _ run', unfolded store w1] d st by (auto simp: load_counts_def n backings)
    qed
  qed
qed

lemma whole_load:
  fixes w :: "'fs load_world"
  assumes runners: "\<And>runner r. create options = Inr (runner, r) \<Longrightarrow> catch_up_runner runner"
    and d: "sd_shard_count (directory w) = io_shard_count options" "sd_ok (directory w)"
    and run: "RunExternalArtifactLoad ho std_sort create request lid options cb (Some st0) w = Some (res, Some st', w')"
  shows "load_result ho std_sort request lid options (directory w) res st' (directory w')"
proof -
  let ?n = "unat (io_shard_count options)"
  define st where "st = LoadState_of lid kRunning False (lr_artifact_uri request) (lr_artifact_id request) [] []"
  define w1 where "w1 = StoreState cb st w"
  have w1: "directory w1 = directory w" by (simp add: w1_def store)
  have st: "load_counts st = (0, 0, 0)" by (simp add: st_def LoadState_of_def load_counts_def)
  obtain c st2 w2 where p: "PrepareShards ho std_sort request options cb (st, w1) = (c, st2, w2)"
    by (cases "PrepareShards ho std_sort request options cb (st, w1)") auto
  note P = prepare_shards [OF refl st, where options = options and ho = ho and std_sort = std_sort and request = request and w = w1, unfolded p w1]
  have u: "unat (of_nat i :: u32) = i" if "i \<le> ?n" for i
    using le_less_trans [OF that unsigned_less] by (simp add: unat_of_nat)
  show ?thesis
  proof (cases c)
    case (Inl e)
    then show ?thesis using run P
      by (auto simp: RunExternalArtifactLoad_def st_def [symmetric] w1_def [symmetric] p load_result_def halted_def Let_def)
  next
    case (Inr backings)
    with P have B: "length backings = ?n" "loaded_from ho std_sort (lr_artifact_uri request) (load_options_of options) backings"
      "\<forall>b \<in> set backings. mb_prewarmed b" "directory w2 = directory w" "load_counts st2 = (io_shard_count options, io_shard_count options, 0)"
      by auto
    show ?thesis
    proof (cases "ForwardIndexModeUsesKafkaRealtime (io_mode options)")
      case True
      then have "CatchUpAndCutover create lid options cb backings (st2, w2) = Some (res, st', w')"
        using run Inr by (auto simp: RunExternalArtifactLoad_def st_def [symmetric] w1_def [symmetric] p Let_def)
      from catch_up_and_cutover [OF _ _ _ B(5) this refl] obtain q where
        "caught_up lid (realtime_layers backings (map Some [q..<q + ?n])) ?n (io_shard_count options, io_shard_count options) (directory w) res st' (directory w')"
        unfolding B(4) using runners d by blast
      then obtain i where i: "i \<le> ?n" "cut_over lid (realtime_layers backings (map Some [q..<q + ?n])) i (directory w) (directory w')"
        "load_counts st' = (io_shard_count options, io_shard_count options, of_nat i)" "0 < i \<longrightarrow> \<not> CatchUpRequired (ls_source_progress st')"
        "if res = Inr () then ls_terminal st' \<and> ls_code st' = kSucceeded \<and> i = ?n else halted st'" by (auto simp: caught_up_def)
      show ?thesis using True i B(1-3) u [OF i(1)]
        by (auto simp: load_result_def load_counts_def halted_def Let_def split: if_splits)
    next
      case False
      then have "CutoverShards cb lid options (full_layers backings) (st2\<lparr>ls_source_progress := \<lparr>pg_partitions = []\<rparr>\<rparr>, w2) = (res, st', w')"
        using run Inr by (auto simp: RunExternalArtifactLoad_def st_def [symmetric] w1_def [symmetric] p Let_def split: prod.splits)
      moreover have "load_counts (st2\<lparr>ls_source_progress := \<lparr>pg_partitions = []\<rparr>\<rparr>) = (io_shard_count options, io_shard_count options, 0)"
        using B(5) by (simp add: load_counts_def)
      ultimately obtain i where i: "i \<le> ?n" "cut_over lid (full_layers backings) i (directory w) (directory w')"
        "load_counts st' = (io_shard_count options, io_shard_count options, of_nat i)"
        "if res = Inr () then ls_terminal st' \<and> ls_code st' = kSucceeded \<and> i = ?n else halted st'"
        using cutover_shards [of w2 options "st2\<lparr>ls_source_progress := \<lparr>pg_partitions = []\<rparr>\<rparr>" "io_shard_count options" "io_shard_count options" lid "full_layers backings"]
          d B(4) by (cases res) auto
      show ?thesis using False i B(1-3) u [OF i(1)]
        by (auto simp: load_result_def load_counts_def halted_def Let_def split: if_splits)
    qed
  qed
qed

end

text \<open>The callbacks of the index and the production runner.\<close>

lemma index_callbacks_keep:
  assumes "\<And>w. directory (env w) = directory w"
  shows "load_callbacks (index_callbacks env lid)"
  using assms by unfold_locales
    (auto simp: index_callbacks_def StoreState_def IsCancelled_def directory_def store_state_def publish_shard_def Let_def
      split: option.splits prod.splits)

interpretation own_load: load_callbacks "index_callbacks (\<lambda>w. w) lid" for lid
  by (rule index_callbacks_keep) simp

interpretation production: catch_up_runner production_runner
  by unfold_locales
    (auto simp: production_runner_def pr_Start_def pr_CaptureSafeProgress_def pr_PollApplyCommitOnce_def directory_def Let_def
      split: list.splits sum.splits prod.splits option.splits if_splits)

interpretation production_load: background_load "index_callbacks (\<lambda>w. w) lid" production_runner for lid
  by unfold_locales

lemma production_factory:
  assumes "CreateCatchUpRunner None api options = Inr (runner, r)"
  shows "catch_up_runner runner"
  using assms production.catch_up_runner_axioms by (auto simp: CreateCatchUpRunner_def Let_def split: if_splits)

end
