(* ===== verification/Served_Load.thy ===== *)
theory Served_Load
  imports Async_Load
begin

text \<open>
  The guarantees of an asynchronous load as a whole: nothing is published too early, and an artifact that the
  format can express, without defaults in its layout and without empty shards, is served in the end once it is written, when
  nothing disturbs the load.
\<close>

section \<open>Definitions\<close>

text \<open>The index is not asked to cancel load \<open>lid\<close>, which it has in its table.\<close>

definition undisturbed :: "LoadId \<Rightarrow> ForwardIndexOptions \<Rightarrow> 'fs \<Rightarrow> 'fs load_world \<Rightarrow> bool" where
  "undisturbed lid options fs w \<longleftrightarrow> lw_fs w = fs \<and> fi_options (lw_index w) = options \<and> \<not> cancel_requested lid w
     \<and> (\<exists>st. fi_loads (lw_index w) lid = Some st \<and> ls_code st \<noteq> kLoadCancelled)"

text \<open>The thread of a load.\<close>

definition load_worker ::
    "'fs host \<Rightarrow> (ArtifactSection list \<Rightarrow> ArtifactSection list) \<Rightarrow> ('r, 'fs load_world) AsyncCatchUpRunnerFactory
      \<Rightarrow> ('fs load_world \<Rightarrow> 'fs load_world) \<Rightarrow> LoadRequest \<Rightarrow> LoadId \<Rightarrow> 'fs load_world \<Rightarrow> 'fs load_world option" where
  "load_worker ho std_sort create env request lid w =
     map_option (\<lambda>(_, _, w). w\<lparr>lw_index := worker_done lid (lw_index w)\<rparr>)
       (RunExternalArtifactLoad ho std_sort create request lid (fi_options (lw_index w)) (index_callbacks env lid)
          (Some (LoadState_of 0 kLoadUnknown True [] [] [] [])) w)"

definition serve_options :: ForwardIndexOptions where
  "serve_options = \<lparr>io_mode = kFullSnapshotOnly, io_shard_count = 1, io_hash_seed = 3, io_hash_version = 1,
     io_kafka_consumer = \<lparr>kc_bootstrap_servers = [], kc_group_id = [], kc_topics = []\<rparr>\<rparr>"

definition serve_index :: ForwardIndex where
  "serve_index = projr (NewForwardIndex serve_options)"

definition serve_request :: LoadRequest where
  "serve_request = \<lparr>lr_artifact_uri = ''file://d/a'', lr_artifact_id = []\<rparr>"

definition serve_stat :: "string \<Rightarrow> FileKind option" where
  "serve_stat path = (if path = ''d/a'' then Some RegularFile else None)"

definition serve_world :: "'fs \<Rightarrow> 'fs load_world" where
  "serve_world fs = \<lparr>lw_fs = fs, lw_index = snd (LoadAsync serve_stat serve_index serve_request), lw_tables = (\<lambda>_. plain_table),
     lw_next_table = 0\<rparr>"

section \<open>A load that nothing disturbs\<close>

text \<open>While the world is \<open>good\<close> the load is not cancelled and the files stay as they are; only a cancelled state may spoil it.\<close>

locale quiet_load = load_callbacks cb for cb :: "'fs load_world AsyncLoadCallbacks" +
  fixes good :: "'fs load_world \<Rightarrow> bool" and fs :: 'fs
  assumes running: "good w \<Longrightarrow> IsCancelled cb w = (False, w)"
    and stored: "good w \<Longrightarrow> ls_code st \<noteq> kLoadCancelled \<Longrightarrow> good (StoreState cb st w)"
    and published: "cb_publish_shard cb = Some p \<Longrightarrow> p i s w = (r, w') \<Longrightarrow> good w \<Longrightarrow> good w'"
    and files: "good w \<Longrightarrow> lw_fs w = fs"
begin

lemma not_cancelled: "good w \<Longrightarrow> sbind (CheckCancelled cb) f (st, w) = f () (st, w)"
  by (simp add: sbind_def CheckCancelled_def running)

lemma quiet_prepare:
  fixes w :: "'fs load_world"
  assumes w: "good w" and st: "ls_code st = kRunning" and uri: "lr_artifact_uri request \<noteq> []"
    and load: "\<And>i. i < unat (io_shard_count options)
      \<Longrightarrow> LoadShard ho std_sort fs (lr_artifact_uri request) (of_nat i) (load_options_of options) = Inr (mb i)"
  shows "outcome (\<lambda>backings (st', w'). good w' \<and> ls_code st' = kRunning \<and> length backings = unat (io_shard_count options)
       \<and> (\<forall>i < unat (io_shard_count options). mmap_backing (backings ! i) = mmap_backing (mb i))) (\<lambda>_. False)
     (PrepareShards ho std_sort request options cb (st, w))"
    (is "outcome ?ready _ _")
proof -
  let ?n = "unat (io_shard_count options)"
  define P where "P i backings = (\<lambda>(st' :: LoadState, w' :: 'fs load_world). good w' \<and> ls_code st' = kRunning \<and> length backings = i
     \<and> (\<forall>j < i. mmap_backing (backings ! j) = mmap_backing (mb j)))" for i backings
  have loads: "outcome (P (Suc i)) (\<lambda>_. False) (LoadOneShard ho std_sort cb request (load_options_of options) (of_nat i) backings s)"
    if "i < ?n" "P i backings s" for i backings s
    using that load [OF that(1)]
    by (auto simp: P_def LoadOneShard_def not_cancelled files Let_def PopulateSourceProgress_def update_shard_def
        nth_append less_Suc_eq intro!: stored)
  have warms: "outcome (\<lambda>backings. P ?n backings) (\<lambda>_. False) (PrewarmShard ho cb (of_nat i) backings s)"
    if "i < ?n" "P ?n backings s" for i backings s
  proof -
    have u: "unat (of_nat i :: u32) = i" using that(1) by (rule unat_shard_id)
    obtain b where b: "Prewarm ho (backings ! i) = (Inr (), b)" "mmap_backing b = mmap_backing (backings ! i)"
      using prewarm_touches_every_page [of ho "backings ! i"] by (auto simp: Prewarm_def)
    show ?thesis using that b
      by (auto simp: P_def PrewarmShard_def not_cancelled u Let_def update_shard_def nth_list_update intro!: stored)
  qed
  have all: "outcome (P ?n) (\<lambda>_. False) (sbind (sfold (LoadOneShard ho std_sort cb request (load_options_of options)) (shard_ids options) [])
      (sfold (PrewarmShard ho cb) (shard_ids options)) (st', w))" if s: "ls_code st' = kRunning" for st'
  proof (rule outcome_sbind)
    show "outcome (P ?n) (\<lambda>_. False) (sfold (LoadOneShard ho std_sort cb request (load_options_of options)) (shard_ids options) [] (st', w))"
    proof (rule outcome_shard_ids)
      show "P 0 [] (st', w)" using s w by (simp add: P_def)
    qed (rule loads)
    show "outcome (P ?n) (\<lambda>_. False) (sfold (PrewarmShard ho cb) (shard_ids options) backings s')" if "P ?n backings s'" for backings s'
      by (rule outcome_shard_ids [where P = "\<lambda>_. P ?n"]) (use that warms in auto)
  qed
  have "outcome (P ?n) (\<lambda>_. False) (PrepareShards ho std_sort request options cb (st, w))"
    unfolding PrepareShards_def if_not_P [OF uri] if_not_P [OF callable] not_cancelled [OF w] prod.case Let_def
    by (rule all) (use st in simp)
  then show ?thesis by (rule outcome_mono) (auto simp: P_def)
qed

lemma quiet_cutover:
  fixes w :: "'fs load_world"
  assumes d: "sd_shard_count (directory w) = io_shard_count options" "sd_ok (directory w)" and w: "good w" and st: "ls_code st = kRunning"
  shows "outcome (\<lambda>_ (st', w'). ls_code st' = kSucceeded \<and> ls_terminal st' \<and> (\<exists>w2. good w2 \<and> w' = StoreState cb st' w2)
      \<and> cut_over lid layers (unat (io_shard_count options)) (directory w) (directory w')) (\<lambda>_. False)
     (CutoverShards cb lid options layers (st, w))"
proof -
  let ?n = "unat (io_shard_count options)"
  define P where "P i = (\<lambda>_ :: unit. \<lambda>(st' :: LoadState, w' :: 'fs load_world). cut_over lid layers i (directory w) (directory w') \<and> good w'
     \<and> ls_code st' = kRunning)" for i
  have step: "outcome (P (Suc i)) (\<lambda>_. False) (CutoverShard cb lid layers (of_nat i) u s)" if i: "i < ?n" "P i u s" for i u s
  proof -
    obtain st1 w1 where s: "s = (st1, w1)" by fastforce
    obtain p where p: "cb_publish_shard cb = Some p" using callable by blast
    obtain r w2 where r: "p (of_nat i) (Some (NewShardState (of_nat i) lid (layers (of_nat i)))) w1 = (r, w2)" by fastforce
    have c: "cut_over lid layers i (directory w) (directory w1)" and g: "good w1" and k: "ls_code st1 = kRunning"
      using i(2) by (simp_all add: P_def s)
    have r0: "r = Inr ()" and c2: "cut_over lid layers (Suc i) (directory w) (directory w2)"
      using cut_over_publish [OF c publish [OF p r]] d i(1) by simp_all
    show ?thesis using published [OF p r g] c2 k
      by (auto simp: CutoverShard_def s not_cancelled [OF g] p r r0 P_def update_shard_def Let_def store intro!: stored)
  qed
  have "outcome (P ?n) (\<lambda>_. False) (sfold (CutoverShard cb lid layers) (shard_ids options) () (st, w))"
  proof (rule outcome_shard_ids)
    show "P 0 () (st, w)" using w st by (simp add: P_def)
  qed (rule step)
  then show ?thesis unfolding CutoverShards_def
    by (rule outcome_sbind) (auto simp: P_def store Let_def)
qed

lemma quiet_run:
  fixes w :: "'fs load_world"
  assumes d: "sd_shard_count (directory w) = io_shard_count options" "sd_ok (directory w)" and w: "good w"
    and uri: "lr_artifact_uri request \<noteq> []" and mode: "\<not> ForwardIndexModeUsesKafkaRealtime (io_mode options)"
    and load: "\<And>i. i < unat (io_shard_count options)
      \<Longrightarrow> LoadShard ho std_sort fs (lr_artifact_uri request) (of_nat i) (load_options_of options) = Inr (mb i)"
  shows "\<exists>st w2 backings. RunExternalArtifactLoad ho std_sort create request lid options cb (Some st0) w = Some (Inr (), Some st, StoreState cb st w2)
    \<and> good w2 \<and> ls_code st = kSucceeded \<and> ls_terminal st
    \<and> (\<forall>i < unat (io_shard_count options). mmap_backing (backings ! i) = mmap_backing (mb i))
    \<and> cut_over lid (full_layers backings) (unat (io_shard_count options)) (directory w) (directory w2)"
proof -
  let ?n = "unat (io_shard_count options)"
  define st where "st = LoadState_of lid kRunning False (lr_artifact_uri request) (lr_artifact_id request) [] []"
  define w1 where "w1 = StoreState cb st w"
  have st: "load_counts st = (0, 0, 0)" "ls_code st = kRunning" by (simp_all add: st_def LoadState_of_def load_counts_def)
  have w1: "directory w1 = directory w" "good w1" using stored [OF w] st(2) by (simp_all add: w1_def store)
  obtain c st2 w2 where p: "PrepareShards ho std_sort request options cb (st, w1) = (c, st2, w2)"
    by (cases "PrepareShards ho std_sort request options cb (st, w1)") auto
  note P = prepare_shards [OF refl st(1), where options = options and ho = ho and std_sort = std_sort and request = request and w = w1, unfolded p w1]
  note Q = quiet_prepare [OF w1(2) st(2) uri load, unfolded p]
  from Q obtain backings where c: "c = Inr backings" by (cases c) auto
  with P Q have B: "directory w2 = directory w" "good w2" "ls_code st2 = kRunning" "\<forall>i < ?n. mmap_backing (backings ! i) = mmap_backing (mb i)"
    by auto
  define st3 where "st3 = st2\<lparr>ls_source_progress := \<lparr>pg_partitions = []\<rparr>\<rparr>"
  have "outcome (\<lambda>_ (st', w'). ls_code st' = kSucceeded \<and> ls_terminal st' \<and> (\<exists>w2. good w2 \<and> w' = StoreState cb st' w2)
      \<and> cut_over lid (full_layers backings) ?n (directory w) (directory w')) (\<lambda>_. False) (CutoverShards cb lid options (full_layers backings) (st3, w2))"
    using quiet_cutover [of w2 options st3 lid "full_layers backings"] B d by (simp add: st3_def)
  then obtain st4 w4 where "CutoverShards cb lid options (full_layers backings) (st3, w2) = (Inr (), st4, StoreState cb st4 w4)"
    "good w4" "ls_code st4 = kSucceeded" "ls_terminal st4" "cut_over lid (full_layers backings) ?n (directory w) (directory w4)"
    by (auto simp: outcome_def store split: prod.splits sum.splits)
  then show ?thesis using B(4) mode
    by (intro exI [of _ st4] exI [of _ w4] exI [of _ backings])
      (simp add: RunExternalArtifactLoad_def st_def [symmetric] w1_def [symmetric] st3_def [symmetric] p c Let_def)
qed

end

interpretation quiet: quiet_load "index_callbacks (\<lambda>w. w) lid" "undisturbed lid options fs" fs for lid options fs
  by unfold_locales
    (auto simp: undisturbed_def index_callbacks_def IsCancelled_def StoreState_def cancel_requested_def store_state_def publish_shard_def Let_def
      split: option.splits prod.splits)

section \<open>The guarantees of a load\<close>

text \<open>
  C6. A shard is only cut over at the end of a load: whenever the worker of a load comes to an end, its state is terminal,
  and with \<open>c\<close> the number of cut over shards, shards \<open>0..<c\<close> of the directory are new ones over the loaded backings
  and all others are as before. If \<open>c\<close> is not zero then every shard of the artifact had been loaded and warmed up and, in a mode with
  Kafka, no partition was behind its high watermark. The load is reported as succeeded exactly when it returns no error, and then all shards are
  new. Other threads may do anything but publish shards.
\<close>

theorem nothing_served_too_early:
  assumes env: "\<And>w. directory (env w) = directory w"
    and d: "sd_ok (directory w)" "sd_shard_count (directory w) = io_shard_count options"
    and run: "RunExternalArtifactLoad ho std_sort (CreateCatchUpRunner None api) request lid options (index_callbacks env lid) (Some st0) w
        = Some (res, Some st, w')"
  shows "load_result ho std_sort request lid options (directory w) res st (directory w')"
  by (rule load_callbacks.whole_load [OF index_callbacks_keep [OF env] production_factory d(2,1) run])

lemma shard_of_spec:
  assumes ok: "artifact_spec_ok L spec" and i: "i < ab_shard_count spec"
  shows "\<exists>shard \<in> set (ab_shards spec). bs_shard_id shard = i"
proof -
  let ?ids = "bs_shard_id ` set (ab_shards spec)"
  have "card ?ids = unat (ab_shard_count spec)"
    using ok by (metis artifact_spec_ok_def distinct_card length_map list.set_map)
  moreover have "card {j. j < ab_shard_count spec} = unat (ab_shard_count spec)"
  proof -
    have "inj_on unat {j. j < ab_shard_count spec}" by (auto simp: inj_on_def intro: unsigned_word_eqI)
    moreover have "unat ` {j. j < ab_shard_count spec} = {..<unat (ab_shard_count spec)}"
      by (auto simp: word_less_nat_alt image_iff) (metis mem_Collect_eq unat_shard_id)
    ultimately show ?thesis by (metis card_image card_lessThan)
  qed
  moreover have "?ids \<subseteq> {j. j < ab_shard_count spec}" using ok by (auto simp: artifact_spec_ok_def)
  ultimately have "?ids = {j. j < ab_shard_count spec}" by (intro card_subset_eq) auto
  with i show ?thesis by (metis (mono_tags) image_iff mem_Collect_eq)
qed

lemma cut_over_Get:
  assumes ok: "fi_ok fi" and c: "cut_over lid layers (unat (io_shard_count (fi_options fi))) d (fi_shard_directory fi)" and d: "sd_ok d"
  shows "fi_Get h fi k = or_throw (ss_Get h (NewShardState (ShardFor fi k) lid (layers (ShardFor fi k))) k)"
  using fi_Get_shard [OF ok] ShardFor_less [OF ok, of k] c ok by (simp add: cut_over_def fi_ok_def sd_ok_def)

lemma full_only_Get:
  "ss_Get h (NewShardState i g \<lparr>ly_realtime_delta = None, ly_compact_delta = None, ly_full_snapshot = Some v\<rparr>) k = fsv_Get v k"
proof -
  have last: "(\<lambda>r :: Row option. if r \<noteq> None then Inr r else Inr None) = (Inr :: _ \<Rightarrow> Row option res)" by auto
  show ?thesis unfolding ss_Get_def last by (simp add: NewShardState_def rbind_return)
qed

lemma load_of_written:
  assumes ho: "keeps_files ho" and ok: "artifact_spec_ok L spec" and srt: "sorts_by_offset std_sort"
    and ne: "\<forall>shard \<in> set (ab_shards spec). bs_rows shard \<noteq> []"
    and wr: "WriteArtifact ho path spec fs = (Inr (), fs')" and uri: "ResolveLocalPath (lr_artifact_uri request) = Inr path"
    and fi: "fi_ok fi" "load_inv fi" and mode: "\<not> ForwardIndexModeUsesKafkaRealtime (io_mode (fi_options fi))"
    and opt: "mmap_options_match (load_options_of (fi_options fi)) spec" "io_shard_count (fi_options fi) = ab_shard_count spec"
    and start: "LoadAsync stat fi request = (lid, fi1)" "PreflightLocalArtifactUri stat request = Inr ()"
    and w: "lw_fs w = fs'" "lw_index w = fi1"
  shows "\<exists>st w'. RunExternalArtifactLoad ho std_sort create request lid (fi_options fi) (index_callbacks (\<lambda>w. w) lid) (Some st0) w
      = Some (Inr (), Some st, w') \<and> GetLoadState (lw_index w') lid = st \<and> ls_code st = kSucceeded \<and> ls_terminal st
    \<and> fi_ok (lw_index w') \<and> fi_options (lw_index w') = fi_options fi
    \<and> (\<forall>h k. \<exists>shard \<in> set (ab_shards spec). bs_shard_id shard = ShardFor (lw_index w') k
        \<and> fi_Get h (lw_index w') k = or_throw (snapshot_answer L (map_of (spec_rows L shard)) k))"
proof -
  let ?cb = "index_callbacks (\<lambda>w. w) lid :: 'a load_world AsyncLoadCallbacks" and ?o = "fi_options fi"
  let ?n = "unat (io_shard_count ?o)"
  have fi1: "fi_options fi1 = ?o" "fi_shard_directory fi1 = fi_shard_directory fi"
    using start by (auto simp: LoadAsync_def Let_def)
  have good: "undisturbed lid ?o fs' w"
    using load_async_fresh [OF fi(2) start(1)] start(2) w fi1(1)
    by (auto simp: undisturbed_def cancel_requested_def GetLoadState_def LoadState_of_def split: option.splits)
  have d: "sd_shard_count (directory w) = io_shard_count ?o" "sd_ok (directory w)" using fi(1) fi1 w by (simp_all add: directory_def fi_ok_def)
  have uri': "lr_artifact_uri request \<noteq> []" using uri by (auto simp: ResolveLocalPath_def split: if_splits)
  have "\<exists>mb shard. shard \<in> set (ab_shards spec) \<and> bs_shard_id shard = of_nat i
      \<and> LoadShard ho std_sort fs' (lr_artifact_uri request) (of_nat i) (load_options_of ?o) = Inr mb \<and> mmap_contains L (spec_rows L shard) mb"
    if "i < ?n" for i
  proof -
    have "(of_nat i :: u32) < ab_shard_count spec" using that unat_shard_id [OF that] opt(2) by (simp add: word_less_nat_alt)
    from shard_of_spec [OF ok this] obtain shard where s: "shard \<in> set (ab_shards spec)" "bs_shard_id shard = of_nat i" by blast
    from WriteArtifact_LoadShard [OF ho ok srt ne wr uri opt(1) s(1)] s show ?thesis by auto
  qed
  then obtain mb shard where M: "\<And>i. i < ?n \<Longrightarrow> shard i \<in> set (ab_shards spec) \<and> bs_shard_id (shard i) = of_nat i
      \<and> LoadShard ho std_sort fs' (lr_artifact_uri request) (of_nat i) (load_options_of ?o) = Inr (mb i) \<and> mmap_contains L (spec_rows L (shard i)) (mb i)"
    by metis
  obtain st w2 backings where run: "RunExternalArtifactLoad ho std_sort create request lid ?o ?cb (Some st0) w
      = Some (Inr (), Some st, StoreState ?cb st w2)"
    and g: "undisturbed lid ?o fs' w2" and st: "ls_code st = kSucceeded" "ls_terminal st"
    and b: "\<forall>i < ?n. mmap_backing (backings ! i) = mmap_backing (mb i)"
    and c: "cut_over lid (full_layers backings) ?n (directory w) (directory w2)"
    using quiet.quiet_run [OF d good uri' mode, where mb = mb] M by blast
  define fi' where "fi' = lw_index (StoreState ?cb st w2)"
  have fi': "fi_options fi' = ?o" "fi_shard_directory fi' = directory w2" "GetLoadState fi' lid = st"
    using g st by (auto simp: fi'_def undisturbed_def index_callbacks_def StoreState_def store_state_def directory_def GetLoadState_def)
  have ok': "fi_ok fi'" using fi(1) c d by (simp add: fi_ok_def fi' cut_over_def sd_ok_def)
  have "\<exists>s \<in> set (ab_shards spec). bs_shard_id s = ShardFor fi' k \<and> fi_Get h fi' k = or_throw (snapshot_answer L (map_of (spec_rows L s)) k)" for h k
  proof -
    let ?i = "unat (ShardFor fi' k)"
    have i: "?i < ?n" using ShardFor_less [OF ok', of k] by (simp add: fi')
    have "ss_Get h (NewShardState (ShardFor fi' k) lid (full_layers backings (ShardFor fi' k))) k = snapshot_answer L (map_of (spec_rows L (shard ?i))) k"
      using mmap_contains_full [of L "spec_rows L (shard ?i)" "mb ?i" k] M [OF i] b i by (simp add: full_layers_def full_only_Get)
    then show ?thesis using M [OF i] cut_over_Get [OF ok', of lid "full_layers backings" "directory w" h k] c d by (auto simp: fi')
  qed
  with run st ok' fi'(1,3) show ?thesis unfolding fi'_def by blast
qed

text \<open>
  C5. From the file to the reader. Suppose that an artifact has been written for which these conditions hold:
  \<^item> its layout has no default, and slots of a size that is not zero;
  \<^item> there is one shard for each shard number, and every shard has at least one row;
  \<^item> the rows are rows of the layout, with distinct keys in each shard, and the format can express all names, values and
    sizes (these are, but for the rows of every shard, the conditions of \<open>artifact_spec_ok\<close>);
  \<^item> the operating system gives back the written file.

  A reachable index in full-snapshot-only mode, whose shard count, hash and source-progress options agree with the artifact,
  starts a load of the file, the location passes the check before the load, and until the load ends no other thread acts
  on the index or the file, so that nothing cancels it. Then the worker of the load ends with the load reported as succeeded, and the
  index answers every key from the rows that were given for its shard, and as absent when they have none. This holds for
  every sort of the section directory that the standard allows.

  The conditions on the artifact are needed: the section of an empty shard may be taken for an overlap, and
  a layout with a default is not the one that the reader compiles, so the load of such an artifact may fail although it was
  written without an error.
\<close>

theorem written_artifact_is_served:
  assumes ho: "keeps_files ho" and ok: "artifact_spec_ok L spec" and srt: "sorts_by_offset std_sort"
    and ne: "\<forall>shard \<in> set (ab_shards spec). bs_rows shard \<noteq> []"
    and wr: "WriteArtifact ho path spec fs = (Inr (), fs')" and uri: "ResolveLocalPath (lr_artifact_uri request) = Inr path"
    and fi: "fi_ok fi" "load_inv fi" and mode: "\<not> ForwardIndexModeUsesKafkaRealtime (io_mode (fi_options fi))"
    and opt: "mmap_options_match (load_options_of (fi_options fi)) spec" "io_shard_count (fi_options fi) = ab_shard_count spec"
    and start: "LoadAsync stat fi request = (lid, fi1)" "PreflightLocalArtifactUri stat request = Inr ()"
    and w: "lw_fs w = fs'" "lw_index w = fi1"
  shows "\<exists>w'. load_worker ho std_sort create (\<lambda>w. w) request lid w = Some w'
    \<and> ls_code (GetLoadState (lw_index w') lid) = kSucceeded \<and> ls_terminal (GetLoadState (lw_index w') lid)
    \<and> (\<forall>h k. \<exists>shard \<in> set (ab_shards spec). bs_shard_id shard = ShardFor (lw_index w') k
        \<and> fi_Get h (lw_index w') k = or_throw (snapshot_answer L (map_of (spec_rows L shard)) k))"
proof -
  have o: "fi_options (lw_index w) = fi_options fi" unfolding w(2) using start by (auto simp: LoadAsync_def Let_def)
  have same: "GetLoadState (worker_done lid fi') j = GetLoadState fi' j" "ShardFor (worker_done lid fi') k = ShardFor fi' k"
    "fi_Get h (worker_done lid fi') k = fi_Get h fi' k" for fi' j h k
    by (simp_all add: worker_done_def GetLoadState_def ShardFor_def fi_Get_def)
  from load_of_written [OF assms, of create "LoadState_of 0 kLoadUnknown True [] [] [] []"] obtain st w' where
    "RunExternalArtifactLoad ho std_sort create request lid (fi_options fi) (index_callbacks (\<lambda>w. w) lid)
       (Some (LoadState_of 0 kLoadUnknown True [] [] [] [])) w = Some (Inr (), Some st, w')"
    and r: "GetLoadState (lw_index w') lid = st" "ls_code st = kSucceeded" "ls_terminal st"
      "\<forall>h k. \<exists>shard \<in> set (ab_shards spec). bs_shard_id shard = ShardFor (lw_index w') k
        \<and> fi_Get h (lw_index w') k = or_throw (snapshot_answer L (map_of (spec_rows L shard)) k)" by blast
  then have "load_worker ho std_sort create (\<lambda>w. w) request lid w = Some (w'\<lparr>lw_index := worker_done lid (lw_index w')\<rparr>)"
    by (simp add: load_worker_def o)
  with r show ?thesis by (intro exI [of _ "w'\<lparr>lw_index := worker_done lid (lw_index w')\<rparr>"]) (simp add: same)
qed

section \<open>Examples\<close>

lemma serve_setup:
  "NewForwardIndex serve_options = Inr serve_index" "fi_ok serve_index" "load_inv serve_index" "fi_options serve_index = serve_options"
  "LoadAsync serve_stat serve_index serve_request = (1, lw_index (serve_world fs))"
  "PreflightLocalArtifactUri serve_stat serve_request = Inr ()" "ResolveLocalPath (lr_artifact_uri serve_request) = Inr ''d/a''"
  "mmap_options_match (load_options_of serve_options) (demo_artifact L [5, 9])" "\<not> ForwardIndexModeUsesKafkaRealtime (io_mode serve_options)"
  "io_shard_count serve_options = ab_shard_count (demo_artifact L [5, 9])"
proof -
  show new: "NewForwardIndex serve_options = Inr serve_index"
    by (simp add: serve_index_def NewForwardIndex_def serve_options_def IsPowerOfTwo_def ForwardIndexModeUsesKafkaRealtime_def
        HasKafkaConsumerConfig_def)
  show "fi_ok serve_index" "fi_options serve_index = serve_options" using NewForwardIndex_ok [OF new] by simp_all
  show "load_inv serve_index" by (rule load_inv_new [OF new])
  show pre: "PreflightLocalArtifactUri serve_stat serve_request = Inr ()"
    by (simp add: PreflightLocalArtifactUri_def serve_request_def serve_stat_def file_scheme_def)
  have "fi_next_load_id serve_index = 1"
    by (simp add: serve_index_def NewForwardIndex_def serve_options_def IsPowerOfTwo_def ForwardIndexModeUsesKafkaRealtime_def
        HasKafkaConsumerConfig_def)
  then show "LoadAsync serve_stat serve_index serve_request = (1, lw_index (serve_world fs))"
    by (simp add: serve_world_def LoadAsync_def pre Let_def)
qed (simp_all add: ResolveLocalPath_def local_scheme_def serve_request_def mmap_options_match_def load_options_of_def serve_options_def
    demo_artifact_def ForwardIndexModeUsesKafkaRealtime_def)

theorem written_artifact_is_served_witness:
  "\<exists>L fs w'. Compile note_schema = Inr L \<and> WriteArtifact memory_host ''d/a'' (demo_artifact L [5, 9]) [] = (Inr (), fs)
     \<and> load_worker memory_host (sort_key as_offset) (CreateCatchUpRunner None replay_api) (\<lambda>w. w) serve_request 1 (serve_world fs) = Some w'
     \<and> ls_code (GetLoadState (lw_index w') 1) = kSucceeded
     \<and> fi_Get (\<lambda>_. plain_table) (lw_index w') 9 = Inr (Some \<lparr>row_layout = Some L, row_encoded = Some (CreateEncodedRow L)\<rparr>)
     \<and> fi_Get (\<lambda>_. plain_table) (lw_index w') 7 = Inr None"
proof -
  obtain L where L: "Compile note_schema = Inr L" by (rule note_layout)
  obtain fs where fs: "WriteArtifact memory_host ''d/a'' (demo_artifact L [5, 9]) [] = (Inr (), fs)" using demo_written [OF L] by blast
  have m: "stored_row L (CreateEncodedRow L) = CreateEncodedRow L" "MaterializeRow (Some L) (CreateEncodedRow L)
      = Inr \<lparr>row_layout = Some L, row_encoded = Some (CreateEncodedRow L)\<rparr>"
    using note_fields [OF L] by (simp_all add: stored_row_def CreateEncodedRow_def MaterializeRow_def)
  have one: "set (ab_shards (demo_artifact L [5, 9])) = {demo_shard_spec L [5, 9]}" by (simp add: demo_artifact_def)
  have a: "snapshot_answer L (map_of (spec_rows L (demo_shard_spec L [5, 9]))) 7 = Inr None"
    "snapshot_answer L (map_of (spec_rows L (demo_shard_spec L [5, 9]))) 9 = Inr (Some \<lparr>row_layout = Some L, row_encoded = Some (CreateEncodedRow L)\<rparr>)"
    using m by (simp_all add: snapshot_answer_def spec_rows_def demo_shard_spec_def)
  have world: "lw_fs (serve_world fs) = fs" by (simp add: serve_world_def)
  from written_artifact_is_served [OF memory_host_keeps demo_artifact_ok [OF L, of "[5, 9]", simplified] demo_setup(3,1) fs serve_setup(7,2,3)
      _ _ _ serve_setup(5,6) world refl, unfolded serve_setup(4), OF serve_setup(9,8,10), of "CreateCatchUpRunner None replay_api"]
  obtain w' where "load_worker memory_host (sort_key as_offset) (CreateCatchUpRunner None replay_api) (\<lambda>w. w) serve_request 1 (serve_world fs) = Some w'"
    "ls_code (GetLoadState (lw_index w') 1) = kSucceeded"
    "\<And>h k. fi_Get h (lw_index w') k = or_throw (snapshot_answer L (map_of (spec_rows L (demo_shard_spec L [5, 9]))) k)"
    unfolding one by blast
  with L fs a show ?thesis by (intro exI [of _ L] exI [of _ fs] exI [of _ w']) simp
qed

theorem nothing_served_too_early_witness:
  "\<exists>L fs st w'. Compile note_schema = Inr L \<and> WriteArtifact memory_host ''d/a'' (demo_artifact L [5, 9]) [] = (Inr (), fs)
     \<and> RunExternalArtifactLoad memory_host (sort_key as_offset) (CreateCatchUpRunner None replay_api) serve_request 1 serve_options
         (index_callbacks (\<lambda>w. w) 1) (Some (LoadState_of 0 kLoadUnknown True [] [] [] [])) (serve_world fs) = Some (Inr (), Some st, w')
     \<and> load_result memory_host (sort_key as_offset) serve_request 1 serve_options (directory (serve_world fs)) (Inr ()) st (directory w')
     \<and> ls_cutover_shard_count st = 1"
proof -
  obtain L where L: "Compile note_schema = Inr L" by (rule note_layout)
  obtain fs where fs: "WriteArtifact memory_host ''d/a'' (demo_artifact L [5, 9]) [] = (Inr (), fs)" using demo_written [OF L] by blast
  have world: "lw_fs (serve_world fs) = fs" by (simp add: serve_world_def)
  from load_of_written [OF memory_host_keeps demo_artifact_ok [OF L, of "[5, 9]", simplified] demo_setup(3,1) fs serve_setup(7,2,3)
      _ _ _ serve_setup(5,6) world refl, unfolded serve_setup(4), OF serve_setup(9,8,10), of "CreateCatchUpRunner None replay_api"]
  obtain st w' where r: "RunExternalArtifactLoad memory_host (sort_key as_offset) (CreateCatchUpRunner None replay_api) serve_request 1 serve_options
         (index_callbacks (\<lambda>w. w) 1) (Some (LoadState_of 0 kLoadUnknown True [] [] [] [])) (serve_world fs) = Some (Inr (), Some st, w')" by blast
  have d: "sd_ok (directory (serve_world fs))" "sd_shard_count (directory (serve_world fs)) = io_shard_count serve_options"
    using serve_setup(2,4) serve_setup(5) [of fs] by (auto simp: directory_def fi_ok_def serve_world_def LoadAsync_def serve_setup(6) Let_def)
  note res = nothing_served_too_early [OF refl d r]
  then have "unat (ls_cutover_shard_count st) = unat (1 :: u32)" by (simp add: load_result_def serve_options_def Let_def)
  then have "ls_cutover_shard_count st = 1" by (rule unsigned_word_eqI)
  with L fs r res show ?thesis by blast
qed

end
