(* ===== verification/Offline_Schema.thy ===== *)
theory Offline_Schema
  imports Schema Kafka_Consumer
begin

text \<open>
  The schema file of \<open>tools/offline/src/offline_artifact_builder.cc\<close>: a small subset of YAML that is read line by
  line, and the file that the tool writes beside the shards it builds. Reading the written file gives back
  what was read, except that names are written without quotes.
\<close>

section \<open>Text\<close>

abbreviation NL :: char where "NL \<equiv> CHR 0x0A"

definition is_blank :: "char \<Rightarrow> bool" where
  "is_blank c \<longleftrightarrow> c = CHR '' '' \<or> c = CHR 0x09 \<or> c = CHR 0x0D"

definition Trim :: "string \<Rightarrow> string" where
  "Trim text = rev (dropWhile is_blank (rev (dropWhile is_blank text)))"

fun StripCommentFrom :: "bool \<Rightarrow> bool \<Rightarrow> string \<Rightarrow> string" where
  "StripCommentFrom in_single_quote in_double_quote [] = []"
| "StripCommentFrom in_single_quote in_double_quote (c # rest) =
     (if c = CHR 0x27 \<and> \<not> in_double_quote then c # StripCommentFrom (\<not> in_single_quote) in_double_quote rest
      else if c = CHR 0x22 \<and> \<not> in_single_quote then c # StripCommentFrom in_single_quote (\<not> in_double_quote) rest
      else if c = CHR ''#'' \<and> \<not> in_single_quote \<and> \<not> in_double_quote then []
      else c # StripCommentFrom in_single_quote in_double_quote rest)"

definition StripComment :: "string \<Rightarrow> string" where
  "StripComment line = StripCommentFrom False False line"

definition Unquote :: "string \<Rightarrow> string" where
  "Unquote value =
     (if length value \<ge> 2 \<and> (hd value = CHR 0x22 \<and> last value = CHR 0x22 \<or> hd value = CHR 0x27 \<and> last value = CHR 0x27)
      then butlast (tl value) else value)"

text \<open>\<open>find(':')\<close> splits at the first colon.\<close>

definition ParseKeyValue :: "string \<Rightarrow> (string \<times> string) res" where
  "ParseKeyValue text =
     (if CHR '':'' \<notin> set text then Inl (InvalidArgument ''schema line is not a key-value pair'')
      else
        (let key = Trim (takeWhile (\<lambda>c. c \<noteq> CHR '':'') text);
             value = Unquote (Trim (tl (dropWhile (\<lambda>c. c \<noteq> CHR '':'') text))) in
         if key = [] then Inl (InvalidArgument ''schema key is empty'') else Inr (key, value)))"

text \<open>\<open>std::from_chars\<close> on an unsigned type, with the whole text consumed.\<close>

definition ParseUnsigned :: "string \<Rightarrow> string \<Rightarrow> 'w::len word res" where
  "ParseUnsigned text name =
     (if text = [] then Inl (InvalidArgument (name @ '' is empty''))
      else if \<not> list_all is_digit text \<or> decimal_value text \<ge> 2 ^ LENGTH('w)
      then Inl (InvalidArgument (''invalid unsigned integer for '' @ name))
      else Inr (of_nat (decimal_value text)))"

definition ParseBool :: "string \<Rightarrow> bool res" where
  "ParseBool text =
     (if text = ''true'' then Inr True else if text = ''false'' then Inr False
      else Inl (InvalidArgument ''invalid boolean value''))"

definition ParseType :: "string \<Rightarrow> FieldType res" where
  "ParseType text =
     (if text = ''int8'' then Inr kInt8 else if text = ''int32'' then Inr kInt32
      else if text = ''int64'' then Inr kInt64 else if text = ''uint64'' then Inr kUInt64
      else if text = ''bool'' then Inr kBool else if text = ''string'' then Inr kString
      else Inl (InvalidArgument ''unknown field type''))"

section \<open>The parsed file\<close>

record ParsedField =
  pf_field :: FieldSpec
  pf_encoding_name :: string
  pf_has_field_id :: bool
  pf_has_name :: bool
  pf_has_type :: bool
  pf_has_is_list :: bool
  pf_has_nullable :: bool
  pf_has_encoding :: bool

definition NewParsedField :: ParsedField where
  "NewParsedField =
     \<lparr>pf_field = \<lparr>fs_field_id = 0, fs_name = [], fs_type = kInt64, fs_is_list = False, fs_nullable = True, fs_encoding = kFixed,
                  fs_default_value = NoDefault, fs_deleted = False\<rparr>,
      pf_encoding_name = [], pf_has_field_id = False, pf_has_name = False, pf_has_type = False, pf_has_is_list = False,
      pf_has_nullable = False, pf_has_encoding = False\<rparr>"

record ParsedSchemaConfig =
  sc_schema_version :: u64
  sc_has_schema_version :: bool
  sc_shard_count :: "u32 option"
  sc_hash_seed :: "u64 option"
  sc_hash_version :: "u32 option"
  sc_primary_key_name :: string
  sc_primary_key_type :: FieldType
  sc_has_primary_key_name :: bool
  sc_has_primary_key_type :: bool
  sc_fields :: "FieldSpec list"

definition NewParsedSchemaConfig :: ParsedSchemaConfig where
  "NewParsedSchemaConfig =
     \<lparr>sc_schema_version = 0, sc_has_schema_version = False, sc_shard_count = None, sc_hash_seed = None, sc_hash_version = None,
      sc_primary_key_name = [], sc_primary_key_type = kUInt64, sc_has_primary_key_name = False,
      sc_has_primary_key_type = False, sc_fields = []\<rparr>"

definition ApplyTopLevelKey :: "string \<Rightarrow> string \<Rightarrow> ParsedSchemaConfig \<Rightarrow> ParsedSchemaConfig res" where
  "ApplyTopLevelKey key value config =
     (if key = ''schema_version''
      then rbind (ParseUnsigned value key) (\<lambda>v. Inr (config\<lparr>sc_schema_version := v, sc_has_schema_version := True\<rparr>))
      else if key = ''shard_count'' then rbind (ParseUnsigned value key) (\<lambda>v. Inr (config\<lparr>sc_shard_count := Some v\<rparr>))
      else if key = ''hash_seed'' then rbind (ParseUnsigned value key) (\<lambda>v. Inr (config\<lparr>sc_hash_seed := Some v\<rparr>))
      else if key = ''hash_version'' then rbind (ParseUnsigned value key) (\<lambda>v. Inr (config\<lparr>sc_hash_version := Some v\<rparr>))
      else Inl (InvalidArgument (''unsupported top-level schema key: '' @ key)))"

definition ApplyPrimaryKey :: "string \<Rightarrow> string \<Rightarrow> ParsedSchemaConfig \<Rightarrow> ParsedSchemaConfig res" where
  "ApplyPrimaryKey key value config =
     (if key = ''name'' then Inr (config\<lparr>sc_primary_key_name := value, sc_has_primary_key_name := True\<rparr>)
      else if key = ''type''
      then rbind (ParseType value) (\<lambda>t. Inr (config\<lparr>sc_primary_key_type := t, sc_has_primary_key_type := True\<rparr>))
      else Inl (InvalidArgument (''unsupported primary_key schema key: '' @ key)))"

definition ApplyFieldKey :: "string \<Rightarrow> string \<Rightarrow> ParsedField \<Rightarrow> ParsedField res" where
  "ApplyFieldKey key value field =
     (if key = ''field_id''
      then rbind (ParseUnsigned value key) (\<lambda>v. Inr (field\<lparr>pf_field := (pf_field field)\<lparr>fs_field_id := v\<rparr>, pf_has_field_id := True\<rparr>))
      else if key = ''name'' then Inr (field\<lparr>pf_field := (pf_field field)\<lparr>fs_name := value\<rparr>, pf_has_name := True\<rparr>)
      else if key = ''type''
      then rbind (ParseType value) (\<lambda>t. Inr (field\<lparr>pf_field := (pf_field field)\<lparr>fs_type := t\<rparr>, pf_has_type := True\<rparr>))
      else if key = ''is_list''
      then rbind (ParseBool value) (\<lambda>b. Inr (field\<lparr>pf_field := (pf_field field)\<lparr>fs_is_list := b\<rparr>, pf_has_is_list := True\<rparr>))
      else if key = ''nullable''
      then rbind (ParseBool value) (\<lambda>b. Inr (field\<lparr>pf_field := (pf_field field)\<lparr>fs_nullable := b\<rparr>, pf_has_nullable := True\<rparr>))
      else if key = ''encoding'' then Inr (field\<lparr>pf_encoding_name := value, pf_has_encoding := True\<rparr>)
      else Inl (InvalidArgument (''unsupported field schema key: '' @ key)))"

section \<open>Reading the file\<close>

datatype Section = kTopLevel | kPrimaryKeySection | kFieldsSection

text \<open>The variables of the loop over the lines; a field is pending when it is not \<open>None\<close>.\<close>

record schema_parse =
  sq_config :: ParsedSchemaConfig
  sq_section :: Section
  sq_pending :: "ParsedField option"

definition FlushParsedField :: "schema_parse \<Rightarrow> schema_parse res" where
  "FlushParsedField s =
     (case sq_pending s of
        None \<Rightarrow> Inr s
      | Some p \<Rightarrow>
          if \<not> pf_has_field_id p \<or> \<not> pf_has_name p \<or> \<not> pf_has_type p \<or> \<not> pf_has_is_list p \<or> \<not> pf_has_nullable p \<or> \<not> pf_has_encoding p
          then Inl (InvalidArgument ''schema field is missing required keys'')
          else
            rbind (ParseFieldEncoding (pf_encoding_name p) (fs_is_list (pf_field p)) (fs_type (pf_field p))) (\<lambda>encoding.
            Inr (s\<lparr>sq_config := (sq_config s)\<lparr>sc_fields := sc_fields (sq_config s) @ [(pf_field p)\<lparr>fs_encoding := encoding\<rparr>]\<rparr>,
                   sq_pending := None\<rparr>)))"

text \<open>An error of a line is reported as an invalid argument, with what was being read and the number of the line.\<close>

definition at_line :: "string \<Rightarrow> nat \<Rightarrow> 'a res \<Rightarrow> 'a res" where
  "at_line what line_number r =
     (case r of
        Inl (Error code message) \<Rightarrow> Inl (InvalidArgument (''invalid '' @ what @ '' line '' @ decimal line_number @ '': '' @ message))
      | _ \<Rightarrow> r)"

definition with_config :: "schema_parse \<Rightarrow> (ParsedSchemaConfig \<Rightarrow> ParsedSchemaConfig res) \<Rightarrow> schema_parse res" where
  "with_config s f = rbind (f (sq_config s)) (\<lambda>config. Inr (s\<lparr>sq_config := config\<rparr>))"

definition with_pending :: "schema_parse \<Rightarrow> ParsedField \<Rightarrow> (ParsedField \<Rightarrow> ParsedField res) \<Rightarrow> schema_parse res" where
  "with_pending s p f = rbind (f p) (\<lambda>p. Inr (s\<lparr>sq_pending := Some p\<rparr>))"

definition ParseSchemaLine :: "nat \<Rightarrow> string \<Rightarrow> schema_parse \<Rightarrow> schema_parse res" where
  "ParseSchemaLine line_number raw_line s =
     (let without_comment = StripComment raw_line; trimmed = Trim without_comment;
          indent = length (takeWhile (\<lambda>c. c = CHR '' '') without_comment) in
      if trimmed = [] then Inr s
      else if indent = 0 then
        rbind (FlushParsedField s) (\<lambda>s.
        if trimmed = ''primary_key:'' then Inr (s\<lparr>sq_section := kPrimaryKeySection\<rparr>)
        else if trimmed = ''fields:'' then Inr (s\<lparr>sq_section := kFieldsSection\<rparr>)
        else
          rbind (at_line ''schema'' line_number (ParseKeyValue trimmed)) (\<lambda>(key, value).
          at_line ''schema'' line_number (with_config (s\<lparr>sq_section := kTopLevel\<rparr>) (ApplyTopLevelKey key value))))
      else
        (case sq_section s of
           kPrimaryKeySection \<Rightarrow>
             rbind (at_line ''primary_key'' line_number (ParseKeyValue trimmed)) (\<lambda>(key, value).
             at_line ''schema'' line_number (with_config s (ApplyPrimaryKey key value)))
         | kFieldsSection \<Rightarrow>
             (if take 2 trimmed = ''- '' then
                rbind (FlushParsedField s) (\<lambda>s.
                let first_key = Trim (drop 2 trimmed) in
                if first_key = [] then Inr (s\<lparr>sq_pending := Some NewParsedField\<rparr>)
                else
                  rbind (at_line ''field'' line_number (ParseKeyValue first_key)) (\<lambda>(key, value).
                  at_line ''schema'' line_number (with_pending s NewParsedField (ApplyFieldKey key value))))
              else
                (case sq_pending s of
                   None \<Rightarrow> Inl (InvalidArgument ''field property appeared before a field item'')
                 | Some p \<Rightarrow>
                     rbind (at_line ''field'' line_number (ParseKeyValue trimmed)) (\<lambda>(key, value).
                     at_line ''schema'' line_number (with_pending s p (ApplyFieldKey key value)))))
         | kTopLevel \<Rightarrow> Inl (InvalidArgument ''schema line is in an unknown section'')))"

fun ParseSchemaLines :: "nat \<Rightarrow> string list \<Rightarrow> schema_parse \<Rightarrow> schema_parse res" where
  "ParseSchemaLines line_number [] s = Inr s"
| "ParseSchemaLines line_number (line # rest) s =
     rbind (ParseSchemaLine line_number line s) (ParseSchemaLines (Suc line_number) rest)"

text \<open>The lines that \<open>std::getline\<close> gives: text after the last line feed is a line unless it is empty.\<close>

fun getlines :: "string \<Rightarrow> string list" where
  "getlines [] = []"
| "getlines (c # rest) =
     (if c = NL then [] # getlines rest
      else (case getlines rest of [] \<Rightarrow> [[c]] | line # lines \<Rightarrow> (c # line) # lines))"

definition CheckSchemaConfig :: "ParsedSchemaConfig \<Rightarrow> ParsedSchemaConfig res" where
  "CheckSchemaConfig config =
     (if \<not> sc_has_schema_version config then Inl (InvalidArgument ''schema_version is required'')
      else if \<not> sc_has_primary_key_name config \<or> \<not> sc_has_primary_key_type config
      then Inl (InvalidArgument ''primary_key name and type are required'')
      else if sc_primary_key_type config \<noteq> kUInt64 then Inl (InvalidArgument ''primary_key type must be uint64'')
      else if sc_fields config = [] then Inl (InvalidArgument ''schema must contain at least one field'')
      else Inr config)"

definition NewSchemaParse :: schema_parse where
  "NewSchemaParse = \<lparr>sq_config = NewParsedSchemaConfig, sq_section = kTopLevel, sq_pending = None\<rparr>"

text \<open>The contents of the file, or \<open>None\<close> when it cannot be opened.\<close>

definition ParseSchemaFile :: "string option \<Rightarrow> ParsedSchemaConfig res" where
  "ParseSchemaFile input =
     (case input of
        None \<Rightarrow> Inl (NotFound ''schema file not found'')
      | Some text \<Rightarrow>
          rbind (ParseSchemaLines 1 (getlines text) NewSchemaParse) (\<lambda>s.
          rbind (FlushParsedField s) (\<lambda>s. CheckSchemaConfig (sq_config s))))"

definition BuildRuntimeSchema :: "ParsedSchemaConfig \<Rightarrow> u64 \<Rightarrow> RuntimeSchema res" where
  "BuildRuntimeSchema config schema_version =
     foldM_res (\<lambda>field schema. AddField schema field) (sc_fields config) (NewRuntimeSchema schema_version)"

section \<open>Writing the file\<close>

fun FieldTypeName :: "FieldType \<Rightarrow> string" where
  "FieldTypeName kInt8 = ''int8''"
| "FieldTypeName kInt32 = ''int32''"
| "FieldTypeName kInt64 = ''int64''"
| "FieldTypeName kUInt64 = ''uint64''"
| "FieldTypeName kBool = ''bool''"
| "FieldTypeName kString = ''string''"
| "FieldTypeName (kUnlistedType c) = ''unknown''"

definition bool_text :: "bool \<Rightarrow> string" where
  "bool_text b = (if b then ''true'' else ''false'')"

definition field_lines :: "FieldSpec \<Rightarrow> string list" where
  "field_lines field =
     [''  - field_id: '' @ decimal (unat (fs_field_id field)),
      ''    name: '' @ fs_name field,
      ''    type: '' @ FieldTypeName (fs_type field),
      ''    is_list: '' @ bool_text (fs_is_list field),
      ''    nullable: '' @ bool_text (fs_nullable field),
      ''    encoding: '' @ FieldEncodingConfigName (fs_encoding field),
      []]"

definition schema_lines :: "ParsedSchemaConfig \<Rightarrow> u64 \<Rightarrow> u32 \<Rightarrow> u64 \<Rightarrow> u32 \<Rightarrow> string list" where
  "schema_lines config schema_version shard_count hash_seed hash_version =
     [''schema_version: '' @ decimal (unat schema_version),
      ''shard_count: '' @ decimal (unat shard_count),
      ''hash_seed: '' @ decimal (unat hash_seed),
      ''hash_version: '' @ decimal (unat hash_version), [],
      ''primary_key:'',
      ''  name: '' @ sc_primary_key_name config,
      ''  type: uint64'', [],
      ''fields:''] @ concat (map field_lines (sc_fields config))"

definition schema_text :: "ParsedSchemaConfig \<Rightarrow> u64 \<Rightarrow> u32 \<Rightarrow> u64 \<Rightarrow> u32 \<Rightarrow> string" where
  "schema_text config schema_version shard_count hash_seed hash_version =
     concat (map (\<lambda>line. line @ [NL]) (schema_lines config schema_version shard_count hash_seed hash_version))"

text \<open>What reading gives for a name that has been written without quotes.\<close>

definition written_name :: "string \<Rightarrow> string" where
  "written_name name = Unquote (Trim (StripComment name))"

definition kv_line :: "nat \<Rightarrow> string \<Rightarrow> string \<Rightarrow> string" where
  "kv_line indent key value = replicate indent (CHR '' '') @ key @ '': '' @ value"

text \<open>A key of the file: a word of letters and underscores.\<close>

definition plain_key :: "string \<Rightarrow> bool" where
  "plain_key key \<longleftrightarrow> key \<noteq> [] \<and> list_all (\<lambda>c. \<not> is_blank c \<and> c \<notin> {CHR '':'', CHR ''#'', CHR ''-'', CHR 0x22, CHR 0x27}) key"

abbreviation rtrim :: "string \<Rightarrow> string" where
  "rtrim text \<equiv> rev (dropWhile is_blank (rev text))"

text \<open>A field that the parser can produce, and what reading a written field gives.\<close>

definition parsed_field :: "FieldSpec \<Rightarrow> bool" where
  "parsed_field f \<longleftrightarrow> \<not> is_kUnlistedType (fs_type f) \<and> fs_default_value f = NoDefault \<and> \<not> fs_deleted f \<and> NL \<notin> set (fs_name f)
     \<and> ParseFieldEncoding (FieldEncodingConfigName (fs_encoding f)) (fs_is_list f) (fs_type f) = Inr (fs_encoding f)"

definition reread_field :: "FieldSpec \<Rightarrow> FieldSpec" where
  "reread_field f = f\<lparr>fs_name := written_name (fs_name f)\<rparr>"

definition reread :: "ParsedSchemaConfig \<Rightarrow> u64 \<Rightarrow> u32 \<Rightarrow> u64 \<Rightarrow> u32 \<Rightarrow> ParsedSchemaConfig" where
  "reread config schema_version shard_count hash_seed hash_version =
     config\<lparr>sc_schema_version := schema_version, sc_shard_count := Some shard_count, sc_hash_seed := Some hash_seed,
       sc_hash_version := Some hash_version, sc_primary_key_name := written_name (sc_primary_key_name config),
       sc_fields := map reread_field (sc_fields config)\<rparr>"

definition add_fields :: "FieldSpec list \<Rightarrow> schema_parse \<Rightarrow> schema_parse" where
  "add_fields fs s = s\<lparr>sq_config := (sq_config s)\<lparr>sc_fields := sc_fields (sq_config s) @ fs\<rparr>\<rparr>"

definition pending_ok :: "ParsedField \<Rightarrow> bool" where
  "pending_ok p \<longleftrightarrow> \<not> is_kUnlistedType (fs_type (pf_field p)) \<and> fs_default_value (pf_field p) = NoDefault \<and> \<not> fs_deleted (pf_field p)
     \<and> NL \<notin> set (fs_name (pf_field p))"

definition parse_ok :: "schema_parse \<Rightarrow> bool" where
  "parse_ok s \<longleftrightarrow> (\<forall>f \<in> set (sc_fields (sq_config s)). parsed_field f) \<and> NL \<notin> set (sc_primary_key_name (sq_config s))
     \<and> (\<forall>p. sq_pending s = Some p \<longrightarrow> pending_ok p)"

text \<open>A configuration whose first field has a name in quotes, as it stands in a file.\<close>

definition quoted_config :: ParsedSchemaConfig where
  "quoted_config = NewParsedSchemaConfig\<lparr>sc_has_schema_version := True, sc_primary_key_name := ''id'', sc_has_primary_key_name := True,
     sc_has_primary_key_type := True, sc_fields :=
       [\<lparr>fs_field_id = 1, fs_name = [CHR 0x22] @ ''a#b'' @ [CHR 0x22], fs_type = kString, fs_is_list = False, fs_nullable = True,
         fs_encoding = kArena, fs_default_value = NoDefault, fs_deleted = False\<rparr>,
        \<lparr>fs_field_id = 2, fs_name = ''n'', fs_type = kInt32, fs_is_list = True, fs_nullable = False, fs_encoding = kListDictionary,
         fs_default_value = NoDefault, fs_deleted = False\<rparr>]\<rparr>"

section \<open>Trimming\<close>

lemma blank_simps [simp]: "is_blank CHR '' ''" "\<not> is_blank CHR '':''" "\<not> is_blank CHR ''-''"
  by (simp_all add: is_blank_def)

lemma rtrim_append: "rtrim (a @ b) = (if list_all is_blank b then rtrim a else a @ rtrim b)"
  by (auto simp: dropWhile_append list_all_iff)

lemma rtrim_last: "t \<noteq> [] \<Longrightarrow> \<not> is_blank (last t) \<Longrightarrow> rtrim t = t"
  by (cases t rule: rev_cases) auto

lemma Trim_indent: "list_all is_blank b \<Longrightarrow> Trim (b @ t) = Trim t"
  by (auto simp: Trim_def dropWhile_append list_all_iff)

lemma Trim_word: "t \<noteq> [] \<Longrightarrow> \<not> is_blank (hd t) \<Longrightarrow> \<not> is_blank (last t) \<Longrightarrow> Trim t = t"
  using rtrim_last [of t] by (cases t) (simp_all add: Trim_def)

lemma Trim_blank [simp]: "list_all is_blank t \<Longrightarrow> Trim t = []"
  by (simp add: Trim_def list_all_iff dropWhile_eq_Nil_conv [THEN iffD2])

lemma Trim_rtrim: "Trim (rtrim t) = Trim t"
proof (cases "list_all is_blank t")
  case True
  then have r: "rtrim t = []" by (auto simp: list_all_iff)
  show ?thesis by (simp only: r) (simp add: True)
next
  case False
  let ?d = "dropWhile is_blank t"
  have "?d \<noteq> []" using False by (auto simp: list_all_iff)
  note ne = this hd_dropWhile [OF this]
  then have nb: "\<not> list_all is_blank ?d" by (cases ?d) auto
  have "rtrim t = takeWhile is_blank t @ rtrim ?d" using rtrim_append [of "takeWhile is_blank t" ?d] nb by simp
  moreover have "list_all is_blank (takeWhile is_blank t)" by (auto simp: list_all_iff dest: set_takeWhileD)
  ultimately have "Trim (rtrim t) = Trim (rtrim ?d)" using Trim_indent by metis
  moreover have "rtrim ?d \<noteq> []" using nb by (auto simp: list_all_iff)
  moreover have "hd (rtrim ?d) = hd ?d" using ne(1) nb rtrim_append [of "[hd ?d]" "tl ?d"] ne(2) by (cases ?d) (auto split: if_splits)
  ultimately show ?thesis using ne unfolding Trim_def
    by (smt (verit) dropWhile_idem dropWhile_eq_self_iff rev_rev_ident)
qed

section \<open>Lines\<close>

lemma StripComment_plain:
  "list_all (\<lambda>c. c \<notin> {CHR ''#'', CHR 0x22, CHR 0x27}) t \<Longrightarrow> StripComment (t @ s) = t @ StripComment s"
  unfolding StripComment_def by (induction t) (auto simp: list_all_iff)

lemma kv_line_parsed:
  fixes u :: string and indent :: nat
  assumes key: "plain_key key"
  defines "t \<equiv> StripComment (kv_line indent key u)"
  shows "ParseKeyValue (Trim t) = Inr (key, written_name u)" "Trim t \<noteq> []" "length (takeWhile (\<lambda>c. c = CHR '' '') t) = indent"
    "hd (Trim t) = hd key"
proof -
  let ?v = "StripComment u" and ?i = "replicate indent (CHR '' '')"
  have k: "key \<noteq> []" "\<forall>c \<in> set key. \<not> is_blank c \<and> c \<noteq> CHR '':''" using key by (auto simp: plain_key_def list_all_iff)
  have "list_all (\<lambda>c. c \<notin> {CHR ''#'', CHR 0x22, CHR 0x27}) (?i @ key @ '': '')"
    using key unfolding plain_key_def list_all_append by (auto intro: list.pred_mono_strong simp: list.pred_set)
  from StripComment_plain [OF this, of u] have t: "t = ?i @ (key @ '':'') @ ('' '' @ ?v)" by (simp add: t_def kv_line_def)
  have blank: "list_all is_blank ?i" by (simp add: list_all_iff)
  have head: "\<not> is_blank (hd key)" "hd key \<noteq> CHR '' ''" using k by (auto simp: is_blank_def)
  have lt: "dropWhile is_blank ((key @ '':'') @ z) = (key @ '':'') @ z" for z using head(1) k(1) by (cases key) simp_all
  have "Trim t = rtrim ((key @ '':'') @ ('' '' @ ?v))" unfolding t Trim_indent [OF blank] unfolding Trim_def lt ..
  moreover have "rtrim (key @ '':'') = key @ '':''" by (rule rtrim_last) simp_all
  ultimately have T: "Trim t = key @ '':'' @ (if list_all is_blank ?v then [] else rtrim ('' '' @ ?v))"
    unfolding rtrim_append by simp
  show "Trim t \<noteq> []" "hd (Trim t) = hd key" using k(1) by (simp_all add: T)
  have tw: "takeWhile (\<lambda>c. c \<noteq> CHR '':'') (key @ CHR '':'' # z) = key" "dropWhile (\<lambda>c. c \<noteq> CHR '':'') (key @ CHR '':'' # z) = CHR '':'' # z" for z
    using k(2) by (simp_all add: takeWhile_append dropWhile_append)
  have "last key \<in> set key" using k(1) by simp
  then have "Trim key = key" using k head by (intro Trim_word) auto
  moreover have "Trim (if list_all is_blank ?v then [] else rtrim ('' '' @ ?v)) = Trim ?v"
    unfolding if_distrib [of Trim] Trim_rtrim by (simp add: Trim_indent [of "'' ''", simplified])
  ultimately show "ParseKeyValue (Trim t) = Inr (key, written_name u)"
    unfolding T using k(1) by (simp add: ParseKeyValue_def tw written_name_def Let_def del: rev_append)
  show "length (takeWhile (\<lambda>c. c = CHR '' '') t) = indent"
    unfolding t using head(2) k(1) by (cases key) (simp_all add: takeWhile_append)
qed

lemma written_word:
  assumes "t \<noteq> []" and "list_all (\<lambda>c. \<not> is_blank c \<and> c \<notin> {CHR ''#'', CHR 0x22, CHR 0x27}) t"
  shows "written_name t = t"
proof -
  have "list_all (\<lambda>c. c \<notin> {CHR ''#'', CHR 0x22, CHR 0x27}) t" using assms(2) by (rule list.pred_mono_strong) simp
  from StripComment_plain [OF this, of "[]"] have "StripComment t = t" by (simp add: StripComment_def)
  moreover have e: "hd t \<in> set t" "last t \<in> set t" using assms(1) by simp_all
  ultimately show ?thesis using assms e [THEN bspec [OF assms(2) [unfolded list_all_iff]]] by (simp add: written_name_def Trim_word Unquote_def)
qed

lemma digit_char: "is_digit c \<Longrightarrow> \<not> is_blank c \<and> c \<notin> {CHR ''#'', CHR 0x22, CHR 0x27}"
  by (auto simp: is_digit_def is_blank_def less_eq_char_def)

lemma written_decimal [simp]: "written_name (decimal n) = decimal n"
  by (rule written_word) (use decimal_digits [of n] digit_char in \<open>auto simp: list_all_iff\<close>)

lemma ParseUnsigned_decimal [simp]: "ParseUnsigned (decimal (unat v)) name = Inr (v :: 'w::len word)"
proof -
  have "\<not> 2 ^ LENGTH('w) \<le> unat v" by (simp add: not_le)
  with decimal_digits [of "unat v"] show ?thesis by (simp add: ParseUnsigned_def decimal_value_decimal list_all_iff)
qed

lemma at_line_Inr [simp]: "at_line what n (Inr x) = Inr x"
  by (simp add: at_line_def)

lemma ParseSchemaLine_top:
  assumes "plain_key key" and "key \<notin> {''primary_key'', ''fields''}" and "sq_pending s = None"
  shows "ParseSchemaLine n (kv_line 0 key u) s =
    at_line ''schema'' n (with_config (s\<lparr>sq_section := kTopLevel\<rparr>) (ApplyTopLevelKey key (written_name u)))"
proof -
  note K = kv_line_parsed [OF assms(1), of 0 u]
  have "ParseKeyValue ''primary_key:'' = Inr (''primary_key'', [])" "ParseKeyValue ''fields:'' = Inr (''fields'', [])" by code_simp+
  with K(1) assms(2) have "Trim (StripComment (kv_line 0 key u)) \<notin> {''primary_key:'', ''fields:''}" by auto
  with K assms(3) show ?thesis by (simp add: ParseSchemaLine_def FlushParsedField_def)
qed

lemma ParseSchemaLine_primary:
  assumes "plain_key key" and "sq_section s = kPrimaryKeySection"
  shows "ParseSchemaLine n (kv_line 2 key u) s = at_line ''schema'' n (with_config s (ApplyPrimaryKey key (written_name u)))"
  using kv_line_parsed [OF assms(1), of 2 u] assms(2) by (simp add: ParseSchemaLine_def)

lemma take2_head: "hd t \<noteq> c \<Longrightarrow> take 2 t \<noteq> [c, d]"
  by (cases t) auto

lemma ParseSchemaLine_property:
  assumes "plain_key key" and "sq_section s = kFieldsSection" and "sq_pending s = Some p"
  shows "ParseSchemaLine n (kv_line 4 key u) s = at_line ''schema'' n (with_pending s p (ApplyFieldKey key (written_name u)))"
proof -
  note K = kv_line_parsed [OF assms(1), of 4 u]
  have "hd key \<in> set key" using assms(1) by (simp add: plain_key_def)
  then have "hd key \<noteq> CHR ''-''" using assms(1) by (auto simp: plain_key_def list_all_iff)
  then have "take 2 (Trim (StripComment (kv_line 4 key u))) \<noteq> ''- ''" using K(4) by (intro take2_head) simp
  with K assms(2,3) show ?thesis by (simp add: ParseSchemaLine_def)
qed

lemma ParseSchemaLine_item:
  assumes "sq_section s = kFieldsSection"
  shows "ParseSchemaLine n (''  - '' @ kv_line 0 ''field_id'' (decimal k)) s =
    rbind (FlushParsedField s) (\<lambda>s. at_line ''schema'' n (with_pending s NewParsedField (ApplyFieldKey ''field_id'' (decimal k))))"
proof -
  have key: "plain_key ''field_id''" by code_simp
  let ?l = "kv_line 0 ''field_id'' (decimal k)"
  have d: "list_all (\<lambda>c. c \<notin> {CHR ''#'', CHR 0x22, CHR 0x27}) (decimal k)"
    using decimal_digits [of k] digit_char by (auto simp: list_all_iff)
  have "list_all (\<lambda>c. c \<notin> {CHR ''#'', CHR 0x22, CHR 0x27}) ?l" by (simp add: kv_line_def d [simplified])
  then have l: "list_all (\<lambda>c. c \<notin> {CHR ''#'', CHR 0x22, CHR 0x27}) (''  - '' @ ?l)" by simp
  have s1: "StripComment ?l = ?l" "StripComment (''  - '' @ ?l) = ''  '' @ ''- '' @ ?l"
    using StripComment_plain [OF l, of "[]"] StripComment_plain [of ?l "[]"] l by (simp_all add: StripComment_def)
  have last: "\<not> is_blank (last (decimal k))" using decimal_digits [of k] digit_char by (metis decimal_not_empty last_in_set)
  have "Trim (''  '' @ ''- '' @ ?l) = Trim (''- '' @ ?l)" by (rule Trim_indent) simp
  also have "\<dots> = ''- '' @ ?l" by (rule Trim_word) (use last in \<open>simp_all add: kv_line_def\<close>)
  finally have t: "Trim (''  '' @ ''- '' @ ?l) = ''- '' @ ?l" .
  note K = kv_line_parsed [OF key, of 0 "decimal k", unfolded s1 written_decimal]
  show ?thesis unfolding ParseSchemaLine_def s1 t Let_def using K assms by simp
qed

section \<open>Blocks of the file\<close>

lemma plain_keys [simp]:
  "plain_key ''schema_version''" "plain_key ''shard_count''" "plain_key ''hash_seed''" "plain_key ''hash_version''" "plain_key ''name''"
  "plain_key ''type''" "plain_key ''is_list''" "plain_key ''nullable''" "plain_key ''encoding''"
  by code_simp+

lemma written_type [simp]: "written_name (FieldTypeName t) = FieldTypeName t"
  by (cases t) (simp_all, code_simp+)

lemma written_bool [simp]: "written_name (bool_text b) = bool_text b"
  by (cases b) (simp_all add: bool_text_def, code_simp+)

lemma written_encoding [simp]: "written_name (FieldEncodingConfigName e) = FieldEncodingConfigName e"
  by (cases e) (simp_all, code_simp+)

lemma ParseType_name: "\<not> is_kUnlistedType t \<Longrightarrow> ParseType (FieldTypeName t) = Inr t"
  by (cases t) (simp_all add: ParseType_def)

lemma ParseBool_text [simp]: "ParseBool (bool_text b) = Inr b"
  by (simp add: ParseBool_def bool_text_def)

lemma ParseSchemaLines_append:
  "ParseSchemaLines n (xs @ ys) = (\<lambda>s. rbind (ParseSchemaLines n xs s) (ParseSchemaLines (n + length xs) ys))"
proof (induction xs arbitrary: n)
  case (Cons x xs)
  show ?case by (rule ext) (simp add: Cons.IH rbind_assoc)
qed simp

lemma field_lines_kv:
  "field_lines f = [''  - '' @ kv_line 0 ''field_id'' (decimal (unat (fs_field_id f))), kv_line 4 ''name'' (fs_name f),
     kv_line 4 ''type'' (FieldTypeName (fs_type f)), kv_line 4 ''is_list'' (bool_text (fs_is_list f)),
     kv_line 4 ''nullable'' (bool_text (fs_nullable f)), kv_line 4 ''encoding'' (FieldEncodingConfigName (fs_encoding f)), []]"
  by (simp add: field_lines_def kv_line_def numeral_eq_Suc)

lemma empty_line [simp]: "ParseSchemaLine n [] s = Inr s"
  by (simp add: ParseSchemaLine_def StripComment_def Trim_def)

lemma field_block:
  assumes f: "parsed_field f" and s: "sq_section s = kFieldsSection" and fl: "FlushParsedField s = Inr s1"
  shows "rbind (ParseSchemaLines n (field_lines f) s) FlushParsedField = Inr (add_fields [reread_field f] s1)"
    and "ParseSchemaLines n (field_lines f) s = Inr s2 \<Longrightarrow> sq_section s2 = kFieldsSection"
proof -
  have s1: "sq_section s1 = kFieldsSection" "sq_pending s1 = None"
    using fl s by (auto simp: FlushParsedField_def split: option.splits if_splits)
  define p where "p = \<lparr>pf_field = (reread_field f)\<lparr>fs_encoding := kFixed\<rparr>, pf_encoding_name = FieldEncodingConfigName (fs_encoding f),
     pf_has_field_id = True, pf_has_name = True, pf_has_type = True, pf_has_is_list = True, pf_has_nullable = True, pf_has_encoding = True\<rparr>"
  have "f = \<lparr>fs_field_id = fs_field_id f, fs_name = fs_name f, fs_type = fs_type f, fs_is_list = fs_is_list f, fs_nullable = fs_nullable f,
     fs_encoding = fs_encoding f, fs_default_value = NoDefault, fs_deleted = False\<rparr>" using f by (cases f) (simp add: parsed_field_def)
  then have rr: "(reread_field f)\<lparr>fs_encoding := kFixed\<rparr> = \<lparr>fs_field_id = fs_field_id f, fs_name = written_name (fs_name f), fs_type = fs_type f,
     fs_is_list = fs_is_list f, fs_nullable = fs_nullable f, fs_encoding = kFixed, fs_default_value = NoDefault, fs_deleted = False\<rparr>"
    by (cases f) (simp add: reread_field_def)
  have p: "ParseSchemaLines n (field_lines f) s = Inr (s1\<lparr>sq_pending := Some p\<rparr>)"
    using f s1 unfolding field_lines_kv p_def rr
    by (simp add: fl ParseSchemaLine_item [OF s, simplified] ParseSchemaLine_property with_pending_def ApplyFieldKey_def ParseType_name parsed_field_def
        NewParsedField_def del: rbind_eq_Inr)
  then show "rbind (ParseSchemaLines n (field_lines f) s) FlushParsedField = Inr (add_fields [reread_field f] s1)"
    using f s1 by (simp add: p_def FlushParsedField_def parsed_field_def reread_field_def add_fields_def del: rbind_eq_Inr)
  show "ParseSchemaLines n (field_lines f) s = Inr s2 \<Longrightarrow> sq_section s2 = kFieldsSection" using p s1(1) by auto
qed

lemma field_blocks:
  assumes "\<forall>f \<in> set fs. parsed_field f" and "sq_section s = kFieldsSection" and "FlushParsedField s = Inr s1"
  shows "rbind (ParseSchemaLines n (concat (map field_lines fs)) s) FlushParsedField = Inr (add_fields (map reread_field fs) s1)"
  using assms
proof (induction fs arbitrary: n s s1)
  case Nil
  then show ?case by (simp add: add_fields_def)
next
  case (Cons f fs)
  have f: "parsed_field f" using Cons.prems(1) by simp
  note B = field_block [OF f Cons.prems(2,3), of n]
  from B(1) obtain s2 where s2: "ParseSchemaLines n (field_lines f) s = Inr s2" "FlushParsedField s2 = Inr (add_fields [reread_field f] s1)" by auto
  have "rbind (ParseSchemaLines (n + length (field_lines f)) (concat (map field_lines fs)) s2) FlushParsedField
      = Inr (add_fields (map reread_field fs) (add_fields [reread_field f] s1))"
    by (rule Cons.IH) (use Cons.prems(1) B(2) [OF s2(1)] s2(2) in auto)
  moreover have "add_fields (map reread_field fs) (add_fields [reread_field f] s1) = add_fields (map reread_field (f # fs)) s1"
    by (simp add: add_fields_def)
  ultimately show ?case by (simp add: ParseSchemaLines_append s2(1) rbind_assoc del: rbind_eq_Inr)
qed

lemma head_lines:
  "[''schema_version: '' @ decimal (unat v), ''shard_count: '' @ decimal (unat n), ''hash_seed: '' @ decimal (unat seed),
      ''hash_version: '' @ decimal (unat hv), [], ''primary_key:'', ''  name: '' @ pk, ''  type: uint64'', [], ''fields:'']
   = [kv_line 0 ''schema_version'' (decimal (unat v)), kv_line 0 ''shard_count'' (decimal (unat n)), kv_line 0 ''hash_seed'' (decimal (unat seed)),
      kv_line 0 ''hash_version'' (decimal (unat hv)), [], ''primary_key:'', kv_line 2 ''name'' pk, kv_line 2 ''type'' (FieldTypeName kUInt64), [], ''fields:'']"
  by (simp add: kv_line_def numeral_eq_Suc)

lemma section_lines:
  assumes "sq_pending s = None"
  shows "ParseSchemaLine n ''primary_key:'' s = Inr (s\<lparr>sq_section := kPrimaryKeySection\<rparr>)"
    and "ParseSchemaLine n ''fields:'' s = Inr (s\<lparr>sq_section := kFieldsSection\<rparr>)"
proof -
  have "StripComment ''primary_key:'' = ''primary_key:''" "Trim ''primary_key:'' = ''primary_key:''" "StripComment ''fields:'' = ''fields:''"
    "Trim ''fields:'' = ''fields:''" by code_simp+
  with assms show "ParseSchemaLine n ''primary_key:'' s = Inr (s\<lparr>sq_section := kPrimaryKeySection\<rparr>)"
    "ParseSchemaLine n ''fields:'' s = Inr (s\<lparr>sq_section := kFieldsSection\<rparr>)" by (simp_all add: ParseSchemaLine_def FlushParsedField_def)
qed

lemma getlines_lines: "\<forall>l \<in> set ls. NL \<notin> set l \<Longrightarrow> getlines (concat (map (\<lambda>line. line @ [NL]) ls)) = ls"
proof (induction ls)
  case (Cons l ls)
  have "NL \<notin> set t \<Longrightarrow> getlines (t @ NL # rest) = t # getlines rest" for t rest by (induction t) auto
  with Cons show ?case by simp
qed simp

lemma schema_text_parsed:
  assumes ok: "\<forall>f \<in> set (sc_fields config). parsed_field f" "sc_fields config \<noteq> []" "NL \<notin> set (sc_primary_key_name config)"
    "sc_has_schema_version config" "sc_has_primary_key_name config" "sc_has_primary_key_type config" "sc_primary_key_type config = kUInt64"
  shows "ParseSchemaFile (Some (schema_text config v n seed hv)) = Inr (reread config v n seed hv)"
proof -
  have dec: "NL \<notin> set (decimal k)" for k using decimal_digits [of k] by (auto simp: is_digit_def less_eq_char_def)
  have names: "NL \<notin> set (FieldTypeName t)" "NL \<notin> set (FieldEncodingConfigName e)" "NL \<notin> set (bool_text b)" for t e b
    by (cases t; simp; fail)+ (cases e; simp; fail | simp add: bool_text_def)+
  have "\<forall>l \<in> set (schema_lines config v n seed hv). NL \<notin> set l"
    using ok(1,3) dec names by (auto simp: schema_lines_def field_lines_def parsed_field_def)
  note lines = getlines_lines [OF this, folded schema_text_def]
  define s0 where "s0 = NewSchemaParse\<lparr>sq_section := kFieldsSection, sq_config := NewParsedSchemaConfig\<lparr>sc_schema_version := v,
     sc_has_schema_version := True, sc_shard_count := Some n, sc_hash_seed := Some seed, sc_hash_version := Some hv,
     sc_primary_key_name := written_name (sc_primary_key_name config), sc_has_primary_key_name := True, sc_has_primary_key_type := True\<rparr>\<rparr>"
  have "FlushParsedField s0 = Inr s0" by (simp add: s0_def NewSchemaParse_def FlushParsedField_def)
  then have b: "rbind (ParseSchemaLines k (concat (map field_lines (sc_fields config))) s0) FlushParsedField
      = Inr (add_fields (map reread_field (sc_fields config)) s0)" for k
    by (intro field_blocks) (use ok(1) in \<open>simp_all add: s0_def\<close>)
  have h: "ParseSchemaLines 1 (schema_lines config v n seed hv) NewSchemaParse = ParseSchemaLines 11 (concat (map field_lines (sc_fields config))) s0"
    unfolding schema_lines_def head_lines ParseSchemaLines_append
    by (simp add: ParseSchemaLine_top ParseSchemaLine_primary section_lines with_config_def ApplyTopLevelKey_def ApplyPrimaryKey_def ParseType_def
        NewSchemaParse_def NewParsedSchemaConfig_def s0_def written_type [of kUInt64, simplified] del: rbind_eq_Inr) (simp add: numeral_eq_Suc)
  have "ParseSchemaFile (Some (schema_text config v n seed hv))
      = rbind (rbind (ParseSchemaLines 11 (concat (map field_lines (sc_fields config))) s0) FlushParsedField) (\<lambda>s. CheckSchemaConfig (sq_config s))"
    by (simp add: ParseSchemaFile_def lines h [unfolded One_nat_def] rbind_assoc del: rbind_eq_Inr)
  also have "\<dots> = Inr (reread config v n seed hv)"
    unfolding b using ok(2,4-7) by (cases config)
      (simp add: CheckSchemaConfig_def add_fields_def s0_def NewSchemaParse_def NewParsedSchemaConfig_def reread_def)
  finally show ?thesis .
qed

section \<open>What the parser accepts\<close>

lemma set_Trim: "set (Trim t) \<subseteq> set t"
  by (auto simp: Trim_def dest!: set_dropWhileD)

lemma set_StripComment: "set (StripComment t) \<subseteq> set t"
proof -
  have "set (StripCommentFrom a b t) \<subseteq> set t" for a b by (induction t arbitrary: a b) auto
  then show ?thesis by (simp add: StripComment_def)
qed

lemma set_Unquote: "set (Unquote t) \<subseteq> set t"
  by (cases t) (auto simp: Unquote_def dest: in_set_butlastD split: if_splits)

lemma ParseKeyValue_set:
  assumes "ParseKeyValue t = Inr (k, v)"
  shows "set v \<subseteq> set t"
proof -
  have v: "v = Unquote (Trim (tl (dropWhile (\<lambda>c. c \<noteq> CHR '':'') t)))" using assms by (auto simp: ParseKeyValue_def Let_def split: if_splits)
  have "set (tl (dropWhile (\<lambda>c. c \<noteq> CHR '':'') t)) \<subseteq> set t" by (metis list.set_sel(2) set_dropWhileD subsetI tl_Nil)
  then show ?thesis unfolding v using set_Unquote set_Trim by (meson order_trans)
qed

lemma at_line_Inr_iff [simp]: "at_line what n r = Inr x \<longleftrightarrow> r = Inr x"
  by (auto simp: at_line_def split: sum.splits failure.splits)

lemma ParseType_listed: "ParseType t = Inr ty \<Longrightarrow> \<not> is_kUnlistedType ty"
  by (auto simp: ParseType_def split: if_splits)

lemma ApplyFieldKey_ok: "ApplyFieldKey k v p = Inr p' \<Longrightarrow> pending_ok p \<Longrightarrow> NL \<notin> set v \<Longrightarrow> pending_ok p'"
  by (auto simp: ApplyFieldKey_def pending_ok_def dest: ParseType_listed split: if_splits)

lemma config_key_ok:
  assumes "NL \<notin> set v"
  shows "ApplyTopLevelKey k v c = Inr c' \<Longrightarrow> sc_fields c' = sc_fields c \<and> sc_primary_key_name c' = sc_primary_key_name c"
    and "ApplyPrimaryKey k v c = Inr c' \<Longrightarrow> sc_fields c' = sc_fields c \<and> (NL \<notin> set (sc_primary_key_name c) \<longrightarrow> NL \<notin> set (sc_primary_key_name c'))"
  using assms by (auto simp: ApplyTopLevelKey_def ApplyPrimaryKey_def split: if_splits)

lemma encoding_name: "ParseFieldEncoding name l t = Inr e \<Longrightarrow> ParseFieldEncoding (FieldEncodingConfigName e) l t = Inr e"
  by (auto simp: ParseFieldEncoding_def split: if_splits)

lemma FlushParsedField_ok: "FlushParsedField s = Inr s' \<Longrightarrow> parse_ok s \<Longrightarrow> parse_ok s' \<and> sq_pending s' = None"
  by (auto simp: FlushParsedField_def parse_ok_def pending_ok_def parsed_field_def encoding_name split: option.splits if_splits)

lemma NewParsedField_ok: "pending_ok NewParsedField"
  by (simp add: pending_ok_def NewParsedField_def)

lemma with_ok:
  assumes "parse_ok s" and "NL \<notin> set v"
  shows "with_config (s\<lparr>sq_section := x\<rparr>) (ApplyTopLevelKey k v) = Inr s' \<Longrightarrow> parse_ok s'"
    and "with_config s (ApplyPrimaryKey k v) = Inr s' \<Longrightarrow> parse_ok s'"
    and "with_pending s p (ApplyFieldKey k v) = Inr s' \<Longrightarrow> pending_ok p \<Longrightarrow> parse_ok s'"
  using assms by (auto simp: with_config_def with_pending_def parse_ok_def dest: config_key_ok [OF assms(2)] ApplyFieldKey_ok)

lemma ParseSchemaLine_ok:
  assumes "ParseSchemaLine n line s = Inr s'" and s: "parse_ok s" and "NL \<notin> set line"
  shows "parse_ok s'"
proof -
  define t where "t = Trim (StripComment line)"
  have nl: "NL \<notin> set t" unfolding t_def using assms(3) set_Trim set_StripComment by blast
  have v: "NL \<notin> set v" if "ParseKeyValue t = Inr (k, v) \<or> ParseKeyValue (Trim (drop 2 t)) = Inr (k, v)" for k v
    using that ParseKeyValue_set set_Trim [of "drop 2 t"] set_drop_subset [of 2 t] nl by blast
  have sec: "parse_ok (s\<lparr>sq_section := x\<rparr>)" if "parse_ok s" for s x using that by (simp add: parse_ok_def)
  have pend: "pending_ok p" if "sq_pending s = Some p" for p using s that by (simp add: parse_ok_def)
  note line = assms(1) [unfolded ParseSchemaLine_def t_def [symmetric] Let_def]
  show ?thesis
  proof (cases "t = []")
    case False
    note line = line [unfolded if_not_P [OF False]]
    show ?thesis
    proof (cases "length (takeWhile (\<lambda>c. c = CHR '' '') (StripComment line)) = 0")
      case True
      from line [unfolded if_P [OF True] rbind_eq_Inr] obtain s1 where s1: "FlushParsedField s = Inr s1"
        and l: "(if t = ''primary_key:'' then Inr (s1\<lparr>sq_section := kPrimaryKeySection\<rparr>)
          else if t = ''fields:'' then Inr (s1\<lparr>sq_section := kFieldsSection\<rparr>)
          else rbind (at_line ''schema'' n (ParseKeyValue t)) (\<lambda>(key, value).
            at_line ''schema'' n (with_config (s1\<lparr>sq_section := kTopLevel\<rparr>) (ApplyTopLevelKey key value)))) = Inr s'" by blast
      have "parse_ok s1" using FlushParsedField_ok [OF s1 s] by blast
      with l v show ?thesis by (auto split: if_splits intro: sec with_ok(1))
    next
      case F: False
      note line = line [unfolded if_not_P [OF F]]
      show ?thesis
      proof (cases "sq_section s")
        case kPrimaryKeySection
        with line v s show ?thesis by (auto intro: with_ok(2))
      next
        case kFieldsSection
        show ?thesis
        proof (cases "take 2 t = ''- ''")
          case True
          from line [unfolded kFieldsSection Section.case if_P [OF True] rbind_eq_Inr] obtain s1 where s1: "FlushParsedField s = Inr s1"
            and l: "(if Trim (drop 2 t) = [] then Inr (s1\<lparr>sq_pending := Some NewParsedField\<rparr>)
              else rbind (at_line ''field'' n (ParseKeyValue (Trim (drop 2 t)))) (\<lambda>(key, value).
                at_line ''schema'' n (with_pending s1 NewParsedField (ApplyFieldKey key value)))) = Inr s'" by blast
          have o1: "parse_ok s1" using FlushParsedField_ok [OF s1 s] by blast
          then have "parse_ok (s1\<lparr>sq_pending := Some NewParsedField\<rparr>)" using NewParsedField_ok by (simp add: parse_ok_def)
          with l v o1 show ?thesis by (auto split: if_splits intro: with_ok(3) NewParsedField_ok)
        next
          case False
          show ?thesis using line [unfolded kFieldsSection Section.case if_not_P [OF False]] v s
            by (auto split: option.splits intro: with_ok(3) pend)
        qed
      qed (use line in simp)
    qed
  qed (use line s in simp)
qed

lemma ParseSchemaLines_ok:
  "ParseSchemaLines n lines s = Inr s' \<Longrightarrow> parse_ok s \<Longrightarrow> \<forall>l \<in> set lines. NL \<notin> set l \<Longrightarrow> parse_ok s'"
  by (induction n lines s rule: ParseSchemaLines.induct) (auto dest: ParseSchemaLine_ok)

lemma getlines_NL: "l \<in> set (getlines t) \<Longrightarrow> NL \<notin> set l"
  by (induction t arbitrary: l rule: getlines.induct) (auto split: if_splits list.splits)

lemma ParseSchemaFile_ok:
  assumes "ParseSchemaFile input = Inr config"
  shows "(\<forall>f \<in> set (sc_fields config). parsed_field f) \<and> sc_fields config \<noteq> [] \<and> NL \<notin> set (sc_primary_key_name config)
    \<and> sc_has_schema_version config \<and> sc_has_primary_key_name config \<and> sc_has_primary_key_type config \<and> sc_primary_key_type config = kUInt64"
proof -
  obtain t s s1 where "ParseSchemaLines 1 (getlines t) NewSchemaParse = Inr s" "FlushParsedField s = Inr s1" and c: "CheckSchemaConfig (sq_config s1) = Inr config"
    using assms by (auto simp: ParseSchemaFile_def split: option.splits)
  moreover have "parse_ok NewSchemaParse" by (simp add: parse_ok_def NewSchemaParse_def NewParsedSchemaConfig_def)
  ultimately have "parse_ok s1" using ParseSchemaLines_ok FlushParsedField_ok getlines_NL by blast
  with c show ?thesis by (auto simp: CheckSchemaConfig_def parse_ok_def split: if_splits)
qed

text \<open>
  C17. The schema file that the offline tool writes can be read again: for every configuration that was read from a schema file,
  reading the written file gives the same fields, with the versions, the shard count and the hash parameters that
  were chosen for the artifact. Names are written without quotes, so a name is kept exactly when it reads back from its bare text.
\<close>

theorem schema_file_roundtrip:
  assumes "ParseSchemaFile input = Inr config"
  shows "ParseSchemaFile (Some (schema_text config v n seed hv)) = Inr (reread config v n seed hv)
    \<and> (reread config v n seed hv = config\<lparr>sc_schema_version := v, sc_shard_count := Some n, sc_hash_seed := Some seed, sc_hash_version := Some hv\<rparr>
        \<longleftrightarrow> (\<forall>name \<in> insert (sc_primary_key_name config) (fs_name ` set (sc_fields config)). written_name name = name))"
proof -
  have "map reread_field fs = fs \<longleftrightarrow> (\<forall>f \<in> set fs. written_name (fs_name f) = fs_name f)" for fs
  proof (induction fs)
    case (Cons f fs)
    have "reread_field f = f \<longleftrightarrow> written_name (fs_name f) = fs_name f" by (cases f) (auto simp: reread_field_def)
    with Cons show ?case by simp
  qed simp
  then have "reread config v n seed hv = config\<lparr>sc_schema_version := v, sc_shard_count := Some n, sc_hash_seed := Some seed, sc_hash_version := Some hv\<rparr>
      \<longleftrightarrow> (\<forall>name \<in> insert (sc_primary_key_name config) (fs_name ` set (sc_fields config)). written_name name = name)"
    by (cases config) (auto simp: reread_def)
  with schema_text_parsed [of config v n seed hv] ParseSchemaFile_ok [OF assms] show ?thesis by blast
qed

theorem schema_file_roundtrip_witness:
  "\<exists>config config'. ParseSchemaFile (Some (schema_text quoted_config 7 16 3 1)) = Inr config
     \<and> map fs_name (sc_fields config) = [''a#b'', ''n''] \<and> sc_schema_version config = 7
     \<and> ParseSchemaFile (Some (schema_text config 8 128 0 1)) = Inr config' \<and> map fs_name (sc_fields config') = [''a'', ''n'']
     \<and> sc_schema_version config' = 8"
proof -
  have w: "written_name ([CHR 0x22] @ ''a#b'' @ [CHR 0x22]) = ''a#b''" "written_name ''a#b'' = ''a''" "written_name ''n'' = ''n''" by code_simp+
  let ?c = "reread quoted_config 7 16 3 1"
  have c: "ParseSchemaFile (Some (schema_text quoted_config 7 16 3 1)) = Inr ?c"
    by (rule schema_text_parsed) (simp_all add: quoted_config_def NewParsedSchemaConfig_def parsed_field_def ParseFieldEncoding_def)
  have n: "map fs_name (sc_fields ?c) = [''a#b'', ''n'']" "map fs_name (sc_fields (reread ?c 8 128 0 1)) = [''a'', ''n'']"
    using w by (simp_all add: reread_def reread_field_def quoted_config_def)
  have v: "sc_schema_version ?c = 7" "sc_schema_version (reread ?c 8 128 0 1) = 8" by (simp_all add: reread_def)
  have r: "ParseSchemaFile (Some (schema_text ?c 8 128 0 1)) = Inr (reread ?c 8 128 0 1)" using schema_file_roundtrip [OF c] by (rule conjunct1)
  show ?thesis by (rule exI [of _ ?c], rule exI [of _ "reread ?c 8 128 0 1"], intro conjI) (fact c n v r)+
qed

end
