(* ===== verification/Offline_Rows.thy ===== *)
theory Offline_Rows
  imports Offline_Schema Field_Encoder Artifact_Writer Forward_Index
begin

text \<open>
  The middle of \<open>tools/offline/src/offline_artifact_builder.cc\<close>: the rows of a Parquet table are read column by column,
  encoded for the layout and put into the shard of their key. Arrow and Parquet are a parameter (\<open>arrow\<close>): the functions of
  the library that the code calls on arrays of a type \<open>'a\<close> and tables of a type \<open>'t\<close>.
\<close>

section \<open>Arrow\<close>

text \<open>The types that the code names; every other type is \<open>OtherArrow\<close>.\<close>

datatype ArrowType = INT8 | INT32 | INT64 | UINT64 | BOOL | STRING | LARGE_STRING | LIST | LARGE_LIST | OtherArrow

text \<open>
  Arrays, the chunks of a column, tables and the Parquet reader. Indexes and lengths are of type \<open>int64_t\<close>. The functions of the reader give
  the text of a failed \<open>arrow::Status\<close>.
\<close>

record ('fs, 't, 'a) arrow =
  aw_type_id :: "'a \<Rightarrow> ArrowType"
  aw_length :: "'a \<Rightarrow> int"
  aw_IsNull :: "'a \<Rightarrow> int \<Rightarrow> bool"
  aw_Int8Value :: "'a \<Rightarrow> int \<Rightarrow> u8"
  aw_Int32Value :: "'a \<Rightarrow> int \<Rightarrow> u32"
  aw_Int64Value :: "'a \<Rightarrow> int \<Rightarrow> u64"
  aw_UInt64Value :: "'a \<Rightarrow> int \<Rightarrow> u64"
  aw_BooleanValue :: "'a \<Rightarrow> int \<Rightarrow> bool"
  aw_GetString :: "'a \<Rightarrow> int \<Rightarrow> string"
  aw_values :: "'a \<Rightarrow> 'a"
  aw_value_offset :: "'a \<Rightarrow> int \<Rightarrow> int"
  aw_value_length :: "'a \<Rightarrow> int \<Rightarrow> int"
  aw_num_rows :: "'t \<Rightarrow> int"
  aw_GetColumnByName :: "'t \<Rightarrow> string \<Rightarrow> 'a list option"
  aw_OpenFile :: "'fs \<Rightarrow> string \<Rightarrow> string option"
  aw_Build :: "'fs \<Rightarrow> string \<Rightarrow> string option"
  aw_ReadTable :: "'fs \<Rightarrow> string \<Rightarrow> string + 't option"

definition ArrowStatusToKv :: "string \<Rightarrow> string \<Rightarrow> 'b res" where
  "ArrowStatusToKv status context = Inl (InvalidArgument (context @ '': '' @ status))"

definition CheckedArray :: "('fs, 't, 'a) arrow \<Rightarrow> 'a \<Rightarrow> ArrowType \<Rightarrow> string \<Rightarrow> 'a res" where
  "CheckedArray aw array expected field_name =
     (if aw_type_id aw array \<noteq> expected
      then Inl (InvalidArgument (''parquet column has wrong type for field '' @ field_name)) else Inr array)"

fun LocateArrayFrom :: "('fs, 't, 'a) arrow \<Rightarrow> 'a list \<Rightarrow> int \<Rightarrow> int \<Rightarrow> ('a \<times> int) res" where
  "LocateArrayFrom aw [] offset row_index = Inl (InvalidArgument ''row index is out of parquet column bounds'')"
| "LocateArrayFrom aw (chunk # chunks) offset row_index =
     (if row_index < offset + aw_length aw chunk then Inr (chunk, row_index - offset)
      else LocateArrayFrom aw chunks (offset + aw_length aw chunk) row_index)"

definition LocateArray :: "('fs, 't, 'a) arrow \<Rightarrow> 'a list \<Rightarrow> int \<Rightarrow> ('a \<times> int) res" where
  "LocateArray aw column row_index = LocateArrayFrom aw column 0 row_index"

definition ReadPrimaryKey :: "('fs, 't, 'a) arrow \<Rightarrow> 'a list \<Rightarrow> int \<Rightarrow> string \<Rightarrow> u64 res" where
  "ReadPrimaryKey aw column row_index name =
     rbind (LocateArray aw column row_index) (\<lambda>(array, local).
     if aw_IsNull aw array local then Inl (InvalidArgument (''primary key column contains null: '' @ name))
     else if aw_type_id aw array = UINT64 then Inr (aw_UInt64Value aw array local)
     else if aw_type_id aw array = INT64 then
       (let v = aw_Int64Value aw array local in
        if sint v < 0 then Inl (InvalidArgument ''primary key column contains negative value'') else Inr v)
     else Inl (InvalidArgument ''primary key column must be uint64 or int64''))"

section \<open>Values\<close>

text \<open>
  \<open>ReadIntegerValue\<close> compares a value with the bounds of its own type, which it cannot leave, so the comparison has no branch
  here. Its instances read the four integer types.
\<close>

definition ReadIntegerValue ::
    "('fs, 't, 'a) arrow \<Rightarrow> ('a \<Rightarrow> int \<Rightarrow> 'w::len word) \<Rightarrow> 'a \<Rightarrow> int \<Rightarrow> ArrowType \<Rightarrow> string \<Rightarrow> 'w word res" where
  "ReadIntegerValue aw Value array index expected field_name =
     rbind (CheckedArray aw array expected field_name) (\<lambda>typed. Inr (Value typed index))"

definition ReadStringValue :: "('fs, 't, 'a) arrow \<Rightarrow> 'a \<Rightarrow> int \<Rightarrow> string \<Rightarrow> string res" where
  "ReadStringValue aw array index field_name =
     (if aw_type_id aw array = STRING \<or> aw_type_id aw array = LARGE_STRING then Inr (aw_GetString aw array index)
      else Inl (InvalidArgument (''parquet column has wrong type for field '' @ field_name)))"

definition off_ReadScalarValue :: "('fs, 't, 'a) arrow \<Rightarrow> FieldLayout \<Rightarrow> 'a \<Rightarrow> int \<Rightarrow> FieldDefaultValue res" where
  "off_ReadScalarValue aw field array index =
     (case fl_type field of
        kInt8 \<Rightarrow> rbind (ReadIntegerValue aw (aw_Int8Value aw) array index INT8 (fl_name field)) (\<lambda>v. Inr (DefaultScalar (SInt8 v)))
      | kInt32 \<Rightarrow> rbind (ReadIntegerValue aw (aw_Int32Value aw) array index INT32 (fl_name field)) (\<lambda>v. Inr (DefaultScalar (SInt32 v)))
      | kInt64 \<Rightarrow> rbind (ReadIntegerValue aw (aw_Int64Value aw) array index INT64 (fl_name field)) (\<lambda>v. Inr (DefaultScalar (SInt64 v)))
      | kUInt64 \<Rightarrow> rbind (ReadIntegerValue aw (aw_UInt64Value aw) array index UINT64 (fl_name field)) (\<lambda>v. Inr (DefaultScalar (SUInt64 v)))
      | kBool \<Rightarrow> rbind (CheckedArray aw array BOOL (fl_name field)) (\<lambda>typed. Inr (DefaultScalar (SBool (aw_BooleanValue aw typed index))))
      | kString \<Rightarrow> rbind (ReadStringValue aw array index (fl_name field)) (\<lambda>v. Inr (DefaultScalar (SString v)))
      | _ \<Rightarrow> Inl (InvalidArgument ''unsupported scalar field type''))"

text \<open>The loop over the elements of a list; \<open>read\<close> gives the element at an index.\<close>

definition ReadElements :: "('fs, 't, 'a) arrow \<Rightarrow> (int \<Rightarrow> 'v res) \<Rightarrow> 'a \<Rightarrow> int \<Rightarrow> int \<Rightarrow> 'v list res" where
  "ReadElements aw read values start len =
     mapM_res (\<lambda>i. let index = start + int i in
       if aw_IsNull aw values index then Inl (InvalidArgument ''list field contains null element'') else read index) [0..<nat len]"

definition ReadIntegerList ::
    "('fs, 't, 'a) arrow \<Rightarrow> ('a \<Rightarrow> int \<Rightarrow> 'w::len word) \<Rightarrow> 'a \<Rightarrow> int \<Rightarrow> int \<Rightarrow> ArrowType \<Rightarrow> string \<Rightarrow> 'w word list res" where
  "ReadIntegerList aw Value values start len expected field_name =
     rbind (CheckedArray aw values expected field_name) (\<lambda>typed.
     ReadElements aw (\<lambda>index. Inr (Value typed index)) values start len)"

definition ReadListValuesByType :: "('fs, 't, 'a) arrow \<Rightarrow> FieldLayout \<Rightarrow> 'a \<Rightarrow> int \<Rightarrow> int \<Rightarrow> FieldDefaultValue res" where
  "ReadListValuesByType aw field values start len =
     (case fl_type field of
        kInt8 \<Rightarrow> rbind (ReadIntegerList aw (aw_Int8Value aw) values start len INT8 (fl_name field)) (\<lambda>v. Inr (DefaultList (LInt8 v)))
      | kInt32 \<Rightarrow> rbind (ReadIntegerList aw (aw_Int32Value aw) values start len INT32 (fl_name field)) (\<lambda>v. Inr (DefaultList (LInt32 v)))
      | kInt64 \<Rightarrow> rbind (ReadIntegerList aw (aw_Int64Value aw) values start len INT64 (fl_name field)) (\<lambda>v. Inr (DefaultList (LInt64 v)))
      | kUInt64 \<Rightarrow> rbind (ReadIntegerList aw (aw_UInt64Value aw) values start len UINT64 (fl_name field)) (\<lambda>v. Inr (DefaultList (LUInt64 v)))
      | kBool \<Rightarrow>
          rbind (CheckedArray aw values BOOL (fl_name field)) (\<lambda>typed.
          rbind (ReadElements aw (\<lambda>index. Inr (aw_BooleanValue aw typed index)) values start len) (\<lambda>v. Inr (DefaultList (LBool v))))
      | kString \<Rightarrow>
          rbind (ReadElements aw (\<lambda>index. ReadStringValue aw values index (fl_name field)) values start len) (\<lambda>v.
          Inr (DefaultList (LString v)))
      | _ \<Rightarrow> Inl (InvalidArgument ''unsupported list field type''))"

definition off_ReadListValue :: "('fs, 't, 'a) arrow \<Rightarrow> FieldLayout \<Rightarrow> 'a \<Rightarrow> int \<Rightarrow> FieldDefaultValue res" where
  "off_ReadListValue aw field array index =
     (if aw_type_id aw array = LIST \<or> aw_type_id aw array = LARGE_LIST
      then ReadListValuesByType aw field (aw_values aw array) (aw_value_offset aw array index) (aw_value_length aw array index)
      else Inl (InvalidArgument (''parquet column has wrong list type for field '' @ fl_name field)))"

definition ReadFieldValue :: "('fs, 't, 'a) arrow \<Rightarrow> FieldLayout \<Rightarrow> 'a list \<Rightarrow> int \<Rightarrow> FieldDefaultValue res" where
  "ReadFieldValue aw field column row_index =
     rbind (LocateArray aw column row_index) (\<lambda>(array, local).
     if aw_IsNull aw array local then
       (if fl_nullable field then Inr NoDefault
        else Inl (InvalidArgument (''required field contains null: '' @ fl_name field)))
     else if fl_is_list field then off_ReadListValue aw field array local
     else off_ReadScalarValue aw field array local)"

section \<open>Encoding\<close>

text \<open>\<open>AppendLittleEndian\<close> for the elements of a list of scalars; a \<open>bool\<close> is one byte.\<close>

fun AppendElements :: "ListValue \<Rightarrow> byte list" where
  "AppendElements (LInt8 vs) = concat (map le_bytes vs)"
| "AppendElements (LInt32 vs) = concat (map le_bytes vs)"
| "AppendElements (LInt64 vs) = concat (map le_bytes vs)"
| "AppendElements (LUInt64 vs) = concat (map le_bytes vs)"
| "AppendElements (LBool vs) = concat (map (\<lambda>v. le_bytes (if v then 1 else 0 :: u8)) vs)"
| "AppendElements (LString vs) = []"

text \<open>\<open>WriteValueRefBytes\<close> overwrites sixteen bytes, which the caller has made room for.\<close>

definition WriteValueRefBytes :: "nat \<Rightarrow> u64 \<Rightarrow> u32 \<Rightarrow> u32 \<Rightarrow> byte list \<Rightarrow> byte list" where
  "WriteValueRefBytes offset ref_offset byte_length element_count_or_flags bytes =
     overwrite (offset + 12) (le_bytes element_count_or_flags)
       (overwrite (offset + 8) (le_bytes byte_length) (overwrite offset (le_bytes ref_offset) bytes))"

definition WriteScalarListArena :: "FieldLayout \<Rightarrow> ListValue \<Rightarrow> EncodedRow \<Rightarrow> EncodedRow upd" where
  "WriteScalarListArena field values encoded =
     (let offset = length (er_arena encoded);
          encoded = encoded\<lparr>er_arena := er_arena encoded @ AppendElements values\<rparr>;
          byte_length64 = length (er_arena encoded) - offset in
      if byte_length64 > 2 ^ 32 - 1 \<or> list_length values > 2 ^ 32 - 1
      then (Inl (InvalidArgument ''list value is too large''), Some encoded)
      else WriteValueRefField field
             \<lparr>vr_offset = of_nat offset, vr_byte_length = of_nat byte_length64,
              vr_element_count_or_flags = of_nat (list_length values)\<rparr> (Some encoded))"

text \<open>The loop over the strings; \<open>offset\<close> is the place of the next reference.\<close>

fun WriteStringRefs :: "string list \<Rightarrow> nat \<Rightarrow> byte list \<Rightarrow> unit res \<times> byte list" where
  "WriteStringRefs [] offset arena = (Inr (), arena)"
| "WriteStringRefs (value # values) offset arena =
     (if length value > 2 ^ 32 - 1 then (Inl (InvalidArgument ''string list element is too large''), arena)
      else WriteStringRefs values (offset + 16)
             (WriteValueRefBytes offset (of_nat (length arena)) (of_nat (length value)) 0 (arena @ bytes_of_string value)))"

definition WriteStringListArena :: "FieldLayout \<Rightarrow> string list \<Rightarrow> EncodedRow \<Rightarrow> EncodedRow upd" where
  "WriteStringListArena field values encoded =
     (if length values > 2 ^ 32 - 1 then (Inl (InvalidArgument ''string list is too large''), Some encoded)
      else
        (let ref_offset = length (er_arena encoded); ref_bytes = length values * 16 in
         case WriteStringRefs values ref_offset (er_arena encoded @ replicate ref_bytes 0) of
           (Inl e, arena) \<Rightarrow> (Inl e, Some (encoded\<lparr>er_arena := arena\<rparr>))
         | (Inr _, arena) \<Rightarrow>
             (if ref_bytes > 2 ^ 32 - 1
              then (Inl (InvalidArgument ''string list ref payload is too large''), Some (encoded\<lparr>er_arena := arena\<rparr>))
              else WriteValueRefField field
                     \<lparr>vr_offset = of_nat ref_offset, vr_byte_length = of_nat ref_bytes,
                      vr_element_count_or_flags = of_nat (length values)\<rparr> (Some (encoded\<lparr>er_arena := arena\<rparr>)))))"

text \<open>\<open>std::get\<close> throws when the variant holds another alternative.\<close>

definition get_scalar :: "FieldType \<Rightarrow> FieldDefaultValue \<Rightarrow> ScalarValue res" where
  "get_scalar t value =
     (case value of DefaultScalar v \<Rightarrow> (if scalar_type v = t then Inr v else Inl (Throw ''bad_variant_access''))
      | _ \<Rightarrow> Inl (Throw ''bad_variant_access''))"

definition get_list :: "FieldType \<Rightarrow> FieldDefaultValue \<Rightarrow> ListValue res" where
  "get_list t value =
     (case value of DefaultList v \<Rightarrow> (if list_type v = t then Inr v else Inl (Throw ''bad_variant_access''))
      | _ \<Rightarrow> Inl (Throw ''bad_variant_access''))"

definition off_WriteScalarFieldValue :: "FieldLayout \<Rightarrow> FieldDefaultValue \<Rightarrow> EncodedRow \<Rightarrow> EncodedRow upd" where
  "off_WriteScalarFieldValue field value encoded =
     (if is_kUnlistedType (fl_type field) then (Inl (InvalidArgument ''unsupported scalar field encoding''), Some encoded)
      else
        (case get_scalar (fl_type field) value of
           Inl e \<Rightarrow> (Inl e, Some encoded)
         | Inr (SString string_value) \<Rightarrow>
             (if fl_encoding field = kArena then WriteArenaStringField field string_value (Some encoded)
              else if fl_encoding field = kDictionary then
                (if length (er_string_dictionary encoded) > 2 ^ 32 - 1
                 then (Inl (InvalidArgument ''string dictionary is too large''), Some encoded)
                 else WriteDictionaryStringField field (of_nat (length (er_string_dictionary encoded)))
                        (Some (encoded\<lparr>er_string_dictionary := er_string_dictionary encoded @ [string_value]\<rparr>)))
              else (Inl (InvalidArgument ''unsupported scalar field encoding''), Some encoded))
         | Inr v \<Rightarrow> WriteScalarField field v (Some encoded)))"

text \<open>The loop that adds the strings to the element dictionary and collects their ids.\<close>

fun off_AddElements :: "string list \<Rightarrow> EncodedRow \<Rightarrow> u32 list res \<times> EncodedRow" where
  "off_AddElements [] encoded = (Inr [], encoded)"
| "off_AddElements (string_value # values) encoded =
     (if length (er_string_element_dictionary encoded) > 2 ^ 32 - 1
      then (Inl (InvalidArgument ''element dictionary is too large''), encoded)
      else
        (case off_AddElements values (encoded\<lparr>er_string_element_dictionary := er_string_element_dictionary encoded @ [string_value]\<rparr>) of
           (Inl e, encoded') \<Rightarrow> (Inl e, encoded')
         | (Inr ids, encoded') \<Rightarrow> (Inr (of_nat (length (er_string_element_dictionary encoded)) # ids), encoded')))"

text \<open>A list dictionary of scalars takes any list, and the element count is narrowed without a check.\<close>

fun visited_list :: "FieldDefaultValue \<Rightarrow> byte list \<times> nat" where
  "visited_list (DefaultList (LString vs)) = ([], 0)"
| "visited_list (DefaultList vs) = (AppendElements vs, list_length vs)"
| "visited_list v = ([], 0)"

definition off_WriteListFieldValue :: "FieldLayout \<Rightarrow> FieldDefaultValue \<Rightarrow> EncodedRow \<Rightarrow> EncodedRow upd" where
  "off_WriteListFieldValue field value encoded =
     (if fl_encoding field = kArena \<and> \<not> is_kUnlistedType (fl_type field) then
        (case get_list (fl_type field) value of
           Inl e \<Rightarrow> (Inl e, Some encoded)
         | Inr (LString values) \<Rightarrow> WriteStringListArena field values encoded
         | Inr values \<Rightarrow> WriteScalarListArena field values encoded)
      else if fl_encoding field = kListDictionary then
        (if fl_type field = kString then
           (case get_list kString value of
              Inr (LString values) \<Rightarrow>
                (if length (er_string_list_dictionary encoded) > 2 ^ 32 - 1 \<or> length values > 2 ^ 32 - 1
                 then (Inl (InvalidArgument ''string-list dictionary is too large''), Some encoded)
                 else WriteListDictionaryField field (of_nat (length (er_string_list_dictionary encoded))) (of_nat (length values))
                        (Some (encoded\<lparr>er_string_list_dictionary := er_string_list_dictionary encoded @ [values]\<rparr>)))
            | _ \<Rightarrow> (Inl (Throw ''bad_variant_access''), Some encoded))
         else
           (let (bytes, element_count) = visited_list value in
            if length (er_scalar_list_dictionary encoded) > 2 ^ 32 - 1
            then (Inl (InvalidArgument ''scalar-list dictionary is too large''), Some encoded)
            else WriteListDictionaryField field (of_nat (length (er_scalar_list_dictionary encoded))) (of_nat element_count)
                   (Some (encoded\<lparr>er_scalar_list_dictionary := er_scalar_list_dictionary encoded @ [bytes]\<rparr>))))
      else if fl_encoding field = kElementDictionary \<and> fl_type field = kString then
        (case get_list kString value of
           Inr (LString values) \<Rightarrow>
             (if length values > 2 ^ 32 - 1 then (Inl (InvalidArgument ''element dictionary list is too large''), Some encoded)
              else
                (case off_AddElements values encoded of
                   (Inl e, encoded) \<Rightarrow> (Inl e, Some encoded)
                 | (Inr ids, encoded) \<Rightarrow> WriteElementDictionaryStringListField field ids (Some encoded)))
         | _ \<Rightarrow> (Inl (Throw ''bad_variant_access''), Some encoded))
      else (Inl (InvalidArgument ''unsupported list field encoding''), Some encoded))"

text \<open>One round of the loop over the fields of the layout.\<close>

definition EncodeRowField :: "(FieldId \<rightharpoonup> FieldDefaultValue) \<Rightarrow> FieldLayout \<Rightarrow> EncodedRow \<Rightarrow> EncodedRow res" where
  "EncodeRowField values field encoded =
     (if values (fl_field_id field) \<in> {None, Some NoDefault} then
        (if \<not> fl_nullable field \<and> \<not> fl_HasDefault field
         then Inl (InvalidArgument (''required field is absent: '' @ fl_name field)) else Inr encoded)
      else
        (case (if fl_is_list field then off_WriteListFieldValue field (the (values (fl_field_id field))) encoded
               else off_WriteScalarFieldValue field (the (values (fl_field_id field))) encoded) of
           (Inl e, _) \<Rightarrow> Inl e
         | (Inr _, after) \<Rightarrow> Inr (the after)))"

definition EncodeRow :: "CompiledRowLayout \<Rightarrow> (FieldId \<rightharpoonup> FieldDefaultValue) \<Rightarrow> EncodedRow res" where
  "EncodeRow layout values = foldM_res (EncodeRowField values) (cl_fields layout) (CreateEncodedRow layout)"

section \<open>Tables\<close>

record 'a TableColumns =
  tc_primary_key :: "'a list"
  tc_fields :: "FieldId \<rightharpoonup> 'a list"

definition ResolveColumn :: "('fs, 't, 'a) arrow \<Rightarrow> 't \<Rightarrow> FieldLayout \<Rightarrow> 'a TableColumns \<Rightarrow> 'a TableColumns res" where
  "ResolveColumn aw table field columns =
     (case aw_GetColumnByName aw table (fl_name field) of
        None \<Rightarrow>
          (if \<not> fl_nullable field \<and> \<not> fl_HasDefault field
           then Inl (InvalidArgument (''parquet table is missing required field: '' @ fl_name field)) else Inr columns)
      | Some column \<Rightarrow> Inr (columns\<lparr>tc_fields := emplace (fl_field_id field) column (tc_fields columns)\<rparr>))"

definition ResolveTableColumns ::
    "('fs, 't, 'a) arrow \<Rightarrow> 't \<Rightarrow> ParsedSchemaConfig \<Rightarrow> CompiledRowLayout \<Rightarrow> 'a TableColumns res" where
  "ResolveTableColumns aw table config layout =
     (case aw_GetColumnByName aw table (sc_primary_key_name config) of
        None \<Rightarrow> Inl (InvalidArgument ''parquet table is missing primary key column'')
      | Some primary_key \<Rightarrow>
          foldM_res (ResolveColumn aw table) (cl_fields layout) \<lparr>tc_primary_key = primary_key, tc_fields = Map.empty\<rparr>)"

record BuildArtifactResult =
  bar_row_count :: u64
  bar_shard_count :: u32
  bar_hash_seed :: u64
  bar_hash_version :: u32
  bar_schema_version :: u64
  bar_rows_per_shard :: "u64 list"
  bar_parquet_files :: "string list"

text \<open>What the loop over the rows changes: the specification, the keys that it has seen and the counts of the result.\<close>

record build_state =
  bst_spec :: ArtifactBuildSpec
  bst_seen :: "u64 set"
  bst_result :: BuildArtifactResult

definition ReadRowField ::
    "('fs, 't, 'a) arrow \<Rightarrow> 'a TableColumns \<Rightarrow> int \<Rightarrow> FieldLayout \<Rightarrow> (FieldId \<rightharpoonup> FieldDefaultValue) \<Rightarrow> (FieldId \<rightharpoonup> FieldDefaultValue) res" where
  "ReadRowField aw columns row_index field values =
     (case tc_fields columns (fl_field_id field) of
        None \<Rightarrow> Inr values
      | Some column \<Rightarrow>
          rbind (ReadFieldValue aw field column row_index) (\<lambda>value. Inr (emplace (fl_field_id field) value values)))"

definition off_ShardFor :: "u64 \<Rightarrow> ArtifactBuildSpec \<Rightarrow> u32" where
  "off_ShardFor primary_key spec =
     ucast (StableHash64 primary_key (ab_hash_seed spec) (ab_hash_version spec) AND (ucast (ab_shard_count spec) - 1))"

text \<open>A row is put behind the rows of its shard. The shard is in range, because the number of shards is a power of two.\<close>

definition PushRow :: "u64 \<Rightarrow> EncodedRow \<Rightarrow> build_state \<Rightarrow> build_state" where
  "PushRow primary_key encoded s =
     (let spec = bst_spec s; result = bst_result s; shard_id = unat (off_ShardFor primary_key spec);
          shard = ab_shards spec ! shard_id in
      s\<lparr>bst_spec := spec\<lparr>ab_shards := (ab_shards spec)[shard_id :=
           shard\<lparr>bs_rows := bs_rows shard @ [\<lparr>ar_primary_key = primary_key, ar_encoded = encoded\<rparr>]\<rparr>]\<rparr>,
        bst_result := result\<lparr>bar_row_count := bar_row_count result + 1,
          bar_rows_per_shard := (bar_rows_per_shard result)[shard_id := bar_rows_per_shard result ! shard_id + 1]\<rparr>\<rparr>)"

definition ReadTableRow ::
    "('fs, 't, 'a) arrow \<Rightarrow> ParsedSchemaConfig \<Rightarrow> CompiledRowLayout \<Rightarrow> 'a TableColumns \<Rightarrow> int \<Rightarrow> build_state \<Rightarrow> build_state res" where
  "ReadTableRow aw schema_config layout columns row_index s =
     rbind (ReadPrimaryKey aw (tc_primary_key columns) row_index (sc_primary_key_name schema_config)) (\<lambda>primary_key.
     if primary_key \<in> bst_seen s then Inl (FailedPrecondition ''duplicate primary key in full artifact'')
     else
       rbind (foldM_res (ReadRowField aw columns row_index) (cl_fields layout) Map.empty) (\<lambda>values.
       rbind (EncodeRow layout values) (\<lambda>encoded.
       Inr (PushRow primary_key encoded (s\<lparr>bst_seen := insert primary_key (bst_seen s)\<rparr>)))))"

definition ReadTableRows ::
    "('fs, 't, 'a) arrow \<Rightarrow> ParsedSchemaConfig \<Rightarrow> CompiledRowLayout \<Rightarrow> 't \<Rightarrow> build_state \<Rightarrow> build_state res" where
  "ReadTableRows aw schema_config layout table s =
     rbind (ResolveTableColumns aw table schema_config layout) (\<lambda>columns.
     foldM_res (\<lambda>i. ReadTableRow aw schema_config layout columns (int i)) [0..<nat (aw_num_rows aw table)] s)"

definition ReadParquetFileIntoSpec ::
    "('fs, 't, 'a) arrow \<Rightarrow> ParsedSchemaConfig \<Rightarrow> CompiledRowLayout \<Rightarrow> 'fs \<Rightarrow> string \<Rightarrow> build_state \<Rightarrow> build_state res" where
  "ReadParquetFileIntoSpec aw schema_config layout fs path s =
     (case aw_OpenFile aw fs path of
        Some status \<Rightarrow> ArrowStatusToKv status ''failed to open parquet file''
      | None \<Rightarrow>
          (case aw_Build aw fs path of
             Some status \<Rightarrow> ArrowStatusToKv status ''failed to create parquet reader''
           | None \<Rightarrow>
               (case aw_ReadTable aw fs path of
                  Inl status \<Rightarrow> ArrowStatusToKv status ''failed to read parquet file''
                | Inr None \<Rightarrow> Inl (InvalidArgument ''parquet reader returned a null table'')
                | Inr (Some table) \<Rightarrow> ReadTableRows aw schema_config layout table s)))"

section \<open>Specifications\<close>

text \<open>The value of a column as a value of a message, and a row of values as the payload of a message.\<close>

fun decoded_value :: "FieldDefaultValue \<Rightarrow> DecodedValue" where
  "decoded_value NoDefault = VNull"
| "decoded_value (DefaultScalar v) = VScalar v"
| "decoded_value (DefaultList vs) = VList vs"

definition decoded_field :: "FieldLayout \<Rightarrow> FieldDefaultValue \<Rightarrow> DecodedField" where
  "decoded_field f v = \<lparr>df_field_id = fl_field_id f, df_kind = wire_kind (decoded_value v), df_value = decoded_value v\<rparr>"

definition given :: "(FieldId \<rightharpoonup> FieldDefaultValue) \<Rightarrow> FieldLayout \<Rightarrow> bool" where
  "given values f \<longleftrightarrow> values (fl_field_id f) \<notin> {None, Some NoDefault}"

definition values_payload :: "CompiledRowLayout \<Rightarrow> (FieldId \<rightharpoonup> FieldDefaultValue) \<Rightarrow> DecodedPayload" where
  "values_payload L values = \<lparr>dp_fields = map (\<lambda>f. decoded_field f (the (values (fl_field_id f)))) (filter (given values) (cl_fields L))\<rparr>"

text \<open>Values of the types of their fields.\<close>

definition values_fit :: "CompiledRowLayout \<Rightarrow> (FieldId \<rightharpoonup> FieldDefaultValue) \<Rightarrow> bool" where
  "values_fit L values \<longleftrightarrow> (\<forall>f \<in> set (cl_fields L). given values f \<longrightarrow> value_fits f (decoded_value (the (values (fl_field_id f)))))"

text \<open>A row with a value for each field of \<open>demo_schema\<close>.\<close>

definition demo_values :: "FieldId \<rightharpoonup> FieldDefaultValue" where
  "demo_values = [1 \<mapsto> DefaultScalar (SInt64 7), 2 \<mapsto> DefaultScalar (SString ''hi''), 3 \<mapsto> DefaultList (LInt32 [4, 5])]"

text \<open>A row of a table as the pair of its key and its encoding, the rows of a table in order, and those of a file.\<close>

definition read_row :: "('fs, 't, 'a) arrow \<Rightarrow> ParsedSchemaConfig \<Rightarrow> CompiledRowLayout \<Rightarrow> 'a TableColumns \<Rightarrow> int \<Rightarrow> (u64 \<times> EncodedRow) res" where
  "read_row aw config L columns i =
     rbind (ReadPrimaryKey aw (tc_primary_key columns) i (sc_primary_key_name config)) (\<lambda>k.
     rbind (foldM_res (ReadRowField aw columns i) (cl_fields L) Map.empty) (\<lambda>values.
     rbind (EncodeRow L values) (\<lambda>e. Inr (k, e))))"

definition read_table :: "('fs, 't, 'a) arrow \<Rightarrow> ParsedSchemaConfig \<Rightarrow> CompiledRowLayout \<Rightarrow> 't \<Rightarrow> (u64 \<times> EncodedRow) list res" where
  "read_table aw config L table =
     rbind (ResolveTableColumns aw table config L) (\<lambda>columns.
     mapM_res (\<lambda>i. read_row aw config L columns (int i)) [0..<nat (aw_num_rows aw table)])"

definition file_table :: "('fs, 't, 'a) arrow \<Rightarrow> 'fs \<Rightarrow> string \<Rightarrow> 't option" where
  "file_table aw fs path =
     (if aw_OpenFile aw fs path = None \<and> aw_Build aw fs path = None
      then (case aw_ReadTable aw fs path of Inr t \<Rightarrow> t | Inl _ \<Rightarrow> None) else None)"

definition read_file :: "('fs, 't, 'a) arrow \<Rightarrow> ParsedSchemaConfig \<Rightarrow> CompiledRowLayout \<Rightarrow> 'fs \<Rightarrow> string \<Rightarrow> (u64 \<times> EncodedRow) list option" where
  "read_file aw config L fs path =
     (case file_table aw fs path of
        None \<Rightarrow> None | Some t \<Rightarrow> (case read_table aw config L t of Inl _ \<Rightarrow> None | Inr rows \<Rightarrow> Some rows))"

text \<open>The shards that a list of rows fills: each row stands in the shard of its key, in the order of the list.\<close>

definition plan_shards :: "ArtifactBuildSpec \<Rightarrow> (u64 \<times> EncodedRow) list \<Rightarrow> ArtifactShardBuildSpec list" where
  "plan_shards spec rows =
     map (\<lambda>i. \<lparr>bs_shard_id = of_nat i, bs_rows = map (\<lambda>(k, e). \<lparr>ar_primary_key = k, ar_encoded = e\<rparr>)
                (filter (\<lambda>(k, e). unat (off_ShardFor k spec) = i) rows)\<rparr>) [0..<unat (ab_shard_count spec)]"

definition build_of :: "ArtifactBuildSpec \<Rightarrow> BuildArtifactResult \<Rightarrow> (u64 \<times> EncodedRow) list \<Rightarrow> build_state" where
  "build_of spec result rows =
     \<lparr>bst_spec = spec\<lparr>ab_shards := plan_shards spec rows\<rparr>, bst_seen = fst ` set rows,
      bst_result = result\<lparr>bar_row_count := of_nat (length rows),
        bar_rows_per_shard := map (\<lambda>s. of_nat (length (bs_rows s))) (plan_shards spec rows)\<rparr>\<rparr>"

text \<open>A write that succeeds puts some bytes into the slot of the field and sets its presence bit, and keeps the identity of the row.\<close>

definition writes_at :: "CompiledRowLayout \<Rightarrow> FieldLayout \<Rightarrow> EncodedRow \<Rightarrow> bool" where
  "writes_at L f e \<longleftrightarrow> layout_ok L \<and> f \<in> set (cl_fields L) \<and> cl_row_slot_size L = length (er_row_slot e)"

definition same_slot :: "EncodedRow \<Rightarrow> EncodedRow \<Rightarrow> bool" where
  "same_slot e e' \<longleftrightarrow> er_schema_version e' = er_schema_version e \<and> er_layout_fingerprint e' = er_layout_fingerprint e
     \<and> er_row_slot e' = er_row_slot e"

definition framed :: "FieldLayout \<Rightarrow> EncodedRow \<Rightarrow> unit res \<times> EncodedRow option \<Rightarrow> bool" where
  "framed f e ra \<longleftrightarrow> (fst ra = Inr () \<longrightarrow>
     (\<exists>e0 bs. snd ra = Some (put_field f bs [] e0) \<and> length bs = fl_value_width f \<and> same_slot e e0))"

section \<open>The two encoders\<close>

lemma WriteValueRefBytes_eq:
  "off + 16 \<le> length bs \<Longrightarrow> WriteValueRef16 \<lparr>vr_offset = a, vr_byte_length = b, vr_element_count_or_flags = c\<rparr> bs off
     = Inr (WriteValueRefBytes off a b c bs)"
  by (simp add: WriteValueRef16_def CheckSpanBounds_eq WriteLittleEndian_eq WriteValueRefBytes_def)

lemma length_WriteValueRefBytes [simp]: "off + 16 \<le> length bs \<Longrightarrow> length (WriteValueRefBytes off a b c bs) = length bs"
  by (simp add: WriteValueRefBytes_def)

lemma WriteStringRefs_same:
  assumes "offset + 16 * length vs \<le> length arena"
  shows "WriteStringRefs vs offset arena = (Inr (), a) \<longleftrightarrow> WriteArenaStrings vs offset arena = (Inr (), a)"
  using assms
proof (induction vs arbitrary: offset arena)
  case (Cons v vs)
  then show ?case by (auto simp: Let_def WriteValueRefBytes_eq)
qed simp

lemma AppendElements_span: "list_type vs \<noteq> kString \<Longrightarrow> EncodeScalarListSpan vs = Inr (AppendElements vs)"
  by (cases vs) (simp_all add: EncodeWords_eq comp_def)

lemma length_AppendElements: "list_type vs \<noteq> kString \<Longrightarrow> length (AppendElements vs) = list_length vs * FieldTypeSize (list_type vs)"
  by (cases vs) (simp_all add: length_concat comp_def sum_list_triv sizeof_def)

lemma AppendElements_bool: "AppendElements (LBool vs) = map (\<lambda>v. if v then 1 else 0) vs"
  by (induction vs) (simp_all add: le_bytes_def sizeof_def)

lemma off_AddElements_eq:
  "off_AddElements vs e = (case AddElements vs e of
     (Inl _, e') \<Rightarrow> (Inl (InvalidArgument ''element dictionary is too large''), e') | (Inr ids, e') \<Rightarrow> (Inr ids, e'))"
  by (induction vs arbitrary: e) (auto split: prod.splits sum.splits)

lemma scalar_write_same:
  assumes "value_fits f (VScalar v)"
  shows "off_WriteScalarFieldValue f (DefaultScalar v) e = (Inr (), a) \<longleftrightarrow> WriteScalarFieldValue f (decoded_field f (DefaultScalar v)) (Some e) = (Inr (), a)"
proof -
  have "\<not> is_kUnlistedType (fl_type f)" using assms by (cases v) auto
  with assms show ?thesis
    by (cases v) (auto simp: off_WriteScalarFieldValue_def WriteScalarFieldValue_def WriteStringValue_def get_scalar_def GetScalar_def decoded_field_def)
qed

lemma list_write_same:
  assumes fits: "value_fits f (VList vs)" "encoding_fits f" and small: "length (wire_bytes (VList vs)) < 2 ^ 32"
  shows "off_WriteListFieldValue f (DefaultList vs) e = (Inr (), a) \<longleftrightarrow> WriteListFieldValue f (decoded_field f (DefaultList vs)) (Some e) = (Inr (), a)"
proof -
  have t: "\<not> is_kUnlistedType (fl_type f)" "fl_is_list f" "fl_type f = list_type vs" using fits(1) by (cases vs; auto)+
  show ?thesis
  proof (cases "list_type vs = kString")
    case False
    have len: "length (AppendElements vs) < 2 ^ 32 - 4" "list_length vs < 2 ^ 32"
      using small wire_list_length [OF False] length_AppendElements [OF False] False by (cases vs; simp)+
    have "fl_encoding f = kArena \<or> fl_encoding f = kListDictionary" using fits(2) t False by (auto simp: encoding_fits_def)
    then show ?thesis
    proof
      assume k: "fl_encoding f = kArena"
      have "off_WriteListFieldValue f (DefaultList vs) e = WriteScalarListArena f vs e"
        using k t False by (cases vs) (auto simp: off_WriteListFieldValue_def get_list_def)
      moreover have "WriteListFieldValue f (decoded_field f (DefaultList vs)) (Some e) = WriteScalarListArena f vs e"
        using k t False len AppendElements_span [OF False]
        by (cases vs) (auto simp: WriteListFieldValue_def GetList_def decoded_field_def WriteArenaListField_def WriteArenaBoolListField_def
            WriteScalarListArena_def EncodeBoolListBytes_def AppendElements_bool [simplified] Let_def)
      ultimately show ?thesis by simp
    next
      assume k: "fl_encoding f = kListDictionary"
      then show ?thesis using t False len AppendElements_span [OF False]
        by (cases vs) (auto simp: off_WriteListFieldValue_def get_list_def WriteListFieldValue_def GetList_def decoded_field_def
            WriteListDictionaryScalarList_def WriteListDictionaryBoolList_def EncodeBoolListBytes_def AppendElements_bool [simplified] Let_def)
    qed
  next
    case True
    then obtain ss where ss: "vs = LString ss" by (cases vs) auto
    have n: "16 * length ss \<le> length (er_arena e @ replicate (length ss * 16) 0)" by simp
    note same = WriteStringRefs_same [of "length (er_arena e)" ss "er_arena e @ replicate (length ss * 16) 0", simplified]
    show ?thesis
    proof (cases "fl_encoding f")
      case kArena
      obtain r1 a1 where r1: "WriteStringRefs ss (length (er_arena e)) (er_arena e @ replicate (length ss * 16) 0) = (r1, a1)" by fastforce
      obtain r2 a2 where r2: "WriteArenaStrings ss (length (er_arena e)) (er_arena e @ replicate (length ss * 16) 0) = (r2, a2)" by fastforce
      show ?thesis using kArena t ss same [of a1] same [of a2] r1 r2
        by (cases r1; cases r2) (auto simp: off_WriteListFieldValue_def get_list_def WriteStringListArena_def WriteListFieldValue_def GetList_def
            decoded_field_def WriteArenaStringListField_def Let_def)
    next
      case kListDictionary
      then show ?thesis using t ss
        by (auto simp: off_WriteListFieldValue_def get_list_def WriteListFieldValue_def GetList_def decoded_field_def WriteListDictionaryStringList_def)
    next
      case kElementDictionary
      obtain r2 a2 where r2: "AddElements ss e = (r2, a2)" by fastforce
      have "length ids = length ss" if "AddElements ss e = (Inr ids, e')" for ids e'
        using that by (induction ss arbitrary: e ids) (auto split: prod.splits sum.splits if_splits)
      then show ?thesis using kElementDictionary t ss r2
        by (cases r2) (auto simp: off_WriteListFieldValue_def get_list_def WriteListFieldValue_def GetList_def decoded_field_def
            WriteElementDictionaryStringList_def WriteElementDictionaryStringListField_def off_AddElements_eq)
    qed (use fits(2) t ss in \<open>auto simp: encoding_fits_def\<close>)
  qed
qed

lemma EncodeRowField_same:
  assumes L: "layout_ok L" "f \<in> set (cl_fields L)" and v: "values (fl_field_id f) = Some v" "v \<noteq> NoDefault"
    and fits: "value_fits f (decoded_value v)" "encoding_fits f" and small: "length (wire_bytes (decoded_value v)) < 2 ^ 32"
  shows "EncodeRowField values f e = Inr e' \<longleftrightarrow> EncodeField L (decoded_field f v) e = Inr e'"
proof -
  let ?off = "if fl_is_list f then off_WriteListFieldValue f v e else off_WriteScalarFieldValue f v e"
  let ?on = "if fl_is_list f then WriteListFieldValue f (decoded_field f v) (Some e) else WriteScalarFieldValue f (decoded_field f v) (Some e)"
  obtain r1 a1 r2 a2 where r: "?off = (r1, a1)" "?on = (r2, a2)" by fastforce
  have same: "?off = (Inr (), a) \<longleftrightarrow> ?on = (Inr (), a)" for a
    using fits small scalar_write_same [of f _ e a] list_write_same [of f _ e a] v(2) by (cases v) auto
  have "FindLayoutField L (fl_field_id f) = Some f" by (rule layout_okD(7) [OF L])
  moreover have "decoded_value v \<noteq> VNull" using v(2) by (cases v) auto
  ultimately have on: "EncodeField L (decoded_field f v) e = (case (r2, a2) of (Inl e, _) \<Rightarrow> Inl e | (Inr _, after) \<Rightarrow> Inr (the after))"
    unfolding EncodeField_def r(2) [symmetric] by (simp add: decoded_field_def)
  have off: "EncodeRowField values f e = (case (r1, a1) of (Inl e, _) \<Rightarrow> Inl e | (Inr _, after) \<Rightarrow> Inr (the after))"
    unfolding EncodeRowField_def r(1) [symmetric] using v by simp
  show ?thesis unfolding on off using same [of a1] same [of a2] unfolding r by (cases r1; cases r2) auto
qed

lemma EncodeRow_fold_same:
  assumes L: "layout_ok L" and fit: "values_fit L values" and enc: "\<forall>f \<in> set (cl_fields L). encoding_fits f"
    and small: "\<forall>d \<in> set (dp_fields (values_payload L values)). length (wire_bytes (df_value d)) < 2 ^ 32"
    and sub: "set fs \<subseteq> set (cl_fields L)"
  shows "foldM_res (EncodeRowField values) fs e = Inr e' \<longleftrightarrow>
    foldM_res (EncodeField L) (map (\<lambda>f. decoded_field f (the (values (fl_field_id f)))) (filter (given values) fs)) e = Inr e'
    \<and> (\<forall>f \<in> set fs. \<not> given values f \<longrightarrow> fl_nullable f \<or> fl_HasDefault f)"
  using sub
proof (induction fs arbitrary: e)
  case (Cons f fs)
  have mem: "f \<in> set (cl_fields L)" using Cons.prems by simp
  have IH: "foldM_res (EncodeRowField values) fs e1 = Inr e' \<longleftrightarrow>
      foldM_res (EncodeField L) (map (\<lambda>f. decoded_field f (the (values (fl_field_id f)))) (filter (given values) fs)) e1 = Inr e'
      \<and> (\<forall>f \<in> set fs. \<not> given values f \<longrightarrow> fl_nullable f \<or> fl_HasDefault f)" for e1
    by (rule Cons.IH) (use Cons.prems in simp)
  show ?case
  proof (cases "given values f")
    case True
    then obtain v where v: "values (fl_field_id f) = Some v" "v \<noteq> NoDefault" by (auto simp: given_def)
    have "value_fits f (decoded_value v)" using fit mem True v by (auto simp: values_fit_def)
    moreover have "length (wire_bytes (decoded_value v)) < 2 ^ 32"
      using small mem True v by (auto simp: values_payload_def decoded_field_def)
    ultimately have "EncodeRowField values f e = Inr e1 \<longleftrightarrow> EncodeField L (decoded_field f v) e = Inr e1" for e1
      using EncodeRowField_same [of L f "values", OF L mem v] enc mem by blast
    then show ?thesis using True v IH by auto
  next
    case False
    then have "EncodeRowField values f e = (if \<not> fl_nullable f \<and> \<not> fl_HasDefault f
        then Inl (InvalidArgument (''required field is absent: '' @ fl_name f)) else Inr e)"
      by (auto simp: EncodeRowField_def given_def)
    with False IH show ?thesis by auto
  qed
qed simp

lemma length_mem_concat: "x \<in> set xs \<Longrightarrow> length (f x) \<le> length (concat (map f xs))"
  by (induction xs) auto

lemma length_le_concat:
  assumes "\<And>x. 0 < length (f x)"
  shows "length xs \<le> length (concat (map f xs))"
proof (induction xs)
  case (Cons x xs)
  then show ?case using assms [of x] by (simp del: length_greater_0_conv)
qed simp

lemma length_concat_le: "(\<And>x. x \<in> set xs \<Longrightarrow> length (f x) \<le> n) \<Longrightarrow> length (concat (map f xs)) \<le> n * length xs"
  by (induction xs) (simp_all add: add_mono)

lemma wire_bound:
  assumes "d \<in> set (dp_fields p)"
  shows "length (wire_bytes (df_value d)) + 4 \<le> length (payload_bytes p)"
  using length_mem_concat [OF assms, of field_bytes] by (simp add: payload_bytes_def counted_bytes_def field_bytes_def sized_bytes_def)

lemma wire_value_small:
  assumes "length (wire_bytes v) < 2 ^ 32"
  shows "value_small v"
proof (cases v)
  case (VList vs)
  show ?thesis
  proof (cases vs)
    case (LString ss)
    have "length s \<le> length (concat (map bytes_of_string ss))" if "s \<in> set ss" for s
      using that by (induction ss) auto
    then show ?thesis using assms VList LString by fastforce
  next
    case (LBool bs)
    then show ?thesis using assms wire_list_length [of vs] VList by simp
  qed (use assms wire_list_length [of vs] VList in \<open>auto\<close>)
qed simp_all

lemma values_payload_ok:
  assumes L: "layout_ok L" and n: "length (payload_bytes (values_payload L values)) < 2 ^ 28"
  shows "payload_ok (values_payload L values)"
proof -
  let ?p = "values_payload L values"
  have small: "length (wire_bytes (df_value d)) < 2 ^ 32" if "d \<in> set (dp_fields ?p)" for d
    using wire_bound [OF that] n by simp
  have "field_ok d" if "d \<in> set (dp_fields ?p)" for d
    using that small [OF that] wire_value_small [of "df_value d"] by (auto simp: field_ok_def values_payload_def decoded_field_def)
  moreover have "length (dp_fields ?p) \<le> length (concat (map field_bytes (dp_fields ?p)))"
    by (rule length_le_concat) (simp add: field_bytes_def)
  moreover have "distinct (map df_field_id (dp_fields ?p))"
    using L by (auto simp: values_payload_def decoded_field_def layout_ok_def comp_def intro: distinct_map_filter)
  ultimately show ?thesis using n by (simp add: payload_ok_def payload_bytes_def counted_bytes_def)
qed

lemma values_payload_ids:
  assumes "f \<in> set (cl_fields L)"
  shows "fl_field_id f \<in> df_field_id ` set (dp_fields (values_payload L values)) \<longleftrightarrow> given values f"
  using assms by (auto simp: values_payload_def decoded_field_def given_def image_iff)

lemma values_fits_layout:
  assumes L: "layout_ok L" and fit: "values_fit L values"
    and given: "\<forall>f \<in> set (cl_fields L). \<not> given values f \<longrightarrow> fl_nullable f \<or> fl_HasDefault f"
  shows "fits_layout L (values_payload L values)"
proof -
  have "value_fits f (df_value d)" if d: "d \<in> set (dp_fields (values_payload L values))" "FindLayoutField L (df_field_id d) = Some f" for d f
  proof -
    from d(1) obtain g where g: "g \<in> set (cl_fields L)" "given values g" "d = decoded_field g (the (values (fl_field_id g)))"
      by (auto simp: values_payload_def)
    with d(2) layout_okD(7) [OF L g(1)] fit show ?thesis by (auto simp: decoded_field_def values_fit_def)
  qed
  with given values_payload_ids show ?thesis by (auto simp: fits_layout_def)
qed

lemma EncodeRow_same:
  assumes s: "schema_ok s" "Compile s = Inr L" and fit: "values_fit L values"
    and n: "length (payload_bytes (values_payload L values)) < 2 ^ 28"
  shows "EncodeRow L values = Inr e \<longleftrightarrow> EncodeForLayout (values_payload L values) (Some L) = Inr e"
proof -
  let ?p = "values_payload L values"
  have L: "layout_ok L" by (rule Compile_layout(1) [OF s])
  have ok: "payload_ok ?p" by (rule values_payload_ok [OF L n])
  have small: "\<forall>d \<in> set (dp_fields ?p). length (wire_bytes (df_value d)) < 2 ^ 32" using ok by (simp add: payload_ok_def field_ok_def)
  have enc: "\<forall>f \<in> set (cl_fields L). encoding_fits f" using Compile_encoding_fits [OF s] by blast
  have fold: "EncodeRow L values = Inr e \<longleftrightarrow> foldM_res (EncodeField L) (dp_fields ?p) (CreateEncodedRow L) = Inr e
      \<and> (\<forall>f \<in> set (cl_fields L). \<not> given values f \<longrightarrow> fl_nullable f \<or> fl_HasDefault f)"
    using EncodeRow_fold_same [OF L fit enc small subset_refl] by (simp add: EncodeRow_def values_payload_def)
  show ?thesis
  proof
    assume "EncodeRow L values = Inr e"
    with fold values_fits_layout [OF L fit] EncodeForLayout_succeeds [OF s ok n]
    show "EncodeForLayout ?p (Some L) = Inr e" by (auto simp: EncodeForLayout_def)
  next
    assume e: "EncodeForLayout ?p (Some L) = Inr e"
    note H = EncodeForLayout_holds [OF L ok e EncodeForLayout_small [OF L ok n e]]
    have "fl_nullable f \<or> fl_HasDefault f" if f: "f \<in> set (cl_fields L)" "\<not> given values f" for f
      using H(1) H(6) [OF f(1)] values_payload_ids [OF f(1)] f by (auto simp: MaterializeRow_def split: if_splits)
    with e fold show "EncodeRow L values = Inr e" by (auto simp: EncodeForLayout_def)
  qed
qed

section \<open>The tool and the index route alike\<close>

lemma off_ShardFor_index:
  assumes "io_shard_count (fi_options fi) = ab_shard_count spec" "io_hash_seed (fi_options fi) = ab_hash_seed spec"
    "io_hash_version (fi_options fi) = ab_hash_version spec"
  shows "off_ShardFor k spec = ShardFor fi k"
  using assms by (simp add: off_ShardFor_def ShardFor_def)

lemma off_ShardFor_less:
  assumes "IsPowerOfTwo (ab_shard_count spec)"
  shows "unat (off_ShardFor k spec) < unat (ab_shard_count spec)"
proof -
  let ?options = "\<lparr>io_mode = kRealtimeDelta, io_shard_count = ab_shard_count spec, io_hash_seed = ab_hash_seed spec,
     io_hash_version = ab_hash_version spec, io_kafka_consumer = \<lparr>kc_bootstrap_servers = [], kc_group_id = [], kc_topics = []\<rparr>\<rparr>"
  obtain fi where "NewForwardIndex ?options = Inr fi"
    using assms by (auto simp: NewForwardIndex_def ForwardIndexModeUsesKafkaRealtime_def)
  from NewForwardIndex_ok [OF this] have "fi_ok fi" "fi_options fi = ?options" by blast+
  with ShardFor_less [of fi k] off_ShardFor_index [of fi spec k] show ?thesis by simp
qed

section \<open>Reading tables\<close>

lemma off_ShardFor_shards [simp]: "off_ShardFor k (spec\<lparr>ab_shards := x\<rparr>) = off_ShardFor k spec"
  by (simp add: off_ShardFor_def)

lemma plan_shards_snoc:
  assumes "IsPowerOfTwo (ab_shard_count spec)"
  shows "plan_shards spec (rows @ [(k, e)]) = (let i = unat (off_ShardFor k spec); s = plan_shards spec rows ! i in
    (plan_shards spec rows)[i := s\<lparr>bs_rows := bs_rows s @ [\<lparr>ar_primary_key = k, ar_encoded = e\<rparr>]\<rparr>])"
  unfolding Let_def
proof (rule nth_equalityI)
  show "length (plan_shards spec (rows @ [(k, e)])) = length ((plan_shards spec rows)[unat (off_ShardFor k spec) :=
      (plan_shards spec rows ! unat (off_ShardFor k spec))\<lparr>bs_rows := bs_rows (plan_shards spec rows ! unat (off_ShardFor k spec))
        @ [\<lparr>ar_primary_key = k, ar_encoded = e\<rparr>]\<rparr>])" by (simp add: plan_shards_def)
qed (use off_ShardFor_less [OF assms, of k] in \<open>auto simp: plan_shards_def nth_list_update\<close>)

lemma PushRow_build:
  assumes "IsPowerOfTwo (ab_shard_count spec)"
  shows "PushRow k e ((build_of spec result rows)\<lparr>bst_seen := insert k (bst_seen (build_of spec result rows))\<rparr>)
    = build_of spec result (rows @ [(k, e)])"
proof -
  let ?i = "unat (off_ShardFor k spec)" and ?p = "plan_shards spec rows"
  have i: "?i < length ?p" using off_ShardFor_less [OF assms, of k] by (simp add: plan_shards_def)
  have "map (\<lambda>s. of_nat (length (bs_rows s))) (?p[?i := (?p ! ?i)\<lparr>bs_rows := bs_rows (?p ! ?i) @ [\<lparr>ar_primary_key = k, ar_encoded = e\<rparr>]\<rparr>])
      = (map (\<lambda>s. of_nat (length (bs_rows s)) :: u64) ?p)[?i := map (\<lambda>s. of_nat (length (bs_rows s))) ?p ! ?i + 1]"
    using i by (simp add: map_update add.commute)
  then show ?thesis by (simp add: PushRow_def build_of_def plan_shards_snoc [OF assms] Let_def)
qed

lemma ReadTableRow_build:
  assumes "IsPowerOfTwo (ab_shard_count spec)"
  shows "ReadTableRow aw config L columns i (build_of spec result rows) = Inr s' \<longleftrightarrow>
    (\<exists>k e. read_row aw config L columns i = Inr (k, e) \<and> k \<notin> fst ` set rows \<and> s' = build_of spec result (rows @ [(k, e)]))"
  using PushRow_build [OF assms, of _ _ result rows] by (auto simp: ReadTableRow_def read_row_def build_of_def split: if_splits)

lemma ReadTableRows_build:
  assumes p: "IsPowerOfTwo (ab_shard_count spec)" and "distinct (map fst rows)"
  shows "ReadTableRows aw config L t (build_of spec result rows) = Inr s' \<longleftrightarrow>
    (\<exists>new. read_table aw config L t = Inr new \<and> distinct (map fst (rows @ new)) \<and> s' = build_of spec result (rows @ new))"
proof -
  have "foldM_res (\<lambda>i. ReadTableRow aw config L columns (int i)) is (build_of spec result rows) = Inr s' \<longleftrightarrow>
    (\<exists>new. mapM_res (\<lambda>i. read_row aw config L columns (int i)) is = Inr new \<and> distinct (map fst (rows @ new)) \<and> s' = build_of spec result (rows @ new))"
    if "distinct (map fst rows)" for columns "is" rows
    using that
  proof (induction "is" arbitrary: rows)
    case (Cons i "is")
    have IH: "foldM_res (\<lambda>i. ReadTableRow aw config L columns (int i)) is (build_of spec result (rows @ [(k, e)])) = Inr s' \<longleftrightarrow>
        (\<exists>new. mapM_res (\<lambda>i. read_row aw config L columns (int i)) is = Inr new \<and> distinct (map fst ((rows @ [(k, e)]) @ new))
          \<and> s' = build_of spec result ((rows @ [(k, e)]) @ new))" if "k \<notin> fst ` set rows" for k e
      by (rule Cons.IH) (use Cons.prems that in simp)
    show ?case (is "?l \<longleftrightarrow> ?r")
    proof
      assume ?l
      then obtain k e where k: "read_row aw config L columns (int i) = Inr (k, e)" "k \<notin> fst ` set rows"
        "foldM_res (\<lambda>i. ReadTableRow aw config L columns (int i)) is (build_of spec result (rows @ [(k, e)])) = Inr s'"
        by (auto simp: ReadTableRow_build [OF p])
      from k(3) [unfolded IH [OF k(2)]] obtain new where "mapM_res (\<lambda>i. read_row aw config L columns (int i)) is = Inr new"
        "distinct (map fst (rows @ (k, e) # new))" "s' = build_of spec result (rows @ (k, e) # new)" by auto
      with k(1) show ?r by (intro exI [of _ "(k, e) # new"]) simp
    next
      assume ?r
      then obtain k e new where k: "read_row aw config L columns (int i) = Inr (k, e)" "mapM_res (\<lambda>i. read_row aw config L columns (int i)) is = Inr new"
        "distinct (map fst (rows @ (k, e) # new))" "s' = build_of spec result (rows @ (k, e) # new)" by auto
      then have "k \<notin> fst ` set rows" by auto
      with k IH [OF this, of e] show ?l by (auto simp: ReadTableRow_build [OF p])
    qed
  qed auto
  with assms(2) show ?thesis by (auto simp: ReadTableRows_def read_table_def)
qed

lemma ReadParquetFile_build:
  assumes "IsPowerOfTwo (ab_shard_count spec)" and "distinct (map fst rows)"
  shows "ReadParquetFileIntoSpec aw config L fs path (build_of spec result rows) = Inr s' \<longleftrightarrow>
    (\<exists>new. read_file aw config L fs path = Some new \<and> distinct (map fst (rows @ new)) \<and> s' = build_of spec result (rows @ new))"
proof (cases "file_table aw fs path")
  case None
  then have "ReadParquetFileIntoSpec aw config L fs path (build_of spec result rows) \<noteq> Inr s'"
    by (auto simp: ReadParquetFileIntoSpec_def file_table_def ArrowStatusToKv_def split: option.splits sum.splits if_splits)
  with None show ?thesis by (simp add: read_file_def)
next
  case (Some t)
  then have "ReadParquetFileIntoSpec aw config L fs path (build_of spec result rows) = ReadTableRows aw config L t (build_of spec result rows)"
    by (auto simp: ReadParquetFileIntoSpec_def file_table_def split: option.splits sum.splits if_splits)
  with Some show ?thesis by (simp add: read_file_def ReadTableRows_build [OF assms] split: sum.splits)
qed

lemma ReadParquetFiles_build:
  assumes p: "IsPowerOfTwo (ab_shard_count spec)" and "distinct (map fst rows)"
  shows "foldM_res (ReadParquetFileIntoSpec aw config L fs) paths (build_of spec result rows) = Inr s' \<longleftrightarrow>
    (\<exists>new. map (read_file aw config L fs) paths = map Some new \<and> distinct (map fst (rows @ concat new)) \<and> s' = build_of spec result (rows @ concat new))"
  using assms(2)
proof (induction paths arbitrary: rows)
  case (Cons path paths)
  show ?case (is "?l \<longleftrightarrow> ?r")
  proof
    assume ?l
    then obtain new where new: "read_file aw config L fs path = Some new" "distinct (map fst (rows @ new))"
      "foldM_res (ReadParquetFileIntoSpec aw config L fs) paths (build_of spec result (rows @ new)) = Inr s'"
      by (auto simp: ReadParquetFile_build [OF p Cons.prems])
    from new(3) [unfolded Cons.IH [OF new(2)]] obtain news where "map (read_file aw config L fs) paths = map Some news"
      "distinct (map fst (rows @ new @ concat news))" "s' = build_of spec result (rows @ new @ concat news)" by auto
    with new(1) show ?r by (intro exI [of _ "new # news"]) simp
  next
    assume ?r
    then obtain new news where n: "read_file aw config L fs path = Some new" "map (read_file aw config L fs) paths = map Some news"
      "distinct (map fst (rows @ new @ concat news))" "s' = build_of spec result (rows @ new @ concat news)"
      by (cases "read_file aw config L fs path") (use that in \<open>auto simp: Cons_eq_map_conv image_Un\<close>)
    then have "distinct (map fst (rows @ new))" by auto
    with n Cons.IH [OF this] show ?l by (auto simp: ReadParquetFile_build [OF p Cons.prems])
  qed
qed auto

text \<open>
  C16. The offline tool and the ingestion path encode rows alike. For the layout of a schema and values of the types of its
  fields that make up a message of less than \<open>2 ^ 28\<close> bytes, \<open>EncodeRow\<close> of the tool accepts exactly what
  \<open>EncodeForLayout\<close> of the update applier accepts, and both give the same row, byte for byte. The encoded row shows the values:
  each is read back from its field, and fields without a value are absent. A row is accepted exactly when every field without a
  value is nullable or has a default.
\<close>

theorem offline_encoder_agrees:
  assumes s: "schema_ok s" "Compile s = Inr L" and fit: "values_fit L values"
    and n: "length (payload_bytes (values_payload L values)) < 2 ^ 28"
  shows "(EncodeRow L values = Inr e \<longleftrightarrow> EncodeForLayout (values_payload L values) (Some L) = Inr e)
    \<and> (EncodeRow L values = Inr e \<longrightarrow> shows_payload L (values_payload L values) \<lparr>row_layout = Some L, row_encoded = Some e\<rparr>)
    \<and> ((\<exists>e. EncodeRow L values = Inr e) \<longleftrightarrow> (\<forall>f \<in> set (cl_fields L). given values f \<or> fl_nullable f \<or> fl_HasDefault f))"
proof -
  note same = EncodeRow_same [OF assms]
  have L: "layout_ok L" by (rule Compile_layout(1) [OF s])
  note ok = values_payload_ok [OF L n]
  note shown = EncodeForLayout_shows [OF L ok n]
  have "\<forall>f \<in> set (cl_fields L). given values f \<or> fl_nullable f \<or> fl_HasDefault f" if "EncodeRow L values = Inr e" for e
    using shown(2) [of e] that same values_payload_ids [of _ L "values"] by (auto simp: fits_layout_def)
  moreover have "\<exists>e. EncodeRow L values = Inr e" if "\<forall>f \<in> set (cl_fields L). given values f \<or> fl_nullable f \<or> fl_HasDefault f"
    using values_fits_layout [OF L fit] EncodeForLayout_succeeds [OF s ok n] that same by blast
  ultimately show ?thesis using same shown(1) by blast
qed

text \<open>A row with a string and a list of two numbers, for a layout with both fields.\<close>

lemma demo_values_fit:
  assumes L: "Compile demo_schema = Inr L"
  shows "values_fit L demo_values" and "length (payload_bytes (values_payload L demo_values)) < 2 ^ 28"
    and "\<exists>e. EncodeForLayout (values_payload L demo_values) (Some L) = Inr e"
proof -
  have spec: "\<exists>g \<in> set (rs_active_fields demo_schema). fl_field_id f = fs_field_id g \<and> fl_type f = fs_type g \<and> fl_is_list f = fs_is_list g
      \<and> fl_nullable f = fs_nullable g" if "f \<in> set (cl_fields L)" for f
    using Compile_field_spec [OF demo_schema_ok L that] by metis
  then show fit: "values_fit L demo_values"
    by (fastforce simp: values_fit_def given_def demo_values_def demo_schema_def demo_field_def)
  let ?f = "\<lambda>f. field_bytes (decoded_field f (the (demo_values (fl_field_id f))))"
  let ?gs = "filter (given demo_values) (cl_fields L)"
  have "length (?f f) \<le> 100" if "f \<in> set ?gs" for f
  proof -
    have "fl_field_id f = 1 \<or> fl_field_id f = 2 \<or> fl_field_id f = 3"
      using that by (auto simp: given_def demo_values_def split: if_splits)
    then show ?thesis by (auto simp: field_bytes_def decoded_field_def sized_bytes_def demo_values_def counted_bytes_def)
  qed
  then have "length (concat (map ?f ?gs)) \<le> 100 * length ?gs" by (rule length_concat_le)
  also have "length ?gs \<le> 4"
    using arg_cong [OF Compile_layout(2) [OF demo_schema_ok L], of length] length_filter_le [of "given demo_values" "cl_fields L"]
    by (simp add: demo_schema_def demo_field_def)
  finally show n: "length (payload_bytes (values_payload L demo_values)) < 2 ^ 28"
    by (simp add: payload_bytes_def kMagic_def counted_bytes_def values_payload_def comp_def)
  have "fl_nullable f" if "f \<in> set (cl_fields L)" "\<not> given demo_values f" for f
    using spec [OF that(1)] that(2) by (auto simp: given_def demo_values_def demo_schema_def demo_field_def)
  then have "fits_layout L (values_payload L demo_values)" by (intro values_fits_layout [OF Compile_layout(1) [OF demo_schema_ok L] fit]) blast
  with EncodeForLayout_succeeds [OF demo_schema_ok L values_payload_ok [OF Compile_layout(1) [OF demo_schema_ok L] n] n]
  show "\<exists>e. EncodeForLayout (values_payload L demo_values) (Some L) = Inr e" by blast
qed

theorem offline_encoder_agrees_witness:
  "\<exists>L e. Compile demo_schema = Inr L \<and> EncodeRow L demo_values = Inr e
     \<and> EncodeForLayout (values_payload L demo_values) (Some L) = Inr e
     \<and> shows_payload L (values_payload L demo_values) \<lparr>row_layout = Some L, row_encoded = Some e\<rparr>"
proof -
  obtain L where L: "Compile demo_schema = Inr L" by (rule demo_layout)
  note D = demo_values_fit [OF L]
  from D(3) obtain e where "EncodeForLayout (values_payload L demo_values) (Some L) = Inr e" by blast
  with offline_encoder_agrees [OF demo_schema_ok L D(1,2)] L show ?thesis by blast
qed

section \<open>Shape of the rows\<close>

lemma framed_error [simp]: "framed f e (Inl x, a)"
  by (simp add: framed_def)

lemma framedI: "length bs = fl_value_width f \<Longrightarrow> same_slot e e0 \<Longrightarrow> framed f e (Inr (), Some (put_field f bs [] e0))"
  by (auto simp: framed_def)

lemma same_slot_simps [simp]:
  "same_slot e e" "same_slot e (e'\<lparr>er_arena := a\<rparr>) = same_slot e e'" "same_slot e (e'\<lparr>er_string_dictionary := d\<rparr>) = same_slot e e'"
  "same_slot e (e'\<lparr>er_scalar_list_dictionary := sd\<rparr>) = same_slot e e'" "same_slot e (e'\<lparr>er_string_list_dictionary := ld\<rparr>) = same_slot e e'"
  "same_slot e (e'\<lparr>er_string_element_dictionary := ed\<rparr>) = same_slot e e'"
  by (simp_all add: same_slot_def)

lemma framed_ref:
  assumes w: "writes_at L f e" and s: "same_slot e e'"
  shows "framed f e (WriteValueRefField f r (Some e'))"
proof (cases "fl_uses_ref f")
  case True
  have W: "layout_ok L" "f \<in> set (cl_fields L)" "cl_row_slot_size L \<le> length (er_row_slot e')"
    using w s by (simp_all add: writes_at_def same_slot_def)
  have "length (ref_bytes r) = fl_value_width f"
    using layout_okD(1) [OF W(1,2)] True by (simp add: field_shape_def ref_bytes_def)
  with WriteValueRefField_eq' [OF W True, of r] s show ?thesis by (simp only: framedI)
qed (simp add: WriteValueRefField_def)

lemma framed_scalar:
  assumes "writes_at L f e"
  shows "framed f e (WriteScalarField f v (Some e))"
proof (cases "\<not> fl_uses_ref f \<and> scalar_type v = fl_type f")
  case True
  then have "WriteScalarField f v (Some e) = (Inr (), Some (put_field f (scalar_bytes v) [] e))" "length (scalar_bytes v) = fl_value_width f"
    using assms by (auto simp: writes_at_def intro!: WriteScalarField_eq [of L])
  then show ?thesis by (simp only: framedI same_slot_simps)
qed (auto simp: WriteScalarField_def)

lemma off_AddElements_kept: "off_AddElements vs e = (r, e') \<Longrightarrow> same_slot e0 e \<Longrightarrow> same_slot e0 e'"
  by (induction vs arbitrary: e r e') (fastforce split: if_splits prod.splits sum.splits)+

lemma framed_arena:
  assumes "writes_at L f e"
  shows "framed f e (WriteScalarListArena f vs e)" "framed f e (WriteStringListArena f ss e)"
  by (auto simp: WriteScalarListArena_def WriteStringListArena_def framed_ref [OF assms] Let_def split: sum.split prod.split)

lemma framed_dictionary:
  assumes w: "writes_at L f e" and s: "same_slot e e'"
  shows "framed f e (WriteListDictionaryField f i n (Some e'))" "framed f e (WriteElementDictionaryStringListField f ids (Some e'))"
    "framed f e (WriteDictionaryStringField f i (Some e'))" "framed f e (WriteArenaStringField f t (Some e'))"
  using s by (auto simp: WriteListDictionaryField_def WriteElementDictionaryStringListField_def WriteDictionaryStringField_def
      WriteArenaStringField_def framed_ref [OF w] Let_def split: sum.split prod.split)

lemma framed_off_scalar:
  assumes "writes_at L f e"
  shows "framed f e (off_WriteScalarFieldValue f v e)"
  by (auto simp: off_WriteScalarFieldValue_def framed_dictionary [OF assms] framed_scalar [OF assms] split: sum.split ScalarValue.split)

lemma framed_off_list:
  assumes w: "writes_at L f e"
  shows "framed f e (off_WriteListFieldValue f v e)"
proof -
  have elements: "framed f e (case off_AddElements values e of (Inl x, e) \<Rightarrow> (Inl x, Some e)
      | (Inr ids, e) \<Rightarrow> WriteElementDictionaryStringListField f ids (Some e))" for "values"
    by (auto dest!: off_AddElements_kept [of _ _ _ _ e] intro: framed_dictionary [OF w] split: sum.split prod.split)
  obtain bytes n where vis: "visited_list v = (bytes, n)" by fastforce
  have get: "framed f e (case get_list t v of Inl x \<Rightarrow> (Inl x, Some e) | Inr (LString values) \<Rightarrow> g values | Inr values \<Rightarrow> h values)"
    if "\<And>values. framed f e (g values)" "\<And>values. framed f e (h values)" for t g h
    using that by (auto split: sum.split ListValue.split)
  have got: "framed f e (case get_list kString v of Inr (LString values) \<Rightarrow> g values | _ \<Rightarrow> (Inl x, Some e))"
    if "\<And>values. framed f e (g values)" for g x
    using that by (auto split: sum.split ListValue.split)
  show ?thesis
    unfolding off_WriteListFieldValue_def vis prod.case Let_def
    by (auto intro!: get got framed_arena [OF w] elements simp: framed_dictionary [OF w])
qed

lemma framed_kept:
  assumes w: "writes_at L f e" and "framed f e (Inr (), Some e')"
  shows "er_schema_version e' = er_schema_version e" "er_layout_fingerprint e' = er_layout_fingerprint e"
    "length (er_row_slot e') = length (er_row_slot e)" "FieldPresent f e'"
    "g \<in> set (cl_fields L) \<Longrightarrow> FieldPresent g e \<Longrightarrow> FieldPresent g e'"
proof -
  from assms(2) obtain e0 bs where e': "e' = put_field f bs [] e0" "length bs = fl_value_width f" and s: "same_slot e e0"
    by (auto simp: framed_def)
  have W: "layout_ok L" "f \<in> set (cl_fields L)" "cl_row_slot_size L \<le> length (er_row_slot e0)"
    using w s by (simp_all add: writes_at_def same_slot_def)
  note P = put_field_slot [OF W e'(2), where ext = "[]"]
  show "er_schema_version e' = er_schema_version e" "er_layout_fingerprint e' = er_layout_fingerprint e"
    "length (er_row_slot e') = length (er_row_slot e)" "FieldPresent f e'"
    using s P by (simp_all add: e'(1) same_slot_def)
  show "FieldPresent g e'" if "g \<in> set (cl_fields L)" "FieldPresent g e"
  proof (cases "g = f")
    case False
    have "FieldPresent g e0 = FieldPresent g e" using s by (simp add: FieldPresent_def same_slot_def)
    with that(2) have "FieldPresent g e0" by simp
    with P(5) [OF that(1) False] show ?thesis by (simp add: e'(1))
  qed (simp add: e'(1) P)
qed

lemma EncodeRowField_kept:
  assumes w: "writes_at L f e" and enc: "EncodeRowField values f e = Inr e'"
  shows "row_for L e \<Longrightarrow> row_for L e'" "length (er_row_slot e') = length (er_row_slot e)"
    "fl_nullable f \<or> fl_HasDefault f \<or> FieldPresent f e'" "g \<in> set (cl_fields L) \<Longrightarrow> FieldPresent g e \<Longrightarrow> FieldPresent g e'"
proof -
  let ?v = "the (values (fl_field_id f))"
  let ?w = "if fl_is_list f then off_WriteListFieldValue f ?v e else off_WriteScalarFieldValue f ?v e"
  have "framed f e ?w" using framed_off_list [OF w] framed_off_scalar [OF w] by simp
  moreover have "e' = e \<and> (fl_nullable f \<or> fl_HasDefault f) \<or> fst ?w = Inr () \<and> e' = the (snd ?w)"
    using enc by (auto simp: EncodeRowField_def split: if_splits prod.splits sum.splits)
  ultimately have "e' = e \<and> (fl_nullable f \<or> fl_HasDefault f) \<or> framed f e (Inr (), Some e')" by (auto simp: framed_def)
  note K = this framed_kept [OF w, of e']
  from K show "row_for L e \<Longrightarrow> row_for L e'" "length (er_row_slot e') = length (er_row_slot e)"
    "fl_nullable f \<or> fl_HasDefault f \<or> FieldPresent f e'" "g \<in> set (cl_fields L) \<Longrightarrow> FieldPresent g e \<Longrightarrow> FieldPresent g e'"
    by (auto simp: row_for_def)
qed

text \<open>An encoded row can be read: it belongs to the layout, its slot has the right size, and its required fields are present.\<close>

lemma EncodeRow_row:
  assumes L: "layout_ok L" and enc: "EncodeRow L values = Inr e"
  shows "row_for L e" "length (er_row_slot e) = cl_row_slot_size L"
    "MaterializeRow (Some L) e = Inr \<lparr>row_layout = Some L, row_encoded = Some e\<rparr>"
proof -
  have "row_for L e' \<and> length (er_row_slot e') = cl_row_slot_size L
      \<and> (\<forall>g \<in> set (cl_fields L). g \<in> set fs \<or> fl_nullable g \<or> fl_HasDefault g \<or> FieldPresent g e \<longrightarrow>
           fl_nullable g \<or> fl_HasDefault g \<or> FieldPresent g e')"
    if "foldM_res (EncodeRowField values) fs e = Inr e'" "set fs \<subseteq> set (cl_fields L)" "row_for L e"
      "length (er_row_slot e) = cl_row_slot_size L" for fs e e'
    using that
  proof (induction fs arbitrary: e)
    case (Cons f fs)
    from Cons.prems(1) obtain e1 where e1: "EncodeRowField values f e = Inr e1" "foldM_res (EncodeRowField values) fs e1 = Inr e'" by auto
    have w: "writes_at L f e" using Cons.prems L by (simp add: writes_at_def)
    note K = EncodeRowField_kept [OF w e1(1)]
    from Cons.IH [OF e1(2)] K Cons.prems show ?case by auto
  qed simp
  from this [OF enc [unfolded EncodeRow_def] subset_refl]
  have R: "row_for L e \<and> length (er_row_slot e) = cl_row_slot_size L
      \<and> (\<forall>g \<in> set (cl_fields L). fl_nullable g \<or> fl_HasDefault g \<or> FieldPresent g e)"
    by (simp add: row_for_def CreateEncodedRow_def)
  then show "row_for L e" "length (er_row_slot e) = cl_row_slot_size L"
    "MaterializeRow (Some L) e = Inr \<lparr>row_layout = Some L, row_encoded = Some e\<rparr>"
    by (auto simp: row_for_def MaterializeRow_def)
qed

section \<open>Types of what is read\<close>

lemma ReadFieldValue_fits:
  assumes "ReadFieldValue aw f column i = Inr v" "v \<noteq> NoDefault"
  shows "value_fits f (decoded_value v)"
  using assms
  by (auto simp: ReadFieldValue_def off_ReadListValue_def off_ReadScalarValue_def ReadListValuesByType_def split: if_splits FieldType.splits)

lemma read_values_fit:
  assumes L: "layout_ok L" and r: "foldM_res (ReadRowField aw columns i) (cl_fields L) Map.empty = Inr values"
  shows "values_fit L values"
proof -
  have "\<forall>f \<in> set (cl_fields L). given vs' f \<longrightarrow> value_fits f (decoded_value (the (vs' (fl_field_id f))))"
    if "set fs \<subseteq> set (cl_fields L)" "foldM_res (ReadRowField aw columns i) fs vs = Inr vs'"
      "\<forall>f \<in> set (cl_fields L). given vs f \<longrightarrow> value_fits f (decoded_value (the (vs (fl_field_id f))))" for fs vs vs'
    using that
  proof (induction fs arbitrary: vs)
    case (Cons g fs)
    from Cons.prems(2) obtain vs1 where v: "ReadRowField aw columns i g vs = Inr vs1" "foldM_res (ReadRowField aw columns i) fs vs1 = Inr vs'" by auto
    have inj: "f = g" if "f \<in> set (cl_fields L)" "fl_field_id f = fl_field_id g" for f
      using layout_okD(7) [OF L that(1)] layout_okD(7) [OF L, of g] Cons.prems(1) that(2) by auto
    have "\<forall>f \<in> set (cl_fields L). given vs1 f \<longrightarrow> value_fits f (decoded_value (the (vs1 (fl_field_id f))))"
    proof (intro ballI impI)
      fix f assume f: "f \<in> set (cl_fields L)" "given vs1 f"
      show "value_fits f (decoded_value (the (vs1 (fl_field_id f))))"
      proof (cases "fl_field_id f = fl_field_id g \<and> vs (fl_field_id g) = None")
        case True
        with v(1) f inj [OF f(1)] show ?thesis
          by (auto simp: ReadRowField_def emplace_def given_def split: option.splits dest: ReadFieldValue_fits)
      next
        case False
        then have "vs1 (fl_field_id f) = vs (fl_field_id f)" using v(1)
          by (auto simp: ReadRowField_def emplace_def split: option.splits if_splits)
        with Cons.prems(3) f show ?thesis by (simp add: given_def)
      qed
    qed
    with Cons.IH Cons.prems(1) v(2) show ?case by simp
  qed simp
  from this [OF subset_refl r] show ?thesis by (simp add: values_fit_def given_def)
qed

end
