(* ===== verification/Offline_Build.thy ===== *)
theory Offline_Build
  imports Offline_Rows Artifact_Roundtrip
begin

text \<open>
  The rest of \<open>tools/offline\<close>: the directories of the output, the search for the Parquet files, the build of an artifact
  directory, and the command line of \<open>kv_index_build_artifact.cc\<close>. The operating system is a parameter: the file operations
  of the artifact code (\<open>host\<close>) and those that only the tool needs (\<open>tool_os\<close>).
\<close>

section \<open>Directories\<close>

text \<open>
  \<open>mkdir\<close> gives \<open>None\<close> or an \<open>errno\<close>; \<open>opendir\<close> with the loop over \<open>readdir\<close> gives the names of the entries or an \<open>errno\<close>;
  a file that \<open>std::ifstream\<close> can open has its contents.
\<close>

record 'fs tool_os =
  to_mkdir :: "string \<Rightarrow> 'fs \<Rightarrow> int option \<times> 'fs"
  to_readdir :: "'fs \<Rightarrow> string \<Rightarrow> int + string list"
  to_read_file :: "'fs \<Rightarrow> string \<Rightarrow> string option"

definition EEXIST :: int where "EEXIST = 17"

definition EndsWith :: "string \<Rightarrow> string \<Rightarrow> bool" where
  "EndsWith txt ending \<longleftrightarrow> length txt \<ge> length ending \<and> drop (length txt - length ending) txt = ending"

text \<open>The parts of a path between its slashes, which the loop finds one after the other.\<close>

fun path_parts :: "string \<Rightarrow> string list" where
  "path_parts [] = [[]]"
| "path_parts (c # rest) =
     (if c = CHR ''/'' then [] # path_parts rest
      else (case path_parts rest of [] \<Rightarrow> [[c]] | part # parts \<Rightarrow> (c # part) # parts))"

fun MakeDirParts :: "'fs host \<Rightarrow> 'fs tool_os \<Rightarrow> string list \<Rightarrow> string \<Rightarrow> 'fs \<Rightarrow> unit res \<times> 'fs" where
  "MakeDirParts ho os [] current fs = (Inr (), fs)"
| "MakeDirParts ho os (part # parts) current fs =
     (if part = [] then MakeDirParts ho os parts current fs
      else
        (let current = (if current = ''/'' then current @ part else JoinPath current part) in
         case to_mkdir os current fs of (failed, fs) \<Rightarrow>
           if failed \<noteq> None \<and> failed \<noteq> Some EEXIST
           then (Inl (Unavailable (''failed to create directory: '' @ ho_strerror ho (the failed))), fs)
           else if ho_stat ho fs current \<noteq> Inr Directory
           then (Inl (InvalidArgument ''output path component is not a directory''), fs)
           else MakeDirParts ho os parts current fs))"

definition MakeDirs :: "'fs host \<Rightarrow> 'fs tool_os \<Rightarrow> string \<Rightarrow> 'fs \<Rightarrow> unit res \<times> 'fs" where
  "MakeDirs ho os path fs =
     (if path = [] then (Inl (InvalidArgument ''directory path is empty''), fs)
      else if hd path = CHR ''/'' then MakeDirParts ho os (path_parts (tl path)) ''/'' fs
      else MakeDirParts ho os (path_parts path) [] fs)"

section \<open>The search for Parquet files\<close>

definition visible_names :: "string list \<Rightarrow> string list" where
  "visible_names names = filter (\<lambda>name. name \<noteq> ''.'' \<and> name \<noteq> ''..'' \<and> name \<noteq> [] \<and> hd name \<noteq> CHR ''.'') names"

text \<open>
  The argument \<open>depth\<close> bounds the recursion, and a search that goes deeper is \<open>Diverge\<close>. \<open>std::sort\<close> on strings
  compares bytes, as the order on \<open>string\<close> does.
\<close>

fun CollectParquetFilesRecursive :: "nat \<Rightarrow> 'fs host \<Rightarrow> 'fs tool_os \<Rightarrow> 'fs \<Rightarrow> string \<Rightarrow> string list \<Rightarrow> string list res" where
  "CollectParquetFilesRecursive 0 ho os fs path files = Inl Diverge"
| "CollectParquetFilesRecursive (Suc depth) ho os fs path files =
     (case ho_stat ho fs path of
        Inl _ \<Rightarrow> Inl (NotFound ''input path does not exist'')
      | Inr RegularFile \<Rightarrow> Inr (if EndsWith path ''.parquet'' then files @ [path] else files)
      | Inr OtherFile \<Rightarrow> Inl (InvalidArgument ''input path is neither file nor directory'')
      | Inr Directory \<Rightarrow>
          (case to_readdir os fs path of
             Inl errno \<Rightarrow> Inl (Unavailable (''failed to open input directory: '' @ ho_strerror ho errno))
           | Inr names \<Rightarrow>
               foldM_res (CollectParquetFilesRecursive depth ho os fs) (sort (map (JoinPath path) (visible_names names))) files))"

definition CollectParquetFiles :: "nat \<Rightarrow> 'fs host \<Rightarrow> 'fs tool_os \<Rightarrow> 'fs \<Rightarrow> string \<Rightarrow> string list res" where
  "CollectParquetFiles depth ho os fs input_path =
     rbind (CollectParquetFilesRecursive depth ho os fs input_path []) (\<lambda>files.
     if files = [] then Inl (NotFound ''no parquet files found under input path'') else Inr files)"

section \<open>The build\<close>

record BuildArtifactOptions =
  ba_schema_path :: string
  ba_input_path :: string
  ba_output_path :: string
  ba_artifact_id :: string
  ba_shard_count :: "u32 option"
  ba_hash_seed :: "u64 option"
  ba_hash_version :: "u32 option"
  ba_schema_version :: "u64 option"
  ba_omit_source_progress :: bool

definition value_or :: "'a option \<Rightarrow> 'a \<Rightarrow> 'a" where
  "value_or x d = (case x of None \<Rightarrow> d | Some v \<Rightarrow> v)"

definition CheckBuildOptions :: "BuildArtifactOptions \<Rightarrow> unit res" where
  "CheckBuildOptions options =
     (if ba_schema_path options = [] then Inl (InvalidArgument ''schema path is required'')
      else if ba_input_path options = [] then Inl (InvalidArgument ''input path is required'')
      else if ba_output_path options = [] then Inl (InvalidArgument ''output path is required'')
      else if ba_artifact_id options = [] then Inl (InvalidArgument ''artifact id is required'')
      else Inr ())"

text \<open>
  What the options and the schema file determine: the version of the schema, and the specification with its empty shards. The version of
  the file plus one wraps around.
\<close>

definition PlanBuild :: "BuildArtifactOptions \<Rightarrow> ParsedSchemaConfig \<Rightarrow> (u64 \<times> CompiledRowLayout \<times> ArtifactBuildSpec) res" where
  "PlanBuild options config =
     (let output_schema_version = value_or (ba_schema_version options) (sc_schema_version config + 1);
          shard_count = value_or (ba_shard_count options) (value_or (sc_shard_count config) 128);
          hash_seed = value_or (ba_hash_seed options) (value_or (sc_hash_seed config) 0);
          hash_version = value_or (ba_hash_version options) (value_or (sc_hash_version config) 1) in
      if \<not> IsPowerOfTwo shard_count then Inl (InvalidArgument ''shard_count must be a non-zero power of two'')
      else if hash_version = 0 then Inl (InvalidArgument ''hash_version must be non-zero'')
      else if output_schema_version = 0 then Inl (InvalidArgument ''schema_version must be non-zero'')
      else
        rbind (BuildRuntimeSchema config output_schema_version) (\<lambda>runtime_schema.
        rbind (Compile runtime_schema) (\<lambda>layout.
        Inr (output_schema_version, layout,
          \<lparr>ab_artifact_id = ba_artifact_id options, ab_shard_count = shard_count, ab_hash_seed = hash_seed,
           ab_hash_version = hash_version, ab_layout = Some layout,
           ab_include_source_progress_section = (\<not> ba_omit_source_progress options), ab_source_progress = [],
           ab_shards = map (\<lambda>i. \<lparr>bs_shard_id = of_nat i, bs_rows = []\<rparr>) [0..<unat shard_count]\<rparr>))))"

definition NewBuildState :: "u64 \<Rightarrow> ArtifactBuildSpec \<Rightarrow> string list \<Rightarrow> build_state" where
  "NewBuildState output_schema_version spec parquet_files =
     \<lparr>bst_spec = spec, bst_seen = {},
      bst_result = \<lparr>bar_row_count = 0, bar_shard_count = ab_shard_count spec, bar_hash_seed = ab_hash_seed spec,
        bar_hash_version = ab_hash_version spec, bar_schema_version = output_schema_version,
        bar_rows_per_shard = replicate (unat (ab_shard_count spec)) 0, bar_parquet_files = parquet_files\<rparr>\<rparr>"

definition WriteSchemaFile :: "'fs host \<Rightarrow> string \<Rightarrow> ParsedSchemaConfig \<Rightarrow> u64 \<Rightarrow> u32 \<Rightarrow> u64 \<Rightarrow> u32 \<Rightarrow> 'fs \<Rightarrow> unit res \<times> 'fs" where
  "WriteSchemaFile ho path config schema_version shard_count hash_seed hash_version fs =
     (case ho_open_output ho path fs of
        (False, fs) \<Rightarrow> (Inl (Unavailable ''failed to open output schema file''), fs)
      | (True, fs) \<Rightarrow>
          (case ho_write_output ho path (bytes_of_string (schema_text config schema_version shard_count hash_seed hash_version)) fs of
             (False, fs) \<Rightarrow> (Inl (Unavailable ''failed to write output schema file''), fs)
           | (True, fs) \<Rightarrow> (Inr (), fs)))"

fun WriteShards :: "'fs host \<Rightarrow> string \<Rightarrow> ArtifactBuildSpec \<Rightarrow> nat list \<Rightarrow> 'fs \<Rightarrow> unit res \<times> 'fs" where
  "WriteShards ho output_path spec [] fs = (Inr (), fs)"
| "WriteShards ho output_path spec (i # ids) fs =
     (case WriteArtifactShard ho (JoinPath output_path (ShardFileName (of_nat i))) spec (of_nat i) fs of
        (Inl e, fs) \<Rightarrow> (Inl e, fs)
      | (Inr _, fs) \<Rightarrow> WriteShards ho output_path spec ids fs)"

definition WriteOutput :: "'fs host \<Rightarrow> 'fs tool_os \<Rightarrow> string \<Rightarrow> ParsedSchemaConfig \<Rightarrow> u64 \<Rightarrow> ArtifactBuildSpec \<Rightarrow> 'fs \<Rightarrow> unit res \<times> 'fs" where
  "WriteOutput ho os output_path config output_schema_version spec fs =
     (case MakeDirs ho os output_path fs of
        (Inl e, fs) \<Rightarrow> (Inl e, fs)
      | (Inr _, fs) \<Rightarrow>
          (case WriteSchemaFile ho (JoinPath output_path ''schema.yaml'') config output_schema_version (ab_shard_count spec)
                  (ab_hash_seed spec) (ab_hash_version spec) fs of
             (Inl e, fs) \<Rightarrow> (Inl e, fs)
           | (Inr _, fs) \<Rightarrow> WriteShards ho output_path spec [0..<unat (ab_shard_count spec)] fs))"

text \<open>Everything is read before anything is written.\<close>

definition ReadInput ::
    "nat \<Rightarrow> 'fs host \<Rightarrow> 'fs tool_os \<Rightarrow> ('fs, 't, 'a) arrow \<Rightarrow> BuildArtifactOptions \<Rightarrow> 'fs \<Rightarrow> (ParsedSchemaConfig \<times> u64 \<times> build_state) res" where
  "ReadInput depth ho os aw options fs =
     rbind (CheckBuildOptions options) (\<lambda>_.
     rbind (ParseSchemaFile (to_read_file os fs (ba_schema_path options))) (\<lambda>schema_config.
     rbind (PlanBuild options schema_config) (\<lambda>(output_schema_version, layout, spec).
     rbind (CollectParquetFiles depth ho os fs (ba_input_path options)) (\<lambda>parquet_files.
     rbind (foldM_res (ReadParquetFileIntoSpec aw schema_config layout fs) parquet_files
              (NewBuildState output_schema_version spec parquet_files)) (\<lambda>s.
     Inr (schema_config, output_schema_version, s))))))"

definition BuildArtifactDirectory ::
    "nat \<Rightarrow> 'fs host \<Rightarrow> 'fs tool_os \<Rightarrow> ('fs, 't, 'a) arrow \<Rightarrow> BuildArtifactOptions \<Rightarrow> 'fs \<Rightarrow> BuildArtifactResult res \<times> 'fs" where
  "BuildArtifactDirectory depth ho os aw options fs =
     (case ReadInput depth ho os aw options fs of
        Inl e \<Rightarrow> (Inl e, fs)
      | Inr (schema_config, output_schema_version, s) \<Rightarrow>
          (case WriteOutput ho os (ba_output_path options) schema_config output_schema_version (bst_spec s) fs of
             (Inl e, fs) \<Rightarrow> (Inl e, fs)
           | (Inr _, fs) \<Rightarrow> (Inr (bst_result s), fs)))"

section \<open>The command line\<close>

record Options =
  cli_schema_path :: string
  cli_input_path :: string
  cli_output_path :: string
  cli_artifact_id :: string
  cli_shard_count :: "u32 option"
  cli_hash_seed :: "u64 option"
  cli_hash_version :: "u32 option"
  cli_schema_version :: "u64 option"
  cli_omit_source_progress :: bool
  cli_help :: bool

definition NewOptions :: Options where
  "NewOptions = \<lparr>cli_schema_path = [], cli_input_path = [], cli_output_path = [], cli_artifact_id = [], cli_shard_count = None,
     cli_hash_seed = None, cli_hash_version = None, cli_schema_version = None, cli_omit_source_progress = False, cli_help = False\<rparr>"

definition PrintUsage :: string where
  "PrintUsage =
     ''usage: kv_index_build_artifact '' @ [CHR 0x5C, NL]
     @ ''  --schema schema.yaml '' @ [CHR 0x5C, NL]
     @ ''  --input parquet_dir '' @ [CHR 0x5C, NL]
     @ ''  --output artifact_dir '' @ [CHR 0x5C, NL]
     @ ''  --artifact_id build-id '' @ [CHR 0x5C, NL]
     @ ''  [--schema_version N] [--shard_count 128] '' @ [CHR 0x5C, NL]
     @ ''  [--hash_seed 0] [--hash_version 1] [--omit_source_progress]'' @ [NL]"

text \<open>The arguments after the current one stand for the index into \<open>argv\<close>.\<close>

definition ValueFor :: "string list \<Rightarrow> (string \<times> string list) option" where
  "ValueFor args = (case args of [] \<Rightarrow> None | value # rest \<Rightarrow> Some (value, rest))"

abbreviation digit_of :: "char \<Rightarrow> u64" where
  "digit_of c \<equiv> of_nat (of_char c - 48)"

fun ParseUInt32From :: "u64 \<Rightarrow> string \<Rightarrow> u32 option" where
  "ParseUInt32From value [] = Some (ucast value)"
| "ParseUInt32From value (c # rest) =
     (if of_char c < (48 :: nat) \<or> of_char c > (57 :: nat) then None
      else
        (let value = value * 10 + digit_of c in
         if value > 0xFFFFFFFF then None else ParseUInt32From value rest))"

definition ParseUInt32 :: "string \<Rightarrow> u32 option" where
  "ParseUInt32 text = (if text = [] then None else ParseUInt32From 0 text)"

fun ParseUInt64From :: "u64 \<Rightarrow> string \<Rightarrow> u64 option" where
  "ParseUInt64From value [] = Some value"
| "ParseUInt64From value (c # rest) =
     (if of_char c < (48 :: nat) \<or> of_char c > (57 :: nat) then None
      else if value > (0xFFFFFFFFFFFFFFFF - digit_of c) div 10 then None
      else ParseUInt64From (value * 10 + digit_of c) rest)"

definition ParseUInt64 :: "string \<Rightarrow> u64 option" where
  "ParseUInt64 text = (if text = [] then None else ParseUInt64From 0 text)"

text \<open>
  One argument other than a request for help: the message of an error, or the options and the arguments that are left. The values of the
  numeric options other than the seed are not zero.
\<close>

definition TextOption :: "string \<Rightarrow> string list \<Rightarrow> (string \<Rightarrow> Options \<Rightarrow> Options) \<Rightarrow> Options \<Rightarrow> string + Options \<times> string list" where
  "TextOption name args store options =
     (case ValueFor args of
        None \<Rightarrow> Inl (''missing value for '' @ name @ [NL])
      | Some (value, rest) \<Rightarrow> Inr (store value options, rest))"

definition NumberOption ::
    "string \<Rightarrow> (string \<Rightarrow> 'w::len word option) \<Rightarrow> bool \<Rightarrow> string list \<Rightarrow> ('w word \<Rightarrow> Options \<Rightarrow> Options) \<Rightarrow> Options \<Rightarrow> string + Options \<times> string list" where
  "NumberOption name parse zero_allowed args store options =
     (case ValueFor args of
        None \<Rightarrow> Inl (''invalid value for '' @ name @ [NL])
      | Some (value, rest) \<Rightarrow>
          (case parse value of
             None \<Rightarrow> Inl (''invalid value for '' @ name @ [NL])
           | Some parsed \<Rightarrow>
               if parsed = 0 \<and> \<not> zero_allowed then Inl (''invalid value for '' @ name @ [NL]) else Inr (store parsed options, rest)))"

definition ParseArg :: "string \<Rightarrow> string list \<Rightarrow> Options \<Rightarrow> string + Options \<times> string list" where
  "ParseArg arg args options =
     (if arg = ''--schema'' then TextOption arg args (\<lambda>v. cli_schema_path_update (\<lambda>_. v)) options
      else if arg = ''--input'' then TextOption arg args (\<lambda>v. cli_input_path_update (\<lambda>_. v)) options
      else if arg = ''--output'' then TextOption arg args (\<lambda>v. cli_output_path_update (\<lambda>_. v)) options
      else if arg = ''--artifact_id'' then TextOption arg args (\<lambda>v. cli_artifact_id_update (\<lambda>_. v)) options
      else if arg = ''--shard_count'' then NumberOption arg ParseUInt32 False args (\<lambda>n. cli_shard_count_update (\<lambda>_. Some n)) options
      else if arg = ''--hash_seed'' then NumberOption arg ParseUInt64 True args (\<lambda>n. cli_hash_seed_update (\<lambda>_. Some n)) options
      else if arg = ''--hash_version'' then NumberOption arg ParseUInt32 False args (\<lambda>n. cli_hash_version_update (\<lambda>_. Some n)) options
      else if arg = ''--schema_version'' then NumberOption arg ParseUInt64 False args (\<lambda>n. cli_schema_version_update (\<lambda>_. Some n)) options
      else if arg = ''--omit_source_progress'' then Inr (options\<lparr>cli_omit_source_progress := True\<rparr>, args)
      else Inl (''unknown argument: '' @ arg @ [NL]))"

function ParseArgs :: "string list \<Rightarrow> Options \<Rightarrow> string + Options" where
  "ParseArgs [] options = Inr options"
| "ParseArgs (arg # args) options =
     (if arg = ''--help'' \<or> arg = ''-h'' then Inr (options\<lparr>cli_help := True\<rparr>)
      else
        (case ParseArg arg args options of
           Inl message \<Rightarrow> Inl message
         | Inr (options', args') \<Rightarrow> ParseArgs args' options'))"
  by pat_completeness auto

termination
  by (relation "measure (\<lambda>(args, options). length args)")
    (auto simp: ParseArg_def TextOption_def NumberOption_def ValueFor_def split: if_splits list.splits option.splits)

definition ValidateRequired :: "Options \<Rightarrow> string option" where
  "ValidateRequired options =
     (if cli_schema_path options = [] then Some (''missing required --schema'' @ [NL])
      else if cli_input_path options = [] then Some (''missing required --input'' @ [NL])
      else if cli_output_path options = [] then Some (''missing required --output'' @ [NL])
      else if cli_artifact_id options = [] then Some (''missing required --artifact_id'' @ [NL])
      else None)"

definition build_options :: "Options \<Rightarrow> BuildArtifactOptions" where
  "build_options options =
     \<lparr>ba_schema_path = cli_schema_path options, ba_input_path = cli_input_path options, ba_output_path = cli_output_path options,
      ba_artifact_id = cli_artifact_id options, ba_shard_count = cli_shard_count options, ba_hash_seed = cli_hash_seed options,
      ba_hash_version = cli_hash_version options, ba_schema_version = cli_schema_version options,
      ba_omit_source_progress = cli_omit_source_progress options\<rparr>"

text \<open>How the program ends: with an exit code and what it has printed, by an uncaught exception, or not at all.\<close>

datatype program_end = Exited (exit_code: int) (printed: string) (printed_errors: string) | Aborted string | Hangs

text \<open>The arguments are those behind the name of the program.\<close>

definition tool_main ::
    "nat \<Rightarrow> 'fs host \<Rightarrow> 'fs tool_os \<Rightarrow> ('fs, 't, 'a) arrow \<Rightarrow> string list \<Rightarrow> 'fs \<Rightarrow> program_end \<times> 'fs" where
  "tool_main depth ho os aw args fs =
     (case ParseArgs args NewOptions of
        Inl message \<Rightarrow> (Exited 2 [] (message @ PrintUsage), fs)
      | Inr options \<Rightarrow>
          if cli_help options then (Exited 0 PrintUsage [], fs)
          else
            (case ValidateRequired options of
               Some message \<Rightarrow> (Exited 2 [] (message @ PrintUsage), fs)
             | None \<Rightarrow>
                 (case BuildArtifactDirectory depth ho os aw (build_options options) fs of
                    (Inl Diverge, fs) \<Rightarrow> (Hangs, fs)
                  | (Inl (Throw what), fs) \<Rightarrow> (Aborted what, fs)
                  | (Inl (Error code message), fs) \<Rightarrow> (Exited 1 [] (''failed to build artifact: '' @ message @ [NL]), fs)
                  | (Inr result, fs) \<Rightarrow>
                      (Exited 0
                        (''wrote '' @ decimal (unat (bar_row_count result)) @ '' rows across '' @ decimal (unat (bar_shard_count result))
                         @ '' shards to '' @ cli_output_path options @ '' with schema_version='' @ decimal (unat (bar_schema_version result))
                         @ '', hash_seed='' @ decimal (unat (bar_hash_seed result))
                         @ '', hash_version='' @ decimal (unat (bar_hash_version result)) @ [NL]) [], fs))))"

section \<open>Specifications\<close>

text \<open>\<open>stat\<close> fails with \<open>ENAMETOOLONG\<close> on a path of more than \<open>PATH_MAX\<close> bytes.\<close>

definition path_limit :: "'fs host \<Rightarrow> bool" where
  "path_limit ho \<longleftrightarrow> (\<forall>fs path. length path > 4096 \<longrightarrow> (\<exists>errno. ho_stat ho fs path = Inl errno))"

text \<open>Two listings of the directories that differ in the order of the entries only.\<close>

definition same_entries :: "'fs tool_os \<Rightarrow> 'fs tool_os \<Rightarrow> 'fs \<Rightarrow> bool" where
  "same_entries os os' fs \<longleftrightarrow> (\<forall>path. rel_sum (=) (\<lambda>names names'. mset names = mset names') (to_readdir os fs path) (to_readdir os' fs path))"

text \<open>A regular file with the given contents can be opened and mapped under the path.\<close>

definition file_at :: "'fs host \<Rightarrow> 'fs \<Rightarrow> string \<Rightarrow> byte list \<Rightarrow> bool" where
  "file_at ho fs path bytes \<longleftrightarrow> ho_stat ho fs path = Inr RegularFile
     \<and> (\<exists>fd. ho_open ho fs path = Inr fd \<and> ho_fstat ho fs fd = Inr (int (length bytes)) \<and> ho_mmap ho fs fd (length bytes) = Inr bytes)"

text \<open>The paths name different files: writing one of them leaves the others as they are.\<close>

definition apart_files :: "'fs host \<Rightarrow> string set \<Rightarrow> bool" where
  "apart_files ho paths \<longleftrightarrow> (\<forall>p \<in> paths. \<forall>q \<in> paths. p \<noteq> q \<longrightarrow> (\<forall>fs bytes. file_at ho fs q bytes \<longrightarrow>
     file_at ho (snd (ho_open_output ho p fs)) q bytes \<and> (\<forall>bs. file_at ho (snd (ho_write_output ho p bs fs)) q bytes)))"

abbreviation shard_path :: "string \<Rightarrow> nat \<Rightarrow> string" where
  "shard_path output_path i \<equiv> JoinPath output_path (ShardFileName (of_nat i))"

abbreviation shard_paths :: "string \<Rightarrow> nat set \<Rightarrow> string set" where
  "shard_paths output_path ids \<equiv> shard_path output_path ` ids"

text \<open>Sizes that the format can express; the other conditions on a specification hold for every build.\<close>

definition storable_build :: "ArtifactBuildSpec \<Rightarrow> bool" where
  "storable_build spec \<longleftrightarrow> unat (ab_shard_count spec) < 2 ^ 22
     \<and> (\<forall>L. ab_layout spec = Some L \<longrightarrow> length (cl_fields L) < 2 ^ 32 \<and> (\<forall>f \<in> set (cl_fields L). length (fl_name f) < 2 ^ 32)
          \<and> (\<forall>shard \<in> set (ab_shards spec). length (bs_rows shard) \<le> 2 ^ 58 \<and> length (bs_rows shard) * cl_row_slot_size L < 2 ^ 64
               \<and> (\<forall>row \<in> set (bs_rows shard). storable_payload (payload_of (ar_encoded row)))))"

text \<open>The answer to a key that the rows give.\<close>

definition rows_answer :: "CompiledRowLayout \<Rightarrow> (u64 \<times> EncodedRow) list \<Rightarrow> u64 \<Rightarrow> Row option res" where
  "rows_answer L rows k = Inr (map_option (\<lambda>e. \<lparr>row_layout = Some L, row_encoded = Some e\<rparr>) (map_of rows k))"

section \<open>Numbers of the command line\<close>

lemma is_digit_code: "is_digit c \<longleftrightarrow> \<not> (of_char c < (48 :: nat) \<or> of_char c > (57 :: nat))"
  by (auto simp: is_digit_def less_eq_char_def)

lemma digit_bound: "is_digit c \<Longrightarrow> of_char c - 48 < (10 :: nat)"
  by (auto simp: is_digit_code)

lemma unat_bound: "unat (w :: 'w::len word) < 2 ^ LENGTH('w)"
  by (rule unsigned_less)

lemma decimal_fold_mono: "(n :: nat) \<le> foldl (\<lambda>n c. 10 * n + (of_char c - 48)) n t"
proof (induction t arbitrary: n)
  case (Cons c t)
  have "n \<le> 10 * n + (of_char c - 48)" by simp
  also note Cons.IH
  finally show ?case by simp
qed simp

lemma ParseUInt64From_eq:
  "ParseUInt64From v t = Some r \<longleftrightarrow> list_all is_digit t \<and> foldl (\<lambda>n c. 10 * n + (of_char c - 48)) (unat v) t = unat r"
proof (induction t arbitrary: v)
  case (Cons c t)
  let ?d = "of_char c - 48 :: nat"
  show ?case
  proof (cases "is_digit c")
    case True
    have d: "unat (digit_of c) = ?d" using digit_bound [OF True] by (simp add: unat_of_nat)
    have "unat ((0xFFFFFFFFFFFFFFFF - digit_of c) div 10) = (2 ^ 64 - 1 - ?d) div 10"
      using digit_bound [OF True] d by (simp add: unat_div unat_sub word_le_nat_alt)
    then have guard: "v > (0xFFFFFFFFFFFFFFFF - digit_of c) div 10 \<longleftrightarrow> \<not> 10 * unat v + ?d < 2 ^ 64"
      using digit_bound [OF True] by (auto simp: word_less_nat_alt)
    show ?thesis
    proof (cases "10 * unat v + ?d < 2 ^ 64")
      case small: True
      have "unat (v * 10 + digit_of c) = 10 * unat v + ?d"
        using small d by (simp add: unat_word_ariths)
      with guard small True Cons.IH [of "v * 10 + digit_of c"] show ?thesis by (simp add: is_digit_code)
    next
      case False
      then have "2 ^ 64 \<le> foldl (\<lambda>n c. 10 * n + (of_char c - 48)) (10 * unat v + ?d) t"
        using decimal_fold_mono [of "10 * unat v + ?d" t] by linarith
      then have "foldl (\<lambda>n c. 10 * n + (of_char c - 48)) (10 * unat v + ?d) t \<noteq> unat r" using unat_bound [of r] by simp
      with guard False True show ?thesis by (simp add: is_digit_code)
    qed
  next
    case False
    then show ?thesis by (auto simp: is_digit_code)
  qed
qed (auto simp: word_unat_eq_iff)

lemma ParseUInt32From_eq:
  "v \<le> 0xFFFFFFFF \<Longrightarrow>
   ParseUInt32From v t = Some r \<longleftrightarrow> list_all is_digit t \<and> foldl (\<lambda>n c. 10 * n + (of_char c - 48)) (unat v) t = unat r"
proof (induction t arbitrary: v)
  case Nil
  then have "unat (ucast v :: u32) = unat v" by (simp add: unsigned_ucast_eq word_le_nat_alt take_bit_nat_eq_self)
  then show ?case by (auto simp: word_unat_eq_iff)
next
  case (Cons c t)
  let ?d = "of_char c - 48 :: nat"
  show ?case
  proof (cases "is_digit c")
    case True
    have d: "unat (digit_of c) = ?d" using digit_bound [OF True] by (simp add: unat_of_nat)
    have v: "unat (v * 10 + digit_of c) = 10 * unat v + ?d"
      using Cons.prems d digit_bound [OF True] by (simp add: unat_word_ariths word_le_nat_alt)
    show ?thesis
    proof (cases "v * 10 + digit_of c > 0xFFFFFFFF")
      case big: True
      then have "2 ^ 32 \<le> 10 * unat v + ?d" using v by (simp add: word_less_nat_alt)
      then have "2 ^ 32 \<le> foldl (\<lambda>n c. 10 * n + (of_char c - 48)) (10 * unat v + ?d) t"
        using decimal_fold_mono [of "10 * unat v + ?d" t] by linarith
      then have "foldl (\<lambda>n c. 10 * n + (of_char c - 48)) (10 * unat v + ?d) t \<noteq> unat r" using unat_bound [of r] by simp
      with big True show ?thesis by (simp add: is_digit_code Let_def)
    next
      case False
      with Cons.IH [of "v * 10 + digit_of c"] True v show ?thesis by (simp add: is_digit_code Let_def)
    qed
  next
    case False
    then show ?thesis by (auto simp: is_digit_code)
  qed
qed

text \<open>
  The numbers of the command line are read exactly. A text is accepted for a 32-bit or a 64-bit option if and only if it is not empty, consists
  of digits and its value fits, and the option then has this value; this is also what the parser of the schema file accepts.
\<close>

lemma command_line_numbers:
  "(ParseUInt32 t = Some a \<longleftrightarrow> ParseUnsigned t name = Inr a) \<and> (ParseUInt64 t = Some b \<longleftrightarrow> ParseUnsigned t name = Inr b)
   \<and> (ParseUInt64 t = Some b \<longleftrightarrow> t \<noteq> [] \<and> list_all is_digit t \<and> decimal_value t = unat b)"
proof -
  have p: "ParseUnsigned t name = Inr w \<longleftrightarrow> t \<noteq> [] \<and> list_all is_digit t \<and> decimal_value t = unat w" for w :: "'w::len word"
  proof -
    have "(\<not> 2 ^ LENGTH('w) \<le> decimal_value t \<and> of_nat (decimal_value t) = w) \<longleftrightarrow> decimal_value t = unat w"
      using unat_bound [of w] by (auto simp: unat_of_nat take_bit_nat_eq_self not_le)
    then show ?thesis by (auto simp: ParseUnsigned_def)
  qed
  show ?thesis unfolding p ParseUInt32_def ParseUInt64_def decimal_value_def
    using ParseUInt32From_eq [of 0 t a] ParseUInt64From_eq [of 0 t b] by auto
qed

section \<open>The search\<close>

lemma JoinPath_longer: "name \<noteq> [] \<Longrightarrow> length path < length (JoinPath path name)"
  by (simp add: JoinPath_def)

lemma child_longer:
  "child \<in> set (sort (map (JoinPath path) (visible_names names))) \<Longrightarrow> length path < length child"
  by (auto simp: visible_names_def intro: JoinPath_longer)

lemma foldM_res_cong':
  "(\<And>x s. x \<in> set xs \<Longrightarrow> f x s = g x s) \<Longrightarrow> foldM_res f xs s = foldM_res g xs s"
  by (induction xs arbitrary: s) (auto simp: rbind_def split: sum.splits)

lemma foldM_res_not:
  "(\<And>x s. x \<in> set xs \<Longrightarrow> f x s \<noteq> Inl e) \<Longrightarrow> foldM_res f xs s \<noteq> Inl e"
  by (induction xs arbitrary: s) (auto simp: rbind_def split: sum.splits)

lemma collect_ends:
  assumes "path_limit ho" and "4097 < depth + length path" and "0 < depth"
  shows "CollectParquetFilesRecursive depth ho os fs path files \<noteq> Inl Diverge"
  using assms(2,3)
proof (induction depth arbitrary: path files)
  case (Suc depth)
  show ?case
  proof (cases "ho_stat ho fs path")
    case (Inr kind)
    then have "length path \<le> 4096" using assms(1) unfolding path_limit_def by (metis Inl_Inr_False not_le_imp_less)
    then have "foldM_res (CollectParquetFilesRecursive depth ho os fs) (sort (map (JoinPath path) (visible_names names))) files \<noteq> Inl Diverge" for names
      using Suc.prems by (intro foldM_res_not Suc.IH) (auto dest!: child_longer simp del: set_sort)
    with Inr show ?thesis by (auto split: FileKind.split sum.split)
  qed simp
qed simp

lemma foldM_res_more:
  assumes "foldM_res f xs s \<noteq> Inl e" and "\<And>x s. f x s \<noteq> Inl e \<Longrightarrow> g x s = f x s"
  shows "foldM_res g xs s = foldM_res f xs s"
  using assms(1)
proof (induction xs arbitrary: s)
  case (Cons x xs)
  then show ?case using assms(2) [of x s] by (cases "f x s") auto
qed simp

lemma collect_more:
  assumes "CollectParquetFilesRecursive depth ho os fs path files \<noteq> Inl Diverge" "depth \<le> depth'"
  shows "CollectParquetFilesRecursive depth' ho os fs path files = CollectParquetFilesRecursive depth ho os fs path files"
  using assms
proof (induction depth arbitrary: path files depth')
  case (Suc depth)
  from Suc.prems(2) obtain d where d: "depth' = Suc d" "depth \<le> d" by (cases depth') auto
  have "foldM_res (CollectParquetFilesRecursive d ho os fs) children files = foldM_res (CollectParquetFilesRecursive depth ho os fs) children files"
    if "foldM_res (CollectParquetFilesRecursive depth ho os fs) children files \<noteq> Inl Diverge" for children
    using that by (rule foldM_res_more) (rule Suc.IH [OF _ d(2)])
  with Suc.prems(1) show ?case unfolding d(1) by (auto split: sum.splits FileKind.splits)
qed simp

lemma collect_same_entries:
  assumes "same_entries os os' fs"
  shows "CollectParquetFilesRecursive depth ho os fs path files = CollectParquetFilesRecursive depth ho os' fs path files"
proof (induction depth arbitrary: path files)
  case (Suc depth)
  have f: "CollectParquetFilesRecursive depth ho os fs = CollectParquetFilesRecursive depth ho os' fs" by (intro ext Suc.IH)
  have rel: "rel_sum (=) (\<lambda>names names'. mset names = mset names') (to_readdir os fs path) (to_readdir os' fs path)"
    using assms by (simp add: same_entries_def)
  show ?case
  proof (cases "to_readdir os fs path")
    case (Inl e)
    with rel have "to_readdir os' fs path = Inl e" by (cases "to_readdir os' fs path") auto
    with Inl show ?thesis by (simp split: FileKind.split sum.split)
  next
    case (Inr names)
    with rel obtain names' where n: "to_readdir os' fs path = Inr names'" "mset names = mset names'" by (cases "to_readdir os' fs path") auto
    have "sort (map (JoinPath path) (visible_names names)) = sort (map (JoinPath path) (visible_names names'))"
      by (rule properties_for_sort) (simp_all add: visible_names_def n(2))
    with Inr n(1) show ?thesis by (simp add: f split: FileKind.split sum.split)
  qed
qed simp

lemma collect_files:
  assumes "CollectParquetFilesRecursive depth ho os fs path files = Inr files'"
  shows "\<exists>new. files' = files @ new \<and> (\<forall>f \<in> set new. ho_stat ho fs f = Inr RegularFile \<and> EndsWith f ''.parquet'')"
  using assms
proof (induction depth arbitrary: path files files')
  case (Suc depth)
  have children: "\<exists>new. files' = files @ new \<and> (\<forall>f \<in> set new. ho_stat ho fs f = Inr RegularFile \<and> EndsWith f ''.parquet'')"
    if "foldM_res (CollectParquetFilesRecursive depth ho os fs) children files = Inr files'" for children files
    using that
  proof (induction children arbitrary: files)
    case (Cons child children)
    then obtain mid where m: "CollectParquetFilesRecursive depth ho os fs child files = Inr mid"
      "foldM_res (CollectParquetFilesRecursive depth ho os fs) children mid = Inr files'" by auto
    from Suc.IH [OF m(1)] Cons.IH [OF m(2)] show ?case by fastforce
  qed simp
  from Suc.prems show ?case by (auto split: sum.splits FileKind.splits if_splits intro: children)
qed simp

text \<open>
  C18. The search for Parquet files ends, because \<open>stat\<close> fails on paths that are too long: a depth of 4098 is enough, and more
  changes nothing. What it finds does not depend on the order in which the system lists a directory, and it finds
  at least one file and regular files that end in \<open>.parquet\<close> only.
\<close>

theorem search_returns:
  assumes "path_limit ho"
  shows "CollectParquetFiles (4098 + n) ho os fs path = CollectParquetFiles 4098 ho os fs path
    \<and> CollectParquetFiles 4098 ho os fs path \<noteq> Inl Diverge
    \<and> (same_entries os os' fs \<longrightarrow> CollectParquetFiles 4098 ho os fs path = CollectParquetFiles 4098 ho os' fs path)
    \<and> (CollectParquetFiles 4098 ho os fs path = Inr files \<longrightarrow>
        files \<noteq> [] \<and> (\<forall>f \<in> set files. ho_stat ho fs f = Inr RegularFile \<and> EndsWith f ''.parquet''))"
proof -
  have e: "CollectParquetFilesRecursive 4098 ho os fs path [] \<noteq> Inl Diverge" by (rule collect_ends [OF assms]) simp_all
  then have "CollectParquetFilesRecursive (4098 + n) ho os fs path [] = CollectParquetFilesRecursive 4098 ho os fs path []"
    by (rule collect_more) simp
  moreover have "CollectParquetFiles 4098 ho os fs path \<noteq> Inl Diverge"
    using e by (auto simp: CollectParquetFiles_def rbind_def split: sum.splits)
  moreover have "CollectParquetFiles 4098 ho os fs path = CollectParquetFiles 4098 ho os' fs path" if "same_entries os os' fs"
    using collect_same_entries [OF that] by (simp add: CollectParquetFiles_def)
  moreover have "files \<noteq> [] \<and> (\<forall>f \<in> set files. ho_stat ho fs f = Inr RegularFile \<and> EndsWith f ''.parquet'')"
    if "CollectParquetFiles 4098 ho os fs path = Inr files"
    using that collect_files [of 4098 ho os fs path "[]" files] by (auto simp: CollectParquetFiles_def split: if_splits)
  ultimately show ?thesis by (simp add: CollectParquetFiles_def)
qed

section \<open>The files of the shards\<close>

lemma decimal_value_zeros: "decimal_value (replicate n (CHR ''0'') @ ds) = decimal_value ds"
  by (induction n) (simp_all add: decimal_value_def)

lemma ShardFileName_inj: "ShardFileName a = ShardFileName b \<longleftrightarrow> a = b"
proof
  assume "ShardFileName a = ShardFileName b"
  then have "decimal_value (replicate (5 - length (decimal (unat a))) (CHR ''0'') @ decimal (unat a))
      = decimal_value (replicate (5 - length (decimal (unat b))) (CHR ''0'') @ decimal (unat b))"
    by (simp add: ShardFileName_def Let_def flip: append_assoc)
  then show "a = b" by (simp add: decimal_value_zeros decimal_value_decimal word_unat_eq_iff)
qed simp

lemma shard_path_inj: "i < 2 ^ 32 \<Longrightarrow> j < 2 ^ 32 \<Longrightarrow> shard_path out i = shard_path out j \<longleftrightarrow> i = j"
  by (auto simp: JoinPath_def ShardFileName_inj word_unat_eq_iff unat_of_nat take_bit_nat_eq_self)

lemma written_file_at:
  assumes "keeps_files ho" "ho_open_output ho path fs = (True, fs1)" "ho_write_output ho path bytes fs1 = (True, fs2)"
  shows "file_at ho fs2 path bytes"
  using assms unfolding keeps_files_def file_at_def by blast

lemma LoadShard_directory:
  assumes "file_at ho fs (shard_path path i) bytes" "bytes \<noteq> []" and "ResolveLocalPath uri = Inr path" "ho_stat ho fs path = Inr Directory"
  shows "LoadShard ho std_sort fs uri (of_nat i) options = LoadMapped std_sort bytes (of_nat i) options"
  using assms by (auto simp: file_at_def LoadShard_def ResolveArtifactFilePath_def MapFile_def)

lemma WriteArtifactShard_apart:
  assumes "apart_files ho paths" "p \<in> paths" "q \<in> paths" "p \<noteq> q" and "file_at ho fs q bytes"
    and "WriteArtifactShard ho p spec shard_id fs = (r, fs')"
  shows "file_at ho fs' q bytes"
proof -
  have "file_at ho (snd (ho_open_output ho p fs)) q bytes"
    "file_at ho (snd (ho_write_output ho p bs (snd (ho_open_output ho p fs)))) q bytes" for bs
    using assms(1-5) unfolding apart_files_def by blast+
  with assms(5,6) show ?thesis
    by (auto simp: WriteArtifactShard_def WriteArtifactWithShards_def split: option.splits sum.splits prod.splits bool.splits)
      (metis snd_conv)+
qed

lemma WriteShards_apart:
  assumes "apart_files ho (shard_paths out UNIV)" "WriteShards ho out spec ids fs = (r, fs')" "file_at ho fs (shard_path out i) bytes"
    "i < 2 ^ 32" "\<forall>j \<in> set ids. j < 2 ^ 32 \<and> j \<noteq> i"
  shows "file_at ho fs' (shard_path out i) bytes"
  using assms(2,3,5)
proof (induction ids arbitrary: fs)
  case (Cons j ids)
  obtain r1 fs1 where w: "WriteArtifactShard ho (shard_path out j) spec (of_nat j) fs = (r1, fs1)" by fastforce
  have "shard_path out j \<noteq> shard_path out i" using Cons.prems(3) shard_path_inj assms(4) by simp
  from WriteArtifactShard_apart [OF assms(1) _ _ this Cons.prems(2) w] have "file_at ho fs1 (shard_path out i) bytes" by blast
  with Cons w show ?case by (auto split: sum.splits)
qed simp

lemma WriteShards_written:
  assumes "keeps_files ho" "apart_files ho (shard_paths out UNIV)" "WriteShards ho out spec ids fs = (Inr (), fs')"
    "distinct ids" "\<forall>j \<in> set ids. j < 2 ^ 32" "i \<in> set ids"
  shows "\<exists>fs1 fs2. WriteArtifactShard ho (shard_path out i) spec (of_nat i) fs1 = (Inr (), fs2)
    \<and> (\<forall>bytes. file_at ho fs2 (shard_path out i) bytes \<longrightarrow> file_at ho fs' (shard_path out i) bytes)"
  using assms(3-)
proof (induction ids arbitrary: fs)
  case (Cons j ids)
  from Cons.prems(1) obtain fs1 where w: "WriteArtifactShard ho (shard_path out j) spec (of_nat j) fs = (Inr (), fs1)"
    "WriteShards ho out spec ids fs1 = (Inr (), fs')" by (auto split: prod.splits sum.splits)
  show ?case
  proof (cases "i = j")
    case True
    have "j < 2 ^ 32" "\<forall>k \<in> set ids. k < 2 ^ 32 \<and> k \<noteq> j" using Cons.prems by auto
    with WriteShards_apart [OF assms(2) w(2), of j] w(1) True show ?thesis by blast
  qed (use Cons w in auto)
qed simp


section \<open>What a build makes of its input\<close>

lemma BuildRuntimeSchema_fields:
  assumes "BuildRuntimeSchema config v = Inr s"
  shows "schema_ok s" "rs_active_fields s = sc_fields config"
proof -
  have "schema_ok s' \<and> rs_active_fields s' = rs_active_fields s0 @ fs"
    if "foldM_res (\<lambda>field schema. AddField schema field) fs s0 = Inr s'" "schema_ok s0" for fs s0 s'
    using that
  proof (induction fs arbitrary: s0)
    case (Cons f fs)
    then obtain s1 where s1: "AddField s0 f = Inr s1" "foldM_res (\<lambda>field schema. AddField schema field) fs s1 = Inr s'" by auto
    have "schema_ok s1" using schema_step_ok(1) [of s0 "OpAdd f"] s1(1) Cons.prems(2) by simp
    with Cons.IH [OF s1(2)] s1(1) show ?case by (simp add: AddField_Inr)
  qed simp
  moreover have "schema_ok (NewRuntimeSchema v)" "rs_active_fields (NewRuntimeSchema v) = []" by (simp_all add: schema_ok_def NewRuntimeSchema_def)
  ultimately show "schema_ok s" "rs_active_fields s = sc_fields config" using assms unfolding BuildRuntimeSchema_def by fastforce+
qed

lemma PlanBuild_Inr:
  assumes "PlanBuild options config = Inr (v, L, spec)"
  shows "IsPowerOfTwo (ab_shard_count spec)" "ab_layout spec = Some L" "ab_source_progress spec = []" "ab_shards spec = plan_shards spec []"
    "ab_artifact_id spec = ba_artifact_id options"
    "\<exists>s. schema_ok s \<and> Compile s = Inr L \<and> rs_active_fields s = sc_fields config"
proof -
  from assms have "ab_layout spec = Some L \<and> ab_source_progress spec = [] \<and> ab_artifact_id spec = ba_artifact_id options \<and> IsPowerOfTwo (ab_shard_count spec)
    \<and> ab_shards spec = plan_shards spec [] \<and> (\<exists>s. BuildRuntimeSchema config v = Inr s \<and> Compile s = Inr L)"
    by (auto simp: PlanBuild_def Let_def plan_shards_def split: if_splits)
  then show "IsPowerOfTwo (ab_shard_count spec)" "ab_layout spec = Some L" "ab_source_progress spec = []" "ab_shards spec = plan_shards spec []"
    "ab_artifact_id spec = ba_artifact_id options"
    "\<exists>s. schema_ok s \<and> Compile s = Inr L \<and> rs_active_fields s = sc_fields config"
    using BuildRuntimeSchema_fields by blast+
qed

lemma NewBuildState_build:
  assumes "PlanBuild options config = Inr (v, L, spec)"
  shows "NewBuildState v spec files = build_of spec (bst_result (NewBuildState v spec files)) []"
proof -
  have "map (\<lambda>s. of_nat (length (bs_rows s))) (plan_shards spec []) = replicate (unat (ab_shard_count spec)) (0 :: u64)"
    by (simp add: plan_shards_def comp_def map_replicate_const)
  with PlanBuild_Inr(4) [OF assms] show ?thesis by (simp add: NewBuildState_def build_of_def)
qed

lemma ReadInput_Inr:
  assumes "ReadInput depth ho os aw options fs = Inr (config, v, s)"
  obtains L spec files rows where "ParseSchemaFile (to_read_file os fs (ba_schema_path options)) = Inr config"
    "PlanBuild options config = Inr (v, L, spec)" "CollectParquetFiles depth ho os fs (ba_input_path options) = Inr files"
    "map (read_file aw config L fs) files = map Some rows" "distinct (map fst (concat rows))"
    "s = build_of spec (bst_result (NewBuildState v spec files)) (concat rows)"
proof -
  from assms obtain L spec files where p: "ParseSchemaFile (to_read_file os fs (ba_schema_path options)) = Inr config"
    "PlanBuild options config = Inr (v, L, spec)" "CollectParquetFiles depth ho os fs (ba_input_path options) = Inr files"
    and f: "foldM_res (ReadParquetFileIntoSpec aw config L fs) files (NewBuildState v spec files) = Inr s"
    by (auto simp: ReadInput_def)
  let ?r = "bst_result (NewBuildState v spec files)"
  have "foldM_res (ReadParquetFileIntoSpec aw config L fs) files (build_of spec ?r []) = Inr s" using f NewBuildState_build [OF p(2), of files] by simp
  then obtain rows where "map (read_file aw config L fs) files = map Some rows" "distinct (map fst (concat rows))" "s = build_of spec ?r (concat rows)"
    using ReadParquetFiles_build [OF PlanBuild_Inr(1) [OF p(2)], of "[]" aw config L fs files ?r s] by auto
  with that [OF p] show thesis by blast
qed

lemma read_file_rows:
  assumes L: "layout_ok L" and "read_file aw config L fs path = Some rows" and "(k, e) \<in> set rows"
  shows "row_for L e" "stored_row L e = e" "MaterializeRow (Some L) e = Inr \<lparr>row_layout = Some L, row_encoded = Some e\<rparr>"
proof -
  from assms(2,3) obtain columns i where "read_row aw config L columns i = Inr (k, e)"
    by (fastforce simp: read_file_def read_table_def mapM_res_Inr_iff list_all2_conv_all_nth in_set_conv_nth split: option.splits sum.splits)
  then obtain "values" where "EncodeRow L values = Inr e" by (auto simp: read_row_def)
  note R = EncodeRow_row [OF L this]
  show "row_for L e" "stored_row L e = e" "MaterializeRow (Some L) e = Inr \<lparr>row_layout = Some L, row_encoded = Some e\<rparr>"
    using R by (simp_all add: stored_row_def)
qed

section \<open>The specification of a build\<close>

lemma length_plan_shards [simp]: "length (plan_shards spec rows) = unat (ab_shard_count spec)"
  by (simp add: plan_shards_def)

lemma plan_shards_nth:
  "i < unat (ab_shard_count spec) \<Longrightarrow> plan_shards spec rows ! i =
     \<lparr>bs_shard_id = of_nat i, bs_rows = map (\<lambda>(k, e). \<lparr>ar_primary_key = k, ar_encoded = e\<rparr>) (filter (\<lambda>(k, e). unat (off_ShardFor k spec) = i) rows)\<rparr>"
  by (simp add: plan_shards_def)

lemma plan_shards_ids: "map bs_shard_id (plan_shards spec rows) = map of_nat [0..<unat (ab_shard_count spec)]"
  by (simp add: plan_shards_def)

lemma map_of_filter_key: "map_of (filter (\<lambda>(k, e). Q k) xs) k = (if Q k then map_of xs k else None)"
  by (induction xs) auto

lemma map_of_map_row: "map_of (map (\<lambda>(k, e). (k, f e)) xs) k = map_option f (map_of xs k)"
  by (induction xs) auto

lemma plan_spec_ok:
  assumes plan: "PlanBuild options config = Inr (v, L, spec)" and schema: "ParseSchemaFile input = Inr config"
    and d: "distinct (map fst rows)" and rows: "\<forall>(k, e) \<in> set rows. row_for L e"
    and st: "storable_build (spec\<lparr>ab_shards := plan_shards spec rows\<rparr>)" and n: "length (ba_artifact_id options) \<le> 60"
  shows "artifact_spec_ok L (spec\<lparr>ab_shards := plan_shards spec rows\<rparr>)"
proof -
  note P = PlanBuild_Inr [OF plan]
  obtain s where s: "schema_ok s" "Compile s = Inr L" "rs_active_fields s = sc_fields config" using P(6) by blast
  have fields: "\<forall>f \<in> set (sc_fields config). parsed_field f" "sc_fields config \<noteq> []" using ParseSchemaFile_ok [OF schema] by auto
  have plain: "\<not> is_kUnlistedType (fl_type f) \<and> \<not> fl_HasDefault f" if "f \<in> set (cl_fields L)" for f
  proof -
    from Compile_field_spec [OF s(1,2) that] obtain g where "g \<in> set (sc_fields config)" "fl_type f = fs_type g" "fl_default_value f = fs_default_value g"
      unfolding s(3) by metis
    with fields(1) show ?thesis by (auto simp: parsed_field_def fl_HasDefault_def)
  qed
  have L: "storable_layout L" using s st plain P(2) by (auto simp: storable_layout_def storable_field_def storable_build_def)
  have "length (cl_fields L) = length (sc_fields config)" using arg_cong [OF Compile_layout(2) [OF s(1,2)], of length] s(3) by simp
  then obtain f where "f \<in> set (cl_fields L)" using fields(2) by (cases "cl_fields L") auto
  with layout_okD(2-4) [OF Compile_layout(1) [OF s(1,2)]] have slot: "0 < cl_row_slot_size L" by fastforce
  have c: "unat (ab_shard_count spec) < 2 ^ 22" "0 < unat (ab_shard_count spec)"
    using st P(1) by (auto simp: storable_build_def IsPowerOfTwo_def unat_gt_0)
  have shards: "bs_shard_id shard < ab_shard_count spec \<and> shard_spec_ok L shard" if m: "shard \<in> set (plan_shards spec rows)" for shard
  proof -
    from m obtain i where i: "i < unat (ab_shard_count spec)" "shard = plan_shards spec rows ! i" by (auto simp: in_set_conv_nth)
    have "bs_shard_id shard < ab_shard_count spec" using i c(1) by (simp add: plan_shards_nth word_less_nat_alt unat_of_nat take_bit_nat_eq_self)
    moreover have "distinct (map ar_primary_key (bs_rows shard))"
      using i d by (simp add: plan_shards_nth comp_def case_prod_unfold distinct_map_filter)
    moreover have "\<forall>row \<in> set (bs_rows shard). row_for L (ar_encoded row)" using i rows by (fastforce simp: plan_shards_nth)
    ultimately show ?thesis using st m P(2) by (auto simp: shard_spec_ok_def storable_build_def)
  qed
  have ids: "distinct (map bs_shard_id (plan_shards spec rows))"
    unfolding plan_shards_ids using c(1) by (auto simp: distinct_map inj_on_def word_unat_eq_iff unat_of_nat take_bit_nat_eq_self)
  have ne: "plan_shards spec rows \<noteq> []" using c(2) by (metis length_plan_shards length_0_conv less_numeral_extra(3))
  show ?thesis using P n L slot c shards ids ne
    by (simp add: artifact_spec_ok_def storable_progress_def progress_ok_def)
qed


section \<open>Reading a built directory\<close>

lemma plan_answer:
  assumes rows: "\<And>k e. (k, e) \<in> set rows \<Longrightarrow> stored_row L e = e \<and> MaterializeRow (Some L) e = Inr \<lparr>row_layout = Some L, row_encoded = Some e\<rparr>"
    and i: "i < unat (ab_shard_count spec)" and k: "unat (off_ShardFor k spec) = i"
  shows "snapshot_answer L (map_of (spec_rows L (plan_shards spec rows ! i))) k = rows_answer L rows k"
proof -
  let ?in = "filter (\<lambda>(k, e). unat (off_ShardFor k spec) = i) rows"
  have "spec_rows L (plan_shards spec rows ! i) = map (\<lambda>(k, e). (k, stored_row L e)) ?in"
    by (simp add: spec_rows_def plan_shards_nth [OF i] case_prod_unfold)
  then have "map_of (spec_rows L (plan_shards spec rows ! i)) k = map_option (stored_row L) (map_of rows k)"
    using k map_of_filter_key [of "\<lambda>k. unat (off_ShardFor k spec) = i" rows k] by (simp add: map_of_map_row)
  then show ?thesis using rows by (cases "map_of rows k") (auto simp: snapshot_answer_def rows_answer_def dest: map_of_SomeD)
qed

lemma find_plan:
  assumes "i < unat (ab_shard_count spec)"
  shows "find (\<lambda>shard. bs_shard_id shard = of_nat i) (plan_shards spec rows) = Some (plan_shards spec rows ! i)"
proof -
  have n: "unat (ab_shard_count spec) \<le> 2 ^ 32" using unat_bound [of "ab_shard_count spec"] by simp
  have "bs_shard_id (plan_shards spec rows ! j) = of_nat i \<longleftrightarrow> j = i" if "j < unat (ab_shard_count spec)" for j
    using that assms n by (auto simp: plan_shards_nth word_unat_eq_iff unat_of_nat take_bit_nat_eq_self)
  with assms show ?thesis unfolding find_Some_iff by (intro exI [of _ i]) simp
qed

lemma WriteShards_reads:
  assumes ho: "keeps_files ho" "apart_files ho (shard_paths out UNIV)" and srt: "sorts_by_offset std_sort"
    and plan: "PlanBuild options config = Inr (v, L, spec)" and schema: "ParseSchemaFile input = Inr config"
    and d: "distinct (map fst rows)" and rows: "\<forall>(k, e) \<in> set rows. row_for L e"
    and st: "storable_build (spec\<lparr>ab_shards := plan_shards spec rows\<rparr>)"
    and wr: "WriteShards ho out (spec\<lparr>ab_shards := plan_shards spec rows\<rparr>) [0..<unat (ab_shard_count spec)] fs = (Inr (), fs')"
    and uri: "ResolveLocalPath uri = Inr out" "ho_stat ho fs' out = Inr Directory"
    and opt: "mmap_options_match load spec" and i: "i < unat (ab_shard_count spec)" and ne: "bs_rows (plan_shards spec rows ! i) \<noteq> []"
  shows "\<exists>mb. LoadShard ho std_sort fs' uri (of_nat i) load = Inr mb \<and> mmap_contains L (spec_rows L (plan_shards spec rows ! i)) mb
    \<and> pa_artifact_id (mb_artifact mb) = ba_artifact_id options"
proof -
  let ?spec = "spec\<lparr>ab_shards := plan_shards spec rows\<rparr>" and ?s = "plan_shards spec rows ! i"
  have n: "unat (ab_shard_count spec) < 2 ^ 22" using st by (simp add: storable_build_def)
  then have "\<forall>j \<in> set [0..<unat (ab_shard_count spec)]. j < 2 ^ 32" by auto
  from WriteShards_written [OF ho wr distinct_upt this, of i] i obtain fs1 fs2 where
    "WriteArtifactShard ho (shard_path out i) ?spec (of_nat i) fs1 = (Inr (), fs2)"
    and kept: "\<And>bytes. file_at ho fs2 (shard_path out i) bytes \<Longrightarrow> file_at ho fs' (shard_path out i) bytes" by auto
  then have w: "WriteArtifactWithShards ho (shard_path out i) ?spec (map Some [?s]) fs1 = (Inr (), fs2)"
    using find_plan [OF i] by (simp add: WriteArtifactShard_def)
  then have "length (ba_artifact_id options) \<le> 60"
    using PlanBuild_Inr(2,5) [OF plan]
    by (auto simp: WriteArtifactWithShards_def BuildArtifactFile_def kArtifactIdCapacity_def split: sum.splits if_splits)
  from plan_spec_ok [OF plan schema d rows st this] have ok: "artifact_spec_ok L ?spec" .
  have mem: "?s \<in> set (plan_shards spec rows)" using i by simp
  have opt': "mmap_options_match load ?spec" using opt by (simp add: mmap_options_match_def)
  have id: "bs_shard_id ?s = of_nat i" by (simp add: plan_shards_nth [OF i])
  have sub: "[?s] \<noteq> []" "set [?s] \<subseteq> set (ab_shards ?spec)" "distinct [?s]" "length [?s] < 2 ^ 22" "\<forall>shard \<in> set [?s]. bs_rows shard \<noteq> []"
    using mem ne by simp_all
  obtain "file" mb fs3 where f: "ho_open_output ho (shard_path out i) fs1 = (True, fs3)" "ho_write_output ho (shard_path out i) file fs3 = (True, fs2)"
    "file \<noteq> []" and mb: "LoadMapped std_sort file (bs_shard_id ?s) load = Inr mb" "mmap_contains L (spec_rows L ?s) mb"
    "pa_artifact_id (mb_artifact mb) = ab_artifact_id ?spec"
    by (rule written_shards_read [OF ho(1) ok srt sub w opt', of ?s]) simp_all
  have "file_at ho fs' (shard_path out i) file" by (rule kept [OF written_file_at [OF ho(1) f(1,2)]])
  from LoadShard_directory [OF this f(3) uri] mb PlanBuild_Inr(5) [OF plan] show ?thesis by (simp add: id)
qed

text \<open>
  C7. A directory that the offline tool has built is read back by the index. When the build succeeds, every Parquet file has
  been read, no key occurs twice, and the result counts the rows. For every key of the rows, loading the shard that the
  index routes the key to succeeds from the directory, and the full snapshot over it answers each key of this shard with the row
  that was encoded for it, and with absence for the others. The sizes are such that the format can express them, and different shard
  files do not name the same file.
\<close>

theorem built_directory_is_read:
  assumes "keeps_files ho" and "apart_files ho (shard_paths (ba_output_path options) UNIV)" and "sorts_by_offset std_sort"
    and input: "ReadInput depth ho os aw options fs = Inr (config, v, s)" and "storable_build (bst_spec s)"
    and built: "BuildArtifactDirectory depth ho os aw options fs = (Inr result, fs')"
    and "ResolveLocalPath uri = Inr (ba_output_path options)" and "ho_stat ho fs' (ba_output_path options) = Inr Directory"
    and "mmap_options_match load (bst_spec s)"
  shows "\<exists>L spec files tables. PlanBuild options config = Inr (v, L, spec)
    \<and> CollectParquetFiles depth ho os fs (ba_input_path options) = Inr files
    \<and> map (read_file aw config L fs) files = map Some tables \<and> distinct (map fst (concat tables))
    \<and> bar_row_count result = of_nat (length (concat tables)) \<and> bar_parquet_files result = files
    \<and> (\<forall>k \<in> fst ` set (concat tables). \<exists>mb. LoadShard ho std_sort fs' uri (off_ShardFor k spec) load = Inr mb
         \<and> pa_artifact_id (mb_artifact mb) = ba_artifact_id options
         \<and> (\<forall>k'. off_ShardFor k' spec = off_ShardFor k spec \<longrightarrow>
              fsv_Get (NewFullSnapshotView (Some (mmap_backing mb))) k' = rows_answer L (concat tables) k'))"
proof -
  obtain L spec files tables where p: "ParseSchemaFile (to_read_file os fs (ba_schema_path options)) = Inr config"
    "PlanBuild options config = Inr (v, L, spec)" "CollectParquetFiles depth ho os fs (ba_input_path options) = Inr files"
    "map (read_file aw config L fs) files = map Some tables" "distinct (map fst (concat tables))"
    and s: "s = build_of spec (bst_result (NewBuildState v spec files)) (concat tables)"
    by (rule ReadInput_Inr [OF input])
  let ?rows = "concat tables"
  have spec: "bst_spec s = spec\<lparr>ab_shards := plan_shards spec ?rows\<rparr>" by (simp add: s build_of_def)
  have L: "layout_ok L" using PlanBuild_Inr(6) [OF p(2)] Compile_layout(1) by blast
  have row: "row_for L e" "stored_row L e = e \<and> MaterializeRow (Some L) e = Inr \<lparr>row_layout = Some L, row_encoded = Some e\<rparr>"
    if "(k, e) \<in> set ?rows" for k e
  proof -
    from that obtain t where t: "t \<in> set tables" "(k, e) \<in> set t" by auto
    then have "Some t \<in> set (map (read_file aw config L fs) files)" unfolding p(4) by simp
    then obtain path where "read_file aw config L fs path = Some t" by auto
    from read_file_rows [OF L this t(2)] show "row_for L e"
      "stored_row L e = e \<and> MaterializeRow (Some L) e = Inr \<lparr>row_layout = Some L, row_encoded = Some e\<rparr>" by blast+
  qed
  then have rf: "\<forall>(k, e) \<in> set ?rows. row_for L e" by blast
  obtain fs1 where w: "WriteShards ho (ba_output_path options) (bst_spec s) [0..<unat (ab_shard_count (bst_spec s))] fs1 = (Inr (), fs')"
    and r: "result = bst_result s"
    using built by (auto simp: BuildArtifactDirectory_def input WriteOutput_def split: sum.splits prod.splits)
  have "\<exists>mb. LoadShard ho std_sort fs' uri (off_ShardFor k spec) load = Inr mb \<and> pa_artifact_id (mb_artifact mb) = ba_artifact_id options
      \<and> (\<forall>k'. off_ShardFor k' spec = off_ShardFor k spec \<longrightarrow>
           fsv_Get (NewFullSnapshotView (Some (mmap_backing mb))) k' = rows_answer L ?rows k')" if k: "k \<in> fst ` set ?rows" for k
  proof -
    let ?i = "unat (off_ShardFor k spec)"
    have i: "?i < unat (ab_shard_count spec)" by (rule off_ShardFor_less [OF PlanBuild_Inr(1) [OF p(2)]])
    have ne: "bs_rows (plan_shards spec ?rows ! ?i) \<noteq> []" using k by (force simp: plan_shards_nth [OF i] filter_empty_conv)
    have opt: "mmap_options_match load spec" using assms(9) by (simp add: spec mmap_options_match_def)
    have id: "of_nat ?i = off_ShardFor k spec" by simp
    from WriteShards_reads [OF assms(1-3) p(2,1,5) rf assms(5) [unfolded spec] w [unfolded spec, simplified] assms(7,8) opt i ne]
    obtain mb where "LoadShard ho std_sort fs' uri (off_ShardFor k spec) load = Inr mb"
      "mmap_contains L (spec_rows L (plan_shards spec ?rows ! ?i)) mb" "pa_artifact_id (mb_artifact mb) = ba_artifact_id options"
      unfolding id by auto
    with plan_answer [of ?rows L, OF row(2) i] show ?thesis by (auto simp: mmap_contains_full)
  qed
  with p r show ?thesis by (intro exI [of _ L] exI [of _ spec] exI [of _ files] exI [of _ tables]) (auto simp: s build_of_def NewBuildState_def)
qed

text \<open>
  A file system in memory with one directory, \<open>out\<close>, and with the limit on the length of a path; a schema file; and tables with a
  column of keys.
\<close>

definition tool_host :: "(string \<times> byte list) list host" where
  "tool_host = memory_host\<lparr>ho_open_output := (\<lambda>path fs. (length path \<le> 4096, fs)),
     ho_stat := (\<lambda>fs path. if length path > 4096 then Inl 36 else if path \<in> fst ` set fs then Inr RegularFile
                           else if path = ''out'' then Inr Directory else Inl ENOENT)\<rparr>"

definition note_config :: ParsedSchemaConfig where
  "note_config = NewParsedSchemaConfig\<lparr>sc_has_schema_version := True, sc_primary_key_name := ''id'', sc_has_primary_key_name := True,
     sc_has_primary_key_type := True, sc_fields := rs_active_fields note_schema\<rparr>"

definition demo_os :: "(string \<times> byte list) list tool_os" where
  "demo_os = \<lparr>to_mkdir = (\<lambda>path fs. (None, fs)), to_readdir = (\<lambda>fs path. Inr (map fst fs)),
     to_read_file = (\<lambda>fs path. Some (schema_text note_config 1 1 3 1))\<rparr>"

definition key_tables :: "((string \<times> byte list) list, u64 list, u64 list) arrow" where
  "key_tables = \<lparr>aw_type_id = (\<lambda>a. UINT64), aw_length = (\<lambda>a. int (length a)), aw_IsNull = (\<lambda>a i. False), aw_Int8Value = (\<lambda>a i. 0),
     aw_Int32Value = (\<lambda>a i. 0), aw_Int64Value = (\<lambda>a i. 0), aw_UInt64Value = (\<lambda>a i. a ! nat i), aw_BooleanValue = (\<lambda>a i. False),
     aw_GetString = (\<lambda>a i. []), aw_values = (\<lambda>a. a), aw_value_offset = (\<lambda>a i. 0), aw_value_length = (\<lambda>a i. 0),
     aw_num_rows = (\<lambda>t. int (length t)), aw_GetColumnByName = (\<lambda>t name. if name = ''id'' then Some [t] else None),
     aw_OpenFile = (\<lambda>fs path. None), aw_Build = (\<lambda>fs path. None), aw_ReadTable = (\<lambda>fs path. Inr (Some [5, 9]))\<rparr>"

definition tool_options :: BuildArtifactOptions where
  "tool_options = \<lparr>ba_schema_path = ''schema.yaml'', ba_input_path = ''t.parquet'', ba_output_path = ''out'', ba_artifact_id = ''a1'',
     ba_shard_count = None, ba_hash_seed = None, ba_hash_version = None, ba_schema_version = Some 1, ba_omit_source_progress = False\<rparr>"

abbreviation demo_spec :: "CompiledRowLayout \<Rightarrow> u64 list \<Rightarrow> ArtifactBuildSpec" where
  "demo_spec L keys \<equiv> (demo_artifact L keys)\<lparr>ab_source_progress := []\<rparr>"

abbreviation demo_rows :: "CompiledRowLayout \<Rightarrow> (u64 \<times> EncodedRow) list" where
  "demo_rows L \<equiv> [(5, CreateEncodedRow L), (9, CreateEncodedRow L)]"

section \<open>Examples\<close>

lemma tool_host_limit: "path_limit tool_host"
  by (simp add: path_limit_def tool_host_def)

lemma tool_host_keeps: "keeps_files tool_host"
  by (auto simp: keeps_files_def tool_host_def memory_host_def split: if_splits)

lemma tool_host_apart: "apart_files tool_host paths"
  by (auto simp: apart_files_def file_at_def tool_host_def memory_host_def nat_add_distrib split: if_splits)

lemma found_file: "CollectParquetFiles (Suc depth) tool_host demo_os [(''t.parquet'', [])] ''t.parquet'' = Inr [''t.parquet'']"
  by (simp add: CollectParquetFiles_def tool_host_def EndsWith_def)

theorem search_returns_witness:
  "CollectParquetFiles (4098 + 7) tool_host demo_os [(''t.parquet'', [])] ''t.parquet'' = Inr [''t.parquet'']
   \<and> CollectParquetFiles (4098 + 7) tool_host demo_os [(''t.parquet'', [])] ''out'' \<noteq> Inl Diverge"
proof -
  have "CollectParquetFiles 4098 tool_host demo_os [(''t.parquet'', [])] ''t.parquet'' = Inr [''t.parquet'']"
    using found_file [of 4097] by (simp add: eval_nat_numeral)
  then show ?thesis using search_returns [OF tool_host_limit, of 7 demo_os "[(''t.parquet'', [])]" "''t.parquet''"]
      search_returns [OF tool_host_limit, of 7 demo_os "[(''t.parquet'', [])]" "''out''"] by simp
qed

lemma note_config_read: "ParseSchemaFile (Some (schema_text note_config 1 1 3 1)) = Inr (reread note_config 1 1 3 1)"
  by (rule schema_text_parsed) (simp_all add: note_config_def NewParsedSchemaConfig_def parsed_field_def ParseFieldEncoding_def note_schema_def demo_field_def)

lemma note_reread:
  "sc_fields (reread note_config 1 1 3 1) = rs_active_fields note_schema" "sc_shard_count (reread note_config 1 1 3 1) = Some 1"
  "sc_hash_seed (reread note_config 1 1 3 1) = Some 3" "sc_hash_version (reread note_config 1 1 3 1) = Some 1"
  "sc_primary_key_name (reread note_config 1 1 3 1) = ''id''"
proof -
  have "written_name ''f'' = ''f''" "written_name ''id'' = ''id''" by code_simp+
  then show "sc_fields (reread note_config 1 1 3 1) = rs_active_fields note_schema" "sc_shard_count (reread note_config 1 1 3 1) = Some 1"
    "sc_hash_seed (reread note_config 1 1 3 1) = Some 3" "sc_hash_version (reread note_config 1 1 3 1) = Some 1"
    "sc_primary_key_name (reread note_config 1 1 3 1) = ''id''"
    by (simp_all add: reread_def note_config_def reread_field_def note_schema_def demo_field_def)
qed

lemma note_built: "BuildRuntimeSchema (reread note_config 1 1 3 1) 1 = Inr note_schema"
  by (simp add: BuildRuntimeSchema_def note_reread note_schema_def demo_field_def AddField_Inr NewRuntimeSchema_def history_ids_def ValidateEncodingPolicy_def DefaultMatchesField_def)


lemma note_plan:
  assumes "Compile note_schema = Inr L"
  shows "PlanBuild tool_options (reread note_config 1 1 3 1) = Inr (1, L, demo_spec L [])"
  using assms
  by (simp add: PlanBuild_def tool_options_def value_or_def note_reread note_built IsPowerOfTwo_def demo_artifact_def demo_shard_spec_def)

lemma demo_plan_shards: "(demo_spec L [])\<lparr>ab_shards := plan_shards (demo_spec L []) (demo_rows L)\<rparr> = demo_spec L [5, 9]"
proof -
  have "off_ShardFor k (demo_spec L []) = 0" for k by (simp add: off_ShardFor_def demo_artifact_def)
  then have "plan_shards (demo_spec L []) (demo_rows L) = [demo_shard_spec L [5, 9]]"
    unfolding plan_shards_def by (simp add: demo_shard_spec_def) (simp add: demo_artifact_def)
  then show ?thesis by (simp add: demo_artifact_def)
qed

lemma empty_row:
  assumes "\<forall>f \<in> set (cl_fields L). fl_nullable f"
  shows "EncodeRow L Map.empty = Inr (CreateEncodedRow L)"
proof -
  have "foldM_res (EncodeRowField Map.empty) fs e = Inr e" if "\<forall>f \<in> set fs. fl_nullable f" for fs e
    using that by (induction fs) (simp_all add: EncodeRowField_def)
  with assms show ?thesis by (simp add: EncodeRow_def)
qed

lemma key_table_rows:
  assumes L: "Compile note_schema = Inr L" and c: "sc_primary_key_name config = ''id''"
  shows "read_file key_tables config L fs path = Some (demo_rows L)"
proof -
  note F = note_fields(2) [OF L]
  have cols: "foldM_res (ResolveColumn key_tables t) gs c = Inr c" if "\<forall>f \<in> set gs. fl_name f = ''f'' \<and> fl_nullable f" for t gs c
    using that by (induction gs) (simp_all add: ResolveColumn_def key_tables_def)
  have vals: "foldM_res (ReadRowField key_tables \<lparr>tc_primary_key = pk, tc_fields = Map.empty\<rparr> i) gs vs = Inr vs" for pk i gs vs
    by (induction gs) (simp_all add: ReadRowField_def)
  have "ResolveTableColumns key_tables [5, 9] config L = Inr \<lparr>tc_primary_key = [[5, 9]], tc_fields = Map.empty\<rparr>"
    using cols [of "cl_fields L"] F by (simp add: ResolveTableColumns_def c) (simp add: key_tables_def)
  moreover have "read_row key_tables config L \<lparr>tc_primary_key = [[5, 9]], tc_fields = Map.empty\<rparr> 0 = Inr (5, CreateEncodedRow L)"
    "read_row key_tables config L \<lparr>tc_primary_key = [[5, 9]], tc_fields = Map.empty\<rparr> 1 = Inr (9, CreateEncodedRow L)"
    using F empty_row [of L] by (simp_all add: read_row_def vals) (simp_all add: ReadPrimaryKey_def LocateArray_def key_tables_def)
  moreover have "aw_num_rows key_tables [5, 9] = 2" "file_table key_tables fs path = Some [5, 9]" by (simp_all add: key_tables_def file_table_def)
  moreover have "[0..<nat 2] = [0, 1]" by (simp add: numeral_2_eq_2)
  ultimately show ?thesis by (simp add: read_file_def read_table_def)
qed

lemma demo_input:
  assumes L: "Compile note_schema = Inr L"
  shows "\<exists>result. ReadInput 1 tool_host demo_os key_tables tool_options [(''t.parquet'', [])]
      = Inr (reread note_config 1 1 3 1, 1, \<lparr>bst_spec = demo_spec L [5, 9], bst_seen = {5, 9}, bst_result = result\<rparr>)
    \<and> bar_row_count result = 2"
proof -
  let ?c = "reread note_config 1 1 3 1" and ?fs = "[(''t.parquet'', [])]"
  let ?r = "bst_result (NewBuildState 1 (demo_spec L []) [''t.parquet''])"
  note P = note_plan [OF L]
  have r: "map (read_file key_tables ?c L ?fs) [''t.parquet''] = map Some [demo_rows L]" using key_table_rows [OF L note_reread(5)] by simp
  have "foldM_res (ReadParquetFileIntoSpec key_tables ?c L ?fs) [''t.parquet''] (build_of (demo_spec L []) ?r [])
      = Inr (build_of (demo_spec L []) ?r (demo_rows L))"
    by (subst ReadParquetFiles_build [OF PlanBuild_Inr(1) [OF P]]) (use r in \<open>auto intro!: exI [of _ "[demo_rows L]"]\<close>)
  then have "foldM_res (ReadParquetFileIntoSpec key_tables ?c L ?fs) [''t.parquet''] (NewBuildState 1 (demo_spec L []) [''t.parquet''])
      = Inr (build_of (demo_spec L []) ?r (demo_rows L))" unfolding NewBuildState_build [OF P, symmetric] .
  moreover have "CheckBuildOptions tool_options = Inr ()" "CollectParquetFiles 1 tool_host demo_os ?fs (ba_input_path tool_options) = Inr [''t.parquet'']"
    using found_file [of 0] by (simp_all add: CheckBuildOptions_def tool_options_def)
  moreover have "ParseSchemaFile (to_read_file demo_os ?fs (ba_schema_path tool_options)) = Inr ?c" using note_config_read by (simp add: demo_os_def)
  ultimately have "ReadInput 1 tool_host demo_os key_tables tool_options ?fs = Inr (?c, 1, build_of (demo_spec L []) ?r (demo_rows L))"
    by (simp add: ReadInput_def P)
  moreover have "build_of (demo_spec L []) ?r (demo_rows L) = \<lparr>bst_spec = demo_spec L [5, 9], bst_seen = {5, 9},
      bst_result = bst_result (build_of (demo_spec L []) ?r (demo_rows L))\<rparr>"
    by (simp add: build_of_def demo_plan_shards)
  moreover have "bar_row_count (bst_result (build_of (demo_spec L []) ?r (demo_rows L))) = 2" by (simp add: build_of_def)
  ultimately show ?thesis by metis
qed

lemma demo_output:
  assumes L: "Compile note_schema = Inr L"
  shows "\<exists>fs'. WriteOutput tool_host demo_os ''out'' (reread note_config 1 1 3 1) 1 (demo_spec L [5, 9]) [(''t.parquet'', [])] = (Inr (), fs')
    \<and> ho_stat tool_host fs' ''out'' = Inr Directory"
proof -
  let ?s = "demo_shard_spec L [5, 9]" and ?c = "reread note_config 1 1 3 1" and ?spec = "demo_spec L [5, 9]"
  have ps: "storable_progress []" "length (progress_bytes []) < 2 ^ 20"
    by (simp_all add: storable_progress_def progress_ok_def progress_bytes_def run_bytes_def)
  obtain ob where w: "writable ?spec L [?s] [ob]" and sz: "length (artifact_file ?spec L (artifact_parts ?spec L [?s] [ob])) < 2 ^ 63"
    by (rule demo_file_with [OF L _ ps, of "[5, 9]"]) simp_all
  have name: "ShardFileName 0 = ''shard_00000.kvi''" by code_simp
  have dec: "decimal (Suc 0) = ''1''" "decimal 1 = ''1''" "decimal 2 = ''2''" "decimal 3 = ''3''" "decimal 0 = ''0''" by code_simp+
  have schema: "length (schema_text ?c 1 1 3 1) < 2 ^ 63"
    by (simp add: schema_text_def schema_lines_def note_reread field_lines_def bool_text_def note_schema_def demo_field_def dec)
  have count: "ab_shard_count ?spec = 1" "ab_hash_seed ?spec = 3" "ab_hash_version ?spec = 1" "ab_shards ?spec = [?s]" "bs_shard_id ?s = 0"
    by (simp_all add: demo_artifact_def demo_shard_spec_def)
  have dirs: "MakeDirs tool_host demo_os ''out'' [(''t.parquet'', [])] = (Inr (), [(''t.parquet'', [])])"
    by (simp add: MakeDirs_def JoinPath_def demo_os_def tool_host_def)
  let ?fs1 = "[(''out/schema.yaml'', bytes_of_string (schema_text ?c 1 1 3 1)), (''t.parquet'', [])]"
  have f1: "WriteSchemaFile tool_host ''out/schema.yaml'' ?c 1 1 3 1 [(''t.parquet'', [])] = (Inr (), ?fs1)"
    using schema by (simp add: WriteSchemaFile_def tool_host_def memory_host_def)
  obtain "file" where f2: "WriteShards tool_host ''out'' ?spec [0] ?fs1 = (Inr (), (''out/shard_00000.kvi'', file) # ?fs1)"
    using BuildArtifactFile_eq [OF w] sz
    by (simp add: count WriteArtifactShard_def WriteArtifactWithShards_def tool_host_def memory_host_def JoinPath_def name)
  have "[0..<unat (1 :: u32)] = [0]" by simp
  then have "WriteOutput tool_host demo_os ''out'' ?c 1 ?spec [(''t.parquet'', [])] = (Inr (), (''out/shard_00000.kvi'', file) # ?fs1)"
    using f1 f2 by (simp add: WriteOutput_def dirs count JoinPath_def del: WriteShards.simps)
  moreover have "ho_stat tool_host ((''out/shard_00000.kvi'', file) # ?fs1) ''out'' = Inr Directory" by (simp add: tool_host_def)
  ultimately show ?thesis by blast
qed

theorem built_directory_is_read_witness:
  "\<exists>L result fs' mb. Compile note_schema = Inr L
     \<and> BuildArtifactDirectory 1 tool_host demo_os key_tables tool_options [(''t.parquet'', [])] = (Inr result, fs') \<and> bar_row_count result = 2
     \<and> LoadShard tool_host (sort_key as_offset) fs' ''out'' 0 demo_load_options = Inr mb
     \<and> fsv_Get (NewFullSnapshotView (Some (mmap_backing mb))) 9 = Inr (Some \<lparr>row_layout = Some L, row_encoded = Some (CreateEncodedRow L)\<rparr>)
     \<and> fsv_Get (NewFullSnapshotView (Some (mmap_backing mb))) 7 = Inr None"
proof -
  obtain L where L: "Compile note_schema = Inr L" by (rule note_layout)
  let ?fs = "[(''t.parquet'', [])]" and ?c = "reread note_config 1 1 3 1"
  obtain result where i: "ReadInput 1 tool_host demo_os key_tables tool_options ?fs
      = Inr (?c, 1, \<lparr>bst_spec = demo_spec L [5, 9], bst_seen = {5, 9}, bst_result = result\<rparr>)" "bar_row_count result = 2"
    using demo_input [OF L] by blast
  obtain fs' where o: "WriteOutput tool_host demo_os ''out'' ?c 1 (demo_spec L [5, 9]) ?fs = (Inr (), fs')"
    "ho_stat tool_host fs' ''out'' = Inr Directory" using demo_output [OF L] by blast
  have out: "ba_output_path tool_options = ''out''" by (simp add: tool_options_def)
  have b: "BuildArtifactDirectory 1 tool_host demo_os key_tables tool_options ?fs = (Inr result, fs')"
    unfolding BuildArtifactDirectory_def i(1) by (simp add: out o)
  have st: "storable_build (bst_spec \<lparr>bst_spec = demo_spec L [5, 9], bst_seen = {5, 9}, bst_result = result\<rparr>)"
    using demo_artifact_ok [OF L, of "[5, 9]"]
    by (auto simp: storable_build_def artifact_spec_ok_def shard_spec_ok_def storable_layout_def storable_field_def demo_artifact_def)
  have opt: "mmap_options_match demo_load_options (bst_spec \<lparr>bst_spec = demo_spec L [5, 9], bst_seen = {5, 9}, bst_result = result\<rparr>)"
    by (simp add: mmap_options_match_def demo_load_options_def demo_artifact_def)
  have uri: "ResolveLocalPath ''out'' = Inr (ba_output_path tool_options)" by (simp add: ResolveLocalPath_def local_scheme_def out)
  have sh: "off_ShardFor k (demo_spec L []) = 0" for k by (simp add: off_ShardFor_def demo_artifact_def)
  have found: "CollectParquetFiles 1 tool_host demo_os ?fs (ba_input_path tool_options) = Inr [''t.parquet'']"
    using found_file [of 0] by (simp add: tool_options_def)
  from built_directory_is_read [OF tool_host_keeps tool_host_apart demo_setup(3) i(1) st b uri o(2) [folded out] opt,
      unfolded note_plan [OF L] found, simplified]
  obtain tables where t: "[read_file key_tables ?c L ?fs ''t.parquet''] = map Some tables"
    and k: "\<forall>y \<in> set tables. \<forall>x \<in> set y. \<exists>mb. LoadShard tool_host (sort_key as_offset) fs' ''out'' (off_ShardFor (fst x) (demo_spec L [])) demo_load_options = Inr mb
         \<and> pa_artifact_id (mb_artifact mb) = ba_artifact_id tool_options
         \<and> (\<forall>k'. off_ShardFor k' (demo_spec L []) = off_ShardFor (fst x) (demo_spec L []) \<longrightarrow>
              fsv_Get (NewFullSnapshotView (Some (mmap_backing mb))) k' = rows_answer L (concat tables) k')"
    by (elim exE conjE) (rule that)
  have tab: "tables = [demo_rows L]" using t key_table_rows [OF L note_reread(5)] by (cases tables) auto
  from k obtain mb where "LoadShard tool_host (sort_key as_offset) fs' ''out'' 0 demo_load_options = Inr mb"
    "\<And>k. fsv_Get (NewFullSnapshotView (Some (mmap_backing mb))) k = rows_answer L (demo_rows L) k"
    unfolding tab sh by auto
  with L b i(2) show ?thesis by (intro exI [of _ L] exI [of _ result] exI [of _ fs'] exI [of _ mb]) (simp add: rows_answer_def)
qed

end
