(* ===== verification/Spec2Isabelle.thy ===== *)
theory Spec2Isabelle
  imports Rebuild Served_Load Offline_Build
begin

text \<open>
  A verification library for \<open>kv_index\<close>, a forward index from 64-bit primary keys to rows of typed
  fields. The index is split into shards by a hash of the key. A shard serves reads from up to three
  layers: a realtime table that is fed from Kafka, a compact delta, and a full snapshot that is built in
  memory or mapped from an artifact file. Paths below are relative to \<open>src/\<close>.

  \<^bold>\<open>Parts and how they interact.\<close>
  A schema (\<open>src/model/schema.cc\<close>) is compiled into a row layout; the row codec
  (\<open>src/model/row_storage.{h,cc}\<close>) writes and reads the fields of an encoded row under it. Snapshots
  (\<open>src/store/snapshot*.cc\<close>) keep such rows behind a frozen primary-key index
  (\<open>src/store/frozen_primary_key_index.cc\<close>). The realtime table (\<open>src/store/realtime_delta.cc\<close>) keeps the
  newest row of a key by its Kafka offset. A shard state (\<open>src/runtime/shard_state.cc\<close>) stacks the layers,
  the shard directory publishes shard states, and the forward index (\<open>src/api/forward_index.cc\<close>) routes
  reads to shards and runs loads. On the write side the Kafka consumer polls messages, the update applier
  (\<open>src/ingest/update_applier.cc\<close>) decodes their payloads into rows and publishes them to the realtime
  tables of every target, and the coordinator (\<open>src/ingest/update_coordinator.cc\<close>) commits offsets behind
  applied batches. Compaction and rebase (\<open>src/rebuild\<close>) fold the realtime delta into a compact delta and
  both into a new full snapshot. Artifacts (\<open>src/artifact\<close>) carry snapshots, the schema and the source
  progress between processes.

  \<^bold>\<open>Theories and the code they model.\<close>
  \<^item> \<open>KV_Prelude\<close>: machine integers, outcomes of fallible functions (\<open>failure + 'a\<close> with \<open>rbind\<close>), byte
    spans; \<open>KV_Types\<close>: \<open>status.h\<close> and \<open>types.h\<close>.
  \<^item> \<open>Byte_IO\<close>: \<open>src/base/byte_io.h\<close>; its locale \<open>fixed_codec\<close> is the contract of every fixed-width access.
    \<open>Cursor_Codec\<close>: reading and appending from front to back (locale \<open>cursor_codec\<close>).
  \<^item> \<open>Stable_Hash\<close>: \<open>src/base/hash.cc\<close>. \<open>Linear_Probing\<close>: open addressing independent of storage (locales
    \<open>probing\<close> and \<open>cyclic_probing\<close>), used by the frozen index and by the realtime hash map.
  \<^item> \<open>Schema\<close>, \<open>Row_Storage\<close>: schema history, layout compilation, row writers, readers and accessors.
  \<^item> \<open>Frozen_Index\<close>, \<open>Frozen_Build\<close>: the serialised index, its validation and lookup, and its builder.
  \<^item> \<open>Snapshot\<close>: backings, views and the snapshot builder; locale \<open>readable_backing\<close> is what the views need
    from a backing.
  \<^item> \<open>Realtime_Delta\<close>: the atomic hash map and the realtime table, including the micro-steps of an insertion
    against a concurrent reader.
  \<^item> \<open>Shard_Runtime\<close>, \<open>Forward_Index\<close>: layers, directory, routing, batched reads, the load table.
  \<^item> \<open>Payload_Codec\<close>, \<open>Field_Encoder\<close>, \<open>Update_Applier\<close>: the three parts of \<open>update_applier.cc\<close>.
  \<^item> \<open>Kafka_Consumer\<close>, \<open>Update_Coordinator\<close>: \<open>kafka_update_consumer.cc\<close> with librdkafka as a record of
    functions, and \<open>update_coordinator.cc\<close> over any consumer client.
  \<^item> \<open>Rebuild\<close>: \<open>compaction.cc\<close> and \<open>full_rebase.cc\<close>.
  \<^item> \<open>Artifact_Format\<close>, \<open>Artifact_Writer\<close>: \<open>artifact_format.cc\<close> and \<open>artifact_writer.cc\<close>; \<open>Mmap_Backing\<close>:
    \<open>mmap_snapshot_backing.cc\<close> over a record of file operations (\<open>host\<close>); \<open>Artifact_Roundtrip\<close>: the three together.
  \<^item> \<open>Async_Load\<close>: \<open>src/rebuild/async_load.cc\<close> and the worker of \<open>ForwardIndex::LoadAsync\<close>. Its locales \<open>load_callbacks\<close> and
    \<open>catch_up_runner\<close> say what a load relies on, \<open>background_load\<close> joins them, and they are interpreted on the callbacks
    of the index and on the production runner (\<open>own_load\<close>, \<open>production\<close>, \<open>production_load\<close>). \<open>Served_Load\<close>: a load of a
    written artifact that nothing cancels (locale \<open>quiet_load\<close>, interpretation \<open>quiet\<close>).
  \<^item> \<open>Offline_Schema\<close>, \<open>Offline_Rows\<close>, \<open>Offline_Build\<close>: \<open>tools/offline/src\<close>, that is the schema file, the rows of Parquet
    tables and their encoding, and the build of an artifact directory with its command line. Arrow is a record of
    functions (\<open>arrow\<close>), and the directories of the system are another (\<open>tool_os\<close>).

  Every C++ function is one definition under its name (with a short prefix where several classes use one
  name), its state is a record under the name of the class, and a throw or a non-OK status is a value of
  the result. Realtime tables are shared between shards and the applier, so they live in an explicit store
  from addresses to tables.

  \<^bold>\<open>What is shown.\<close>
  \<^item> Round trips: the frozen index against its builder, rows against their writers, payload frames against
    the decoder (exactly the frames of the format are accepted), encoded rows against payloads, snapshots
    against their rows, primary keys against their decimal text, written artifacts against the loader, and the
    schema file of the offline tool against its parser.
  \<^item> Safety of what is read from outside: views accepted by \<open>Validate\<close>, polled batches, parsed artifacts.
  \<^item> Invariants: the schema history, compiled layouts, the realtime hash map, routing of the index.
  \<^item> Refinement: the realtime table against a map of newest offsets, a scan against a captured boundary, a
    shard against the overlay of its layers, compaction and rebase against unchanged reads.
  \<^item> Ingest: an applied message is visible in every target and read through the index, redelivery is
    harmless, and nothing is committed that is not delivered.
  \<^item> Loads: nothing is published before every shard is loaded, warmed up and caught up, the reported state agrees with
    what was published, and a written artifact that the format can express, without defaults in
    its layout and without empty shards, ends up served.
  \<^item> The offline tool: its encoder agrees with the one of the update applier, its search for files ends, and every row
    of its input is answered by the shards that the index loads from the directory it has built.
  \<^item> Bounds that the code does not check, as theorems that exhibit the failure.

  \<^bold>\<open>Bounds and fuel.\<close>
  Loops recurse on their data or on a count that the code has (a probe makes at most \<open>capacity\<close> steps, the
  capacity of a frozen index doubles at most 64 times, which the 64-bit width guarantees), so no result
  depends on a chosen amount of fuel. The catch-up of a load may wait for ever, so its
  loop is a partial function and \<open>None\<close> stands for a loop that does not end. The search for Parquet files descends at most \<open>depth\<close> directories, and 4098 is
  enough because \<open>stat\<close> fails on longer paths. Where a theorem bounds its input the bound is one that memory or a
  32-bit length field imposes: rows and slots below \<open>2 ^ 64\<close> bytes, at most \<open>2 ^ 58\<close> rows in a frozen index,
  payloads below \<open>2 ^ 28\<close> bytes so that every length written into a row fits 32 bits.

  \<^bold>\<open>Not modelled.\<close>
  \<^item> \<open>ShouldCompactRealtimeDelta\<close> and \<open>load_factor\<close>, which compute with IEEE doubles.
  \<^item> Memory ordering of atomics beyond the micro-steps in \<open>Realtime_Delta\<close>, thread joining and handle
    destruction; hooks for tests.
  \<^item> The inside of Arrow, librdkafka and the file system, which are parameters, and the text of system errors.
\<close>

section \<open>From a message to a read\<close>

text \<open>
  A route that feeds the index: it hashes keys as the index does, and its realtime tables are the ones
  that the shards of the index read.
\<close>

definition feeds_index :: "UpdateTargetRoute \<Rightarrow> ForwardIndex \<Rightarrow> bool" where
  "feeds_index route fi \<longleftrightarrow>
     ut_shard_count route = unat (io_shard_count (fi_options fi))
     \<and> ut_hash_seed route = io_hash_seed (fi_options fi) \<and> ut_hash_version route = io_hash_version (fi_options fi)
     \<and> (\<forall>i < ut_shard_count route. \<exists>s. sd_shards (fi_shard_directory fi) ! i = Some s
          \<and> ss_realtime_delta s = ut_realtime_shards route ! i)"

text \<open>An index with one shard over the table of the first target of the example.\<close>

definition one_shard_index :: ForwardIndex where
  "one_shard_index = snd (publish_shard 0 (Some (NewShardState 0 1 \<lparr>ly_realtime_delta = Some 0, ly_compact_delta = None,
     ly_full_snapshot = None\<rparr>)) (projr (NewForwardIndex \<lparr>io_mode = kRealtimeDelta, io_shard_count = 1, io_hash_seed = 0,
     io_hash_version = 1, io_kafka_consumer = \<lparr>kc_bootstrap_servers = [], kc_group_id = [], kc_topics = []\<rparr>\<rparr>)))"

lemma ua_ShardFor_index:
  assumes ok: "fi_ok fi" and feeds: "feeds_index route fi"
  shows "ua_ShardFor k route = unat (ShardFor fi k)"
proof -
  let ?n = "io_shard_count (fi_options fi)"
  let ?m = "StableHash64 k (io_hash_seed (fi_options fi)) (io_hash_version (fi_options fi)) AND (ucast ?n - 1)"
  have "(of_nat (unat ?n) :: u64) = ucast ?n" by simp
  then have a: "ua_ShardFor k route = unat ?m"
    using feeds by (simp add: ua_ShardFor_def feeds_index_def)
  from ok obtain n where n: "n < 32" "?n = 2 ^ n" by (auto simp: fi_ok_def IsPowerOfTwo_iff)
  have "(ucast (2 ^ n :: u32) :: u64) = 2 ^ n" using n(1) by (intro bit_word_eqI) (auto simp: bit_simps)
  then have "unat ?m < 2 ^ n" using n unat_and_mask_pow2 by (metis mod_less_divisor zero_less_numeral zero_less_power)
  then have "unat ?m < 2 ^ 32" using n(1) by (meson less_trans one_less_numeral_iff power_strict_increasing_iff semiring_norm(76))
  then show ?thesis by (simp add: a ShardFor_def unsigned_ucast_eq take_bit_nat_eq_self)
qed

text \<open>
  C4. Updates reach the readers: when a message is applied to a route that feeds the index, and it is
  newer than what the realtime table of its key holds, a read of the key through the index returns a row
  that shows the payload of the message.
\<close>

theorem applied_update_is_read:
  assumes "fi_ok fi" and "route \<in> set (ua_targets options)" and "feeds_index route fi"
    and "tables_ok h" and "routes_match options h" and "Apply options m h = (Inr (), h')"
    and "ut_layout route = Some L" and "layout_ok L" and "length (um_payload m) < 2 ^ 28"
    and "\<forall>p pos e. route_table m route = Some p \<and> rt_view (h p) (um_primary_key m) = Some (pos, e) \<longrightarrow>
      sp_offset pos < mm_offset (um_metadata m)"
  shows "\<exists>decoded r. DecodePayload (um_payload m) = Inr decoded \<and> fi_Get h' fi (um_primary_key m) = Inr (Some r)
    \<and> shows_payload L decoded r"
proof -
  let ?k = "um_primary_key m"
  from assms(10) have new: "\<And>p pos e. route_table m route = Some p \<Longrightarrow> rt_view (h p) ?k = Some (pos, e) \<Longrightarrow>
      sp_offset pos < mm_offset (um_metadata m)" by blast
  obtain decoded p e where d: "DecodePayload (um_payload m) = Inr decoded" and p: "route_table m route = Some p"
    and e: "EncodeForLayout decoded (Some L) = Inr e"
    and g: "rt_Get (h' p) ?k = Inr (Some \<lparr>row_layout = Some L, row_encoded = Some e\<rparr>)"
    by (rule Apply_visible [OF assms(4-6,2,7) new])
  have "payload_ok decoded" "length (payload_bytes decoded) < 2 ^ 28"
    using d assms(9) DecodePayload_iff [of "um_payload m" decoded] by auto
  note sp = EncodeForLayout_shows(1) [OF assms(8) this e]
  note shard = ua_ShardFor_index [OF assms(1,3), of ?k]
  have less: "unat (ShardFor fi ?k) < unat (io_shard_count (fi_options fi))" by (rule ShardFor_less [OF assms(1)])
  then obtain s where s: "sd_shards (fi_shard_directory fi) ! unat (ShardFor fi ?k) = Some s"
    "ss_realtime_delta s = ut_realtime_shards route ! unat (ShardFor fi ?k)"
    using assms(3) by (auto simp: feeds_index_def)
  have "ss_realtime_delta s = Some p" using s(2) p shard by (simp add: route_table_def)
  then have "ss_Get h' s ?k = Inr (Some \<lparr>row_layout = Some L, row_encoded = Some e\<rparr>)" using g by (simp add: ss_Get_def)
  moreover have "sd_Load (fi_shard_directory fi) (ShardFor fi ?k) = Inr (Some s)"
    using less s(1) assms(1) by (simp add: sd_Load_def fi_ok_def word_less_nat_alt not_le)
  ultimately have "fi_Get h' fi ?k = Inr (Some \<lparr>row_layout = Some L, row_encoded = Some e\<rparr>)" by (simp add: fi_Get_def)
  with d sp show ?thesis by blast
qed

theorem applied_update_is_read_witness:
  "\<exists>L h' r. Compile demo_schema = Inr L \<and> Apply (two_targets L) (demo_message 5) (fresh_tables L) = (Inr (), h')
    \<and> fi_Get h' one_shard_index 7 = Inr (Some r) \<and> shows_payload L demo_payload r"
proof -
  obtain L h' where L: "Compile demo_schema = Inr L" "layout_ok L"
    and a: "Apply (two_targets L) (demo_message 5) (fresh_tables L) = (Inr (), h')" by (rule demo_applied)
  note D = demo_setting [OF L(1)]
  have r: "demo_route L 0 \<in> set (ua_targets (two_targets L))" "ut_layout (demo_route L 0) = Some L"
    by (simp_all add: two_targets_def demo_route_def)
  have fi: "one_shard_index = \<lparr>fi_options = \<lparr>io_mode = kRealtimeDelta, io_shard_count = 1, io_hash_seed = 0,
     io_hash_version = 1, io_kafka_consumer = \<lparr>kc_bootstrap_servers = [], kc_group_id = [], kc_topics = []\<rparr>\<rparr>,
     fi_shard_directory = \<lparr>sd_shard_count = 1, sd_shards = [Some (NewShardState 0 1 \<lparr>ly_realtime_delta = Some 0,
       ly_compact_delta = None, ly_full_snapshot = None\<rparr>)]\<rparr>, fi_next_load_id = 1, fi_loads = Map.empty,
     fi_load_cancellations = Map.empty, fi_load_workers = []\<rparr>"
    by (simp add: one_shard_index_def publish_shard_def sd_Publish_def NewForwardIndex_def NewShardDirectory_def IsPowerOfTwo_def
        ForwardIndexModeUsesKafkaRealtime_def)
  have "fi_ok one_shard_index" by (simp add: fi fi_ok_def sd_ok_def IsPowerOfTwo_def)
  moreover have "feeds_index (demo_route L 0) one_shard_index"
    by (simp add: fi feeds_index_def demo_route_def NewShardState_def)
  ultimately show ?thesis
    using applied_update_is_read [OF _ r(1) _ D(1,2) a r(2) L(2) D(6)] D(5) [of 5] D(9,10) a L(1)
    by (auto simp: demo_message_def)
qed

end
